(* ===== verification/Prelude.thy ===== *)
theory Prelude
  imports Complex_Main "HOL-Library.AList" "HOL-Library.Char_ord" "HOL-Library.List_Lexorder"
    "HOL-Library.Multiset" "HOL-Library.Word"
begin

section \<open>Shared vocabulary of the PawFlow development\<close>

text \<open>
  What the component theories share: Python exceptions as values (\<open>py_error\<close>, with the result
  type \<open>'a res\<close>), JSON documents (\<open>json\<close>) with Python's equality, membership and truth value,
  Python's \<open>int(s)\<close>, \<open>str.strip\<close> and \<open>str.split\<close> on ASCII strings, insertion-ordered
  dictionaries as association lists (\<open>AList.update\<close> keeps the position of an existing key and
  appends a new one, as Python's \<open>dict\<close> does), stable sorting in both directions, and the generic
  lemmas the component proofs use.  Times and money are \<open>real\<close>: the floats of the source without
  their rounding.
\<close>

named_theorems pf_defs \<open>definitions unfolded by the component proofs\<close>
named_theorems pf_inv \<open>invariant preservation\<close>

subsection \<open>Exceptions\<close>

datatype py_error =
    ValueError string
  | KeyError string
  | TypeError string
  | IndexError string
  | AttributeError string
  | RuntimeError string
  | BudgetExceededError string
  | AuthorizationContextError string
  | StaleRevisionError string
  | ServiceError string
  | FlowError string
  | FlowUpdateError string
  | TaskError string
  | OutOfFuel

type_synonym 'a res = "py_error + 'a"

definition bind_res :: "'a res \<Rightarrow> ('a \<Rightarrow> 'b res) \<Rightarrow> 'b res" where
  "bind_res m f = (case m of Inl e \<Rightarrow> Inl e | Inr x \<Rightarrow> f x)"

lemma bind_res_simps [simp]:
  "bind_res (Inl e) f = Inl e"
  "bind_res (Inr x) f = f x"
  by (simp_all add: bind_res_def)

lemma bind_res_Inr_iff: "bind_res m f = Inr y \<longleftrightarrow> (\<exists>x. m = Inr x \<and> f x = Inr y)"
  by (cases m) simp_all

lemma bind_res_Inl_iff:
  "bind_res m f = Inl e \<longleftrightarrow> m = Inl e \<or> (\<exists>x. m = Inr x \<and> f x = Inl e)"
  by (cases m) simp_all

text \<open>A loop whose body may raise: the first exception ends it.\<close>

fun fold_res :: "('a \<Rightarrow> 's \<Rightarrow> 's res) \<Rightarrow> 'a list \<Rightarrow> 's \<Rightarrow> 's res" where
  "fold_res f [] s = Inr s"
| "fold_res f (x # xs) s = bind_res (f x s) (fold_res f xs)"

lemma fold_res_invariant:
  assumes "fold_res f xs s = Inr s'" and "I s"
    and "\<And>x a b. x \<in> set xs \<Longrightarrow> I a \<Longrightarrow> f x a = Inr b \<Longrightarrow> I b"
  shows "I s'"
  using assms
proof (induction xs arbitrary: s)
  case Nil
  then show ?case by simp
next
  case (Cons x xs)
  then obtain t where "f x s = Inr t" and "fold_res f xs t = Inr s'"
    by (auto simp: bind_res_Inr_iff)
  with Cons show ?case by (meson list.set_intros)
qed

lemma fold_res_total:
  assumes "\<And>x a. x \<in> set xs \<Longrightarrow> \<exists>b. f x a = Inr b"
  shows "\<exists>s'. fold_res f xs s = Inr s'"
  using assms
proof (induction xs arbitrary: s)
  case Nil
  then show ?case by simp
next
  case (Cons x xs)
  then obtain t where "f x s = Inr t" by (meson list.set_intros(1))
  with Cons show ?case by simp
qed

subsection \<open>Strings: whitespace, \<open>strip\<close>, \<open>split\<close> and \<open>int\<close>\<close>

definition is_ws :: "char \<Rightarrow> bool" where
  "is_ws c \<longleftrightarrow> (let n = (of_char c :: nat) in (9 \<le> n \<and> n \<le> 13) \<or> (28 \<le> n \<and> n \<le> 32))"

definition py_strip :: "string \<Rightarrow> string" where
  "py_strip s = rev (dropWhile is_ws (rev (dropWhile is_ws s)))"

definition is_digit :: "char \<Rightarrow> bool" where
  "is_digit c \<longleftrightarrow> (let n = (of_char c :: nat) in 48 \<le> n \<and> n \<le> 57)"

definition digit_value :: "char \<Rightarrow> nat" where
  "digit_value c = (of_char c :: nat) - 48"

text \<open>Decimal digits with single underscores between them, as \<open>int()\<close> accepts.\<close>

fun py_digits :: "nat \<Rightarrow> bool \<Rightarrow> string \<Rightarrow> nat option" where
  "py_digits acc prev [] = (if prev then Some acc else None)"
| "py_digits acc prev (c # cs) =
     (if is_digit c then py_digits (10 * acc + digit_value c) True cs
      else if c = CHR ''_'' \<and> prev then py_digits acc False cs
      else None)"

definition py_int :: "string \<Rightarrow> int option" where
  "py_int s = (case py_strip s of
       [] \<Rightarrow> None
     | c # cs \<Rightarrow>
         (if c = CHR ''-'' then map_option (\<lambda>n. - int n) (py_digits 0 False cs)
          else if c = CHR ''+'' then map_option int (py_digits 0 False cs)
          else map_option int (py_digits 0 False (c # cs))))"

text \<open>\<open>s.split()\<close>: maximal runs of non-whitespace.\<close>

fun py_split_ws :: "string \<Rightarrow> string \<Rightarrow> string list" where
  "py_split_ws cur [] = (if cur = [] then [] else [rev cur])"
| "py_split_ws cur (c # cs) =
     (if is_ws c then (if cur = [] then py_split_ws [] cs else rev cur # py_split_ws [] cs)
      else py_split_ws (c # cur) cs)"

text \<open>\<open>s.split(sep)\<close> for a one-character separator.\<close>

fun py_split_on :: "char \<Rightarrow> string \<Rightarrow> string \<Rightarrow> string list" where
  "py_split_on sep cur [] = [rev cur]"
| "py_split_on sep cur (c # cs) =
     (if c = sep then rev cur # py_split_on sep [] cs else py_split_on sep (c # cur) cs)"

fun py_startswith :: "string \<Rightarrow> string \<Rightarrow> bool" where
  "py_startswith s [] = True"
| "py_startswith [] (p # ps) = False"
| "py_startswith (c # cs) (p # ps) = (c = p \<and> py_startswith cs ps)"

lemma py_startswith_iff: "py_startswith s p \<longleftrightarrow> (\<exists>r. s = p @ r)"
  by (induction s p rule: py_startswith.induct) auto

fun py_str_in :: "string \<Rightarrow> string \<Rightarrow> bool" where
  "py_str_in p [] = (p = [])"
| "py_str_in p (c # cs) = (py_startswith (c # cs) p \<or> py_str_in p cs)"

lemma py_str_in_iff: "py_str_in p s \<longleftrightarrow> (\<exists>x y. s = x @ p @ y)"
proof (induction s)
  case Nil
  then show ?case by auto
next
  case (Cons c s)
  have "(\<exists>x y. c # s = x @ p @ y) \<longleftrightarrow> (\<exists>y. c # s = p @ y) \<or> (\<exists>x y. s = x @ p @ y)"
    by (metis append_Cons append_Nil append_eq_Cons_conv)
  then show ?case using Cons.IH by (auto simp: py_startswith_iff)
qed

text \<open>ASCII \<open>str.lower\<close>.\<close>

definition py_lower_char :: "char \<Rightarrow> char" where
  "py_lower_char c =
     (let n = (of_char c :: nat) in if 65 \<le> n \<and> n \<le> 90 then char_of (n + 32) else c)"

definition py_lower :: "string \<Rightarrow> string" where
  "py_lower s = map py_lower_char s"

lemma py_lower_char_idem [simp]: "py_lower_char (py_lower_char c) = py_lower_char c"
  by (simp add: py_lower_char_def Let_def)

lemma py_lower_idem [simp]: "py_lower (py_lower s) = py_lower s"
  by (simp add: py_lower_def)

lemma py_lower_Nil [simp]: "py_lower s = [] \<longleftrightarrow> s = []"
  by (simp add: py_lower_def)

text \<open>\<open>str(value or "").strip()\<close> that must not be empty.\<close>

definition required :: "string \<Rightarrow> string \<Rightarrow> string res" where
  "required value field =
     (let r = py_strip value in
      if r = [] then Inl (ValueError (field @ '' is required'')) else Inr r)"

lemma py_strip_idem [simp]: "py_strip (py_strip s) = py_strip s"
proof -
  let ?t = "dropWhile is_ws s"
  let ?u = "rev (dropWhile is_ws (rev ?t))"
  have "dropWhile is_ws ?u = ?u"
  proof (cases ?u)
    case (Cons c cs)
    have "?u @ rev (takeWhile is_ws (rev ?t)) = ?t"
      by (simp flip: rev_append)
    with Cons have "\<not> is_ws c" by (metis append_Cons hd_dropWhile list.distinct(1) list.sel(1))
    with Cons show ?thesis by simp
  next
    case Nil
    then show ?thesis by (simp only: Nil dropWhile.simps)
  qed
  then show ?thesis by (simp add: py_strip_def)
qed

lemma py_strip_no_ws:
  assumes "\<forall>c \<in> set s. \<not> is_ws c"
  shows "py_strip s = s"
proof -
  have self: "dropWhile is_ws xs = xs" if "\<forall>c \<in> set xs. \<not> is_ws c" for xs
    using that by (cases xs) auto
  show ?thesis using self [of s] self [of "rev s"] assms by (simp add: py_strip_def)
qed

lemma required_Inr: "required v f = Inr r \<longleftrightarrow> r = py_strip v \<and> r \<noteq> []"
  by (auto simp: required_def Let_def)

lemma is_ws_lower [simp]: "is_ws (py_lower_char c) = is_ws c"
  by (auto simp: is_ws_def py_lower_char_def Let_def)

lemma py_strip_lower: "py_strip (py_lower s) = py_lower (py_strip s)"
proof -
  have "dropWhile is_ws (py_lower xs) = py_lower (dropWhile is_ws xs)" for xs
    by (simp add: py_lower_def dropWhile_map comp_def)
  then show ?thesis by (simp add: py_strip_def py_lower_def rev_map)
qed

subsection \<open>Dictionaries in insertion order\<close>

type_synonym ('k, 'v) dict = "('k \<times> 'v) list"

abbreviation dict_keys :: "('k, 'v) dict \<Rightarrow> 'k list" where
  "dict_keys d \<equiv> map fst d"

definition dict_get :: "('k, 'v) dict \<Rightarrow> 'k \<Rightarrow> 'v \<Rightarrow> 'v" where
  "dict_get d k dflt = (case map_of d k of None \<Rightarrow> dflt | Some v \<Rightarrow> v)"

lemma dict_get_update [simp]:
  "dict_get (AList.update k v d) k' dflt = (if k = k' then v else dict_get d k' dflt)"
  by (simp add: dict_get_def update_conv')

lemma dict_keys_update:
  "set (dict_keys (AList.update k v d)) = insert k (set (dict_keys d))"
  by (simp add: dom_update)

text \<open>\<open>list(dict.fromkeys(xs))\<close>: the first occurrence of each element, in order.\<close>

lemma set_update_subset: "set (AList.update k v d) \<subseteq> insert (k, v) (set d)"
  by (induction d) auto

fun dedup :: "'a list \<Rightarrow> 'a list" where
  "dedup [] = []"
| "dedup (x # xs) = x # filter (\<lambda>y. y \<noteq> x) (dedup xs)"

lemma set_dedup [simp]: "set (dedup xs) = set xs"
  by (induction xs) auto

lemma distinct_dedup [simp]: "distinct (dedup xs)"
  by (induction xs) auto

lemma find_SomeD: "find P xs = Some x \<Longrightarrow> x \<in> set xs \<and> P x"
  by (induction xs) (auto split: if_splits)

lemma find_unique:
  assumes "x \<in> set xs" "P x" "\<And>y. y \<in> set xs \<Longrightarrow> P y \<Longrightarrow> y = x"
  shows "find P xs = Some x"
proof (cases "find P xs")
  case None
  then show ?thesis using assms(1,2) by (auto simp: find_None_iff)
next
  case (Some y)
  then show ?thesis using assms(3) [of y] find_SomeD [OF Some] by simp
qed

lemma concat_map_singles: "(\<And>x. x \<in> set xs \<Longrightarrow> f x = [g x]) \<Longrightarrow> concat (map f xs) = map g xs"
  by (induction xs) auto

lemma filter_key_take:
  assumes "distinct (map f xs)"
  shows "filter (\<lambda>x. f x \<in> f ` set (take n xs)) xs = take n xs"
  using assms
proof (induction xs arbitrary: n)
  case (Cons x xs)
  show ?case
  proof (cases n)
    case (Suc k)
    have "filter (\<lambda>y. f y = f x \<or> f y \<in> f ` set (take k xs)) xs = filter (\<lambda>y. f y \<in> f ` set (take k xs)) xs"
      using Cons.prems by (intro filter_cong refl) (force simp: image_iff)
    then show ?thesis using Cons Suc by simp
  qed simp
qed simp

lemma filter_notin_take: "distinct xs \<Longrightarrow> filter (\<lambda>x. x \<notin> set (take n xs)) xs = drop n xs"
proof (induction xs arbitrary: n)
  case (Cons x xs)
  show ?case
  proof (cases n)
    case (Suc k)
    have "filter (\<lambda>y. y \<noteq> x \<and> y \<notin> set (take k xs)) xs = filter (\<lambda>y. y \<notin> set (take k xs)) xs"
      using Cons.prems by (intro filter_cong) auto
    then show ?thesis using Cons Suc by simp
  qed simp
qed simp

subsection \<open>Stable sorting\<close>

text \<open>
  \<open>sorted(xs, key=f)\<close> is \<open>sort_key f xs\<close>; with \<open>reverse=True\<close> Python reverses, sorts stably
  and reverses again, so that equal elements keep their order.
\<close>

definition sort_key_desc :: "('a \<Rightarrow> 'k::linorder) \<Rightarrow> 'a list \<Rightarrow> 'a list" where
  "sort_key_desc f xs = rev (sort_key f (rev xs))"

lemma mset_sort_key_desc [simp]: "mset (sort_key_desc f xs) = mset xs"
  by (simp add: sort_key_desc_def)

lemma set_sort_key_desc [simp]: "set (sort_key_desc f xs) = set xs"
  by (simp add: sort_key_desc_def)

lemma length_sort_key_desc [simp]: "length (sort_key_desc f xs) = length xs"
  by (simp add: sort_key_desc_def)

lemma sort_key_desc_sorted: "sorted_wrt (\<lambda>a b. f b \<le> f a) (sort_key_desc f xs)"
proof -
  have "sorted_wrt (\<lambda>a b. f a \<le> f b) (sort_key f (rev xs))"
    using sorted_sort_key [of f "rev xs"] by (simp add: sorted_wrt_map)
  then show ?thesis
    by (simp add: sort_key_desc_def sorted_wrt_rev)
qed

lemma sort_key_desc_stable:
  "filter (\<lambda>x. f x = k) (sort_key_desc f xs) = filter (\<lambda>x. f x = k) xs"
proof -
  have "filter (\<lambda>x. f x = k) (sort_key_desc f xs) =
        rev (filter (\<lambda>x. f x = k) (sort_key f (rev xs)))"
    by (simp add: sort_key_desc_def rev_filter)
  also have "\<dots> = rev (filter (\<lambda>x. f x = k) (rev xs))"
    by (simp add: sort_key_stable)
  finally show ?thesis by (simp add: rev_filter)
qed

subsection \<open>Invariants of a store\<close>

text \<open>
  The interface of a store whose operations are steps between its states: an invariant of the
  initial states that every step keeps, and, in the extension, a relation between the states before
  and after that every step keeps and that composes.  Each store interprets it on its own steps.
\<close>

locale store_system =
  fixes init :: "'s \<Rightarrow> bool" and step :: "'s \<Rightarrow> 's \<Rightarrow> bool" and inv :: "'s \<Rightarrow> bool"
  assumes init_inv: "init s \<Longrightarrow> inv s"
    and step_inv: "step s s' \<Longrightarrow> inv s \<Longrightarrow> inv s'"
begin

lemma steps_inv: "step\<^sup>*\<^sup>* s s' \<Longrightarrow> inv s \<Longrightarrow> inv s'"
  by (induction rule: rtranclp_induct) (auto intro: step_inv)

lemma reachable_inv: "init s \<Longrightarrow> step\<^sup>*\<^sup>* s s' \<Longrightarrow> inv s'"
  by (blast intro: init_inv steps_inv)

end

locale evolving_store = store_system init step inv
  for init :: "'s \<Rightarrow> bool" and step :: "'s \<Rightarrow> 's \<Rightarrow> bool" and inv :: "'s \<Rightarrow> bool" +
  fixes rel :: "'s \<Rightarrow> 's \<Rightarrow> bool"
  assumes rel_refl: "rel s s"
    and rel_trans: "rel s s' \<Longrightarrow> rel s' s'' \<Longrightarrow> rel s s''"
    and step_rel: "step s s' \<Longrightarrow> inv s \<Longrightarrow> rel s s'"
begin

lemma steps_rel: "step\<^sup>*\<^sup>* s s' \<Longrightarrow> inv s \<Longrightarrow> rel s s'"
proof (induction rule: rtranclp_induct)
  case base
  show ?case by (rule rel_refl)
next
  case (step y z)
  then have "rel s y" and "rel y z" by (auto intro: step_rel steps_inv)
  then show ?case by (rule rel_trans)
qed

lemma reachable_rel: "init s0 \<Longrightarrow> step\<^sup>*\<^sup>* s0 s \<Longrightarrow> step\<^sup>*\<^sup>* s s' \<Longrightarrow> rel s s'"
  by (blast intro: steps_rel reachable_inv)

end

subsection \<open>Sums over lists\<close>

lemma sum_list_map_mset_cong:
  fixes f :: "'a \<Rightarrow> 'b::comm_monoid_add"
  assumes "mset xs = mset ys"
  shows "sum_list (map f xs) = sum_list (map f ys)"
proof -
  have "sum_mset (mset (map f xs)) = sum_mset (mset (map f ys))"
    using assms by simp
  then show ?thesis by (simp only: sum_mset_sum_list)
qed

lemma sum_list_remove1:
  fixes f :: "'a \<Rightarrow> nat"
  assumes "x \<in> set xs"
  shows "sum_list (map f (remove1 x xs)) + f x = sum_list (map f xs)"
  using assms by (induction xs) auto

end
