(* ===== verification/FlowFiles.thy ===== *)
theory FlowFiles
  imports Prelude
begin

section \<open>FlowFiles\<close>

text \<open>
  \<open>core/__init__.py\<close>, class \<open>FlowFile\<close>: the data unit that moves through a flow.  Python
  compares FlowFiles by object identity (the class defines no \<open>__eq__\<close>), so the record carries an
  object number \<open>ff_oid\<close>; \<open>process_id\<close> may be chosen by the caller and need not be unique.
  The content is the byte string; whether it lives in memory or was spilled to disk is invisible to
  \<open>size\<close> and is not part of the model, nor are the reference counts of \<open>core/stream.py\<close>.
\<close>

record flowfile =
  ff_oid :: nat
  ff_process_id :: string
  ff_attributes :: "(string, string) dict"
  ff_content :: "8 word list"

text \<open>\<open>FlowFile.__init__\<close>: a missing process id is replaced by a fresh one.\<close>

definition new_flowfile ::
    "nat \<Rightarrow> string \<Rightarrow> 8 word list \<Rightarrow> (string, string) dict \<Rightarrow> string option \<Rightarrow> flowfile" where
  "new_flowfile oid fresh content attrs pid =
     \<lparr>ff_oid = oid,
      ff_process_id = (case pid of None \<Rightarrow> fresh | Some p \<Rightarrow> if p = [] then fresh else p),
      ff_attributes = attrs, ff_content = content\<rparr>"

definition get_attribute :: "flowfile \<Rightarrow> string \<Rightarrow> string option" where
  "get_attribute ff key = map_of (ff_attributes ff) key"

definition set_attribute :: "string \<Rightarrow> string \<Rightarrow> flowfile \<Rightarrow> flowfile" where
  "set_attribute key value ff = ff\<lparr>ff_attributes := AList.update key value (ff_attributes ff)\<rparr>"

definition delete_attribute :: "string \<Rightarrow> flowfile \<Rightarrow> flowfile" where
  "delete_attribute key ff = ff\<lparr>ff_attributes := AList.delete key (ff_attributes ff)\<rparr>"

definition set_content :: "8 word list \<Rightarrow> flowfile \<Rightarrow> flowfile" where
  "set_content content ff = ff\<lparr>ff_content := content\<rparr>"

definition ff_size :: "flowfile \<Rightarrow> nat" where
  "ff_size ff = length (ff_content ff)"

definition ff_is_empty :: "flowfile \<Rightarrow> bool" where
  "ff_is_empty ff \<longleftrightarrow> ff_size ff = 0"

text \<open>
  \<open>FlowFile.clone\<close>: a new object with a fresh process id, a copy of the attributes and the same
  bytes (a deep clone copies them, a shallow one shares them).
\<close>

definition clone :: "nat \<Rightarrow> string \<Rightarrow> flowfile \<Rightarrow> flowfile" where
  "clone oid fresh ff = ff\<lparr>ff_oid := oid, ff_process_id := fresh\<rparr>"

lemma get_set_attribute [simp]:
  "get_attribute (set_attribute k v ff) k' = (if k = k' then Some v else get_attribute ff k')"
  by (simp add: get_attribute_def set_attribute_def update_conv')

lemma get_delete_attribute [simp]:
  "get_attribute (delete_attribute k ff) k' = (if k = k' then None else get_attribute ff k')"
  by (simp add: get_attribute_def delete_attribute_def delete_conv')

lemma ff_size_attribute [simp]:
  "ff_size (set_attribute k v ff) = ff_size ff"
  "ff_size (delete_attribute k ff) = ff_size ff"
  by (simp_all add: ff_size_def set_attribute_def delete_attribute_def)

lemma clone_frame [simp]:
  "ff_size (clone oid fresh ff) = ff_size ff"
  "get_attribute (clone oid fresh ff) k = get_attribute ff k"
  "ff_process_id (clone oid fresh ff) = fresh"
  "ff_oid (clone oid fresh ff) = oid"
  by (simp_all add: ff_size_def get_attribute_def clone_def)

end
