(* ===== verification/Prioritizer.thy ===== *)
theory Prioritizer
  imports FlowFiles
begin

section \<open>The prioritised queue\<close>

text \<open>
  \<open>core/prioritizer.py\<close>.  In \<open>PRIORITY_ATTRIBUTE\<close> mode the queue is a dictionary from a
  priority to a FIFO deque, with a running total; in the other modes it is one list, sorted by the
  \<open>timestamp\<close> attribute when an element is taken.  The lock of the class makes every method
  atomic, so a method is a function from the queue to its result and the queue it leaves.

  \<open>pq_inv\<close> is the representation invariant, \<open>pq_contents\<close> the elements in the order in which
  \<open>peek_all\<close> lists them.  The locale \<open>bounded_queue\<close> states what the connection layer relies
  on; its interpretation \<open>pq\<close> discharges the laws for the definitions below.
\<close>

datatype prioritizer_type = FIFO | NEWEST_FIRST | OLDEST_FIRST | PRIORITY_ATTRIBUTE

record prioritized_queue =
  pq_type :: prioritizer_type
  pq_max_size :: int
  pq_priority_attribute :: string
  pq_queues :: "(int, flowfile list) dict"
  pq_total :: int
  pq_items :: "flowfile list"

definition pq_init :: "prioritizer_type \<Rightarrow> int \<Rightarrow> string \<Rightarrow> prioritized_queue" where
  "pq_init t n attr =
     \<lparr>pq_type = t, pq_max_size = n, pq_priority_attribute = attr,
      pq_queues = [], pq_total = 0, pq_items = []\<rparr>"

text \<open>\<open>int(val) if val else 0\<close>, and 0 when \<open>int\<close> raises.\<close>

definition get_ff_priority :: "string \<Rightarrow> flowfile \<Rightarrow> int" where
  "get_ff_priority attr ff =
     (case get_attribute ff attr of
        None \<Rightarrow> 0
      | Some val \<Rightarrow> if val = [] then 0 else (case py_int val of None \<Rightarrow> 0 | Some n \<Rightarrow> n))"

definition pq_put :: "flowfile \<Rightarrow> prioritized_queue \<Rightarrow> bool \<times> prioritized_queue" where
  "pq_put ff q =
     (if pq_type q = PRIORITY_ATTRIBUTE then
        if pq_total q \<ge> pq_max_size q then (False, q)
        else let prio = get_ff_priority (pq_priority_attribute q) ff in
          (True, q\<lparr>pq_queues := AList.update prio (dict_get (pq_queues q) prio [] @ [ff]) (pq_queues q),
                   pq_total := pq_total q + 1\<rparr>)
      else
        if int (length (pq_items q)) \<ge> pq_max_size q then (False, q)
        else (True, q\<lparr>pq_items := pq_items q @ [ff]\<rparr>))"

text \<open>The priorities, highest first: \<open>sorted(self._priority_queues.keys(), reverse=True)\<close>.\<close>

definition pq_prios :: "prioritized_queue \<Rightarrow> int list" where
  "pq_prios q = rev (sort (dict_keys (pq_queues q)))"

text \<open>The loop of \<open>get\<close>: the first priority with a non-empty deque.\<close>

fun pq_first :: "(int, flowfile list) dict \<Rightarrow> int list \<Rightarrow> (int \<times> flowfile \<times> flowfile list) option" where
  "pq_first d [] = None"
| "pq_first d (p # ps) =
     (case dict_get d p [] of
        [] \<Rightarrow> pq_first d ps
      | ff # rest \<Rightarrow> Some (p, ff, rest))"

definition timestamp_key :: "flowfile \<Rightarrow> string" where
  "timestamp_key ff = (case get_attribute ff ''timestamp'' of None \<Rightarrow> [] | Some t \<Rightarrow> t)"

definition pq_get :: "prioritized_queue \<Rightarrow> flowfile option \<times> prioritized_queue" where
  "pq_get q =
     (if pq_type q = PRIORITY_ATTRIBUTE then
        if pq_total q = 0 then (None, q)
        else (case pq_first (pq_queues q) (pq_prios q) of
            None \<Rightarrow> (None, q)
          | Some (p, ff, rest) \<Rightarrow>
              (Some ff,
               q\<lparr>pq_queues := (if rest = [] then AList.delete p (pq_queues q)
                               else AList.update p rest (pq_queues q)),
                 pq_total := pq_total q - 1\<rparr>))
      else
        (let items = (case pq_type q of
             NEWEST_FIRST \<Rightarrow> sort_key_desc timestamp_key (pq_items q)
           | OLDEST_FIRST \<Rightarrow> sort_key timestamp_key (pq_items q)
           | _ \<Rightarrow> pq_items q)
         in case items of
              [] \<Rightarrow> (None, q)
            | ff # rest \<Rightarrow> (Some ff, q\<lparr>pq_items := rest\<rparr>)))"

definition pq_peek :: "prioritized_queue \<Rightarrow> flowfile option" where
  "pq_peek q =
     (if pq_type q = PRIORITY_ATTRIBUTE then
        map_option (\<lambda>(p, ff, rest). ff) (pq_first (pq_queues q) (pq_prios q))
      else (case pq_items q of [] \<Rightarrow> None | ff # _ \<Rightarrow> Some ff))"

text \<open>
  The loops of \<open>peek_all\<close> in priority mode: the element is appended before the length is compared
  with the limit, so a non-empty queue yields one element even for a limit below one.
\<close>

fun take_until :: "int \<Rightarrow> flowfile list \<Rightarrow> flowfile list \<Rightarrow> flowfile list" where
  "take_until limit acc [] = acc"
| "take_until limit acc (ff # ffs) =
     (let acc' = acc @ [ff] in
      if int (length acc') \<ge> limit then acc' else take_until limit acc' ffs)"

text \<open>Python's \<open>xs[:limit]\<close>.\<close>

definition slice_to :: "int \<Rightarrow> 'a list \<Rightarrow> 'a list" where
  "slice_to limit xs =
     (if limit \<ge> 0 then take (nat limit) xs else take (nat (int (length xs) + limit)) xs)"

definition pq_peek_all :: "int \<Rightarrow> prioritized_queue \<Rightarrow> flowfile list" where
  "pq_peek_all limit q =
     (if pq_type q = PRIORITY_ATTRIBUTE then
        take_until limit [] (concat (map (\<lambda>p. dict_get (pq_queues q) p []) (pq_prios q)))
      else slice_to limit (pq_items q))"

text \<open>\<open>list.remove\<close> and \<open>deque.remove\<close>: the first element that is the same object.\<close>

fun remove_obj :: "flowfile \<Rightarrow> flowfile list \<Rightarrow> flowfile list option" where
  "remove_obj ff [] = None"
| "remove_obj ff (x # xs) =
     (if ff_oid x = ff_oid ff then Some xs else map_option (Cons x) (remove_obj ff xs))"

text \<open>The loop of \<open>remove\<close> over the deques in insertion order.\<close>

fun pq_remove_from :: "flowfile \<Rightarrow> (int, flowfile list) dict \<Rightarrow> (int, flowfile list) dict option" where
  "pq_remove_from ff [] = None"
| "pq_remove_from ff ((p, xs) # d) =
     (case remove_obj ff xs of
        None \<Rightarrow> map_option (Cons (p, xs)) (pq_remove_from ff d)
      | Some [] \<Rightarrow> Some d
      | Some xs' \<Rightarrow> Some ((p, xs') # d))"

definition pq_remove :: "flowfile \<Rightarrow> prioritized_queue \<Rightarrow> bool \<times> prioritized_queue" where
  "pq_remove ff q =
     (if pq_type q = PRIORITY_ATTRIBUTE then
        (case pq_remove_from ff (pq_queues q) of
           None \<Rightarrow> (False, q)
         | Some d \<Rightarrow> (True, q\<lparr>pq_queues := d, pq_total := pq_total q - 1\<rparr>))
      else
        (case remove_obj ff (pq_items q) of
           None \<Rightarrow> (False, q)
         | Some xs \<Rightarrow> (True, q\<lparr>pq_items := xs\<rparr>)))"

definition pq_size :: "prioritized_queue \<Rightarrow> int" where
  "pq_size q =
     (if pq_type q = PRIORITY_ATTRIBUTE then pq_total q else int (length (pq_items q)))"

definition pq_is_full :: "prioritized_queue \<Rightarrow> bool" where
  "pq_is_full q \<longleftrightarrow>
     (if pq_type q = PRIORITY_ATTRIBUTE then pq_total q \<ge> pq_max_size q
      else int (length (pq_items q)) \<ge> pq_max_size q)"

definition pq_is_empty :: "prioritized_queue \<Rightarrow> bool" where
  "pq_is_empty q \<longleftrightarrow>
     (if pq_type q = PRIORITY_ATTRIBUTE then pq_total q = 0 else pq_items q = [])"

definition pq_clear :: "prioritized_queue \<Rightarrow> prioritized_queue" where
  "pq_clear q =
     (if pq_type q = PRIORITY_ATTRIBUTE then q\<lparr>pq_queues := [], pq_total := 0\<rparr>
      else q\<lparr>pq_items := []\<rparr>)"


subsection \<open>The interface the connection layer relies on\<close>

text \<open>
  A bounded queue: \<open>put\<close> refuses exactly when the queue is full and otherwise adds the element,
  \<open>get\<close> gives back some element that is in the queue, or nothing when it is empty.
\<close>

text \<open>Putting a list of elements back, ignoring the results, as \<open>for ff in xs: q.put(ff)\<close> does.\<close>

fun put_all :: "('e \<Rightarrow> 'q \<Rightarrow> bool \<times> 'q) \<Rightarrow> 'e list \<Rightarrow> 'q \<Rightarrow> 'q" where
  "put_all put [] q = q"
| "put_all put (x # xs) q = put_all put xs (snd (put x q))"

locale bounded_queue =
  fixes put :: "'e \<Rightarrow> 'q \<Rightarrow> bool \<times> 'q"
    and get :: "'q \<Rightarrow> 'e option \<times> 'q"
    and is_empty :: "'q \<Rightarrow> bool"
    and capacity :: "'q \<Rightarrow> int"
    and items :: "'q \<Rightarrow> 'e multiset"
    and invar :: "'q \<Rightarrow> bool"
  assumes put_full: "invar q \<Longrightarrow> capacity q \<le> int (size (items q)) \<Longrightarrow> put x q = (False, q)"
    and put_room: "invar q \<Longrightarrow> int (size (items q)) < capacity q \<Longrightarrow>
      fst (put x q) \<and> items (snd (put x q)) = add_mset x (items q) \<and>
      invar (snd (put x q)) \<and> capacity (snd (put x q)) = capacity q"
    and get_empty: "invar q \<Longrightarrow> items q = {#} \<Longrightarrow> get q = (None, q)"
    and get_some: "invar q \<Longrightarrow> items q \<noteq> {#} \<Longrightarrow>
      \<exists>x q'. get q = (Some x, q') \<and> items q = add_mset x (items q') \<and>
        invar q' \<and> capacity q' = capacity q"
    and empty_iff: "invar q \<Longrightarrow> is_empty q \<longleftrightarrow> items q = {#}"
begin

lemma put_items:
  assumes "invar q"
  shows "items (snd (put x q)) = (if fst (put x q) then add_mset x (items q) else items q)"
  using assms put_full put_room by (cases "int (size (items q)) < capacity q") auto

lemma put_accepts_iff:
  assumes "invar q"
  shows "fst (put x q) \<longleftrightarrow> int (size (items q)) < capacity q"
  using assms put_full put_room by (cases "int (size (items q)) < capacity q") auto

lemma put_invar: "invar q \<Longrightarrow> invar (snd (put x q)) \<and> capacity (snd (put x q)) = capacity q"
  using put_full put_room by (cases "int (size (items q)) < capacity q") auto

lemma put_all_fits:
  assumes "invar q" and "int (size (items q) + length xs) \<le> capacity q"
  shows "items (put_all put xs q) = items q + mset xs \<and> invar (put_all put xs q) \<and>
    capacity (put_all put xs q) = capacity q"
  using assms
proof (induction xs arbitrary: q)
  case Nil
  then show ?case by simp
next
  case (Cons x xs)
  have room: "int (size (items q)) < capacity q"
    using Cons.prems(2) by simp
  note step = put_room [OF Cons.prems(1) room, of x]
  have "int (size (items (snd (put x q))) + length xs) \<le> capacity (snd (put x q))"
    using step Cons.prems(2) by simp
  with step Cons.IH [of "snd (put x q)"] show ?case by simp
qed

end

subsection \<open>Representation invariant and contents\<close>

definition pq_contents :: "prioritized_queue \<Rightarrow> flowfile list" where
  "pq_contents q =
     (if pq_type q = PRIORITY_ATTRIBUTE
      then concat (map (\<lambda>p. dict_get (pq_queues q) p []) (pq_prios q))
      else pq_items q)"

abbreviation pq_prio :: "prioritized_queue \<Rightarrow> flowfile \<Rightarrow> int" where
  "pq_prio q \<equiv> get_ff_priority (pq_priority_attribute q)"

definition pq_dict_ok :: "string \<Rightarrow> (int, flowfile list) dict \<Rightarrow> bool" where
  "pq_dict_ok attr d \<longleftrightarrow> distinct (dict_keys d) \<and>
     (\<forall>(p, xs) \<in> set d. xs \<noteq> [] \<and> (\<forall>ff \<in> set xs. get_ff_priority attr ff = p))"

definition pq_inv :: "prioritized_queue \<Rightarrow> bool" where
  "pq_inv q \<longleftrightarrow>
     (pq_type q = PRIORITY_ATTRIBUTE \<longrightarrow>
        pq_dict_ok (pq_priority_attribute q) (pq_queues q) \<and>
        pq_total q = int (length (pq_contents q)))"

lemma pq_dict_ok_get:
  assumes "pq_dict_ok attr d"
  shows "ff \<in> set (dict_get d p []) \<Longrightarrow> get_ff_priority attr ff = p"
    and "p \<in> set (dict_keys d) \<Longrightarrow> dict_get d p [] \<noteq> []"
    and "p \<notin> set (dict_keys d) \<Longrightarrow> dict_get d p [] = []"
proof -
  have *: "map_of d p = Some xs \<Longrightarrow> xs \<noteq> [] \<and> (\<forall>ff \<in> set xs. get_ff_priority attr ff = p)" for xs
    using assms by (auto simp: pq_dict_ok_def dest: map_of_SomeD)
  show "ff \<in> set (dict_get d p []) \<Longrightarrow> get_ff_priority attr ff = p"
    using * by (cases "map_of d p") (auto simp: dict_get_def)
  show "p \<in> set (dict_keys d) \<Longrightarrow> dict_get d p [] \<noteq> []"
    using * by (auto simp: dict_get_def map_of_eq_None_iff split: option.splits)
  show "p \<notin> set (dict_keys d) \<Longrightarrow> dict_get d p [] = []"
    by (simp add: dict_get_def map_of_eq_None_iff [THEN iffD2] del: map_of_eq_None_iff)
qed

subsubsection \<open>Lists grouped by a key in descending order\<close>

abbreviation desc :: "('a \<Rightarrow> int) \<Rightarrow> 'a list \<Rightarrow> bool" where
  "desc f xs \<equiv> sorted (map (\<lambda>x. - f x) xs)"

lemma filter_concat_groups:
  assumes "distinct ks" and "\<And>k x. k \<in> set ks \<Longrightarrow> x \<in> set (g k) \<Longrightarrow> f x = k"
  shows "filter (\<lambda>x. f x = p) (concat (map g ks)) = (if p \<in> set ks then g p else [])"
  using assms
proof (induction ks)
  case Nil
  then show ?case by simp
next
  case (Cons k ks)
  have "filter (\<lambda>x. f x = p) (g k) = (if k = p then g k else [])"
    using Cons.prems(2) [of k] by (auto simp: filter_empty_conv intro!: filter_True)
  with Cons show ?case by auto
qed

lemma desc_concat_groups:
  assumes "sorted_wrt (>) ks" and "\<And>k x. k \<in> set ks \<Longrightarrow> x \<in> set (g k) \<Longrightarrow> f x = k"
  shows "desc f (concat (map g ks))"
  using assms
proof (induction ks)
  case Nil
  then show ?case by simp
next
  case (Cons k ks)
  have "map (\<lambda>x. - f x) (g k) = replicate (length (g k)) (- k)"
    using Cons.prems(2) [of k] by (auto simp: map_replicate_const [symmetric])
  moreover have "\<forall>x \<in> set (concat (map g ks)). f x < k"
    using Cons.prems by fastforce
  ultimately show ?case
    using Cons by (auto simp: sorted_append) fastforce
qed

lemma mset_eq_by_groups:
  assumes "\<And>p. filter (\<lambda>x. f x = p) xs = filter (\<lambda>x. f x = p) ys"
  shows "mset xs = mset ys"
proof (rule multiset_eqI)
  fix x
  have "count (mset zs) x = count (mset (filter (\<lambda>y. f y = f x) zs)) x" for zs
    by (induction zs) auto
  then show "count (mset xs) x = count (mset ys) x"
    using assms by metis
qed

lemma stable_sort_unique:
  assumes "desc f xs" and "\<And>p. filter (\<lambda>x. f x = p) xs = filter (\<lambda>x. f x = p) ys"
  shows "sort_key (\<lambda>x. - f x) ys = xs"
proof (rule properties_for_sort_key)
  show "mset xs = mset ys" by (rule mset_eq_by_groups) (rule assms(2))
  fix k assume "k \<in> set xs"
  have "(\<lambda>x. - f k = - f x) = (\<lambda>x. f x = f k)" by auto
  then show "filter (\<lambda>x. - f k = - f x) xs = filter (\<lambda>x. - f k = - f x) ys"
    using assms(2) by simp
qed (rule assms(1))


lemma desc_unique:
  assumes "desc f xs" and "desc f ys"
    and "\<And>p. filter (\<lambda>x. f x = p) xs = filter (\<lambda>x. f x = p) ys"
  shows "xs = ys"
proof -
  have "sort_key (\<lambda>x. - f x) ys = xs" and "sort_key (\<lambda>x. - f x) ys = ys"
    using stable_sort_unique [of f] assms by blast+
  then show ?thesis by simp
qed

subsubsection \<open>Contents in priority mode\<close>

lemma pq_prios_desc: "distinct (dict_keys (pq_queues q)) \<Longrightarrow> sorted_wrt (>) (pq_prios q)"
  by (simp add: pq_prios_def sorted_wrt_rev strict_sorted_iff)

lemma set_pq_prios [simp]: "set (pq_prios q) = set (dict_keys (pq_queues q))"
  by (simp add: pq_prios_def)

lemma pq_contents_prio:
  assumes "pq_type q = PRIORITY_ATTRIBUTE" and "pq_dict_ok (pq_priority_attribute q) (pq_queues q)"
  shows "filter (\<lambda>x. pq_prio q x = p) (pq_contents q) = dict_get (pq_queues q) p []"
    and "desc (pq_prio q) (pq_contents q)"
proof -
  have dist: "distinct (pq_prios q)" and sw: "sorted_wrt (>) (pq_prios q)"
    using assms(2) pq_prios_desc [of q] by (auto simp: pq_dict_ok_def pq_prios_def)
  show "filter (\<lambda>x. pq_prio q x = p) (pq_contents q) = dict_get (pq_queues q) p []"
    using assms filter_concat_groups [OF dist, of "\<lambda>p. dict_get (pq_queues q) p []" "pq_prio q" p]
      pq_dict_ok_get [OF assms(2)]
    by (auto simp: pq_contents_def)
  show "desc (pq_prio q) (pq_contents q)"
    using assms(1) desc_concat_groups [OF sw, of "\<lambda>p. dict_get (pq_queues q) p []" "pq_prio q"]
      pq_dict_ok_get(1) [OF assms(2)]
    by (auto simp: pq_contents_def)
qed

lemma pq_contents_eqI:
  assumes "pq_type q = PRIORITY_ATTRIBUTE" and "pq_dict_ok (pq_priority_attribute q) (pq_queues q)"
    and "desc (pq_prio q) xs"
    and "\<And>p. filter (\<lambda>x. pq_prio q x = p) xs = dict_get (pq_queues q) p []"
  shows "pq_contents q = xs"
  using desc_unique [of "pq_prio q" "pq_contents q" xs] pq_contents_prio [OF assms(1,2)] assms(3,4)
  by simp

lemma pq_dict_ok_update:
  assumes "pq_dict_ok attr d" and "xs \<noteq> []" and "\<forall>ff \<in> set xs. get_ff_priority attr ff = p"
  shows "pq_dict_ok attr (AList.update p xs d)"
proof -
  have sub: "set (AList.update p xs d) \<subseteq> insert (p, xs) (set d)" for d :: "(int, flowfile list) dict"
    by (induction d) auto
  show ?thesis
    using assms sub [of d] by (fastforce simp: pq_dict_ok_def distinct_update)
qed

lemma pq_dict_ok_delete: "pq_dict_ok attr d \<Longrightarrow> pq_dict_ok attr (AList.delete p d)"
  using distinct_delete [of d p] by (auto simp: pq_dict_ok_def AList.delete_eq)

lemma dict_get_delete: "dict_get (AList.delete p d) p' dflt = (if p' = p then dflt else dict_get d p' dflt)"
  by (simp add: dict_get_def delete_conv')

subsubsection \<open>put\<close>

lemma pq_put_priority:
  assumes inv: "pq_inv q" and ty: "pq_type q = PRIORITY_ATTRIBUTE"
    and room: "int (length (pq_contents q)) < pq_max_size q"
  shows "pq_contents (snd (pq_put ff q)) = sort_key (\<lambda>x. - pq_prio q x) (pq_contents q @ [ff])"
    and "pq_inv (snd (pq_put ff q))" and "fst (pq_put ff q)"
proof -
  let ?p = "pq_prio q ff" and ?q = "snd (pq_put ff q)"
  have ok: "pq_dict_ok (pq_priority_attribute q) (pq_queues q)"
    and tot: "pq_total q = int (length (pq_contents q))"
    using inv ty by (auto simp: pq_inv_def)
  have q': "?q = q\<lparr>pq_queues := AList.update ?p (dict_get (pq_queues q) ?p [] @ [ff]) (pq_queues q),
                   pq_total := pq_total q + 1\<rparr>" and acc: "fst (pq_put ff q)"
    using ty room tot by (simp_all add: pq_put_def Let_def)
  have ok': "pq_dict_ok (pq_priority_attribute ?q) (pq_queues ?q)"
    using ok pq_dict_ok_get(1) [OF ok] by (auto simp: q' intro!: pq_dict_ok_update)
  have ty': "pq_type ?q = PRIORITY_ATTRIBUTE" and pr: "pq_prio ?q = pq_prio q"
    using ty by (simp_all add: q')
  have filt: "filter (\<lambda>x. pq_prio q x = p) (pq_contents ?q) =
      filter (\<lambda>x. pq_prio q x = p) (pq_contents q @ [ff])" for p
    using pq_contents_prio(1) [OF ty' ok', of p] pq_contents_prio(1) [OF ty ok, of p]
    by (simp add: pr) (simp add: q')
  show eq: "pq_contents ?q = sort_key (\<lambda>x. - pq_prio q x) (pq_contents q @ [ff])"
    using stable_sort_unique [of "pq_prio q" "pq_contents ?q"] filt pq_contents_prio(2) [OF ty' ok']
    by (simp add: pr)
  have "length (pq_contents ?q) = Suc (length (pq_contents q))" by (simp add: eq)
  then show "pq_inv ?q" using ok' tot by (simp add: pq_inv_def) (simp add: q')
  show "fst (pq_put ff q)" by (rule acc)
qed

lemma pq_size_contents: "pq_inv q \<Longrightarrow> pq_size q = int (length (pq_contents q))"
  by (auto simp: pq_size_def pq_inv_def pq_contents_def)

lemma pq_is_empty_contents: "pq_inv q \<Longrightarrow> pq_is_empty q \<longleftrightarrow> pq_contents q = []"
  by (auto simp: pq_is_empty_def pq_inv_def pq_contents_def)

lemma pq_is_full_contents:
  "pq_inv q \<Longrightarrow> pq_is_full q \<longleftrightarrow> pq_max_size q \<le> int (length (pq_contents q))"
  by (auto simp: pq_is_full_def pq_inv_def pq_contents_def)

lemma pq_put_full: "pq_inv q \<Longrightarrow> pq_max_size q \<le> int (length (pq_contents q)) \<Longrightarrow> pq_put ff q = (False, q)"
  by (auto simp: pq_put_def pq_inv_def pq_contents_def split: if_splits)

lemma pq_put_list:
  assumes "pq_type q \<noteq> PRIORITY_ATTRIBUTE" and "int (length (pq_contents q)) < pq_max_size q"
  shows "fst (pq_put ff q)" and "pq_contents (snd (pq_put ff q)) = pq_contents q @ [ff]"
    and "pq_inv (snd (pq_put ff q))"
  using assms by (auto simp: pq_put_def pq_contents_def pq_inv_def)

lemma pq_put_frame [simp]:
  "pq_type (snd (pq_put ff q)) = pq_type q"
  "pq_max_size (snd (pq_put ff q)) = pq_max_size q"
  "pq_priority_attribute (snd (pq_put ff q)) = pq_priority_attribute q"
  by (auto simp: pq_put_def Let_def)


subsubsection \<open>get and peek\<close>

lemma pq_first_hd:
  assumes "\<And>p. p \<in> set ps \<Longrightarrow> dict_get d p [] \<noteq> []"
  shows "pq_first d ps =
    (case ps of [] \<Rightarrow> None | p # _ \<Rightarrow> Some (p, hd (dict_get d p []), tl (dict_get d p [])))"
  using assms by (cases ps) (auto split: list.splits)

lemma pq_get_priority:
  assumes inv: "pq_inv q" and ty: "pq_type q = PRIORITY_ATTRIBUTE" and ne: "pq_contents q \<noteq> []"
  obtains q' where "pq_get q = (Some (hd (pq_contents q)), q')"
    and "pq_contents q' = tl (pq_contents q)" and "pq_inv q'"
    and "pq_type q' = pq_type q" and "pq_max_size q' = pq_max_size q"
    and "pq_priority_attribute q' = pq_priority_attribute q"
proof -
  have ok: "pq_dict_ok (pq_priority_attribute q) (pq_queues q)"
    and tot: "pq_total q = int (length (pq_contents q))"
    using inv ty by (auto simp: pq_inv_def)
  obtain p ps where ps: "pq_prios q = p # ps"
    using ne ty by (cases "pq_prios q") (auto simp: pq_contents_def)
  have all: "\<And>p. p \<in> set (pq_prios q) \<Longrightarrow> dict_get (pq_queues q) p [] \<noteq> []"
    using pq_dict_ok_get(2) [OF ok] by simp
  obtain ff rest where fr: "dict_get (pq_queues q) p [] = ff # rest"
    using all [of p] ps by (cases "dict_get (pq_queues q) p []") auto
  have fst: "pq_first (pq_queues q) (pq_prios q) = Some (p, ff, rest)"
    by (simp add: ps fr)
  have c: "pq_contents q = ff # rest @ concat (map (\<lambda>p. dict_get (pq_queues q) p []) ps)"
    using ty by (simp add: pq_contents_def ps fr)
  have pff: "pq_prio q ff = p" using pq_dict_ok_get(1) [OF ok, of ff p] fr by simp
  define q' where "q' = q\<lparr>pq_queues := (if rest = [] then AList.delete p (pq_queues q)
                                       else AList.update p rest (pq_queues q)),
                         pq_total := pq_total q - 1\<rparr>"
  have get: "pq_get q = (Some ff, q')"
    using ty tot ne by (simp add: pq_get_def fst q'_def)
  have look: "dict_get (pq_queues q') p' [] = (if p' = p then rest else dict_get (pq_queues q) p' [])" for p'
    by (simp add: q'_def dict_get_delete)
  have ok': "pq_dict_ok (pq_priority_attribute q') (pq_queues q')"
    using ok pq_dict_ok_get(1) [OF ok, of _ p] fr
    by (auto simp: q'_def intro!: pq_dict_ok_update pq_dict_ok_delete)
  have "pq_contents q' = tl (pq_contents q)"
  proof (rule pq_contents_eqI)
    show "pq_type q' = PRIORITY_ATTRIBUTE" by (simp add: q'_def ty)
    show "pq_dict_ok (pq_priority_attribute q') (pq_queues q')" by (rule ok')
    have pr: "pq_prio q' = pq_prio q" by (simp add: q'_def)
    show "desc (pq_prio q') (tl (pq_contents q))"
      using pq_contents_prio(2) [OF ty ok] by (simp only: pr map_tl sorted_tl)
    fix p'
    show "filter (\<lambda>x. pq_prio q' x = p') (tl (pq_contents q)) = dict_get (pq_queues q') p' []"
      using pq_contents_prio(1) [OF ty ok, of p'] fr pff by (auto simp: pr c look)
  qed
  moreover from this have "pq_inv q'"
    using ok' tot ne by (simp add: pq_inv_def) (simp add: q'_def Suc_leI of_nat_diff)
  ultimately show thesis
    using that [of q'] get c by (simp add: q'_def)
qed

lemma pq_peek_priority:
  assumes "pq_inv q" and "pq_type q = PRIORITY_ATTRIBUTE"
  shows "pq_peek q = (case pq_contents q of [] \<Rightarrow> None | ff # _ \<Rightarrow> Some ff)"
proof -
  have ok: "pq_dict_ok (pq_priority_attribute q) (pq_queues q)"
    using assms by (auto simp: pq_inv_def)
  then have "\<And>p. p \<in> set (pq_prios q) \<Longrightarrow> dict_get (pq_queues q) p [] \<noteq> []"
    by (simp add: pq_dict_ok_get(2))
  then show ?thesis
    using assms(2) by (cases "pq_prios q")
      (auto simp: pq_peek_def pq_contents_def split: list.splits)
qed

text \<open>The order in which \<open>get\<close> serves the elements, in every mode.\<close>

definition pq_service_order :: "prioritized_queue \<Rightarrow> flowfile list" where
  "pq_service_order q =
     (case pq_type q of
        NEWEST_FIRST \<Rightarrow> sort_key_desc timestamp_key (pq_contents q)
      | OLDEST_FIRST \<Rightarrow> sort_key timestamp_key (pq_contents q)
      | _ \<Rightarrow> pq_contents q)"

lemma mset_pq_service_order [simp]: "mset (pq_service_order q) = mset (pq_contents q)"
  by (simp add: pq_service_order_def split: prioritizer_type.split)

lemma pq_service_order_Nil [simp]:
  "pq_service_order q = [] \<longleftrightarrow> pq_contents q = []"
  "[] = pq_service_order q \<longleftrightarrow> pq_contents q = []"
  by (metis mset_pq_service_order mset_zero_iff)+

lemma sort_key_tl: "sort_key f (tl (sort_key f xs)) = tl (sort_key f xs)"
  by (rule sort_key_id_if_sorted) (simp only: map_tl sorted_tl sorted_sort_key)

lemma sort_key_desc_tl: "sort_key_desc f (tl (sort_key_desc f xs)) = tl (sort_key_desc f xs)"
proof -
  have "rev (tl (sort_key_desc f xs)) = butlast (sort_key f (rev xs))"
    by (simp add: sort_key_desc_def flip: butlast_rev)
  moreover have "sorted (map f (butlast (sort_key f (rev xs))))"
    by (simp add: map_butlast sorted_butlast)
  ultimately have "sort_key f (rev (tl (sort_key_desc f xs))) = rev (tl (sort_key_desc f xs))"
    by (simp add: sort_key_id_if_sorted)
  then show ?thesis by (simp add: sort_key_desc_def [of f "tl (sort_key_desc f xs)"])
qed

lemma pq_get_service:
  assumes "pq_inv q" and "pq_contents q \<noteq> []"
  obtains q' where "pq_get q = (Some (hd (pq_service_order q)), q')"
    and "pq_service_order q' = tl (pq_service_order q)" and "pq_inv q'"
    and "pq_type q' = pq_type q" and "pq_max_size q' = pq_max_size q"
    and "pq_priority_attribute q' = pq_priority_attribute q"
proof (cases "pq_type q = PRIORITY_ATTRIBUTE")
  case True
  then show thesis
    using pq_get_priority [OF assms(1) True assms(2)] that
    by (metis (no_types, lifting) pq_service_order_def prioritizer_type.simps(16))
next
  case False
  obtain ff rest where fr: "pq_service_order q = ff # rest"
    using assms(2) by (cases "pq_service_order q") auto
  have "pq_get q = (Some ff, q\<lparr>pq_items := rest\<rparr>)"
    using False fr by (cases "pq_type q") (simp_all add: pq_get_def pq_service_order_def pq_contents_def)
  moreover have "pq_service_order (q\<lparr>pq_items := rest\<rparr>) = rest"
    using False fr sort_key_desc_tl [of timestamp_key "pq_items q"] sort_key_tl [of timestamp_key "pq_items q"]
    by (cases "pq_type q") (simp_all add: pq_service_order_def pq_contents_def)
  ultimately show thesis
    using that [of "q\<lparr>pq_items := rest\<rparr>"] fr False by (simp add: pq_inv_def)
qed

lemma pq_get_empty: "pq_inv q \<Longrightarrow> pq_contents q = [] \<Longrightarrow> pq_get q = (None, q)"
  by (cases "pq_type q") (auto simp: pq_get_def pq_contents_def pq_inv_def sort_key_desc_def)

interpretation pq: bounded_queue pq_put pq_get pq_is_empty pq_max_size "\<lambda>q. mset (pq_contents q)" pq_inv
proof (unfold_locales, goal_cases)
  case (1 q x)
  then show ?case by (simp add: pq_put_full)
next
  case (2 q x)
  then show ?case
    by (cases "pq_type q = PRIORITY_ATTRIBUTE") (simp_all add: pq_put_priority pq_put_list)
next
  case (3 q)
  then show ?case by (simp add: pq_get_empty)
next
  case (4 q)
  then obtain q' where "pq_get q = (Some (hd (pq_service_order q)), q')"
    "pq_service_order q' = tl (pq_service_order q)" "pq_inv q'" "pq_max_size q' = pq_max_size q"
    using pq_get_service by (metis mset_zero_iff)
  moreover from this have "mset (pq_contents q') = mset (tl (pq_service_order q))"
    by (metis mset_pq_service_order)
  moreover have "mset (pq_contents q) = add_mset (hd (pq_service_order q)) (mset (tl (pq_service_order q)))"
    using 4 by (metis list.collapse mset.simps(2) mset_pq_service_order mset_zero_iff)
  ultimately show ?case by auto
next
  case (5 q)
  then show ?case by (simp add: pq_is_empty_contents)
qed


subsubsection \<open>remove and clear\<close>

lemma remove_obj_Some:
  "remove_obj ff xs = Some ys \<Longrightarrow> \<exists>x \<in> set xs. ff_oid x = ff_oid ff \<and> mset xs = add_mset x (mset ys)"
  by (induction xs arbitrary: ys) (auto split: if_splits)

lemma remove_obj_None: "remove_obj ff xs = None \<longleftrightarrow> (\<forall>x \<in> set xs. ff_oid x \<noteq> ff_oid ff)"
  by (induction xs) auto

lemma remove_obj_subset: "remove_obj ff xs = Some ys \<Longrightarrow> set ys \<subseteq> set xs"
  by (induction xs arbitrary: ys) (auto split: if_splits)

abbreviation dict_mset :: "(int, flowfile list) dict \<Rightarrow> flowfile multiset" where
  "dict_mset d \<equiv> mset (concat (map snd d))"

lemma pq_remove_from_Some:
  assumes "pq_remove_from ff d = Some d'" and "pq_dict_ok attr d"
  shows "pq_dict_ok attr d' \<and> set (dict_keys d') \<subseteq> set (dict_keys d) \<and>
    (\<exists>x. ff_oid x = ff_oid ff \<and> dict_mset d = add_mset x (dict_mset d'))"
  using assms
proof (induction ff d arbitrary: d' rule: pq_remove_from.induct)
  case (1 ff)
  then show ?case by simp
next
  case (2 ff p xs d)
  show ?case
  proof (cases "remove_obj ff xs")
    case None
    with 2 obtain d'' where d'': "pq_remove_from ff d = Some d''" "d' = (p, xs) # d''" by auto
    have "pq_dict_ok attr d" using "2.prems"(2) by (auto simp: pq_dict_ok_def)
    with "2.IH"(1) [OF None d''(1)] "2.prems"(2) d''(2) show ?thesis
      by (auto simp: pq_dict_ok_def)
  next
    case (Some ys)
    with "2.prems"(1) have d': "d' = (if ys = [] then d else (p, ys) # d)"
      by (auto split: list.splits)
    have "\<exists>x. ff_oid x = ff_oid ff \<and> mset xs = add_mset x (mset ys)"
      using remove_obj_Some [OF Some] by blast
    with "2.prems"(2) remove_obj_subset [OF Some] show ?thesis
      by (auto simp: d' pq_dict_ok_def)
  qed
qed

lemma pq_remove_from_None:
  "pq_remove_from ff d = None \<longleftrightarrow> (\<forall>x \<in># dict_mset d. ff_oid x \<noteq> ff_oid ff)"
  by (induction ff d rule: pq_remove_from.induct)
     (auto simp: remove_obj_None split: option.splits list.splits dest: remove_obj_Some)

lemma dict_mset_contents:
  assumes "pq_type q = PRIORITY_ATTRIBUTE" and "pq_dict_ok (pq_priority_attribute q) (pq_queues q)"
  shows "mset (pq_contents q) = dict_mset (pq_queues q)"
proof -
  have dist: "distinct (dict_keys (pq_queues q))" using assms(2) by (simp add: pq_dict_ok_def)
  have "mset (map (\<lambda>p. dict_get (pq_queues q) p []) (pq_prios q)) =
        mset (map (\<lambda>p. dict_get (pq_queues q) p []) (dict_keys (pq_queues q)))"
    by (simp only: mset_map pq_prios_def mset_rev mset_sort)
  also have "map (\<lambda>p. dict_get (pq_queues q) p []) (dict_keys (pq_queues q)) = map snd (pq_queues q)"
    using dist by (auto simp: dict_get_def)
  finally have "mset (map mset (map (\<lambda>p. dict_get (pq_queues q) p []) (pq_prios q))) =
      mset (map mset (map snd (pq_queues q)))" by (simp only: mset_map)
  then have "sum_list (map mset (map (\<lambda>p. dict_get (pq_queues q) p []) (pq_prios q))) =
      sum_list (map mset (map snd (pq_queues q)))" by (metis sum_mset_sum_list)
  then show ?thesis using assms(1) by (simp only: pq_contents_def mset_concat if_True simp_thms)
qed

lemma pq_remove_spec:
  assumes inv: "pq_inv q"
  shows "fst (pq_remove ff q) \<longleftrightarrow> (\<exists>x \<in> set (pq_contents q). ff_oid x = ff_oid ff)"
    and "\<not> fst (pq_remove ff q) \<Longrightarrow> snd (pq_remove ff q) = q"
    and "fst (pq_remove ff q) \<Longrightarrow> pq_inv (snd (pq_remove ff q)) \<and>
      (\<exists>x. ff_oid x = ff_oid ff \<and>
        mset (pq_contents q) = add_mset x (mset (pq_contents (snd (pq_remove ff q)))))"
proof -
  consider (prio) "pq_type q = PRIORITY_ATTRIBUTE" | (list) "pq_type q \<noteq> PRIORITY_ATTRIBUTE" by blast
  then have all: "(fst (pq_remove ff q) \<longleftrightarrow> (\<exists>x \<in> set (pq_contents q). ff_oid x = ff_oid ff)) \<and>
    (\<not> fst (pq_remove ff q) \<longrightarrow> snd (pq_remove ff q) = q) \<and>
    (fst (pq_remove ff q) \<longrightarrow> pq_inv (snd (pq_remove ff q)) \<and>
      (\<exists>x. ff_oid x = ff_oid ff \<and>
        mset (pq_contents q) = add_mset x (mset (pq_contents (snd (pq_remove ff q))))))"
  proof cases
    case list
    show ?thesis
    proof (cases "remove_obj ff (pq_items q)")
      case None
      moreover from this have "\<forall>x \<in> set (pq_items q). ff_oid x \<noteq> ff_oid ff"
        by (simp only: remove_obj_None)
      ultimately show ?thesis using list by (simp add: pq_remove_def pq_contents_def)
    next
      case (Some ys)
      with list remove_obj_Some [OF Some] show ?thesis
        by (auto simp: pq_remove_def pq_contents_def pq_inv_def)
    qed
  next
    case prio
    then have ok: "pq_dict_ok (pq_priority_attribute q) (pq_queues q)"
      and tot: "pq_total q = int (length (pq_contents q))"
      using inv by (auto simp: pq_inv_def)
    note ms = dict_mset_contents [OF prio ok]
    then have setc: "set (pq_contents q) = set_mset (dict_mset (pq_queues q))"
      by (metis set_mset_mset)
    show ?thesis
    proof (cases "pq_remove_from ff (pq_queues q)")
      case None
      moreover from this have "\<forall>x \<in> set (pq_contents q). ff_oid x \<noteq> ff_oid ff"
        by (simp only: pq_remove_from_None setc)
      ultimately show ?thesis using prio by (simp add: pq_remove_def)
    next
      case (Some d)
      let ?q = "q\<lparr>pq_queues := d, pq_total := pq_total q - 1\<rparr>"
      from pq_remove_from_Some [OF Some ok] obtain x where ok': "pq_dict_ok (pq_priority_attribute q) d"
        and x: "ff_oid x = ff_oid ff" "dict_mset (pq_queues q) = add_mset x (dict_mset d)" by auto
      have mq: "mset (pq_contents ?q) = dict_mset d"
        using dict_mset_contents [of ?q] prio ok' by simp
      with x ms have eq: "mset (pq_contents q) = add_mset x (mset (pq_contents ?q))" by simp
      then have "length (pq_contents q) = Suc (length (pq_contents ?q))"
        by (metis size_add_mset size_mset)
      with ok' tot have "pq_inv ?q" by (simp add: pq_inv_def)
      moreover have "x \<in> set (pq_contents q)" using eq by (metis set_mset_mset union_single_eq_member)
      ultimately show ?thesis using prio Some x(1) eq by (auto simp: pq_remove_def)
    qed
  qed
  show "fst (pq_remove ff q) \<longleftrightarrow> (\<exists>x \<in> set (pq_contents q). ff_oid x = ff_oid ff)" using all by blast
  show "\<not> fst (pq_remove ff q) \<Longrightarrow> snd (pq_remove ff q) = q" using all by blast
  show "fst (pq_remove ff q) \<Longrightarrow> pq_inv (snd (pq_remove ff q)) \<and>
      (\<exists>x. ff_oid x = ff_oid ff \<and>
        mset (pq_contents q) = add_mset x (mset (pq_contents (snd (pq_remove ff q)))))" using all by blast
qed

lemma pq_remove_frame [simp]:
  "pq_type (snd (pq_remove ff q)) = pq_type q"
  "pq_max_size (snd (pq_remove ff q)) = pq_max_size q"
  by (auto simp: pq_remove_def split: option.splits)

lemma pq_clear_spec [simp]:
  "pq_contents (pq_clear q) = []" "pq_inv (pq_clear q)" "pq_max_size (pq_clear q) = pq_max_size q"
  by (auto simp: pq_clear_def pq_contents_def pq_inv_def pq_dict_ok_def pq_prios_def)

lemma pq_init_spec [simp]:
  "pq_contents (pq_init t n a) = []" "pq_inv (pq_init t n a)" "pq_max_size (pq_init t n a) = n"
  "pq_type (pq_init t n a) = t" "pq_priority_attribute (pq_init t n a) = a"
  by (auto simp: pq_init_def pq_contents_def pq_inv_def pq_dict_ok_def pq_prios_def)

lemma take_until_take:
  "limit \<ge> 1 \<Longrightarrow> int (length acc) < limit \<Longrightarrow>
   take_until limit acc xs = acc @ take (nat limit - length acc) xs"
proof (induction limit acc xs rule: take_until.induct)
  case (1 limit acc)
  then show ?case by simp
next
  case (2 limit acc ff ffs)
  show ?case
  proof (cases "int (Suc (length acc)) \<ge> limit")
    case True
    with 2 have "nat limit - length acc = Suc 0" by linarith
    with True show ?thesis by (simp add: Let_def)
  next
    case False
    with 2 have "take_until limit (acc @ [ff]) ffs = (acc @ [ff]) @ take (nat limit - Suc (length acc)) ffs"
      by (simp add: Let_def)
    moreover have "nat limit - length acc = Suc (nat limit - Suc (length acc))" using False by linarith
    ultimately show ?thesis using False by (simp add: Let_def)
  qed
qed

lemma pq_peek_all_contents:
  "pq_peek_all limit q =
     (if pq_type q = PRIORITY_ATTRIBUTE then take_until limit [] (pq_contents q)
      else slice_to limit (pq_contents q))"
  by (simp add: pq_peek_all_def pq_contents_def)

lemma pq_peek_all_take: "1 \<le> limit \<Longrightarrow> pq_peek_all limit q = take (nat limit) (pq_contents q)"
  by (simp add: pq_peek_all_def pq_contents_def take_until_take slice_to_def)


subsection \<open>Properties\<close>

text \<open>Taking elements until the queue is empty.\<close>

fun pq_drain :: "nat \<Rightarrow> prioritized_queue \<Rightarrow> flowfile list" where
  "pq_drain 0 q = []"
| "pq_drain (Suc n) q =
     (case pq_get q of (None, q') \<Rightarrow> [] | (Some ff, q') \<Rightarrow> ff # pq_drain n q')"

lemma pq_drain_service:
  "pq_inv q \<Longrightarrow> length (pq_contents q) \<le> n \<Longrightarrow> pq_drain n q = pq_service_order q"
proof (induction n arbitrary: q)
  case 0
  then have "pq_service_order q = []" by simp
  then show ?case by simp
next
  case (Suc n)
  show ?case
  proof (cases "pq_contents q = []")
    case True
    then have "pq_service_order q = []" by simp
    with True Suc.prems show ?thesis by (simp add: pq_get_empty)
  next
    case False
    from pq_get_service [OF Suc.prems(1) False] obtain q' where
      q': "pq_get q = (Some (hd (pq_service_order q)), q')"
        "pq_service_order q' = tl (pq_service_order q)" "pq_inv q'" by metis
    have "length (pq_contents q') = length (tl (pq_service_order q))"
      by (metis mset_pq_service_order q'(2) size_mset)
    moreover have "length (pq_service_order q) = length (pq_contents q)"
      by (metis mset_pq_service_order size_mset)
    ultimately have "pq_drain n q' = pq_service_order q'" using Suc q' by simp
    with q' False show ?thesis by (simp add: list.collapse)
  qed
qed

lemma sort_key_append_sort:
  fixes f :: "'a \<Rightarrow> int"
  shows "sort_key (\<lambda>x. - f x) (sort_key (\<lambda>x. - f x) xs @ ys) = sort_key (\<lambda>x. - f x) (xs @ ys)"
proof (rule stable_sort_unique [of f])
  show "desc f (sort_key (\<lambda>x. - f x) (xs @ ys))" by (rule sorted_sort_key)
  have st: "filter (\<lambda>x. f x = p) (sort_key (\<lambda>x. - f x) zs) = filter (\<lambda>x. f x = p) zs" for p zs
    using sort_key_stable [of "\<lambda>x. - f x" "- p" zs] by simp
  show "filter (\<lambda>x. f x = p) (sort_key (\<lambda>x. - f x) (xs @ ys)) =
      filter (\<lambda>x. f x = p) (sort_key (\<lambda>x. - f x) xs @ ys)" for p
    by (simp add: st)
qed

lemma put_all_priority:
  assumes "pq_inv q" and "pq_type q = PRIORITY_ATTRIBUTE"
    and "int (length (pq_contents q) + length ffs) \<le> pq_max_size q"
  shows "sort_key (\<lambda>x. - pq_prio q x) (pq_contents (put_all pq_put ffs q)) =
    sort_key (\<lambda>x. - pq_prio q x) (pq_contents q @ ffs) \<and>
    pq_inv (put_all pq_put ffs q) \<and> pq_type (put_all pq_put ffs q) = PRIORITY_ATTRIBUTE \<and>
    pq_priority_attribute (put_all pq_put ffs q) = pq_priority_attribute q"
  using assms
proof (induction ffs arbitrary: q)
  case Nil
  then show ?case by simp
next
  case (Cons ff ffs)
  let ?q = "snd (pq_put ff q)"
  have room: "int (length (pq_contents q)) < pq_max_size q" using Cons.prems by simp
  note put = pq_put_priority [OF Cons.prems(1,2) room, of ff]
  have "int (length (pq_contents ?q) + length ffs) \<le> pq_max_size ?q"
    using Cons.prems(3) by (simp add: put(1))
  with Cons.IH [of ?q] put(2) Cons.prems(2) show ?case
    by (simp add: put(1) sort_key_append_sort)
qed

text \<open>
  C24: a queue in priority mode, filled with any FlowFiles that fit and then emptied, gives them back
  in stable descending priority order: higher priority first, first-in first-out within a priority.
\<close>

theorem priority_service_order:
  assumes "int (length ffs) \<le> n"
  shows "pq_drain (length ffs) (put_all pq_put ffs (pq_init PRIORITY_ATTRIBUTE n attr)) =
    sort_key (\<lambda>ff. - get_ff_priority attr ff) ffs"
proof -
  let ?e = "pq_init PRIORITY_ATTRIBUTE n attr"
  let ?q = "put_all pq_put ffs ?e"
  have all: "sort_key (\<lambda>x. - get_ff_priority attr x) (pq_contents ?q) = sort_key (\<lambda>x. - get_ff_priority attr x) ffs"
    "pq_inv ?q" "pq_type ?q = PRIORITY_ATTRIBUTE" "pq_priority_attribute ?q = attr"
    using put_all_priority [of ?e ffs] assms by auto
  have "desc (pq_prio ?q) (pq_contents ?q)"
    using pq_contents_prio(2) [of ?q] all(2,3) by (simp add: pq_inv_def)
  then have c: "pq_contents ?q = sort_key (\<lambda>x. - get_ff_priority attr x) ffs"
    using all(1,4) sort_key_id_if_sorted [of "\<lambda>x. - get_ff_priority attr x" "pq_contents ?q"] by simp
  have "pq_drain (length ffs) ?q = pq_service_order ?q"
    by (rule pq_drain_service) (simp_all add: all(2) c)
  then show ?thesis using all(3) c by (simp add: pq_service_order_def)
qed

definition demo_ff :: "nat \<Rightarrow> string \<Rightarrow> flowfile" where
  "demo_ff oid prio = \<lparr>ff_oid = oid, ff_process_id = ''p'', ff_attributes = [(''priority'', prio)], ff_content = []\<rparr>"

theorem priority_service_order_witness:
  "int (length [demo_ff 0 ''0'', demo_ff 1 ''10'', demo_ff 2 ''x'', demo_ff 3 '' -5'']) \<le> 4 \<and>
   map ff_oid (pq_drain (length [demo_ff 0 ''0'', demo_ff 1 ''10'', demo_ff 2 ''x'', demo_ff 3 '' -5''])
     (put_all pq_put [demo_ff 0 ''0'', demo_ff 1 ''10'', demo_ff 2 ''x'', demo_ff 3 '' -5'']
       (pq_init PRIORITY_ATTRIBUTE 4 ''priority''))) = [1, 0, 2, 3]"
  by (subst priority_service_order)
     (simp_all add: demo_ff_def get_ff_priority_def get_attribute_def py_int_def py_strip_def
       is_ws_def is_digit_def digit_value_def)

text \<open>
  in every mode, what \<open>get\<close> takes out is what was put in: the element it returns was queued,
  exactly one copy of it leaves, the representation invariant and the capacity are kept, and
  \<open>None\<close> is returned exactly on an empty queue.
\<close>

theorem get_takes_queued:
  assumes "pq_inv q"
  shows "case pq_get q of
      (None, q') \<Rightarrow> pq_contents q = [] \<and> q' = q
    | (Some ff, q') \<Rightarrow> mset (pq_contents q) = add_mset ff (mset (pq_contents q')) \<and>
        pq_inv q' \<and> pq_max_size q' = pq_max_size q"
proof (cases "pq_contents q = []")
  case True
  with assms show ?thesis by (simp add: pq.get_empty)
next
  case False
  with pq.get_some [OF assms] show ?thesis by auto
qed

theorem get_takes_queued_witness:
  "pq_inv (pq_init NEWEST_FIRST 3 ''priority'') \<and>
   (case pq_get (pq_init NEWEST_FIRST 3 ''priority'') of
      (None, q') \<Rightarrow> q' = pq_init NEWEST_FIRST 3 ''priority'' | (Some ff, q') \<Rightarrow> False)"
proof -
  have inv: "pq_inv (pq_init NEWEST_FIRST 3 ''priority'')" by simp
  have g: "pq_get (pq_init NEWEST_FIRST 3 ''priority'') = (None, pq_init NEWEST_FIRST 3 ''priority'')"
    by (simp add: pq_get_def pq_init_def sort_key_desc_def)
  show ?thesis using inv get_takes_queued [OF inv] by (simp add: g)
qed

text \<open>
  \<open>peek\<close> names the element the next \<open>get\<close> returns in \<open>FIFO\<close> and \<open>PRIORITY_ATTRIBUTE\<close>
  mode, whatever the queue holds, but not in the timestamp modes: there is a queue in
  \<open>NEWEST_FIRST\<close> mode on which they differ, because only \<open>get\<close> sorts.
\<close>

theorem peek_get_agreement:
  "(\<forall>q. pq_inv q \<and> pq_type q \<in> {FIFO, PRIORITY_ATTRIBUTE} \<longrightarrow> pq_peek q = fst (pq_get q)) \<and>
   (\<exists>q. pq_inv q \<and> pq_type q = NEWEST_FIRST \<and> pq_peek q \<noteq> fst (pq_get q))"
proof
  show "\<forall>q. pq_inv q \<and> pq_type q \<in> {FIFO, PRIORITY_ATTRIBUTE} \<longrightarrow> pq_peek q = fst (pq_get q)"
  proof (intro allI impI)
    fix q assume a: "pq_inv q \<and> pq_type q \<in> {FIFO, PRIORITY_ATTRIBUTE}"
    show "pq_peek q = fst (pq_get q)"
    proof (cases "pq_type q = PRIORITY_ATTRIBUTE")
      case True
      show ?thesis
      proof (cases "pq_contents q = []")
        case True
        with a \<open>pq_type q = PRIORITY_ATTRIBUTE\<close> show ?thesis by (simp add: pq_peek_priority pq_get_empty)
      next
        case False
        from a have inv: "pq_inv q" by blast
        obtain q' where "pq_get q = (Some (hd (pq_contents q)), q')"
          using pq_get_priority [OF inv True False] by metis
        with inv True False show ?thesis by (simp add: pq_peek_priority list.case_eq_if)
      qed
    next
      case False
      with a show ?thesis by (auto simp: pq_peek_def pq_get_def split: list.splits)
    qed
  qed
next
  let ?a = "\<lparr>ff_oid = 0, ff_process_id = ''a'', ff_attributes = [(''timestamp'', ''1'')], ff_content = []\<rparr>"
  let ?b = "\<lparr>ff_oid = 1, ff_process_id = ''b'', ff_attributes = [(''timestamp'', ''2'')], ff_content = []\<rparr>"
  let ?q = "(pq_init NEWEST_FIRST 9 ''priority'')\<lparr>pq_items := [?a, ?b]\<rparr>"
  have "pq_inv ?q \<and> pq_type ?q = NEWEST_FIRST \<and> pq_peek ?q \<noteq> fst (pq_get ?q)"
    by (simp add: pq_inv_def pq_init_def pq_peek_def pq_get_def sort_key_desc_def timestamp_key_def
        get_attribute_def)
  then show "\<exists>q. pq_inv q \<and> pq_type q = NEWEST_FIRST \<and> pq_peek q \<noteq> fst (pq_get q)" by blast
qed

theorem peek_get_agreement_witness:
  "pq_peek (pq_init FIFO 9 ''priority'') = fst (pq_get (pq_init FIFO 9 ''priority''))"
proof -
  have "pq_inv (pq_init FIFO 9 ''priority'') \<and>
    pq_type (pq_init FIFO 9 ''priority'') \<in> {FIFO, PRIORITY_ATTRIBUTE}" by simp
  then show ?thesis using peek_get_agreement by blast
qed

end
