(* ===== verification/Connection.thy ===== *)
theory Connection
  imports Prioritizer
begin

section \<open>Connections with backpressure\<close>

text \<open>
  \<open>core/connection.py\<close>.  A \<open>Connection\<close> is a queue between two tasks with a bound on the number
  of FlowFiles and on their bytes, an optional time to live and a pause switch; the manager of a flow's connections is in \<open>Connection_Manager\<close>.  Each method runs under the
  connection's re-entrant lock, so it is one step from a \<open>connection\<close> to a result and a new
  \<open>connection\<close>; \<open>time.time()\<close> is an argument \<open>now\<close>.

  \<open>conn_inv\<close> says that the byte counter is the sum of the sizes of what is queued and that the
  queue's own invariant holds.  \<open>conn_step\<close> is the step relation of a connection's operations
  and \<open>conn_reachable\<close> the states it can get into.
\<close>

record connection =
  c_source_id :: string
  c_target_id :: string
  c_relationship :: string
  c_max_queue_size :: int
  c_max_queue_bytes :: int
  c_ttl :: int
  c_queue :: prioritized_queue
  c_total_bytes :: int
  c_flowfiles_in :: int
  c_flowfiles_out :: int
  c_paused :: bool
  c_enqueue_times :: "(string, real) dict"

definition new_connection ::
    "string \<Rightarrow> string \<Rightarrow> string \<Rightarrow> int \<Rightarrow> int \<Rightarrow> prioritizer_type \<Rightarrow> string \<Rightarrow> int \<Rightarrow> connection" where
  "new_connection src tgt rel msize mbytes prio attr ttl =
     \<lparr>c_source_id = src, c_target_id = tgt, c_relationship = rel,
      c_max_queue_size = msize, c_max_queue_bytes = mbytes, c_ttl = ttl,
      c_queue = pq_init prio msize attr, c_total_bytes = 0,
      c_flowfiles_in = 0, c_flowfiles_out = 0, c_paused = False, c_enqueue_times = []\<rparr>"

text \<open>\<open>f"conn_{source_id}__{relationship}__{target_id}"\<close>\<close>

definition connection_id_of :: "string \<Rightarrow> string \<Rightarrow> string \<Rightarrow> string" where
  "connection_id_of src rel tgt = ''conn_'' @ src @ ''__'' @ rel @ ''__'' @ tgt"

definition connection_id :: "connection \<Rightarrow> string" where
  "connection_id c = connection_id_of (c_source_id c) (c_relationship c) (c_target_id c)"

definition enqueue :: "real \<Rightarrow> flowfile \<Rightarrow> connection \<Rightarrow> bool \<times> connection" where
  "enqueue now ff c =
     (let content_size = int (ff_size ff) in
      if c_total_bytes c + content_size > c_max_queue_bytes c then (False, c)
      else case pq_put ff (c_queue c) of
          (False, q) \<Rightarrow> (False, c)
        | (True, q) \<Rightarrow>
            (True, c\<lparr>c_queue := q,
                     c_total_bytes := c_total_bytes c + content_size,
                     c_flowfiles_in := c_flowfiles_in c + 1,
                     c_enqueue_times := (if c_ttl c > 0
                       then AList.update (ff_process_id ff) now (c_enqueue_times c)
                       else c_enqueue_times c)\<rparr>))"

text \<open>The bookkeeping shared by every removal of a FlowFile.\<close>

definition account_removed :: "flowfile \<Rightarrow> connection \<Rightarrow> connection" where
  "account_removed ff c =
     c\<lparr>c_total_bytes := c_total_bytes c - int (ff_size ff),
       c_flowfiles_out := c_flowfiles_out c + 1,
       c_enqueue_times := AList.delete (ff_process_id ff) (c_enqueue_times c)\<rparr>"

definition dequeue :: "connection \<Rightarrow> flowfile option \<times> connection" where
  "dequeue c =
     (if c_paused c then (None, c)
      else case pq_get (c_queue c) of
          (None, q) \<Rightarrow> (None, c\<lparr>c_queue := q\<rparr>)
        | (Some ff, q) \<Rightarrow> (Some ff, account_removed ff (c\<lparr>c_queue := q\<rparr>)))"

definition is_expired :: "real \<Rightarrow> flowfile \<Rightarrow> connection \<Rightarrow> bool" where
  "is_expired now ff c \<longleftrightarrow>
     (if c_ttl c \<le> 0 then False
      else case map_of (c_enqueue_times c) (ff_process_id ff) of
          None \<Rightarrow> False
        | Some t \<Rightarrow> now - t > real_of_int (c_ttl c))"

text \<open>The two attributes an expired FlowFile gets.\<close>

definition mark_expired :: "connection \<Rightarrow> flowfile \<Rightarrow> flowfile" where
  "mark_expired c ff =
     set_attribute ''expired.connection'' (c_source_id c @ ''->'' @ c_target_id c)
       (set_attribute ''expired'' ''true'' ff)"

text \<open>
  The \<open>while not self._queue.is_empty()\<close> loop of \<open>drain_expired\<close>, with fuel; \<open>None\<close> when the
  fuel runs out (\<open>drain_loop_enough\<close> shows that one more than the queue's length is enough).
\<close>

fun drain_loop ::
    "nat \<Rightarrow> real \<Rightarrow> connection \<Rightarrow> flowfile list \<Rightarrow> flowfile list \<Rightarrow>
     (connection \<times> flowfile list \<times> flowfile list) option" where
  "drain_loop 0 now c expired remaining = None"
| "drain_loop (Suc n) now c expired remaining =
     (if pq_is_empty (c_queue c) then Some (c, expired, remaining)
      else case pq_get (c_queue c) of
          (None, q) \<Rightarrow> drain_loop n now (c\<lparr>c_queue := q\<rparr>) expired remaining
        | (Some ff, q) \<Rightarrow>
            (let c' = c\<lparr>c_queue := q\<rparr>;
                 enqueue_time = dict_get (c_enqueue_times c) (ff_process_id ff) now
             in if now - enqueue_time > real_of_int (c_ttl c)
                then drain_loop n now (account_removed ff c') (expired @ [mark_expired c ff]) remaining
                else drain_loop n now c' expired (remaining @ [ff])))"

definition drain_expired :: "real \<Rightarrow> connection \<Rightarrow> (flowfile list \<times> connection) option" where
  "drain_expired now c =
     (if c_ttl c \<le> 0 then Some ([], c)
      else map_option (\<lambda>(c', expired, remaining).
             (expired, c'\<lparr>c_queue := put_all pq_put remaining (c_queue c')\<rparr>))
           (drain_loop (Suc (nat (pq_size (c_queue c)))) now c [] []))"

definition conn_peek :: "connection \<Rightarrow> flowfile option" where
  "conn_peek c = pq_peek (c_queue c)"

definition requeue :: "flowfile \<Rightarrow> connection \<Rightarrow> connection" where
  "requeue ff c =
     c\<lparr>c_queue := snd (pq_put ff (c_queue c)),
       c_total_bytes := c_total_bytes c + int (ff_size ff)\<rparr>"

definition conn_peek_all :: "int \<Rightarrow> connection \<Rightarrow> flowfile list" where
  "conn_peek_all limit c = pq_peek_all limit (c_queue c)"

definition is_backpressured :: "connection \<Rightarrow> bool" where
  "is_backpressured c \<longleftrightarrow>
     pq_size (c_queue c) \<ge> c_max_queue_size c \<or> c_total_bytes c \<ge> c_max_queue_bytes c"

definition queue_size :: "connection \<Rightarrow> int" where
  "queue_size c = pq_size (c_queue c)"

definition queue_bytes :: "connection \<Rightarrow> int" where
  "queue_bytes c = c_total_bytes c"

definition conn_is_empty :: "connection \<Rightarrow> bool" where
  "conn_is_empty c \<longleftrightarrow> pq_is_empty (c_queue c)"

definition conn_remove :: "flowfile \<Rightarrow> connection \<Rightarrow> bool \<times> connection" where
  "conn_remove ff c =
     (case pq_remove ff (c_queue c) of
        (True, q) \<Rightarrow> (True, account_removed ff (c\<lparr>c_queue := q\<rparr>))
      | (False, q) \<Rightarrow> (False, c))"

text \<open>\<open>items[index]\<close> with Python's negative indices.\<close>

definition py_index :: "'a list \<Rightarrow> int \<Rightarrow> 'a res" where
  "py_index xs i =
     (let j = (if i < 0 then int (length xs) + i else i) in
      if 0 \<le> j \<and> j < int (length xs) then Inr (xs ! nat j)
      else Inl (IndexError ''list index out of range''))"

definition remove_by_index :: "int \<Rightarrow> connection \<Rightarrow> (bool \<times> connection) res" where
  "remove_by_index index c =
     (let items = pq_peek_all (index + 1) (c_queue c) in
      if index < int (length items) then
        bind_res (py_index items index) (\<lambda>ff. Inr (conn_remove ff c))
      else Inr (False, c))"

definition pause :: "connection \<Rightarrow> connection" where
  "pause c = c\<lparr>c_paused := True\<rparr>"

definition resume :: "connection \<Rightarrow> connection" where
  "resume c = c\<lparr>c_paused := False\<rparr>"

definition has_processable :: "connection \<Rightarrow> bool" where
  "has_processable c \<longleftrightarrow> \<not> c_paused c \<and> \<not> pq_is_empty (c_queue c)"

definition get_flowfile :: "string \<Rightarrow> connection \<Rightarrow> flowfile option" where
  "get_flowfile pid c =
     find (\<lambda>ff. ff_process_id ff = pid) (pq_peek_all (pq_size (c_queue c)) (c_queue c))"

definition remove_by_process_id :: "string \<Rightarrow> connection \<Rightarrow> bool \<times> connection" where
  "remove_by_process_id pid c =
     (case get_flowfile pid c of None \<Rightarrow> (False, c) | Some ff \<Rightarrow> conn_remove ff c)"

definition conn_clear :: "connection \<Rightarrow> connection" where
  "conn_clear c = c\<lparr>c_queue := pq_clear (c_queue c), c_total_bytes := 0, c_enqueue_times := []\<rparr>"

record connection_stats =
  st_connection_id :: string
  st_source :: string
  st_target :: string
  st_relationship :: string
  st_queue_size :: int
  st_queue_bytes :: int
  st_max_queue_size :: int
  st_max_queue_bytes :: int
  st_backpressured :: bool
  st_paused :: bool
  st_flowfiles_in :: int
  st_flowfiles_out :: int
  st_ttl_seconds :: int
  st_prioritizer :: prioritizer_type
  st_priority_attribute :: string

definition get_stats :: "connection \<Rightarrow> connection_stats" where
  "get_stats c =
     \<lparr>st_connection_id = connection_id c, st_source = c_source_id c, st_target = c_target_id c,
      st_relationship = c_relationship c, st_queue_size = pq_size (c_queue c),
      st_queue_bytes = c_total_bytes c, st_max_queue_size = c_max_queue_size c,
      st_max_queue_bytes = c_max_queue_bytes c, st_backpressured = is_backpressured c,
      st_paused = c_paused c, st_flowfiles_in = c_flowfiles_in c, st_flowfiles_out = c_flowfiles_out c,
      st_ttl_seconds = c_ttl c, st_prioritizer = pq_type (c_queue c),
      st_priority_attribute = pq_priority_attribute (c_queue c)\<rparr>"

subsection \<open>Invariant\<close>

abbreviation c_contents :: "connection \<Rightarrow> flowfile list" where
  "c_contents c \<equiv> pq_contents (c_queue c)"

definition bytes_of :: "flowfile list \<Rightarrow> int" where
  "bytes_of ffs = int (sum_list (map ff_size ffs))"

definition conn_inv :: "connection \<Rightarrow> bool" where
  "conn_inv c \<longleftrightarrow> pq_inv (c_queue c) \<and> pq_max_size (c_queue c) = c_max_queue_size c \<and>
     c_total_bytes c = bytes_of (c_contents c) \<and>
     int (length (c_contents c)) \<le> max 0 (c_max_queue_size c)"

text \<open>
  One object number names one object: what Python's identity gives for free and the value model has
  to say.
\<close>

definition same_obj :: "flowfile \<Rightarrow> connection \<Rightarrow> bool" where
  "same_obj ff c \<longleftrightarrow> (\<forall>x \<in> set (c_contents c). ff_oid x = ff_oid ff \<longrightarrow> x = ff)"

definition objs_ok :: "connection \<Rightarrow> bool" where
  "objs_ok c \<longleftrightarrow> (\<forall>ff \<in> set (c_contents c). same_obj ff c)"

lemma bytes_of_mset:
  assumes "mset xs = mset ys"
  shows "bytes_of xs = bytes_of ys"
  using sum_list_map_mset_cong [OF assms, of ff_size] by (simp add: bytes_of_def)

lemma bytes_of_add_mset:
  assumes "mset xs = add_mset x (mset ys)"
  shows "bytes_of xs = int (ff_size x) + bytes_of ys"
  using bytes_of_mset [of xs "x # ys"] assms by (simp add: bytes_of_def)

lemma bytes_of_simps [simp]:
  "bytes_of [] = 0" "bytes_of (x # xs) = int (ff_size x) + bytes_of xs"
  "bytes_of (xs @ ys) = bytes_of xs + bytes_of ys"
  by (simp_all add: bytes_of_def)

lemma bytes_of_nonneg [simp]: "0 \<le> bytes_of xs"
  by (simp add: bytes_of_def)

lemma account_removed_simps [simp]:
  "c_queue (account_removed ff c) = c_queue c"
  "c_total_bytes (account_removed ff c) = c_total_bytes c - int (ff_size ff)"
  "c_flowfiles_in (account_removed ff c) = c_flowfiles_in c"
  "c_flowfiles_out (account_removed ff c) = c_flowfiles_out c + 1"
  "c_max_queue_size (account_removed ff c) = c_max_queue_size c"
  "c_max_queue_bytes (account_removed ff c) = c_max_queue_bytes c"
  "c_ttl (account_removed ff c) = c_ttl c"
  "c_paused (account_removed ff c) = c_paused c"
  "c_source_id (account_removed ff c) = c_source_id c"
  "c_target_id (account_removed ff c) = c_target_id c"
  "c_enqueue_times (account_removed ff c) = AList.delete (ff_process_id ff) (c_enqueue_times c)"
  by (simp_all add: account_removed_def)

lemma new_connection_inv [pf_inv]: "conn_inv (new_connection src tgt rel n b prio attr ttl)"
  by (simp add: conn_inv_def new_connection_def)

subsubsection \<open>enqueue and requeue\<close>

lemma enqueue_cases:
  assumes "conn_inv c"
  obtains (refused) "enqueue now ff c = (False, c)"
      "c_max_queue_bytes c < c_total_bytes c + int (ff_size ff) \<or>
       c_max_queue_size c \<le> int (length (c_contents c))"
  | (accepted) c' where "enqueue now ff c = (True, c')"
      "mset (c_contents c') = add_mset ff (mset (c_contents c))"
      "c_total_bytes c' = c_total_bytes c + int (ff_size ff)"
      "c_total_bytes c + int (ff_size ff) \<le> c_max_queue_bytes c"
      "int (length (c_contents c)) < c_max_queue_size c"
      "conn_inv c'" "c_flowfiles_in c' = c_flowfiles_in c + 1" "c_flowfiles_out c' = c_flowfiles_out c"
      "c_max_queue_size c' = c_max_queue_size c" "c_max_queue_bytes c' = c_max_queue_bytes c"
      "c_paused c' = c_paused c"
proof (cases "c_max_queue_bytes c < c_total_bytes c + int (ff_size ff) \<or>
    c_max_queue_size c \<le> int (length (c_contents c))")
  case True
  then have "enqueue now ff c = (False, c)"
    using assms pq.put_full [of "c_queue c" ff] by (auto simp: enqueue_def conn_inv_def Let_def)
  then show thesis using refused True by blast
next
  case False
  let ?r = "pq_put ff (c_queue c)"
  have p: "fst ?r" "mset (pq_contents (snd ?r)) = add_mset ff (mset (c_contents c))"
    "pq_inv (snd ?r)" "pq_max_size (snd ?r) = c_max_queue_size c"
    using pq.put_room [of "c_queue c" ff] assms False by (auto simp: conn_inv_def)
  have b: "bytes_of (pq_contents (snd ?r)) = int (ff_size ff) + bytes_of (c_contents c)"
    by (rule bytes_of_add_mset) (rule p(2))
  let ?c = "snd (enqueue now ff c)"
  have e: "enqueue now ff c = (True, ?c)" "c_queue ?c = snd ?r"
    "c_total_bytes ?c = c_total_bytes c + int (ff_size ff)"
    "c_flowfiles_in ?c = c_flowfiles_in c + 1" "c_flowfiles_out ?c = c_flowfiles_out c"
    "c_max_queue_size ?c = c_max_queue_size c" "c_max_queue_bytes ?c = c_max_queue_bytes c"
    "c_paused ?c = c_paused c"
    using False p(1) by (auto simp: enqueue_def Let_def split: prod.split bool.split)
  have "length (pq_contents (snd ?r)) = Suc (length (c_contents c))"
    using p(2) by (metis size_add_mset size_mset)
  then have "conn_inv ?c" using assms p b e False by (simp add: conn_inv_def)
  then show thesis using False accepted [OF e(1)] p e by simp
qed

lemma requeue_room:
  assumes "conn_inv c" and "int (length (c_contents c)) < c_max_queue_size c"
  shows "conn_inv (requeue ff c)" and "mset (c_contents (requeue ff c)) = add_mset ff (mset (c_contents c))"
proof -
  let ?r = "pq_put ff (c_queue c)"
  have p: "mset (pq_contents (snd ?r)) = add_mset ff (mset (c_contents c))"
    "pq_inv (snd ?r)" "pq_max_size (snd ?r) = c_max_queue_size c"
    using pq.put_room [of "c_queue c" ff] assms by (auto simp: conn_inv_def)
  have b: "bytes_of (pq_contents (snd ?r)) = int (ff_size ff) + bytes_of (c_contents c)"
    by (rule bytes_of_add_mset) (rule p(1))
  have "length (pq_contents (snd ?r)) = Suc (length (c_contents c))"
    using p(1) by (metis size_add_mset size_mset)
  then show "conn_inv (requeue ff c)" using assms p b by (simp add: conn_inv_def requeue_def)
  show "mset (c_contents (requeue ff c)) = add_mset ff (mset (c_contents c))"
    using p by (simp add: requeue_def)
qed

lemma requeue_full:
  assumes "conn_inv c" and "c_max_queue_size c \<le> int (length (c_contents c))"
  shows "requeue ff c = c\<lparr>c_total_bytes := c_total_bytes c + int (ff_size ff)\<rparr>"
  using assms pq.put_full [of "c_queue c" ff] by (simp add: conn_inv_def requeue_def)

subsubsection \<open>dequeue and remove\<close>

lemma dequeue_cases:
  assumes "conn_inv c"
  obtains (paused) "c_paused c" "dequeue c = (None, c)"
  | (empty) "\<not> c_paused c" "c_contents c = []" "dequeue c = (None, c)"
  | (taken) ff c' where "\<not> c_paused c" "dequeue c = (Some ff, c')"
      "ff = hd (pq_service_order (c_queue c))"
      "mset (c_contents c) = add_mset ff (mset (c_contents c'))" "conn_inv c'"
      "c_flowfiles_out c' = c_flowfiles_out c + 1" "c_flowfiles_in c' = c_flowfiles_in c"
      "c_max_queue_size c' = c_max_queue_size c" "c_max_queue_bytes c' = c_max_queue_bytes c"
      "c_total_bytes c' = c_total_bytes c - int (ff_size ff)" "c_paused c' = c_paused c"
proof (cases "c_paused c")
  case True
  then show thesis using paused by (simp add: dequeue_def)
next
  case False
  show thesis
  proof (cases "c_contents c = []")
    case True
    then show thesis using assms False empty
      by (simp add: dequeue_def conn_inv_def pq.get_empty)
  next
    case ne: False
    have inv: "pq_inv (c_queue c)" using assms by (simp add: conn_inv_def)
    from pq_get_service [OF inv ne] obtain q where q: "pq_get (c_queue c) = (Some (hd (pq_service_order (c_queue c))), q)"
      "pq_service_order q = tl (pq_service_order (c_queue c))" "pq_inv q"
      "pq_max_size q = pq_max_size (c_queue c)" by metis
    let ?ff = "hd (pq_service_order (c_queue c))"
    have m: "mset (c_contents c) = add_mset ?ff (mset (pq_contents q))"
      using pq.get_some [of "c_queue c"] inv ne q(1) by auto
    then have "bytes_of (c_contents c) = int (ff_size ?ff) + bytes_of (pq_contents q)"
      by (rule bytes_of_add_mset)
    moreover have "length (c_contents c) = Suc (length (pq_contents q))"
      using m by (metis size_add_mset size_mset)
    ultimately show thesis
      using assms False q m taken [of ?ff "account_removed ?ff (c\<lparr>c_queue := q\<rparr>)"]
      by (simp add: dequeue_def conn_inv_def)
  qed
qed

lemma conn_remove_cases:
  assumes "conn_inv c" and "same_obj ff c"
  obtains (absent) "ff \<notin> set (c_contents c)" "conn_remove ff c = (False, c)"
  | (removed) c' where "ff \<in> set (c_contents c)" "conn_remove ff c = (True, c')"
      "mset (c_contents c) = add_mset ff (mset (c_contents c'))" "conn_inv c'"
      "c_flowfiles_out c' = c_flowfiles_out c + 1" "c_flowfiles_in c' = c_flowfiles_in c"
      "c_max_queue_size c' = c_max_queue_size c" "c_max_queue_bytes c' = c_max_queue_bytes c"
      "c_total_bytes c' = c_total_bytes c - int (ff_size ff)"
proof (cases "fst (pq_remove ff (c_queue c))")
  case False
  have inv: "pq_inv (c_queue c)" using assms by (simp add: conn_inv_def)
  have "conn_remove ff c = (False, c)"
    using False by (cases "pq_remove ff (c_queue c)") (auto simp: conn_remove_def)
  moreover have "ff \<notin> set (c_contents c)" using pq_remove_spec(1) [OF inv, of ff] False by blast
  ultimately show thesis using absent by blast
next
  case True
  have inv: "pq_inv (c_queue c)" using assms by (simp add: conn_inv_def)
  let ?q = "snd (pq_remove ff (c_queue c))"
  from pq_remove_spec(3) [OF inv True] obtain x where x: "pq_inv ?q" "ff_oid x = ff_oid ff"
    "mset (c_contents c) = add_mset x (mset (pq_contents ?q))" by auto
  then have "x \<in> set (c_contents c)" by (metis set_mset_mset union_single_eq_member)
  with x assms(2) have [simp]: "x = ff" by (auto simp: same_obj_def)
  have b: "bytes_of (c_contents c) = int (ff_size ff) + bytes_of (pq_contents ?q)"
    using x(3) by (intro bytes_of_add_mset) simp
  have "conn_remove ff c = (True, account_removed ff (c\<lparr>c_queue := ?q\<rparr>))"
    using True by (cases "pq_remove ff (c_queue c)") (auto simp: conn_remove_def)
  moreover have "length (c_contents c) = Suc (length (pq_contents ?q))"
    using x(3) by (metis size_add_mset size_mset)
  ultimately show thesis
    using assms x b \<open>x \<in> set (c_contents c)\<close>
      removed [of "account_removed ff (c\<lparr>c_queue := ?q\<rparr>)"] by (simp add: conn_inv_def)
qed

lemma get_flowfile_Some:
  assumes "conn_inv c" and "get_flowfile pid c = Some ff"
  shows "ff \<in> set (c_contents c) \<and> ff_process_id ff = pid"
proof -
  have inv: "pq_inv (c_queue c)" using assms by (simp add: conn_inv_def)
  have f: "find (\<lambda>ff. ff_process_id ff = pid) (pq_peek_all (pq_size (c_queue c)) (c_queue c)) = Some ff"
    using assms(2) by (simp add: get_flowfile_def)
  then have "ff \<in> set (pq_peek_all (pq_size (c_queue c)) (c_queue c)) \<and> ff_process_id ff = pid"
    by (auto simp: find_Some_iff in_set_conv_nth)
  moreover have "set (pq_peek_all (pq_size (c_queue c)) (c_queue c)) \<subseteq> set (c_contents c)"
  proof (cases "c_contents c = []")
    case True
    then show ?thesis by (simp add: pq_peek_all_contents slice_to_def)
  next
    case False
    then have "1 \<le> pq_size (c_queue c)"
      using pq_size_contents [OF inv] by (cases "c_contents c") auto
    then show ?thesis by (simp add: pq_peek_all_take set_take_subset)
  qed
  ultimately show ?thesis by auto
qed

lemma get_flowfile_None:
  assumes "conn_inv c" and "get_flowfile pid c = None" and "ff \<in> set (c_contents c)"
  shows "ff_process_id ff \<noteq> pid"
proof -
  have inv: "pq_inv (c_queue c)" using assms by (simp add: conn_inv_def)
  have "1 \<le> pq_size (c_queue c)"
    using assms(3) pq_size_contents [OF inv] by (cases "c_contents c") auto
  then have "pq_peek_all (pq_size (c_queue c)) (c_queue c) = c_contents c"
    using pq_size_contents [OF inv] by (simp add: pq_peek_all_take)
  with assms(2,3) show ?thesis by (auto simp: get_flowfile_def find_None_iff)
qed


subsubsection \<open>drain\_expired\<close>

text \<open>Which FlowFiles expire and which stay, in service order, and the clock entries left.\<close>

fun expire_split ::
    "real \<Rightarrow> int \<Rightarrow> (string, real) dict \<Rightarrow> flowfile list \<Rightarrow>
     flowfile list \<times> flowfile list \<times> (string, real) dict" where
  "expire_split now ttl tms [] = ([], [], tms)"
| "expire_split now ttl tms (ff # ffs) =
     (if now - dict_get tms (ff_process_id ff) now > real_of_int ttl
      then (let (e, r, t) = expire_split now ttl (AList.delete (ff_process_id ff) tms) ffs
            in (ff # e, r, t))
      else (let (e, r, t) = expire_split now ttl tms ffs in (e, ff # r, t)))"

lemma expire_split_mset:
  "expire_split now ttl tms ffs = (e, r, t) \<Longrightarrow> mset ffs = mset e + mset r"
  by (induction now ttl tms ffs arbitrary: e r t rule: expire_split.induct)
     (auto split: if_splits prod.splits)

lemma dict_get_delete_other:
  "k' \<noteq> k \<Longrightarrow> dict_get (AList.delete k d) k' dflt = dict_get d k' dflt"
  by (simp add: dict_get_def)

lemma expire_split_distinct:
  assumes "distinct (map ff_process_id ffs)"
  shows "expire_split now ttl tms ffs = (e, r, t) \<Longrightarrow>
    e = filter (\<lambda>ff. now - dict_get tms (ff_process_id ff) now > real_of_int ttl) ffs \<and>
    r = filter (\<lambda>ff. \<not> now - dict_get tms (ff_process_id ff) now > real_of_int ttl) ffs"
  using assms
proof (induction now ttl tms ffs arbitrary: e r t rule: expire_split.induct)
  case (1 now ttl tms)
  then show ?case by simp
next
  case (2 now ttl tms ff ffs)
  have other: "dict_get (AList.delete (ff_process_id ff) tms) (ff_process_id x) now =
      dict_get tms (ff_process_id x) now" if "x \<in> set ffs" for x
    using that "2.prems"(2) by (intro dict_get_delete_other) (auto simp: image_iff)
  show ?case
  proof (cases "now - dict_get tms (ff_process_id ff) now > real_of_int ttl")
    case True
    obtain e' r' t' where s: "expire_split now ttl (AList.delete (ff_process_id ff) tms) ffs = (e', r', t')"
      by (cases "expire_split now ttl (AList.delete (ff_process_id ff) tms) ffs") auto
    have "e' = filter (\<lambda>ff. now - dict_get tms (ff_process_id ff) now > real_of_int ttl) ffs \<and>
      r' = filter (\<lambda>ff. \<not> now - dict_get tms (ff_process_id ff) now > real_of_int ttl) ffs"
      using "2.IH"(1) [OF True s] "2.prems"(2) other by (auto intro!: filter_cong)
    with True s "2.prems"(1) show ?thesis by auto
  next
    case False
    obtain e' r' t' where s: "expire_split now ttl tms ffs = (e', r', t')"
      by (cases "expire_split now ttl tms ffs") auto
    with False "2.IH"(2) [OF False s] "2.prems" show ?thesis by auto
  qed
qed

lemma mark_expired_cong [simp]:
  "mark_expired (account_removed ff c) = mark_expired c"
  "mark_expired (c\<lparr>c_queue := q\<rparr>) = mark_expired c"
  by (simp_all add: mark_expired_def fun_eq_iff)

lemma drain_loop_split:
  assumes "pq_inv (c_queue c)" and "length (c_contents c) < n"
    and "expire_split now (c_ttl c) (c_enqueue_times c) (pq_service_order (c_queue c)) = (e, r, t)"
  shows "\<exists>q. drain_loop n now c ex re =
      Some (c\<lparr>c_queue := q, c_total_bytes := c_total_bytes c - bytes_of e,
               c_flowfiles_out := c_flowfiles_out c + int (length e), c_enqueue_times := t\<rparr>,
            ex @ map (mark_expired c) e, re @ r) \<and>
    pq_inv q \<and> pq_contents q = [] \<and> pq_max_size q = pq_max_size (c_queue c)"
  using assms
proof (induction n arbitrary: c ex re e r t)
  case 0
  then show ?case by simp
next
  case (Suc n)
  note inv = Suc.prems(1)
  show ?case
  proof (cases "c_contents c = []")
    case True
    then have "pq_service_order (c_queue c) = []" by simp
    with Suc.prems True show ?thesis
      by (auto simp: pq.empty_iff intro!: exI [of _ "c_queue c"])
  next
    case False
    obtain q where q: "pq_get (c_queue c) = (Some (hd (pq_service_order (c_queue c))), q)"
      "pq_service_order q = tl (pq_service_order (c_queue c))" "pq_inv q"
      "pq_max_size q = pq_max_size (c_queue c)"
      using pq_get_service [OF inv False] by metis
    obtain ff ffs where ffs: "pq_service_order (c_queue c) = ff # ffs"
      using False by (cases "pq_service_order (c_queue c)") auto
    have "mset (c_contents c) = add_mset ff (mset (pq_contents q))"
      by (metis ffs list.sel(3) mset.simps(2) mset_pq_service_order q(2))
    then have len: "length (pq_contents q) < n"
      using Suc.prems(2) by (metis Suc_less_eq size_add_mset size_mset)
    have ne: "\<not> pq_is_empty (c_queue c)" using inv False by (simp add: pq.empty_iff)
    show ?thesis
    proof (cases "now - dict_get (c_enqueue_times c) (ff_process_id ff) now > real_of_int (c_ttl c)")
      case True
      let ?c = "account_removed ff (c\<lparr>c_queue := q\<rparr>)"
      obtain e' r' t' where s: "expire_split now (c_ttl c) (AList.delete (ff_process_id ff) (c_enqueue_times c)) ffs = (e', r', t')"
        by (cases "expire_split now (c_ttl c) (AList.delete (ff_process_id ff) (c_enqueue_times c)) ffs") auto
      with True Suc.prems(3) have er: "e = ff # e'" "r = r'" "t = t'" by (auto simp: ffs)
      from Suc.IH [of ?c e' r' t' "ex @ [mark_expired c ff]" re] q len s ffs
      obtain q' where "drain_loop n now ?c (ex @ [mark_expired c ff]) re =
        Some (?c\<lparr>c_queue := q', c_total_bytes := c_total_bytes ?c - bytes_of e',
               c_flowfiles_out := c_flowfiles_out ?c + int (length e'), c_enqueue_times := t'\<rparr>,
            (ex @ [mark_expired c ff]) @ map (mark_expired c) e', re @ r')"
        "pq_inv q'" "pq_contents q' = []" "pq_max_size q' = pq_max_size (c_queue c)" by auto
      with True ne q ffs show ?thesis
        by (intro exI [of _ q']) (simp add: er account_removed_def Let_def algebra_simps)
    next
      case no: False
      let ?c = "c\<lparr>c_queue := q\<rparr>"
      obtain e' r' t' where s: "expire_split now (c_ttl c) (c_enqueue_times c) ffs = (e', r', t')"
        by (cases "expire_split now (c_ttl c) (c_enqueue_times c) ffs") auto
      with no Suc.prems(3) have er: "e = e'" "r = ff # r'" "t = t'" by (auto simp: ffs)
      from Suc.IH [of ?c e' r' t' ex "re @ [ff]"] q len s ffs
      obtain q' where "drain_loop n now ?c ex (re @ [ff]) =
        Some (?c\<lparr>c_queue := q', c_total_bytes := c_total_bytes ?c - bytes_of e',
               c_flowfiles_out := c_flowfiles_out ?c + int (length e'), c_enqueue_times := t'\<rparr>,
            ex @ map (mark_expired c) e', (re @ [ff]) @ r')"
        "pq_inv q'" "pq_contents q' = []" "pq_max_size q' = pq_max_size (c_queue c)" by auto
      with no ne q ffs show ?thesis
        by (intro exI [of _ q']) (simp add: er Let_def)
    qed
  qed
qed


lemma drain_expired_spec:
  assumes inv: "conn_inv c" and ttl: "0 < c_ttl c"
    and s: "expire_split now (c_ttl c) (c_enqueue_times c) (pq_service_order (c_queue c)) = (e, r, t)"
  obtains c' where "drain_expired now c = Some (map (mark_expired c) e, c')"
    and "mset (c_contents c') = mset r" and "mset (c_contents c) = mset e + mset (c_contents c')"
    and "conn_inv c'" and "c_flowfiles_out c' = c_flowfiles_out c + int (length e)"
    and "c_flowfiles_in c' = c_flowfiles_in c" and "c_max_queue_size c' = c_max_queue_size c"
    and "c_max_queue_bytes c' = c_max_queue_bytes c" and "c_paused c' = c_paused c"
proof -
  have pinv: "pq_inv (c_queue c)" and cap: "pq_max_size (c_queue c) = c_max_queue_size c"
    and tot: "c_total_bytes c = bytes_of (c_contents c)"
    and len: "int (length (c_contents c)) \<le> max 0 (c_max_queue_size c)"
    using inv by (auto simp: conn_inv_def)
  have m: "mset (c_contents c) = mset e + mset r"
    using expire_split_mset [OF s] by simp
  then have l: "length (c_contents c) = length e + length r"
    by (metis size_mset size_union)
  have b: "bytes_of (c_contents c) = bytes_of e + bytes_of r"
    using bytes_of_mset [of "c_contents c" "e @ r"] m by simp
  have fuel: "length (c_contents c) < Suc (nat (pq_size (c_queue c)))"
    using pq_size_contents [OF pinv] by simp
  obtain q where q: "drain_loop (Suc (nat (pq_size (c_queue c)))) now c [] [] =
      Some (c\<lparr>c_queue := q, c_total_bytes := c_total_bytes c - bytes_of e,
               c_flowfiles_out := c_flowfiles_out c + int (length e), c_enqueue_times := t\<rparr>,
            map (mark_expired c) e, r)"
    "pq_inv q" "pq_contents q = []" "pq_max_size q = c_max_queue_size c"
    using drain_loop_split [OF pinv fuel s, of "[]" "[]"] cap by auto
  let ?q = "put_all pq_put r q"
  have pa: "mset (pq_contents ?q) = mset r \<and> pq_inv ?q \<and> pq_max_size ?q = c_max_queue_size c"
  proof (cases "r = []")
    case True
    with q show ?thesis by simp
  next
    case False
    then have "int (size (mset (pq_contents q)) + length r) \<le> pq_max_size q"
      using q len l by (cases r) auto
    with pq.put_all_fits [OF q(2), of r] q show ?thesis by simp
  qed
  let ?c = "c\<lparr>c_queue := ?q, c_total_bytes := c_total_bytes c - bytes_of e,
               c_flowfiles_out := c_flowfiles_out c + int (length e), c_enqueue_times := t\<rparr>"
  have "length (pq_contents ?q) = length r" using pa by (metis size_mset)
  moreover have "bytes_of (pq_contents ?q) = bytes_of r" using pa bytes_of_mset by blast
  ultimately have "conn_inv ?c" using pa tot b len l by (simp add: conn_inv_def)
  then show thesis
    using that [of ?c] q(1) ttl pa m by (simp add: drain_expired_def)
qed

subsection \<open>Runs of a connection\<close>

datatype conn_op =
    Enqueue real flowfile
  | Dequeue
  | DrainExpired real
  | Requeue flowfile
  | Remove flowfile
  | RemoveByIndex int
  | RemoveByProcessId string
  | Pause
  | Resume
  | Clear

text \<open>The state an operation leaves, \<open>None\<close> when the method raises.\<close>

fun conn_apply :: "conn_op \<Rightarrow> connection \<Rightarrow> connection option" where
  "conn_apply (Enqueue now ff) c = Some (snd (enqueue now ff c))"
| "conn_apply Dequeue c = Some (snd (dequeue c))"
| "conn_apply (DrainExpired now) c = map_option snd (drain_expired now c)"
| "conn_apply (Requeue ff) c = Some (requeue ff c)"
| "conn_apply (Remove ff) c = Some (snd (conn_remove ff c))"
| "conn_apply (RemoveByIndex i) c = (case remove_by_index i c of Inl _ \<Rightarrow> None | Inr r \<Rightarrow> Some (snd r))"
| "conn_apply (RemoveByProcessId pid) c = Some (snd (remove_by_process_id pid c))"
| "conn_apply Pause c = Some (pause c)"
| "conn_apply Resume c = Some (resume c)"
| "conn_apply Clear c = Some (conn_clear c)"

text \<open>
  What a caller may do: an object handed in is the one already queued under its identity, and a
  rollback happens while there is room (what happens otherwise is \<open>requeue_drops_when_full\<close>).
\<close>

fun conn_legal :: "conn_op \<Rightarrow> connection \<Rightarrow> bool" where
  "conn_legal (Enqueue now ff) c = same_obj ff c"
| "conn_legal (Requeue ff) c = (same_obj ff c \<and> int (length (c_contents c)) < c_max_queue_size c)"
| "conn_legal (Remove ff) c = same_obj ff c"
| "conn_legal _ c = True"

inductive conn_run :: "connection \<Rightarrow> conn_op list \<Rightarrow> connection \<Rightarrow> bool" for start where
  run_init: "conn_run start [] start"
| run_step: "conn_run start ops c \<Longrightarrow> conn_legal op c \<Longrightarrow> conn_apply op c = Some c' \<Longrightarrow>
    conn_run start (ops @ [op]) c'"

inductive_cases conn_run_snocE: "conn_run start (ops @ [op]) c'"

text \<open>An operation that only takes FlowFiles out.\<close>

definition shrinks :: "connection \<Rightarrow> connection \<Rightarrow> bool" where
  "shrinks c c' \<longleftrightarrow> conn_inv c' \<and> c_flowfiles_in c' = c_flowfiles_in c \<and>
     c_max_queue_size c' = c_max_queue_size c \<and> c_max_queue_bytes c' = c_max_queue_bytes c \<and>
     (\<exists>gone. mset (c_contents c) = mset gone + mset (c_contents c') \<and>
        c_flowfiles_out c' = c_flowfiles_out c + int (length gone))"

lemma shrinksI:
  assumes "conn_inv c'" and "c_flowfiles_in c' = c_flowfiles_in c"
    and "c_max_queue_size c' = c_max_queue_size c" and "c_max_queue_bytes c' = c_max_queue_bytes c"
    and "mset (c_contents c) = mset gone + mset (c_contents c')"
    and "c_flowfiles_out c' = c_flowfiles_out c + int (length gone)"
  shows "shrinks c c'"
  using assms by (auto simp: shrinks_def)

lemma shrinks_refl: "conn_inv c \<Longrightarrow> shrinks c c"
  by (rule shrinksI [where gone = "[]"]) auto

lemma shrinks_dequeue [pf_inv]: "conn_inv c \<Longrightarrow> shrinks c (snd (dequeue c))"
proof -
  assume inv: "conn_inv c"
  from inv show ?thesis
  proof (cases rule: dequeue_cases)
    case (taken ff c')
    then show ?thesis by (auto intro!: shrinksI [where gone = "[ff]"])
  qed (simp_all add: shrinks_refl inv)
qed

lemma shrinks_remove [pf_inv]: "conn_inv c \<Longrightarrow> same_obj ff c \<Longrightarrow> shrinks c (snd (conn_remove ff c))"
proof -
  assume inv: "conn_inv c" and so: "same_obj ff c"
  from inv so show ?thesis
  proof (cases rule: conn_remove_cases)
    case (removed c')
    then show ?thesis by (auto intro!: shrinksI [where gone = "[ff]"])
  qed (simp add: shrinks_refl inv)
qed

lemma shrinks_drain: "conn_inv c \<Longrightarrow> \<exists>ex c'. drain_expired now c = Some (ex, c') \<and> shrinks c c'"
proof (cases "0 < c_ttl c")
  case False
  moreover assume "conn_inv c"
  ultimately show ?thesis by (simp add: drain_expired_def shrinks_refl)
next
  case True
  assume inv: "conn_inv c"
  obtain e r t where s: "expire_split now (c_ttl c) (c_enqueue_times c) (pq_service_order (c_queue c)) = (e, r, t)"
    by (cases "expire_split now (c_ttl c) (c_enqueue_times c) (pq_service_order (c_queue c))") auto
  from drain_expired_spec [OF inv True s] obtain c' where
    "drain_expired now c = Some (map (mark_expired c) e, c')" "mset (c_contents c) = mset e + mset (c_contents c')"
    "conn_inv c'" "c_flowfiles_out c' = c_flowfiles_out c + int (length e)"
    "c_flowfiles_in c' = c_flowfiles_in c" "c_max_queue_size c' = c_max_queue_size c"
    "c_max_queue_bytes c' = c_max_queue_bytes c" by metis
  then show ?thesis by (auto intro!: shrinksI [where gone = e])
qed

lemma take_until_subset: "set (take_until limit acc xs) \<subseteq> set acc \<union> set xs"
  by (induction limit acc xs rule: take_until.induct) (auto simp: Let_def)

lemma set_pq_peek_all: "set (pq_peek_all limit q) \<subseteq> set (pq_contents q)"
  using take_until_subset [of limit "[]" "pq_contents q"]
  by (auto simp: pq_peek_all_contents slice_to_def dest: in_set_takeD)

lemma py_index_in_set: "py_index xs i = Inr x \<Longrightarrow> x \<in> set xs"
  by (auto simp: py_index_def Let_def split: if_splits)

lemma shrinks_remove_by_index:
  assumes "conn_inv c" and "objs_ok c" and "remove_by_index i c = Inr (b, c')"
  shows "shrinks c c'"
proof -
  from assms(3) consider "c' = c" | ff where "ff \<in> set (pq_peek_all (i + 1) (c_queue c))" "conn_remove ff c = (b, c')"
    by (auto simp: remove_by_index_def Let_def bind_res_Inr_iff dest: py_index_in_set split: if_splits)
  then show ?thesis
  proof cases
    case 1
    with assms(1) show ?thesis by (simp add: shrinks_refl)
  next
    case 2
    then have "same_obj ff c" using assms(2) set_pq_peek_all by (auto simp: objs_ok_def)
    with 2 shrinks_remove [OF assms(1)] show ?thesis by (metis snd_conv)
  qed
qed

lemma shrinks_remove_by_process_id:
  assumes "conn_inv c" and "objs_ok c"
  shows "shrinks c (snd (remove_by_process_id pid c))"
proof (cases "get_flowfile pid c")
  case None
  with assms show ?thesis by (simp add: remove_by_process_id_def shrinks_refl)
next
  case (Some ff)
  then have "same_obj ff c"
    using assms get_flowfile_Some [OF assms(1) Some] by (auto simp: objs_ok_def)
  with Some shrinks_remove [OF assms(1)] show ?thesis by (simp add: remove_by_process_id_def)
qed

lemma shrinks_objs_ok:
  assumes "shrinks c c'" and "objs_ok c"
  shows "objs_ok c'"
proof -
  from assms(1) obtain gone where "mset (c_contents c) = mset gone + mset (c_contents c')"
    by (auto simp: shrinks_def)
  then have "set (c_contents c') \<subseteq> set (c_contents c)"
    by (metis mset_subset_eq_add_right set_mset_mono set_mset_mset)
  with assms(2) show ?thesis by (auto simp: objs_ok_def same_obj_def)
qed

lemma shrinks_bytes:
  assumes "shrinks c c'" and "conn_inv c"
  shows "c_total_bytes c' \<le> c_total_bytes c"
proof -
  from assms(1) obtain gone where "mset (c_contents c) = mset gone + mset (c_contents c')"
    by (auto simp: shrinks_def)
  then have "bytes_of (c_contents c) = bytes_of gone + bytes_of (c_contents c')"
    using bytes_of_mset [of "c_contents c" "gone @ c_contents c'"] by simp
  with assms show ?thesis
    using bytes_of_nonneg [of gone] unfolding shrinks_def conn_inv_def by linarith
qed

definition removal_op :: "conn_op \<Rightarrow> bool" where
  "removal_op op \<longleftrightarrow> (case op of Dequeue \<Rightarrow> True | DrainExpired _ \<Rightarrow> True | Remove _ \<Rightarrow> True
     | RemoveByIndex _ \<Rightarrow> True | RemoveByProcessId _ \<Rightarrow> True | _ \<Rightarrow> False)"

lemma removal_shrinks:
  assumes "removal_op op" and "conn_inv c" and "objs_ok c" and "conn_legal op c"
    and "conn_apply op c = Some c'"
  shows "shrinks c c'"
proof (cases op)
  case (DrainExpired now)
  with assms(5) shrinks_drain [OF assms(2), of now] show ?thesis by auto
next
  case (RemoveByIndex i)
  with assms(2,3,5) shrinks_remove_by_index show ?thesis
    by (fastforce split: sum.splits)
qed (use assms shrinks_dequeue shrinks_remove shrinks_remove_by_process_id in
     \<open>auto simp: removal_op_def\<close>)


subsection \<open>Invariants of every run\<close>

lemma enqueue_objs_ok:
  assumes "conn_inv c" and "objs_ok c" and "same_obj ff c"
  shows "conn_inv (snd (enqueue now ff c)) \<and> objs_ok (snd (enqueue now ff c))"
  using assms(1)
proof (cases rule: enqueue_cases [of c now ff])
  case refused
  with assms show ?thesis by simp
next
  case (accepted c')
  then have "set (c_contents c') = insert ff (set (c_contents c))"
    by (metis set_mset_add_mset_insert set_mset_mset)
  with accepted assms show ?thesis by (auto simp: objs_ok_def same_obj_def)
qed

lemma conn_run_inv:
  "conn_run (new_connection src tgt rel n b prio attr ttl) ops c \<Longrightarrow> conn_inv c \<and> objs_ok c"
proof (induction rule: conn_run.induct)
  case run_init
  show ?case by (simp add: new_connection_inv) (simp add: objs_ok_def new_connection_def)
next
  case (run_step ops c op c')
  show ?case
  proof (cases "removal_op op")
    case True
    then have "shrinks c c'" using run_step removal_shrinks by blast
    with run_step show ?thesis using shrinks_objs_ok by (auto simp: shrinks_def)
  next
    case False
    show ?thesis
    proof (cases op)
      case (Enqueue now ff)
      with run_step show ?thesis using enqueue_objs_ok by auto
    next
      case (Requeue ff)
      with run_step have "conn_inv c'" and "mset (c_contents c') = add_mset ff (mset (c_contents c))"
        using requeue_room by auto
      moreover from this(2) have "set (c_contents c') = insert ff (set (c_contents c))"
        by (metis set_mset_add_mset_insert set_mset_mset)
      ultimately show ?thesis using run_step Requeue by (auto simp: objs_ok_def same_obj_def)
    qed (use False run_step in \<open>auto simp: removal_op_def pause_def resume_def conn_clear_def
           conn_inv_def objs_ok_def same_obj_def\<close>)
  qed
qed

lemma conn_run_bytes_bound:
  assumes "conn_run (new_connection src tgt rel n b prio attr ttl) ops c"
    and "\<forall>ff. Requeue ff \<notin> set ops"
  shows "c_total_bytes c \<le> max 0 (c_max_queue_bytes c)"
  using assms
proof (induction rule: conn_run.induct)
  case run_init
  show ?case by (simp add: new_connection_def)
next
  case (run_step ops c op c')
  have inv: "conn_inv c" "objs_ok c" using conn_run_inv run_step by blast+
  have IH: "c_total_bytes c \<le> max 0 (c_max_queue_bytes c)" using run_step by auto
  show ?case
  proof (cases "removal_op op")
    case True
    then have sh: "shrinks c c'" using inv run_step removal_shrinks by blast
    then have "c_max_queue_bytes c' = c_max_queue_bytes c" by (simp add: shrinks_def)
    with shrinks_bytes [OF sh inv(1)] IH show ?thesis by linarith
  next
    case False
    show ?thesis
    proof (cases op)
      case (Enqueue now ff)
      from inv(1) show ?thesis
      proof (cases rule: enqueue_cases [of c now ff])
        case refused
        with Enqueue run_step IH show ?thesis by auto
      next
        case (accepted c'')
        with Enqueue run_step show ?thesis by auto
      qed
    qed (use False run_step IH in \<open>auto simp: removal_op_def pause_def resume_def conn_clear_def\<close>)
  qed
qed

lemma conn_run_conservation:
  assumes "conn_run (new_connection src tgt rel n b prio attr ttl) ops c"
    and "\<forall>ff. Requeue ff \<notin> set ops" and "Clear \<notin> set ops"
  shows "c_flowfiles_in c = c_flowfiles_out c + int (length (c_contents c))"
  using assms
proof (induction rule: conn_run.induct)
  case run_init
  show ?case by (simp add: new_connection_def)
next
  case (run_step ops c op c')
  have inv: "conn_inv c" "objs_ok c" using conn_run_inv run_step by blast+
  have IH: "c_flowfiles_in c = c_flowfiles_out c + int (length (c_contents c))" using run_step by auto
  show ?case
  proof (cases "removal_op op")
    case True
    then have "shrinks c c'" using inv run_step removal_shrinks by blast
    then obtain gone where g: "mset (c_contents c) = mset gone + mset (c_contents c')"
      "c_flowfiles_out c' = c_flowfiles_out c + int (length gone)" "c_flowfiles_in c' = c_flowfiles_in c"
      by (auto simp: shrinks_def)
    have "length (c_contents c) = length gone + length (c_contents c')"
      using g(1) by (metis size_mset size_union)
    with g IH show ?thesis by simp
  next
    case False
    show ?thesis
    proof (cases op)
      case (Enqueue now ff)
      from inv(1) show ?thesis
      proof (cases rule: enqueue_cases [of c now ff])
        case refused
        with Enqueue run_step IH show ?thesis by auto
      next
        case (accepted c'')
        then have "length (c_contents c'') = Suc (length (c_contents c))"
          by (metis size_add_mset size_mset)
        with accepted Enqueue run_step IH show ?thesis by auto
      qed
    qed (use False run_step IH in \<open>auto simp: removal_op_def pause_def resume_def\<close>)
  qed
qed

subsection \<open>Properties\<close>


definition bytes_ff :: "nat \<Rightarrow> 8 word list \<Rightarrow> flowfile" where
  "bytes_ff oid bs = \<lparr>ff_oid = oid, ff_process_id = ''p'' @ replicate oid CHR ''x'', ff_attributes = [], ff_content = bs\<rparr>"

definition tiny :: connection where
  "tiny = new_connection ''a'' ''b'' ''success'' 1 100 FIFO ''priority'' 0"

lemma tiny_enqueue:
  "enqueue 0 (bytes_ff 0 [1, 2]) tiny = (True, tiny\<lparr>c_queue := (c_queue tiny)\<lparr>pq_items := [bytes_ff 0 [1, 2]]\<rparr>,
     c_total_bytes := 2, c_flowfiles_in := 1\<rparr>)"
  by (simp add: enqueue_def tiny_def new_connection_def bytes_ff_def ff_size_def pq_put_def pq_init_def)


text \<open>
  \<open>requeue\<close>, whose comment says it bypasses backpressure, does not: on a full queue the
  FlowFile handed back is dropped, and its size is still added to the byte counter, which from then
  on is too large by that size.
\<close>

theorem requeue_drops_when_full:
  assumes "conn_inv c" and "c_max_queue_size c \<le> queue_size c"
  shows "c_contents (requeue ff c) = c_contents c \<and>
    queue_bytes (requeue ff c) = bytes_of (c_contents (requeue ff c)) + int (ff_size ff)"
proof -
  have "c_max_queue_size c \<le> int (length (c_contents c))"
    using assms pq_size_contents by (simp add: queue_size_def conn_inv_def)
  with requeue_full [OF assms(1)] assms(1) show ?thesis
    by (simp add: queue_bytes_def conn_inv_def)
qed

theorem requeue_drops_when_full_witness:
  "conn_inv (snd (enqueue 0 (bytes_ff 0 [1, 2]) tiny)) \<and>
   c_contents (requeue (bytes_ff 1 [7]) (snd (enqueue 0 (bytes_ff 0 [1, 2]) tiny))) = [bytes_ff 0 [1, 2]] \<and>
   queue_bytes (requeue (bytes_ff 1 [7]) (snd (enqueue 0 (bytes_ff 0 [1, 2]) tiny))) = 3"
proof -
  let ?c = "snd (enqueue 0 (bytes_ff 0 [1, 2]) tiny)"
  have "conn_inv tiny" unfolding tiny_def by (rule new_connection_inv)
  then have inv: "conn_inv ?c"
    using enqueue_objs_ok [of tiny] by (simp add: objs_ok_def same_obj_def tiny_def new_connection_def)
  have full: "c_max_queue_size ?c \<le> queue_size ?c"
    by (simp add: tiny_enqueue queue_size_def pq_size_def) (simp add: tiny_def new_connection_def pq_init_def)
  have c: "c_contents ?c = [bytes_ff 0 [1, 2]]"
    by (simp add: tiny_enqueue pq_contents_def) (simp add: tiny_def new_connection_def pq_init_def)
  show ?thesis
    using inv requeue_drops_when_full [OF inv full, of "bytes_ff 1 [7]"]
    by (simp add: c) (simp add: bytes_ff_def ff_size_def)
qed

text \<open>
  \<open>enqueue\<close> accepts exactly the FlowFiles that fit in both limits; a refusal leaves the
  connection untouched, and a backpressured connection refuses every FlowFile that has content.
\<close>

theorem enqueue_accepts_iff:
  assumes "conn_inv c"
  shows "(fst (enqueue now ff c) \<longleftrightarrow>
      queue_bytes c + int (ff_size ff) \<le> c_max_queue_bytes c \<and> queue_size c < c_max_queue_size c) \<and>
    (\<not> fst (enqueue now ff c) \<longrightarrow> snd (enqueue now ff c) = c) \<and>
    (is_backpressured c \<and> 0 < ff_size ff \<longrightarrow> \<not> fst (enqueue now ff c))"
proof -
  have qs: "queue_size c = int (length (c_contents c))" "pq_size (c_queue c) = int (length (c_contents c))"
    using pq_size_contents assms by (simp_all add: queue_size_def conn_inv_def)
  from assms show ?thesis
    by (cases rule: enqueue_cases [of c now ff]) (auto simp: qs queue_bytes_def is_backpressured_def)
qed

theorem enqueue_accepts_iff_witness:
  "conn_inv tiny \<and> fst (enqueue 0 (bytes_ff 0 [1, 2]) tiny) \<and>
   queue_bytes tiny + int (ff_size (bytes_ff 0 [1, 2])) \<le> c_max_queue_bytes tiny \<and>
   queue_size tiny < c_max_queue_size tiny"
proof -
  have inv: "conn_inv tiny" unfolding tiny_def by (rule new_connection_inv)
  have "fst (enqueue 0 (bytes_ff 0 [1, 2]) tiny)" by (simp add: tiny_enqueue)
  then show ?thesis using inv enqueue_accepts_iff [OF inv, of 0 "bytes_ff 0 [1, 2]"] by blast
qed

text \<open>
  the scheduler's test \<open>has_processable\<close> is exact: \<open>dequeue\<close> hands out a FlowFile if and
  only if it holds, and otherwise changes nothing; a paused connection hands out nothing.
\<close>

theorem has_processable_exact:
  assumes "conn_inv c"
  shows "(fst (dequeue c) \<noteq> None \<longleftrightarrow> has_processable c) \<and>
    (\<not> has_processable c \<longrightarrow> dequeue c = (None, c)) \<and>
    \<not> has_processable (pause c) \<and> dequeue (pause c) = (None, pause c)"
proof -
  have e: "pq_is_empty (c_queue c) \<longleftrightarrow> c_contents c = []"
    using assms pq_is_empty_contents by (simp add: conn_inv_def)
  have "(fst (dequeue c) \<noteq> None \<longleftrightarrow> has_processable c) \<and> (\<not> has_processable c \<longrightarrow> dequeue c = (None, c))"
    using assms
  proof (cases rule: dequeue_cases)
    case (taken ff c')
    then have "c_contents c \<noteq> []" by auto
    with taken show ?thesis by (simp add: has_processable_def e)
  qed (simp_all add: has_processable_def e)
  then show ?thesis by (simp add: has_processable_def pause_def dequeue_def)
qed

theorem has_processable_exact_witness:
  "conn_inv tiny \<and> fst (dequeue tiny) = None \<and> \<not> has_processable tiny"
proof -
  have inv: "conn_inv tiny" unfolding tiny_def by (rule new_connection_inv)
  have "\<not> has_processable tiny"
    by (simp add: has_processable_def tiny_def new_connection_def pq_is_empty_def pq_init_def)
  then show ?thesis using inv has_processable_exact [OF inv] by blast
qed


text \<open>
  when the queued FlowFiles have distinct process ids, \<open>drain_expired\<close> returns exactly those
  whose time to live has passed, in service order and marked as expired, and keeps all the others;
  the loop ends within its fuel and the accounting still holds.
\<close>

theorem drain_expired_exact:
  assumes inv: "conn_inv c" and ttl: "0 < c_ttl c"
    and dist: "distinct (map ff_process_id (c_contents c))"
  shows "\<exists>c'. drain_expired now c =
      Some (map (mark_expired c) (filter (\<lambda>ff. is_expired now ff c) (pq_service_order (c_queue c))), c') \<and>
    mset (c_contents c') = mset (filter (\<lambda>ff. \<not> is_expired now ff c) (c_contents c)) \<and> conn_inv c'"
proof -
  let ?so = "pq_service_order (c_queue c)"
  obtain e r t where s: "expire_split now (c_ttl c) (c_enqueue_times c) ?so = (e, r, t)"
    by (cases "expire_split now (c_ttl c) (c_enqueue_times c) ?so") auto
  have "mset (map ff_process_id ?so) = mset (map ff_process_id (c_contents c))" by simp
  then have dso: "distinct (map ff_process_id ?so)" using dist by (metis mset_eq_imp_distinct_iff)
  have ie: "now - dict_get (c_enqueue_times c) (ff_process_id ff) now > real_of_int (c_ttl c)
      \<longleftrightarrow> is_expired now ff c" for ff
    using ttl by (auto simp: is_expired_def dict_get_def split: option.splits)
  have er: "e = filter (\<lambda>ff. is_expired now ff c) ?so" "r = filter (\<lambda>ff. \<not> is_expired now ff c) ?so"
    using expire_split_distinct [OF dso s] by (simp_all add: ie)
  from drain_expired_spec [OF inv ttl s] obtain c' where
    "drain_expired now c = Some (map (mark_expired c) e, c')" "mset (c_contents c') = mset r" "conn_inv c'"
    by metis
  then show ?thesis by (simp add: er)
qed

definition ttl_conn :: connection where
  "ttl_conn = (new_connection ''a'' ''b'' ''success'' 5 100 FIFO ''priority'' 10)
     \<lparr>c_queue := (pq_init FIFO 5 ''priority'')\<lparr>pq_items := [bytes_ff 0 [1], bytes_ff 1 [2]]\<rparr>,
      c_total_bytes := 2, c_enqueue_times := [(''p'', 0), (''px'', 95)]\<rparr>"

theorem drain_expired_exact_witness:
  "conn_inv ttl_conn \<and> 0 < c_ttl ttl_conn \<and> distinct (map ff_process_id (c_contents ttl_conn)) \<and>
   map_option (map ff_oid \<circ> fst) (drain_expired 100 ttl_conn) = Some [0]"
proof -
  have c: "c_contents ttl_conn = [bytes_ff 0 [1], bytes_ff 1 [2]]"
    by (simp add: ttl_conn_def pq_contents_def pq_init_def)
  have inv: "conn_inv ttl_conn"
    by (simp add: conn_inv_def c) (simp add: ttl_conn_def bytes_ff_def ff_size_def new_connection_def
        pq_inv_def pq_init_def)
  have ttl: "0 < c_ttl ttl_conn" by (simp add: ttl_conn_def new_connection_def)
  have dist: "distinct (map ff_process_id (c_contents ttl_conn))" by (simp add: c) (simp add: bytes_ff_def)
  have so: "pq_service_order (c_queue ttl_conn) = [bytes_ff 0 [1], bytes_ff 1 [2]]"
    by (simp add: pq_service_order_def c [simplified]) (simp add: ttl_conn_def pq_init_def pq_contents_def)
  from drain_expired_exact [OF inv ttl dist, of 100] obtain c' where
    "drain_expired 100 ttl_conn = Some (map (mark_expired ttl_conn)
       (filter (\<lambda>ff. is_expired 100 ff ttl_conn) [bytes_ff 0 [1], bytes_ff 1 [2]]), c')"
    unfolding so by blast
  moreover have "is_expired 100 (bytes_ff 0 [1]) ttl_conn" "\<not> is_expired 100 (bytes_ff 1 [2]) ttl_conn"
    by (simp_all add: is_expired_def ttl_conn_def new_connection_def bytes_ff_def)
  ultimately show ?thesis
    using inv ttl dist by (simp add: mark_expired_def set_attribute_def bytes_ff_def)
qed

text \<open>
  removal by process id finds a queued FlowFile exactly when there is one with that id, removes
  one FlowFile with that id and no other, and keeps the accounting.
\<close>

theorem remove_by_process_id_exact:
  assumes inv: "conn_inv c" and ok: "objs_ok c"
  shows "(fst (remove_by_process_id pid c) \<longleftrightarrow> pid \<in> ff_process_id ` set (c_contents c)) \<and>
    (fst (remove_by_process_id pid c) \<longrightarrow> (\<exists>ff. ff_process_id ff = pid \<and>
       mset (c_contents c) = add_mset ff (mset (c_contents (snd (remove_by_process_id pid c)))))) \<and>
    (\<not> fst (remove_by_process_id pid c) \<longrightarrow> snd (remove_by_process_id pid c) = c) \<and>
    conn_inv (snd (remove_by_process_id pid c))"
proof (cases "get_flowfile pid c")
  case None
  then have "pid \<notin> ff_process_id ` set (c_contents c)" using get_flowfile_None [OF inv None] by auto
  with None inv show ?thesis by (simp add: remove_by_process_id_def)
next
  case (Some ff)
  note ff = get_flowfile_Some [OF inv Some]
  then have so: "same_obj ff c" using ok by (auto simp: objs_ok_def)
  from inv so show ?thesis
  proof (cases rule: conn_remove_cases)
    case absent
    with ff show ?thesis by simp
  next
    case (removed c')
    with ff Some show ?thesis by (auto simp: remove_by_process_id_def)
  qed
qed

theorem remove_by_process_id_exact_witness:
  "conn_inv tiny \<and> objs_ok tiny \<and> \<not> fst (remove_by_process_id ''p'' tiny)"
proof -
  have inv: "conn_inv tiny" unfolding tiny_def by (rule new_connection_inv)
  have ok: "objs_ok tiny" and e: "c_contents tiny = []"
    by (simp_all add: objs_ok_def tiny_def new_connection_def)
  show ?thesis using inv ok remove_by_process_id_exact [OF inv ok, of "''p''"] by (simp add: e)
qed

end
