(* ===== verification/Connection_Manager.thy ===== *)
theory Connection_Manager
  imports Connection
begin

section \<open>The connections of a flow\<close>

text \<open>
  \<open>ConnectionManager\<close> of \<open>core/connection.py\<close>: the connections of one flow, indexed by source
  and by target task, and the construction of the connections from a flow's \<open>relations\<close>.
\<close>

subsection \<open>State and operations\<close>

text \<open>
  The manager's three containers hold references to the same connection objects.  The model keeps
  the objects in a store \<open>cm_objs\<close> indexed by a number and the containers as lists of numbers, so
  that a change made through one container is seen through the others.
\<close>

record connection_manager =
  cm_objs :: "connection list"
  cm_connections :: "nat list"
  cm_by_source :: "(string, nat list) dict"
  cm_by_target :: "(string, nat list) dict"

definition cm_init :: connection_manager where
  "cm_init = \<lparr>cm_objs = [], cm_connections = [], cm_by_source = [], cm_by_target = []\<rparr>"

definition add_connection :: "connection \<Rightarrow> connection_manager \<Rightarrow> connection_manager" where
  "add_connection c m =
     (let i = length (cm_objs m) in
      \<lparr>cm_objs = cm_objs m @ [c],
       cm_connections = cm_connections m @ [i],
       cm_by_source = AList.update (c_source_id c) (dict_get (cm_by_source m) (c_source_id c) [] @ [i])
         (cm_by_source m),
       cm_by_target = AList.update (c_target_id c) (dict_get (cm_by_target m) (c_target_id c) [] @ [i])
         (cm_by_target m)\<rparr>)"

definition get_outgoing :: "string \<Rightarrow> connection_manager \<Rightarrow> nat list" where
  "get_outgoing tid m = dict_get (cm_by_source m) tid []"

definition get_incoming :: "string \<Rightarrow> connection_manager \<Rightarrow> nat list" where
  "get_incoming tid m = dict_get (cm_by_target m) tid []"

definition get_all_stats :: "connection_manager \<Rightarrow> connection_stats list" where
  "get_all_stats m = map (\<lambda>i. get_stats (cm_objs m ! i)) (cm_connections m)"

definition any_backpressured :: "string \<Rightarrow> connection_manager \<Rightarrow> bool" where
  "any_backpressured tid m \<longleftrightarrow> list_ex (\<lambda>i. is_backpressured (cm_objs m ! i)) (get_outgoing tid m)"

definition get_by_id :: "string \<Rightarrow> connection_manager \<Rightarrow> nat option" where
  "get_by_id cid m = find (\<lambda>i. connection_id (cm_objs m ! i) = cid) (cm_connections m)"

definition get_connection :: "string \<Rightarrow> string \<Rightarrow> connection_manager \<Rightarrow> nat option" where
  "get_connection src tgt m =
     find (\<lambda>i. c_source_id (cm_objs m ! i) = src \<and> c_target_id (cm_objs m ! i) = tgt) (cm_connections m)"

definition all_empty :: "connection_manager \<Rightarrow> bool" where
  "all_empty m \<longleftrightarrow> list_all (\<lambda>i. conn_is_empty (cm_objs m ! i)) (cm_connections m)"

definition clear_all :: "connection_manager \<Rightarrow> connection_manager" where
  "clear_all m =
     fold (\<lambda>i m. m\<lparr>cm_objs := (cm_objs m)[i := conn_clear (cm_objs m ! i)]\<rparr>) (cm_connections m) m"

text \<open>One entry of a flow's \<open>relations\<close>, with its optional fields.\<close>

record relation_spec =
  rs_from :: "string option"
  rs_to :: "string option"
  rs_type :: "string option"
  rs_max_queue_size :: "int option"
  rs_max_queue_bytes :: "int option"
  rs_prioritizer :: "string option"
  rs_priority_attribute :: "string option"
  rs_ttl :: "int option"

text \<open>\<open>PrioritizerType(value)\<close> raises \<open>ValueError\<close> for a string that names no member.\<close>

definition prioritizer_of :: "string \<Rightarrow> prioritizer_type res" where
  "prioritizer_of s =
     (if s = ''fifo'' then Inr FIFO
      else if s = ''newest_first'' then Inr NEWEST_FIRST
      else if s = ''oldest_first'' then Inr OLDEST_FIRST
      else if s = ''priority_attribute'' then Inr PRIORITY_ATTRIBUTE
      else Inl (ValueError s))"

definition opt_default :: "'a option \<Rightarrow> 'a \<Rightarrow> 'a" where
  "opt_default x d = (case x of None \<Rightarrow> d | Some v \<Rightarrow> v)"

definition opt_key :: "string \<Rightarrow> 'a option \<Rightarrow> 'a res" where
  "opt_key k x = (case x of None \<Rightarrow> Inl (KeyError k) | Some v \<Rightarrow> Inr v)"

definition build_relation :: "int \<Rightarrow> int \<Rightarrow> relation_spec \<Rightarrow> connection_manager \<Rightarrow> connection_manager res" where
  "build_relation dsize dbytes rel m =
     bind_res (opt_key ''from'' (rs_from rel)) (\<lambda>src.
     bind_res (opt_key ''to'' (rs_to rel)) (\<lambda>tgt.
     bind_res (prioritizer_of (opt_default (rs_prioritizer rel) ''priority_attribute'')) (\<lambda>prio.
     Inr (add_connection
       (new_connection src tgt (opt_default (rs_type rel) ''success'')
          (opt_default (rs_max_queue_size rel) dsize) (opt_default (rs_max_queue_bytes rel) dbytes)
          prio (opt_default (rs_priority_attribute rel) ''priority'') (opt_default (rs_ttl rel) 0)) m))))"

definition build_from_flow ::
    "relation_spec list \<Rightarrow> int \<Rightarrow> int \<Rightarrow> connection_manager \<Rightarrow> connection_manager res" where
  "build_from_flow relations dsize dbytes m =
     fold_res (build_relation dsize dbytes) relations
       (m\<lparr>cm_connections := [], cm_by_source := [], cm_by_target := []\<rparr>)"



subsection \<open>The index of a manager\<close>

definition cm_inv :: "connection_manager \<Rightarrow> bool" where
  "cm_inv m \<longleftrightarrow> distinct (cm_connections m) \<and> (\<forall>i \<in> set (cm_connections m). i < length (cm_objs m)) \<and>
     (\<forall>tid. get_outgoing tid m = filter (\<lambda>i. c_source_id (cm_objs m ! i) = tid) (cm_connections m)) \<and>
     (\<forall>tid. get_incoming tid m = filter (\<lambda>i. c_target_id (cm_objs m ! i) = tid) (cm_connections m))"

lemma nth_append_old: "i \<in> set is \<Longrightarrow> (\<forall>i \<in> set is. i < length xs) \<Longrightarrow> (xs @ ys) ! i = xs ! i"
  by (simp add: nth_append)

lemma add_connection_inv [pf_inv]:
  assumes "cm_inv m"
  shows "cm_inv (add_connection c m)"
proof -
  have old: "\<forall>i \<in> set (cm_connections m). i < length (cm_objs m)" using assms by (simp add: cm_inv_def)
  then have new: "length (cm_objs m) \<notin> set (cm_connections m)" by auto
  have f: "filter (\<lambda>i. P ((cm_objs m @ [c]) ! i)) (cm_connections m) =
      filter (\<lambda>i. P (cm_objs m ! i)) (cm_connections m)" for P
    using old by (intro filter_cong) (auto simp: nth_append)
  show ?thesis
    using assms old new
    by (auto simp: cm_inv_def add_connection_def get_outgoing_def get_incoming_def Let_def
        f [of "\<lambda>x. c_source_id x = _"] f [of "\<lambda>x. c_target_id x = _"] less_SucI)
qed

lemma build_relation_inv:
  "cm_inv m \<Longrightarrow> build_relation dsize dbytes rel m = Inr m' \<Longrightarrow> cm_inv m'"
  by (auto simp: build_relation_def bind_res_Inr_iff add_connection_inv)

lemma cm_reset_inv: "cm_inv (m\<lparr>cm_connections := [], cm_by_source := [], cm_by_target := []\<rparr>)"
  by (simp add: cm_inv_def get_outgoing_def get_incoming_def dict_get_def)

text \<open>The connection a relation asks for.\<close>

definition matches_relation :: "int \<Rightarrow> int \<Rightarrow> relation_spec \<Rightarrow> connection \<Rightarrow> bool" where
  "matches_relation dsize dbytes rel c \<longleftrightarrow>
     rs_from rel = Some (c_source_id c) \<and> rs_to rel = Some (c_target_id c) \<and>
     c_relationship c = opt_default (rs_type rel) ''success'' \<and>
     c_max_queue_size c = opt_default (rs_max_queue_size rel) dsize \<and>
     c_max_queue_bytes c = opt_default (rs_max_queue_bytes rel) dbytes \<and>
     c_ttl c = opt_default (rs_ttl rel) 0 \<and> conn_inv c \<and> c_contents c = []"

lemma build_relation_appends:
  assumes "build_relation dsize dbytes rel m = Inr m'" and "cm_inv m"
  shows "\<exists>c. matches_relation dsize dbytes rel c \<and>
    map ((!) (cm_objs m')) (cm_connections m') = map ((!) (cm_objs m)) (cm_connections m) @ [c]"
proof -
  from assms(1) obtain src tgt prio where r: "rs_from rel = Some src" "rs_to rel = Some tgt"
    and m': "m' = add_connection
       (new_connection src tgt (opt_default (rs_type rel) ''success'')
          (opt_default (rs_max_queue_size rel) dsize) (opt_default (rs_max_queue_bytes rel) dbytes)
          prio (opt_default (rs_priority_attribute rel) ''priority'') (opt_default (rs_ttl rel) 0)) m"
      (is "_ = add_connection ?c m")
    by (auto simp: build_relation_def bind_res_Inr_iff opt_key_def split: option.splits)
  have "matches_relation dsize dbytes rel ?c"
    using r new_connection_inv by (simp add: matches_relation_def) (simp add: new_connection_def)
  moreover have "map ((!) (cm_objs m')) (cm_connections m') = map ((!) (cm_objs m)) (cm_connections m) @ [?c]"
    using assms(2) by (auto simp: m' add_connection_def Let_def cm_inv_def nth_append)
  ultimately show ?thesis by blast
qed

lemma build_fold:
  assumes "fold_res (build_relation dsize dbytes) rels m = Inr m'" and "cm_inv m"
  shows "cm_inv m' \<and> (\<exists>cs. list_all2 (matches_relation dsize dbytes) rels cs \<and>
    map ((!) (cm_objs m')) (cm_connections m') = map ((!) (cm_objs m)) (cm_connections m) @ cs)"
  using assms
proof (induction rels arbitrary: m)
  case Nil
  then show ?case by auto
next
  case (Cons rel rels)
  from Cons.prems(1) obtain m1 where m1: "build_relation dsize dbytes rel m = Inr m1"
    "fold_res (build_relation dsize dbytes) rels m1 = Inr m'"
    by (auto simp: bind_res_Inr_iff)
  from build_relation_appends [OF m1(1) Cons.prems(2)] obtain c where c: "matches_relation dsize dbytes rel c"
    "map ((!) (cm_objs m1)) (cm_connections m1) = map ((!) (cm_objs m)) (cm_connections m) @ [c]" by blast
  from Cons.IH [OF m1(2) build_relation_inv [OF Cons.prems(2) m1(1)]] c show ?case
    by (fastforce intro: list_all2_Cons [THEN iffD2])
qed

subsection \<open>Properties\<close>

text \<open>
  building from a flow's relations gives one empty connection per relation, in order, with the
  relation's own limits or the defaults, and the two indexes list exactly the connections that leave
  and reach a task.
\<close>

theorem build_from_flow_correct:
  assumes "build_from_flow rels dsize dbytes m = Inr m'"
  shows "list_all2 (matches_relation dsize dbytes) rels (map ((!) (cm_objs m')) (cm_connections m')) \<and>
    (\<forall>tid. get_outgoing tid m' = filter (\<lambda>i. c_source_id (cm_objs m' ! i) = tid) (cm_connections m')) \<and>
    (\<forall>tid. get_incoming tid m' = filter (\<lambda>i. c_target_id (cm_objs m' ! i) = tid) (cm_connections m'))"
  using build_fold [OF assms [unfolded build_from_flow_def] cm_reset_inv] by (auto simp: cm_inv_def)

definition demo_rel :: relation_spec where
  "demo_rel = \<lparr>rs_from = Some ''a'', rs_to = Some ''b'', rs_type = None, rs_max_queue_size = Some 3,
     rs_max_queue_bytes = None, rs_prioritizer = Some ''fifo'', rs_priority_attribute = None, rs_ttl = None\<rparr>"

theorem build_from_flow_correct_witness:
  "\<exists>m'. build_from_flow [demo_rel] 10 1000 cm_init = Inr m' \<and> get_outgoing ''a'' m' = [0] \<and>
     matches_relation 10 1000 demo_rel (cm_objs m' ! 0)"
proof -
  let ?m = "projr (build_from_flow [demo_rel] 10 1000 cm_init)"
  have b: "build_from_flow [demo_rel] 10 1000 cm_init = Inr ?m" and n: "cm_connections ?m = [0]"
    "c_source_id (cm_objs ?m ! 0) = ''a''"
    by (simp_all add: build_from_flow_def build_relation_def demo_rel_def cm_init_def opt_key_def
        prioritizer_of_def opt_default_def add_connection_def new_connection_def)
  have "list_all2 (matches_relation 10 1000) [demo_rel] (map ((!) (cm_objs ?m)) (cm_connections ?m))"
    "get_outgoing ''a'' ?m = filter (\<lambda>i. c_source_id (cm_objs ?m ! i) = ''a'') (cm_connections ?m)"
    using build_from_flow_correct [OF b] by blast+
  then show ?thesis using b n by (intro exI [of _ ?m]) simp
qed

lemma split_at_sep:
  fixes c :: 'a
  assumes "c \<notin> set a" and "c \<notin> set a'" and "a @ c # r = a' @ c # r'"
  shows "a = a' \<and> r = r'"
  using assms
proof (induction a arbitrary: a')
  case Nil
  then show ?case by (cases a') auto
next
  case (Cons x a)
  then show ?case by (cases a') auto
qed

text \<open>
  the connection id is not a stable identity of the triple it is built from: two connections with
  different source and relationship share an id when a name contains a double underscore; when no
  name contains an underscore the id determines source, relationship and target.
\<close>

theorem connection_id_identity:
  "(CHR ''_'' \<notin> set (src @ rel @ src' @ rel') \<longrightarrow>
      connection_id_of src rel tgt = connection_id_of src' rel' tgt' \<longrightarrow>
      src = src' \<and> rel = rel' \<and> tgt = tgt') \<and>
   connection_id_of ''a__b'' ''c'' ''d'' = connection_id_of ''a'' ''b__c'' ''d''"
proof -
  have "src = src' \<and> rel = rel' \<and> tgt = tgt'"
    if u: "CHR ''_'' \<notin> set (src @ rel @ src' @ rel')"
      and eq: "connection_id_of src rel tgt = connection_id_of src' rel' tgt'"
  proof -
    from eq have "src @ CHR ''_'' # (CHR ''_'' # rel @ ''__'' @ tgt) =
        src' @ CHR ''_'' # (CHR ''_'' # rel' @ ''__'' @ tgt')"
      by (simp add: connection_id_of_def)
    then have 1: "src = src' \<and> CHR ''_'' # rel @ ''__'' @ tgt = CHR ''_'' # rel' @ ''__'' @ tgt'"
      using u by (intro split_at_sep) auto
    then have "rel @ CHR ''_'' # (CHR ''_'' # tgt) = rel' @ CHR ''_'' # (CHR ''_'' # tgt')" by simp
    then have "rel = rel' \<and> CHR ''_'' # tgt = CHR ''_'' # tgt'"
      using u by (intro split_at_sep) auto
    with 1 show ?thesis by simp
  qed
  then show ?thesis by (simp add: connection_id_of_def)
qed

theorem connection_id_identity_witness:
  "connection_id_of ''a'' ''success'' ''b'' = connection_id_of ''a'' ''success'' ''b'' \<and>
   (''a'' :: string) = ''a'' \<and>
   connection_id_of ''a__b'' ''c'' ''d'' = connection_id_of ''a'' ''b__c'' ''d''"
  using connection_id_identity [of "''a''" "''success''" "''a''" "''success''" "''b''" "''b''"] by simp

end
