(* ===== verification/Json.thy ===== *)
theory Json
  imports Prelude
begin

section \<open>JSON documents as Python sees them\<close>

text \<open>
  The dictionaries and lists the stores pass around.  A JSON object is an association list in
  insertion order; \<open>jeq\<close> is Python's \<open>==\<close>, which ignores the order of the keys and identifies
  \<open>True\<close> with 1; \<open>json_dumps\<close> is \<open>json.dumps(value, ensure_ascii=False, sort_keys=True,
  separators=(",", ":"))\<close> on ASCII strings, the canonical text the stores compare and measure.
  A float is its value together with the text \<open>repr\<close> prints for it (not a number and the infinities do
  not occur); like \<open>True\<close>, a float that is a whole number equals the integer.
\<close>

datatype json =
    JNull
  | JBool bool
  | JInt int
  | JFloat real string
  | JStr string
  | JList "json list"
  | JDict "(string \<times> json) list"

primrec jnorm :: "json \<Rightarrow> json" where
  "jnorm JNull = JNull"
| "jnorm (JBool b) = JInt (if b then 1 else 0)"
| "jnorm (JInt n) = JInt n"
| "jnorm (JFloat x s) = (if x = of_int \<lfloor>x\<rfloor> then JInt \<lfloor>x\<rfloor> else JFloat x [])"
| "jnorm (JStr s) = JStr s"
| "jnorm (JList xs) = JList (map jnorm xs)"
| "jnorm (JDict d) = JDict (sort_key fst (map (map_prod id jnorm) d))"

definition jeq :: "json \<Rightarrow> json \<Rightarrow> bool" where
  "jeq a b \<longleftrightarrow> jnorm a = jnorm b"

lemma jeq_refl [simp]: "jeq a a"
  by (simp add: jeq_def)

lemma jeq_sym: "jeq a b \<Longrightarrow> jeq b a"
  by (simp add: jeq_def)

lemma jeq_trans: "jeq a b \<Longrightarrow> jeq b c \<Longrightarrow> jeq a c"
  by (simp add: jeq_def)

definition jtruthy :: "json \<Rightarrow> bool" where
  "jtruthy v = (case v of JNull \<Rightarrow> False | JBool b \<Rightarrow> b | JInt n \<Rightarrow> n \<noteq> 0 | JFloat x _ \<Rightarrow> x \<noteq> 0 | JStr s \<Rightarrow> s \<noteq> []
     | JList xs \<Rightarrow> xs \<noteq> [] | JDict d \<Rightarrow> d \<noteq> [])"

definition is_dict :: "json \<Rightarrow> bool" where
  "is_dict v = (case v of JDict _ \<Rightarrow> True | _ \<Rightarrow> False)"

definition is_list :: "json \<Rightarrow> bool" where
  "is_list v = (case v of JList _ \<Rightarrow> True | _ \<Rightarrow> False)"

text \<open>\<open>v.get(k)\<close> for a document known to be an object; \<open>None\<close> for a missing key.\<close>

definition jget :: "json \<Rightarrow> string \<Rightarrow> json option" where
  "jget v k = (case v of JDict d \<Rightarrow> map_of d k | _ \<Rightarrow> None)"

definition jget_or :: "json \<Rightarrow> string \<Rightarrow> json \<Rightarrow> json" where
  "jget_or v k dflt = (case jget v k of None \<Rightarrow> dflt | Some x \<Rightarrow> x)"

text \<open>Decimal digits of an integer.\<close>

fun nat_digits :: "nat \<Rightarrow> string" where
  "nat_digits n =
     (if n < 10 then [char_of (48 + n)] else nat_digits (n div 10) @ [char_of (48 + n mod 10)])"

declare nat_digits.simps [simp del]

definition int_str :: "int \<Rightarrow> string" where
  "int_str n = (if n < 0 then CHR ''-'' # nat_digits (nat (- n)) else nat_digits (nat n))"

definition hex_digit :: "nat \<Rightarrow> char" where
  "hex_digit n = (if n < 10 then char_of (48 + n) else char_of (87 + n))"

definition json_escape :: "char \<Rightarrow> string" where
  "json_escape c =
     (let n = (of_char c :: nat) in
      if n = 34 then [CHR 0x5C, CHR 0x22]
      else if n = 92 then [CHR 0x5C, CHR 0x5C]
      else if n = 8 then [CHR 0x5C, CHR ''b'']
      else if n = 9 then [CHR 0x5C, CHR ''t'']
      else if n = 10 then [CHR 0x5C, CHR ''n'']
      else if n = 12 then [CHR 0x5C, CHR ''f'']
      else if n = 13 then [CHR 0x5C, CHR ''r'']
      else if n < 32 then [CHR 0x5C, CHR ''u'', CHR ''0'', CHR ''0'', hex_digit (n div 16), hex_digit (n mod 16)]
      else [c])"

definition json_quote :: "string \<Rightarrow> string" where
  "json_quote s = CHR 0x22 # concat (map json_escape s) @ [CHR 0x22]"

fun join_with :: "string \<Rightarrow> string list \<Rightarrow> string" where
  "join_with sep [] = []"
| "join_with sep [x] = x"
| "join_with sep (x # y # ys) = x @ sep @ join_with sep (y # ys)"

primrec json_dumps :: "json \<Rightarrow> string" where
  "json_dumps JNull = ''null''"
| "json_dumps (JBool b) = (if b then ''true'' else ''false'')"
| "json_dumps (JInt n) = int_str n"
| "json_dumps (JFloat x s) = s"
| "json_dumps (JStr s) = json_quote s"
| "json_dumps (JList xs) = ''['' @ join_with '','' (map json_dumps xs) @ '']''"
| "json_dumps (JDict d) =
     ''{'' @ join_with '','' (map (\<lambda>(k, s). json_quote k @ '':'' @ s)
       (sort_key fst (map (map_prod id json_dumps) d))) @ ''}''"

text \<open>\<open>d.get(key, default)\<close> on a value of any type, and hashing.\<close>

definition dict_get_res :: "json \<Rightarrow> string \<Rightarrow> json \<Rightarrow> json res" where
  "dict_get_res d k dflt = (case d of JDict _ \<Rightarrow> Inr (jget_or d k dflt) | _ \<Rightarrow> Inl (AttributeError ''get''))"

fun hashable :: "json \<Rightarrow> bool" where
  "hashable (JList _) = False"
| "hashable (JDict _) = False"
| "hashable _ = True"

definition hash_res :: "json \<Rightarrow> json res" where
  "hash_res v = (if hashable v then Inr v else Inl (TypeError ''unhashable type''))"

text \<open>
  \<open>str(value)\<close> and \<open>str(value or "")\<close>; \<open>repr_of\<close> is Python's text of a list or an object.
\<close>

definition py_str :: "(json \<Rightarrow> string) \<Rightarrow> json \<Rightarrow> string" where
  "py_str repr_of v = (case v of JStr s \<Rightarrow> s | JInt n \<Rightarrow> int_str n | JFloat x s \<Rightarrow> s
     | JBool b \<Rightarrow> (if b then ''True'' else ''False'') | JNull \<Rightarrow> ''None'' | _ \<Rightarrow> repr_of v)"

definition str_or_empty :: "(json \<Rightarrow> string) \<Rightarrow> json \<Rightarrow> string" where
  "str_or_empty repr_of v = (if jtruthy v then py_str repr_of v else [])"

text \<open>\<open>int(value)\<close>\<close>

definition json_int :: "json \<Rightarrow> int res" where
  "json_int v = (case v of
       JInt n \<Rightarrow> Inr n
     | JBool b \<Rightarrow> Inr (if b then 1 else 0)
     | JFloat x _ \<Rightarrow> Inr (if x < 0 then \<lceil>x\<rceil> else \<lfloor>x\<rfloor>)
     | JStr s \<Rightarrow> (case py_int s of None \<Rightarrow> Inl (ValueError ''int'') | Some n \<Rightarrow> Inr n)
     | _ \<Rightarrow> Inl (TypeError ''int''))"

end
