(* ===== verification/Task_State.thy ===== *)
theory Task_State
  imports Json
begin

section \<open>Task states\<close>

text \<open>
  \<open>core/task_state.py\<close>: the life cycle of the tasks of a flow and their counters.  The manager is the
  insertion-ordered dictionary \<open>_states\<close>; every method holds its lock, so that it is one step.  \<open>now\<close> is the
  clock.
\<close>

datatype task_state = STOPPED | RUNNING | ERROR | INVALID | DISABLED

record task_state_info =
  ti_task_id :: string
  ti_task_type :: string
  ti_state :: task_state
  ti_error_message :: "string option"
  ti_last_state_change :: real
  ti_run_count :: int
  ti_error_count :: int
  ti_last_run :: "real option"
  ti_bytes_in :: int
  ti_bytes_out :: int
  ti_flowfiles_in :: int
  ti_flowfiles_out :: int

definition new_task_info :: "real \<Rightarrow> string \<Rightarrow> string \<Rightarrow> task_state_info" where
  "new_task_info now tid type =
     \<lparr>ti_task_id = tid, ti_task_type = type, ti_state = STOPPED, ti_error_message = None, ti_last_state_change = now,
      ti_run_count = 0, ti_error_count = 0, ti_last_run = None, ti_bytes_in = 0, ti_bytes_out = 0,
      ti_flowfiles_in = 0, ti_flowfiles_out = 0\<rparr>"

definition reset_counters :: "task_state_info \<Rightarrow> task_state_info" where
  "reset_counters i = i\<lparr>ti_run_count := 0, ti_error_count := 0, ti_bytes_in := 0, ti_bytes_out := 0,
     ti_flowfiles_in := 0, ti_flowfiles_out := 0, ti_error_message := None, ti_last_run := None\<rparr>"

type_synonym task_states = "(string, task_state_info) dict"

definition register_task :: "real \<Rightarrow> string \<Rightarrow> string \<Rightarrow> task_states \<Rightarrow> task_states" where
  "register_task now tid type m =
     (case map_of m tid of None \<Rightarrow> AList.update tid (new_task_info now tid type) m | Some _ \<Rightarrow> m)"

definition get_state :: "string \<Rightarrow> task_states \<Rightarrow> task_state option" where
  "get_state tid m = map_option ti_state (map_of m tid)"

definition get_info :: "string \<Rightarrow> task_states \<Rightarrow> task_state_info option" where
  "get_info tid m = map_of m tid"

definition start_state :: "real \<Rightarrow> string \<Rightarrow> task_states \<Rightarrow> bool \<times> task_states" where
  "start_state now tid m =
     (case map_of m tid of
        None \<Rightarrow> (False, m)
      | Some i \<Rightarrow>
          if ti_state i \<notin> {STOPPED, ERROR} then (False, m)
          else (True, AList.update tid (i\<lparr>ti_state := RUNNING, ti_last_state_change := now, ti_error_message := None\<rparr>) m))"

definition stop_state :: "real \<Rightarrow> string \<Rightarrow> task_states \<Rightarrow> bool \<times> task_states" where
  "stop_state now tid m =
     (case map_of m tid of
        None \<Rightarrow> (False, m)
      | Some i \<Rightarrow>
          if ti_state i = INVALID then (False, m)
          else (True, AList.update tid (i\<lparr>ti_state := STOPPED, ti_last_state_change := now\<rparr>) m))"

definition set_error :: "real \<Rightarrow> string \<Rightarrow> string \<Rightarrow> task_states \<Rightarrow> bool \<times> task_states" where
  "set_error now tid message m =
     (case map_of m tid of
        None \<Rightarrow> (False, m)
      | Some i \<Rightarrow> (True, AList.update tid (i\<lparr>ti_state := ERROR, ti_error_message := Some message,
          ti_error_count := ti_error_count i + 1, ti_last_state_change := now\<rparr>) m))"

definition set_invalid :: "real \<Rightarrow> string \<Rightarrow> string \<Rightarrow> task_states \<Rightarrow> bool \<times> task_states" where
  "set_invalid now tid reason m =
     (case map_of m tid of
        None \<Rightarrow> (False, m)
      | Some i \<Rightarrow> (True, AList.update tid (i\<lparr>ti_state := INVALID, ti_error_message := Some reason, ti_last_state_change := now\<rparr>) m))"

definition disable_state :: "real \<Rightarrow> string \<Rightarrow> task_states \<Rightarrow> bool \<times> task_states" where
  "disable_state now tid m =
     (case map_of m tid of
        None \<Rightarrow> (False, m)
      | Some i \<Rightarrow> (True, AList.update tid (i\<lparr>ti_state := DISABLED, ti_last_state_change := now\<rparr>) m))"

definition enable_state :: "real \<Rightarrow> string \<Rightarrow> task_states \<Rightarrow> bool \<times> task_states" where
  "enable_state now tid m =
     (case map_of m tid of
        None \<Rightarrow> (False, m)
      | Some i \<Rightarrow>
          if ti_state i \<noteq> DISABLED then (False, m)
          else (True, AList.update tid (i\<lparr>ti_state := STOPPED, ti_last_state_change := now\<rparr>) m))"

definition record_run :: "real \<Rightarrow> string \<Rightarrow> int \<Rightarrow> int \<Rightarrow> int \<Rightarrow> int \<Rightarrow> task_states \<Rightarrow> task_states" where
  "record_run now tid ff_in ff_out bytes_in bytes_out m =
     (case map_of m tid of
        None \<Rightarrow> m
      | Some i \<Rightarrow> AList.update tid (i\<lparr>ti_run_count := ti_run_count i + 1, ti_last_run := Some now,
          ti_flowfiles_in := ti_flowfiles_in i + ff_in, ti_flowfiles_out := ti_flowfiles_out i + ff_out,
          ti_bytes_in := ti_bytes_in i + bytes_in, ti_bytes_out := ti_bytes_out i + bytes_out\<rparr>) m)"

text \<open>The view of a task (\<open>to_dict\<close>); \<open>isoformat\<close> writes a time.\<close>

fun state_value :: "task_state \<Rightarrow> string" where
  "state_value STOPPED = ''stopped''"
| "state_value RUNNING = ''running''"
| "state_value ERROR = ''error''"
| "state_value INVALID = ''invalid''"
| "state_value DISABLED = ''disabled''"

definition info_dict :: "(real \<Rightarrow> string) \<Rightarrow> task_state_info \<Rightarrow> json" where
  "info_dict isoformat i = JDict
     [(''task_id'', JStr (ti_task_id i)), (''task_type'', JStr (ti_task_type i)), (''state'', JStr (state_value (ti_state i))),
      (''error_message'', case ti_error_message i of None \<Rightarrow> JNull | Some e \<Rightarrow> JStr e),
      (''last_state_change'', JStr (isoformat (ti_last_state_change i))), (''run_count'', JInt (ti_run_count i)),
      (''error_count'', JInt (ti_error_count i)), (''last_run'', case ti_last_run i of None \<Rightarrow> JNull | Some t \<Rightarrow> JStr (isoformat t)),
      (''bytes_in'', JInt (ti_bytes_in i)), (''bytes_out'', JInt (ti_bytes_out i)),
      (''flowfiles_in'', JInt (ti_flowfiles_in i)), (''flowfiles_out'', JInt (ti_flowfiles_out i))]"

definition get_all_states :: "(real \<Rightarrow> string) \<Rightarrow> task_states \<Rightarrow> (string, json) dict" where
  "get_all_states isoformat m = map (\<lambda>(tid, i). (tid, info_dict isoformat i)) m"

definition get_tasks_by_state :: "task_state \<Rightarrow> task_states \<Rightarrow> string list" where
  "get_tasks_by_state st m = map fst (filter (\<lambda>(tid, i). ti_state i = st) m)"

definition reset_all_counters :: "task_states \<Rightarrow> task_states" where
  "reset_all_counters m = map (\<lambda>(tid, i). (tid, reset_counters i)) m"

definition is_runnable :: "string \<Rightarrow> task_states \<Rightarrow> bool" where
  "is_runnable tid m \<longleftrightarrow> (case map_of m tid of None \<Rightarrow> False | Some i \<Rightarrow> ti_state i = RUNNING)"

subsection \<open>The life cycle\<close>

text \<open>The operations on a registered task, as steps between the tables; \<open>clear\<close> empties the table before a rebuild.\<close>

inductive task_step :: "task_states \<Rightarrow> task_states \<Rightarrow> bool" where
  registers: "task_step m (register_task now tid type m)"
| starts: "task_step m (snd (start_state now tid m))"
| stops: "task_step m (snd (stop_state now tid m))"
| errs: "task_step m (snd (set_error now tid message m))"
| invalidates: "task_step m (snd (set_invalid now tid reason m))"
| disables: "task_step m (snd (disable_state now tid m))"
| enables: "task_step m (snd (enable_state now tid m))"
| records: "0 \<le> ff_in \<Longrightarrow> 0 \<le> ff_out \<Longrightarrow> 0 \<le> bytes_in \<Longrightarrow> 0 \<le> bytes_out \<Longrightarrow>
    task_step m (record_run now tid ff_in ff_out bytes_in bytes_out m)"
| resets: "task_step m (reset_all_counters m)"

text \<open>Where a task may go from a state.\<close>

fun task_edge :: "task_state \<Rightarrow> task_state \<Rightarrow> bool" where
  "task_edge a ERROR \<longleftrightarrow> True"
| "task_edge a INVALID \<longleftrightarrow> True"
| "task_edge a DISABLED \<longleftrightarrow> True"
| "task_edge a STOPPED \<longleftrightarrow> a \<noteq> INVALID"
| "task_edge a RUNNING \<longleftrightarrow> a \<in> {STOPPED, ERROR, RUNNING}"

lemma task_edge_refl [simp]: "task_edge a a" by (cases a) auto

definition info_ok :: "string \<Rightarrow> task_state_info \<Rightarrow> bool" where
  "info_ok tid i \<longleftrightarrow> ti_task_id i = tid \<and> 0 \<le> ti_run_count i \<and> 0 \<le> ti_error_count i \<and> 0 \<le> ti_bytes_in i \<and> 0 \<le> ti_bytes_out i \<and>
     0 \<le> ti_flowfiles_in i \<and> 0 \<le> ti_flowfiles_out i \<and> (ti_run_count i = 0 \<longleftrightarrow> ti_last_run i = None) \<and>
     (ti_state i = RUNNING \<longrightarrow> ti_error_message i = None)"

definition states_inv :: "task_states \<Rightarrow> bool" where
  "states_inv m \<longleftrightarrow> distinct (dict_keys m) \<and> (\<forall>tid i. map_of m tid = Some i \<longrightarrow> info_ok tid i)"

text \<open>What every step keeps of a task: it stays, under its name and type, and moves along an edge.\<close>

definition states_grow :: "task_states \<Rightarrow> task_states \<Rightarrow> bool" where
  "states_grow m m' \<longleftrightarrow> (\<forall>tid i. map_of m tid = Some i \<longrightarrow>
     (\<exists>i'. map_of m' tid = Some i' \<and> ti_task_id i' = ti_task_id i \<and> ti_task_type i' = ti_task_type i))"

lemma states_inv_update: "states_inv m \<Longrightarrow> info_ok tid i \<Longrightarrow> states_inv (AList.update tid i m)"
  by (auto simp: states_inv_def update_conv' distinct_update)

lemma states_grow_update:
  "map_of m tid = Some i \<Longrightarrow> ti_task_id i' = ti_task_id i \<Longrightarrow> ti_task_type i' = ti_task_type i \<Longrightarrow> states_grow m (AList.update tid i' m)"
  by (auto simp: states_grow_def update_conv')

lemma states_grow_refl: "states_grow m m" by (auto simp: states_grow_def)

lemma map_of_reset: "map_of (reset_all_counters m) tid = map_option reset_counters (map_of m tid)"
  by (induction m) (auto simp: reset_all_counters_def)

lemma task_step_inv: "task_step m m' \<Longrightarrow> states_inv m \<Longrightarrow> states_inv m'"
proof (induction rule: task_step.induct)
  case (records ff_in ff_out bytes_in bytes_out m now tid)
  then have "info_ok tid i" if "map_of m tid = Some i" for i using that by (simp add: states_inv_def)
  then show ?case using records
    by (auto simp: record_run_def info_ok_def intro!: states_inv_update split: option.split)
next
  case (resets m)
  then show ?case by (auto simp: states_inv_def map_of_reset info_ok_def reset_counters_def reset_all_counters_def comp_def case_prod_beta')
qed (auto simp: register_task_def start_state_def stop_state_def set_error_def set_invalid_def disable_state_def enable_state_def record_run_def
      intro!: states_inv_update split: option.split, auto simp: states_inv_def info_ok_def new_task_info_def)

lemma task_step_grows: "task_step m m' \<Longrightarrow> states_grow m m'"
proof (induction rule: task_step.induct)
  case (resets m)
  then show ?case by (auto simp: states_grow_def map_of_reset reset_counters_def)
next
  case (registers m now tid type)
  then show ?case by (auto simp: register_task_def states_grow_def update_conv' split: option.split)
qed (auto simp: start_state_def stop_state_def set_error_def set_invalid_def disable_state_def enable_state_def record_run_def
      intro: states_grow_update states_grow_refl split: option.split)

interpretation tss: evolving_store "\<lambda>m. m = []" task_step states_inv states_grow
proof unfold_locales
  show "m = [] \<Longrightarrow> states_inv m" for m :: task_states by (simp add: states_inv_def)
  show "states_grow m m' \<Longrightarrow> states_grow m' m'' \<Longrightarrow> states_grow m m''" for m m' m''
    unfolding states_grow_def by metis
qed (use task_step_inv task_step_grows states_grow_refl in blast)+



end
