(* ===== verification/Checkpoint.thy ===== *)
theory Checkpoint
  imports Connection_Manager Task_State
begin

section \<open>Checkpoints\<close>

text \<open>
  \<open>engine/checkpoint.py\<close>: the queues of a flow are written to numbered JSON files from which they are restored after a
  crash.  \<open>cs_files\<close> is the directory of a flow under the names of the files (\<open>None\<close> for a file that cannot be read), \<open>cs_content\<close>
  its directory of large contents.  Times and new identities are arguments; the creation time of a FlowFile is not part of
  the model.  \<open>b64encode\<close> and \<open>b64decode\<close> are those of Python's \<open>base64\<close>: the decoder skips characters outside the alphabet.
\<close>

subsection \<open>Base64\<close>

definition b64_alphabet :: string where
  "b64_alphabet = ''ABCDEFGHIJKLMNOPQRSTUVWXYZabcdefghijklmnopqrstuvwxyz0123456789+/''"

definition b64_char :: "nat \<Rightarrow> char" where
  "b64_char n = b64_alphabet ! n"

definition b64_value :: "char \<Rightarrow> nat option" where
  "b64_value c = map_of (zip b64_alphabet [0..<64]) c"

fun b64encode :: "8 word list \<Rightarrow> string" where
  "b64encode [] = []"
| "b64encode [a] = [b64_char (unat a div 4), b64_char (unat a mod 4 * 16), CHR ''='', CHR ''='']"
| "b64encode [a, b] = [b64_char (unat a div 4), b64_char (unat a mod 4 * 16 + unat b div 16), b64_char (unat b mod 16 * 4), CHR ''='']"
| "b64encode (a # b # c # rest) =
     b64_char (unat a div 4) # b64_char (unat a mod 4 * 16 + unat b div 16) # b64_char (unat b mod 16 * 4 + unat c div 64) #
     b64_char (unat c mod 64) # b64encode rest"

text \<open>The decoder: position in the group of four, pads seen, bits left over.\<close>

fun b64_scan :: "string \<Rightarrow> nat \<Rightarrow> nat \<Rightarrow> nat \<Rightarrow> 8 word list res" where
  "b64_scan [] quad pads left = (if quad = 0 then Inr [] else Inl (ValueError ''Incorrect padding''))"
| "b64_scan (c # cs) quad pads left =
     (if c = CHR ''='' then
        (if quad \<ge> 2 \<and> quad + Suc pads \<ge> 4 then Inr []
         else b64_scan cs quad (if quad \<ge> 2 then Suc pads else pads) left)
      else case b64_value c of
        None \<Rightarrow> b64_scan cs quad pads left
      | Some v \<Rightarrow>
          if quad = 0 then b64_scan cs 1 0 v
          else if quad = 1 then bind_res (b64_scan cs 2 0 (v mod 16)) (\<lambda>bs. Inr (word_of_nat (left * 4 + v div 16) # bs))
          else if quad = 2 then bind_res (b64_scan cs 3 0 (v mod 4)) (\<lambda>bs. Inr (word_of_nat (left * 16 + v div 4) # bs))
          else bind_res (b64_scan cs 0 0 0) (\<lambda>bs. Inr (word_of_nat (left * 64 + v) # bs)))"

definition b64decode :: "string \<Rightarrow> 8 word list res" where
  "b64decode s = b64_scan s 0 0 0"

lemma b64_value_char: "n < 64 \<Longrightarrow> b64_value (b64_char n) = Some n" "n < 64 \<Longrightarrow> b64_char n \<noteq> CHR ''=''"
proof -
  have "\<forall>n \<in> set [0..<64]. b64_value (b64_char n) = Some n \<and> b64_char n \<noteq> CHR ''=''" by code_simp
  then show "n < 64 \<Longrightarrow> b64_value (b64_char n) = Some n" "n < 64 \<Longrightarrow> b64_char n \<noteq> CHR ''=''" by auto
qed

lemma byte_parts:
  fixes a b :: "8 word"
  shows "unat a div 4 < 64" "unat a mod 4 * 16 + unat b div 16 < 64" "unat a mod 16 * 4 + unat b div 64 < 64"
    "unat a mod 4 * 16 < 64" "unat a mod 16 * 4 < 64"
    "unat a div 4 * 4 + (unat a mod 4 * 16 + unat b div 16) div 16 = unat a" "(unat a mod 4 * 16 + unat b div 16) mod 16 = unat b div 16"
    "unat a div 16 * 16 + (unat a mod 16 * 4 + unat b div 64) div 4 = unat a" "(unat a mod 16 * 4 + unat b div 64) mod 4 = unat b div 64"
    "unat a div 64 * 64 + unat a mod 64 = unat a"
    "unat a div 4 * 4 + (unat a mod 4 * 16) div 16 = unat a" "unat a div 16 * 16 + (unat a mod 16 * 4) div 4 = unat a"
proof -
  have "unat a < 256" "unat b < 256" using unsigned_less [of a, where 'a = nat] unsigned_less [of b, where 'a = nat] by simp_all
  then have bounds: "unat a div 4 < 64" "unat b div 16 < 16" "unat b div 64 < 4" by (simp_all add: less_mult_imp_div_less)
  have rest: "unat a mod 4 < 4" "unat a mod 16 < 16" by simp_all
  have inner: "(unat a mod 4 * 16 + unat b div 16) div 16 = unat a mod 4" "(unat a mod 16 * 4 + unat b div 64) div 4 = unat a mod 16"
    using bounds by simp_all
  show "unat a div 4 < 64" "unat a mod 4 * 16 + unat b div 16 < 64" "unat a mod 16 * 4 + unat b div 64 < 64"
    "unat a mod 4 * 16 < 64" "unat a mod 16 * 4 < 64" using bounds rest by linarith+
  show "unat a div 4 * 4 + (unat a mod 4 * 16 + unat b div 16) div 16 = unat a"
    "unat a div 16 * 16 + (unat a mod 16 * 4 + unat b div 64) div 4 = unat a" unfolding inner by (rule div_mult_mod_eq)+
  show "(unat a mod 4 * 16 + unat b div 16) mod 16 = unat b div 16" "(unat a mod 16 * 4 + unat b div 64) mod 4 = unat b div 64"
    using bounds by simp_all
qed simp_all

lemma b64_scan_groups:
  assumes "i < 64" "j < 64" "k < 64" "l < 64"
  shows "b64_scan (b64_char i # b64_char j # b64_char k # b64_char l # cs) 0 0 0 =
      bind_res (b64_scan cs 0 0 0) (\<lambda>bs. Inr (word_of_nat (i * 4 + j div 16) # word_of_nat (j mod 16 * 16 + k div 4) #
        word_of_nat (k mod 4 * 64 + l) # bs))"
    "b64_scan [b64_char i, b64_char j, b64_char k, CHR ''=''] 0 0 0 =
      Inr [word_of_nat (i * 4 + j div 16), word_of_nat (j mod 16 * 16 + k div 4)]"
    "b64_scan [b64_char i, b64_char j, CHR ''='', CHR ''=''] 0 0 0 = Inr [word_of_nat (i * 4 + j div 16)]"
  using assms by (cases "b64_scan cs 0 0 0"; simp add: b64_value_char del: of_nat_add of_nat_mult)+

lemma b64_roundtrip: "b64decode (b64encode bs) = Inr bs"
  unfolding b64decode_def
proof (induction bs rule: b64encode.induct)
  case (2 a)
  show ?case unfolding b64encode.simps b64_scan_groups(3) [OF byte_parts(1,4) byte_parts(1,4)] byte_parts(11) by simp
next
  case (3 a b)
  show ?case unfolding b64encode.simps b64_scan_groups(2) [OF byte_parts(1,2,5) byte_parts(1)] byte_parts(6,7,12) by simp
next
  case (4 a b c rest)
  have "unat c mod 64 < 64" by simp
  then show ?case
    unfolding b64encode.simps b64_scan_groups(1) [OF byte_parts(1-3) \<open>unat c mod 64 < 64\<close>] 4 byte_parts(6-10) by simp
qed simp

subsection \<open>Documents\<close>

definition INLINE_MAX_BYTES :: nat where
  "INLINE_MAX_BYTES = 256 * 1024"

record ff_data =
  fd_process_id :: string
  fd_attributes :: "(string, string) dict"
  fd_size :: nat
  fd_content_b64 :: "string option"
  fd_content_file :: "string option"

record queue_data =
  qd_source :: string
  qd_target :: string
  qd_relationship :: string
  qd_flowfiles :: "ff_data list"

record checkpoint_doc =
  cp_timestamp :: string
  cp_flow_id :: string
  cp_flow_version :: int
  cp_queues :: "queue_data list"
  cp_task_states :: "(string, json) dict"
  cp_task_data :: "(string, json) dict"

record checkpoint_store =
  cs_flow_id :: string
  cs_files :: "(string, checkpoint_doc option) dict"
  cs_content :: "(string, 8 word list) dict"
  cs_counter :: nat
  cs_max_checkpoints :: nat

definition new_checkpoint_store :: "string \<Rightarrow> checkpoint_store" where
  "new_checkpoint_store flow_id = \<lparr>cs_flow_id = flow_id, cs_files = [], cs_content = [], cs_counter = 0, cs_max_checkpoints = 5\<rparr>"

definition content_path :: "flowfile \<Rightarrow> string" where
  "content_path ff = ff_process_id ff @ ''.bin''"

definition serialize_flowfile :: "flowfile \<Rightarrow> (string, 8 word list) dict \<Rightarrow> ff_data \<times> (string, 8 word list) dict" where
  "serialize_flowfile ff content =
     (let d = \<lparr>fd_process_id = ff_process_id ff, fd_attributes = ff_attributes ff, fd_size = ff_size ff,
               fd_content_b64 = None, fd_content_file = None\<rparr> in
      if length (ff_content ff) \<le> INLINE_MAX_BYTES then (d\<lparr>fd_content_b64 := Some (b64encode (ff_content ff))\<rparr>, content)
      else (d\<lparr>fd_content_file := Some (content_path ff)\<rparr>, AList.update (content_path ff) (ff_content ff) content))"

fun serialize_all :: "flowfile list \<Rightarrow> (string, 8 word list) dict \<Rightarrow> ff_data list \<times> (string, 8 word list) dict" where
  "serialize_all [] content = ([], content)"
| "serialize_all (ff # ffs) content =
     (let (d, content) = serialize_flowfile ff content; (ds, content) = serialize_all ffs content in (d # ds, content))"

fun queue_docs :: "connection list \<Rightarrow> (string, 8 word list) dict \<Rightarrow> queue_data list \<times> (string, 8 word list) dict" where
  "queue_docs [] content = ([], content)"
| "queue_docs (c # cs) content =
     (let (ffs, content) = serialize_all (conn_peek_all (c_max_queue_size c) c) content;
          (qs, content) = queue_docs cs content in
      (if ffs = [] then qs
       else \<lparr>qd_source = c_source_id c, qd_target = c_target_id c, qd_relationship = c_relationship c, qd_flowfiles = ffs\<rparr> # qs, content))"

text \<open>\<open>f"checkpoint_{int(time.time())}_{counter:04d}.json"\<close>\<close>

definition pad4 :: "nat \<Rightarrow> string" where
  "pad4 n = replicate (4 - length (nat_digits n)) (CHR ''0'') @ nat_digits n"

definition checkpoint_name :: "nat \<Rightarrow> nat \<Rightarrow> string" where
  "checkpoint_name secs n = ''checkpoint_'' @ nat_digits secs @ ''_'' @ pad4 n @ ''.json''"

definition sorted_names :: "checkpoint_store \<Rightarrow> string list" where
  "sorted_names st = sort (dict_keys (cs_files st))"

definition trim_checkpoints :: "checkpoint_store \<Rightarrow> checkpoint_store" where
  "trim_checkpoints st =
     (let names = sorted_names st; old = take (length names - cs_max_checkpoints st) names
      in st\<lparr>cs_files := filter (\<lambda>e. fst e \<notin> set old) (cs_files st)\<rparr>)"

text \<open>\<open>writes\<close>: whether the file can be written.\<close>

definition save_checkpoint ::
    "string \<Rightarrow> nat \<Rightarrow> bool \<Rightarrow> connection_manager \<Rightarrow> (string, json) dict \<Rightarrow> int \<Rightarrow> (string, json) dict \<Rightarrow> checkpoint_store \<Rightarrow>
     string \<times> checkpoint_store" where
  "save_checkpoint stamp secs writes m states version data st =
     (let (queues, content) = queue_docs (map (\<lambda>i. cm_objs m ! i) (cm_connections m)) (cs_content st);
          st = st\<lparr>cs_content := content, cs_counter := cs_counter st + 1\<rparr>;
          name = checkpoint_name secs (cs_counter st);
          doc = \<lparr>cp_timestamp = stamp, cp_flow_id = cs_flow_id st, cp_flow_version = version, cp_queues = queues,
                 cp_task_states = states, cp_task_data = data\<rparr> in
      if \<not> writes then ([], st)
      else (name, trim_checkpoints (st\<lparr>cs_files := AList.update name (Some doc) (cs_files st)\<rparr>)))"

definition load_latest_checkpoint :: "checkpoint_store \<Rightarrow> checkpoint_doc option" where
  "load_latest_checkpoint st =
     (if cs_files st = [] then None else case map_of (cs_files st) (last (sorted_names st)) of None \<Rightarrow> None | Some d \<Rightarrow> d)"

text \<open>\<open>mint n\<close> is the object number and a fresh process id for the \<open>n\<close>-th FlowFile.\<close>

definition deserialize_flowfile :: "nat \<times> string \<Rightarrow> (string, 8 word list) dict \<Rightarrow> ff_data \<Rightarrow> flowfile option" where
  "deserialize_flowfile fresh content d =
     (case (case fd_content_b64 d of
              Some t \<Rightarrow> b64decode t
            | None \<Rightarrow>
                (case fd_content_file d of
                   None \<Rightarrow> Inr []
                 | Some path \<Rightarrow> Inr (case map_of content path of None \<Rightarrow> [] | Some bs \<Rightarrow> bs))) of
        Inl _ \<Rightarrow> None
      | Inr bs \<Rightarrow> Some (new_flowfile (fst fresh) (snd fresh) bs (fd_attributes d) (Some (fd_process_id d))))"

fun deserialize_all :: "(nat \<Rightarrow> nat \<times> string) \<Rightarrow> nat \<Rightarrow> (string, 8 word list) dict \<Rightarrow> ff_data list \<Rightarrow> flowfile list" where
  "deserialize_all mint n content [] = []"
| "deserialize_all mint n content (d # ds) =
     (case deserialize_flowfile (mint n) content d of None \<Rightarrow> deserialize_all mint (Suc n) content ds
      | Some ff \<Rightarrow> ff # deserialize_all mint (Suc n) content ds)"

type_synonym queue_key = "string \<times> string \<times> string"

definition qd_key :: "queue_data \<Rightarrow> queue_key" where
  "qd_key q = (qd_source q, qd_target q, if qd_relationship q = [] then ''success'' else qd_relationship q)"

fun restore_queues ::
    "(nat \<Rightarrow> nat \<times> string) \<Rightarrow> nat \<Rightarrow> (string, 8 word list) dict \<Rightarrow> queue_data list \<Rightarrow> (queue_key, flowfile list) dict \<Rightarrow> (queue_key, flowfile list) dict" where
  "restore_queues mint n content [] result = result"
| "restore_queues mint n content (q # qs) result =
     restore_queues mint (n + length (qd_flowfiles q)) content qs
       (AList.update (qd_key q) (deserialize_all mint n content (qd_flowfiles q)) result)"

definition restore_flowfiles :: "(nat \<Rightarrow> nat \<times> string) \<Rightarrow> checkpoint_store \<Rightarrow> checkpoint_doc \<Rightarrow> (queue_key, flowfile list) dict" where
  "restore_flowfiles mint st doc = restore_queues mint 0 (cs_content st) (cp_queues doc) []"

definition clear_checkpoints :: "checkpoint_store \<Rightarrow> checkpoint_store" where
  "clear_checkpoints st = st\<lparr>cs_files := [], cs_content := []\<rparr>"

subsection \<open>Restoring what was saved\<close>

definition same_payload :: "flowfile \<Rightarrow> flowfile \<Rightarrow> bool" where
  "same_payload a b \<longleftrightarrow> ff_process_id a = ff_process_id b \<and> ff_attributes a = ff_attributes b \<and> ff_content a = ff_content b"

definition ff_doc :: "flowfile \<Rightarrow> ff_data" where
  "ff_doc ff = fst (serialize_flowfile ff [])"

definition store_content :: "flowfile \<Rightarrow> (string, 8 word list) dict \<Rightarrow> (string, 8 word list) dict" where
  "store_content ff content = snd (serialize_flowfile ff content)"

lemma serialize_parts: "serialize_flowfile ff content = (ff_doc ff, store_content ff content)"
  by (simp add: ff_doc_def store_content_def serialize_flowfile_def Let_def)

lemma serialize_all_parts: "serialize_all ffs content = (map ff_doc ffs, fold store_content ffs content)"
  by (induction ffs arbitrary: content) (simp_all add: serialize_parts)

abbreviation peeked :: "connection \<Rightarrow> flowfile list" where
  "peeked c \<equiv> conn_peek_all (c_max_queue_size c) c"

definition queue_doc :: "connection \<Rightarrow> queue_data" where
  "queue_doc c = \<lparr>qd_source = c_source_id c, qd_target = c_target_id c, qd_relationship = c_relationship c, qd_flowfiles = map ff_doc (peeked c)\<rparr>"

lemma queue_docs_parts:
  "queue_docs cs content = (map queue_doc (filter (\<lambda>c. peeked c \<noteq> []) cs), fold store_content (concat (map peeked cs)) content)"
  by (induction cs arbitrary: content) (simp_all add: serialize_all_parts queue_doc_def)

text \<open>Two large FlowFiles with one process id have one content, so that their file is theirs.\<close>

definition files_clear :: "flowfile list \<Rightarrow> bool" where
  "files_clear ffs \<longleftrightarrow> (\<forall>a \<in> set ffs. \<forall>b \<in> set ffs. INLINE_MAX_BYTES < length (ff_content a) \<and> INLINE_MAX_BYTES < length (ff_content b) \<and>
     ff_process_id a = ff_process_id b \<longrightarrow> ff_content a = ff_content b)"

lemma stored_content:
  assumes "files_clear ffs" "ff \<in> set ffs" "INLINE_MAX_BYTES < length (ff_content ff)"
  shows "map_of (fold store_content ffs content) (content_path ff) = Some (ff_content ff)"
  using assms
proof (induction ffs rule: rev_induct)
  case (snoc x xs)
  have clear: "files_clear xs" using snoc.prems(1) by (auto simp: files_clear_def)
  have path: "content_path x = content_path ff \<longleftrightarrow> ff_process_id x = ff_process_id ff" by (simp add: content_path_def)
  show ?case
  proof (cases "INLINE_MAX_BYTES < length (ff_content x) \<and> content_path x = content_path ff")
    case True
    then have "ff_content x = ff_content ff" using snoc.prems path by (auto simp: files_clear_def)
    then show ?thesis using True by (simp add: store_content_def serialize_flowfile_def update_conv' Let_def)
  next
    case False
    then have "ff \<in> set xs" using snoc.prems(2,3) by auto
    then show ?thesis using snoc.IH [OF clear _ snoc.prems(3)] False
      by (auto simp: store_content_def serialize_flowfile_def update_conv' Let_def)
  qed
qed simp

lemma deserialize_doc:
  assumes "ff_process_id ff \<noteq> []" "INLINE_MAX_BYTES < length (ff_content ff) \<Longrightarrow> map_of content (content_path ff) = Some (ff_content ff)"
  obtains ff' where "deserialize_flowfile fresh content (ff_doc ff) = Some ff'" "same_payload ff' ff"
  using assms that
  by (cases "length (ff_content ff) \<le> INLINE_MAX_BYTES")
    (auto simp: deserialize_flowfile_def ff_doc_def serialize_flowfile_def b64_roundtrip new_flowfile_def same_payload_def Let_def)

lemma deserialize_docs:
  assumes "\<forall>ff \<in> set ffs. ff_process_id ff \<noteq> [] \<and> (INLINE_MAX_BYTES < length (ff_content ff) \<longrightarrow> map_of content (content_path ff) = Some (ff_content ff))"
  shows "list_all2 same_payload (deserialize_all mint n content (map ff_doc ffs)) ffs"
  using assms
proof (induction ffs arbitrary: n)
  case (Cons ff ffs)
  then obtain ff' where "deserialize_flowfile (mint n) content (ff_doc ff) = Some ff'" "same_payload ff' ff"
    using deserialize_doc [of ff content] by (metis list.set_intros(1))
  then show ?case using Cons by simp
qed simp

lemma restore_other: "k \<notin> set (map qd_key qs) \<Longrightarrow> map_of (restore_queues mint n content qs result) k = map_of result k"
  by (induction qs arbitrary: n result) (auto simp: update_conv')

lemma restore_each:
  "distinct (map qd_key qs) \<Longrightarrow> q \<in> set qs \<Longrightarrow>
     \<exists>n'. map_of (restore_queues mint n content qs result) (qd_key q) = Some (deserialize_all mint n' content (qd_flowfiles q))"
proof (induction qs arbitrary: n result)
  case (Cons x xs)
  show ?case
  proof (cases "q = x")
    case True
    then have "qd_key q \<notin> set (map qd_key xs)" using Cons.prems(1) by simp
    then show ?thesis using True restore_other [of "qd_key q" xs] by (auto simp: update_conv')
  next
    case False
    then show ?thesis using Cons by simp
  qed
qed simp

lemma peeked_contents:
  assumes "conn_inv c"
  shows "peeked c = c_contents c"
proof (cases "c_contents c")
  case Nil
  then show ?thesis using set_pq_peek_all [of "c_max_queue_size c" "c_queue c"] by (simp add: conn_peek_all_def)
next
  case (Cons ff ffs)
  then have "int (length (c_contents c)) \<le> c_max_queue_size c" "1 \<le> c_max_queue_size c"
    using assms by (auto simp: conn_inv_def max_def split: if_splits)
  then show ?thesis by (simp add: conn_peek_all_def pq_peek_all_take)
qed

lemma sorted_last: "sorted xs \<Longrightarrow> x \<in> set xs \<Longrightarrow> x \<le> last xs"
  by (induction xs) (auto split: if_splits)

lemma last_is_greatest:
  fixes name :: "'a::linorder"
  assumes "name \<in> set xs" "\<forall>n \<in> set xs. n \<le> name"
  shows "last (sort xs) = name"
proof -
  have "sort xs \<noteq> []" using assms(1) by (metis empty_iff length_0_conv length_sort list.set(1))
  then have "last (sort xs) \<in> set xs" using last_in_set [of "sort xs"] by simp
  moreover have "name \<le> last (sort xs)" using assms(1) by (simp add: sorted_last)
  ultimately show ?thesis using assms(2) by (simp add: order_antisym)
qed

lemma map_of_filter_key: "k \<notin> S \<Longrightarrow> map_of (filter (\<lambda>e. fst e \<notin> S) d) k = map_of d k"
  by (induction d) auto

lemma trim_keeps_latest:
  assumes "distinct (dict_keys (cs_files st))" "name \<in> set (dict_keys (cs_files st))" "\<forall>n \<in> set (dict_keys (cs_files st)). n \<le> name"
    and "1 \<le> cs_max_checkpoints st"
  shows "length (cs_files (trim_checkpoints st)) \<le> cs_max_checkpoints st"
    "map_of (cs_files (trim_checkpoints st)) name = map_of (cs_files st) name"
    "last (sorted_names (trim_checkpoints st)) = name" "cs_files (trim_checkpoints st) \<noteq> []"
proof -
  let ?names = "sorted_names st" and ?files = "cs_files (trim_checkpoints st)"
  define k where "k = length ?names - cs_max_checkpoints st"
  have names: "distinct ?names" "set ?names = set (dict_keys (cs_files st))" "last ?names = name" "?names \<noteq> []"
    using assms last_is_greatest [of name] by (auto simp: sorted_names_def dest: arg_cong [where f = set])
  have files: "?files = filter (\<lambda>e. fst e \<notin> set (take k ?names)) (cs_files st)" by (simp add: trim_checkpoints_def k_def Let_def)
  have split: "?names = take k ?names @ drop k ?names" by simp
  have "k < length ?names" using assms(4) names(4) by (simp add: k_def)
  then have "name \<in> set (drop k ?names)" using names(3,4) by (metis drop_eq_Nil last_drop last_in_set not_le)
  then have out: "name \<notin> set (take k ?names)" using names(1) set_take_disj_set_drop_if_distinct [of ?names k k] by auto
  have keys: "set (dict_keys ?files) = set (drop k ?names)"
  proof -
    have "set (dict_keys ?files) = set ?names - set (take k ?names)" unfolding files names(2) by auto
    also have "\<dots> = set (drop k ?names)"
      using set_take_disj_set_drop_if_distinct [OF names(1), of k k] arg_cong [OF split, of set] unfolding set_append by blast
    finally show ?thesis .
  qed
  have "distinct (dict_keys ?files)" using assms(1) unfolding files by (rule distinct_map_filter)
  then have "length ?files = card (set (drop k ?names))" using keys distinct_card [of "dict_keys ?files"] by simp
  also have "\<dots> \<le> length (drop k ?names)" by (rule card_length)
  finally show "length ?files \<le> cs_max_checkpoints st" by (simp add: k_def)
  show "map_of ?files name = map_of (cs_files st) name" unfolding files using map_of_filter_key [OF out] by blast
  have "name \<in> set (dict_keys ?files)" "\<forall>n \<in> set (dict_keys ?files). n \<le> name"
    using keys \<open>name \<in> set (drop k ?names)\<close> names(2) assms(3) set_drop_subset [of k ?names] by (simp_all only:) blast+
  then show "last (sorted_names (trim_checkpoints st)) = name" "?files \<noteq> []"
    using last_is_greatest [of name "dict_keys ?files"] by (auto simp: sorted_names_def)
qed

definition conn_key :: "connection \<Rightarrow> queue_key" where
  "conn_key c = (c_source_id c, c_target_id c, c_relationship c)"

abbreviation conns_of :: "connection_manager \<Rightarrow> connection list" where
  "conns_of m \<equiv> map (\<lambda>i. cm_objs m ! i) (cm_connections m)"

lemma save_checkpoint_doc:
  assumes "\<forall>c \<in> set (conns_of m). conn_inv c"
    and "distinct (dict_keys (cs_files st))" "\<forall>n \<in> set (dict_keys (cs_files st)). n < checkpoint_name secs (Suc (cs_counter st))"
    and "1 \<le> cs_max_checkpoints st" "save_checkpoint stamp secs True m states version data st = (name, st')"
  obtains doc where "name = checkpoint_name secs (Suc (cs_counter st))" "length (cs_files st') \<le> cs_max_checkpoints st'"
    "load_latest_checkpoint st' = Some doc" "cp_flow_version doc = version" "cp_task_states doc = states"
    "cp_queues doc = map queue_doc (filter (\<lambda>c. c_contents c \<noteq> []) (conns_of m))"
    "cs_content st' = fold store_content (concat (map c_contents (conns_of m))) (cs_content st)"
proof -
  let ?cs = "conns_of m" and ?name = "checkpoint_name secs (Suc (cs_counter st))"
  let ?content = "fold store_content (concat (map c_contents ?cs)) (cs_content st)"
  let ?qs = "map queue_doc (filter (\<lambda>c. c_contents c \<noteq> []) ?cs)"
  have "map peeked ?cs = map c_contents ?cs" "filter (\<lambda>c. peeked c \<noteq> []) ?cs = filter (\<lambda>c. c_contents c \<noteq> []) ?cs"
    using assms(1) peeked_contents by (auto intro!: map_cong filter_cong)
  then have docs: "queue_docs ?cs (cs_content st) = (?qs, ?content)" unfolding queue_docs_parts by (simp only:)
  define doc where "doc = \<lparr>cp_timestamp = stamp, cp_flow_id = cs_flow_id st, cp_flow_version = version, cp_queues = ?qs,
    cp_task_states = states, cp_task_data = data\<rparr>"
  define st1 where "st1 = st\<lparr>cs_content := ?content, cs_counter := cs_counter st + 1, cs_files := AList.update ?name (Some doc) (cs_files st)\<rparr>"
  have st': "name = ?name" "st' = trim_checkpoints st1"
    using assms(5) unfolding save_checkpoint_def docs by (auto simp: Let_def doc_def st1_def)
  have "\<forall>n \<in> set (dict_keys (cs_files st1)). n \<le> ?name" "?name \<in> set (dict_keys (cs_files st1))" "distinct (dict_keys (cs_files st1))"
  proof -
    have keys: "set (dict_keys (cs_files st1)) = insert ?name (set (dict_keys (cs_files st)))" by (simp add: st1_def AList.update_keys) auto
    show "\<forall>n \<in> set (dict_keys (cs_files st1)). n \<le> ?name" "?name \<in> set (dict_keys (cs_files st1))"
      unfolding keys using assms(3) by (auto simp: order_less_imp_le)
    show "distinct (dict_keys (cs_files st1))" using assms(2) by (simp add: st1_def distinct_update)
  qed
  note trim = trim_keeps_latest [OF this(3,2,1)]
  have same: "cs_max_checkpoints st1 = cs_max_checkpoints st" "cs_max_checkpoints st' = cs_max_checkpoints st" "cs_content st' = ?content"
    by (simp_all add: st'(2) st1_def trim_checkpoints_def Let_def)
  have "load_latest_checkpoint st' = Some doc"
    using trim assms(4) same unfolding st'(2) load_latest_checkpoint_def by (simp add: st1_def update_conv')
  moreover have "length (cs_files st') \<le> cs_max_checkpoints st'" using trim(1) assms(4) same unfolding st'(2) by simp
  ultimately show thesis using that [of doc] st'(1) same(3) by (simp add: doc_def)
qed

lemma restored_checkpoint:
  assumes "\<forall>c \<in> set (conns_of m). conn_inv c \<and> c_relationship c \<noteq> [] \<and> (\<forall>ff \<in> set (c_contents c). ff_process_id ff \<noteq> [])"
    and "distinct (map conn_key (conns_of m))" "files_clear (concat (map c_contents (conns_of m)))"
    and "distinct (dict_keys (cs_files st))" "\<forall>n \<in> set (dict_keys (cs_files st)). n < checkpoint_name secs (Suc (cs_counter st))"
    and "1 \<le> cs_max_checkpoints st" "save_checkpoint stamp secs True m states version data st = (name, st')"
  shows "length (cs_files st') \<le> cs_max_checkpoints st' \<and> name = checkpoint_name secs (Suc (cs_counter st)) \<and>
    (\<exists>doc. load_latest_checkpoint st' = Some doc \<and> cp_flow_version doc = version \<and> cp_task_states doc = states \<and>
      (\<forall>c \<in> set (conns_of m). c_contents c \<noteq> [] \<longrightarrow>
         (\<exists>ffs. map_of (restore_flowfiles mint st' doc) (conn_key c) = Some ffs \<and> list_all2 same_payload ffs (c_contents c))) \<and>
      (\<forall>k ffs. map_of (restore_flowfiles mint st' doc) k = Some ffs \<longrightarrow> (\<exists>c \<in> set (conns_of m). k = conn_key c \<and> c_contents c \<noteq> [])))"
proof -
  let ?cs = "conns_of m"
  obtain doc where doc: "name = checkpoint_name secs (Suc (cs_counter st))" "length (cs_files st') \<le> cs_max_checkpoints st'"
    "load_latest_checkpoint st' = Some doc" "cp_flow_version doc = version" "cp_task_states doc = states"
    "cp_queues doc = map queue_doc (filter (\<lambda>c. c_contents c \<noteq> []) ?cs)"
    "cs_content st' = fold store_content (concat (map c_contents ?cs)) (cs_content st)"
    using save_checkpoint_doc [OF _ assms(4-7)] assms(1) by blast
  have key: "qd_key (queue_doc c) = conn_key c" if "c \<in> set ?cs" for c
    using assms(1) that by (auto simp: qd_key_def queue_doc_def conn_key_def)
  then have keys: "map qd_key (cp_queues doc) = map conn_key (filter (\<lambda>c. c_contents c \<noteq> []) ?cs)" by (simp add: doc(6))
  then have "distinct (map qd_key (cp_queues doc))" using assms(2) by (simp add: distinct_map_filter del: map_map)
  note each = restore_each [OF this]
  have "\<exists>ffs. map_of (restore_flowfiles mint st' doc) (conn_key c) = Some ffs \<and> list_all2 same_payload ffs (c_contents c)"
    if c: "c \<in> set ?cs" "c_contents c \<noteq> []" for c
  proof -
    have "queue_doc c \<in> set (cp_queues doc)" using c by (simp add: doc(6))
    then obtain n where "map_of (restore_flowfiles mint st' doc) (conn_key c) = Some (deserialize_all mint n (cs_content st') (map ff_doc (c_contents c)))"
      using each [of "queue_doc c" mint 0 "cs_content st'" "[]"] key [OF c(1)] peeked_contents [of c] assms(1) c(1)
      by (auto simp: restore_flowfiles_def queue_doc_def)
    moreover have "map_of (cs_content st') (content_path ff) = Some (ff_content ff)"
      if "ff \<in> set (c_contents c)" "INLINE_MAX_BYTES < length (ff_content ff)" for ff
      unfolding doc(7) using c(1) that stored_content [OF assms(3)] by auto
    then have "list_all2 same_payload (deserialize_all mint n (cs_content st') (map ff_doc (c_contents c))) (c_contents c)"
      using assms(1) c by (intro deserialize_docs) auto
    ultimately show ?thesis by blast
  qed
  moreover have "\<exists>c \<in> set ?cs. k = conn_key c \<and> c_contents c \<noteq> []" if "map_of (restore_flowfiles mint st' doc) k = Some ffs" for k ffs
  proof (rule ccontr)
    assume "\<not> ?thesis"
    then have "k \<notin> set (map qd_key (cp_queues doc))" unfolding keys by auto
    then show False using that restore_other [of k "cp_queues doc"] by (simp add: restore_flowfiles_def)
  qed
  ultimately show ?thesis using doc(1-5) by blast
qed

lemma restore_distinct: "distinct (dict_keys (restore_flowfiles mint st doc))"
proof -
  have "distinct (dict_keys result) \<Longrightarrow> distinct (dict_keys (restore_queues mint n content qs result))" for n content qs result
    by (induction qs arbitrary: n result) (simp_all add: distinct_update)
  then show ?thesis by (simp add: restore_flowfiles_def)
qed

text \<open>
  A checkpoint restores the queues it was taken from: after a save whose name is the newest, at most the configured
  number of files remain, the latest one is loaded, and its restored queues are exactly the non-empty queues, under source, target and relationship, each
  with the FlowFiles of the queue in order, same process ids, attributes and bytes; contents of any size go through Base64 or a file.\<close>

theorem checkpoint_roundtrip:
  assumes "\<forall>c \<in> set (conns_of m). conn_inv c \<and> c_relationship c \<noteq> [] \<and> (\<forall>ff \<in> set (c_contents c). ff_process_id ff \<noteq> [])"
    and "distinct (map conn_key (conns_of m))" "files_clear (concat (map c_contents (conns_of m)))"
    and "distinct (dict_keys (cs_files st))" "\<forall>n \<in> set (dict_keys (cs_files st)). n < checkpoint_name secs (Suc (cs_counter st))"
    and "1 \<le> cs_max_checkpoints st" "save_checkpoint stamp secs True m states version data st = (name, st')"
  shows "length (cs_files st') \<le> cs_max_checkpoints st' \<and> name = checkpoint_name secs (Suc (cs_counter st)) \<and>
    (\<exists>doc. load_latest_checkpoint st' = Some doc \<and> cp_flow_version doc = version \<and> cp_task_states doc = states \<and>
      (\<forall>c \<in> set (conns_of m). c_contents c \<noteq> [] \<longrightarrow>
         (\<exists>ffs. map_of (restore_flowfiles mint st' doc) (conn_key c) = Some ffs \<and> list_all2 same_payload ffs (c_contents c))) \<and>
      (\<forall>k ffs. map_of (restore_flowfiles mint st' doc) k = Some ffs \<longrightarrow> (\<exists>c \<in> set (conns_of m). k = conn_key c \<and> c_contents c \<noteq> [])))"
  using restored_checkpoint [OF assms] .

definition demo_conn :: connection where
  "demo_conn = snd (enqueue 0 (bytes_ff 0 [1, 2]) tiny)"

definition demo_manager :: connection_manager where
  "demo_manager = add_connection demo_conn cm_init"

lemma demo_conn_facts:
  "conn_inv demo_conn" "c_contents demo_conn = [bytes_ff 0 [1, 2]]" "conn_key demo_conn = (''a'', ''b'', ''success'')" "c_relationship demo_conn \<noteq> []"
proof -
  show contents: "c_contents demo_conn = [bytes_ff 0 [1, 2]]"
    by (simp add: demo_conn_def tiny_enqueue pq_contents_def) (simp add: tiny_def new_connection_def pq_init_def)
  show "conn_inv demo_conn"
    using enqueue_cases [of tiny 0 "bytes_ff 0 [1, 2]"] new_connection_inv tiny_enqueue unfolding demo_conn_def by (metis Pair_inject snd_conv tiny_def)
  show "conn_key demo_conn = (''a'', ''b'', ''success'')" "c_relationship demo_conn \<noteq> []"
    by (simp_all add: conn_key_def demo_conn_def tiny_enqueue) (simp_all add: tiny_def new_connection_def)
qed

theorem checkpoint_roundtrip_witness:
  "\<exists>name st doc ffs. save_checkpoint ''t'' 7 True demo_manager [] 1 [] (new_checkpoint_store ''flow'') = (name, st) \<and>
     load_latest_checkpoint st = Some doc \<and> map_of (restore_flowfiles (\<lambda>n. (n, ''fresh'')) st doc) (''a'', ''b'', ''success'') = Some ffs \<and>
     list_all2 same_payload ffs [bytes_ff 0 [1, 2]]"
proof -
  let ?st = "new_checkpoint_store ''flow''"
  have conns: "conns_of demo_manager = [demo_conn]" by (simp add: demo_manager_def add_connection_def cm_init_def)
  obtain name st where save: "save_checkpoint ''t'' 7 True demo_manager [] 1 [] ?st = (name, st)" by fastforce
  have "\<forall>c \<in> set (conns_of demo_manager). conn_inv c \<and> c_relationship c \<noteq> [] \<and> (\<forall>ff \<in> set (c_contents c). ff_process_id ff \<noteq> [])"
    unfolding conns by (simp add: demo_conn_facts) (simp add: bytes_ff_def)
  moreover have "distinct (map conn_key (conns_of demo_manager))" "files_clear (concat (map c_contents (conns_of demo_manager)))"
    unfolding conns by (simp_all add: demo_conn_facts files_clear_def)
  moreover have "distinct (dict_keys (cs_files ?st))" "1 \<le> cs_max_checkpoints ?st"
    "\<forall>n \<in> set (dict_keys (cs_files ?st)). n < checkpoint_name 7 (Suc (cs_counter ?st))" by (simp_all add: new_checkpoint_store_def)
  ultimately obtain doc where "load_latest_checkpoint st = Some doc" "\<forall>c \<in> set (conns_of demo_manager). c_contents c \<noteq> [] \<longrightarrow>
         (\<exists>ffs. map_of (restore_flowfiles (\<lambda>n. (n, ''fresh'')) st doc) (conn_key c) = Some ffs \<and> list_all2 same_payload ffs (c_contents c))"
    using checkpoint_roundtrip [OF _ _ _ _ _ _ save, of "\<lambda>n. (n, ''fresh'')"] by blast
  then show ?thesis using save unfolding conns by (auto simp: demo_conn_facts)
qed

end
