(* ===== verification/Executor.thy ===== *)
theory Executor
  imports Checkpoint
begin

section \<open>The continuous executor\<close>

text \<open>
  \<open>engine/continuous_executor.py\<close>, \<open>engine/_continuous_exec_run.py\<close> and \<open>engine/_continuous_exec_control.py\<close>: the engine
  that runs the tasks of a flow on the FlowFiles in its queues.  \<open>executor\<close> is the state of the object.  A task is a
  plug-in: \<open>task_spec\<close> has what the executor reads of it, and what its methods answer (\<open>has_pending_input\<close>,
  \<open>select_processable\<close>, \<open>execute\<close>) is an argument of the operation that calls them.  A worker thread runs \<open>_execute_task\<close>
  as a sequence of steps between which other threads act: it takes its input (\<open>take_input\<close>, \<open>begin_work\<close>), and each attempt ends
  in a commit, a retry or a rollback (\<open>run_attempt\<close>).  Clones and identifiers come from \<open>mint\<close>, the clock is \<open>now\<close>.
  Services, the debugger, data preview, provenance and the callbacks of workflow runs are not part of the state.
\<close>

subsection \<open>State\<close>

record task_spec =
  tk_type :: string
  tk_max_instances :: int
  tk_persistent :: bool
  tk_config :: "(string, json) dict"
  tk_selects :: bool
  tk_prioritize :: "(flowfile \<Rightarrow> int) option"

record task_failure =
  tf_message :: string
  tf_code :: string
  tf_type :: string
  tf_retryable :: "bool option"

record failure_checkpoint =
  fc_task :: string
  fc_error :: string
  fc_code :: string
  fc_type :: string
  fc_retryable :: bool
  fc_flowfile :: "flowfile option"

datatype flow_change = TaskUpdated int string | FlowUpdated int nat nat

record executor =
  ex_flow_tasks :: "(string, task_spec) dict"
  ex_relations :: "relation_spec list"
  ex_tasks :: "(string, task_spec) dict"
  ex_states :: task_states
  ex_conns :: connection_manager
  ex_retries :: "(string, int) dict"
  ex_discarded :: "(string \<times> string) list"
  ex_failures :: "failure_checkpoint list"
  ex_bulletins :: "(string \<times> string) list"
  ex_in_flight :: "(string, int) dict"
  ex_max_instances :: "(string, int) dict"
  ex_exit :: "flowfile list"
  ex_stop :: bool
  ex_version :: int
  ex_history :: "flow_change list"
  ex_idle :: int
  ex_persistent :: bool
  ex_enabled_roots :: "string list option"
  ex_max_retries :: int
  ex_checkpoints :: "checkpoint_store option"
  ex_workflow :: bool
  ex_reserved :: "(string, string) dict"

abbreviation conn :: "executor \<Rightarrow> nat \<Rightarrow> connection" where
  "conn ex i \<equiv> cm_objs (ex_conns ex) ! i"

definition put_conn :: "nat \<Rightarrow> connection \<Rightarrow> executor \<Rightarrow> executor" where
  "put_conn i c ex = ex\<lparr>ex_conns := (ex_conns ex)\<lparr>cm_objs := (cm_objs (ex_conns ex))[i := c]\<rparr>\<rparr>"

definition truthy_attribute :: "flowfile \<Rightarrow> string \<Rightarrow> bool" where
  "truthy_attribute ff k \<longleftrightarrow> (case get_attribute ff k of None \<Rightarrow> False | Some v \<Rightarrow> v \<noteq> [])"

definition build_task :: "real \<Rightarrow> string \<times> task_spec \<Rightarrow> executor \<Rightarrow> executor" where
  "build_task now = (\<lambda>(tid, task) ex.
     ex\<lparr>ex_tasks := AList.update tid task (ex_tasks ex), ex_states := register_task now tid (tk_type task) (ex_states ex),
        ex_retries := AList.update tid 0 (ex_retries ex), ex_max_instances := AList.update tid (tk_max_instances task) (ex_max_instances ex)\<rparr>)"

text \<open>\<open>_build\<close> (\<open>ex_flow_tasks\<close> and \<open>ex_relations\<close> are the flow object): the tasks are registered, then the connections are made, which may raise.\<close>

fun build_partial :: "relation_spec list \<Rightarrow> connection_manager \<Rightarrow> connection_manager" where
  "build_partial [] m = m"
| "build_partial (r # rs) m = (case build_relation 10000 104857600 r m of Inl _ \<Rightarrow> m | Inr m' \<Rightarrow> build_partial rs m')"

definition build :: "real \<Rightarrow> (string, task_spec) dict \<Rightarrow> relation_spec list \<Rightarrow> executor \<Rightarrow> unit res \<times> executor" where
  "build now tasks relations ex =
     (let ex1 = fold (build_task now) tasks (ex\<lparr>ex_flow_tasks := tasks, ex_relations := relations\<rparr>);
          ex2 = ex1\<lparr>ex_persistent := (\<exists>t \<in> set (ex_tasks ex1). tk_persistent (snd t))\<rparr> in
      case build_from_flow relations 10000 104857600 (ex_conns ex2) of
        Inl e \<Rightarrow> (Inl e, ex2\<lparr>ex_conns := build_partial relations ((ex_conns ex2)\<lparr>cm_connections := [], cm_by_source := [], cm_by_target := []\<rparr>)\<rparr>)
      | Inr m \<Rightarrow> (Inr (), ex2\<lparr>ex_conns := m\<rparr>))"

text \<open>\<open>__init__\<close>; \<open>workflow\<close> and \<open>reserved\<close> are what the executor reads of its runtime context.\<close>

definition new_executor ::
    "real \<Rightarrow> int \<Rightarrow> string list option \<Rightarrow> checkpoint_store option \<Rightarrow> bool \<Rightarrow> (string, string) dict \<Rightarrow>
     (string, task_spec) dict \<Rightarrow> relation_spec list \<Rightarrow> unit res \<times> executor" where
  "new_executor now max_retries enabled checkpoints workflow reserved tasks relations =
     build now tasks relations
       \<lparr>ex_flow_tasks = [], ex_relations = [], ex_tasks = [], ex_states = [], ex_conns = cm_init, ex_retries = [], ex_discarded = [],
        ex_failures = [], ex_bulletins = [], ex_in_flight = [], ex_max_instances = [], ex_exit = [], ex_stop = False, ex_version = 1,
        ex_history = [], ex_idle = 0, ex_persistent = False, ex_enabled_roots = enabled, ex_max_retries = max_retries,
        ex_checkpoints = checkpoints, ex_workflow = workflow, ex_reserved = reserved\<rparr>"

subsection \<open>Injection\<close>

definition entry_task :: "string option \<Rightarrow> executor \<Rightarrow> string res" where
  "entry_task entry ex =
     (case entry of
        Some t \<Rightarrow> Inr t
      | None \<Rightarrow>
          (case filter (\<lambda>t. Some t \<notin> set (map rs_to (ex_relations ex))) (dict_keys (ex_tasks ex)) of
             [] \<Rightarrow> Inl (FlowError ''No entry point found'')
           | t # _ \<Rightarrow> Inr t))"

definition entry_connection :: "string \<Rightarrow> executor \<Rightarrow> nat \<times> executor" where
  "entry_connection t ex =
     (case get_incoming t (ex_conns ex) of
        i # _ \<Rightarrow> (i, ex)
      | [] \<Rightarrow> (length (cm_objs (ex_conns ex)), ex\<lparr>ex_conns := add_connection
          (new_connection ''__input__'' t ''input'' 10000 104857600 PRIORITY_ATTRIBUTE ''priority'' 0) (ex_conns ex)\<rparr>))"

definition inject :: "real \<Rightarrow> flowfile \<Rightarrow> string option \<Rightarrow> executor \<Rightarrow> (bool \<times> executor) res" where
  "inject now ff entry ex =
     bind_res (entry_task entry ex) (\<lambda>t.
       (let (i, ex1) = entry_connection t ex; (ok, c) = enqueue now ff (conn ex1 i) in Inr (ok, put_conn i c ex1)))"

subsection \<open>Scheduling\<close>

definition is_interactive_http_ff :: "flowfile \<Rightarrow> bool" where
  "is_interactive_http_ff ff \<longleftrightarrow>
     (if \<not> truthy_attribute ff ''http.request.id'' then False
      else if get_attribute ff ''http.path'' = Some ''/api/ui'' then True
      else case py_int (if truthy_attribute ff ''priority'' then the (get_attribute ff ''priority'') else ''0'') of
        None \<Rightarrow> False | Some n \<Rightarrow> n \<ge> 10)"

definition has_interactive_input :: "bool \<Rightarrow> nat list \<Rightarrow> executor \<Rightarrow> bool" where
  "has_interactive_input priority_input incoming ex \<longleftrightarrow>
     priority_input \<or> (\<exists>i \<in> set incoming. \<exists>ff \<in> set (conn_peek_all 20 (conn ex i)). is_interactive_http_ff ff)"

definition root_source_queue_size :: "string \<Rightarrow> executor \<Rightarrow> int" where
  "root_source_queue_size t ex = sum_list (map (\<lambda>i. queue_size (conn ex i)) (get_outgoing t (ex_conns ex)))"

definition should_schedule_root_source :: "string \<Rightarrow> task_spec \<Rightarrow> executor \<Rightarrow> bool" where
  "should_schedule_root_source t task ex \<longleftrightarrow>
     (let size = root_source_queue_size t ex in
      if jtruthy (dict_get (tk_config task) ''skip_if_pending'' JNull) \<and> size > 0 then False
      else case dict_get (tk_config task) ''max_queue'' JNull of
        JNull \<Rightarrow> True
      | v \<Rightarrow> (case json_int v of Inl _ \<Rightarrow> True | Inr n \<Rightarrow> size < n))"

text \<open>What the plug-ins and the thread pools answer while the scheduler looks at a task.\<close>

record schedule_env =
  se_pending :: bool
  se_priority_input :: bool
  se_pool :: "nat \<Rightarrow> bool"

definition enabled_root :: "string \<Rightarrow> executor \<Rightarrow> bool" where
  "enabled_root t ex \<longleftrightarrow> (case ex_enabled_roots ex of None \<Rightarrow> True | Some ts \<Rightarrow> t \<in> set ts)"

definition bump_in_flight :: "string \<Rightarrow> executor \<Rightarrow> executor" where
  "bump_in_flight t ex = ex\<lparr>ex_in_flight := AList.update t (dict_get (ex_in_flight ex) t 0 + 1) (ex_in_flight ex)\<rparr>"

definition finish :: "string \<Rightarrow> executor \<Rightarrow> executor" where
  "finish t ex = ex\<lparr>ex_in_flight := AList.update t (max 0 (dict_get (ex_in_flight ex) t 1 - 1)) (ex_in_flight ex)\<rparr>"

text \<open>
  One task of the scheduling pass.  \<open>schedule_slots\<close> is the number of submissions to try, 0 for a task that is skipped;
  \<open>submit_slot\<close> is one of them: \<open>None\<close> ends the loop, \<open>Some interactive\<close> is a worker handed to the pool for interactive requests
  or to the general one.
\<close>

definition root_ready :: "schedule_env \<Rightarrow> string \<Rightarrow> executor \<Rightarrow> bool" where
  "root_ready env t ex \<longleftrightarrow>
     (case map_of (ex_tasks ex) t of
        None \<Rightarrow> False | Some task \<Rightarrow> se_pending env \<and> should_schedule_root_source t task ex \<and> enabled_root t ex)"

definition schedule_slots :: "schedule_env \<Rightarrow> string \<Rightarrow> executor \<Rightarrow> nat" where
  "schedule_slots env t ex =
     (let limit = dict_get (ex_max_instances ex) t 1; current = dict_get (ex_in_flight ex) t 0; incoming = get_incoming t (ex_conns ex) in
      if \<not> is_runnable t (ex_states ex) then 0
      else if current \<ge> limit then 0
      else if any_backpressured t (ex_conns ex) then 0
      else if incoming = [] \<and> \<not> root_ready env t ex then 0
      else if incoming \<noteq> [] \<and> \<not> (\<exists>i \<in> set incoming. has_processable (conn ex i)) then 0
      else
        (let slots = limit - current;
             pending = sum_list (map (\<lambda>i. queue_size (conn ex i)) (filter (\<lambda>i. \<not> c_paused (conn ex i)) incoming))
         in nat (if incoming = [] then slots else min slots pending)))"

definition submit_slot :: "string \<Rightarrow> nat list \<Rightarrow> bool \<Rightarrow> bool \<Rightarrow> executor \<Rightarrow> bool option \<times> executor" where
  "submit_slot t incoming priority_input pool ex =
     (if incoming \<noteq> [] \<and> \<not> (\<exists>i \<in> set incoming. has_processable (conn ex i)) then (None, ex)
      else if \<not> pool then (None, finish t (bump_in_flight t ex))
      else (Some (has_interactive_input priority_input incoming ex), bump_in_flight t ex))"

fun submit_slots :: "string \<Rightarrow> nat list \<Rightarrow> schedule_env \<Rightarrow> nat \<Rightarrow> nat \<Rightarrow> executor \<Rightarrow> bool list \<times> executor" where
  "submit_slots t incoming env k 0 ex = ([], ex)"
| "submit_slots t incoming env k (Suc n) ex =
     (case submit_slot t incoming (se_priority_input env) (se_pool env k) ex of
        (None, ex1) \<Rightarrow> ([], ex1)
      | (Some flag, ex1) \<Rightarrow>
          (let (flags, ex2) = (if incoming = [] then ([], ex1) else submit_slots t incoming env (Suc k) n ex1)
           in (flag # flags, ex2)))"

definition schedule_task :: "schedule_env \<Rightarrow> string \<Rightarrow> executor \<Rightarrow> bool list \<times> executor" where
  "schedule_task env t ex = submit_slots t (get_incoming t (ex_conns ex)) env 0 (schedule_slots env t ex) ex"

fun scheduler_pass :: "(string \<Rightarrow> schedule_env) \<Rightarrow> string list \<Rightarrow> executor \<Rightarrow> (string \<times> bool) list \<times> executor" where
  "scheduler_pass env [] ex = ([], ex)"
| "scheduler_pass env (t # ts) ex =
     (if ex_stop ex then ([], ex)
      else
        (let (flags, ex1) = schedule_task (env t) t ex; (rest, ex2) = scheduler_pass env ts ex1
         in (map (Pair t) flags @ rest, ex2)))"

definition AUTO_STOP_THRESHOLD :: int where
  "AUTO_STOP_THRESHOLD = 3"

text \<open>\<open>parked\<close>: continuations of the deployed flow are still to be delivered.\<close>

definition idle_check :: "bool \<Rightarrow> executor \<Rightarrow> executor" where
  "idle_check parked ex =
     (if ex_persistent ex then ex\<lparr>ex_idle := 0\<rparr>
      else if \<exists>e \<in> set (ex_in_flight ex). snd e > 0 then ex\<lparr>ex_idle := 0\<rparr>
      else if \<not> all_empty (ex_conns ex) then ex\<lparr>ex_idle := 0\<rparr>
      else if ex_idle ex + 1 < AUTO_STOP_THRESHOLD then ex\<lparr>ex_idle := ex_idle ex + 1\<rparr>
      else if parked then ex\<lparr>ex_idle := 0\<rparr>
      else ex\<lparr>ex_idle := ex_idle ex + 1, ex_stop := True\<rparr>)"

definition scheduler_cycle :: "(string \<Rightarrow> schedule_env) \<Rightarrow> bool \<Rightarrow> executor \<Rightarrow> (string \<times> bool) list \<times> executor" where
  "scheduler_cycle env parked ex =
     (let (ws, ex1) = scheduler_pass env (dict_keys (ex_tasks ex)) ex
      in (ws, if ws = [] then idle_check parked ex1 else ex1\<lparr>ex_idle := 0\<rparr>))"

text \<open>What the scheduler does when its loop has ended.\<close>

definition scheduler_exit :: "executor \<Rightarrow> executor" where
  "scheduler_exit ex =
     (case ex_checkpoints ex of
        None \<Rightarrow> ex
      | Some st \<Rightarrow> if \<not> ex_persistent ex \<and> all_empty (ex_conns ex) then ex\<lparr>ex_checkpoints := Some (clear_checkpoints st)\<rparr> else ex)"

subsection \<open>Taking the input\<close>

record worker =
  wk_task :: string
  wk_source :: "nat option"
  wk_input :: "flowfile option"
  wk_checkpoint :: "flowfile option"
  wk_attempts :: int
  wk_attempt :: int

text \<open>The first of the connections that gives a FlowFile.\<close>

fun dequeue_first :: "nat list \<Rightarrow> executor \<Rightarrow> (nat \<times> flowfile) option \<times> executor" where
  "dequeue_first [] ex = (None, ex)"
| "dequeue_first (i # is) ex =
     (case dequeue (conn ex i) of
        (Some ff, c) \<Rightarrow> (Some (i, ff), put_conn i c ex)
      | (None, c) \<Rightarrow> dequeue_first is (put_conn i c ex))"

text \<open>
  \<open>None\<close>: there is nothing to do.  \<open>selected\<close> is what \<open>select_processable\<close> chose among the connections that are not paused,
  \<open>pending\<close> what \<open>has_pending_input\<close> answers.
\<close>

definition take_input ::
    "(flowfile \<times> nat) option \<Rightarrow> bool \<Rightarrow> string \<Rightarrow> executor \<Rightarrow> (nat option \<times> flowfile option) option \<times> executor" where
  "take_input selected pending t ex =
     (case map_of (ex_tasks ex) t of
        None \<Rightarrow> (None, ex)
      | Some task \<Rightarrow>
          (let incoming = get_incoming t (ex_conns ex);
               consumable = filter (\<lambda>i. \<not> c_paused (conn ex i)) incoming in
           if incoming = [] then
             (if pending \<and> enabled_root t ex then (Some (None, None), ex) else (None, ex))
           else if tk_selects task then
             (case selected of
                None \<Rightarrow> (None, ex)
              | Some (ff, i) \<Rightarrow>
                  (case conn_remove ff (conn ex i) of
                     (True, c) \<Rightarrow> (Some (Some i, Some ff), put_conn i c ex)
                   | (False, c) \<Rightarrow> (None, put_conn i c ex)))
           else
             (case dequeue_first consumable ex of
                (None, ex1) \<Rightarrow> (None, ex1)
              | (Some (i, ff), ex1) \<Rightarrow> (Some (Some i, Some ff), ex1))))"

text \<open>
  What follows before the first attempt: a request that is no longer pending (\<open>stale\<close>) is discarded, a workflow run that is
  not running any more (\<open>live\<close>) stops the executor, and the reserved attributes are restored.
\<close>

record begin_env =
  be_stale :: bool
  be_live :: bool
  be_retry_policy :: "(int \<Rightarrow> int) option"
  be_fresh :: "nat \<times> string"

definition begin_work :: "real \<Rightarrow> begin_env \<Rightarrow> string \<Rightarrow> nat option \<Rightarrow> flowfile option \<Rightarrow> executor \<Rightarrow> worker option \<times> executor" where
  "begin_work now env t source input ex =
     (if (case input of None \<Rightarrow> False | Some ff \<Rightarrow> truthy_attribute ff ''http.request.id'') \<and> be_stale env then
        (None, finish t (ex\<lparr>ex_states := record_run now t 1 1 0 0 (ex_states ex)\<rparr>))
      else if ex_workflow ex \<and> \<not> be_live env then (None, finish t (ex\<lparr>ex_stop := True\<rparr>))
      else
        (let input' = map_option (fold (\<lambda>(k, v). set_attribute k v) (ex_reserved ex)) input in
         (Some \<lparr>wk_task = t, wk_source = source, wk_input = input',
            wk_checkpoint = map_option (clone (fst (be_fresh env)) (snd (be_fresh env))) input',
            wk_attempts = (case be_retry_policy env of
               Some policy \<Rightarrow> if ex_workflow ex then policy (ex_max_retries ex) else ex_max_retries ex
             | None \<Rightarrow> ex_max_retries ex),
            wk_attempt = 0\<rparr>, ex)))"

text \<open>The part of \<open>_execute_task\<close> before its attempts: a worker that finds nothing to do ends at once.\<close>

definition start_work ::
    "real \<Rightarrow> (flowfile \<times> nat) option \<Rightarrow> bool \<Rightarrow> begin_env \<Rightarrow> string \<Rightarrow> executor \<Rightarrow> worker option \<times> executor" where
  "start_work now selected pending env t ex =
     (case take_input selected pending t ex of
        (None, ex1) \<Rightarrow> (None, finish t ex1)
      | (Some (source, input), ex1) \<Rightarrow> begin_work now env t source input ex1)"

text \<open>The hooks a running task may call: all waiting FlowFiles of its input, and handing some back.\<close>

fun drain_conn :: "nat \<Rightarrow> nat \<Rightarrow> executor \<Rightarrow> flowfile list \<times> executor" where
  "drain_conn 0 i ex = ([], ex)"
| "drain_conn (Suc n) i ex =
     (case dequeue (conn ex i) of
        (None, c) \<Rightarrow> ([], put_conn i c ex)
      | (Some ff, c) \<Rightarrow> (let (ffs, ex1) = drain_conn n i (put_conn i c ex) in (ff # ffs, ex1)))"

fun drain_pending :: "nat list \<Rightarrow> executor \<Rightarrow> flowfile list \<times> executor" where
  "drain_pending [] ex = ([], ex)"
| "drain_pending (i # is) ex =
     (let (ffs, ex1) = drain_conn (Suc (length (c_contents (conn ex i)))) i ex; (rest, ex2) = drain_pending is ex1 in (ffs @ rest, ex2))"

definition requeue_flowfiles :: "nat list \<Rightarrow> flowfile list \<Rightarrow> executor \<Rightarrow> executor" where
  "requeue_flowfiles incoming ffs ex =
     (case incoming of [] \<Rightarrow> ex | i # _ \<Rightarrow> fold (\<lambda>ff ex. put_conn i (requeue ff (conn ex i)) ex) ffs ex)"

subsection \<open>Commit and rollback\<close>

definition prioritized :: "executor \<Rightarrow> string \<Rightarrow> flowfile \<Rightarrow> flowfile" where
  "prioritized ex target ff =
     (case map_of (ex_tasks ex) target of
        None \<Rightarrow> ff
      | Some task \<Rightarrow>
          (case tk_prioritize task of
             None \<Rightarrow> ff
           | Some f \<Rightarrow> if f ff \<noteq> 0 then set_attribute ''priority'' (int_str (f ff)) ff else ff))"

definition matching_outputs :: "executor \<Rightarrow> nat list \<Rightarrow> flowfile \<Rightarrow> nat list" where
  "matching_outputs ex outgoing ff =
     (let rel = (if truthy_attribute ff ''route.relationship'' then the (get_attribute ff ''route.relationship'') else ''success'');
          matching = filter (\<lambda>i. c_relationship (conn ex i) = rel) outgoing
      in if matching = [] then outgoing else matching)"

text \<open>
  One result goes to each of its connections, the first gets the FlowFile itself and the others clones; what a connection
  refuses is offered to the connection the input came from.  \<open>False\<close>: there is no such connection and the code raises.
\<close>

fun send_copies ::
    "real \<Rightarrow> (nat \<Rightarrow> nat \<times> string) \<Rightarrow> nat option \<Rightarrow> bool \<Rightarrow> flowfile \<Rightarrow> nat list \<Rightarrow> nat \<Rightarrow> executor \<Rightarrow> bool \<times> nat \<times> executor" where
  "send_copies now mint source first ff [] n ex = (True, n, ex)"
| "send_copies now mint source first ff (i # is) n ex =
     (let (copy, n1) = (if first then (ff, n) else (clone (fst (mint n)) (snd (mint n)) ff, Suc n));
          sent = prioritized ex (c_target_id (conn ex i)) copy;
          ff1 = (if first then sent else ff) in
      case enqueue now sent (conn ex i) of
        (True, c) \<Rightarrow> send_copies now mint source False ff1 is n1 (put_conn i c ex)
      | (False, _) \<Rightarrow>
          (case source of
             None \<Rightarrow> (False, n1, ex)
           | Some s \<Rightarrow> send_copies now mint source False ff1 is n1 (put_conn s (snd (enqueue now sent (conn ex s))) ex)))"

fun commit_results ::
    "real \<Rightarrow> (nat \<Rightarrow> nat \<times> string) \<Rightarrow> nat option \<Rightarrow> nat list \<Rightarrow> flowfile list \<Rightarrow> nat \<Rightarrow> executor \<Rightarrow> bool \<times> nat \<times> executor" where
  "commit_results now mint source outgoing [] n ex = (True, n, ex)"
| "commit_results now mint source outgoing (ff # ffs) n ex =
     (let matching = matching_outputs ex outgoing ff;
          (ff1, n1) = (if length matching > 1 \<and> \<not> truthy_attribute ff ''fragment.identifier''
                       then (set_attribute ''fragment.identifier'' (snd (mint n)) ff, Suc n) else (ff, n)) in
      case send_copies now mint source True ff1 matching n1 ex of
        (False, n2, ex1) \<Rightarrow> (False, n2, ex1)
      | (True, n2, ex1) \<Rightarrow> commit_results now mint source outgoing ffs n2 ex1)"

definition no_source_error :: task_failure where
  "no_source_error = \<lparr>tf_message = [CHR 0x27] @ ''NoneType'' @ [CHR 0x27] @ '' object has no attribute '' @ [CHR 0x27] @ ''enqueue'' @ [CHR 0x27],
     tf_code = [], tf_type = ''AttributeError'', tf_retryable = None\<rparr>"

definition commit ::
    "real \<Rightarrow> (nat \<Rightarrow> nat \<times> string) \<Rightarrow> string \<Rightarrow> nat option \<Rightarrow> flowfile option \<Rightarrow> flowfile list \<Rightarrow> executor \<Rightarrow> task_failure option \<times> executor" where
  "commit now mint t source input results ex =
     (let outgoing = get_outgoing t (ex_conns ex);
          (ok, _, ex1) = (if outgoing = [] then (True, 0, ex\<lparr>ex_exit := ex_exit ex @ results\<rparr>)
                          else commit_results now mint source outgoing results 0 ex) in
      if ok then
        (None, ex1\<lparr>ex_states := record_run now t (if input = None then 0 else 1) (int (length results))
           (case input of None \<Rightarrow> 0 | Some ff \<Rightarrow> int (ff_size ff)) (int (sum_list (map ff_size results))) (ex_states ex1)\<rparr>)
      else (Some no_source_error, ex1))"

text \<open>The body of an error response: \<open>json.dumps({"error": message})\<close>.\<close>

definition error_body :: "string \<Rightarrow> 8 word list" where
  "error_body message = map (\<lambda>c. word_of_nat (of_char c)) (CHR ''{'' # json_quote ''error'' @ '': '' @ json_quote message @ ''}'')"

fun send_failures :: "real \<Rightarrow> (nat \<Rightarrow> nat \<times> string) \<Rightarrow> bool \<Rightarrow> flowfile \<Rightarrow> nat list \<Rightarrow> nat \<Rightarrow> executor \<Rightarrow> executor" where
  "send_failures now mint first ff [] n ex = ex"
| "send_failures now mint first ff (i # is) n ex =
     (let copy = (if first then ff else clone (fst (mint n)) (snd (mint n)) ff)
      in send_failures now mint False ff is (if first then n else Suc n) (put_conn i (snd (enqueue now copy (conn ex i))) ex))"

definition failure_marked :: "string \<Rightarrow> task_failure \<Rightarrow> flowfile \<Rightarrow> flowfile" where
  "failure_marked t f ff =
     (let ff1 = set_attribute ''error.task'' t (set_attribute ''error.message'' (tf_message f) ff)
      in if tf_code f = [] then ff1 else set_attribute ''error.code'' (tf_code f) ff1)"

definition error_response :: "real \<Rightarrow> string \<Rightarrow> task_failure \<Rightarrow> flowfile option \<Rightarrow> executor \<Rightarrow> executor" where
  "error_response now t f input ex =
     (case input of
        None \<Rightarrow> ex
      | Some ff \<Rightarrow>
          if \<not> truthy_attribute ff ''http.request.id'' then ex
          else
            (let ff1 = set_content (error_body (tf_message f)) (set_attribute ''http.response.header.Content-Type'' ''application/json''
                         (set_attribute ''http.response.status'' ''500'' ff)) in
             case filter (\<lambda>i. c_relationship (conn ex i) = ''success'') (get_outgoing t (ex_conns ex)) of
               [] \<Rightarrow> ex
             | i # _ \<Rightarrow> put_conn i (snd (enqueue now ff1 (conn ex i))) ex))"

text \<open>The number of consecutive failures after which a task goes to the error state.\<close>

definition FAILURE_LIMIT :: int where
  "FAILURE_LIMIT = 5"

definition discard_failed :: "real \<Rightarrow> worker \<Rightarrow> task_failure \<Rightarrow> executor \<Rightarrow> executor" where
  "discard_failed now w f ex =
     (let t = wk_task w;
          consecutive = dict_get (ex_retries ex) t 0 + 1;
          ex1 = ex\<lparr>ex_retries := AList.update t consecutive (ex_retries ex),
                   ex_discarded := ex_discarded ex @ [(t, tf_message f)],
                   ex_failures := ex_failures ex @ [\<lparr>fc_task = t, fc_error = tf_message f,
                     fc_code = (if tf_code f = [] then ''task_failed'' else tf_code f), fc_type = tf_type f,
                     fc_retryable = (tf_retryable f = Some True), fc_flowfile = wk_checkpoint w\<rparr>],
                   ex_bulletins := ex_bulletins ex @ [(t, ''FlowFile discarded after '' @ int_str (ex_max_retries ex) @ '' retries: '' @ tf_message f)]\<rparr>
      in if consecutive \<ge> FAILURE_LIMIT then ex1\<lparr>ex_states := snd (set_error now t (tf_message f) (ex_states ex1))\<rparr> else ex1)"

text \<open>A failure edge of a task without input makes the rollback raise, which puts the task in the error state.\<close>

definition rollback :: "real \<Rightarrow> (nat \<Rightarrow> nat \<times> string) \<Rightarrow> worker \<Rightarrow> task_failure \<Rightarrow> executor \<Rightarrow> executor" where
  "rollback now mint w f ex =
     (let t = wk_task w;
          failing = filter (\<lambda>i. c_relationship (conn ex i) = ''failure'') (get_outgoing t (ex_conns ex)) in
      if failing \<noteq> [] then
        (case wk_input w of
           None \<Rightarrow> ex\<lparr>ex_states := snd (set_error now t ([CHR 0x27] @ ''NoneType'' @ [CHR 0x27] @ '' object has no attribute '' @
             [CHR 0x27] @ ''set_attribute'' @ [CHR 0x27]) (ex_states ex))\<rparr>
         | Some ff \<Rightarrow> send_failures now mint True (failure_marked t f ff) failing 0 ex)
      else discard_failed now w f (error_response now t f (wk_input w) ex))"

subsection \<open>Attempts\<close>

datatype attempt_outcome = Returns "flowfile list" | Fails task_failure

definition can_retry :: "worker \<Rightarrow> int \<Rightarrow> task_failure \<Rightarrow> bool" where
  "can_retry w attempt f \<longleftrightarrow> (wk_attempts w \<le> 0 \<or> attempt < wk_attempts w) \<and> tf_retryable f \<noteq> Some False"

definition stop_requested :: "flowfile list \<Rightarrow> bool" where
  "stop_requested results \<longleftrightarrow> (\<exists>ff \<in> set results. get_attribute ff ''flow.stop_requested'' = Some ''true'')"

definition run_attempt :: "real \<Rightarrow> (nat \<Rightarrow> nat \<times> string) \<Rightarrow> attempt_outcome \<Rightarrow> worker \<Rightarrow> executor \<Rightarrow> worker option \<times> executor" where
  "run_attempt now mint outcome w ex =
     (let t = wk_task w; attempt = wk_attempt w + 1 in
      if ex_stop ex then (None, finish t ex)
      else
        (let (failure, ex1) = (case outcome of
               Returns results \<Rightarrow> commit now mint t (wk_source w) (wk_input w) results ex
             | Fails f \<Rightarrow> (Some f, ex)) in
         case failure of
           None \<Rightarrow>
             (None, finish t (ex1\<lparr>ex_retries := AList.update t 0 (ex_retries ex1),
                ex_stop := (ex_stop ex1 \<or> (case outcome of Returns results \<Rightarrow> stop_requested results | Fails _ \<Rightarrow> False))\<rparr>))
         | Some f \<Rightarrow>
             if can_retry w attempt f then (Some (w\<lparr>wk_attempt := attempt\<rparr>), ex1)
             else (None, finish t (rollback now mint w f ex1))))"

subsection \<open>Control\<close>

definition restart_task :: "real \<Rightarrow> string \<Rightarrow> executor \<Rightarrow> bool \<times> executor" where
  "restart_task now t ex = (let (ok, m) = start_state now t (ex_states ex) in (ok, ex\<lparr>ex_states := m\<rparr>))"

definition stop_task :: "real \<Rightarrow> string \<Rightarrow> executor \<Rightarrow> bool \<times> executor" where
  "stop_task now t ex = (let (ok, m) = stop_state now t (ex_states ex) in (ok, ex\<lparr>ex_states := m\<rparr>))"

definition disable_task :: "real \<Rightarrow> string \<Rightarrow> executor \<Rightarrow> bool \<times> executor" where
  "disable_task now t ex = (let (ok, m) = disable_state now t (ex_states ex) in (ok, ex\<lparr>ex_states := m\<rparr>))"

definition clear_task_queue :: "string \<Rightarrow> string \<Rightarrow> executor \<Rightarrow> executor" where
  "clear_task_queue src tgt ex =
     (case get_connection src tgt (ex_conns ex) of None \<Rightarrow> ex | Some i \<Rightarrow> put_conn i (conn_clear (conn ex i)) ex)"

definition clear_all_queues :: "executor \<Rightarrow> executor" where
  "clear_all_queues ex = ex\<lparr>ex_conns := clear_all (ex_conns ex), ex_states := reset_all_counters (ex_states ex)\<rparr>"

text \<open>\<open>update_task\<close>, after its wait; \<open>made\<close> is the new instance or the exception of its construction.\<close>

definition update_task :: "real \<Rightarrow> string \<Rightarrow> task_spec res \<Rightarrow> (py_error \<Rightarrow> string) \<Rightarrow> executor \<Rightarrow> bool \<times> executor" where
  "update_task now t made error_text ex =
     (case map_of (ex_tasks ex) t of
        None \<Rightarrow> (False, ex)
      | Some old \<Rightarrow>
          (let ex1 = snd (stop_task now t ex) in
           case made of
             Inl e \<Rightarrow> (False, ex1\<lparr>ex_states := snd (set_error now t (''Update failed: '' @ error_text e) (ex_states ex1))\<rparr>)
           | Inr task \<Rightarrow>
               (True, ex1\<lparr>ex_tasks := AList.update t task (ex_tasks ex1), ex_version := ex_version ex1 + 1,
                  ex_history := ex_history ex1 @ [TaskUpdated (ex_version ex1 + 1) t],
                  ex_states := snd (start_state now t (ex_states ex1))\<rparr>)))"

definition in_flight_task_ids :: "executor \<Rightarrow> string list" where
  "in_flight_task_ids ex = map fst (filter (\<lambda>e. snd e \<noteq> 0) (ex_in_flight ex))"

definition checkpoint_is_quiescent :: "executor \<Rightarrow> bool" where
  "checkpoint_is_quiescent ex \<longleftrightarrow> \<not> (\<exists>e \<in> set (ex_in_flight ex). snd e > 0)"

text \<open>
  Checkpoints.  \<open>data\<close> is what the \<open>checkpoint_state\<close> hooks return (\<open>Inl\<close>: one of them raised), \<open>stamp\<close> and \<open>secs\<close> are the time.
\<close>

record save_env =
  sv_stamp :: string
  sv_secs :: nat
  sv_writes :: bool
  sv_data :: "(string, json) dict res"
  sv_isoformat :: "real \<Rightarrow> string"

definition save_current :: "save_env \<Rightarrow> executor \<Rightarrow> executor" where
  "save_current env ex =
     (case ex_checkpoints ex of
        None \<Rightarrow> ex
      | Some st \<Rightarrow>
          (case sv_data env of
             Inl _ \<Rightarrow> ex
           | Inr data \<Rightarrow> ex\<lparr>ex_checkpoints := Some (snd (save_checkpoint (sv_stamp env) (sv_secs env) (sv_writes env) (ex_conns ex)
               (get_all_states (sv_isoformat env) (ex_states ex)) (ex_version ex) data st))\<rparr>))"

definition save_checkpoint_now :: "save_env \<Rightarrow> executor \<Rightarrow> string option res \<times> executor" where
  "save_checkpoint_now env ex =
     (case ex_checkpoints ex of
        None \<Rightarrow> (Inr None, ex)
      | Some st \<Rightarrow>
          if \<not> checkpoint_is_quiescent ex then (Inr None, ex)
          else (case sv_data env of
             Inl e \<Rightarrow> (Inl e, ex)
           | Inr data \<Rightarrow>
               (let (name, st1) = save_checkpoint (sv_stamp env) (sv_secs env) (sv_writes env) (ex_conns ex)
                      (get_all_states (sv_isoformat env) (ex_states ex)) (ex_version ex) data st
                in (Inr (Some name), ex\<lparr>ex_checkpoints := Some st1\<rparr>))))"

fun enqueue_all :: "real \<Rightarrow> flowfile list \<Rightarrow> connection \<Rightarrow> connection" where
  "enqueue_all now [] c = c"
| "enqueue_all now (ff # ffs) c = enqueue_all now ffs (snd (enqueue now ff c))"

definition recover_queue :: "real \<Rightarrow> queue_key \<times> flowfile list \<Rightarrow> executor \<Rightarrow> executor" where
  "recover_queue now = (\<lambda>((src, tgt, rel), ffs) ex.
     (let safe = filter (\<lambda>ff. \<not> truthy_attribute ff ''http.request.id'') ffs in
      if safe = [] then ex
      else case get_by_id (connection_id_of src rel tgt) (ex_conns ex) of
        None \<Rightarrow> ex
      | Some i \<Rightarrow> if conn_is_empty (conn ex i) then put_conn i (enqueue_all now safe (conn ex i)) ex else ex))"

text \<open>\<open>hooks\<close>: the state of every task could be restored; a checkpoint that cannot is skipped.\<close>

definition recover_from_checkpoint :: "real \<Rightarrow> (nat \<Rightarrow> nat \<times> string) \<Rightarrow> bool \<Rightarrow> executor \<Rightarrow> executor" where
  "recover_from_checkpoint now mint hooks ex =
     (case ex_checkpoints ex of
        None \<Rightarrow> ex
      | Some st \<Rightarrow>
          (case load_latest_checkpoint st of
             None \<Rightarrow> ex
           | Some doc \<Rightarrow>
               if checkpoint_is_quiescent ex \<and> \<not> hooks then ex
               else (fold (recover_queue now) (restore_flowfiles mint st doc) ex)\<lparr>ex_checkpoints := Some (clear_checkpoints st)\<rparr>))"

definition start_executor :: "real \<Rightarrow> (nat \<Rightarrow> nat \<times> string) \<Rightarrow> bool \<Rightarrow> executor \<Rightarrow> executor" where
  "start_executor now mint hooks ex =
     (let ex1 = recover_from_checkpoint now mint hooks ex
      in ex1\<lparr>ex_states := fold (\<lambda>t m. snd (start_state now t m)) (dict_keys (ex_tasks ex1)) (ex_states ex1), ex_stop := False\<rparr>)"

definition stop_executor :: "real \<Rightarrow> save_env \<Rightarrow> executor \<Rightarrow> executor" where
  "stop_executor now env ex =
     save_current env (ex\<lparr>ex_stop := True, ex_states := fold (\<lambda>t m. snd (stop_state now t m)) (dict_keys (ex_tasks ex)) (ex_states ex)\<rparr>)"

subsection \<open>Replacing the flow\<close>

definition relation_identity :: "relation_spec \<Rightarrow> string \<times> string \<times> string" where
  "relation_identity r =
     (case rs_from r of None \<Rightarrow> [] | Some s \<Rightarrow> s, case rs_to r of None \<Rightarrow> [] | Some s \<Rightarrow> s,
      case rs_type r of None \<Rightarrow> ''success'' | Some s \<Rightarrow> if s = [] then ''success'' else s)"

definition relation_connection_id :: "relation_spec \<Rightarrow> string" where
  "relation_connection_id r = (let (src, tgt, rel) = relation_identity r in connection_id_of src rel tgt)"

definition flow_fingerprint ::
    "(string, task_spec) dict \<Rightarrow> relation_spec list \<Rightarrow> (string \<times> string \<times> (string, json) dict) list \<times> (string \<times> string \<times> string) multiset" where
  "flow_fingerprint tasks relations =
     (sort_key fst (map (\<lambda>(t, task). (t, tk_type task, sort_key fst (tk_config task))) tasks), mset (map relation_identity relations))"

definition removed_nonempty_connections :: "string list \<Rightarrow> executor \<Rightarrow> nat list" where
  "removed_nonempty_connections ids ex =
     filter (\<lambda>i. connection_id (conn ex i) \<notin> set ids \<and> \<not> conn_is_empty (conn ex i)) (cm_connections (ex_conns ex))"

definition saved_queues :: "executor \<Rightarrow> (string, flowfile list) dict" where
  "saved_queues ex = fold (\<lambda>i d. AList.update (connection_id (conn ex i)) (conn_peek_all (queue_size (conn ex i)) (conn ex i)) d)
     (cm_connections (ex_conns ex)) []"

definition paused_queues :: "executor \<Rightarrow> string list" where
  "paused_queues ex = map (\<lambda>i. connection_id (conn ex i)) (filter (\<lambda>i. c_paused (conn ex i)) (cm_connections (ex_conns ex)))"

definition restore_queue :: "string list \<Rightarrow> string \<times> flowfile list \<Rightarrow> nat \<times> nat \<times> executor \<Rightarrow> nat \<times> nat \<times> executor" where
  "restore_queue paused = (\<lambda>(cid, ffs) (restored, dropped, ex).
     case get_by_id cid (ex_conns ex) of
       None \<Rightarrow> (restored, dropped + length ffs, ex)
     | Some i \<Rightarrow>
         (let c = fold requeue ffs (conn ex i)
          in (restored + length ffs, dropped, put_conn i (if cid \<in> set paused then pause c else c) ex)))"

datatype queue_policy = RejectNonempty | DropQueues

datatype flight_policy = RejectBusy | WaitBusy

definition update_rejected :: "queue_policy \<Rightarrow> relation_spec list \<Rightarrow> executor \<Rightarrow> bool" where
  "update_rejected queues relations ex \<longleftrightarrow>
     queues = RejectNonempty \<and> removed_nonempty_connections (map relation_connection_id relations) ex \<noteq> []"

definition rebuild_flow ::
    "real \<Rightarrow> (string, task_spec) dict \<Rightarrow> relation_spec list \<Rightarrow> executor \<Rightarrow> unit res \<times> executor" where
  "rebuild_flow now tasks relations ex =
     (let (built, ex1) = build now tasks relations (ex\<lparr>ex_tasks := [], ex_states := [], ex_retries := [], ex_in_flight := [],
            ex_max_instances := [], ex_conns := cm_init\<rparr>) in
      case built of
        Inl e \<Rightarrow> (Inl e, ex1\<lparr>ex_stop := True\<rparr>)
      | Inr _ \<Rightarrow>
          (let (restored, dropped, ex2) = fold (restore_queue (paused_queues ex)) (saved_queues ex) (0, 0, ex1)
           in (Inr (), ex2\<lparr>ex_version := ex_version ex2 + 1, ex_history := ex_history ex2 @ [FlowUpdated (ex_version ex2 + 1) restored dropped]\<rparr>)))"

text \<open>
  \<open>update_flow\<close>: the checks on the running executor \<open>ex\<close>, and, when the scheduler has stopped, again on the state \<open>ex'\<close> it is
  then in.  \<open>None\<close> is an unchanged flow, \<open>Some False\<close> a rejection.
\<close>

definition update_flow ::
    "real \<Rightarrow> (nat \<Rightarrow> nat \<times> string) \<Rightarrow> bool \<Rightarrow> (string, task_spec) dict \<Rightarrow> relation_spec list \<Rightarrow>
     queue_policy \<Rightarrow> flight_policy \<Rightarrow> executor \<Rightarrow> executor \<Rightarrow> bool option res \<times> executor" where
  "update_flow now mint hooks tasks relations queues flight ex ex' =
     (if flow_fingerprint (ex_flow_tasks ex) (ex_relations ex) = flow_fingerprint tasks relations then (Inr None, ex)
      else if update_rejected queues relations ex then (Inr (Some False), ex)
      else if flight = RejectBusy \<and> in_flight_task_ids ex \<noteq> [] then (Inr (Some False), ex)
      else if ex_stop ex then
        (case rebuild_flow now tasks relations ex of
           (Inl e, ex1) \<Rightarrow> (Inl (FlowUpdateError ''rebuild''), ex1)
         | (Inr _, ex1) \<Rightarrow> (Inr (Some True), ex1))
      else if in_flight_task_ids ex' \<noteq> [] then (Inr (Some False), ex'\<lparr>ex_stop := False\<rparr>)
      else if update_rejected queues relations ex' then (Inr (Some False), ex'\<lparr>ex_stop := False\<rparr>)
      else
        (case rebuild_flow now tasks relations ex' of
           (Inl e, ex1) \<Rightarrow> (Inl (FlowUpdateError ''rebuild''), ex1)
         | (Inr _, ex1) \<Rightarrow> (Inr (Some True), start_executor now mint hooks ex1)))"

subsection \<open>One execution by hand, and batches\<close>

fun peek_first :: "nat list \<Rightarrow> executor \<Rightarrow> (nat \<times> flowfile) option" where
  "peek_first [] ex = None"
| "peek_first (i # is) ex = (case conn_peek (conn ex i) of Some ff \<Rightarrow> Some (i, ff) | None \<Rightarrow> peek_first is ex)"

text \<open>\<open>outcome\<close>: what \<open>execute\<close> gives for the input that was found.\<close>

definition run_once ::
    "real \<Rightarrow> (nat \<Rightarrow> nat \<times> string) \<Rightarrow> (flowfile option \<Rightarrow> attempt_outcome) \<Rightarrow> string \<Rightarrow> executor \<Rightarrow> (task_failure + flowfile list) option \<times> executor" where
  "run_once now mint outcome t ex =
     (case map_of (ex_tasks ex) t of
        None \<Rightarrow> (None, ex)
      | Some _ \<Rightarrow>
          (let found = peek_first (get_incoming t (ex_conns ex)) ex in
           case outcome (map_option snd found) of
             Fails f \<Rightarrow> (Some (Inl f), ex)
           | Returns results \<Rightarrow>
               (case commit now mint t (map_option fst found) (map_option snd found) results ex of
                  (Some f, ex1) \<Rightarrow> (Some (Inl f), ex1)
                | (None, ex1) \<Rightarrow> (Some (Inr results), ex1))))"

text \<open>The errors of the tasks in the result of \<open>run_batch\<close>.\<close>

definition batch_errors :: "(real \<Rightarrow> string) \<Rightarrow> executor \<Rightarrow> (string \<times> json) list" where
  "batch_errors isoformat ex =
     map (\<lambda>(t, d). (t, jget_or d ''error'' (JStr ''unknown'')))
       (filter (\<lambda>(t, d). jget d ''state'' = Some (JStr ''error'')) (get_all_states isoformat (ex_states ex)))"

end
