(* ===== verification/Executor_Proofs.thy ===== *)
theory Executor_Proofs
  imports Executor
begin

section \<open>The continuous executor: what it guarantees\<close>

text \<open>
  The invariant of the queues and of the worker counts under the interleaving of the scheduler, the workers and the control
  operations, and what scheduling, commit, rollback, recovery and the replacement of a flow do with the FlowFiles.
\<close>

subsection \<open>Well-formed executors\<close>

definition same_ends :: "connection \<Rightarrow> connection \<Rightarrow> bool" where
  "same_ends c c' \<longleftrightarrow> c_source_id c' = c_source_id c \<and> c_target_id c' = c_target_id c \<and> c_relationship c' = c_relationship c \<and>
     c_max_queue_size c' = c_max_queue_size c \<and> c_max_queue_bytes c' = c_max_queue_bytes c"

definition exec_wf :: "executor \<Rightarrow> bool" where
  "exec_wf ex \<longleftrightarrow> cm_inv (ex_conns ex) \<and> (\<forall>c \<in> set (cm_objs (ex_conns ex)). conn_inv c) \<and> distinct (dict_keys (ex_in_flight ex))"

definition valid_conn :: "executor \<Rightarrow> nat \<Rightarrow> bool" where
  "valid_conn ex i \<longleftrightarrow> i < length (cm_objs (ex_conns ex))"

lemma same_ends_refl [simp]: "same_ends c c" by (simp add: same_ends_def)

lemma same_ends_trans: "same_ends a b \<Longrightarrow> same_ends b c \<Longrightarrow> same_ends a c" by (simp add: same_ends_def)

lemma enqueue_ends [simp]: "same_ends c (snd (enqueue now ff c))"
  by (auto simp: enqueue_def same_ends_def Let_def split: prod.split bool.split)

lemma dequeue_ends [simp]: "same_ends c (snd (dequeue c))"
  by (auto simp: dequeue_def same_ends_def account_removed_def split: prod.split option.split)

lemma conn_remove_ends [simp]: "same_ends c (snd (conn_remove ff c))"
  by (auto simp: conn_remove_def same_ends_def account_removed_def split: prod.split bool.split)

lemma simple_ends [simp]: "same_ends c (requeue ff c)" "same_ends c (conn_clear c)" "same_ends c (pause c)" "same_ends c (resume c)"
  by (simp_all add: same_ends_def requeue_def conn_clear_def pause_def resume_def)

lemma enqueue_inv: "conn_inv c \<Longrightarrow> conn_inv (snd (enqueue now ff c))"
  by (rule enqueue_cases [of c now ff]) auto

lemma dequeue_inv: "conn_inv c \<Longrightarrow> conn_inv (snd (dequeue c))"
  using shrinks_dequeue by (auto simp: shrinks_def)

lemma clear_inv: "conn_inv c \<Longrightarrow> conn_inv (conn_clear c)" "conn_inv c \<Longrightarrow> conn_inv (pause c)" "conn_inv c \<Longrightarrow> conn_inv (resume c)"
  by (simp_all add: conn_inv_def conn_clear_def pause_def resume_def)

lemma put_conn_frame [simp]:
  "ex_tasks (put_conn i c ex) = ex_tasks ex" "ex_states (put_conn i c ex) = ex_states ex" "ex_in_flight (put_conn i c ex) = ex_in_flight ex"
  "ex_max_instances (put_conn i c ex) = ex_max_instances ex" "ex_stop (put_conn i c ex) = ex_stop ex" "ex_exit (put_conn i c ex) = ex_exit ex"
  "ex_retries (put_conn i c ex) = ex_retries ex" "ex_failures (put_conn i c ex) = ex_failures ex" "ex_discarded (put_conn i c ex) = ex_discarded ex"
  "ex_enabled_roots (put_conn i c ex) = ex_enabled_roots ex" "ex_workflow (put_conn i c ex) = ex_workflow ex" "ex_reserved (put_conn i c ex) = ex_reserved ex"
  "ex_max_retries (put_conn i c ex) = ex_max_retries ex" "ex_checkpoints (put_conn i c ex) = ex_checkpoints ex"
  "ex_version (put_conn i c ex) = ex_version ex" "ex_history (put_conn i c ex) = ex_history ex" "ex_bulletins (put_conn i c ex) = ex_bulletins ex"
  "cm_connections (ex_conns (put_conn i c ex)) = cm_connections (ex_conns ex)"
  "length (cm_objs (ex_conns (put_conn i c ex))) = length (cm_objs (ex_conns ex))"
  "get_outgoing t (ex_conns (put_conn i c ex)) = get_outgoing t (ex_conns ex)" "get_incoming t (ex_conns (put_conn i c ex)) = get_incoming t (ex_conns ex)"
  by (simp_all add: put_conn_def get_outgoing_def get_incoming_def)

lemma conn_put_conn: "valid_conn ex i \<Longrightarrow> conn (put_conn i c ex) j = (if i = j then c else conn ex j)"
  by (simp add: put_conn_def valid_conn_def nth_list_update)

lemma valid_put_conn [simp]: "valid_conn (put_conn i c ex) j = valid_conn ex j"
  by (simp add: valid_conn_def)

lemma wf_conn: "exec_wf ex \<Longrightarrow> valid_conn ex i \<Longrightarrow> conn_inv (conn ex i)"
  by (simp add: exec_wf_def valid_conn_def)

lemma wf_valid:
  assumes "exec_wf ex"
  shows "i \<in> set (cm_connections (ex_conns ex)) \<Longrightarrow> valid_conn ex i" "i \<in> set (get_outgoing t (ex_conns ex)) \<Longrightarrow> valid_conn ex i"
    "i \<in> set (get_incoming t (ex_conns ex)) \<Longrightarrow> valid_conn ex i"
  using assms by (auto simp: exec_wf_def cm_inv_def valid_conn_def)

lemma put_conn_wf:
  assumes "exec_wf ex" "conn_inv c" "same_ends (conn ex i) c"
  shows "exec_wf (put_conn i c ex)"
proof (cases "valid_conn ex i")
  case True
  have ends: "c_source_id (conn (put_conn i c ex) j) = c_source_id (conn ex j)" "c_target_id (conn (put_conn i c ex) j) = c_target_id (conn ex j)" for j
    using assms(3) by (auto simp: conn_put_conn [OF True] same_ends_def)
  have "cm_inv (ex_conns (put_conn i c ex))"
    using assms(1) unfolding exec_wf_def cm_inv_def put_conn_frame ends by blast
  moreover have "set (cm_objs (ex_conns (put_conn i c ex))) \<subseteq> insert c (set (cm_objs (ex_conns ex)))"
    by (simp add: put_conn_def set_update_subset_insert)
  ultimately show ?thesis using assms(1,2) by (auto simp: exec_wf_def)
next
  case False
  then have "put_conn i c ex = ex" by (simp add: put_conn_def valid_conn_def list_update_beyond)
  then show ?thesis using assms(1) by simp
qed

subsection \<open>What moving FlowFiles leaves alone\<close>

text \<open>The worker counts and their limits stay, and well-formedness is kept.\<close>

definition keeps :: "executor \<Rightarrow> executor \<Rightarrow> bool" where
  "keeps ex ex' \<longleftrightarrow> ex_in_flight ex' = ex_in_flight ex \<and> ex_max_instances ex' = ex_max_instances ex \<and> (exec_wf ex \<longrightarrow> exec_wf ex')"

lemma keeps_refl [simp]: "keeps ex ex" by (simp add: keeps_def)

lemma keeps_trans [trans]: "keeps a b \<Longrightarrow> keeps b c \<Longrightarrow> keeps a c" by (simp add: keeps_def)

lemma keepsI:
  "ex_in_flight ex' = ex_in_flight ex \<Longrightarrow> ex_max_instances ex' = ex_max_instances ex \<Longrightarrow> ex_conns ex' = ex_conns ex \<Longrightarrow> keeps ex ex'"
  by (simp add: keeps_def exec_wf_def)

lemma keeps_put:
  assumes "\<And>c. conn_inv c \<Longrightarrow> conn_inv (f c)" "\<And>c. same_ends c (f c)"
  shows "keeps ex (put_conn i (f (conn ex i)) ex)"
proof (cases "valid_conn ex i")
  case True
  then show ?thesis using put_conn_wf [of ex "f (conn ex i)" i] wf_conn assms by (auto simp: keeps_def)
next
  case False
  then have "put_conn i (f (conn ex i)) ex = ex" by (simp add: put_conn_def valid_conn_def list_update_beyond)
  then show ?thesis by simp
qed

lemma keeps_enqueue: "keeps ex (put_conn i (snd (enqueue now ff (conn ex i))) ex)"
  by (rule keeps_put [where f = "\<lambda>c. snd (enqueue now ff c)"]) (simp_all add: enqueue_inv)

lemma keeps_dequeue: "keeps ex (put_conn i (snd (dequeue (conn ex i))) ex)"
  by (rule keeps_put [where f = "\<lambda>c. snd (dequeue c)"]) (simp_all add: dequeue_inv)

lemma keeps_clear: "keeps ex (put_conn i (conn_clear (conn ex i)) ex)"
  by (rule keeps_put [where f = conn_clear]) (simp_all add: clear_inv)

lemma keeps_send_copies: "keeps ex (snd (snd (send_copies now mint source first ff is n ex)))"
proof (induction "is" arbitrary: first ff n ex)
  case Nil
  then show ?case by simp
next
  case (Cons i "is")
  have go: "keeps ex (snd (snd (send_copies now mint source False ff' is n' (put_conn j (snd (enqueue now sent (conn ex j))) ex))))" for ff' n' j sent
    using keeps_enqueue Cons.IH by (rule keeps_trans)
  have "keeps ex (snd (snd (case enqueue now sent (conn ex i) of
      (True, c) \<Rightarrow> send_copies now mint source False ff1 is n1 (put_conn i c ex)
    | (False, _) \<Rightarrow> (case source of None \<Rightarrow> (False, n1, ex)
        | Some s \<Rightarrow> send_copies now mint source False ff1 is n1 (put_conn s (snd (enqueue now sent (conn ex s))) ex)))))" for sent ff1 n1
    using go [of ff1 n1 i sent] go [of ff1 n1 _ sent] by (cases "enqueue now sent (conn ex i)") (auto split: bool.split option.split)
  then show ?case by (simp add: Let_def split: prod.split)
qed

lemma keeps_commit_results: "keeps ex (snd (snd (commit_results now mint source outgoing ffs n ex)))"
proof (induction ffs arbitrary: n ex)
  case Nil
  then show ?case by simp
next
  case (Cons ff ffs)
  have "keeps ex (snd (snd (case send_copies now mint source True ff1 matching n1 ex of
      (False, n2, ex1) \<Rightarrow> (False, n2, ex1) | (True, n2, ex1) \<Rightarrow> commit_results now mint source outgoing ffs n2 ex1)))" for ff1 matching n1
    using keeps_send_copies [of ex now mint source True ff1 matching n1] Cons.IH
    by (auto split: prod.split bool.split intro: keeps_trans)
  then show ?case by (simp add: Let_def split: prod.split)
qed

lemma keeps_commit: "keeps ex (snd (commit now mint t source input results ex))"
proof (cases "get_outgoing t (ex_conns ex) = []")
  case True
  then show ?thesis by (simp add: commit_def keepsI)
next
  case False
  let ?r = "commit_results now mint source (get_outgoing t (ex_conns ex)) results 0 ex"
  have "keeps (snd (snd ?r)) (snd (commit now mint t source input results ex))"
    using False by (auto simp: commit_def Let_def split: prod.split intro: keepsI)
  with keeps_commit_results show ?thesis by (rule keeps_trans)
qed

lemma keeps_send_failures: "keeps ex (send_failures now mint first ff is n ex)"
  by (induction "is" arbitrary: first n ex) (auto simp: Let_def intro: keeps_trans [OF keeps_enqueue])

lemma keeps_error_response: "keeps ex (error_response now t f input ex)"
  by (auto simp: error_response_def Let_def keeps_enqueue split: option.split list.split)

lemma keeps_discard: "keeps ex (discard_failed now w f ex)"
  by (rule keepsI) (simp_all add: discard_failed_def Let_def)

lemma keeps_rollback: "keeps ex (rollback now mint w f ex)"
proof -
  have "keeps ex (discard_failed now w f (error_response now (wk_task w) f (wk_input w) ex))"
    using keeps_error_response keeps_discard by (rule keeps_trans)
  then show ?thesis by (auto simp: rollback_def Let_def keeps_send_failures intro: keepsI split: option.split)
qed

lemma keeps_dequeue_first: "keeps ex (snd (dequeue_first is ex))"
proof (induction "is" arbitrary: ex)
  case Nil
  then show ?case by simp
next
  case (Cons i "is")
  then show ?case using keeps_dequeue [of ex i] by (cases "dequeue (conn ex i)") (auto split: option.split intro: keeps_trans)
qed

lemma keeps_take_input:
  assumes "\<forall>ff i. selected = Some (ff, i) \<longrightarrow> same_obj ff (conn ex i)"
  shows "keeps ex (snd (take_input selected pending t ex))"
proof -
  have sel: "keeps ex (put_conn i (snd (conn_remove ff (conn ex i))) ex)" if s: "selected = Some (ff, i)" for ff i
  proof (cases "valid_conn ex i")
    case True
    have "shrinks (conn ex i) (snd (conn_remove ff (conn ex i)))" if "conn_inv (conn ex i)"
      using shrinks_remove [OF that] assms s by blast
    then have "conn_inv (snd (conn_remove ff (conn ex i)))" if "exec_wf ex" using wf_conn [OF that True] by (auto simp: shrinks_def)
    then show ?thesis using put_conn_wf by (auto simp: keeps_def)
  next
    case False
    then have "put_conn i c ex = ex" for c by (simp add: put_conn_def valid_conn_def list_update_beyond)
    then show ?thesis by simp
  qed
  have "keeps ex (snd (case conn_remove ff (conn ex i) of (True, c) \<Rightarrow> (Some (Some i, Some ff), put_conn i c ex) | (False, c) \<Rightarrow> (None, put_conn i c ex)))"
    if "selected = Some (ff, i)" for ff i
    using sel [OF that] by (cases "conn_remove ff (conn ex i)") (auto split: bool.split)
  moreover have "keeps ex (snd (case dequeue_first is ex of (None, ex1) \<Rightarrow> (None, ex1) | (Some (i, ff), ex1) \<Rightarrow> (Some (Some i, Some ff), ex1)))" for "is"
    using keeps_dequeue_first [of ex "is"] by (auto split: prod.split option.split)
  ultimately show ?thesis by (auto simp: take_input_def Let_def split: option.split prod.split)
qed

lemma fold_keeps: "(\<And>x ex. keeps ex (f x ex)) \<Longrightarrow> keeps ex (fold f xs ex)"
  by (induction xs arbitrary: ex) (auto intro: keeps_trans)

lemma keeps_clear_all: "keeps ex (clear_all_queues ex)"
proof -
  let ?f = "\<lambda>i ex. put_conn i (conn_clear (conn ex i)) ex"
  have eq: "fold ?f is ex = ex\<lparr>ex_conns := fold (\<lambda>i m. m\<lparr>cm_objs := (cm_objs m)[i := conn_clear (cm_objs m ! i)]\<rparr>) is (ex_conns ex)\<rparr>" for "is" and ex
    by (induction "is" arbitrary: ex) (simp_all add: put_conn_def)
  have "keeps ex (fold ?f (cm_connections (ex_conns ex)) ex)" using keeps_clear by (rule fold_keeps)
  then have "keeps ex (ex\<lparr>ex_conns := clear_all (ex_conns ex)\<rparr>)" unfolding eq clear_all_def .
  then show ?thesis by (rule keeps_trans) (simp add: clear_all_queues_def keepsI)
qed

lemma keeps_entry: "keeps ex (snd (entry_connection t ex))"
proof -
  have "keeps ex (ex\<lparr>ex_conns := add_connection c (ex_conns ex)\<rparr>)" if "conn_inv c" for c
    using that by (auto simp: keeps_def exec_wf_def add_connection_inv) (auto simp: add_connection_def Let_def)
  then show ?thesis using new_connection_inv by (simp add: entry_connection_def split: list.split)
qed

lemma keeps_inject:
  assumes "inject now ff entry ex = Inr (ok, ex')"
  shows "keeps ex ex'"
proof -
  obtain t where "ex' = (let (i, ex1) = entry_connection t ex in put_conn i (snd (enqueue now ff (conn ex1 i))) ex1)"
    using assms by (auto simp: inject_def bind_res_Inr_iff Let_def split_beta)
  then have "ex' = put_conn (fst (entry_connection t ex)) (snd (enqueue now ff (conn (snd (entry_connection t ex)) (fst (entry_connection t ex)))))
      (snd (entry_connection t ex))"
    by (simp add: split_beta)
  then show ?thesis using keeps_trans [OF keeps_entry keeps_enqueue] by simp
qed

lemma enqueue_all_keeps: "conn_inv c \<Longrightarrow> conn_inv (enqueue_all now ffs c)" "same_ends c (enqueue_all now ffs c)"
  by (induction ffs arbitrary: c) (auto simp: enqueue_inv intro: same_ends_trans [OF enqueue_ends])

lemma keeps_recover_queue: "keeps ex (recover_queue now q ex)"
  using keeps_put [of "enqueue_all now _", OF enqueue_all_keeps]
  by (auto simp: recover_queue_def Let_def split: prod.split option.split)

lemma keeps_recover: "keeps ex (recover_from_checkpoint now mint hooks ex)"
proof -
  have "keeps ex ((fold (recover_queue now) qs ex)\<lparr>ex_checkpoints := c\<rparr>)" for qs c
    using fold_keeps [of "recover_queue now" ex qs, OF keeps_recover_queue] by (rule keeps_trans) (simp add: keepsI)
  then show ?thesis by (auto simp: recover_from_checkpoint_def split: option.split)
qed

lemma keeps_start: "keeps ex (start_executor now mint hooks ex)"
  using keeps_recover [of ex now mint hooks] by (rule keeps_trans) (simp add: start_executor_def Let_def keepsI)

lemma keeps_drain_conn: "keeps ex (snd (drain_conn n i ex))"
proof (induction n arbitrary: ex)
  case 0
  then show ?case by simp
next
  case (Suc n)
  have "keeps ex (snd (drain_conn n i (put_conn i (snd (dequeue (conn ex i))) ex)))" using keeps_dequeue Suc.IH by (rule keeps_trans)
  then show ?case using keeps_dequeue [of ex i] by (cases "dequeue (conn ex i)") (auto simp: Let_def split: option.split prod.split)
qed

lemma keeps_drain: "keeps ex (snd (drain_pending is ex))"
proof (induction "is" arbitrary: ex)
  case Nil
  then show ?case by simp
next
  case (Cons i "is")
  let ?n = "Suc (length (c_contents (conn ex i)))"
  have "snd (drain_pending (i # is) ex) = snd (drain_pending is (snd (drain_conn ?n i ex)))"
    by (simp only: drain_pending.simps Let_def split_beta snd_conv)
  moreover have "keeps ex (snd (drain_pending is (snd (drain_conn ?n i ex))))" using keeps_drain_conn Cons.IH by (rule keeps_trans)
  ultimately show ?case by simp
qed

subsection \<open>The threads of an executor\<close>

text \<open>
  \<open>xs_slots\<close> is the task the scheduler is submitting, the incoming connections it looked up and how many submissions are left to try;
  \<open>xs_submitted\<close> are the workers that wait in a pool, \<open>xs_cancelled\<close> those that a shutdown took out of it.
\<close>

record exec_system =
  xs_ex :: executor
  xs_slots :: "(string \<times> nat list \<times> nat) option"
  xs_submitted :: "string multiset"
  xs_running :: "worker list"
  xs_cancelled :: "string multiset"

text \<open>The operations of other threads that neither add nor end a worker.\<close>

inductive control_step :: "executor \<Rightarrow> executor \<Rightarrow> bool" where
  inject: "inject now ff entry ex = Inr (ok, ex') \<Longrightarrow> control_step ex ex'"
| restart: "control_step ex (snd (restart_task now t ex))"
| stop: "control_step ex (snd (stop_task now t ex))"
| disable: "control_step ex (snd (disable_task now t ex))"
| clear: "control_step ex (clear_task_queue src tgt ex)"
| clear_all: "control_step ex (clear_all_queues ex)"
| update: "control_step ex (snd (update_task now t made text ex))"
| save: "control_step ex (save_current env ex)"
| save_now: "control_step ex (snd (save_checkpoint_now env ex))"
| idle: "control_step ex (idle_check parked ex)"
| busy: "control_step ex (ex\<lparr>ex_idle := 0\<rparr>)"
| loop_end: "control_step ex (scheduler_exit ex)"
| start: "control_step ex (start_executor now mint hooks ex)"
| drain: "control_step ex (snd (drain_pending (get_incoming t (ex_conns ex)) ex))"
| once: "control_step ex (snd (run_once now mint outcome t ex))"

lemma control_keeps: "control_step ex ex' \<Longrightarrow> keeps ex ex'"
proof (induction rule: control_step.induct)
  case (clear ex src tgt)
  then show ?case by (simp add: clear_task_queue_def keeps_clear split: option.split)
next
  case (once ex now mint outcome t)
  then show ?case
    using keeps_commit [of ex now mint t] by (auto simp: run_once_def Let_def split: option.split attempt_outcome.split prod.split) (metis snd_conv)+
qed (auto intro: keepsI simp: keeps_inject keeps_clear_all keeps_start keeps_drain restart_task_def stop_task_def disable_task_def update_task_def save_current_def
    save_checkpoint_now_def idle_check_def scheduler_exit_def Let_def split: prod.split option.split sum.split)

inductive exec_step :: "exec_system \<Rightarrow> exec_system \<Rightarrow> bool" where
  look: "xs_slots s = None \<Longrightarrow> \<not> ex_stop (xs_ex s) \<Longrightarrow>
    exec_step s (s\<lparr>xs_slots := Some (t, get_incoming t (ex_conns (xs_ex s)), schedule_slots env t (xs_ex s))\<rparr>)"
| submit: "xs_slots s = Some (t, inc, Suc n) \<Longrightarrow> submit_slot t inc prio pool (xs_ex s) = (Some flag, ex') \<Longrightarrow>
    exec_step s (s\<lparr>xs_ex := ex', xs_slots := (if inc = [] then None else Some (t, inc, n)), xs_submitted := add_mset t (xs_submitted s)\<rparr>)"
| give_up: "xs_slots s = Some (t, inc, Suc n) \<Longrightarrow> submit_slot t inc prio pool (xs_ex s) = (None, ex') \<Longrightarrow>
    exec_step s (s\<lparr>xs_ex := ex', xs_slots := None\<rparr>)"
| no_more: "xs_slots s = Some (t, inc, 0) \<Longrightarrow> exec_step s (s\<lparr>xs_slots := None\<rparr>)"
| work: "t \<in># xs_submitted s \<Longrightarrow> \<forall>ff i. selected = Some (ff, i) \<longrightarrow> same_obj ff (conn (xs_ex s) i) \<Longrightarrow>
    start_work now selected pending env t (xs_ex s) = (w, ex') \<Longrightarrow>
    exec_step s (s\<lparr>xs_ex := ex', xs_submitted := xs_submitted s - {#t#}, xs_running := xs_running s @ (case w of None \<Rightarrow> [] | Some x \<Rightarrow> [x])\<rparr>)"
| attempt: "xs_running s = pre @ w # post \<Longrightarrow> run_attempt now mint outcome w (xs_ex s) = (w', ex') \<Longrightarrow>
    exec_step s (s\<lparr>xs_ex := ex', xs_running := pre @ (case w' of None \<Rightarrow> [] | Some x \<Rightarrow> [x]) @ post\<rparr>)"
| control: "control_step (xs_ex s) ex' \<Longrightarrow> exec_step s (s\<lparr>xs_ex := ex'\<rparr>)"
| shutdown: "xs_submitted s = gone + rest \<Longrightarrow>
    exec_step s (s\<lparr>xs_ex := stop_executor now env (xs_ex s), xs_slots := None, xs_submitted := rest, xs_cancelled := xs_cancelled s + gone\<rparr>)"

definition xs_workers :: "exec_system \<Rightarrow> string multiset" where
  "xs_workers s = xs_submitted s + mset (map wk_task (xs_running s)) + xs_cancelled s"

definition pending_slots :: "exec_system \<Rightarrow> string \<Rightarrow> int" where
  "pending_slots s t = (case xs_slots s of None \<Rightarrow> 0 | Some (u, inc, n) \<Rightarrow> if u = t then int n else 0)"

definition xs_inv :: "exec_system \<Rightarrow> bool" where
  "xs_inv s \<longleftrightarrow> exec_wf (xs_ex s) \<and> (\<forall>t. dict_get (ex_in_flight (xs_ex s)) t 0 = int (count (xs_workers s) t)) \<and>
     (\<forall>t. dict_get (ex_in_flight (xs_ex s)) t 0 + pending_slots s t \<le> max 0 (dict_get (ex_max_instances (xs_ex s)) t 1))"

text \<open>What a built executor starts from, also after a rebuild.\<close>

definition xs_start :: "exec_system \<Rightarrow> bool" where
  "xs_start s \<longleftrightarrow> exec_wf (xs_ex s) \<and> ex_in_flight (xs_ex s) = [] \<and> xs_slots s = None \<and> xs_submitted s = {#} \<and> xs_running s = [] \<and> xs_cancelled s = {#}"

text \<open>A cancelled submission is never given back, and the limits do not change.\<close>

definition xs_grows :: "exec_system \<Rightarrow> exec_system \<Rightarrow> bool" where
  "xs_grows s s' \<longleftrightarrow> xs_cancelled s \<subseteq># xs_cancelled s' \<and> ex_max_instances (xs_ex s') = ex_max_instances (xs_ex s)"

lemma xs_invI:
  assumes "xs_inv s" "keeps (xs_ex s) ex" "xs_ex s' = ex" "xs_workers s' = xs_workers s" "\<And>t. pending_slots s' t \<le> pending_slots s t"
  shows "xs_inv s'"
  using assms unfolding xs_inv_def keeps_def by (metis add_left_mono order_trans)

lemma xs_invD:
  assumes "xs_inv s"
  shows "dict_get (ex_in_flight (xs_ex s)) t 0 = int (count (xs_workers s) t)"
    "dict_get (ex_in_flight (xs_ex s)) t 0 + pending_slots s t \<le> max 0 (dict_get (ex_max_instances (xs_ex s)) t 1)" "exec_wf (xs_ex s)"
  using assms unfolding xs_inv_def by blast+

lemma pending_nonneg: "0 \<le> pending_slots s t"
  by (simp add: pending_slots_def split: option.split)

lemma pending_none: "xs_slots s' = None \<Longrightarrow> pending_slots s' t \<le> pending_slots s t"
  by (simp add: pending_slots_def split: option.split)

lemma finish_wf: "exec_wf ex \<Longrightarrow> exec_wf (finish t ex)" "exec_wf ex \<Longrightarrow> exec_wf (bump_in_flight t ex)"
  by (simp_all add: exec_wf_def finish_def bump_in_flight_def distinct_update)

lemma finish_limits [simp]: "ex_max_instances (finish t ex) = ex_max_instances ex" "ex_max_instances (bump_in_flight t ex) = ex_max_instances ex"
  by (simp_all add: finish_def bump_in_flight_def)

lemma in_flight_bump: "dict_get (ex_in_flight (bump_in_flight t ex)) u 0 = dict_get (ex_in_flight ex) u 0 + (if u = t then 1 else 0)"
  by (simp add: bump_in_flight_def)

lemma in_flight_finish:
  "0 < dict_get (ex_in_flight ex) t 0 \<Longrightarrow> dict_get (ex_in_flight (finish t ex)) u 0 = dict_get (ex_in_flight ex) u 0 - (if u = t then 1 else 0)"
proof -
  assume p: "0 < dict_get (ex_in_flight ex) t 0"
  then have "dict_get (ex_in_flight ex) t 1 = dict_get (ex_in_flight ex) t 0" by (auto simp: dict_get_def split: option.splits)
  with p show ?thesis by (simp add: finish_def)
qed

text \<open>A worker that ends gives its slot back; the state it leaves is that of \<open>ex\<close> up to \<open>keeps\<close>.\<close>

lemma xs_inv_finish:
  assumes "xs_inv s" "keeps (xs_ex s) ex" "xs_ex s' = finish t ex" "add_mset t (xs_workers s') = xs_workers s" "xs_slots s' = xs_slots s"
  shows "xs_inv s'"
proof -
  have fl: "ex_in_flight ex = ex_in_flight (xs_ex s)" and lim: "ex_max_instances ex = ex_max_instances (xs_ex s)" and wf: "exec_wf ex"
    using assms(1,2) by (auto simp: keeps_def xs_inv_def)
  have n: "dict_get (ex_in_flight (xs_ex s)) u 0 = int (count (xs_workers s) u)" for u using assms(1) by (simp add: xs_inv_def)
  have c: "count (xs_workers s) u = count (xs_workers s') u + (if u = t then 1 else 0)" for u
    unfolding assms(4) [symmetric] by simp
  then have pos: "0 < dict_get (ex_in_flight ex) t 0" using n [of t] by (simp add: fl)
  have d: "dict_get (ex_in_flight (xs_ex s')) u 0 = int (count (xs_workers s') u)" for u
    using in_flight_finish [OF pos, of u] n [of u] c [of u] by (simp add: assms(3) fl)
  have "dict_get (ex_in_flight (xs_ex s')) u 0 + pending_slots s' u \<le> max 0 (dict_get (ex_max_instances (xs_ex s')) u 1)" for u
  proof -
    have "dict_get (ex_in_flight (xs_ex s)) u 0 + pending_slots s u \<le> max 0 (dict_get (ex_max_instances (xs_ex s)) u 1)"
      using xs_invD(2) [OF assms(1)] .
    moreover have "pending_slots s' u = pending_slots s u" using assms(5) by (simp add: pending_slots_def)
    ultimately show ?thesis using d [of u] n [of u] c [of u] assms(3) lim by simp
  qed
  then show ?thesis using d finish_wf(1) [OF wf] assms(3) by (simp add: xs_inv_def)
qed

lemma slots_within:
  assumes "schedule_slots env t ex = Suc n"
  shows "dict_get (ex_in_flight ex) t 0 + int (Suc n) \<le> dict_get (ex_max_instances ex) t 1"
  using assms by (auto simp: schedule_slots_def Let_def split: if_splits)

lemma submit_slot_cases:
  assumes "submit_slot t inc prio pool ex = (r, ex')"
  obtains (none) "r = None" "ex' = ex" | (refused) "r = None" "ex' = finish t (bump_in_flight t ex)" | (sent) flag where "r = Some flag" "ex' = bump_in_flight t ex"
  using assms by (auto simp: submit_slot_def split: if_splits)

lemma workers_simps [simp]:
  "xs_workers (s\<lparr>xs_ex := ex\<rparr>) = xs_workers s" "xs_workers (s\<lparr>xs_slots := sl\<rparr>) = xs_workers s"
  "xs_workers (s\<lparr>xs_submitted := sub\<rparr>) = sub + mset (map wk_task (xs_running s)) + xs_cancelled s"
  "xs_workers (s\<lparr>xs_running := run\<rparr>) = xs_submitted s + mset (map wk_task run) + xs_cancelled s"
  by (simp_all add: xs_workers_def)

lemma xs_inv_submit:
  assumes "xs_inv s" "xs_slots s = Some (t, inc, Suc n)"
  shows "xs_inv (s\<lparr>xs_ex := bump_in_flight t (xs_ex s), xs_slots := (if inc = [] then None else Some (t, inc, n)),
    xs_submitted := add_mset t (xs_submitted s)\<rparr>)" (is "xs_inv ?s")
proof -
  have w: "xs_workers ?s = add_mset t (xs_workers s)" by (simp add: xs_workers_def)
  have n: "dict_get (ex_in_flight (xs_ex s)) u 0 = int (count (xs_workers s) u)"
    and l: "dict_get (ex_in_flight (xs_ex s)) u 0 + pending_slots s u \<le> max 0 (dict_get (ex_max_instances (xs_ex s)) u 1)" for u
    using xs_invD [OF assms(1)] by blast+
  have p: "pending_slots ?s u + (if u = t then 1 else 0) \<le> pending_slots s u" for u using assms(2) by (simp add: pending_slots_def)
  have ex: "xs_ex ?s = bump_in_flight t (xs_ex s)" by simp
  have "dict_get (ex_in_flight (xs_ex ?s)) u 0 + pending_slots ?s u \<le> max 0 (dict_get (ex_max_instances (xs_ex ?s)) u 1)" for u
    unfolding ex finish_limits in_flight_bump using l [of u] p [of u] by linarith
  moreover have "dict_get (ex_in_flight (xs_ex ?s)) u 0 = int (count (xs_workers ?s) u)" for u
    unfolding w using in_flight_bump [of t "xs_ex s" u] n [of u] by simp
  ultimately show ?thesis using assms(1) finish_wf(2) by (simp add: xs_inv_def)
qed

lemma xs_inv_give_up:
  assumes "xs_inv s" "xs_slots s = Some (t, inc, Suc n)"
  shows "xs_inv (s\<lparr>xs_ex := finish t (bump_in_flight t (xs_ex s)), xs_slots := None\<rparr>)"
proof -
  let ?mid = "s\<lparr>xs_ex := bump_in_flight t (xs_ex s), xs_slots := None, xs_submitted := add_mset t (xs_submitted s)\<rparr>"
  have "xs_inv (s\<lparr>xs_ex := bump_in_flight t (xs_ex s), xs_slots := (if inc = [] then None else Some (t, inc, n)), xs_submitted := add_mset t (xs_submitted s)\<rparr>)"
    using assms by (rule xs_inv_submit)
  then have "xs_inv ?mid" by (rule xs_invI [OF _ keeps_refl]) (auto simp: xs_workers_def pending_slots_def)
  then show ?thesis by (rule xs_inv_finish [OF _ keeps_refl]) (simp_all add: xs_workers_def)
qed

lemma keeps_begin_work:
  assumes "begin_work now env t source input ex = (w, ex')"
  obtains (ends) ex1 where "w = None" "ex' = finish t ex1" "keeps ex ex1" | (runs) x where "w = Some x" "wk_task x = t" "ex' = ex"
  using assms by (auto simp: begin_work_def Let_def keepsI split: if_splits)

lemma start_work_cases:
  assumes "start_work now selected pending env t ex = (w, ex')" "\<forall>ff i. selected = Some (ff, i) \<longrightarrow> same_obj ff (conn ex i)"
  obtains (ends) ex1 where "w = None" "ex' = finish t ex1" "keeps ex ex1" | (runs) x where "w = Some x" "wk_task x = t" "keeps ex ex'"
proof -
  have k: "keeps ex (snd (take_input selected pending t ex))" using assms(2) by (rule keeps_take_input)
  show thesis
  proof (cases "take_input selected pending t ex")
    case (Pair r ex1)
    with k have k: "keeps ex ex1" by simp
    show thesis
    proof (cases r)
      case None
      then show thesis using assms(1) Pair k by (auto simp: start_work_def intro: ends)
    next
      case (Some q)
      obtain source input where "q = (source, input)" by fastforce
      then have b: "begin_work now env t source input ex1 = (w, ex')" using assms(1) Pair Some by (simp add: start_work_def)
      then show thesis by (rule keeps_begin_work) (use k ends runs in \<open>auto intro: keeps_trans\<close>)
    qed
  qed
qed

lemma run_attempt_cases:
  assumes "run_attempt now mint outcome w ex = (w', ex')"
  obtains (ends) ex1 where "w' = None" "ex' = finish (wk_task w) ex1" "keeps ex ex1" | (retries) x where "w' = Some x" "wk_task x = wk_task w" "keeps ex ex'"
proof (cases "ex_stop ex")
  case True
  then show thesis using assms ends [of ex] by (simp add: run_attempt_def)
next
  case False
  let ?r = "case outcome of Returns results \<Rightarrow> commit now mint (wk_task w) (wk_source w) (wk_input w) results ex | Fails f \<Rightarrow> (Some f, ex)"
  obtain failure ex1 where r: "?r = (failure, ex1)" by fastforce
  have k: "keeps ex ex1"
  proof (cases outcome)
    case (Returns results)
    then show ?thesis using r keeps_commit [of ex now mint "wk_task w" "wk_source w" "wk_input w" results] by simp
  qed (use r in simp)
  show thesis
  proof (cases failure)
    case None
    let ?ex = "ex1\<lparr>ex_retries := AList.update (wk_task w) 0 (ex_retries ex1),
        ex_stop := (ex_stop ex1 \<or> (case outcome of Returns results \<Rightarrow> stop_requested results | Fails _ \<Rightarrow> False))\<rparr>"
    have "keeps ex ?ex" using k by (rule keeps_trans) (simp add: keepsI)
    then show thesis using None assms r False ends [of ?ex] by (simp add: run_attempt_def Let_def)
  next
    case (Some f)
    have "keeps ex (rollback now mint w f ex1)" using k keeps_rollback by (rule keeps_trans)
    then show thesis using Some assms r False k ends retries by (auto simp: run_attempt_def Let_def split: if_splits)
  qed
qed

lemma keeps_stop: "keeps ex (stop_executor now env ex)"
  by (rule keepsI) (simp_all add: stop_executor_def save_current_def split: option.split sum.split)

lemma exec_step_inv: "exec_step s s' \<Longrightarrow> xs_inv s \<Longrightarrow> xs_inv s'"
proof (induction rule: exec_step.induct)
  case (look s t env)
  let ?s = "s\<lparr>xs_slots := Some (t, get_incoming t (ex_conns (xs_ex s)), schedule_slots env t (xs_ex s))\<rparr>"
  have "dict_get (ex_in_flight (xs_ex s)) u 0 + pending_slots ?s u \<le> max 0 (dict_get (ex_max_instances (xs_ex s)) u 1)" for u
  proof (cases "u = t \<and> schedule_slots env t (xs_ex s) \<noteq> 0")
    case True
    then obtain n where "schedule_slots env t (xs_ex s) = Suc n" by (cases "schedule_slots env t (xs_ex s)") auto
    then show ?thesis using slots_within True by (fastforce simp: pending_slots_def)
  next
    case False
    then have "pending_slots ?s u = 0" by (auto simp: pending_slots_def)
    then show ?thesis using xs_invD(2) [OF look.prems, of u] look.hyps(1) by (simp add: pending_slots_def)
  qed
  then show ?case using look.prems unfolding xs_inv_def by simp
next
  case (submit s t inc n prio pool flag ex')
  then have "ex' = bump_in_flight t (xs_ex s)" by (auto elim: submit_slot_cases)
  then show ?case using xs_inv_submit submit by blast
next
  case (give_up s t inc n prio pool ex')
  from give_up.hyps(2) show ?case
  proof (cases rule: submit_slot_cases)
    case none
    show ?thesis by (rule xs_invI [OF give_up.prems keeps_refl]) (simp_all add: none pending_none)
  next
    case refused
    then show ?thesis using xs_inv_give_up [OF give_up.prems give_up.hyps(1)] by simp
  qed simp
next
  case (no_more s t inc)
  show ?case by (rule xs_invI [OF no_more.prems keeps_refl]) (simp_all add: pending_none)
next
  case (work t s selected now pending env w ex')
  from work.hyps(3,2) show ?case
  proof (cases rule: start_work_cases)
    case (ends ex1)
    then show ?thesis using work.hyps(1) by (intro xs_inv_finish [OF work.prems ends(3)]) (auto simp: xs_workers_def)
  next
    case (runs x)
    then show ?thesis using work.hyps(1) by (intro xs_invI [OF work.prems runs(3)]) (simp_all add: xs_workers_def pending_slots_def)
  qed
next
  case (attempt s pre w post now mint outcome w' ex')
  from attempt.hyps(2) show ?case
  proof (cases rule: run_attempt_cases)
    case (ends ex1)
    then show ?thesis using attempt.hyps(1) by (intro xs_inv_finish [OF attempt.prems ends(3)]) (auto simp: xs_workers_def)
  next
    case (retries x)
    then show ?thesis using attempt.hyps(1) by (intro xs_invI [OF attempt.prems retries(3)]) (auto simp: xs_workers_def pending_slots_def)
  qed
next
  case (control s ex')
  show ?case by (rule xs_invI [OF control.prems control_keeps [OF control.hyps]]) (simp_all add: pending_slots_def)
next
  case (shutdown s gone rest now env)
  show ?case by (rule xs_invI [OF shutdown.prems keeps_stop]) (simp_all add: shutdown.hyps xs_workers_def pending_none)
qed

lemma exec_step_grows: "exec_step s s' \<Longrightarrow> xs_grows s s'"
proof (induction rule: exec_step.induct)
  case (submit s t inc n prio pool flag ex')
  then show ?case by (auto elim!: submit_slot_cases simp: xs_grows_def)
next
  case (give_up s t inc n prio pool ex')
  then show ?case by (auto elim!: submit_slot_cases simp: xs_grows_def)
next
  case (work t s selected now pending env w ex')
  from work.hyps(3,2) show ?case by (cases rule: start_work_cases) (auto simp: xs_grows_def keeps_def)
next
  case (attempt s pre w post now mint outcome w' ex')
  from attempt.hyps(2) show ?case by (cases rule: run_attempt_cases) (auto simp: xs_grows_def keeps_def)
next
  case (control s ex')
  then show ?case using control_keeps by (auto simp: xs_grows_def keeps_def)
next
  case (shutdown s gone rest now env)
  then show ?case using keeps_stop [of "xs_ex s" now env] by (auto simp: xs_grows_def keeps_def)
qed (auto simp: xs_grows_def)

interpretation xsys: evolving_store xs_start exec_step xs_inv xs_grows
proof
  show "xs_inv s" if "xs_start s" for s
    using that by (auto simp: xs_start_def xs_inv_def xs_workers_def pending_slots_def dict_get_def)
  show "xs_inv s'" if "exec_step s s'" "xs_inv s" for s s' using that by (rule exec_step_inv)
  show "xs_grows s s" for s by (simp add: xs_grows_def)
  show "xs_grows s s''" if "xs_grows s s'" "xs_grows s' s''" for s s' s'' using that by (auto simp: xs_grows_def)
  show "xs_grows s s'" if "exec_step s s'" for s s' using that by (rule exec_step_grows)
qed

definition idle_system :: "executor \<Rightarrow> exec_system" where
  "idle_system ex = \<lparr>xs_ex = ex, xs_slots = None, xs_submitted = {#}, xs_running = [], xs_cancelled = {#}\<rparr>"

lemma build_tasks_frame:
  "ex_in_flight (fold (build_task now) tasks ex) = ex_in_flight ex" "ex_conns (fold (build_task now) tasks ex) = ex_conns ex"
  by (induction tasks arbitrary: ex) (auto simp: build_task_def)

lemma build_relation_conn_inv:
  assumes "build_relation dsize dbytes rel m = Inr m'" "\<forall>c \<in> set (cm_objs m). conn_inv c"
  shows "\<forall>c \<in> set (cm_objs m'). conn_inv c"
  using assms new_connection_inv by (auto simp: build_relation_def bind_res_Inr_iff add_connection_def Let_def)

lemma build_wf:
  assumes "build now tasks relations ex = (Inr u, ex')" "\<forall>c \<in> set (cm_objs (ex_conns ex)). conn_inv c" "distinct (dict_keys (ex_in_flight ex))"
  shows "exec_wf ex'" "ex_in_flight ex' = ex_in_flight ex"
proof -
  let ?reset = "(ex_conns ex)\<lparr>cm_connections := [], cm_by_source := [], cm_by_target := []\<rparr>"
  obtain m where m: "fold_res (build_relation 10000 104857600) relations ?reset = Inr m" "ex_conns ex' = m" "ex_in_flight ex' = ex_in_flight ex"
    using assms(1) by (auto simp: build_def Let_def build_from_flow_def build_tasks_frame split: sum.splits)
  have "cm_inv m" using build_fold [OF m(1) cm_reset_inv] by blast
  moreover have "\<forall>c \<in> set (cm_objs m). conn_inv c"
    by (rule fold_res_invariant [where I = "\<lambda>m. \<forall>c \<in> set (cm_objs m). conn_inv c", OF m(1)]) (use assms(2) build_relation_conn_inv in auto)
  ultimately show "exec_wf ex'" "ex_in_flight ex' = ex_in_flight ex" using m assms(3) by (simp_all add: exec_wf_def)
qed

lemma new_executor_start:
  assumes "new_executor now retries enabled cps workflow reserved tasks relations = (Inr u, ex)"
  shows "xs_start (idle_system ex)"
  using build_wf [OF assms [unfolded new_executor_def]] by (simp add: xs_start_def idle_system_def cm_init_def)

lemma quiescent_iff:
  assumes "exec_wf ex"
  shows "checkpoint_is_quiescent ex \<longleftrightarrow> (\<forall>t. dict_get (ex_in_flight ex) t 0 \<le> 0)"
proof -
  have m: "(t, n) \<in> set (ex_in_flight ex) \<longleftrightarrow> map_of (ex_in_flight ex) t = Some n" for t n
    using assms by (simp add: exec_wf_def map_of_eq_Some_iff)
  have "(\<exists>n. (t, n) \<in> set (ex_in_flight ex) \<and> n > 0) \<longleftrightarrow> dict_get (ex_in_flight ex) t 0 > 0" for t
    unfolding m dict_get_def by (simp split: option.split)
  then show ?thesis unfolding checkpoint_is_quiescent_def by (metis linorder_not_le prod.collapse snd_conv)
qed

text \<open>A source task, an executor for it, and a run in which its only worker waits in the pool and is cancelled.\<close>

definition demo_task :: task_spec where
  "demo_task = \<lparr>tk_type = ''source'', tk_max_instances = 1, tk_persistent = False, tk_config = [], tk_selects = False, tk_prioritize = None\<rparr>"

definition demo_executor :: executor where
  "demo_executor = snd (new_executor 0 1 None None False [] [(''a'', demo_task)] [])"

definition demo_env :: schedule_env where
  "demo_env = \<lparr>se_pending = True, se_priority_input = False, se_pool = (\<lambda>_. True)\<rparr>"

definition demo_save :: save_env where
  "demo_save = \<lparr>sv_stamp = [], sv_secs = 0, sv_writes = True, sv_data = Inr [], sv_isoformat = (\<lambda>_. [])\<rparr>"

lemmas demo_executor_defs = demo_executor_def new_executor_def build_def build_task_def demo_task_def build_from_flow_def cm_init_def

lemma demo_new: "new_executor 0 1 None None False [] [(''a'', demo_task)] [] = (Inr (), demo_executor)"
  by (simp add: demo_executor_defs Let_def)

definition demo_started :: executor where
  "demo_started = start_executor 0 (\<lambda>_. (0, [])) True demo_executor"

lemma demo_started_facts:
  "schedule_slots demo_env ''a'' demo_started = 1" "get_incoming ''a'' (ex_conns demo_started) = []" "ex_stop demo_started = False"
  "ex_in_flight demo_started = []" "ex_max_instances demo_executor = [(''a'', 1)]" "ex_checkpoints demo_started = None"
  by (simp_all add: demo_started_def start_executor_def recover_from_checkpoint_def demo_executor_defs schedule_slots_def is_runnable_def root_ready_def
      should_schedule_root_source_def enabled_root_def demo_env_def any_backpressured_def get_outgoing_def get_incoming_def dict_get_def register_task_def
      new_task_info_def start_state_def get_state_def jtruthy_def Let_def)

definition demo_waiting :: exec_system where
  "demo_waiting = (idle_system (bump_in_flight ''a'' demo_started))\<lparr>xs_submitted := {#''a''#}\<rparr>"

definition demo_cancelled :: exec_system where
  "demo_cancelled = (idle_system (stop_executor 0 demo_save (bump_in_flight ''a'' demo_started)))\<lparr>xs_cancelled := {#''a''#}\<rparr>"

lemma demo_cancelled_run: "exec_step\<^sup>*\<^sup>* (idle_system demo_executor) demo_waiting" "exec_step demo_waiting demo_cancelled"
proof -
  have a: "exec_step (idle_system demo_executor) (idle_system demo_started)"
    using exec_step.control [of "idle_system demo_executor" demo_started] control_step.start [of demo_executor 0 "\<lambda>_. (0, [])" True]
    by (simp add: idle_system_def demo_started_def)
  have b: "exec_step (idle_system demo_started) ((idle_system demo_started)\<lparr>xs_slots := Some (''a'', [], Suc 0)\<rparr>)"
    using exec_step.look [of "idle_system demo_started" "''a''" demo_env] demo_started_facts by (simp add: idle_system_def)
  have "submit_slot ''a'' [] False True demo_started = (Some False, bump_in_flight ''a'' demo_started)"
    by (simp add: submit_slot_def has_interactive_input_def)
  then have c: "exec_step ((idle_system demo_started)\<lparr>xs_slots := Some (''a'', [], Suc 0)\<rparr>) demo_waiting"
    using exec_step.submit [of "(idle_system demo_started)\<lparr>xs_slots := Some (''a'', [], Suc 0)\<rparr>" "''a''" "[]" 0 False True False]
    by (simp add: idle_system_def demo_waiting_def)
  show "exec_step\<^sup>*\<^sup>* (idle_system demo_executor) demo_waiting" using a b c by (meson converse_rtranclp_into_rtranclp r_into_rtranclp)
  show "exec_step demo_waiting demo_cancelled"
    using exec_step.shutdown [of demo_waiting "{#''a''#}" "{#}" 0 demo_save] by (simp add: demo_waiting_def demo_cancelled_def idle_system_def)
qed





end
