(* ===== verification/Executor_Outcomes.thy ===== *)
theory Executor_Outcomes
  imports Executor_Proofs
begin

section \<open>The continuous executor: what becomes of a FlowFile\<close>

text \<open>
  Where the FlowFile of a worker and the results of a task go: the attempts of one worker up to a commit or a rollback, the
  routing of results, the end of an idle flow, recovery from a checkpoint and the replacement of the flow.
\<close>

text \<open>The attempts of one worker while no other thread interferes; what is left of the outcomes is not used.\<close>

fun run_attempts :: "real \<Rightarrow> (nat \<Rightarrow> nat \<times> string) \<Rightarrow> attempt_outcome list \<Rightarrow> worker \<Rightarrow> executor \<Rightarrow> worker option \<times> executor" where
  "run_attempts now mint [] w ex = (Some w, ex)"
| "run_attempts now mint (out # outs) w ex =
     (case run_attempt now mint out w ex of
        (None, ex') \<Rightarrow> (None, ex')
      | (Some w', ex') \<Rightarrow> run_attempts now mint outs w' ex')"

subsection \<open>Failing attempts\<close>

definition retryable_failure :: "attempt_outcome \<Rightarrow> bool" where
  "retryable_failure out \<longleftrightarrow> (case out of Fails f \<Rightarrow> tf_retryable f \<noteq> Some False | Returns _ \<Rightarrow> False)"

lemma run_attempt_retries:
  assumes "\<not> ex_stop ex" "wk_attempts w \<le> 0 \<or> wk_attempt w + 1 < wk_attempts w" "retryable_failure out"
  shows "run_attempt now mint out w ex = (Some (w\<lparr>wk_attempt := wk_attempt w + 1\<rparr>), ex)"
  using assms by (auto simp: retryable_failure_def run_attempt_def can_retry_def Let_def split: attempt_outcome.splits)

lemma run_attempts_retry:
  assumes "\<not> ex_stop ex" "list_all retryable_failure outs" "wk_attempts w \<le> 0 \<or> wk_attempt w + int (length outs) < wk_attempts w"
  shows "run_attempts now mint (outs @ rest) w ex = run_attempts now mint rest (w\<lparr>wk_attempt := wk_attempt w + int (length outs)\<rparr>) ex"
  using assms(2,3)
proof (induction outs arbitrary: w)
  case Nil
  then show ?case by simp
next
  case (Cons out outs)
  have "run_attempt now mint out w ex = (Some (w\<lparr>wk_attempt := wk_attempt w + 1\<rparr>), ex)"
    using Cons.prems assms(1) by (intro run_attempt_retries) auto
  then show ?case using Cons.IH [of "w\<lparr>wk_attempt := wk_attempt w + 1\<rparr>"] Cons.prems by (simp add: algebra_simps)
qed

lemma run_attempt_gives_up:
  assumes "\<not> ex_stop ex" "\<not> can_retry w (wk_attempt w + 1) f"
  shows "run_attempt now mint (Fails f) w ex = (None, finish (wk_task w) (rollback now mint w f ex))"
  using assms by (simp add: run_attempt_def Let_def)

lemma set_error_get_state:
  "get_state u (snd (set_error now t msg m)) = (if u = t \<and> get_state t m \<noteq> None then Some ERROR else get_state u m)"
  by (auto simp: set_error_def get_state_def update_conv' split: option.split)

lemma discard_failed_facts:
  "ex_conns (discard_failed now w f ex) = ex_conns ex"
  "ex_failures (discard_failed now w f ex) = ex_failures ex @ [\<lparr>fc_task = wk_task w, fc_error = tf_message f,
      fc_code = (if tf_code f = [] then ''task_failed'' else tf_code f), fc_type = tf_type f, fc_retryable = (tf_retryable f = Some True),
      fc_flowfile = wk_checkpoint w\<rparr>]"
  "dict_get (ex_retries (discard_failed now w f ex)) (wk_task w) 0 = dict_get (ex_retries ex) (wk_task w) 0 + 1"
  "get_state u (ex_states (discard_failed now w f ex)) =
     (if u = wk_task w \<and> FAILURE_LIMIT \<le> dict_get (ex_retries ex) (wk_task w) 0 + 1 \<and> get_state u (ex_states ex) \<noteq> None then Some ERROR
      else get_state u (ex_states ex))"
  by (auto simp: discard_failed_def Let_def set_error_get_state)

text \<open>
  C10: A FlowFile whose task keeps failing is given up after exactly the configured number of attempts, and never with a limit of
  zero; without a failure edge it is then in no queue any more (unless it carries a web request, which is answered): it is recorded
  with the error and the copy taken before the first attempt, the worker's slot is given back, and the task goes to the error
  state at the fifth failure in a row and keeps its state before.  A stop between two attempts drops the FlowFile without a record.\<close>

theorem failing_flowfile_discarded:
  assumes "\<not> ex_stop ex" "wk_attempt w = 0" "list_all retryable_failure outs" "tf_retryable f \<noteq> Some False"
    and "int (length outs) + 1 = wk_attempts w" "filter (\<lambda>i. c_relationship (conn ex i) = ''failure'') (get_outgoing (wk_task w) (ex_conns ex)) = []"
    and "case wk_input w of None \<Rightarrow> True | Some ff \<Rightarrow> \<not> truthy_attribute ff ''http.request.id''"
  shows "(\<exists>ex'. run_attempts now mint (outs @ [Fails f]) w ex = (None, ex') \<and> ex_conns ex' = ex_conns ex \<and>
      ex_failures ex' = ex_failures ex @ [\<lparr>fc_task = wk_task w, fc_error = tf_message f, fc_code = (if tf_code f = [] then ''task_failed'' else tf_code f),
        fc_type = tf_type f, fc_retryable = (tf_retryable f = Some True), fc_flowfile = wk_checkpoint w\<rparr>] \<and>
      get_state (wk_task w) (ex_states ex') = (if 4 \<le> dict_get (ex_retries ex) (wk_task w) 0 \<and> get_state (wk_task w) (ex_states ex) \<noteq> None
        then Some ERROR else get_state (wk_task w) (ex_states ex))) \<and>
    run_attempts now mint (outs @ [Fails f]) (w\<lparr>wk_attempts := 0\<rparr>) ex = (Some (w\<lparr>wk_attempts := 0, wk_attempt := wk_attempts w\<rparr>), ex) \<and>
    run_attempts now mint (out # outs) w (ex\<lparr>ex_stop := True\<rparr>) = (None, finish (wk_task w) (ex\<lparr>ex_stop := True\<rparr>))"
proof -
  let ?w = "w\<lparr>wk_attempt := int (length outs)\<rparr>"
  have "run_attempts now mint (outs @ [Fails f]) w ex = run_attempts now mint [Fails f] ?w ex"
    using run_attempts_retry [OF assms(1,3), of w] assms(2,5) by simp
  also have "\<dots> = (None, finish (wk_task w) (rollback now mint ?w f ex))"
    using run_attempt_gives_up [OF assms(1), of ?w f] assms(5) by (simp add: can_retry_def)
  also have "rollback now mint ?w f ex = discard_failed now ?w f ex"
    using assms(6,7) by (simp add: rollback_def error_response_def Let_def split: option.splits)
  finally have "\<exists>ex'. run_attempts now mint (outs @ [Fails f]) w ex = (None, ex') \<and> ex_conns ex' = ex_conns ex \<and>
      ex_failures ex' = ex_failures ex @ [\<lparr>fc_task = wk_task w, fc_error = tf_message f, fc_code = (if tf_code f = [] then ''task_failed'' else tf_code f),
        fc_type = tf_type f, fc_retryable = (tf_retryable f = Some True), fc_flowfile = wk_checkpoint w\<rparr>] \<and>
      get_state (wk_task w) (ex_states ex') = (if 4 \<le> dict_get (ex_retries ex) (wk_task w) 0 \<and> get_state (wk_task w) (ex_states ex) \<noteq> None
        then Some ERROR else get_state (wk_task w) (ex_states ex))"
    by (intro exI) (auto simp: finish_def discard_failed_facts FAILURE_LIMIT_def)
  moreover have all: "list_all retryable_failure (outs @ [Fails f])" using assms(3,4) by (simp add: retryable_failure_def)
  have "run_attempts now mint (outs @ [Fails f]) (w\<lparr>wk_attempts := 0\<rparr>) ex = (Some (w\<lparr>wk_attempts := 0, wk_attempt := wk_attempts w\<rparr>), ex)"
    using run_attempts_retry [OF assms(1) all, of "w\<lparr>wk_attempts := 0\<rparr>" now mint "[]"] assms(2,5) by simp
  moreover have "run_attempts now mint (out # outs) w (ex\<lparr>ex_stop := True\<rparr>) = (None, finish (wk_task w) (ex\<lparr>ex_stop := True\<rparr>))"
    by (simp add: run_attempt_def Let_def)
  ultimately show ?thesis by blast
qed

definition demo_failure :: task_failure where
  "demo_failure = \<lparr>tf_message = ''boom'', tf_code = [], tf_type = ''TaskError'', tf_retryable = None\<rparr>"

definition demo_worker :: worker where
  "demo_worker = \<lparr>wk_task = ''a'', wk_source = None, wk_input = Some (bytes_ff 0 [1]), wk_checkpoint = Some (bytes_ff 1 [1]), wk_attempts = 2, wk_attempt = 0\<rparr>"

lemma demo_executor_facts:
  "\<not> ex_stop demo_executor" "ex_conns demo_executor = cm_init" "ex_failures demo_executor = []" "get_outgoing t (ex_conns demo_executor) = []"
  by (simp_all add: demo_executor_defs get_outgoing_def dict_get_def Let_def)

theorem failing_flowfile_discarded_witness:
  "\<exists>ex'. run_attempts 0 (\<lambda>n. (n, [])) [Fails demo_failure, Fails demo_failure] demo_worker demo_executor = (None, ex') \<and>
     ex_conns ex' = cm_init \<and> map fc_flowfile (ex_failures ex') = [Some (bytes_ff 1 [1])]"
proof -
  have "\<not> truthy_attribute (bytes_ff 0 [1]) ''http.request.id''"
    by (simp add: truthy_attribute_def bytes_ff_def get_attribute_def)
  then show ?thesis
    using failing_flowfile_discarded [of demo_executor demo_worker "[Fails demo_failure]" demo_failure 0 "\<lambda>n. (n, [])" "Fails demo_failure"] demo_executor_facts
    by (auto simp: demo_worker_def demo_failure_def retryable_failure_def)
qed

subsection \<open>Results\<close>

text \<open>All FlowFiles in the queues, and the room a queue has for some FlowFiles with some bytes.\<close>

definition queued :: "executor \<Rightarrow> nat" where
  "queued ex = sum_list (map (\<lambda>c. length (c_contents c)) (cm_objs (ex_conns ex)))"

definition room_for :: "nat \<Rightarrow> nat \<Rightarrow> connection \<Rightarrow> bool" where
  "room_for n b c \<longleftrightarrow> int (length (c_contents c)) + int n \<le> c_max_queue_size c \<and> c_total_bytes c + int b \<le> c_max_queue_bytes c"

text \<open>Later states in which every queue holds at least what it held.\<close>

definition grows :: "executor \<Rightarrow> executor \<Rightarrow> bool" where
  "grows ex ex' \<longleftrightarrow> (exec_wf ex \<longrightarrow> exec_wf ex') \<and> length (cm_objs (ex_conns ex')) = length (cm_objs (ex_conns ex)) \<and>
     (\<forall>i. valid_conn ex i \<longrightarrow> mset (c_contents (conn ex i)) \<subseteq># mset (c_contents (conn ex' i)) \<and> c_relationship (conn ex' i) = c_relationship (conn ex i))"

lemma grows_refl [simp]: "grows ex ex" by (simp add: grows_def)

lemma grows_trans [trans]:
  assumes "grows a b" "grows b c"
  shows "grows a c"
proof -
  have "mset (c_contents (conn a i)) \<subseteq># mset (c_contents (conn c i)) \<and> c_relationship (conn c i) = c_relationship (conn a i)" if "valid_conn a i" for i
  proof -
    have "valid_conn b i" using that assms(1) by (simp add: grows_def valid_conn_def)
    with that assms show ?thesis by (auto simp: grows_def intro: subset_mset.order_trans)
  qed
  then show ?thesis using assms by (simp add: grows_def)
qed

lemma queued_put:
  assumes "valid_conn ex i"
  shows "queued (put_conn i c ex) + length (c_contents (conn ex i)) = queued ex + length (c_contents c)"
proof -
  have "sum_list (map f (xs[i := c])) + f (xs ! i) = sum_list (map f xs) + f c" if "i < length xs" for f :: "connection \<Rightarrow> nat" and xs
    using that by (induction xs arbitrary: i) (auto simp: nth_Cons split: nat.splits)
  then show ?thesis using assms by (simp add: queued_def put_conn_def valid_conn_def)
qed

lemma enqueue_relationship [simp]: "c_relationship (snd (enqueue now ff c)) = c_relationship c"
  using enqueue_ends [of c now ff] by (simp add: same_ends_def)

lemma grows_enqueue:
  assumes "exec_wf ex" "valid_conn ex i"
  shows "grows ex (put_conn i (snd (enqueue now ff (conn ex i))) ex)"
proof -
  have "mset (c_contents (conn ex i)) \<subseteq># mset (c_contents (snd (enqueue now ff (conn ex i))))"
    using wf_conn [OF assms] by (rule enqueue_cases [of _ now ff]) auto
  then show ?thesis using keeps_enqueue [of ex i now ff] assms by (auto simp: grows_def keeps_def conn_put_conn)
qed

lemma enqueue_accepted:
  assumes "exec_wf ex" "valid_conn ex i" "enqueue now ff (conn ex i) = (True, c)"
  shows "queued (put_conn i c ex) = queued ex + 1"
    "valid_conn ex s \<Longrightarrow> room_for (Suc n) (ff_size ff + b) (conn ex s) \<Longrightarrow> room_for n b (conn (put_conn i c ex) s)"
proof -
  from wf_conn [OF assms(1,2)] have c: "mset (c_contents c) = add_mset ff (mset (c_contents (conn ex i)))" "c_total_bytes c = c_total_bytes (conn ex i) + int (ff_size ff)"
    "c_max_queue_size c = c_max_queue_size (conn ex i)" "c_max_queue_bytes c = c_max_queue_bytes (conn ex i)"
    by (rule enqueue_cases [of _ now ff]; use assms(3) in simp)+
  then have len: "length (c_contents c) = Suc (length (c_contents (conn ex i)))" by (metis size_add_mset size_mset)
  then show "queued (put_conn i c ex) = queued ex + 1" using queued_put [OF assms(2), of c] by simp
  show "room_for n b (conn (put_conn i c ex) s)" if "valid_conn ex s" "room_for (Suc n) (ff_size ff + b) (conn ex s)"
    using that c len by (auto simp: room_for_def conn_put_conn [OF assms(2)])
qed

lemma enqueue_room:
  assumes "conn_inv c" "room_for (Suc n) (ff_size ff + b) c"
  shows "fst (enqueue now ff c)"
  using assms(1) by (rule enqueue_cases [of _ now ff]) (use assms(2) in \<open>auto simp: room_for_def\<close>)

lemma sent_size [simp]:
  "ff_size (set_attribute k v ff) = ff_size ff" "ff_size (clone oid pid ff) = ff_size ff" "ff_size (prioritized ex t ff) = ff_size ff"
  by (auto simp: ff_size_def set_attribute_def clone_def prioritized_def split: option.split)

text \<open>A result is sent to each of its connections: with room in the connection the input came from, every copy ends in a queue.\<close>

lemma send_copies_keeps:
  assumes "exec_wf ex" "valid_conn ex s" "\<forall>i \<in> set is. valid_conn ex i" "room_for (length is + m) (length is * ff_size ff + b) (conn ex s)"
  shows "\<exists>n' ex'. send_copies now mint (Some s) first ff is n ex = (True, n', ex') \<and> queued ex' = queued ex + length is \<and> grows ex ex' \<and>
    room_for m b (conn ex' s)"
  using assms
proof (induction "is" arbitrary: first ff n ex)
  case Nil
  then show ?case by simp
next
  case (Cons i "is")
  define copy where "copy = (if first then ff else clone (fst (mint n)) (snd (mint n)) ff)"
  define n1 where "n1 = (if first then n else Suc n)"
  define sent where "sent = prioritized ex (c_target_id (conn ex i)) copy"
  define ff1 where "ff1 = (if first then sent else ff)"
  have size: "ff_size sent = ff_size ff" "ff_size ff1 = ff_size ff" by (simp_all add: sent_def copy_def ff1_def)
  have room: "room_for (Suc (length is + m)) (ff_size sent + (length is * ff_size ff1 + b)) (conn ex s)" using Cons.prems(4) size by (simp add: algebra_simps)
  define j where "j = (if fst (enqueue now sent (conn ex i)) then i else s)"
  have j: "valid_conn ex j" "fst (enqueue now sent (conn ex j))"
    using Cons.prems(2,3) enqueue_room [OF wf_conn [OF Cons.prems(1,2)] room] by (auto simp: j_def)
  let ?ex = "put_conn j (snd (enqueue now sent (conn ex j))) ex"
  have step: "send_copies now mint (Some s) first ff (i # is) n ex = send_copies now mint (Some s) False ff1 is n1 ?ex"
  proof (cases "enqueue now sent (conn ex i)")
    case (Pair ok c)
    then show ?thesis
      by (cases first; cases ok) (simp_all add: j_def copy_def n1_def sent_def ff1_def Let_def)
  qed
  obtain c where c: "enqueue now sent (conn ex j) = (True, c)" using j(2) by (cases "enqueue now sent (conn ex j)") auto
  note acc = enqueue_accepted [OF Cons.prems(1) j(1) c]
  have g: "grows ex ?ex" using grows_enqueue [OF Cons.prems(1) j(1)] .
  have "\<exists>n' ex'. send_copies now mint (Some s) False ff1 is n1 ?ex = (True, n', ex') \<and> queued ex' = queued ?ex + length is \<and> grows ?ex ex' \<and>
      room_for m b (conn ex' s)"
    using g Cons.prems acc(2) [OF Cons.prems(2) room] c by (intro Cons.IH) (auto simp: grows_def)
  then show ?case using step acc(1) c grows_trans [OF g] by auto
qed

definition copies :: "executor \<Rightarrow> nat list \<Rightarrow> flowfile list \<Rightarrow> nat" where
  "copies ex outgoing results = sum_list (map (\<lambda>ff. length (matching_outputs ex outgoing ff)) results)"

definition copied_bytes :: "executor \<Rightarrow> nat list \<Rightarrow> flowfile list \<Rightarrow> nat" where
  "copied_bytes ex outgoing results = sum_list (map (\<lambda>ff. length (matching_outputs ex outgoing ff) * ff_size ff) results)"

lemma matching_outputs_grows:
  assumes "grows ex ex'" "\<forall>i \<in> set outgoing. valid_conn ex i"
  shows "matching_outputs ex' outgoing ff = matching_outputs ex outgoing ff"
proof -
  have "filter (\<lambda>i. c_relationship (conn ex' i) = rel) outgoing = filter (\<lambda>i. c_relationship (conn ex i) = rel) outgoing" for rel
    using assms by (intro filter_cong) (auto simp: grows_def)
  then show ?thesis by (simp add: matching_outputs_def Let_def)
qed

lemma matching_outputs_subset: "set (matching_outputs ex outgoing ff) \<subseteq> set outgoing"
  by (auto simp: matching_outputs_def Let_def)

lemma commit_results_keeps:
  assumes "exec_wf ex" "valid_conn ex s" "\<forall>i \<in> set outgoing. valid_conn ex i"
    and "room_for (copies ex outgoing results) (copied_bytes ex outgoing results) (conn ex s)"
  shows "\<exists>n' ex'. commit_results now mint (Some s) outgoing results n ex = (True, n', ex') \<and> queued ex' = queued ex + copies ex outgoing results \<and> grows ex ex'"
  using assms
proof (induction results arbitrary: n ex)
  case Nil
  then show ?case by (simp add: copies_def)
next
  case (Cons ff results)
  let ?m = "matching_outputs ex outgoing ff"
  obtain ff1 n1 where ff1: "(if length ?m > 1 \<and> \<not> truthy_attribute ff ''fragment.identifier''
      then (set_attribute ''fragment.identifier'' (snd (mint n)) ff, Suc n) else (ff, n)) = (ff1, n1)" by fastforce
  then have size: "ff_size ff1 = ff_size ff" by (auto split: if_splits)
  have valid: "\<forall>i \<in> set ?m. valid_conn ex i" using Cons.prems(3) matching_outputs_subset by blast
  have "room_for (length ?m + copies ex outgoing results) (length ?m * ff_size ff1 + copied_bytes ex outgoing results) (conn ex s)"
    using Cons.prems(4) by (simp add: copies_def copied_bytes_def size)
  from send_copies_keeps [OF Cons.prems(1,2) valid this] obtain n2 ex1 where sent: "send_copies now mint (Some s) True ff1 ?m n1 ex = (True, n2, ex1)"
    "queued ex1 = queued ex + length ?m" "grows ex ex1" "room_for (copies ex outgoing results) (copied_bytes ex outgoing results) (conn ex1 s)" by metis
  have same: "matching_outputs ex1 outgoing = matching_outputs ex outgoing" using matching_outputs_grows [OF sent(3) Cons.prems(3)] by auto
  have c: "copies ex1 outgoing results = copies ex outgoing results" "copied_bytes ex1 outgoing results = copied_bytes ex outgoing results"
    by (simp_all add: copies_def copied_bytes_def same)
  have "\<exists>n' ex'. commit_results now mint (Some s) outgoing results n2 ex1 = (True, n', ex') \<and> queued ex' = queued ex1 + copies ex1 outgoing results \<and> grows ex1 ex'"
    using sent(3,4) Cons.prems c by (intro Cons.IH) (auto simp: grows_def valid_conn_def)
  then obtain n' ex' where rest: "commit_results now mint (Some s) outgoing results n2 ex1 = (True, n', ex')" "queued ex' = queued ex1 + copies ex1 outgoing results"
    "grows ex1 ex'" by blast
  have "commit_results now mint (Some s) outgoing (ff # results) n ex = (True, n', ex')" using ff1 sent(1) rest(1) by simp
  moreover have "queued ex' = queued ex + copies ex outgoing (ff # results)" using rest(2) sent(2) c by (simp add: copies_def)
  ultimately show ?case using grows_trans [OF sent(3) rest(3)] by blast
qed

lemma send_copies_exit: "ex_exit (snd (snd (send_copies now mint source first ff is n ex))) = ex_exit ex"
  by (induction "is" arbitrary: first ff n ex) (auto simp: Let_def put_conn_def split: prod.split bool.split option.split)

lemma commit_results_exit: "ex_exit (snd (snd (commit_results now mint source outgoing results n ex))) = ex_exit ex"
proof (induction results arbitrary: n ex)
  case (Cons ff results)
  have "ex_exit (snd (snd (case send_copies now mint source True ff1 m n1 ex of
      (False, n2, ex1) \<Rightarrow> (False, n2, ex1) | (True, n2, ex1) \<Rightarrow> commit_results now mint source outgoing results n2 ex1))) = ex_exit ex" for ff1 m n1
    using send_copies_exit [of now mint source True ff1 m n1 ex] Cons.IH by (auto split: prod.split bool.split)
  then show ?case by (simp add: Let_def split: prod.split)
qed simp


text \<open>An output queue that is full and an input queue with room.\<close>

definition demo_input :: connection where
  "demo_input = new_connection ''s'' ''a'' ''success'' 5 100 FIFO ''priority'' 0"

definition demo_busy :: executor where
  "demo_busy = demo_executor\<lparr>ex_conns := add_connection demo_input demo_manager\<rparr>"

lemma demo_busy_facts:
  "exec_wf demo_busy" "valid_conn demo_busy 0" "valid_conn demo_busy 1" "get_outgoing ''a'' (ex_conns demo_busy) = [0]" "conn demo_busy 0 = demo_conn"
  "conn demo_busy 1 = demo_input" "c_contents demo_input = []" "queued demo_busy = 1"
proof -
  have ends: "c_source_id demo_conn = ''a''" "c_target_id demo_conn = ''b''" using demo_conn_facts(3) by (auto simp: conn_key_def)
  have init: "cm_inv cm_init" by (simp add: cm_inv_def cm_init_def get_outgoing_def get_incoming_def dict_get_def)
  have "cm_inv demo_manager" unfolding demo_manager_def using init by (rule add_connection_inv)
  then have "cm_inv (add_connection demo_input demo_manager)" by (rule add_connection_inv)
  moreover have objs: "cm_objs (ex_conns demo_busy) = [demo_conn, demo_input]"
    by (simp add: demo_busy_def demo_manager_def add_connection_def cm_init_def Let_def)
  moreover have "conn_inv demo_input" by (simp add: demo_input_def new_connection_inv)
  ultimately show "exec_wf demo_busy" using demo_conn_facts(1) by (simp add: exec_wf_def demo_busy_def demo_executor_defs Let_def)
  show "valid_conn demo_busy 0" "valid_conn demo_busy 1" "conn demo_busy 0 = demo_conn" "conn demo_busy 1 = demo_input" by (simp_all add: valid_conn_def objs)
  show "get_outgoing ''a'' (ex_conns demo_busy) = [0]"
    by (simp add: demo_busy_def demo_manager_def add_connection_def cm_init_def get_outgoing_def Let_def ends) (simp add: demo_input_def new_connection_def dict_get_def)
  show empty: "c_contents demo_input = []" by (simp add: demo_input_def new_connection_def)
  show "queued demo_busy = 1" by (simp add: queued_def objs empty demo_conn_facts(2))
qed


text \<open>
  Without that room a result is lost although the execution counts as a success: when the only output queue and the input
  queue are both full, the commit reports no error and leaves every queue as it was; and when the task has no input
  connection, the refusal is an error that makes the worker run the task again.\<close>

theorem refused_result_lost:
  assumes "exec_wf ex" "get_outgoing t (ex_conns ex) = [i]" "valid_conn ex s"
    and "c_max_queue_size (conn ex i) \<le> int (length (c_contents (conn ex i)))" "c_max_queue_size (conn ex s) \<le> int (length (c_contents (conn ex s)))"
  shows "(\<exists>ex'. commit now mint t (Some s) input [ff] ex = (None, ex') \<and> ex_conns ex' = ex_conns ex \<and> ex_exit ex' = ex_exit ex) \<and>
    commit now mint t None input [ff] ex = (Some no_source_error, ex)"
proof -
  have full: "enqueue now x (conn ex j) = (False, conn ex j)" if "valid_conn ex j" "c_max_queue_size (conn ex j) \<le> int (length (c_contents (conn ex j)))" for x j
    using wf_conn [OF assms(1) that(1)] by (rule enqueue_cases [of _ now x]) (use that(2) in simp_all)
  have "valid_conn ex i" using wf_valid(2) [OF assms(1), of i t] assms(2) by simp
  note full = full [OF this assms(4)] full [OF assms(3,5)]
  have m: "matching_outputs ex [i] x = [i]" for x by (simp add: matching_outputs_def Let_def)
  have "put_conn s (conn ex s) ex = ex" by (simp add: put_conn_def)
  then show ?thesis using assms(2) by (simp add: commit_def m full)
qed

theorem refused_result_lost_witness:
  "\<exists>ex'. commit 0 (\<lambda>n. (n, [])) ''a'' (Some 0) None [bytes_ff 5 [7]] demo_busy = (None, ex') \<and> ex_conns ex' = ex_conns demo_busy"
proof -
  have "c_max_queue_size demo_conn = 1" by (simp add: demo_conn_def tiny_enqueue) (simp add: tiny_def new_connection_def)
  then have "c_max_queue_size (conn demo_busy 0) \<le> int (length (c_contents (conn demo_busy 0)))" by (simp add: demo_busy_facts demo_conn_facts(2))
  then show ?thesis
    using refused_result_lost [OF demo_busy_facts(1,4,2), of 0 "\<lambda>n. (n, [])" None "bytes_ff 5 [7]"] by auto
qed

subsection \<open>Errors of a batch run and the end of an idle flow\<close>

text \<open>
  The errors a batch run reports name every task in the error state, in order, but never say what the error was: the message is
  looked up under a key that the dictionary of a task state does not have.\<close>

theorem batch_errors_unknown:
  "batch_errors isoformat ex = map (\<lambda>t. (t, JStr ''unknown'')) (get_tasks_by_state ERROR (ex_states ex))"
proof -
  have st: "jget (info_dict isoformat i) ''state'' = Some (JStr (state_value (ti_state i)))" and er: "jget (info_dict isoformat i) ''error'' = None" for i
    by (simp_all add: info_dict_def jget_def)
  have val: "state_value st = ''error'' \<longleftrightarrow> st = ERROR" for st by (cases st) auto
  show ?thesis
    by (simp add: batch_errors_def get_all_states_def get_tasks_by_state_def filter_map comp_def st er val jget_or_def case_prod_unfold)
qed

lemma schedule_slots_idle [simp]: "schedule_slots env t (ex\<lparr>ex_idle := k\<rparr>) = schedule_slots env t ex"
  by (simp add: schedule_slots_def root_ready_def should_schedule_root_source_def root_source_queue_size_def enabled_root_def Let_def cong: option.case_cong)

text \<open>No task can be scheduled, nothing is in flight and every queue is empty.\<close>

definition at_rest :: "(string \<Rightarrow> schedule_env) \<Rightarrow> executor \<Rightarrow> bool" where
  "at_rest env ex \<longleftrightarrow> (\<forall>t \<in> set (dict_keys (ex_tasks ex)). schedule_slots (env t) t ex = 0) \<and> checkpoint_is_quiescent ex \<and> all_empty (ex_conns ex) \<and>
     \<not> ex_persistent ex"

lemma pass_at_rest: "\<forall>t \<in> set ts. schedule_slots (env t) t ex = 0 \<Longrightarrow> scheduler_pass env ts ex = ([], ex)"
  by (induction ts) (simp_all add: schedule_task_def)

lemma cycle_at_rest:
  assumes "at_rest env ex" "\<not> ex_stop ex"
  shows "scheduler_cycle env False ex =
    ([], if ex_idle ex + 1 < 3 then ex\<lparr>ex_idle := ex_idle ex + 1\<rparr> else ex\<lparr>ex_idle := ex_idle ex + 1, ex_stop := True\<rparr>)"
  using assms pass_at_rest [of "dict_keys (ex_tasks ex)" env ex]
  by (simp add: scheduler_cycle_def at_rest_def idle_check_def checkpoint_is_quiescent_def AUTO_STOP_THRESHOLD_def)

lemma at_rest_idle [simp]: "at_rest env (ex\<lparr>ex_idle := k\<rparr>) = at_rest env ex"
  by (simp add: at_rest_def checkpoint_is_quiescent_def)

lemma cycles_at_rest:
  assumes "at_rest env ex" "\<not> ex_stop ex" "ex_idle ex + int n < 3"
  shows "((\<lambda>ex. snd (scheduler_cycle env False ex)) ^^ n) ex = ex\<lparr>ex_idle := ex_idle ex + int n\<rparr>"
  using assms(3)
proof (induction n)
  case 0
  then show ?case by simp
next
  case (Suc n)
  then have "((\<lambda>ex. snd (scheduler_cycle env False ex)) ^^ n) ex = ex\<lparr>ex_idle := ex_idle ex + int n\<rparr>" by simp
  then show ?case using cycle_at_rest [of env "ex\<lparr>ex_idle := ex_idle ex + int n\<rparr>"] assms(1,2) Suc.prems by (simp add: algebra_simps)
qed

lemma submit_slots_frame:
  "exec_wf ex \<Longrightarrow> exec_wf (snd (submit_slots t inc env k n ex)) \<and> ex_stop (snd (submit_slots t inc env k n ex)) = ex_stop ex"
proof (induction n arbitrary: k ex)
  case (Suc n)
  have stop: "ex_stop (finish t x) = ex_stop x" "ex_stop (bump_in_flight t x) = ex_stop x" for x by (simp_all add: finish_def bump_in_flight_def)
  obtain r ex1 where s: "submit_slot t inc (se_priority_input env) (se_pool env k) ex = (r, ex1)" by fastforce
  then have one: "exec_wf ex1 \<and> ex_stop ex1 = ex_stop ex" by (rule submit_slot_cases) (use Suc.prems in \<open>auto simp: finish_wf stop\<close>)
  then show ?case using s Suc.IH [of ex1 "Suc k"] by (auto split: option.split prod.split)
qed simp

lemma scheduler_pass_frame:
  "exec_wf ex \<Longrightarrow> exec_wf (snd (scheduler_pass env ts ex)) \<and> ex_stop (snd (scheduler_pass env ts ex)) = ex_stop ex"
proof (induction ts arbitrary: ex)
  case (Cons t ts)
  obtain flags ex1 where s: "schedule_task (env t) t ex = (flags, ex1)" by fastforce
  then have "exec_wf ex1 \<and> ex_stop ex1 = ex_stop ex"
    using submit_slots_frame [OF Cons.prems, of t "get_incoming t (ex_conns ex)" "env t" 0 "schedule_slots (env t) t ex"] by (simp add: schedule_task_def)
  then show ?case using s Cons.IH [of ex1] Cons.prems by (auto split: prod.split)
qed simp

lemma idle_check_stops:
  assumes "\<not> ex_stop ex" "ex_stop (idle_check parked ex)"
  shows "\<not> ex_persistent ex \<and> \<not> (\<exists>e \<in> set (ex_in_flight ex). snd e > 0) \<and> all_empty (ex_conns ex) \<and> \<not> parked \<and> 3 \<le> ex_idle ex + 1 \<and>
    idle_check parked ex = ex\<lparr>ex_idle := ex_idle ex + 1, ex_stop := True\<rparr>"
  using assms unfolding idle_check_def AUTO_STOP_THRESHOLD_def by (simp split: if_split_asm)



subsection \<open>One execution by hand\<close>

lemma put_conn_invalid: "\<not> valid_conn ex i \<Longrightarrow> put_conn i c ex = ex"
  by (simp add: put_conn_def valid_conn_def list_update_beyond)

lemma grows_enqueue_any: "exec_wf ex \<Longrightarrow> grows ex (put_conn i (snd (enqueue now ff (conn ex i))) ex)"
  using grows_enqueue put_conn_invalid by (cases "valid_conn ex i") auto

lemma send_copies_grows: "exec_wf ex \<Longrightarrow> grows ex (snd (snd (send_copies now mint source first ff is n ex)))"
proof (induction "is" arbitrary: first ff n ex)
  case Nil
  then show ?case by simp
next
  case (Cons i "is")
  have go: "grows ex (snd (snd (send_copies now mint source False ff' is n' (put_conn j (snd (enqueue now sent (conn ex j))) ex))))" for ff' n' j sent
  proof -
    have g: "grows ex (put_conn j (snd (enqueue now sent (conn ex j))) ex)" using Cons.prems by (rule grows_enqueue_any)
    then have "exec_wf (put_conn j (snd (enqueue now sent (conn ex j))) ex)" using Cons.prems by (simp add: grows_def)
    then show ?thesis using grows_trans [OF g Cons.IH] by blast
  qed
  have "grows ex (snd (snd (case enqueue now sent (conn ex i) of
      (True, c) \<Rightarrow> send_copies now mint source False ff1 is n1 (put_conn i c ex)
    | (False, _) \<Rightarrow> (case source of None \<Rightarrow> (False, n1, ex)
        | Some s \<Rightarrow> send_copies now mint source False ff1 is n1 (put_conn s (snd (enqueue now sent (conn ex s))) ex)))))" for sent ff1 n1
    using go [of ff1 n1 i sent] go [of ff1 n1 _ sent] by (cases "enqueue now sent (conn ex i)") (auto split: bool.split option.split)
  then show ?case by (simp add: Let_def split: prod.split)
qed

lemma commit_results_grows: "exec_wf ex \<Longrightarrow> grows ex (snd (snd (commit_results now mint source outgoing results n ex)))"
proof (induction results arbitrary: n ex)
  case Nil
  then show ?case by simp
next
  case (Cons ff results)
  have "grows ex (snd (snd (case send_copies now mint source True ff1 m n1 ex of
      (False, n2, ex1) \<Rightarrow> (False, n2, ex1) | (True, n2, ex1) \<Rightarrow> commit_results now mint source outgoing results n2 ex1)))" for ff1 m n1
  proof -
    obtain ok n2 ex1 where s: "send_copies now mint source True ff1 m n1 ex = (ok, n2, ex1)" by (metis prod.exhaust)
    then have g: "grows ex ex1" using send_copies_grows [OF Cons.prems, of now mint source True ff1 m n1] by simp
    then have "exec_wf ex1" using Cons.prems by (simp add: grows_def)
    then show ?thesis using g grows_trans [OF g Cons.IH] by (cases ok) (simp_all add: s)
  qed
  then show ?case by (simp add: Let_def split: prod.split)
qed

lemma commit_grows: "exec_wf ex \<Longrightarrow> grows ex (snd (commit now mint t source input results ex))"
proof -
  assume wf: "exec_wf ex"
  have "grows x (x\<lparr>ex_states := st\<rparr>)" "grows x (x\<lparr>ex_exit := e, ex_states := st\<rparr>)" for x st e by (simp_all add: grows_def exec_wf_def)
  moreover have "grows ex (snd (snd (commit_results now mint source (get_outgoing t (ex_conns ex)) results 0 ex)))" using wf by (rule commit_results_grows)
  ultimately show ?thesis by (auto simp: commit_def Let_def split: prod.split intro: grows_trans)
qed

lemma conn_peek_queued: "conn_peek c = Some ff \<Longrightarrow> conn_inv c \<Longrightarrow> ff \<in> set (c_contents c)"
proof -
  assume p: "conn_peek c = Some ff" and "conn_inv c"
  then have inv: "pq_inv (c_queue c)" by (simp add: conn_inv_def)
  show ?thesis
  proof (cases "pq_type (c_queue c) = PRIORITY_ATTRIBUTE")
    case True
    then show ?thesis using p pq_peek_priority inv by (auto simp: conn_peek_def split: list.splits)
  next
    case False
    then show ?thesis using p by (auto simp: conn_peek_def pq_peek_def pq_contents_def split: list.splits if_splits)
  qed
qed

lemma peek_first_queued:
  "peek_first is ex = Some (i, ff) \<Longrightarrow> i \<in> set is \<and> conn_peek (conn ex i) = Some ff"
  by (induction "is") (auto split: option.splits)

text \<open>
  Running a task once by hand does not consume its input: whatever the task returns, the FlowFile it was run on is still in its
  queue afterwards, so that the task will process it again.\<close>

theorem run_once_keeps_input:
  assumes "exec_wf ex" "peek_first (get_incoming t (ex_conns ex)) ex = Some (i, ff)" "run_once now mint outcome t ex = (r, ex')"
  shows "ff \<in> set (c_contents (conn ex' i)) \<and> (\<forall>j. valid_conn ex j \<longrightarrow> mset (c_contents (conn ex j)) \<subseteq># mset (c_contents (conn ex' j)))"
proof -
  have "grows ex (snd (commit now mint t source input results ex))" for source input results using assms(1) by (rule commit_grows)
  then have g: "grows ex ex'"
    using assms(3) by (auto simp: run_once_def Let_def split: option.splits attempt_outcome.splits prod.splits) (metis snd_conv)+
  have i: "valid_conn ex i" "conn_peek (conn ex i) = Some ff" using peek_first_queued [OF assms(2)] wf_valid(3) [OF assms(1)] by blast+
  then have "ff \<in> set (c_contents (conn ex i))" using conn_peek_queued wf_conn [OF assms(1)] by blast
  moreover have "set (c_contents (conn ex i)) \<subseteq> set (c_contents (conn ex' i))"
    using g i(1) by (metis grows_def set_mset_mono set_mset_mset)
  ultimately show ?thesis using g by (auto simp: grows_def)
qed

definition demo_once :: executor where
  "demo_once = demo_busy\<lparr>ex_tasks := [(''b'', demo_task)]\<rparr>"

theorem run_once_keeps_input_witness:
  "\<exists>ex'. run_once 0 (\<lambda>n. (n, [])) (\<lambda>_. Returns []) ''b'' demo_once = (Some (Inr []), ex') \<and> bytes_ff 0 [1, 2] \<in> set (c_contents (conn ex' 0))"
proof -
  have same: "ex_conns demo_once = ex_conns demo_busy" "ex_in_flight demo_once = ex_in_flight demo_busy" by (simp_all add: demo_once_def)
  have ends: "c_source_id demo_conn = ''a''" "c_target_id demo_conn = ''b''" using demo_conn_facts(3) by (auto simp: conn_key_def)
  have inc: "get_incoming ''b'' (ex_conns demo_once) = [0]" "get_outgoing ''b'' (ex_conns demo_once) = []"
    by (simp_all add: same demo_busy_def demo_manager_def add_connection_def cm_init_def get_incoming_def get_outgoing_def Let_def ends)
      (simp_all add: demo_input_def new_connection_def dict_get_def)
  have "conn_peek demo_conn = Some (bytes_ff 0 [1, 2])"
    by (simp add: demo_conn_def tiny_enqueue conn_peek_def pq_peek_def) (simp add: tiny_def new_connection_def pq_init_def)
  then have peek: "peek_first (get_incoming ''b'' (ex_conns demo_once)) demo_once = Some (0, bytes_ff 0 [1, 2])"
    unfolding inc by (simp add: same demo_busy_facts(5))
  have wf: "exec_wf demo_once" using demo_busy_facts(1) by (simp add: exec_wf_def same)
  obtain ex' where run: "run_once 0 (\<lambda>n. (n, [])) (\<lambda>_. Returns []) ''b'' demo_once = (Some (Inr []), ex')"
    by (simp add: run_once_def commit_def inc demo_once_def [unfolded demo_busy_def] Let_def)
  then show ?thesis using run_once_keeps_input [OF wf peek run] by blast
qed

end
