(* ===== verification/Executor_Update.thy ===== *)
theory Executor_Update
  imports Executor_Outcomes
begin

section \<open>The continuous executor: replacing the flow and recovery\<close>

text \<open>
  What the replacement of a flow keeps of the queues, and what a restarted executor gets back from the last checkpoint.
\<close>

subsection \<open>Handing FlowFiles back to a connection\<close>

lemma fold_requeue_frame:
  "same_ends c (fold requeue ffs c)" "c_paused (fold requeue ffs c) = c_paused c" "c_total_bytes (fold requeue ffs c) = c_total_bytes c + bytes_of ffs"
  by (induction ffs arbitrary: c) (auto simp: requeue_def same_ends_def)

text \<open>What fits is queued, the rest is dropped.\<close>

lemma fold_requeue_contents:
  assumes "pq_inv (c_queue c)"
  shows "mset (c_contents (fold requeue ffs c)) = mset (c_contents c) + mset (take (nat (pq_max_size (c_queue c) - int (length (c_contents c)))) ffs)"
  using assms
proof (induction ffs arbitrary: c)
  case Nil
  then show ?case by simp
next
  case (Cons ff ffs)
  have q: "c_queue (requeue ff c) = snd (pq_put ff (c_queue c))" by (simp add: requeue_def)
  show ?case
  proof (cases "int (length (c_contents c)) < pq_max_size (c_queue c)")
    case True
    then have p: "mset (c_contents (requeue ff c)) = add_mset ff (mset (c_contents c))" "pq_inv (c_queue (requeue ff c))"
      "pq_max_size (c_queue (requeue ff c)) = pq_max_size (c_queue c)"
      using pq.put_room [OF Cons.prems, of ff] by (simp_all add: q)
    have len: "length (c_contents (requeue ff c)) = Suc (length (c_contents c))" using p(1) by (metis size_add_mset size_mset)
    have "nat (pq_max_size (c_queue c) - int (length (c_contents c))) = Suc (nat (pq_max_size (c_queue c) - int (Suc (length (c_contents c)))))"
      using True by simp
    then show ?thesis using Cons.IH [OF p(2)] p(1,3) len by simp
  next
    case False
    then have "c_queue (requeue ff c) = c_queue c" using pq.put_full [OF Cons.prems, of ff] by (simp add: q)
    then show ?thesis using Cons.IH [of "requeue ff c"] Cons.prems False by simp
  qed
qed

subsection \<open>The queues before and after a rebuild\<close>

definition conn_id :: "executor \<Rightarrow> nat \<Rightarrow> string" where
  "conn_id ex i = connection_id (conn ex i)"

lemma saved_queues_exact:
  assumes "exec_wf ex" "distinct (map (conn_id ex) (cm_connections (ex_conns ex)))"
  shows "distinct (dict_keys (saved_queues ex))"
    "j \<in> set (cm_connections (ex_conns ex)) \<Longrightarrow> (conn_id ex j, c_contents (conn ex j)) \<in> set (saved_queues ex)"
proof -
  have peek: "conn_peek_all (queue_size (conn ex j)) (conn ex j) = c_contents (conn ex j)" if "j \<in> set (cm_connections (ex_conns ex))" for j
  proof -
    have inv: "pq_inv (c_queue (conn ex j))" using wf_conn [OF assms(1) wf_valid(1) [OF assms(1) that]] by (simp add: conn_inv_def)
    show ?thesis
    proof (cases "c_contents (conn ex j) = []")
      case True
      then show ?thesis by (simp add: conn_peek_all_def pq_peek_all_contents slice_to_def)
    next
      case False
      then have "1 \<le> pq_size (c_queue (conn ex j))" using pq_size_contents [OF inv] by (cases "c_contents (conn ex j)") auto
      then show ?thesis using pq_size_contents [OF inv] by (simp add: conn_peek_all_def queue_size_def pq_peek_all_take)
    qed
  qed
  let ?f = "\<lambda>i. AList.update (conn_id ex i) (conn_peek_all (queue_size (conn ex i)) (conn ex i))"
  have "distinct (dict_keys d) \<Longrightarrow> distinct (dict_keys (fold ?f is d))" for "is" d by (induction "is" arbitrary: d) (simp_all add: distinct_update)
  then show dist: "distinct (dict_keys (saved_queues ex))" by (simp add: saved_queues_def conn_id_def)
  have other: "k \<notin> conn_id ex ` set is \<Longrightarrow> map_of (fold ?f is d) k = map_of d k" for "is" d k
    by (induction "is" arbitrary: d) (auto simp: update_conv')
  have "j \<in> set is \<Longrightarrow> distinct (map (conn_id ex) is) \<Longrightarrow> map_of (fold ?f is d) (conn_id ex j) = Some (conn_peek_all (queue_size (conn ex j)) (conn ex j))" for "is" d
  proof (induction "is" arbitrary: d)
    case (Cons i "is")
    then show ?case using other [of "conn_id ex j" "is" "?f i d"] by (cases "j \<in> set is") (auto simp: update_conv')
  qed simp
  then have "map_of (saved_queues ex) (conn_id ex j) = Some (c_contents (conn ex j))" if "j \<in> set (cm_connections (ex_conns ex))"
    using that assms(2) peek [OF that] by (simp add: saved_queues_def conn_id_def)
  then show "j \<in> set (cm_connections (ex_conns ex)) \<Longrightarrow> (conn_id ex j, c_contents (conn ex j)) \<in> set (saved_queues ex)" using map_of_SomeD by fastforce
qed

text \<open>The identities of the connections do not change while their queues are filled.\<close>

definition same_ids :: "executor \<Rightarrow> executor \<Rightarrow> bool" where
  "same_ids ex ex' \<longleftrightarrow> cm_connections (ex_conns ex') = cm_connections (ex_conns ex) \<and> length (cm_objs (ex_conns ex')) = length (cm_objs (ex_conns ex)) \<and>
     (\<forall>i. valid_conn ex i \<longrightarrow> conn_id ex' i = conn_id ex i)"

lemma same_ids_refl [simp]: "same_ids ex ex" by (simp add: same_ids_def)

lemma same_ids_trans: "same_ids a b \<Longrightarrow> same_ids b c \<Longrightarrow> same_ids a c"
  unfolding same_ids_def valid_conn_def by metis

lemma same_ids_put:
  assumes "valid_conn ex i" "same_ends (conn ex i) c"
  shows "same_ids ex (put_conn i c ex)"
  using assms by (auto simp: same_ids_def conn_id_def conn_put_conn connection_id_def same_ends_def)

lemma get_by_id_same:
  assumes "same_ids ex ex'" "\<forall>i \<in> set (cm_connections (ex_conns ex)). valid_conn ex i"
  shows "get_by_id cid (ex_conns ex') = get_by_id cid (ex_conns ex)"
proof -
  have "find (\<lambda>i. conn_id ex' i = cid) is = find (\<lambda>i. conn_id ex i = cid) is" if "\<forall>i \<in> set is. valid_conn ex i" for "is"
    using that assms(1) by (induction "is") (auto simp: same_ids_def)
  then show ?thesis using assms by (simp add: get_by_id_def conn_id_def same_ids_def)
qed

lemma get_by_id_Some: "get_by_id cid (ex_conns ex) = Some i \<Longrightarrow> i \<in> set (cm_connections (ex_conns ex)) \<and> conn_id ex i = cid"
  unfolding get_by_id_def conn_id_def by (rule find_SomeD)

text \<open>
  Both the replacement of a flow and the recovery of a checkpoint walk over saved queues and change the connection that has the
  identity of each; \<open>g\<close> says how.  The locale has what holds of every such walk.
\<close>

definition fill_queue :: "(string \<Rightarrow> flowfile list \<Rightarrow> connection \<Rightarrow> connection) \<Rightarrow> string \<times> flowfile list \<Rightarrow> executor \<Rightarrow> executor" where
  "fill_queue g = (\<lambda>(cid, ffs) ex. case get_by_id cid (ex_conns ex) of None \<Rightarrow> ex | Some i \<Rightarrow> put_conn i (g cid ffs (conn ex i)) ex)"

definition fills :: "(string \<Rightarrow> flowfile list \<Rightarrow> connection \<Rightarrow> connection) \<Rightarrow> (string, flowfile list) dict \<Rightarrow> executor \<Rightarrow> executor \<Rightarrow> bool" where
  "fills g saved ex ex' \<longleftrightarrow> same_ids ex ex' \<and>
    (\<forall>cid ffs i. (cid, ffs) \<in> set saved \<longrightarrow> get_by_id cid (ex_conns ex) = Some i \<longrightarrow> conn ex' i = g cid ffs (conn ex i)) \<and>
    (\<forall>i. valid_conn ex i \<longrightarrow> conn_id ex i \<notin> set (dict_keys saved) \<longrightarrow> conn ex' i = conn ex i)"

lemma fills_skip:
  assumes "get_by_id k (ex_conns ex) = None" "fills g saved ex ex'"
  shows "fills g ((k, xs) # saved) ex ex'"
proof -
  have "c \<noteq> k" if "get_by_id c (ex_conns ex) = Some i" for c i using that assms(1) by auto
  then show ?thesis using assms(2) unfolding fills_def set_simps list.map fst_conv insert_iff prod.inject by blast
qed

locale queue_filler =
  fixes g :: "string \<Rightarrow> flowfile list \<Rightarrow> connection \<Rightarrow> connection"
  assumes keeps_ends: "same_ends c (g cid ffs c)"
begin

lemma fill_same:
  assumes "\<forall>i \<in> set (cm_connections (ex_conns ex)). valid_conn ex i"
  shows "same_ids ex (fill_queue g q ex)" "get_by_id c (ex_conns (fill_queue g q ex)) = get_by_id c (ex_conns ex)"
    "ex_version (fill_queue g q ex) = ex_version ex" "ex_history (fill_queue g q ex) = ex_history ex"
proof -
  show ids: "same_ids ex (fill_queue g q ex)"
    using assms get_by_id_Some same_ids_put [OF _ keeps_ends] by (auto simp: fill_queue_def split: prod.split option.split)
  show "get_by_id c (ex_conns (fill_queue g q ex)) = get_by_id c (ex_conns ex)" using ids assms by (rule get_by_id_same)
  show "ex_version (fill_queue g q ex) = ex_version ex" "ex_history (fill_queue g q ex) = ex_history ex"
    by (simp_all add: fill_queue_def split: prod.split option.split)
qed

lemma fills_cons:
  assumes valid: "\<forall>i \<in> set (cm_connections (ex_conns ex)). valid_conn ex i" and k: "k \<notin> set (dict_keys saved)" and j: "get_by_id k (ex_conns ex) = Some j"
    and rest: "fills g saved (put_conn j (g k xs (conn ex j)) ex) ex'" (is "fills _ _ ?ex _")
  shows "fills g ((k, xs) # saved) ex ex'"
proof -
  have vj: "valid_conn ex j" "conn_id ex j = k" using get_by_id_Some [OF j] valid by auto
  have ids: "same_ids ex ?ex" using vj(1) keeps_ends by (rule same_ids_put)
  have gb: "get_by_id c (ex_conns ?ex) = get_by_id c (ex_conns ex)" for c using ids valid by (rule get_by_id_same)
  have idj: "conn_id ?ex i = conn_id ex i" if "valid_conn ex i" for i using ids that by (simp add: same_ids_def)
  have at: "conn ex' j = g k xs (conn ex j)"
    using rest vj k idj [OF vj(1)] by (simp add: fills_def conn_put_conn [OF vj(1)])
  have old: "conn ex' i = g c ffs (conn ex i)" if "(c, ffs) \<in> set saved" "get_by_id c (ex_conns ex) = Some i" for c ffs i
  proof -
    have "c \<noteq> k" using that(1) k by force
    then have "i \<noteq> j" using get_by_id_Some [OF that(2)] vj(2) by auto
    then show ?thesis using rest that by (simp add: fills_def gb conn_put_conn [OF vj(1)])
  qed
  have "conn ex' i = conn ex i" if "valid_conn ex i" "conn_id ex i \<notin> set (dict_keys ((k, xs) # saved))" for i
  proof -
    have "i \<noteq> j" using that(2) vj(2) by auto
    then show ?thesis using rest that idj [OF that(1)] by (simp add: fills_def conn_put_conn [OF vj(1)])
  qed
  moreover have "same_ids ex ex'" using ids rest same_ids_trans by (auto simp: fills_def)
  moreover have "conn ex' i = g c ffs (conn ex i)" if "(c, ffs) \<in> set ((k, xs) # saved)" "get_by_id c (ex_conns ex) = Some i" for c ffs i
    using that at old j by auto
  ultimately show ?thesis unfolding fills_def by blast
qed

lemma fill_fold:
  assumes "\<forall>i \<in> set (cm_connections (ex_conns ex)). valid_conn ex i" "distinct (dict_keys saved)"
  shows "fills g saved ex (fold (fill_queue g) saved ex)"
  using assms
proof (induction saved arbitrary: ex)
  case Nil
  then show ?case by (simp add: fills_def)
next
  case (Cons q saved)
  obtain k xs where q: "q = (k, xs)" by fastforce
  have dist: "distinct (dict_keys saved)" "k \<notin> set (dict_keys saved)" using Cons.prems(2) by (auto simp: q)
  show ?case
  proof (cases "get_by_id k (ex_conns ex)")
    case None
    then have "fold (fill_queue g) (q # saved) ex = fold (fill_queue g) saved ex" by (simp add: q fill_queue_def)
    then show ?thesis unfolding q using fills_skip [OF None Cons.IH [OF Cons.prems(1) dist(1)]] by simp
  next
    case (Some j)
    let ?ex = "put_conn j (g k xs (conn ex j)) ex"
    have "fold (fill_queue g) (q # saved) ex = fold (fill_queue g) saved ?ex" using Some by (simp add: q fill_queue_def)
    moreover have "fills g saved ?ex (fold (fill_queue g) saved ?ex)" using Cons.prems(1) dist(1) by (intro Cons.IH) simp_all
    ultimately show ?thesis unfolding q using fills_cons [OF Cons.prems(1) dist(2) Some] by simp
  qed
qed

end

definition restored_conn :: "string list \<Rightarrow> string \<Rightarrow> flowfile list \<Rightarrow> connection \<Rightarrow> connection" where
  "restored_conn paused cid ffs c = (if cid \<in> set paused then pause (fold requeue ffs c) else fold requeue ffs c)"

interpretation rstq: queue_filler "restored_conn paused" for paused
proof
  show "same_ends c (restored_conn paused cid ffs c)" for c cid ffs
    using fold_requeue_frame(1) [of c ffs] by (auto simp: restored_conn_def intro: same_ends_trans)
qed

lemma restore_queue_step:
  "restore_queue paused (cid, ffs) (r, d, ex) =
     (if get_by_id cid (ex_conns ex) = None then (r, d + length ffs, ex) else (r + length ffs, d, fill_queue (restored_conn paused) (cid, ffs) ex))"
  by (simp add: restore_queue_def restored_conn_def fill_queue_def Let_def split: option.split)

lemma restore_fold:
  assumes "\<forall>i \<in> set (cm_connections (ex_conns ex)). valid_conn ex i"
    and "fold (restore_queue paused) saved (r, d, ex) = (r', d', ex')"
  shows "ex' = fold (fill_queue (restored_conn paused)) saved ex \<and> ex_version ex' = ex_version ex \<and> ex_history ex' = ex_history ex \<and>
    r' = r + sum_list (map (\<lambda>(k, ffs). if get_by_id k (ex_conns ex) = None then 0 else length ffs) saved) \<and>
    d' = d + sum_list (map (\<lambda>(k, ffs). if get_by_id k (ex_conns ex) = None then length ffs else 0) saved)"
  using assms
proof (induction saved arbitrary: r d ex)
  case Nil
  then show ?case by simp
next
  case (Cons q saved)
  obtain k xs where q: "q = (k, xs)" by fastforce
  let ?ex = "fill_queue (restored_conn paused) q ex"
  note same = rstq.fill_same [where paused = paused and q = q, OF Cons.prems(1)]
  have v: "\<forall>i \<in> set (cm_connections (ex_conns ?ex)). valid_conn ?ex i" using same(1) Cons.prems(1) by (auto simp: same_ids_def valid_conn_def)
  have stay: "?ex = ex" if "get_by_id k (ex_conns ex) = None" using that by (simp add: q fill_queue_def)
  let ?r = "if get_by_id k (ex_conns ex) = None then r else r + length xs" and ?d = "if get_by_id k (ex_conns ex) = None then d + length xs else d"
  have "fold (restore_queue paused) saved (?r, ?d, ?ex) = (r', d', ex')"
    using Cons.prems(2) stay by (auto simp: q restore_queue_step)
  from Cons.IH [OF v this] show ?case unfolding same by (auto simp: q)
qed

lemma build_empty:
  assumes "build now tasks relations ex = (Inr u, ex')" "ex_conns ex = cm_init"
  shows "\<forall>c \<in> set (cm_objs (ex_conns ex')). conn_inv c \<and> c_contents c = [] \<and> \<not> c_paused c"
proof -
  let ?I = "\<lambda>m. \<forall>c \<in> set (cm_objs m). conn_inv c \<and> c_contents c = [] \<and> \<not> c_paused c"
  let ?reset = "(ex_conns ex)\<lparr>cm_connections := [], cm_by_source := [], cm_by_target := []\<rparr>"
  obtain m where m: "fold_res (build_relation 10000 104857600) relations ?reset = Inr m" "ex_conns ex' = m"
    using assms(1) by (auto simp: build_def Let_def build_from_flow_def build_tasks_frame split: sum.splits)
  have new: "conn_inv (new_connection a b c d e f g h) \<and> c_contents (new_connection a b c d e f g h) = [] \<and> \<not> c_paused (new_connection a b c d e f g h)" for a b c d e f g h
    using new_connection_inv by (simp add: new_connection_def)
  have step: "?I b" if "?I a" "build_relation 10000 104857600 r a = Inr b" for r a b
    using that new by (auto simp: build_relation_def bind_res_Inr_iff add_connection_def Let_def)
  have "?I ?reset" by (simp add: assms(2) cm_init_def)
  then have "?I m" by (rule fold_res_invariant [where I = ?I, OF m(1)]) (rule step)
  then show ?thesis using m(2) by simp
qed

lemma rebuild_flow_cases:
  assumes "rebuild_flow now tasks relations ex = (Inr u, ex')"
  obtains ex1 ex2 restored dropped where
    "build now tasks relations (ex\<lparr>ex_tasks := [], ex_states := [], ex_retries := [], ex_in_flight := [], ex_max_instances := [], ex_conns := cm_init\<rparr>) = (Inr (), ex1)"
    "fold (restore_queue (paused_queues ex)) (saved_queues ex) (0, 0, ex1) = (restored, dropped, ex2)"
    "ex' = ex2\<lparr>ex_version := ex_version ex2 + 1, ex_history := ex_history ex2 @ [FlowUpdated (ex_version ex2 + 1) restored dropped]\<rparr>"
  using assms unfolding rebuild_flow_def by (auto simp: Let_def split: prod.splits sum.splits)

lemma paused_queues_exact:
  assumes "distinct (map (conn_id ex) (cm_connections (ex_conns ex)))" "j \<in> set (cm_connections (ex_conns ex))"
  shows "conn_id ex j \<in> set (paused_queues ex) \<longleftrightarrow> c_paused (conn ex j)"
  using assms by (auto simp: paused_queues_def conn_id_def [symmetric] distinct_map inj_on_def)

lemma restored_counts:
  assumes "restored = sum_list (map (\<lambda>(k, ffs). if f k = None then 0 else length ffs) saved)"
    and "dropped = sum_list (map (\<lambda>(k, ffs). if f k = None then length ffs else 0) saved)" "(cid, ffs) \<in> set saved" "f cid = Some i"
  shows "restored + dropped = sum_list (map (length \<circ> snd) saved)" "length ffs \<le> restored"
proof -
  show "restored + dropped = sum_list (map (length \<circ> snd) saved)" unfolding assms(1,2) by (induction saved) (auto simp: split_beta)
  have "(\<lambda>(k, ffs). if f k = None then 0 else length ffs) (cid, ffs) \<in> set (map (\<lambda>(k, ffs). if f k = None then 0 else length ffs) saved)"
    using assms(3) by (rule image_eqI [OF refl, of _ "set saved", simplified set_map [symmetric]])
  then show "length ffs \<le> restored" unfolding assms(1) using assms(4) member_le_sum_list by fastforce
qed

text \<open>
  C11: Replacing the flow preserves the queues up to the new limits.  After a rebuild, a queue whose connection exists in the new flow
  holds, as a multiset, the first FlowFiles of its old contents, as many as the new limit of the connection admits, hence all of
  them exactly when they fit, and a paused queue stays paused; but what does not fit is dropped, although its bytes are counted in
  the queue and the history reports it as restored.\<close>

theorem rebuild_restores_queues:
  assumes "exec_wf ex" "distinct (map (conn_id ex) (cm_connections (ex_conns ex)))" "rebuild_flow now tasks relations ex = (Inr u, ex')"
    and "j \<in> set (cm_connections (ex_conns ex))" "get_by_id (conn_id ex j) (ex_conns ex') = Some i"
  shows "mset (c_contents (conn ex' i)) = mset (take (nat (c_max_queue_size (conn ex' i))) (c_contents (conn ex j))) \<and>
    c_paused (conn ex' i) = c_paused (conn ex j) \<and> c_total_bytes (conn ex' i) = bytes_of (c_contents (conn ex j)) \<and>
    (\<exists>version restored dropped. last (ex_history ex') = FlowUpdated version restored dropped \<and> restored + dropped = sum_list (map (length \<circ> snd) (saved_queues ex)) \<and>
       length (c_contents (conn ex j)) \<le> restored)"
proof -
  let ?reset = "ex\<lparr>ex_tasks := [], ex_states := [], ex_retries := [], ex_in_flight := [], ex_max_instances := [], ex_conns := cm_init\<rparr>"
  obtain ex1 ex2 restored dropped where b: "build now tasks relations ?reset = (Inr (), ex1)"
    and f: "fold (restore_queue (paused_queues ex)) (saved_queues ex) (0, 0, ex1) = (restored, dropped, ex2)"
    and ex': "ex' = ex2\<lparr>ex_version := ex_version ex2 + 1, ex_history := ex_history ex2 @ [FlowUpdated (ex_version ex2 + 1) restored dropped]\<rparr>"
    using assms(3) by (rule rebuild_flow_cases)
  have wf: "exec_wf ex1" using build_wf(1) [OF b] by (simp add: cm_init_def)
  then have valid: "\<forall>i \<in> set (cm_connections (ex_conns ex1)). valid_conn ex1 i" using wf_valid(1) by blast
  note sq = saved_queues_exact [OF assms(1,2)]
  note res = restore_fold [OF valid f]
  have fill: "fills (restored_conn (paused_queues ex)) (saved_queues ex) ex1 ex2" using rstq.fill_fold [OF valid sq(1)] res by simp
  have conns: "ex_conns ex' = ex_conns ex2" by (simp add: ex')
  have ids: "same_ids ex1 ex2" using fill by (simp add: fills_def)
  have i: "get_by_id (conn_id ex j) (ex_conns ex1) = Some i" using assms(5) get_by_id_same [OF ids valid] by (simp add: conns)
  have mem: "(conn_id ex j, c_contents (conn ex j)) \<in> set (saved_queues ex)" using sq(2) [OF assms(4)] .
  then have c: "conn ex2 i = restored_conn (paused_queues ex) (conn_id ex j) (c_contents (conn ex j)) (conn ex1 i)"
    using fill i unfolding fills_def by blast
  have "valid_conn ex1 i" using get_by_id_Some [OF i] valid by blast
  then have new: "conn_inv (conn ex1 i)" "c_contents (conn ex1 i) = []" "\<not> c_paused (conn ex1 i)"
    using build_empty [OF b] by (auto simp: valid_conn_def)
  then have q: "pq_inv (c_queue (conn ex1 i))" "pq_max_size (c_queue (conn ex1 i)) = c_max_queue_size (conn ex1 i)" "c_total_bytes (conn ex1 i) = 0"
    by (auto simp: conn_inv_def)
  have "c_max_queue_size (conn ex2 i) = c_max_queue_size (conn ex1 i)" unfolding c using rstq.keeps_ends by (simp add: same_ends_def)
  moreover have "mset (c_contents (conn ex2 i)) = mset (take (nat (c_max_queue_size (conn ex1 i))) (c_contents (conn ex j)))"
    unfolding c using fold_requeue_contents [OF q(1)] new(2) q(2) by (simp add: restored_conn_def pause_def)
  moreover have "c_paused (conn ex2 i) = c_paused (conn ex j)" "c_total_bytes (conn ex2 i) = bytes_of (c_contents (conn ex j))"
    unfolding c using paused_queues_exact [OF assms(2,4)] new(3) q(3) fold_requeue_frame(2,3) by (auto simp: restored_conn_def pause_def)
  moreover have "restored + dropped = sum_list (map (length \<circ> snd) (saved_queues ex))" "length (c_contents (conn ex j)) \<le> restored"
    using restored_counts [where f = "\<lambda>k. get_by_id k (ex_conns ex1)", OF _ _ mem i] res by auto
  ultimately show ?thesis by (simp add: conns) (simp add: ex')
qed

text \<open>The flow of \<open>demo_busy\<close> is replaced by one whose connection from a to b admits nothing: the queued FlowFile is gone.\<close>

definition closed_relation :: relation_spec where
  "closed_relation = demo_rel\<lparr>rs_max_queue_size := Some 0\<rparr>"

theorem rebuild_restores_queues_witness:
  "\<exists>ex'. rebuild_flow 0 [(''a'', demo_task)] [closed_relation] demo_busy = (Inr (), ex') \<and> c_contents (conn ex' 0) = [] \<and> c_total_bytes (conn ex' 0) = 2 \<and>
     c_contents (conn demo_busy 0) \<noteq> []"
proof -
  let ?r = "rebuild_flow 0 [(''a'', demo_task)] [closed_relation] demo_busy"
  let ?reset = "demo_busy\<lparr>ex_tasks := [], ex_states := [], ex_retries := [], ex_in_flight := [], ex_max_instances := [], ex_conns := cm_init\<rparr>"
  let ?new = "new_connection ''a'' ''b'' ''success'' 0 104857600 FIFO ''priority'' 0"
  obtain ex1 where b: "build 0 [(''a'', demo_task)] [closed_relation] ?reset = (Inr (), ex1)" "ex_conns ex1 = add_connection ?new cm_init"
    by (simp add: build_def Let_def build_from_flow_def build_relation_def closed_relation_def demo_rel_def opt_key_def opt_default_def prioritizer_of_def
        build_task_def) (simp add: cm_init_def)
  have ends: "c_source_id demo_conn = ''a''" "c_target_id demo_conn = ''b''" "c_relationship demo_conn = ''success''" using demo_conn_facts(3) by (auto simp: conn_key_def)
  have conns: "cm_connections (ex_conns demo_busy) = [0, 1]" by (simp add: demo_busy_def demo_manager_def add_connection_def cm_init_def Let_def)
  have ids: "conn_id demo_busy 0 = ''conn_a__success__b''" "conn_id demo_busy 1 = ''conn_s__success__a''"
    unfolding conn_id_def demo_busy_facts by (simp_all add: connection_id_def connection_id_of_def ends) (simp add: demo_input_def new_connection_def)
  obtain restored dropped ex2 where f: "fold (restore_queue (paused_queues demo_busy)) (saved_queues demo_busy) (0, 0, ex1) = (restored, dropped, ex2)"
    by (rule prod_cases3)
  then obtain ex' where run: "?r = (Inr (), ex')" and ex': "ex_conns ex' = ex_conns ex2"
    using b(1) by (simp add: rebuild_flow_def Let_def)
  have one: "cm_connections (ex_conns ex1) = [0]" "conn_id ex1 0 = ''conn_a__success__b''" "valid_conn ex1 0" "c_max_queue_size (conn ex1 0) = 0"
    by (simp_all add: b(2) conn_id_def add_connection_def cm_init_def valid_conn_def Let_def connection_id_def connection_id_of_def) (simp_all add: new_connection_def)
  have dist: "distinct (map (conn_id demo_busy) (cm_connections (ex_conns demo_busy)))" unfolding conns by (simp add: ids [simplified])
  have valid: "\<forall>i \<in> set (cm_connections (ex_conns ex1)). valid_conn ex1 i" by (simp add: one)
  have fill: "fills (restored_conn (paused_queues demo_busy)) (saved_queues demo_busy) ex1 ex2"
    using rstq.fill_fold [OF valid saved_queues_exact(1) [OF demo_busy_facts(1) dist]] restore_fold [OF valid f] by simp
  then have same: "cm_connections (ex_conns ex2) = [0]" "conn_id ex2 0 = ''conn_a__success__b''" using one by (auto simp: fills_def same_ids_def)
  have get: "get_by_id (conn_id demo_busy 0) (ex_conns ex') = Some 0"
    using same by (simp add: get_by_id_def ex' conn_id_def [symmetric] ids)
  have limit: "c_max_queue_size (conn ex' 0) = 0"
  proof -
    have "(conn_id demo_busy 0, c_contents (conn demo_busy 0)) \<in> set (saved_queues demo_busy)"
      by (rule saved_queues_exact(2) [OF demo_busy_facts(1) dist]) (simp add: conns)
    moreover have "get_by_id (conn_id demo_busy 0) (ex_conns ex1) = Some 0"
      using one by (simp add: get_by_id_def ids) (simp add: conn_id_def)
    ultimately have "conn ex2 0 = restored_conn (paused_queues demo_busy) (conn_id demo_busy 0) (c_contents (conn demo_busy 0)) (conn ex1 0)"
      using fill unfolding fills_def by blast
    then show ?thesis using rstq.keeps_ends one(4) ex' by (simp add: same_ends_def)
  qed
  have "0 \<in> set (cm_connections (ex_conns demo_busy))" by (simp add: conns)
  from rebuild_restores_queues [OF demo_busy_facts(1) dist run this get] show ?thesis
    using run limit demo_conn_facts(2) by (intro exI [of _ ex']) (simp add: demo_busy_facts(5) bytes_ff_def ff_size_def)
qed

subsection \<open>Recovery\<close>

definition is_request :: "flowfile \<Rightarrow> bool" where
  "is_request ff \<longleftrightarrow> truthy_attribute ff ''http.request.id''"

definition recovered_conn :: "real \<Rightarrow> string \<Rightarrow> flowfile list \<Rightarrow> connection \<Rightarrow> connection" where
  "recovered_conn now cid ffs c = (if conn_is_empty c then enqueue_all now (filter (\<lambda>ff. \<not> is_request ff) ffs) c else c)"

interpretation rcvq: queue_filler "recovered_conn now" for now
proof
  show "same_ends c (recovered_conn now cid ffs c)" for c cid ffs using enqueue_all_keeps(2) by (simp add: recovered_conn_def)
qed

definition queue_of_key :: "queue_key \<times> flowfile list \<Rightarrow> string \<times> flowfile list" where
  "queue_of_key = (\<lambda>((src, tgt, rel), ffs). (connection_id_of src rel tgt, ffs))"

lemma put_same [simp]: "put_conn i (conn ex i) ex = ex" by (simp add: put_conn_def)

lemma recover_fold: "fold (recover_queue now) qs ex = fold (fill_queue (recovered_conn now)) (map queue_of_key qs) ex"
proof -
  have "recover_queue now q ex = fill_queue (recovered_conn now) (queue_of_key q) ex" for q ex
    by (cases q) (auto simp: recover_queue_def fill_queue_def queue_of_key_def recovered_conn_def is_request_def Let_def split: option.split)
  then show ?thesis by (induction qs arbitrary: ex) simp_all
qed

lemma enqueue_all_contents:
  assumes "conn_inv c" "room_for (length ffs) (sum_list (map ff_size ffs)) c"
  shows "mset (c_contents (enqueue_all now ffs c)) = mset (c_contents c) + mset ffs"
  using assms
proof (induction ffs arbitrary: c)
  case Nil
  then show ?case by simp
next
  case (Cons ff ffs)
  from Cons.prems(1) show ?case
  proof (cases rule: enqueue_cases [of _ now ff])
    case refused
    then show ?thesis using Cons.prems(2) by (simp add: room_for_def)
  next
    case (accepted c')
    have "length (c_contents c') = Suc (length (c_contents c))" using accepted(2) by (metis size_add_mset size_mset)
    then have "room_for (length ffs) (sum_list (map ff_size ffs)) c'" using Cons.prems(2) accepted by (simp add: room_for_def)
    then show ?thesis using Cons.IH [OF accepted(6)] accepted(1,2) by simp
  qed
qed

lemma conn_empty_iff: "conn_inv c \<Longrightarrow> conn_is_empty c \<longleftrightarrow> c_contents c = []"
  by (simp add: conn_is_empty_def conn_inv_def pq.empty_iff)

lemma same_payload_request: "same_payload a b \<Longrightarrow> is_request a = is_request b"
  by (simp add: is_request_def truthy_attribute_def get_attribute_def same_payload_def)

lemma same_payload_filter: "list_all2 same_payload xs ys \<Longrightarrow> list_all2 same_payload (filter (\<lambda>ff. \<not> is_request ff) xs) (filter (\<lambda>ff. \<not> is_request ff) ys)"
  by (induction rule: list_all2_induct) (auto dest: same_payload_request)

lemma same_payload_sizes:
  "list_all2 same_payload xs ys \<Longrightarrow> length xs = length ys \<and> sum_list (map ff_size xs) = sum_list (map ff_size ys)"
  by (induction rule: list_all2_induct) (auto simp: same_payload_def ff_size_def)

lemma queue_of_conn_key: "fst (queue_of_key (conn_key c, ffs)) = connection_id c"
  by (simp add: queue_of_key_def conn_key_def connection_id_def)

text \<open>A store from which the queues of \<open>ex\<close> can be read back, as a save leaves it.\<close>

definition saved_for :: "executor \<Rightarrow> (nat \<Rightarrow> nat \<times> string) \<Rightarrow> checkpoint_store \<Rightarrow> checkpoint_doc \<Rightarrow> bool" where
  "saved_for ex mint st doc \<longleftrightarrow> load_latest_checkpoint st = Some doc \<and>
    (\<forall>c \<in> set (conns_of (ex_conns ex)). c_contents c \<noteq> [] \<longrightarrow>
       (\<exists>ffs. map_of (restore_flowfiles mint st doc) (conn_key c) = Some ffs \<and> list_all2 same_payload ffs (c_contents c))) \<and>
    (\<forall>k ffs. map_of (restore_flowfiles mint st doc) k = Some ffs \<longrightarrow> (\<exists>c \<in> set (conns_of (ex_conns ex)). k = conn_key c \<and> c_contents c \<noteq> []))"

lemma restored_ids:
  assumes "saved_for ex mint st doc" "distinct (map (conn_id ex) (cm_connections (ex_conns ex)))"
  shows "distinct (dict_keys (map queue_of_key (restore_flowfiles mint st doc)))"
    "j \<in> set (cm_connections (ex_conns ex)) \<Longrightarrow> c_contents (conn ex j) = [] \<Longrightarrow> conn_id ex j \<notin> set (dict_keys (map queue_of_key (restore_flowfiles mint st doc)))"
proof -
  let ?qs = "restore_flowfiles mint st doc"
  have origin: "\<exists>j \<in> set (cm_connections (ex_conns ex)). fst q = conn_key (conn ex j) \<and> fst (queue_of_key q) = conn_id ex j \<and> c_contents (conn ex j) \<noteq> []"
    if "q \<in> set ?qs" for q
  proof -
    obtain k ffs where q: "q = (k, ffs)" by fastforce
    then have "map_of ?qs k = Some ffs" using that restore_distinct by simp
    then obtain c where "c \<in> set (conns_of (ex_conns ex))" "k = conn_key c" "c_contents c \<noteq> []" using assms(1) unfolding saved_for_def by blast
    then show ?thesis using queue_of_conn_key [of c ffs] by (auto simp: q conn_id_def)
  qed
  have inj: "i = j" if "i \<in> set (cm_connections (ex_conns ex))" "j \<in> set (cm_connections (ex_conns ex))" "conn_id ex i = conn_id ex j" for i j
    using assms(2) that by (auto simp: distinct_map inj_on_def)
  have "inj_on (fst \<circ> queue_of_key) (set ?qs)"
  proof (rule inj_onI)
    fix p q assume p: "p \<in> set ?qs" and q: "q \<in> set ?qs" and eq: "(fst \<circ> queue_of_key) p = (fst \<circ> queue_of_key) q"
    obtain i where i: "i \<in> set (cm_connections (ex_conns ex))" "fst p = conn_key (conn ex i)" "fst (queue_of_key p) = conn_id ex i" using origin [OF p] by blast
    obtain j where j: "j \<in> set (cm_connections (ex_conns ex))" "fst q = conn_key (conn ex j)" "fst (queue_of_key q) = conn_id ex j" using origin [OF q] by blast
    have "conn_id ex i = conn_id ex j" using eq i(3) j(3) by (simp only: comp_apply)
    then have "i = j" using inj i(1) j(1) by blast
    then have "fst p = fst q" by (simp only: i(2) j(2))
    then show "p = q" using p q restore_distinct [of mint st doc] by (simp add: distinct_map inj_on_def)
  qed
  then show "distinct (dict_keys (map queue_of_key ?qs))" using restore_distinct [of mint st doc] by (auto simp: distinct_map comp_inj_on_iff)
  show "conn_id ex j \<notin> set (dict_keys (map queue_of_key ?qs))" if "j \<in> set (cm_connections (ex_conns ex))" "c_contents (conn ex j) = []"
  proof
    assume "conn_id ex j \<in> set (dict_keys (map queue_of_key ?qs))"
    then obtain q where "q \<in> set ?qs" "fst (queue_of_key q) = conn_id ex j" by auto
    with origin obtain i where "i \<in> set (cm_connections (ex_conns ex))" "conn_id ex j = conn_id ex i" "c_contents (conn ex i) \<noteq> []" by metis
    then show False using inj that by blast
  qed
qed

lemma recovered_queue:
  assumes "saved_for ex mint st doc" "distinct (map (conn_id ex) (cm_connections (ex_conns ex)))"
    and "exec_wf ex0" "ex_checkpoints ex0 = Some st" "all_empty (ex_conns ex0)"
    and "j \<in> set (cm_connections (ex_conns ex))" "get_by_id (conn_id ex j) (ex_conns ex0) = Some i"
    and "safe = filter (\<lambda>ff. \<not> is_request ff) (c_contents (conn ex j))" "room_for (length safe) (sum_list (map ff_size safe)) (conn ex0 i)"
  shows "\<exists>ffs. list_all2 same_payload ffs safe \<and> mset (c_contents (conn (recover_from_checkpoint now mint True ex0) i)) = mset ffs"
proof -
  let ?qs = "restore_flowfiles mint st doc"
  have rec: "recover_from_checkpoint now mint True ex0 =
      (fold (fill_queue (recovered_conn now)) (map queue_of_key ?qs) ex0)\<lparr>ex_checkpoints := Some (clear_checkpoints st)\<rparr>"
    using assms(1,4) by (simp add: recover_from_checkpoint_def saved_for_def recover_fold)
  have valid: "\<forall>i \<in> set (cm_connections (ex_conns ex0)). valid_conn ex0 i" using wf_valid(1) [OF assms(3)] by blast
  note fill = rcvq.fill_fold [where now = now, OF valid restored_ids(1) [OF assms(1,2)]]
  have i: "i \<in> set (cm_connections (ex_conns ex0))" "conn_id ex0 i = conn_id ex j" "valid_conn ex0 i" using get_by_id_Some [OF assms(7)] valid by auto
  have inv: "conn_inv (conn ex0 i)" using wf_conn [OF assms(3) i(3)] .
  have empty: "conn_is_empty (conn ex0 i)" "c_contents (conn ex0 i) = []"
    using assms(5) i(1) conn_empty_iff [OF inv] by (auto simp: all_empty_def list_all_iff)
  show ?thesis
  proof (cases "c_contents (conn ex j) = []")
    case True
    then have "conn (fold (fill_queue (recovered_conn now)) (map queue_of_key ?qs) ex0) i = conn ex0 i"
      using fill i restored_ids(2) [OF assms(1,2,6)] unfolding fills_def by simp
    then show ?thesis using True empty(2) by (intro exI [of _ "[]"]) (simp add: rec assms(8))
  next
    case False
    then obtain ffs where ffs: "map_of ?qs (conn_key (conn ex j)) = Some ffs" "list_all2 same_payload ffs (c_contents (conn ex j))"
      using assms(1,6) unfolding saved_for_def by auto
    let ?safe = "filter (\<lambda>ff. \<not> is_request ff) ffs"
    have p: "list_all2 same_payload ?safe safe" unfolding assms(8) using ffs(2) by (rule same_payload_filter)
    have "queue_of_key (conn_key (conn ex j), ffs) = (conn_id ex j, ffs)" by (simp add: queue_of_key_def conn_key_def conn_id_def connection_id_def)
    then have "(conn_id ex j, ffs) \<in> set (map queue_of_key ?qs)" using map_of_SomeD [OF ffs(1)] by (metis image_eqI set_map)
    then have "conn (fold (fill_queue (recovered_conn now)) (map queue_of_key ?qs) ex0) i = recovered_conn now (conn_id ex j) ffs (conn ex0 i)"
      using fill assms(7) unfolding fills_def by blast
    moreover have "mset (c_contents (enqueue_all now ?safe (conn ex0 i))) = mset ?safe"
      using enqueue_all_contents [OF inv, of ?safe now] same_payload_sizes [OF p] assms(9) empty(2) by simp
    ultimately show ?thesis using p empty(1) by (intro exI [of _ ?safe]) (simp add: rec recovered_conn_def)
  qed
qed

text \<open>
  C9: A restarted executor gets its queues back.  After a save whose file is the newest, an executor with empty queues that recovers
  from the same store holds in the connection with the same identity, when they fit, exactly the FlowFiles of the saved queue that do
  not belong to a web request, with the same process ids, attributes and bytes; and the checkpoints are gone, so that
  a second recovery restores nothing.\<close>

theorem recovery_restores_queues:
  assumes "exec_wf ex" "distinct (map (conn_id ex) (cm_connections (ex_conns ex)))"
    and "\<forall>c \<in> set (conns_of (ex_conns ex)). c_relationship c \<noteq> [] \<and> (\<forall>ff \<in> set (c_contents c). ff_process_id ff \<noteq> [])"
    and "files_clear (concat (map c_contents (conns_of (ex_conns ex))))"
    and "ex_checkpoints ex = Some st" "distinct (dict_keys (cs_files st))" "1 \<le> cs_max_checkpoints st"
    and "\<forall>n \<in> set (dict_keys (cs_files st)). n < checkpoint_name (sv_secs env) (Suc (cs_counter st))" "sv_writes env" "sv_data env = Inr data"
    and "exec_wf ex0" "ex_checkpoints ex0 = ex_checkpoints (save_current env ex)" "all_empty (ex_conns ex0)"
    and "j \<in> set (cm_connections (ex_conns ex))" "get_by_id (conn_id ex j) (ex_conns ex0) = Some i"
    and "safe = filter (\<lambda>ff. \<not> is_request ff) (c_contents (conn ex j))" "room_for (length safe) (sum_list (map ff_size safe)) (conn ex0 i)"
  shows "(\<exists>ffs. list_all2 same_payload ffs safe \<and> mset (c_contents (conn (recover_from_checkpoint now mint True ex0) i)) = mset ffs) \<and>
    (\<exists>st'. ex_checkpoints (recover_from_checkpoint now mint True ex0) = Some st' \<and> load_latest_checkpoint st' = None)"
proof -
  let ?m = "ex_conns ex" and ?states = "get_all_states (sv_isoformat env) (ex_states ex)"
  obtain name st' where save: "save_checkpoint (sv_stamp env) (sv_secs env) True ?m ?states (ex_version ex) data st = (name, st')" by fastforce
  have st': "ex_checkpoints ex0 = Some st'" using assms(5,9,10,12) save by (simp add: save_current_def)
  have conns: "\<forall>c \<in> set (conns_of ?m). conn_inv c \<and> c_relationship c \<noteq> [] \<and> (\<forall>ff \<in> set (c_contents c). ff_process_id ff \<noteq> [])"
    using assms(3) wf_conn [OF assms(1) wf_valid(1) [OF assms(1)]] by auto
  have ids: "conn_id ex i = conn_id ex k" if "conn_key (conn ex i) = conn_key (conn ex k)" for i k
    using that by (simp add: conn_id_def conn_key_def connection_id_def)
  have "inj_on (conn_id ex) (set (cm_connections ?m))" "distinct (cm_connections ?m)" using assms(2) by (simp_all add: distinct_map)
  then have "inj_on (\<lambda>i. conn_key (conn ex i)) (set (cm_connections ?m))" using ids unfolding inj_on_def by blast
  then have keys: "distinct (map conn_key (conns_of ?m))" using \<open>distinct (cm_connections ?m)\<close> by (simp add: distinct_map comp_def)
  obtain doc where "saved_for ex mint st' doc"
    using restored_checkpoint [OF conns keys assms(4,6,8,7) save, of mint] unfolding saved_for_def by blast
  then have "\<exists>ffs. list_all2 same_payload ffs safe \<and> mset (c_contents (conn (recover_from_checkpoint now mint True ex0) i)) = mset ffs"
    using assms(2,11) st' assms(13-17) by (rule recovered_queue)
  moreover obtain doc where "load_latest_checkpoint st' = Some doc" using \<open>saved_for ex mint st' doc\<close> by (simp add: saved_for_def)
  then have "ex_checkpoints (recover_from_checkpoint now mint True ex0) = Some (clear_checkpoints st')" using st' by (simp add: recover_from_checkpoint_def)
  moreover have "load_latest_checkpoint (clear_checkpoints st') = None" by (simp add: load_latest_checkpoint_def clear_checkpoints_def sorted_names_def)
  ultimately show ?thesis by blast
qed

text \<open>An executor with one queued FlowFile that is saved, and a new one with the same connection.\<close>

definition demo_saved :: executor where
  "demo_saved = demo_executor\<lparr>ex_conns := demo_manager, ex_checkpoints := Some (new_checkpoint_store ''flow'')\<rparr>"

definition demo_fresh :: executor where
  "demo_fresh = demo_executor\<lparr>ex_conns := add_connection tiny cm_init, ex_checkpoints := ex_checkpoints (save_current demo_save demo_saved)\<rparr>"

lemma single_wf: "conn_inv c \<Longrightarrow> exec_wf (demo_executor\<lparr>ex_conns := add_connection c cm_init, ex_checkpoints := cps\<rparr>)"
proof -
  assume c: "conn_inv c"
  have "cm_inv cm_init" by (simp add: cm_inv_def cm_init_def get_outgoing_def get_incoming_def dict_get_def)
  then have "cm_inv (add_connection c cm_init)" by (rule add_connection_inv)
  then show ?thesis using c by (simp add: exec_wf_def demo_executor_defs add_connection_def Let_def)
qed

lemma demo_saved_facts:
  "exec_wf demo_saved" "cm_connections (ex_conns demo_saved) = [0]" "conns_of (ex_conns demo_saved) = [demo_conn]" "conn demo_saved 0 = demo_conn"
  "ex_checkpoints demo_saved = Some (new_checkpoint_store ''flow'')"
  "exec_wf demo_fresh" "all_empty (ex_conns demo_fresh)" "get_by_id (conn_id demo_saved 0) (ex_conns demo_fresh) = Some 0" "conn demo_fresh 0 = tiny"
proof -
  have tiny: "conn_inv tiny" "c_contents tiny = []" using new_connection_inv by (simp_all add: tiny_def) (simp add: new_connection_def)
  show "exec_wf demo_saved" unfolding demo_saved_def demo_manager_def using demo_conn_facts(1) by (rule single_wf)
  show conns: "cm_connections (ex_conns demo_saved) = [0]" "conns_of (ex_conns demo_saved) = [demo_conn]" "conn demo_saved 0 = demo_conn"
    "ex_checkpoints demo_saved = Some (new_checkpoint_store ''flow'')"
    by (simp_all add: demo_saved_def demo_manager_def add_connection_def cm_init_def Let_def)
  show "exec_wf demo_fresh" unfolding demo_fresh_def using tiny(1) by (rule single_wf)
  show fresh: "conn demo_fresh 0 = tiny" by (simp add: demo_fresh_def add_connection_def cm_init_def Let_def)
  have one: "cm_connections (ex_conns demo_fresh) = [0]" by (simp add: demo_fresh_def add_connection_def cm_init_def Let_def)
  show "all_empty (ex_conns demo_fresh)" using conn_empty_iff [OF tiny(1)] tiny(2) by (simp add: all_empty_def one fresh)
  have "connection_id demo_conn = connection_id tiny" by (simp add: demo_conn_def tiny_enqueue connection_id_def)
  then show "get_by_id (conn_id demo_saved 0) (ex_conns demo_fresh) = Some 0" using conns(3) by (simp add: get_by_id_def one fresh conn_id_def)
qed

theorem recovery_restores_queues_witness:
  "\<exists>ffs. list_all2 same_payload ffs [bytes_ff 0 [1, 2]] \<and> mset (c_contents (conn (recover_from_checkpoint 9 (\<lambda>n. (n, [])) True demo_fresh) 0)) = mset ffs"
proof -
  let ?st = "new_checkpoint_store ''flow''" and ?ff = "bytes_ff 0 [1, 2]"
  have safe: "[?ff] = filter (\<lambda>ff. \<not> is_request ff) (c_contents (conn demo_saved 0))"
    by (simp add: demo_saved_facts demo_conn_facts(2) is_request_def truthy_attribute_def get_attribute_def) (simp add: bytes_ff_def)
  have room: "room_for (length [?ff]) (sum_list (map ff_size [?ff])) (conn demo_fresh 0)"
    by (simp add: demo_saved_facts room_for_def bytes_ff_def ff_size_def) (simp add: tiny_def new_connection_def)
  have conns: "\<forall>c \<in> set (conns_of (ex_conns demo_saved)). c_relationship c \<noteq> [] \<and> (\<forall>ff \<in> set (c_contents c). ff_process_id ff \<noteq> [])"
    "files_clear (concat (map c_contents (conns_of (ex_conns demo_saved))))"
    unfolding demo_saved_facts(3) by (simp_all add: demo_conn_facts files_clear_def) (simp add: bytes_ff_def)
  have dist: "distinct (map (conn_id demo_saved) (cm_connections (ex_conns demo_saved)))" by (simp add: demo_saved_facts)
  have st: "distinct (dict_keys (cs_files ?st))" "1 \<le> cs_max_checkpoints ?st"
    "\<forall>n \<in> set (dict_keys (cs_files ?st)). n < checkpoint_name (sv_secs demo_save) (Suc (cs_counter ?st))" by (simp_all add: new_checkpoint_store_def)
  have env: "sv_writes demo_save" "sv_data demo_save = Inr []" by (simp_all add: demo_save_def)
  have cps: "ex_checkpoints demo_fresh = ex_checkpoints (save_current demo_save demo_saved)" by (simp add: demo_fresh_def)
  have mem: "0 \<in> set (cm_connections (ex_conns demo_saved))" by (simp add: demo_saved_facts)
  show ?thesis
    using recovery_restores_queues [OF demo_saved_facts(1) dist conns demo_saved_facts(5) st env demo_saved_facts(6) cps demo_saved_facts(7) mem demo_saved_facts(8) safe room]
    by blast
qed

end
