(* ===== verification/Interaction_Answers.thy ===== *)
theory Interaction_Answers
  imports Json
begin

section \<open>Answers to user interactions\<close>

text \<open>
  The validation part of \<open>core/confirmation_store.py\<close>: options and response schemas are normalized when an interaction is
  created, and an answer is validated against them before it is stored.  Python's \<open>float\<close>, the texts of containers and the
  calendar functions are arguments (\<open>answer_env\<close>); a float may be infinite or not a number.
\<close>

subsection \<open>Kinds, options and schemas\<close>

definition KINDS :: "string list" where
  "KINDS = [''confirm'', ''choice'', ''multi'', ''text'', ''multiline'', ''integer'', ''decimal'', ''date'', ''datetime'', ''file'', ''form'']"

definition SCALAR_KINDS :: "string list" where
  "SCALAR_KINDS = filter (\<lambda>k. k \<noteq> ''form'') KINDS"

record interaction_option =
  op_value :: string
  op_label :: string

definition iterate :: "json \<Rightarrow> json list res" where
  "iterate v = (case v of JList xs \<Rightarrow> Inr xs | JDict d \<Rightarrow> Inr (map (JStr \<circ> fst) d) | JStr s \<Rightarrow> Inr (map (\<lambda>c. JStr [c]) s)
     | _ \<Rightarrow> Inl (TypeError ''object is not iterable''))"

definition normalize_option :: "(json \<Rightarrow> string) \<Rightarrow> json \<Rightarrow> interaction_option" where
  "normalize_option repr_of opt =
     (if is_dict opt then
        (let value = py_strip (str_or_empty repr_of (jget_or opt ''value'' (jget_or opt ''label'' (JStr []))));
             label = jget_or opt ''label'' (JStr value)
         in \<lparr>op_value = value, op_label = py_str repr_of (if jtruthy label then label else JStr value)\<rparr>)
      else \<lparr>op_value = py_strip (py_str repr_of opt), op_label = py_strip (py_str repr_of opt)\<rparr>)"

definition normalize_options :: "(json \<Rightarrow> string) \<Rightarrow> json \<Rightarrow> interaction_option list res" where
  "normalize_options repr_of options =
     bind_res (if jtruthy options then iterate options else Inr []) (\<lambda>opts.
       Inr (filter (\<lambda>opt. op_value opt \<noteq> []) (map (normalize_option repr_of) opts)))"

text \<open>\<open>json.dumps(value, ensure_ascii=False)\<close> with the default separators.\<close>

primrec json_text :: "json \<Rightarrow> string" where
  "json_text JNull = ''null''"
| "json_text (JBool b) = (if b then ''true'' else ''false'')"
| "json_text (JInt n) = int_str n"
| "json_text (JFloat x s) = s"
| "json_text (JStr s) = json_quote s"
| "json_text (JList xs) = ''['' @ join_with '', '' (map json_text xs) @ '']''"
| "json_text (JDict d) = ''{'' @ join_with '', '' (map (\<lambda>(k, s). json_quote k @ '': '' @ s) (map (map_prod id json_text) d)) @ ''}''"

fun normalize_fields :: "(json \<Rightarrow> string) \<Rightarrow> string list \<Rightarrow> json list \<Rightarrow> json list res" where
  "normalize_fields repr_of names [] = Inr []"
| "normalize_fields repr_of names (field # fs) =
     (case field of
        JDict d \<Rightarrow>
          (let name = py_strip (str_or_empty repr_of (dict_get d ''name'' JNull));
               given = dict_get d ''type'' JNull;
               field_type = py_lower (py_strip (if jtruthy given then py_str repr_of given else ''text'')) in
           if name = [] \<or> name \<in> set names then Inl (ValueError ''form field names must be non-empty and unique'')
           else if field_type \<notin> set SCALAR_KINDS then Inl (ValueError (''unsupported form field type '' @ field_type))
           else bind_res (normalize_fields repr_of (name # names) fs) (\<lambda>rest.
             Inr (JDict (AList.update ''type'' (JStr field_type) (AList.update ''name'' (JStr name) d)) # rest)))
      | _ \<Rightarrow> Inl (ValueError ''form fields must be objects''))"

definition normalize_response_schema :: "(json \<Rightarrow> string) \<Rightarrow> string \<Rightarrow> json \<Rightarrow> json res" where
  "normalize_response_schema repr_of kind schema =
     (case (if schema = JNull then JDict [] else schema) of
        JDict d \<Rightarrow>
          if length (json_text (JDict d)) > 64 * 1024 then Inl (ValueError ''response_schema exceeds 64 KiB'')
          else if kind \<noteq> ''form'' then Inr (JDict d)
          else (case dict_get d ''fields'' JNull of
             JList (f # fs) \<Rightarrow> bind_res (normalize_fields repr_of [] (f # fs)) (\<lambda>ys. Inr (JDict (AList.update ''fields'' (JList ys) d)))
           | _ \<Rightarrow> Inl (ValueError ''form response_schema.fields must be a non-empty list''))
      | _ \<Rightarrow> Inl (ValueError ''response_schema must be an object''))"

subsection \<open>Validation\<close>

datatype py_float = Finite real | PosInf | NegInf | NotANumber

fun float_less :: "py_float \<Rightarrow> py_float \<Rightarrow> bool" where
  "float_less (Finite x) (Finite y) \<longleftrightarrow> x < y"
| "float_less NegInf (Finite _) \<longleftrightarrow> True"
| "float_less NegInf PosInf \<longleftrightarrow> True"
| "float_less (Finite _) PosInf \<longleftrightarrow> True"
| "float_less _ _ \<longleftrightarrow> False"

record answer_env =
  an_repr :: "json \<Rightarrow> string"
  an_float :: "json \<Rightarrow> py_float res"
  an_float_text :: "real \<Rightarrow> string"
  an_date :: "string \<Rightarrow> string option"
  an_datetime :: "string \<Rightarrow> (bool \<times> string) option"

definition bounded_number :: "answer_env \<Rightarrow> py_float \<Rightarrow> json \<Rightarrow> string \<Rightarrow> unit res" where
  "bounded_number env value schema label =
     bind_res (case jget schema ''minimum'' of
         None \<Rightarrow> Inr ()
       | Some v \<Rightarrow> bind_res (an_float env v) (\<lambda>b. if float_less value b then Inl (ValueError (label @ '' is below minimum'')) else Inr ())) (\<lambda>_.
     case jget schema ''maximum'' of
       None \<Rightarrow> Inr ()
     | Some v \<Rightarrow> bind_res (an_float env v) (\<lambda>b. if float_less b value then Inl (ValueError (label @ '' is above maximum'')) else Inr ()))"

definition validate_text :: "bool \<Rightarrow> json \<Rightarrow> json \<Rightarrow> string \<Rightarrow> json res" where
  "validate_text single_line answer schema label =
     (case answer of
        JStr s \<Rightarrow>
          if single_line \<and> (CHR 0x0A \<in> set s \<or> CHR 0x0D \<in> set s) then Inl (ValueError (label @ '' must be single-line text''))
          else
            bind_res (json_int (jget_or schema ''min_length'' (JInt 0))) (\<lambda>minimum.
            bind_res (json_int (jget_or schema ''max_length'' (JInt 100000))) (\<lambda>maximum.
              if int (length s) < minimum then Inl (ValueError (label @ '' is shorter than min_length''))
              else if int (length s) > maximum then Inl (ValueError (label @ '' exceeds max_length''))
              else Inr (JStr s)))
      | _ \<Rightarrow> Inl (ValueError (label @ '' must be text'')))"

definition first_answer :: "json \<Rightarrow> json" where
  "first_answer answer = (case answer of JList (x # _) \<Rightarrow> x | _ \<Rightarrow> answer)"

definition validate_choice :: "answer_env \<Rightarrow> string list \<Rightarrow> json \<Rightarrow> json \<Rightarrow> string \<Rightarrow> json res" where
  "validate_choice env valid answer schema label =
     (let value = py_str (an_repr env) (first_answer answer) in
      if value \<in> set valid then Inr (JStr value)
      else if jget schema ''allow_other'' = Some (JBool True) \<and> (case answer of JStr s \<Rightarrow> py_strip s \<noteq> [] | _ \<Rightarrow> False)
      then validate_text False answer schema label
      else Inl (ValueError (''Invalid '' @ label @ '' value'')))"

definition validate_other :: "json \<Rightarrow> string \<Rightarrow> string \<Rightarrow> unit \<Rightarrow> unit res" where
  "validate_other schema label value = (\<lambda>_.
     if py_strip value = [] then Inl (ValueError (''Invalid '' @ label @ '': empty custom answer''))
     else bind_res (validate_text False (JStr value) schema label) (\<lambda>_. Inr ()))"

definition validate_multi :: "answer_env \<Rightarrow> string list \<Rightarrow> json \<Rightarrow> json \<Rightarrow> string \<Rightarrow> json res" where
  "validate_multi env valid answer schema label =
     (let values = map (py_str (an_repr env)) (case answer of JList xs \<Rightarrow> xs | _ \<Rightarrow> [answer]);
          bad = filter (\<lambda>v. v \<notin> set valid) values;
          others = (jget schema ''allow_other'' = Some (JBool True) \<and> bad \<noteq> []) in
      bind_res (if others then fold_res (validate_other schema label) bad () else Inr ()) (\<lambda>_.
        if values = [] \<or> (bad \<noteq> [] \<and> \<not> others) then Inl (ValueError (''Invalid '' @ label @ '' values''))
        else Inr (JList (map JStr values))))"

definition validate_integer :: "answer_env \<Rightarrow> json \<Rightarrow> json \<Rightarrow> string \<Rightarrow> json res" where
  "validate_integer env answer schema label =
     (case (case answer of JBool _ \<Rightarrow> Inl (TypeError []) | _ \<Rightarrow> json_int answer) of
        Inl _ \<Rightarrow> Inl (ValueError (label @ '' must be an integer''))
      | Inr value \<Rightarrow>
          if (case answer of JFloat x _ \<Rightarrow> x \<noteq> of_int \<lfloor>x\<rfloor> | JStr s \<Rightarrow> int_str value \<noteq> py_strip s | _ \<Rightarrow> False)
          then Inl (ValueError (label @ '' must be an integer''))
          else bind_res (an_float env (JInt value)) (\<lambda>x. bind_res (bounded_number env x schema label) (\<lambda>_. Inr (JInt value))))"

definition validate_decimal :: "answer_env \<Rightarrow> json \<Rightarrow> json \<Rightarrow> string \<Rightarrow> json res" where
  "validate_decimal env answer schema label =
     (case (case answer of JBool _ \<Rightarrow> Inl (TypeError []) | _ \<Rightarrow> an_float env answer) of
        Inl _ \<Rightarrow> Inl (ValueError (label @ '' must be a decimal number''))
      | Inr (Finite x) \<Rightarrow> bind_res (bounded_number env (Finite x) schema label) (\<lambda>_. Inr (JFloat x (an_float_text env x)))
      | Inr _ \<Rightarrow> Inl (ValueError (label @ '' must be a finite decimal number'')))"

definition validate_datetime :: "answer_env \<Rightarrow> json \<Rightarrow> string \<Rightarrow> json res" where
  "validate_datetime env answer label =
     (let given = py_str (an_repr env) answer;
          text = (if given \<noteq> [] \<and> last given = CHR ''Z'' then butlast given @ ''+00:00'' else given) in
      case an_datetime env text of
        None \<Rightarrow> Inl (ValueError (label @ '' must be an ISO-8601 datetime''))
      | Some (zone, txt) \<Rightarrow> if zone then Inr (JStr txt) else Inl (ValueError (label @ '' datetime must include a timezone'')))"

definition is_file_id :: "string \<Rightarrow> bool" where
  "is_file_id s \<longleftrightarrow> 1 \<le> length s \<and> length s \<le> 512 \<and>
     list_all (\<lambda>c. let n = (of_char c :: nat) in (65 \<le> n \<and> n \<le> 90) \<or> (97 \<le> n \<and> n \<le> 122) \<or> (48 \<le> n \<and> n \<le> 57) \<or> c \<in> set ''._:-'') s"

definition validate_file :: "answer_env \<Rightarrow> json \<Rightarrow> string \<Rightarrow> json res" where
  "validate_file env answer label =
     bind_res (case answer of
         JStr s \<Rightarrow> Inr (py_strip s, JDict [(''file_id'', JStr (py_strip s))])
       | JDict d \<Rightarrow>
           if \<not> set (dict_keys d) \<subseteq> {''file_id'', ''name'', ''mime_type'', ''size''} then Inl (ValueError (label @ '' contains unsupported file fields''))
           else (let i = py_strip (str_or_empty (an_repr env) (dict_get d ''file_id'' JNull)) in Inr (i, JDict (AList.update ''file_id'' (JStr i) d)))
       | _ \<Rightarrow> Inl (ValueError (label @ '' must be a file reference''))) (\<lambda>(file_id, result).
     if is_file_id file_id then Inr result else Inl (ValueError (label @ '' has an invalid file_id'')))"

fun validate_files :: "answer_env \<Rightarrow> json list \<Rightarrow> nat \<Rightarrow> string \<Rightarrow> json list res" where
  "validate_files env [] n label = Inr []"
| "validate_files env (x # xs) n label =
     bind_res (validate_file env x (label @ ''['' @ int_str (int n) @ '']'')) (\<lambda>y.
     bind_res (validate_files env xs (Suc n) label) (\<lambda>ys. Inr (y # ys)))"

text \<open>Every kind but \<open>form\<close>, which normalized schemas do not nest.\<close>

definition validate_scalar :: "answer_env \<Rightarrow> string \<Rightarrow> json \<Rightarrow> json \<Rightarrow> interaction_option list \<Rightarrow> string \<Rightarrow> json res" where
  "validate_scalar env kind answer schema opts label =
     (let valid = map op_value opts in
      if kind = ''confirm'' then
        (let value = py_str (an_repr env) (first_answer answer) in
         if value \<in> set (if valid = [] then [''yes'', ''no''] else valid) then Inr (JStr value) else Inl (ValueError (''Invalid '' @ label @ '' value'')))
      else if kind = ''choice'' then validate_choice env valid answer schema label
      else if kind = ''multi'' then validate_multi env valid answer schema label
      else if kind = ''text'' \<or> kind = ''multiline'' then validate_text (kind = ''text'') answer schema label
      else if kind = ''integer'' then validate_integer env answer schema label
      else if kind = ''decimal'' then validate_decimal env answer schema label
      else if kind = ''date'' then
        (case an_date env (py_str (an_repr env) answer) of None \<Rightarrow> Inl (ValueError (label @ '' must be an ISO-8601 date'')) | Some d \<Rightarrow> Inr (JStr d))
      else if kind = ''datetime'' then validate_datetime env answer label
      else if kind = ''file'' then
        (if jtruthy (jget_or schema ''multiple'' JNull) then
           (case answer of
              JList (x # xs) \<Rightarrow> bind_res (validate_files env (x # xs) 0 label) (\<lambda>ys. Inr (JList ys))
            | _ \<Rightarrow> Inl (ValueError (label @ '' must be a non-empty list of file references'')))
         else validate_file env answer label)
      else Inl (ValueError (''unsupported interaction kind '' @ kind)))"

definition form_fields :: "json \<Rightarrow> (string, json) dict" where
  "form_fields schema =
     fold (\<lambda>field d. AList.update (case jget_or field ''name'' JNull of JStr s \<Rightarrow> s | _ \<Rightarrow> []) field d)
       (case jget_or schema ''fields'' (JList []) of JList fs \<Rightarrow> fs | _ \<Rightarrow> []) []"

fun validate_form :: "answer_env \<Rightarrow> (string, json) dict \<Rightarrow> (string, json) dict \<Rightarrow> string \<Rightarrow> (string, json) dict res" where
  "validate_form env [] answer label = Inr []"
| "validate_form env ((name, field) # fs) answer label =
     (case dict_get answer name JNull of
        JNull \<Rightarrow>
          if jtruthy (jget_or field ''required'' JNull) then Inl (ValueError (label @ ''.'' @ name @ '' is required'')) else validate_form env fs answer label
      | v \<Rightarrow>
          bind_res (normalize_options (an_repr env) (jget_or field ''options'' JNull)) (\<lambda>opts.
          bind_res (validate_scalar env (case jget_or field ''type'' JNull of JStr s \<Rightarrow> s | _ \<Rightarrow> []) v field opts (label @ ''.'' @ name)) (\<lambda>value.
          bind_res (validate_form env fs answer label) (\<lambda>rest. Inr ((name, value) # rest)))))"

definition validate_interaction_answer :: "answer_env \<Rightarrow> string \<Rightarrow> json \<Rightarrow> json \<Rightarrow> interaction_option list \<Rightarrow> string \<Rightarrow> json res" where
  "validate_interaction_answer env kind answer schema opts label =
     (if kind = ''form'' then
        (case answer of
           JDict d \<Rightarrow>
             if \<not> set (dict_keys d) \<subseteq> set (dict_keys (form_fields schema)) then Inl (ValueError (label @ '' contains unknown fields''))
             else bind_res (validate_form env (form_fields schema) d label) (\<lambda>r. Inr (JDict r))
         | _ \<Rightarrow> Inl (ValueError (label @ '' must be an object'')))
      else validate_scalar env kind answer schema opts label)"

subsection \<open>What an accepted answer is\<close>

text \<open>The answers a kind admits: the options, integers within the bounds, texts within their lengths.\<close>

definition in_bounds :: "answer_env \<Rightarrow> json \<Rightarrow> py_float \<Rightarrow> bool" where
  "in_bounds env schema n \<longleftrightarrow> (\<forall>b. jget schema ''minimum'' = Some b \<longrightarrow> (\<exists>x. an_float env b = Inr x \<and> \<not> float_less n x)) \<and>
     (\<forall>b. jget schema ''maximum'' = Some b \<longrightarrow> (\<exists>x. an_float env b = Inr x \<and> \<not> float_less x n))"

lemma bounded_number_Inr: "bounded_number env n schema label = Inr u \<longleftrightarrow> in_bounds env schema n"
  by (auto simp: bounded_number_def in_bounds_def bind_res_Inr_iff split: option.splits if_splits)

lemma validate_text_Inr:
  "validate_text single answer schema label = Inr v \<longleftrightarrow> (\<exists>s lo hi. answer = JStr s \<and> v = JStr s \<and> \<not> (single \<and> (CHR 0x0A \<in> set s \<or> CHR 0x0D \<in> set s)) \<and>
     json_int (jget_or schema ''min_length'' (JInt 0)) = Inr lo \<and> json_int (jget_or schema ''max_length'' (JInt 100000)) = Inr hi \<and>
     lo \<le> int (length s) \<and> int (length s) \<le> hi)"
  by (auto simp: validate_text_def bind_res_Inr_iff not_less split: json.splits if_splits)

lemma validate_integer_Inr:
  "validate_integer env answer schema label = Inr v \<Longrightarrow> \<exists>n x. v = JInt n \<and> an_float env (JInt n) = Inr x \<and> in_bounds env schema x"
  by (auto simp: validate_integer_def bind_res_Inr_iff bounded_number_Inr split: sum.splits if_splits json.splits)

lemma validate_choice_Inr:
  "validate_choice env valid answer schema label = Inr v \<Longrightarrow> \<exists>s. v = JStr s \<and> (s \<in> set valid \<or>
     (jget schema ''allow_other'' = Some (JBool True) \<and> py_strip s \<noteq> [] \<and> validate_text False (JStr s) schema label = Inr (JStr s)))"
  by (auto simp: validate_choice_def Let_def validate_text_Inr split: if_splits json.splits)

lemma validate_others_Inr:
  "fold_res (validate_other schema label) bad u = Inr u' \<Longrightarrow> \<forall>s \<in> set bad. py_strip s \<noteq> [] \<and> validate_text False (JStr s) schema label = Inr (JStr s)"
  by (induction bad arbitrary: u) (auto simp: bind_res_Inr_iff validate_other_def validate_text_Inr split: if_splits)

lemma validate_multi_Inr:
  assumes "validate_multi env valid answer schema label = Inr v"
  shows "\<exists>ss. v = JList (map JStr ss) \<and> ss \<noteq> [] \<and> (\<forall>s \<in> set ss. s \<in> set valid \<or>
     (jget schema ''allow_other'' = Some (JBool True) \<and> py_strip s \<noteq> [] \<and> validate_text False (JStr s) schema label = Inr (JStr s)))"
proof -
  define ss where "ss = map (py_str (an_repr env)) (case answer of JList xs \<Rightarrow> xs | _ \<Rightarrow> [answer])"
  define bad where "bad = filter (\<lambda>v. v \<notin> set valid) ss"
  define others where "others = (jget schema ''allow_other'' = Some (JBool True) \<and> bad \<noteq> [])"
  obtain u where u: "(if others then fold_res (validate_other schema label) bad () else Inr ()) = Inr u"
    and v: "ss \<noteq> []" "bad = [] \<or> others" "v = JList (map JStr ss)"
    using assms unfolding validate_multi_def Let_def ss_def [symmetric] bad_def [symmetric] others_def [symmetric]
    by (auto simp: bind_res_Inr_iff split: if_splits)
  have "s \<in> set valid \<or> (jget schema ''allow_other'' = Some (JBool True) \<and> py_strip s \<noteq> [] \<and> validate_text False (JStr s) schema label = Inr (JStr s))"
    if "s \<in> set ss" for s
  proof (cases "s \<in> set valid")
    case False
    then have "s \<in> set bad" using that by (simp add: bad_def)
    then show ?thesis using v(2) u validate_others_Inr [of schema label bad "()" u] by (auto simp: others_def)
  qed simp
  then show ?thesis using v by blast
qed

text \<open>A stored field value was accepted by the field's own validation.\<close>

definition field_accepts :: "answer_env \<Rightarrow> string \<Rightarrow> json \<Rightarrow> json \<Rightarrow> string \<Rightarrow> json \<Rightarrow> bool" where
  "field_accepts env name field given label value \<longleftrightarrow> (\<exists>opts. normalize_options (an_repr env) (jget_or field ''options'' JNull) = Inr opts \<and>
     validate_scalar env (case jget_or field ''type'' JNull of JStr s \<Rightarrow> s | _ \<Rightarrow> []) given field opts (label @ ''.'' @ name) = Inr value)"

lemma validate_form_Cons:
  assumes "validate_form env ((name, field) # fs) answer label = Inr r"
  shows "(dict_get answer name JNull = JNull \<and> \<not> jtruthy (jget_or field ''required'' JNull) \<and> validate_form env fs answer label = Inr r) \<or>
    (\<exists>value rest. field_accepts env name field (dict_get answer name JNull) label value \<and> validate_form env fs answer label = Inr rest \<and> r = (name, value) # rest)"
  using assms by (cases "dict_get answer name JNull") (auto simp: field_accepts_def bind_res_Inr_iff split: if_splits)

lemma validate_form_names:
  "validate_form env fs answer label = Inr r \<Longrightarrow> distinct (dict_keys fs) \<Longrightarrow> distinct (dict_keys r) \<and> set (dict_keys r) \<subseteq> set (dict_keys fs)"
proof (induction fs arbitrary: r)
  case (Cons f fs)
  obtain name field where f: "f = (name, field)" by fastforce
  show ?case using validate_form_Cons [OF Cons.prems(1) [unfolded f]] Cons.IH Cons.prems(2)
    by (elim disjE exE conjE) (simp_all add: f, blast+)
qed simp

lemma validate_form_required:
  "validate_form env fs answer label = Inr r \<Longrightarrow> (name, field) \<in> set fs \<Longrightarrow> jtruthy (jget_or field ''required'' JNull) \<Longrightarrow> name \<in> set (dict_keys r)"
proof (induction fs arbitrary: r)
  case (Cons f fs)
  obtain n g where f: "f = (n, g)" by fastforce
  show ?case using validate_form_Cons [OF Cons.prems(1) [unfolded f]] Cons.IH Cons.prems(2,3)
    by (elim disjE exE conjE) (auto simp: f)
qed simp

lemma validate_form_values:
  "validate_form env fs answer label = Inr r \<Longrightarrow> (name, value) \<in> set r \<Longrightarrow>
   \<exists>field. (name, field) \<in> set fs \<and> field_accepts env name field (dict_get answer name JNull) label value"
proof (induction fs arbitrary: r)
  case (Cons f fs)
  obtain n g where f: "f = (n, g)" by fastforce
  show ?case using validate_form_Cons [OF Cons.prems(1) [unfolded f]] Cons.IH Cons.prems(2)
    by (elim disjE exE conjE) (auto simp: f)
qed simp

text \<open>The specification of an answer of each scalar kind, and that of a form.\<close>

definition option_or_other :: "json \<Rightarrow> string list \<Rightarrow> string \<Rightarrow> string \<Rightarrow> bool" where
  "option_or_other schema valid label s \<longleftrightarrow> s \<in> set valid \<or>
     (jget schema ''allow_other'' = Some (JBool True) \<and> py_strip s \<noteq> [] \<and> validate_text False (JStr s) schema label = Inr (JStr s))"

definition text_within :: "json \<Rightarrow> string \<Rightarrow> bool" where
  "text_within schema s \<longleftrightarrow> (\<exists>lo hi. json_int (jget_or schema ''min_length'' (JInt 0)) = Inr lo \<and>
     json_int (jget_or schema ''max_length'' (JInt 100000)) = Inr hi \<and> lo \<le> int (length s) \<and> int (length s) \<le> hi)"

definition file_reference :: "json \<Rightarrow> bool" where
  "file_reference v \<longleftrightarrow> (\<exists>d i. v = JDict d \<and> map_of d ''file_id'' = Some (JStr i) \<and> is_file_id i \<and> set (dict_keys d) \<subseteq> {''file_id'', ''name'', ''mime_type'', ''size''})"

definition scalar_answer :: "answer_env \<Rightarrow> string \<Rightarrow> json \<Rightarrow> string list \<Rightarrow> string \<Rightarrow> json \<Rightarrow> bool" where
  "scalar_answer env kind schema valid label v \<longleftrightarrow> kind \<in> set SCALAR_KINDS \<and>
     (kind = ''confirm'' \<longrightarrow> v \<in> JStr ` set (if valid = [] then [''yes'', ''no''] else valid)) \<and>
     (kind = ''choice'' \<longrightarrow> v \<in> JStr ` {s. option_or_other schema valid label s}) \<and>
     (kind = ''multi'' \<longrightarrow> (\<exists>ss. v = JList (map JStr ss) \<and> ss \<noteq> [] \<and> list_all (option_or_other schema valid label) ss)) \<and>
     (kind = ''text'' \<longrightarrow> v \<in> JStr ` {s. text_within schema s \<and> CHR 0x0A \<notin> set s \<and> CHR 0x0D \<notin> set s}) \<and>
     (kind = ''multiline'' \<longrightarrow> v \<in> JStr ` {s. text_within schema s}) \<and>
     (kind = ''integer'' \<longrightarrow> (\<exists>n x. v = JInt n \<and> an_float env (JInt n) = Inr x \<and> in_bounds env schema x)) \<and>
     (kind = ''decimal'' \<longrightarrow> (\<exists>x t. v = JFloat x t \<and> in_bounds env schema (Finite x))) \<and>
     (kind = ''file'' \<longrightarrow> (if jtruthy (jget_or schema ''multiple'' JNull) then \<exists>vs. v = JList vs \<and> vs \<noteq> [] \<and> list_all file_reference vs else file_reference v))"

lemma validate_file_Inr: "validate_file env answer label = Inr v \<Longrightarrow> file_reference v"
  by (auto simp: validate_file_def file_reference_def bind_res_Inr_iff Let_def update_conv' dom_update split: json.splits if_splits)

lemma validate_files_Inr: "validate_files env xs n label = Inr ys \<Longrightarrow> length ys = length xs \<and> list_all file_reference ys"
  by (induction xs arbitrary: n ys) (auto simp: bind_res_Inr_iff dest: validate_file_Inr)

lemma validate_decimal_Inr: "validate_decimal env answer schema label = Inr v \<Longrightarrow> \<exists>x t. v = JFloat x t \<and> in_bounds env schema (Finite x)"
  by (auto simp: validate_decimal_def bind_res_Inr_iff bounded_number_Inr split: sum.splits json.splits py_float.splits)

lemma validate_text_within:
  "validate_text single answer schema label = Inr v \<Longrightarrow> \<exists>s. v = JStr s \<and> text_within schema s \<and> (single \<longrightarrow> CHR 0x0A \<notin> set s \<and> CHR 0x0D \<notin> set s)"
  by (auto simp: validate_text_Inr text_within_def)

lemma scalar_kind_cases:
  "kind \<in> set SCALAR_KINDS \<longleftrightarrow> kind \<in> {''confirm'', ''choice'', ''multi'', ''text'', ''multiline'', ''integer'', ''decimal'', ''date'', ''datetime'', ''file''}"
  by (auto simp: SCALAR_KINDS_def KINDS_def)

lemma validate_scalar_answer:
  assumes "validate_scalar env kind answer schema opts label = Inr v"
  shows "scalar_answer env kind schema (map op_value opts) label v"
proof -
  note kinds = scalar_answer_def scalar_kind_cases validate_scalar_def Let_def
  have "kind \<in> {''confirm'', ''choice'', ''multi'', ''text'', ''multiline'', ''integer'', ''decimal'', ''date'', ''datetime'', ''file''}"
    using assms by (auto simp: validate_scalar_def Let_def split: if_splits)
  then show ?thesis
    using assms
  proof (elim insertE emptyE)
    assume k: "kind = ''confirm''"
    show ?thesis using assms by (auto simp: k kinds split: if_splits)
  next
    assume k: "kind = ''choice''"
    show ?thesis using assms by (auto simp: k kinds option_or_other_def dest: validate_choice_Inr)
  next
    assume k: "kind = ''multi''"
    show ?thesis using assms validate_multi_Inr [of env "map op_value opts" answer schema label v]
      by (simp add: k kinds option_or_other_def list_all_iff)
  next
    assume k: "kind = ''text''"
    show ?thesis using assms by (auto simp: k kinds dest: validate_text_within)
  next
    assume k: "kind = ''multiline''"
    show ?thesis using assms by (auto simp: k kinds dest: validate_text_within)
  next
    assume k: "kind = ''integer''"
    show ?thesis using assms validate_integer_Inr [of env answer schema label v] by (simp add: k kinds)
  next
    assume k: "kind = ''decimal''"
    show ?thesis using assms validate_decimal_Inr [of env answer schema label v] by (simp add: k kinds)
  next
    assume k: "kind = ''file''"
    show ?thesis using assms by (auto simp: k kinds bind_res_Inr_iff validate_file_Inr split: if_splits json.splits list.splits) (auto dest!: validate_files_Inr simp: bind_res_Inr_iff)
  qed (simp_all add: scalar_answer_def scalar_kind_cases)
qed

lemma form_fields_distinct: "distinct (dict_keys (form_fields schema))"
proof -
  have "distinct (dict_keys (fold (\<lambda>f d. AList.update (k f) f d) fs d))" if "distinct (dict_keys d)" for k :: "json \<Rightarrow> string" and fs d
    using that by (induction fs arbitrary: d) (simp_all add: distinct_update)
  then show ?thesis by (simp add: form_fields_def)
qed

text \<open>
  C18: An accepted answer is of its kind: one of the options (or, where the schema allows it, a non-blank custom text), a text within
  its length bounds and on one line if it must be, a number within its bounds, well-formed file references; an accepted form has only
  fields of the schema, each once, every required one, and each value is an accepted answer of its field's type.
\<close>

theorem accepted_answer_valid:
  assumes "validate_interaction_answer env kind answer schema opts label = Inr v"
  shows "if kind = ''form'' then
      (\<exists>r. v = JDict r \<and> distinct (dict_keys r) \<and> set (dict_keys r) \<subseteq> set (dict_keys (form_fields schema)) \<and>
        (\<forall>(name, field) \<in> set (form_fields schema). jtruthy (jget_or field ''required'' JNull) \<longrightarrow> name \<in> set (dict_keys r)) \<and>
        (\<forall>(name, x) \<in> set r. \<exists>field fopts. map_of (form_fields schema) name = Some field \<and>
           normalize_options (an_repr env) (jget_or field ''options'' JNull) = Inr fopts \<and>
           scalar_answer env (case jget_or field ''type'' JNull of JStr s \<Rightarrow> s | _ \<Rightarrow> []) field (map op_value fopts) (label @ ''.'' @ name) x))
    else scalar_answer env kind schema (map op_value opts) label v"
proof (cases "kind = ''form''")
  case True
  then obtain d r where r: "validate_form env (form_fields schema) d label = Inr r" "v = JDict r"
    using assms by (auto simp: validate_interaction_answer_def bind_res_Inr_iff split: json.splits if_splits)
  have "\<exists>field fopts. map_of (form_fields schema) name = Some field \<and> normalize_options (an_repr env) (jget_or field ''options'' JNull) = Inr fopts \<and>
      scalar_answer env (case jget_or field ''type'' JNull of JStr s \<Rightarrow> s | _ \<Rightarrow> []) field (map op_value fopts) (label @ ''.'' @ name) x"
    if "(name, x) \<in> set r" for name x
  proof -
    obtain field where f: "(name, field) \<in> set (form_fields schema)" "field_accepts env name field (dict_get d name JNull) label x"
      using validate_form_values [OF r(1) \<open>(name, x) \<in> set r\<close>] by blast
    then show ?thesis
      using form_fields_distinct [of schema] validate_scalar_answer unfolding field_accepts_def by fastforce
  qed
  then show ?thesis
    using r validate_form_names [OF r(1) form_fields_distinct] validate_form_required [OF r(1)] True by auto
next
  case False
  then show ?thesis using assms by (simp add: validate_interaction_answer_def validate_scalar_answer)
qed

definition demo_answers :: answer_env where
  "demo_answers = \<lparr>an_repr = (\<lambda>_. ''?''), an_float = (\<lambda>v. bind_res (json_int v) (\<lambda>n. Inr (Finite (of_int n)))), an_float_text = (\<lambda>_. ''0.0''),
     an_date = Some, an_datetime = (\<lambda>s. Some (True, s))\<rparr>"

definition demo_form :: json where
  "demo_form = JDict [(''fields'', JList [
     JDict [(''name'', JStr ''who''), (''type'', JStr ''text''), (''required'', JBool True)],
     JDict [(''name'', JStr ''size''), (''type'', JStr ''choice''), (''options'', JList [JStr ''S'', JStr ''M''])]])]"

lemma accepted_answer_valid_witness:
  "validate_interaction_answer demo_answers ''form'' (JDict [(''size'', JStr ''M''), (''who'', JStr ''ann'')]) demo_form [] ''answer'' =
     Inr (JDict [(''who'', JStr ''ann''), (''size'', JStr ''M'')]) \<and>
   set (dict_keys [(''who'', JStr ''ann''), (''size'', JStr ''M'')]) \<subseteq> set (dict_keys (form_fields demo_form))"
proof -
  have e: "validate_interaction_answer demo_answers ''form'' (JDict [(''size'', JStr ''M''), (''who'', JStr ''ann'')]) demo_form [] ''answer'' =
     Inr (JDict [(''who'', JStr ''ann''), (''size'', JStr ''M'')])"
    by code_simp
  from accepted_answer_valid [OF e] e show ?thesis by simp
qed

end
