(* ===== verification/Interactions.thy ===== *)
theory Interactions
  imports Interaction_Answers Executor_Outcomes
begin

section \<open>User interactions and durable waits\<close>

text \<open>
  The store of \<open>core/confirmation_store.py\<close> and the tasks of \<open>tasks/control/durable_confirm.py\<close> that use it.  \<open>interactions\<close> has
  the tables of the store, the events and agent wake-ups it sends, and the executors of the registry into which a parked FlowFile is
  injected again (\<open>Executor.inject\<close>); \<open>it_delivered\<close> lists the accepted deliveries.  An exception that leaves the
  store changed is a result beside the new state.  SHA-256, UUIDs, the ISO texts of dates, Python's \<open>float\<close> on the text of a finite
  number and the runtime of workflow agents are arguments (\<open>interaction_env\<close>).  The clock is read once per operation, rows are visited in
  the order of their insertion, and the store is available.
\<close>

subsection \<open>State\<close>

datatype request_status = Pending | Answered | Cancelled | Expired

record interaction =
  rq_id :: string
  rq_conversation :: string
  rq_user :: string
  rq_requester_kind :: string
  rq_requester :: string
  rq_title :: string
  rq_message :: string
  rq_kind :: string
  rq_options :: "interaction_option list"
  rq_schema :: json
  rq_signal :: string
  rq_continuation :: json
  rq_created :: real
  rq_expires :: real
  rq_status :: request_status
  rq_answer :: json
  rq_answered_by :: string
  rq_answered_at :: real

record parked_flowfile =
  pk_content_b64 :: string
  pk_attributes :: "(string, string) dict"
  pk_process_id :: string

datatype wait_status = Waiting | Resolved | TimedOut | Elapsed | WaitCancelled | Delivered

datatype wait_kind = SignalWait | TimerWait

record wait_row =
  wt_id :: string
  wt_signal :: string
  wt_instance :: string
  wt_task :: string
  wt_flowfile :: parked_flowfile
  wt_created :: real
  wt_expires :: real
  wt_status :: wait_status
  wt_resolution :: "json option"
  wt_kind :: wait_kind
  wt_import :: "string option"

record interactions =
  it_requests :: "interaction list"
  it_waits :: "wait_row list"
  it_values :: "(string, json) dict"
  it_events :: "(string \<times> string \<times> interaction) list"
  it_wakes :: "(string \<times> string \<times> string \<times> string) list"
  it_executors :: "(string, executor) dict"
  it_delivered :: "(string \<times> flowfile) list"
  it_next :: nat

record interaction_env =
  ie_answers :: answer_env
  ie_digest :: "string \<Rightarrow> string"
  ie_fresh :: "nat \<Rightarrow> string"
  ie_date :: "real \<Rightarrow> string"
  ie_float :: "string \<Rightarrow> real option"
  ie_parse_date :: "string \<Rightarrow> (bool \<times> real) option"
  ie_resume :: "string \<Rightarrow> flowfile \<Rightarrow> string \<Rightarrow> bool res"

definition status_text :: "request_status \<Rightarrow> string" where
  "status_text s = (case s of Pending \<Rightarrow> ''pending'' | Answered \<Rightarrow> ''answered'' | Cancelled \<Rightarrow> ''cancelled'' | Expired \<Rightarrow> ''expired'')"

definition wait_status_text :: "wait_status \<Rightarrow> string" where
  "wait_status_text s = (case s of Waiting \<Rightarrow> ''waiting'' | Resolved \<Rightarrow> ''resolved'' | TimedOut \<Rightarrow> ''timeout'' | Elapsed \<Rightarrow> ''elapsed''
     | WaitCancelled \<Rightarrow> ''cancelled'' | Delivered \<Rightarrow> ''delivered'')"

definition get_interaction :: "string \<Rightarrow> interactions \<Rightarrow> interaction option" where
  "get_interaction rid s = find (\<lambda>r. rq_id r = rid) (it_requests s)"

definition get_wait :: "string \<Rightarrow> interactions \<Rightarrow> wait_row option" where
  "get_wait wid s = find (\<lambda>w. wt_id w = wid) (it_waits s)"

definition update_requests :: "(interaction \<Rightarrow> bool) \<Rightarrow> (interaction \<Rightarrow> interaction) \<Rightarrow> interactions \<Rightarrow> interactions" where
  "update_requests P f s = s\<lparr>it_requests := map (\<lambda>r. if P r then f r else r) (it_requests s)\<rparr>"

definition update_waits :: "(wait_row \<Rightarrow> bool) \<Rightarrow> (wait_row \<Rightarrow> wait_row) \<Rightarrow> interactions \<Rightarrow> interactions" where
  "update_waits P f s = s\<lparr>it_waits := map (\<lambda>w. if P w then f w else w) (it_waits s)\<rparr>"

definition insert_wait :: "wait_row \<Rightarrow> interactions \<Rightarrow> interactions res" where
  "insert_wait w s = (if get_wait (wt_id w) s = None then Inr (s\<lparr>it_waits := it_waits s @ [w]\<rparr>) else Inl (RuntimeError ''IntegrityError''))"

definition publish_interaction :: "string \<Rightarrow> string \<Rightarrow> interaction \<Rightarrow> interactions \<Rightarrow> interactions" where
  "publish_interaction conversation event r s = s\<lparr>it_events := it_events s @ [(conversation, event, r)]\<rparr>"

definition publish_answered :: "interaction \<Rightarrow> interactions \<Rightarrow> interactions" where
  "publish_answered r s =
     (let s1 = publish_interaction (rq_conversation r) ''interaction_answered'' r s in
      if py_startswith (rq_signal r) ''confirmation:'' then publish_interaction (rq_conversation r) ''confirmation_answered'' r s1 else s1)"

subsection \<open>Creation\<close>

record request_args =
  ra_conversation :: string
  ra_user :: string
  ra_requester_kind :: string
  ra_requester :: string
  ra_message :: string
  ra_title :: string
  ra_kind :: string
  ra_options :: json
  ra_schema :: json
  ra_expires_in :: real
  ra_continuation :: json
  ra_prefix :: string
  ra_key :: string

definition request_id_of :: "interaction_env \<Rightarrow> string \<Rightarrow> request_args \<Rightarrow> string" where
  "request_id_of env uuid a =
     (let key = py_strip (ra_key a) in
      ''req_'' @ take 16 (if key = [] then uuid
        else ie_digest env (join_with [CHR 0x00] [ra_conversation a, ra_user a, ra_requester_kind a, key])))"

definition same_request :: "interaction \<Rightarrow> interaction \<Rightarrow> bool" where
  "same_request a b \<longleftrightarrow> rq_conversation a = rq_conversation b \<and> rq_user a = rq_user b \<and> rq_requester_kind a = rq_requester_kind b \<and>
     rq_requester a = rq_requester b \<and> rq_title a = rq_title b \<and> rq_message a = rq_message b \<and> rq_kind a = rq_kind b \<and>
     rq_options a = rq_options b \<and> jeq (rq_schema a) (rq_schema b) \<and> rq_signal a = rq_signal b \<and> jeq (rq_continuation a) (rq_continuation b)"

definition prepare_request :: "interaction_env \<Rightarrow> real \<Rightarrow> string \<Rightarrow> request_args \<Rightarrow> interaction res" where
  "prepare_request env now uuid a =
     (let kind = py_lower (py_strip (ra_kind a)) in
      if ra_conversation a = [] \<or> ra_user a = [] then Inl (ValueError ''conversation_id and user_id are required'')
      else if py_strip (ra_message a) = [] then Inl (ValueError ''message is required'')
      else if kind \<notin> set KINDS then Inl (ValueError ''unsupported interaction kind'')
      else bind_res (normalize_options (an_repr (ie_answers env)) (ra_options a)) (\<lambda>given.
        let opts = (if kind = ''confirm'' \<and> given = [] then [\<lparr>op_value = ''yes'', op_label = ''Yes''\<rparr>, \<lparr>op_value = ''no'', op_label = ''No''\<rparr>] else given) in
        if kind \<in> {''choice'', ''multi''} \<and> length opts < 2 then Inl (ValueError (''kind '' @ kind @ '' requires at least 2 options''))
        else bind_res (normalize_response_schema (an_repr (ie_answers env)) kind (ra_schema a)) (\<lambda>schema.
          let continuation = (if jtruthy (ra_continuation a) then ra_continuation a else JDict []);
              rid = request_id_of env uuid a in
          if \<not> is_dict continuation then Inl (ValueError ''continuation must be an object'')
          else Inr \<lparr>rq_id = rid, rq_conversation = ra_conversation a, rq_user = ra_user a, rq_requester_kind = ra_requester_kind a,
            rq_requester = ra_requester a, rq_title = ra_title a, rq_message = ra_message a, rq_kind = kind, rq_options = opts, rq_schema = schema,
            rq_signal = ra_prefix a @ '':'' @ rid, rq_continuation = continuation, rq_created = now,
            rq_expires = (if ra_expires_in a \<noteq> 0 then now + ra_expires_in a else 0), rq_status = Pending, rq_answer = JNull,
            rq_answered_by = [], rq_answered_at = 0\<rparr>)))"

definition create_interaction :: "interaction_env \<Rightarrow> real \<Rightarrow> string \<Rightarrow> request_args \<Rightarrow> interactions \<Rightarrow> (interaction \<times> interactions) res" where
  "create_interaction env now uuid a s =
     bind_res (prepare_request env now uuid a) (\<lambda>r.
       case get_interaction (rq_id r) s of
         Some current \<Rightarrow>
           if same_request current r then Inr (current, s)
           else Inl (ValueError ''idempotency key already identifies a different interaction'')
       | None \<Rightarrow>
           (let s1 = publish_interaction (rq_conversation r) ''interaction_request'' r (s\<lparr>it_requests := it_requests s @ [r]\<rparr>) in
            Inr (r, if ra_prefix a = ''confirmation'' then publish_interaction (rq_conversation r) ''confirmation_request'' r s1 else s1)))"

definition create_confirmation :: "interaction_env \<Rightarrow> real \<Rightarrow> string \<Rightarrow> request_args \<Rightarrow> interactions \<Rightarrow> (interaction \<times> interactions) res" where
  "create_confirmation env now uuid a s =
     (let mode = py_lower (py_strip (if ra_kind a = [] then ''confirm'' else ra_kind a)) in
      if mode \<notin> {''confirm'', ''choice'', ''multi''} then Inl (ValueError ''mode must be confirm, choice, or multi'')
      else create_interaction env now uuid (a\<lparr>ra_kind := mode, ra_schema := JNull, ra_continuation := JNull, ra_prefix := ''confirmation''\<rparr>) s)"

definition list_interactions :: "string \<Rightarrow> string \<Rightarrow> string \<Rightarrow> int \<Rightarrow> interactions \<Rightarrow> interaction list" where
  "list_interactions user conversation status limit s =
     take (nat (max 1 (min (if limit = 0 then 100 else limit) 500)))
       (sort_key_desc rq_created (filter (\<lambda>r. rq_user r = user \<and> (conversation = [] \<or> rq_conversation r = conversation) \<and>
          (status = [] \<or> status = ''all'' \<or> status_text (rq_status r) = status)) (it_requests s)))"

subsection \<open>Durations and deadlines\<close>

definition TIMEOUT_UNITS :: "(string \<times> real) list" where
  "TIMEOUT_UNITS = [(''mo'', 30 * 86400), (''y'', 365 * 86400), (''w'', 7 * 86400), (''d'', 86400), (''h'', 3600), (''m'', 60), (''s'', 1)]"

definition py_endswith :: "string \<Rightarrow> string \<Rightarrow> bool" where
  "py_endswith text suffix \<longleftrightarrow> py_startswith (rev text) (rev suffix)"

definition float_res :: "interaction_env \<Rightarrow> string \<Rightarrow> real res" where
  "float_res env text = (case ie_float env text of None \<Rightarrow> Inl (ValueError ''could not convert string to float'') | Some x \<Rightarrow> Inr x)"

definition parse_timeout_seconds :: "interaction_env \<Rightarrow> json \<Rightarrow> real res" where
  "parse_timeout_seconds env value =
     (case value of
        JNull \<Rightarrow> Inr 0
      | JInt n \<Rightarrow> if n < 0 then Inl (ValueError ''timeout must be >= 0'') else Inr (of_int n)
      | JFloat x _ \<Rightarrow> if x < 0 then Inl (ValueError ''timeout must be >= 0'') else Inr x
      | JBool b \<Rightarrow> Inr (if b then 1 else 0)
      | _ \<Rightarrow>
          (let text = py_lower (py_strip (py_str (an_repr (ie_answers env)) value)) in
           if text = [] then Inr 0
           else case find (\<lambda>(suffix, _). py_endswith text suffix) TIMEOUT_UNITS of
             Some (suffix, unit) \<Rightarrow> bind_res (float_res env (py_strip (take (length text - length suffix) text))) (\<lambda>x. Inr (x * unit))
           | None \<Rightarrow> float_res env text))"

definition parse_utc_deadline :: "interaction_env \<Rightarrow> json \<Rightarrow> real res" where
  "parse_utc_deadline env value =
     (let given = py_strip (str_or_empty (an_repr (ie_answers env)) value);
          text = (if py_endswith given ''Z'' then butlast given @ ''+00:00'' else given) in
      if given = [] then Inl (ValueError ''until is required'')
      else case ie_parse_date env text of
        None \<Rightarrow> Inl (ValueError ''until must be an ISO-8601 timestamp'')
      | Some (zone, t) \<Rightarrow> if zone then Inr t else Inl (ValueError ''until must include a timezone''))"

subsection \<open>Parked FlowFiles and their delivery\<close>

definition serialize_parked :: "flowfile \<Rightarrow> parked_flowfile" where
  "serialize_parked ff = \<lparr>pk_content_b64 = b64encode (ff_content ff), pk_attributes = ff_attributes ff, pk_process_id = ff_process_id ff\<rparr>"

definition restore_parked :: "nat \<Rightarrow> string \<Rightarrow> parked_flowfile \<Rightarrow> flowfile res" where
  "restore_parked oid fresh p =
     bind_res (b64decode (pk_content_b64 p)) (\<lambda>content.
       Inr (fold (\<lambda>(k, v). set_attribute k v) (pk_attributes p) (new_flowfile oid fresh content [] (Some (pk_process_id p)))))"

definition is_interaction_signal :: "string \<Rightarrow> bool" where
  "is_interaction_signal signal \<longleftrightarrow> py_startswith signal ''interaction:'' \<or> py_startswith signal ''confirmation:''"

definition stamp_interaction_resolution :: "interaction_env \<Rightarrow> string \<Rightarrow> json \<Rightarrow> flowfile \<Rightarrow> flowfile" where
  "stamp_interaction_resolution env signal value ff =
     (if \<not> is_interaction_signal signal then ff
      else
        (let given = jget_or value ''status'' JNull;
             status = (if is_dict value \<and> jtruthy given then py_str (an_repr (ie_answers env)) given else ''signaled'');
             answer = (if is_dict value then jget_or value ''answer'' JNull else value);
             ff1 = set_attribute ''interaction.status'' status ff in
         case answer of
           JNull \<Rightarrow> ff1
         | JStr text \<Rightarrow> set_attribute ''interaction.answer'' text ff1
         | _ \<Rightarrow> set_attribute ''interaction.answer'' (json_text answer) ff1))"

definition stamp_delivery :: "interaction_env \<Rightarrow> real \<Rightarrow> wait_row \<Rightarrow> flowfile \<Rightarrow> flowfile" where
  "stamp_delivery env now w ff =
     (case wt_kind w of
        TimerWait \<Rightarrow>
          (let status = wait_status_text (wt_status w) in
           set_attribute ''route.relationship'' status (set_attribute ''durable.timer.elapsed_at'' (ie_date env now)
             (set_attribute ''durable.timer.scheduled_at'' (ie_date env (wt_expires w)) (set_attribute ''durable.timer.status'' status ff))))
      | SignalWait \<Rightarrow>
          (let status = (case wt_status w of TimedOut \<Rightarrow> ''timeout'' | WaitCancelled \<Rightarrow> ''cancelled'' | _ \<Rightarrow> ''signaled'');
               ff1 = set_attribute ''durable.wait.signal_id'' (wt_signal w) (set_attribute ''durable.wait.status'' status ff) in
           case wt_resolution w of
             Some value \<Rightarrow> stamp_interaction_resolution env (wt_signal w) value (set_attribute ''durable.wait.value'' (json_text value) ff1)
           | None \<Rightarrow> if is_interaction_signal (wt_signal w) then set_attribute ''interaction.status'' status ff1 else ff1))"

definition workflow_run_id :: "string \<Rightarrow> string" where
  "workflow_run_id inst = (if py_startswith inst ''workflow:'' then drop 9 inst else [])"

text \<open>The handover of the restored FlowFile: whether it was accepted, and the executors.\<close>

definition hand_over :: "interaction_env \<Rightarrow> real \<Rightarrow> wait_row \<Rightarrow> flowfile \<Rightarrow> interactions \<Rightarrow> bool \<times> interactions" where
  "hand_over env now w ff s =
     (let run = workflow_run_id (wt_instance w) in
      if run \<noteq> [] then (ie_resume env run ff (wt_task w) = Inr True, s)
      else case map_of (it_executors s) (wt_instance w) of
        None \<Rightarrow> (False, s)
      | Some ex \<Rightarrow> (case inject now ff (Some (wt_task w)) ex of
           Inl _ \<Rightarrow> (False, s)
         | Inr (ok, ex') \<Rightarrow> (ok, s\<lparr>it_executors := AList.update (wt_instance w) ex' (it_executors s)\<rparr>)))"

definition deliverable :: "wait_row \<Rightarrow> interactions \<Rightarrow> bool" where
  "deliverable w s \<longleftrightarrow> workflow_run_id (wt_instance w) \<noteq> [] \<or>
     (case map_of (it_executors s) (wt_instance w) of None \<Rightarrow> False | Some ex \<Rightarrow> \<not> ex_stop ex)"

definition deliver_wait :: "interaction_env \<Rightarrow> real \<Rightarrow> wait_row \<Rightarrow> interactions \<Rightarrow> bool \<times> interactions" where
  "deliver_wait env now w s =
     (if \<not> deliverable w s then (False, s)
      else case restore_parked (it_next s) (ie_fresh env (it_next s)) (wt_flowfile w) of
        Inl _ \<Rightarrow> (False, s)
      | Inr restored \<Rightarrow>
          (let ff = stamp_delivery env now w restored; (ok, s1) = hand_over env now w ff (s\<lparr>it_next := Suc (it_next s)\<rparr>) in
           if ok then (True, update_waits (\<lambda>r. wt_id r = wt_id w) (\<lambda>r. r\<lparr>wt_status := Delivered\<rparr>) (s1\<lparr>it_delivered := it_delivered s1 @ [(wt_id w, ff)]\<rparr>))
           else (False, s1)))"

definition undelivered :: "wait_row \<Rightarrow> bool" where
  "undelivered w \<longleftrightarrow> wt_status w \<in> {Resolved, TimedOut, Elapsed, WaitCancelled}"

fun deliver_rows :: "interaction_env \<Rightarrow> real \<Rightarrow> wait_row list \<Rightarrow> interactions \<Rightarrow> nat \<times> interactions" where
  "deliver_rows env now [] s = (0, s)"
| "deliver_rows env now (w # ws) s =
     (let (ok, s1) = deliver_wait env now w s; (n, s2) = deliver_rows env now ws s1 in ((if ok then Suc n else n), s2))"

definition deliver_resolved :: "interaction_env \<Rightarrow> real \<Rightarrow> interactions \<Rightarrow> nat \<times> interactions" where
  "deliver_resolved env now s = deliver_rows env now (filter undelivered (it_waits s)) s"

subsection \<open>Signals\<close>

text \<open>\<open>notify_signal\<close> is one transaction (\<open>resolve_signal\<close>) followed by a delivery.\<close>

definition waits_on :: "string \<Rightarrow> wait_row \<Rightarrow> bool" where
  "waits_on signal w \<longleftrightarrow> wt_signal w = signal \<and> wt_status w = Waiting"

definition resolve_signal :: "string \<Rightarrow> json \<Rightarrow> interactions \<Rightarrow> nat \<times> interactions" where
  "resolve_signal signal value s =
     (let rows = filter (waits_on signal) (it_waits s);
          s1 = update_waits (\<lambda>w. wt_id w \<in> set (map wt_id rows)) (\<lambda>w. w\<lparr>wt_status := Resolved, wt_resolution := Some value\<rparr>) s in
      (length rows, if rows = [] then s1\<lparr>it_values := AList.update signal value (it_values s1)\<rparr> else s1))"

definition notify_signal :: "interaction_env \<Rightarrow> real \<Rightarrow> string \<Rightarrow> json \<Rightarrow> interactions \<Rightarrow> (nat \<times> interactions) res" where
  "notify_signal env now signal value s =
     (if signal = [] then Inl (ValueError ''signal_id is required'')
      else (let (n, s1) = resolve_signal signal value s in Inr (n, if n > 0 then snd (deliver_resolved env now s1) else s1)))"

definition consume_signal_value :: "string \<Rightarrow> interactions \<Rightarrow> json \<times> interactions" where
  "consume_signal_value signal s =
     (case map_of (it_values s) signal of None \<Rightarrow> (JNull, s) | Some value \<Rightarrow> (value, s\<lparr>it_values := AList.delete signal (it_values s)\<rparr>))"

definition wait_id_of :: "interaction_env \<Rightarrow> string \<Rightarrow> string \<Rightarrow> string \<Rightarrow> flowfile \<Rightarrow> string" where
  "wait_id_of env signal inst task ff = ''wait_'' @ take 16 (ie_digest env (join_with [CHR 0x00] [signal, inst, task, ff_process_id ff]))"

text \<open>\<open>park_wait\<close> consumes a stored value in one transaction and inserts the row in another (\<open>park_insert\<close>).\<close>

definition park_insert :: "interaction_env \<Rightarrow> real \<Rightarrow> string \<Rightarrow> string \<Rightarrow> string \<Rightarrow> flowfile \<Rightarrow> real \<Rightarrow> interactions \<Rightarrow> string \<times> interactions" where
  "park_insert env now signal inst task ff timeout s =
     (let wid = wait_id_of env signal inst task ff in
      if get_wait wid s \<noteq> None then (wid, s)
      else (wid, s\<lparr>it_waits := it_waits s @ [\<lparr>wt_id = wid, wt_signal = signal, wt_instance = inst, wt_task = task, wt_flowfile = serialize_parked ff,
        wt_created = now, wt_expires = (if timeout \<noteq> 0 then now + timeout else 0), wt_status = Waiting, wt_resolution = None, wt_kind = SignalWait,
        wt_import = None\<rparr>]\<rparr>))"

definition park_wait ::
    "interaction_env \<Rightarrow> real \<Rightarrow> string \<Rightarrow> string \<Rightarrow> string \<Rightarrow> flowfile \<Rightarrow> real \<Rightarrow> interactions \<Rightarrow> (string option \<times> flowfile) res \<times> interactions" where
  "park_wait env now signal inst task ff timeout s =
     (if signal = [] then (Inl (ValueError ''signal_id is required''), s)
      else
        (let (value, s1) = consume_signal_value signal s in
         if value \<noteq> JNull then
           (Inr (None, stamp_interaction_resolution env signal value
              (set_attribute ''durable.wait.value'' (json_text value) (set_attribute ''durable.wait.status'' ''signaled'' ff))), s1)
         else if ff_process_id ff = [] then (Inl (ValueError ''flowfile process_id is required''), s1)
         else (let (wid, s2) = park_insert env now signal inst task ff timeout s1 in (Inr (Some wid, ff), s2))))"

subsection \<open>Timers\<close>

definition park_timer ::
    "interaction_env \<Rightarrow> real \<Rightarrow> string \<Rightarrow> string \<Rightarrow> string \<Rightarrow> flowfile \<Rightarrow> real \<Rightarrow> interactions \<Rightarrow> (string option \<times> flowfile \<times> interactions) res" where
  "park_timer env now uuid inst task ff deadline s =
     (if inst = [] \<or> task = [] then Inl (ValueError ''instance_id and task_id are required'')
      else if deadline \<le> now then
        Inr (None, set_attribute ''route.relationship'' ''elapsed'' (set_attribute ''durable.timer.elapsed_at'' (ie_date env now)
          (set_attribute ''durable.timer.status'' ''elapsed'' ff)), s)
      else
        (let wid = ''timer_'' @ take 16 uuid in
         bind_res (insert_wait \<lparr>wt_id = wid, wt_signal = wid, wt_instance = inst, wt_task = task, wt_flowfile = serialize_parked ff, wt_created = now,
           wt_expires = deadline, wt_status = Waiting, wt_resolution = None, wt_kind = TimerWait, wt_import = None\<rparr> s) (\<lambda>s1. Inr (Some wid, ff, s1))))"

definition json_number :: "json \<Rightarrow> real option" where
  "json_number v = (case v of JInt n \<Rightarrow> Some (of_int n) | JFloat x _ \<Rightarrow> Some x | _ \<Rightarrow> None)"

definition import_timer ::
    "string \<Rightarrow> string \<Rightarrow> string \<Rightarrow> flowfile \<Rightarrow> json \<Rightarrow> json \<Rightarrow> json \<Rightarrow> interactions \<Rightarrow> (wait_row \<times> interactions) res" where
  "import_timer wait_id instance_id task_id ff deadline_at created_at metadata s =
     (let wid = py_strip wait_id; inst = py_strip instance_id; task = py_strip task_id in
      if \<not> py_startswith wid ''timer_legacy_'' \<or> inst = [] \<or> task = [] then
        Inl (ValueError ''wait_id, instance_id and task_id are required for imported timer'')
      else if \<not> is_dict metadata \<or> \<not> jtruthy metadata then Inl (ValueError ''import_metadata must be a non-empty object'')
      else case json_number created_at of
        None \<Rightarrow> Inl (ValueError ''created_at must be numeric'')
      | Some created \<Rightarrow> (case json_number deadline_at of
          None \<Rightarrow> Inl (ValueError ''deadline_at must be numeric'')
        | Some deadline \<Rightarrow>
            if deadline < created then Inl (ValueError ''deadline_at must not precede created_at'')
            else
              (let expected = \<lparr>wt_id = wid, wt_signal = wid, wt_instance = inst, wt_task = task, wt_flowfile = serialize_parked ff, wt_created = created,
                     wt_expires = deadline, wt_status = Waiting, wt_resolution = None, wt_kind = TimerWait, wt_import = Some (json_dumps metadata)\<rparr> in
               case get_wait wid s of
                 Some row \<Rightarrow> if row = expected then Inr (expected, s) else Inl (ValueError ''different imported timer already exists'')
               | None \<Rightarrow> bind_res (insert_wait expected s) (\<lambda>s1. Inr (expected, s1)))))"

definition delete_imported_wait :: "string \<Rightarrow> json \<Rightarrow> interactions \<Rightarrow> (bool \<times> interactions) res" where
  "delete_imported_wait wid metadata s =
     (case get_wait wid s of
        None \<Rightarrow> Inr (False, s)
      | Some row \<Rightarrow>
          if wt_import row \<noteq> Some (json_dumps metadata) then Inl (ValueError ''imported wait provenance does not match'')
          else if wt_status row \<noteq> Waiting then Inl (ValueError ''imported wait is no longer compensatable'')
          else Inr (True, s\<lparr>it_waits := filter (\<lambda>w. wt_id w \<noteq> wid) (it_waits s)\<rparr>))"

subsection \<open>Queries and cancellation of waits\<close>

definition list_waits :: "string \<Rightarrow> int \<Rightarrow> interactions \<Rightarrow> wait_row list" where
  "list_waits status limit s =
     take (nat (max 1 (min (if limit = 0 then 200 else limit) 1000)))
       (sort_key_desc wt_created (filter (\<lambda>w. status = [] \<or> status = ''all'' \<or> wait_status_text (wt_status w) = status) (it_waits s)))"

definition list_waits_for_instances :: "string list \<Rightarrow> string \<Rightarrow> interactions \<Rightarrow> wait_row list" where
  "list_waits_for_instances instances status s =
     (let values = dedup (filter (\<lambda>v. v \<noteq> []) (map py_strip instances)) in
      sort_key_desc wt_created (filter (\<lambda>w. wt_instance w \<in> set values \<and>
        (status = [] \<or> status = ''all'' \<or> wait_status_text (wt_status w) = status)) (it_waits s)))"

definition has_pending_waits :: "string \<Rightarrow> interactions \<Rightarrow> bool" where
  "has_pending_waits inst s \<longleftrightarrow> inst \<noteq> [] \<and> (\<exists>w \<in> set (it_waits s). wt_instance w = inst \<and> wt_status w \<noteq> Delivered)"

definition cancel_wait :: "interaction_env \<Rightarrow> real \<Rightarrow> string \<Rightarrow> interactions \<Rightarrow> bool \<times> interactions" where
  "cancel_wait env now wid s =
     (if \<exists>w \<in> set (it_waits s). wt_id w = wid \<and> wt_status w = Waiting
      then (True, snd (deliver_resolved env now (update_waits (\<lambda>w. wt_id w = wid \<and> wt_status w = Waiting) (\<lambda>w. w\<lparr>wt_status := WaitCancelled\<rparr>) s)))
      else (False, s))"

subsection \<open>Answers, cancellation and expiry of requests\<close>

definition set_request_status :: "string \<Rightarrow> request_status \<Rightarrow> interactions \<Rightarrow> interactions" where
  "set_request_status rid st = update_requests (\<lambda>r. rq_id r = rid) (\<lambda>r. r\<lparr>rq_status := st\<rparr>)"

fun question_answers :: "json list \<Rightarrow> json \<Rightarrow> json list res" where
  "question_answers [] answer = Inr []"
| "question_answers (field # fs) answer =
     (case field of
        JDict d \<Rightarrow> (case map_of d ''name'' of
            None \<Rightarrow> Inl (KeyError ''name'')
          | Some name \<Rightarrow> (case answer of
              JDict given \<Rightarrow> bind_res (question_answers fs answer) (\<lambda>rest.
                Inr (JDict [(''question'', dict_get d ''label'' name), (''answer'', (case name of JStr n \<Rightarrow> dict_get given n JNull | _ \<Rightarrow> JNull))] # rest))
            | _ \<Rightarrow> Inl (AttributeError ''get'')))
      | _ \<Rightarrow> Inl (AttributeError ''get''))"

definition is_message_reply :: "interaction \<Rightarrow> bool" where
  "is_message_reply r \<longleftrightarrow> rq_requester_kind r = ''provider'' \<and> jget (rq_continuation r) ''response_mode'' = Some (JStr ''message'')"

definition wake_agent :: "interaction \<Rightarrow> string \<Rightarrow> interactions \<Rightarrow> interactions" where
  "wake_agent r answer s =
     s\<lparr>it_wakes := it_wakes s @ [(rq_conversation r, ''confirmation::'' @ rq_id r,
        (if rq_requester r = [] then [] else ''[scheduled:'' @ rq_requester r @ ''] '') @ ''[interaction:'' @ rq_id r @
        ''] The user answered your interaction request '' @ [CHR 0x22] @ take 120 (rq_message r) @ [CHR 0x22] @ '': '' @ answer @
        ''. Continue from where you left off.'', rq_user r)]\<rparr>"

definition resume_requester :: "interaction_env \<Rightarrow> real \<Rightarrow> interaction \<Rightarrow> interactions \<Rightarrow> unit res \<times> interactions" where
  "resume_requester env now r s =
     (case notify_signal env now (rq_signal r)
         (JDict [(''status'', JStr ''answered''), (''answer'', rq_answer r), (''answered_by'', JStr (rq_answered_by r))]) s of
        Inl e \<Rightarrow> (Inl e, s)
      | Inr (_, s1) \<Rightarrow>
          if is_message_reply r then
            (case question_answers (case jget_or (rq_schema r) ''fields'' (JList []) of JList fs \<Rightarrow> fs | _ \<Rightarrow> []) (rq_answer r) of
               Inl e \<Rightarrow> (Inl e, s1)
             | Inr qs \<Rightarrow> (Inr (), wake_agent r (json_text (JList qs)) s1))
          else (Inr (), if rq_requester_kind r = ''agent'' then wake_agent r (json_text (rq_answer r)) s1 else s1))"

text \<open>The guarded write of an answer.\<close>

definition store_answer :: "real \<Rightarrow> string \<Rightarrow> json \<Rightarrow> string \<Rightarrow> interactions \<Rightarrow> bool \<times> interactions" where
  "store_answer now rid answer by_user s =
     ((\<exists>r \<in> set (it_requests s). rq_id r = rid \<and> rq_status r = Pending),
      update_requests (\<lambda>r. rq_id r = rid \<and> rq_status r = Pending)
        (\<lambda>r. r\<lparr>rq_status := Answered, rq_answer := answer, rq_answered_by := by_user, rq_answered_at := now\<rparr>) s)"

definition respond :: "interaction_env \<Rightarrow> real \<Rightarrow> string \<Rightarrow> json \<Rightarrow> string \<Rightarrow> interactions \<Rightarrow> interaction res \<times> interactions" where
  "respond env now rid answer by_user s =
     (case get_interaction rid s of
        None \<Rightarrow> (Inl (KeyError ''Unknown user interaction request''), s)
      | Some r \<Rightarrow>
          if rq_status r \<noteq> Pending then (Inl (ValueError (''Interaction is already '' @ status_text (rq_status r))), s)
          else if rq_expires r \<noteq> 0 \<and> now > rq_expires r then (Inl (ValueError ''Interaction has expired''), set_request_status rid Expired s)
          else (case validate_interaction_answer (ie_answers env) (rq_kind r) answer (rq_schema r) (rq_options r) ''answer'' of
             Inl e \<Rightarrow> (Inl e, s)
           | Inr normalized \<Rightarrow>
               (case store_answer now rid normalized by_user s of
                  (False, s1) \<Rightarrow> (Inl (ValueError ''Interaction was answered concurrently''), s1)
                | (True, s1) \<Rightarrow>
                    (let r1 = r\<lparr>rq_status := Answered, rq_answer := normalized, rq_answered_by := by_user, rq_answered_at := now\<rparr>;
                         (result, s2) = resume_requester env now r1 (publish_answered r1 s1) in
                     (bind_res result (\<lambda>_. Inr r1), s2)))))"

definition cancel_interaction :: "interaction_env \<Rightarrow> real \<Rightarrow> string \<Rightarrow> interactions \<Rightarrow> bool res \<times> interactions" where
  "cancel_interaction env now rid s =
     (case get_interaction rid s of
        None \<Rightarrow> (Inr False, s)
      | Some r \<Rightarrow>
          if rq_status r \<noteq> Pending then (Inr False, s)
          else
            (let r1 = r\<lparr>rq_status := Cancelled\<rparr>; s1 = publish_answered r1 (set_request_status rid Cancelled s) in
             case notify_signal env now (rq_signal r) (JDict [(''status'', JStr ''cancelled''), (''answer'', JNull)]) s1 of
               Inl e \<Rightarrow> (Inl e, s1)
             | Inr (_, s2) \<Rightarrow> (Inr True, s2)))"

definition past_deadline :: "real \<Rightarrow> interaction \<Rightarrow> bool" where
  "past_deadline now r \<longleftrightarrow> rq_status r = Pending \<and> rq_expires r > 0 \<and> rq_expires r < now"

definition expire_rows :: "real \<Rightarrow> interactions \<Rightarrow> interactions" where
  "expire_rows now s =
     update_waits (\<lambda>w. wt_kind w = TimerWait \<and> wt_status w = Waiting \<and> wt_expires w \<le> now) (\<lambda>w. w\<lparr>wt_status := Elapsed\<rparr>)
       (update_waits (\<lambda>w. wt_kind w = SignalWait \<and> wt_status w = Waiting \<and> wt_expires w > 0 \<and> wt_expires w < now) (\<lambda>w. w\<lparr>wt_status := TimedOut\<rparr>)
         (update_requests (\<lambda>r. rq_id r \<in> set (map rq_id (filter (past_deadline now) (it_requests s)))) (\<lambda>r. r\<lparr>rq_status := Expired\<rparr>) s))"

definition announce_expired :: "interaction_env \<Rightarrow> real \<Rightarrow> interaction \<Rightarrow> interactions \<Rightarrow> interactions res" where
  "announce_expired env now row s =
     (case get_interaction (rq_id row) s of
        None \<Rightarrow> Inr s
      | Some r \<Rightarrow> bind_res (notify_signal env now (rq_signal r) (JDict [(''status'', JStr ''expired''), (''answer'', JNull)]) (publish_answered r s))
          (\<lambda>(_, s1). Inr s1))"

definition sweep_once :: "interaction_env \<Rightarrow> real \<Rightarrow> interactions \<Rightarrow> interactions res" where
  "sweep_once env now s =
     bind_res (fold_res (announce_expired env now) (filter (past_deadline now) (it_requests s)) (expire_rows now s)) (\<lambda>s1.
       Inr (snd (deliver_resolved env now s1)))"

end
