(* ===== verification/Interaction_Tasks.thy ===== *)
theory Interaction_Tasks
  imports Interactions
begin

section \<open>The tasks that ask, wait and notify\<close>

text \<open>
  \<open>execute\<close> of the tasks in \<open>tasks/control/durable_confirm.py\<close>.  What a task knows of the place it runs in is \<open>task_place\<close>: the run of a workflow
  agent with the task's id in it, and what \<open>find_own_flow_ids\<close> finds in the executor registry.  A configuration value is what
  \<open>self.config.get\<close> returns.
\<close>

record task_place =
  tp_run :: "string option"
  tp_task :: string
  tp_own :: "(string \<times> string) option"

definition attribute_or :: "flowfile \<Rightarrow> string \<Rightarrow> string \<Rightarrow> string" where
  "attribute_or ff k dflt = (case get_attribute ff k of None \<Rightarrow> dflt | Some v \<Rightarrow> v)"

text \<open>\<open>_workflow_interaction_identity\<close>: the idempotency key, the attribute that counts the requests and the number of this one.\<close>

definition workflow_interaction_identity :: "task_place \<Rightarrow> flowfile \<Rightarrow> (string \<times> string \<times> int) res" where
  "workflow_interaction_identity place ff =
     (case tp_run place of
        None \<Rightarrow> Inr ([], [], 0)
      | Some run \<Rightarrow>
          (let own = (case tp_own place of None \<Rightarrow> [] | Some (_, t) \<Rightarrow> t);
               task = (if py_strip (tp_task place) = [] then py_strip own else py_strip (tp_task place)) in
           if task = [] then Inl (TaskError ''workflow interaction requires a deployed task identity'')
           else
             (let base = run @ '':'' @ task; attr = ''workflow.interaction.sequence.'' @ task;
                  given = attribute_or ff attr ''0'';
                  done_before = (case py_int (if given = [] then ''0'' else given) of None \<Rightarrow> 0 | Some n \<Rightarrow> max 0 n);
                  occurrence = done_before + 1 in
              Inr (if occurrence = 1 then base else base @ '':'' @ int_str occurrence, attr, occurrence))))"

definition stamp_occurrence :: "string \<Rightarrow> int \<Rightarrow> flowfile \<Rightarrow> flowfile" where
  "stamp_occurrence attr occurrence ff = (if attr = [] then ff else set_attribute attr (int_str occurrence) ff)"

record confirmation_config =
  cc_conversation :: string
  cc_user :: string
  cc_message :: string
  cc_title :: string
  cc_mode :: string
  cc_options :: json
  cc_expires_in :: json
  cc_requester :: string

text \<open>Comma-separated text or a list.\<close>

definition option_values :: "json \<Rightarrow> json" where
  "option_values raw = (case raw of JStr text \<Rightarrow> JList (map JStr (filter (\<lambda>v. v \<noteq> []) (map py_strip (py_split_on (CHR '','') [] text)))) | _ \<Rightarrow> raw)"

definition request_confirmation_execute ::
    "interaction_env \<Rightarrow> real \<Rightarrow> string \<Rightarrow> task_place \<Rightarrow> confirmation_config \<Rightarrow> flowfile \<Rightarrow> interactions \<Rightarrow> (flowfile list \<times> interactions) res" where
  "request_confirmation_execute env now uuid place cfg ff s =
     (let conversation = (if cc_conversation cfg = [] then attribute_or ff ''conversation_id'' [] else cc_conversation cfg) in
      if conversation = [] \<or> cc_user cfg = [] then Inl (TaskError ''requestConfirmation needs a conversation_id and user_id'')
      else if cc_message cfg = [] then Inl (TaskError ''The message parameter is required'')
      else bind_res (workflow_interaction_identity place ff) (\<lambda>(key, attr, occurrence).
        bind_res (parse_timeout_seconds env (cc_expires_in cfg)) (\<lambda>expires_in.
        bind_res (create_confirmation env now uuid
          \<lparr>ra_conversation = conversation, ra_user = cc_user cfg, ra_requester_kind = ''flow'',
           ra_requester = (if cc_requester cfg = [] then ''requestConfirmation'' else cc_requester cfg), ra_message = cc_message cfg,
           ra_title = cc_title cfg, ra_kind = cc_mode cfg, ra_options = option_values (cc_options cfg), ra_schema = JNull,
           ra_expires_in = expires_in, ra_continuation = JNull, ra_prefix = ''confirmation'', ra_key = key\<rparr> s) (\<lambda>(r, s1).
        Inr ([set_attribute ''confirmation.signal_id'' (''confirmation:'' @ rq_id r)
               (set_attribute ''confirmation.request_id'' (rq_id r) (stamp_occurrence attr occurrence ff))], s1)))))"

text \<open>\<open>requestUserInput\<close>: \<open>loads\<close> is \<open>json.loads\<close>, the conversation and the user are injected by the runtime.\<close>

record input_config =
  uc_message :: json
  uc_title :: json
  uc_kind :: json
  uc_options :: json
  uc_schema :: json
  uc_expires_in :: json
  uc_requester :: json
  uc_payload_attribute :: json

definition INPUT_FIELDS :: "string list" where
  "INPUT_FIELDS = [''message'', ''title'', ''kind'', ''options'', ''response_schema'']"

definition input_payload :: "(json \<Rightarrow> string) \<Rightarrow> (string \<Rightarrow> json option) \<Rightarrow> input_config \<Rightarrow> flowfile \<Rightarrow> (string, json) dict res" where
  "input_payload repr_of loads cfg ff =
     (let given = [(''message'', uc_message cfg), (''title'', uc_title cfg), (''kind'', uc_kind cfg), (''options'', uc_options cfg), (''response_schema'', uc_schema cfg)];
          attr = py_strip (str_or_empty repr_of (uc_payload_attribute cfg)) in
      if attr = [] then Inr given
      else case loads (attribute_or ff attr []) of
        None \<Rightarrow> Inl (TaskError ''requestUserInput payload attribute must contain valid JSON'')
      | Some (JDict d) \<Rightarrow>
          if set (dict_keys d) \<subseteq> set INPUT_FIELDS then Inr (fold (\<lambda>(k, v). AList.update k v) d given)
          else Inl (TaskError ''requestUserInput payload attribute contains unsupported fields'')
      | Some _ \<Rightarrow> Inl (TaskError ''requestUserInput payload attribute must contain an object''))"

definition as_task_error :: "string \<Rightarrow> 'a res \<Rightarrow> 'a res" where
  "as_task_error msg m = (case m of Inl (ValueError _) \<Rightarrow> Inl (TaskError msg) | _ \<Rightarrow> m)"

definition input_request :: "(json \<Rightarrow> string) \<Rightarrow> string \<Rightarrow> string \<Rightarrow> input_config \<Rightarrow> (string, json) dict \<Rightarrow> json \<Rightarrow> real \<Rightarrow> string \<Rightarrow> request_args" where
  "input_request repr_of conversation user cfg d schema expires_in key =
     (let kind = str_or_empty repr_of (dict_get d ''kind'' JNull); requester = str_or_empty repr_of (uc_requester cfg) in
      \<lparr>ra_conversation = conversation, ra_user = user, ra_requester_kind = ''flow'', ra_requester = (if requester = [] then ''requestUserInput'' else requester),
       ra_message = py_strip (str_or_empty repr_of (dict_get d ''message'' JNull)), ra_title = str_or_empty repr_of (dict_get d ''title'' JNull),
       ra_kind = (if kind = [] then ''text'' else kind), ra_options = option_values (dict_get d ''options'' (JList [])), ra_schema = schema,
       ra_expires_in = expires_in, ra_continuation = JNull, ra_prefix = ''interaction'', ra_key = key\<rparr>)"

definition input_schema :: "(string \<Rightarrow> json option) \<Rightarrow> json \<Rightarrow> json res" where
  "input_schema loads v = (case v of
       JStr text \<Rightarrow> (case loads (if text = [] then ''{}'' else text) of None \<Rightarrow> Inl (TaskError ''response_schema must be valid JSON'') | Some w \<Rightarrow> Inr w)
     | _ \<Rightarrow> Inr v)"

definition request_user_input_execute ::
    "interaction_env \<Rightarrow> (string \<Rightarrow> json option) \<Rightarrow> real \<Rightarrow> string \<Rightarrow> task_place \<Rightarrow> string \<Rightarrow> string \<Rightarrow> input_config \<Rightarrow> flowfile \<Rightarrow> interactions \<Rightarrow>
     (flowfile list \<times> interactions) res" where
  "request_user_input_execute env loads now uuid place conversation user cfg ff s =
     (if conversation = [] \<or> user = [] then Inl (TaskError ''requestUserInput requires injected conversation and user runtime context'')
      else bind_res (input_payload (an_repr (ie_answers env)) loads cfg ff) (\<lambda>d.
        if py_strip (str_or_empty (an_repr (ie_answers env)) (dict_get d ''message'' JNull)) = [] then Inl (TaskError ''The message parameter is required'')
        else bind_res (input_schema loads (dict_get d ''response_schema'' (JDict []))) (\<lambda>schema.
        bind_res (workflow_interaction_identity place ff) (\<lambda>(key, attr, occurrence).
        bind_res (as_task_error ''Invalid user interaction'' (bind_res (parse_timeout_seconds env (uc_expires_in cfg)) (\<lambda>expires_in.
          create_interaction env now uuid (input_request (an_repr (ie_answers env)) conversation user cfg d schema expires_in key) s))) (\<lambda>(r, s1).
        Inr ([set_attribute ''interaction.kind'' (rq_kind r) (set_attribute ''interaction.signal_id'' (rq_signal r)
               (set_attribute ''interaction.request_id'' (rq_id r) (stamp_occurrence attr occurrence ff)))], s1))))))"

text \<open>\<open>notifyUser\<close>: the event it publishes beside the FlowFile.\<close>

definition notify_user_execute ::
    "(json \<Rightarrow> string) \<Rightarrow> bool \<Rightarrow> string \<Rightarrow> string \<Rightarrow> json \<Rightarrow> json \<Rightarrow> flowfile \<Rightarrow> (flowfile list \<times> string \<times> json) res" where
  "notify_user_execute repr_of has_subscribers conversation user message urgency ff =
     (let text = py_strip (str_or_empty repr_of message);
          level = py_lower (py_strip (if jtruthy urgency then py_str repr_of urgency else ''normal''));
          relationship = (if has_subscribers then ''sent'' else ''queued'') in
      if conversation = [] \<or> user = [] then Inl (TaskError ''notifyUser requires injected conversation and user runtime context'')
      else if text = [] then Inl (TaskError ''The message parameter is required'')
      else if level \<notin> {''low'', ''normal'', ''high''} then Inl (TaskError ''urgency must be low, normal, or high'')
      else Inr ([set_attribute ''route.relationship'' relationship (set_attribute ''notification.status'' relationship ff)], conversation,
        JDict [(''message'', JStr text), (''urgency'', JStr level), (''user_id'', JStr user), (''source'', JStr ''flow'')]))"

record wait_config =
  wc_signal :: string
  wc_signal_attribute :: string
  wc_timeout :: json

definition wait_owner :: "task_place \<Rightarrow> (string \<times> string) option" where
  "wait_owner place = (case tp_run place of Some run \<Rightarrow> if tp_task place \<noteq> [] then Some (''workflow:'' @ run, tp_task place) else tp_own place | None \<Rightarrow> tp_own place)"

definition durable_wait_execute ::
    "interaction_env \<Rightarrow> real \<Rightarrow> task_place \<Rightarrow> wait_config \<Rightarrow> flowfile \<Rightarrow> interactions \<Rightarrow> flowfile list res \<times> interactions" where
  "durable_wait_execute env now place cfg ff s =
     (if attribute_or ff ''durable.wait.status'' [] \<noteq> [] then (Inr [ff], s)
      else
        (let signal = (if wc_signal cfg = [] then attribute_or ff (wc_signal_attribute cfg) [] else wc_signal cfg) in
         if signal = [] then (Inl (TaskError ''durableWait needs signal_id''), s)
         else case parse_timeout_seconds env (wc_timeout cfg) of
           Inl _ \<Rightarrow> (Inl (TaskError ''Invalid durableWait timeout''), s)
         | Inr timeout \<Rightarrow>
             (case wait_owner place of
                None \<Rightarrow> (Inl (TaskError ''durableWait requires a DEPLOYED continuous flow''), s)
              | Some (inst, task) \<Rightarrow>
                  (case park_wait env now signal inst task ff timeout s of
                     (Inl e, s1) \<Rightarrow> (Inl e, s1)
                   | (Inr (None, ff1), s1) \<Rightarrow> (Inr [ff1], s1)
                   | (Inr (Some _, _), s1) \<Rightarrow> (Inr [], s1)))))"

definition has_text :: "interaction_env \<Rightarrow> json \<Rightarrow> bool" where
  "has_text env v \<longleftrightarrow> v \<noteq> JNull \<and> py_strip (py_str (an_repr (ie_answers env)) v) \<noteq> []"

definition timer_deadline :: "interaction_env \<Rightarrow> real \<Rightarrow> json \<Rightarrow> json \<Rightarrow> real res" where
  "timer_deadline env now duration until =
     (if has_text env duration then
        bind_res (parse_timeout_seconds env duration) (\<lambda>seconds. if seconds \<le> 0 then Inl (ValueError ''duration must be > 0'') else Inr (now + seconds))
      else parse_utc_deadline env until)"

definition durable_timer_execute ::
    "interaction_env \<Rightarrow> real \<Rightarrow> string \<Rightarrow> task_place \<Rightarrow> json \<Rightarrow> json \<Rightarrow> flowfile \<Rightarrow> interactions \<Rightarrow> (flowfile list \<times> interactions) res" where
  "durable_timer_execute env now uuid place duration until ff s =
     (let status = attribute_or ff ''durable.timer.status'' [] in
      if status \<noteq> [] then Inr ([set_attribute ''route.relationship'' status ff], s)
      else if has_text env duration = has_text env until then Inl (TaskError ''durableTimer requires exactly one of duration or until'')
      else case timer_deadline env now duration until of
        Inl _ \<Rightarrow> Inl (TaskError ''Invalid durableTimer deadline'')
      | Inr deadline \<Rightarrow>
          (let ff1 = set_attribute ''durable.timer.scheduled_at'' (ie_date env deadline) ff in
           case tp_own place of
             None \<Rightarrow> Inl (TaskError ''durableTimer requires a DEPLOYED continuous flow'')
           | Some (inst, task) \<Rightarrow> bind_res (park_timer env now uuid inst task ff1 deadline s) (\<lambda>(wid, ff2, s1).
               Inr (if wid = None then [ff2] else [], s1))))"

definition durable_notify_execute ::
    "interaction_env \<Rightarrow> real \<Rightarrow> string \<Rightarrow> string \<Rightarrow> json \<Rightarrow> string \<Rightarrow> flowfile \<Rightarrow> interactions \<Rightarrow> (flowfile list \<times> interactions) res" where
  "durable_notify_execute env now signal_id signal_attribute value value_attribute ff s =
     (let signal = (if signal_id = [] \<and> signal_attribute \<noteq> [] then attribute_or ff signal_attribute [] else signal_id);
          sent = (if value_attribute \<noteq> [] then JStr (attribute_or ff value_attribute []) else value) in
      if signal = [] then Inl (TaskError ''durableNotify needs signal_id'')
      else bind_res (notify_signal env now signal sent s) (\<lambda>(n, s1). Inr ([set_attribute ''durable.notify.resolved'' (int_str (int n)) ff], s1)))"

text \<open>The signal a request task stamps on its FlowFile is the one its answer fires, so that a wait on the attribute waits for that answer.\<close>

lemma prepared_signal: "prepare_request env now uuid a = Inr r \<Longrightarrow> rq_signal r = ra_prefix a @ '':'' @ rq_id r"
  by (auto simp: prepare_request_def Let_def bind_res_Inr_iff split: if_splits)

lemma created_signal:
  assumes "create_interaction env now uuid a s = Inr (r, s')"
  shows "rq_signal r = ra_prefix a @ '':'' @ rq_id r \<and> r \<in> set (it_requests s')"
proof -
  obtain r0 where p: "prepare_request env now uuid a = Inr r0" using assms by (auto simp: create_interaction_def bind_res_Inr_iff)
  show ?thesis
  proof (cases "get_interaction (rq_id r0) s")
    case None
    then show ?thesis using assms p prepared_signal [OF p] by (auto simp: create_interaction_def publish_interaction_def Let_def split: if_splits)
  next
    case (Some c)
    then have "c \<in> set (it_requests s)" "rq_id c = rq_id r0" by (auto simp: get_interaction_def dest!: find_SomeD)
    then show ?thesis using assms p Some prepared_signal [OF p] by (auto simp: create_interaction_def same_request_def split: if_splits)
  qed
qed

lemma confirmation_signal_stamped:
  assumes "request_confirmation_execute env now uuid place cfg ff s = Inr (out, s')"
  shows "\<exists>ff' r. out = [ff'] \<and> r \<in> set (it_requests s') \<and> get_attribute ff' ''confirmation.signal_id'' = Some (rq_signal r) \<and> ff_content ff' = ff_content ff"
proof -
  obtain a r attr occurrence where c: "create_confirmation env now uuid a s = Inr (r, s')"
    "out = [set_attribute ''confirmation.signal_id'' (''confirmation:'' @ rq_id r) (set_attribute ''confirmation.request_id'' (rq_id r) (stamp_occurrence attr occurrence ff))]"
    using assms by (auto simp: request_confirmation_execute_def Let_def bind_res_Inr_iff split: if_splits)
  have "rq_signal r = ''confirmation:'' @ rq_id r \<and> r \<in> set (it_requests s')"
    using c(1) by (auto simp: create_confirmation_def Let_def split: if_splits dest!: created_signal)
  then show ?thesis using c(2) by (auto simp: set_attribute_def stamp_occurrence_def get_attribute_def update_conv')
qed

lemma as_task_error_Inr: "as_task_error msg m = Inr x \<longleftrightarrow> m = Inr x"
  by (simp add: as_task_error_def split: sum.split py_error.split)

lemma input_signal_stamped:
  assumes "request_user_input_execute env loads now uuid place conversation user cfg ff s = Inr (out, s')"
  shows "\<exists>ff' r. out = [ff'] \<and> r \<in> set (it_requests s') \<and> get_attribute ff' ''interaction.signal_id'' = Some (rq_signal r) \<and> ff_content ff' = ff_content ff"
proof -
  obtain a r attr occurrence where c: "create_interaction env now uuid a s = Inr (r, s')"
    "out = [set_attribute ''interaction.kind'' (rq_kind r) (set_attribute ''interaction.signal_id'' (rq_signal r)
               (set_attribute ''interaction.request_id'' (rq_id r) (stamp_occurrence attr occurrence ff)))]"
    using assms by (auto simp: request_user_input_execute_def as_task_error_Inr bind_res_Inr_iff split: if_splits)
  then show ?thesis using created_signal [OF c(1)] by (auto simp: set_attribute_def stamp_occurrence_def get_attribute_def update_conv')
qed

end
