(* ===== verification/Interaction_Proofs.thy ===== *)
theory Interaction_Proofs
  imports Interaction_Tasks
begin

section \<open>What the durable waits guarantee\<close>

text \<open>
  Every operation of the store is a sequence of transactions on the table of waits (\<open>wait_txn\<close>): rows are added, settled, delivered, or
  deleted while they wait.  From this follow the invariant of the reachable states and the life of a row (interpretation
  \<open>its\<close> of \<open>evolving_store\<close>).
\<close>

subsection \<open>Parked FlowFiles\<close>

lemma fold_set_attribute:
  "distinct (dict_keys (ff_attributes ff @ kvs)) \<Longrightarrow> fold (\<lambda>(k, v). set_attribute k v) kvs ff = ff\<lparr>ff_attributes := ff_attributes ff @ kvs\<rparr>"
proof (induction kvs arbitrary: ff)
  case (Cons kv kvs)
  obtain k v where kv: "kv = (k, v)" by fastforce
  have "AList.update k v xs = xs @ [(k, v)]" if "k \<notin> set (dict_keys xs)" for xs :: "(string, string) dict"
    using that by (induction xs) auto
  then have "set_attribute k v ff = ff\<lparr>ff_attributes := ff_attributes ff @ [(k, v)]\<rparr>" using Cons.prems by (simp add: kv set_attribute_def)
  then show ?case using Cons by (simp add: kv)
qed simp

lemma fold_set_attribute_frame [simp]:
  "ff_content (fold (\<lambda>(k, v). set_attribute k v) kvs ff) = ff_content ff" "ff_process_id (fold (\<lambda>(k, v). set_attribute k v) kvs ff) = ff_process_id ff"
  by (induction kvs arbitrary: ff) (auto simp: set_attribute_def)

lemma restore_serialize:
  assumes "distinct (dict_keys (ff_attributes ff))" "ff_process_id ff \<noteq> []"
  shows "restore_parked oid fresh (serialize_parked ff) = Inr (ff\<lparr>ff_oid := oid\<rparr>)"
  using assms by (simp add: restore_parked_def serialize_parked_def b64_roundtrip fold_set_attribute new_flowfile_def)

lemma restore_parked_Inr:
  "restore_parked oid fresh p = Inr ff \<Longrightarrow> b64decode (pk_content_b64 p) = Inr (ff_content ff) \<and> (pk_process_id p \<noteq> [] \<longrightarrow> ff_process_id ff = pk_process_id p)"
  by (auto simp: restore_parked_def bind_res_Inr_iff new_flowfile_def)

text \<open>A delivered FlowFile carries the parked bytes and process id.\<close>

definition carries :: "parked_flowfile \<Rightarrow> flowfile \<Rightarrow> bool" where
  "carries p ff \<longleftrightarrow> b64decode (pk_content_b64 p) = Inr (ff_content ff) \<and> (pk_process_id p \<noteq> [] \<longrightarrow> ff_process_id ff = pk_process_id p)"

lemma set_attribute_frame [simp]:
  "ff_content (set_attribute k v ff) = ff_content ff" "ff_process_id (set_attribute k v ff) = ff_process_id ff" "ff_oid (set_attribute k v ff) = ff_oid ff"
  by (simp_all add: set_attribute_def)

lemma stamp_resolution_frame [simp]:
  "ff_content (stamp_interaction_resolution env signal v ff) = ff_content ff"
  "ff_process_id (stamp_interaction_resolution env signal v ff) = ff_process_id ff"
  by (simp_all add: stamp_interaction_resolution_def Let_def split: json.split)

lemma stamp_delivery_frame [simp]:
  "ff_content (stamp_delivery env now w ff) = ff_content ff" "ff_process_id (stamp_delivery env now w ff) = ff_process_id ff"
  by (simp_all add: stamp_delivery_def Let_def split: wait_kind.split option.split)

lemma carries_delivery: "restore_parked oid fresh p = Inr ff \<Longrightarrow> carries p (stamp_delivery env now w ff)"
  using restore_parked_Inr by (simp add: carries_def)

subsection \<open>Transactions on the table of waits\<close>

definition same_wait :: "wait_row \<Rightarrow> wait_row \<Rightarrow> bool" where
  "same_wait w w' \<longleftrightarrow> wt_id w' = wt_id w \<and> wt_signal w' = wt_signal w \<and> wt_instance w' = wt_instance w \<and> wt_task w' = wt_task w \<and>
     wt_flowfile w' = wt_flowfile w \<and> wt_created w' = wt_created w \<and> wt_expires w' = wt_expires w \<and> wt_kind w' = wt_kind w \<and> wt_import w' = wt_import w"

inductive wait_txn :: "interactions \<Rightarrow> interactions \<Rightarrow> bool" where
  other: "it_waits s' = it_waits s \<Longrightarrow> it_delivered s' = it_delivered s \<Longrightarrow> wait_txn s s'"
| settle: "it_waits s' = map (\<lambda>w. if P w then f w else w) (it_waits s) \<Longrightarrow> it_delivered s' = it_delivered s \<Longrightarrow>
    (\<And>w. w \<in> set (it_waits s) \<Longrightarrow> P w \<Longrightarrow> wt_status w = Waiting \<and> undelivered (f w) \<and> same_wait w (f w)) \<Longrightarrow> wait_txn s s'"
| deliver: "w \<in> set (it_waits s) \<Longrightarrow> undelivered w \<Longrightarrow>
    it_waits s' = map (\<lambda>r. if wt_id r = wt_id w then r\<lparr>wt_status := Delivered\<rparr> else r) (it_waits s) \<Longrightarrow>
    it_delivered s' = it_delivered s @ [(wt_id w, ff)] \<Longrightarrow> carries (wt_flowfile w) ff \<Longrightarrow> wait_txn s s'"
| park: "it_waits s' = it_waits s @ [w] \<Longrightarrow> it_delivered s' = it_delivered s \<Longrightarrow> wt_status w = Waiting \<Longrightarrow> wt_id w \<notin> wt_id ` set (it_waits s) \<Longrightarrow> wait_txn s s'"
| delete: "it_waits s' = filter (\<lambda>w. wt_id w \<noteq> wid) (it_waits s) \<Longrightarrow> it_delivered s' = it_delivered s \<Longrightarrow>
    (\<And>w. w \<in> set (it_waits s) \<Longrightarrow> wt_id w = wid \<Longrightarrow> wt_status w = Waiting \<and> wt_import w \<noteq> None) \<Longrightarrow> wait_txn s s'"

abbreviation wait_txns :: "interactions \<Rightarrow> interactions \<Rightarrow> bool" where
  "wait_txns \<equiv> wait_txn\<^sup>*\<^sup>*"

definition waits_inv :: "interactions \<Rightarrow> bool" where
  "waits_inv s \<longleftrightarrow> distinct (map wt_id (it_waits s)) \<and> distinct (map fst (it_delivered s)) \<and>
     (\<forall>w \<in> set (it_waits s). wt_status w = Delivered \<longrightarrow> wt_id w \<in> fst ` set (it_delivered s)) \<and>
     (\<forall>(wid, ff) \<in> set (it_delivered s). \<exists>w \<in> set (it_waits s). wt_id w = wid \<and> wt_status w = Delivered \<and> carries (wt_flowfile w) ff)"

definition status_leads :: "wait_status \<Rightarrow> wait_status \<Rightarrow> bool" where
  "status_leads a b \<longleftrightarrow> a = b \<or> a = Waiting \<or> b = Delivered"

text \<open>A row that was not imported stays, keeps its identity and FlowFile, and its status moves only forward.\<close>

definition waits_evolve :: "interactions \<Rightarrow> interactions \<Rightarrow> bool" where
  "waits_evolve s s' \<longleftrightarrow> (\<forall>w \<in> set (it_waits s). wt_import w = None \<or> wt_status w \<noteq> Waiting \<longrightarrow>
     (\<exists>w' \<in> set (it_waits s'). same_wait w w' \<and> status_leads (wt_status w) (wt_status w'))) \<and> (\<exists>ds. it_delivered s' = it_delivered s @ ds)"

lemma same_wait_trans: "same_wait a b \<Longrightarrow> same_wait b c \<Longrightarrow> same_wait a c" by (simp add: same_wait_def)

lemma status_leads_trans: "status_leads a b \<Longrightarrow> status_leads b c \<Longrightarrow> status_leads a c" by (auto simp: status_leads_def)

lemma waits_evolve_refl [simp]: "waits_evolve s s" by (auto simp: waits_evolve_def same_wait_def status_leads_def)

lemma waits_evolve_trans:
  assumes "waits_evolve a b" "waits_evolve b c"
  shows "waits_evolve a c"
proof -
  have "\<exists>w' \<in> set (it_waits c). same_wait w w' \<and> status_leads (wt_status w) (wt_status w')"
    if w: "w \<in> set (it_waits a)" "wt_import w = None \<or> wt_status w \<noteq> Waiting" for w
  proof -
    obtain v where v: "v \<in> set (it_waits b)" "same_wait w v" "status_leads (wt_status w) (wt_status v)"
      using assms(1) w unfolding waits_evolve_def by blast
    then have "wt_import v = None \<or> wt_status v \<noteq> Waiting" using w(2) by (auto simp: same_wait_def status_leads_def)
    then obtain u where "u \<in> set (it_waits c)" "same_wait v u" "status_leads (wt_status v) (wt_status u)"
      using assms(2) v(1) unfolding waits_evolve_def by blast
    with v(2,3) show ?thesis using same_wait_trans status_leads_trans by blast
  qed
  moreover have "\<exists>ds. it_delivered c = it_delivered a @ ds" using assms unfolding waits_evolve_def by (metis append_assoc)
  ultimately show ?thesis unfolding waits_evolve_def by blast
qed

lemma wait_unique: "waits_inv s \<Longrightarrow> w \<in> set (it_waits s) \<Longrightarrow> w' \<in> set (it_waits s) \<Longrightarrow> wt_id w' = wt_id w \<Longrightarrow> w' = w"
  by (auto simp: waits_inv_def distinct_map dest: inj_onD)

lemma delivered_row:
  assumes "waits_inv s" "(wid, ff) \<in> set (it_delivered s)"
  shows "\<exists>w \<in> set (it_waits s). wt_id w = wid \<and> wt_status w = Delivered \<and> carries (wt_flowfile w) ff"
  using bspec [OF conjunct2 [OF conjunct2 [OF conjunct2 [OF assms(1) [unfolded waits_inv_def]]]] assms(2)] by simp

lemma delivered_logged: "waits_inv s \<Longrightarrow> w \<in> set (it_waits s) \<Longrightarrow> wt_status w = Delivered \<Longrightarrow> wt_id w \<in> fst ` set (it_delivered s)"
  unfolding waits_inv_def by simp

lemma undelivered_fresh:
  assumes "waits_inv s" "w \<in> set (it_waits s)" "wt_status w \<noteq> Delivered"
  shows "wt_id w \<notin> fst ` set (it_delivered s)"
proof
  assume "wt_id w \<in> fst ` set (it_delivered s)"
  then obtain ff where "(wt_id w, ff) \<in> set (it_delivered s)" by force
  then obtain w' where "w' \<in> set (it_waits s)" "wt_id w' = wt_id w" "wt_status w' = Delivered"
    using assms(1) unfolding waits_inv_def by fastforce
  then show False using wait_unique [OF assms(1,2)] assms(3) by blast
qed

lemma txn_inv:
  assumes "wait_txn s s'" "waits_inv s"
  shows "waits_inv s'"
  using assms(1)
proof cases
  case other
  then show ?thesis using assms(2) by (simp add: waits_inv_def)
next
  case (settle P f)
  have id: "map wt_id (it_waits s') = map wt_id (it_waits s)"
    unfolding settle(1) list.map_comp using settle(3) by (intro map_cong) (auto simp: same_wait_def)
  have st: "(wt_status w = Delivered \<longleftrightarrow> wt_status (if P w then f w else w) = Delivered) \<and> (wt_status w = Delivered \<longrightarrow> \<not> P w)" if "w \<in> set (it_waits s)" for w
    using settle(3) [OF that] by (auto simp: undelivered_def)
  have "\<exists>w \<in> set (it_waits s'). wt_id w = wid \<and> wt_status w = Delivered \<and> carries (wt_flowfile w) ff" if dl: "(wid, ff) \<in> set (it_delivered s)" for wid ff
  proof -
    obtain w where w: "w \<in> set (it_waits s)" "wt_id w = wid" "wt_status w = Delivered" "carries (wt_flowfile w) ff"
      using delivered_row [OF assms(2) dl] by blast
    have "\<not> P w" using st [OF w(1)] w(3) by blast
    then have "w = (if P w then f w else w)" by simp
    then have "w \<in> set (it_waits s')" unfolding settle(1) set_map using w(1) by (rule image_eqI)
    with w show ?thesis by blast
  qed
  moreover have "wt_id w \<in> fst ` set (it_delivered s)" if wd: "w \<in> set (it_waits s')" "wt_status w = Delivered" for w
  proof -
    obtain v where v: "v \<in> set (it_waits s)" "w = (if P v then f v else v)" using wd(1) settle(1) by auto
    have "\<not> P v" using st [OF v(1)] wd(2) unfolding v(2) by blast
    then have "w = v" unfolding v(2) by simp
    then show ?thesis using delivered_logged [OF assms(2)] v(1) wd(2) by blast
  qed
  ultimately show ?thesis using assms(2) settle(2) id unfolding waits_inv_def by auto
next
  case (deliver w ff)
  let ?d = "\<lambda>r. if wt_id r = wt_id w then r\<lparr>wt_status := Delivered\<rparr> else r"
  have id: "map wt_id (it_waits s') = map wt_id (it_waits s)" unfolding deliver(3) list.map_comp by (intro map_cong) auto
  have fresh: "wt_id w \<notin> fst ` set (it_delivered s)" using undelivered_fresh [OF assms(2) deliver(1)] deliver(2) undelivered_def by fastforce
  have "\<exists>v \<in> set (it_waits s'). wt_id v = wid \<and> wt_status v = Delivered \<and> carries (wt_flowfile v) g" if "(wid, g) \<in> set (it_delivered s')" for wid g
  proof (cases "(wid, g) \<in> set (it_delivered s)")
    case True
    then obtain v where v: "v \<in> set (it_waits s)" "wt_id v = wid" "wt_status v = Delivered" "carries (wt_flowfile v) g"
      using delivered_row [OF assms(2)] by blast
    then have "?d v \<in> set (it_waits s')" using deliver(3) by simp
    then show ?thesis using v by (intro bexI [of _ "?d v"]) auto
  next
    case False
    then have "wid = wt_id w" "g = ff" using that deliver(4) by auto
    then show ?thesis using deliver(1,3,5) by (intro bexI [of _ "?d w"]) auto
  qed
  moreover have "wt_id v \<in> fst ` set (it_delivered s')" if v: "v \<in> set (it_waits s')" "wt_status v = Delivered" for v
  proof -
    obtain u where u: "u \<in> set (it_waits s)" "v = ?d u" using v(1) deliver(3) by auto
    show ?thesis
    proof (cases "wt_id u = wt_id w")
      case True
      then show ?thesis using u(2) deliver(4) by simp
    next
      case False
      then show ?thesis using u v(2) delivered_logged [OF assms(2) u(1)] deliver(4) by auto
    qed
  qed
  ultimately show ?thesis using assms(2) fresh id deliver(4) unfolding waits_inv_def by auto
next
  case (park w)
  then show ?thesis using assms(2) by (auto simp: waits_inv_def)
next
  case (delete wid)
  have "\<exists>w \<in> set (it_waits s'). wt_id w = i \<and> wt_status w = Delivered \<and> carries (wt_flowfile w) ff" if dl: "(i, ff) \<in> set (it_delivered s)" for i ff
  proof -
    obtain w where w: "w \<in> set (it_waits s)" "wt_id w = i" "wt_status w = Delivered" "carries (wt_flowfile w) ff"
      using delivered_row [OF assms(2) dl] by blast
    then have "wt_id w \<noteq> wid" using delete(3) [OF w(1)] by auto
    then show ?thesis using w delete(1) by auto
  qed
  then show ?thesis using assms(2) delete(1,2) by (auto simp: waits_inv_def distinct_map_filter)
qed

lemma txn_evolve:
  assumes "wait_txn s s'"
  shows "waits_evolve s s'"
  using assms(1)
proof cases
  case other
  then show ?thesis by (auto simp: waits_evolve_def same_wait_def status_leads_def)
next
  case (settle P f)
  have "\<exists>w' \<in> set (it_waits s'). same_wait w w' \<and> status_leads (wt_status w) (wt_status w')" if "w \<in> set (it_waits s)" for w
    using settle(1) settle(3) [OF that] that by (intro bexI [of _ "if P w then f w else w"]) (auto simp: same_wait_def status_leads_def)
  then show ?thesis using settle(2) by (simp add: waits_evolve_def)
next
  case (deliver w ff)
  have "\<exists>w' \<in> set (it_waits s'). same_wait v w' \<and> status_leads (wt_status v) (wt_status w')" if "v \<in> set (it_waits s)" for v
    using deliver(3) that by (intro bexI [of _ "if wt_id v = wt_id w then v\<lparr>wt_status := Delivered\<rparr> else v"]) (auto simp: same_wait_def status_leads_def)
  then show ?thesis using deliver(4) by (simp add: waits_evolve_def)
next
  case (park w)
  then show ?thesis by (auto simp: waits_evolve_def same_wait_def status_leads_def)
next
  case (delete wid)
  have "w \<in> set (it_waits s')" if "w \<in> set (it_waits s)" "wt_import w = None \<or> wt_status w \<noteq> Waiting" for w
    using delete(1) delete(3) [OF that(1)] that by auto
  then show ?thesis using delete(2) by (auto simp: waits_evolve_def same_wait_def status_leads_def)
qed

lemma txns_inv: "wait_txns s s' \<Longrightarrow> waits_inv s \<Longrightarrow> waits_inv s'"
  by (induction rule: rtranclp_induct) (auto intro: txn_inv)

lemma txns_evolve: "wait_txns s s' \<Longrightarrow> waits_evolve s s'"
  by (induction rule: rtranclp_induct) (auto intro: waits_evolve_trans txn_evolve)

subsection \<open>The operations as transactions\<close>

lemma update_frame [simp]:
  "it_delivered (update_waits P f s) = it_delivered s" "it_requests (update_waits P f s) = it_requests s" "it_values (update_waits P f s) = it_values s"
  "it_executors (update_waits P f s) = it_executors s" "it_next (update_waits P f s) = it_next s"
  "it_waits (update_waits P f s) = map (\<lambda>w. if P w then f w else w) (it_waits s)"
  "it_waits (update_requests Q g s) = it_waits s" "it_delivered (update_requests Q g s) = it_delivered s" "it_values (update_requests Q g s) = it_values s"
  "it_requests (update_requests Q g s) = map (\<lambda>r. if Q r then g r else r) (it_requests s)"
  by (simp_all add: update_waits_def update_requests_def)

lemma publish_frame [simp]:
  "it_waits (publish_answered r s) = it_waits s" "it_delivered (publish_answered r s) = it_delivered s"
  "it_values (publish_answered r s) = it_values s" "it_requests (publish_answered r s) = it_requests s"
  by (simp_all add: publish_answered_def publish_interaction_def Let_def)

lemma hand_over_frame:
  "hand_over env now w ff s = (ok, s') \<Longrightarrow> it_waits s' = it_waits s \<and> it_delivered s' = it_delivered s \<and> it_requests s' = it_requests s \<and>
     it_values s' = it_values s \<and> it_next s' = it_next s"
  by (auto simp: hand_over_def Let_def split: if_splits option.splits sum.splits)

lemma deliver_wait_cases:
  obtains (refused) "\<not> fst (deliver_wait env now w s)" "it_waits (snd (deliver_wait env now w s)) = it_waits s"
      "it_delivered (snd (deliver_wait env now w s)) = it_delivered s"
  | (accepted) ff where "fst (deliver_wait env now w s)"
      "it_waits (snd (deliver_wait env now w s)) = map (\<lambda>r. if wt_id r = wt_id w then r\<lparr>wt_status := Delivered\<rparr> else r) (it_waits s)"
      "it_delivered (snd (deliver_wait env now w s)) = it_delivered s @ [(wt_id w, ff)]" "carries (wt_flowfile w) ff"
proof (cases "deliverable w s")
  case False
  then show ?thesis using refused by (simp add: deliver_wait_def)
next
  case True
  show ?thesis
  proof (cases "restore_parked (it_next s) (ie_fresh env (it_next s)) (wt_flowfile w)")
    case (Inl e)
    then show ?thesis using True refused by (simp add: deliver_wait_def)
  next
    case (Inr restored)
    let ?ff = "stamp_delivery env now w restored"
    obtain ok s1 where h: "hand_over env now w ?ff (s\<lparr>it_next := Suc (it_next s)\<rparr>) = (ok, s1)" by fastforce
    note f = hand_over_frame [OF h]
    show ?thesis
    proof (cases ok)
      case True
      then show ?thesis using \<open>deliverable w s\<close> Inr h f accepted [of ?ff] carries_delivery [OF Inr, of env now w] by (simp add: deliver_wait_def Let_def)
    next
      case False
      then show ?thesis using \<open>deliverable w s\<close> Inr h f refused by (simp add: deliver_wait_def Let_def)
    qed
  qed
qed

lemma deliver_wait_txn: "w \<in> set (it_waits s) \<Longrightarrow> undelivered w \<Longrightarrow> wait_txn s (snd (deliver_wait env now w s))"
  by (rule deliver_wait_cases [of env now w s]) (auto intro: wait_txn.other wait_txn.deliver)

lemma deliver_wait_others:
  assumes "v \<in> set (it_waits s)" "wt_id v \<noteq> wt_id w"
  shows "v \<in> set (it_waits (snd (deliver_wait env now w s)))"
  by (rule deliver_wait_cases [of env now w s]) (use assms in \<open>auto simp: image_iff intro!: bexI [of _ v]\<close>)

lemma deliver_rows_txns:
  "\<forall>w \<in> set ws. w \<in> set (it_waits s) \<and> undelivered w \<Longrightarrow> distinct (map wt_id ws) \<Longrightarrow> wait_txns s (snd (deliver_rows env now ws s))"
proof (induction ws arbitrary: s)
  case (Cons w ws)
  let ?s = "snd (deliver_wait env now w s)"
  have "wait_txns ?s (snd (deliver_rows env now ws ?s))"
    using Cons.prems deliver_wait_others [of _ s w env now] by (intro Cons.IH) (simp_all, metis image_eqI)
  moreover have "wait_txn s ?s" using Cons.prems by (simp add: deliver_wait_txn)
  ultimately show ?case by (simp add: split_beta Let_def converse_rtranclp_into_rtranclp)
qed simp

lemma deliver_resolved_txns:
  assumes "waits_inv s"
  shows "wait_txns s (snd (deliver_resolved env now s))"
proof -
  have "distinct (map wt_id (filter undelivered (it_waits s)))" using assms by (simp add: waits_inv_def distinct_map_filter)
  then show ?thesis unfolding deliver_resolved_def by (intro deliver_rows_txns) auto
qed

lemma settle_txn:
  assumes "\<And>w. w \<in> set (it_waits s) \<Longrightarrow> P w \<Longrightarrow> wt_status w = Waiting \<and> undelivered (f w) \<and> same_wait w (f w)"
  shows "wait_txn s (update_waits P f s)"
  by (rule wait_txn.settle [of _ P f s]) (use assms in auto)

lemma then_deliver:
  assumes "waits_inv s" "wait_txns s s1"
  shows "wait_txns s (snd (deliver_resolved env now s1))"
  using assms(2) deliver_resolved_txns [OF txns_inv [OF assms(2,1)]] by (rule rtranclp_trans)

lemma resolve_txns:
  assumes "waits_inv s"
  shows "wait_txns s (snd (resolve_signal signal value s))"
proof -
  let ?rows = "filter (waits_on signal) (it_waits s)"
  let ?s = "update_waits (\<lambda>w. wt_id w \<in> set (map wt_id ?rows)) (\<lambda>w. w\<lparr>wt_status := Resolved, wt_resolution := Some value\<rparr>) s"
  have "wait_txn s ?s"
  proof (rule settle_txn)
    fix w assume w: "w \<in> set (it_waits s)" "wt_id w \<in> set (map wt_id ?rows)"
    then obtain v where "v \<in> set (it_waits s)" "wt_id w = wt_id v" "waits_on signal v" by auto
    then have "waits_on signal w" using wait_unique [OF assms w(1)] by metis
    then show "wt_status w = Waiting \<and> undelivered (w\<lparr>wt_status := Resolved, wt_resolution := Some value\<rparr>) \<and>
        same_wait w (w\<lparr>wt_status := Resolved, wt_resolution := Some value\<rparr>)"
      by (simp add: waits_on_def undelivered_def same_wait_def)
  qed
  moreover have "wait_txn ?s (?s\<lparr>it_values := vs\<rparr>)" for vs by (rule wait_txn.other) simp_all
  ultimately have "wait_txns s ?s" "wait_txns s (?s\<lparr>it_values := vs\<rparr>)" for vs by (blast intro: rtranclp.rtrancl_into_rtrancl)+
  then show ?thesis unfolding resolve_signal_def Let_def snd_conv by (simp only: if_split) blast
qed

lemma notify_txns:
  assumes "waits_inv s" "notify_signal env now signal value s = Inr (n, s')"
  shows "wait_txns s s'"
  using assms(2) resolve_txns [OF assms(1), of signal "value"] then_deliver [OF assms(1), of "snd (resolve_signal signal value s)" env now]
  by (auto simp: notify_signal_def Let_def split_beta split: if_splits)

lemma other_txns: "it_waits s' = it_waits s \<Longrightarrow> it_delivered s' = it_delivered s \<Longrightarrow> wait_txns s s'"
  by (blast intro: wait_txn.other)

lemma after_other:
  assumes "waits_inv s" "it_waits s1 = it_waits s" "it_delivered s1 = it_delivered s" "waits_inv s1 \<Longrightarrow> wait_txns s1 s2"
  shows "wait_txns s s2"
  using other_txns [OF assms(2,3)] assms by (blast intro: rtranclp_trans txns_inv)

lemma get_wait_None: "get_wait wid s = None \<longleftrightarrow> wid \<notin> wt_id ` set (it_waits s)"
  by (auto simp: get_wait_def find_None_iff)

lemma insert_txn: "insert_wait w s = Inr s' \<Longrightarrow> wt_status w = Waiting \<Longrightarrow> wait_txns s s'"
  by (auto simp: insert_wait_def get_wait_None split: if_splits intro!: r_into_rtranclp wait_txn.park)

lemma park_insert_txn: "wait_txns s (snd (park_insert env now signal inst task ff timeout s))"
  by (auto simp: park_insert_def Let_def get_wait_None intro!: r_into_rtranclp wait_txn.park)

lemma consume_frame: "it_waits (snd (consume_signal_value signal s)) = it_waits s" "it_delivered (snd (consume_signal_value signal s)) = it_delivered s"
  by (simp_all add: consume_signal_value_def split: option.split)

lemma park_wait_txns: "waits_inv s \<Longrightarrow> wait_txns s (snd (park_wait env now signal inst task ff timeout s))"
  using after_other [OF _ consume_frame [of signal s]] other_txns [OF consume_frame [of signal s]] park_insert_txn
  by (auto simp: park_wait_def Let_def split_beta)

lemma create_txns: "create_interaction env now uuid a s = Inr (r, s') \<Longrightarrow> wait_txns s s'"
  by (intro other_txns) (auto simp: create_interaction_def bind_res_Inr_iff publish_interaction_def Let_def split: option.splits if_splits)

lemma cancel_wait_txns:
  assumes "waits_inv s"
  shows "wait_txns s (snd (cancel_wait env now wid s))"
proof -
  have "wait_txn s (update_waits (\<lambda>w. wt_id w = wid \<and> wt_status w = Waiting) (\<lambda>w. w\<lparr>wt_status := WaitCancelled\<rparr>) s)"
    by (rule settle_txn) (simp add: undelivered_def same_wait_def)
  then show ?thesis using then_deliver [OF assms r_into_rtranclp, where env = env and now = now] by (simp add: cancel_wait_def)
qed

lemma notified_txns:
  assumes "waits_inv s" "notify_signal env now signal v s1 = Inr (n, s2)" "it_waits s1 = it_waits s" "it_delivered s1 = it_delivered s"
  shows "wait_txns s s2"
  using after_other [OF assms(1,3,4) notify_txns [OF _ assms(2)]] .

lemma cancel_txns: "waits_inv s \<Longrightarrow> wait_txns s (snd (cancel_interaction env now rid s))"
  by (auto simp: cancel_interaction_def Let_def set_request_status_def split: option.split sum.split
      intro: other_txns notified_txns)

lemma resume_txns:
  assumes "waits_inv s" "it_waits s1 = it_waits s" "it_delivered s1 = it_delivered s"
  shows "wait_txns s (snd (resume_requester env now r s1))"
proof (cases "notify_signal env now (rq_signal r) (JDict [(''status'', JStr ''answered''), (''answer'', rq_answer r), (''answered_by'', JStr (rq_answered_by r))]) s1")
  case (Inl e)
  then show ?thesis using assms by (simp add: resume_requester_def other_txns)
next
  case (Inr ns)
  obtain n s2 where ns: "ns = (n, s2)" by fastforce
  have "wait_txns s s2" using notified_txns [OF assms(1) Inr [unfolded ns] assms(2,3)] .
  moreover have "wait_txn s2 (wake_agent r msg s2)" for msg by (rule wait_txn.other) (simp_all add: wake_agent_def)
  ultimately have "wait_txns s s2" "wait_txns s (wake_agent r msg s2)" for msg by (blast intro: rtranclp.rtrancl_into_rtrancl)+
  then show ?thesis using Inr ns by (simp add: resume_requester_def split: sum.split)
qed

lemma respond_txns:
  assumes "waits_inv s"
  shows "wait_txns s (snd (respond env now rid answer by_user s))"
proof (cases "get_interaction rid s")
  case None
  then show ?thesis by (simp add: respond_def)
next
  case (Some r)
  have answered: "it_waits (snd (store_answer now rid v by_user s)) = it_waits s" "it_delivered (snd (store_answer now rid v by_user s)) = it_delivered s" for v
    by (simp_all add: store_answer_def)
  have "wait_txns s (snd (resume_requester env now r1 (publish_answered r1 (snd (store_answer now rid v by_user s)))))" for r1 v
    using assms answered by (intro resume_txns) simp_all
  moreover have "wait_txns s (snd (store_answer now rid v by_user s))" "wait_txns s (set_request_status rid Expired s)" for v
    using answered by (auto intro!: other_txns simp: set_request_status_def)
  ultimately show ?thesis using Some by (simp add: respond_def Let_def split_beta split: sum.split prod.split bool.split)
qed

lemma timer_txns: "park_timer env now uuid inst task ff deadline s = Inr (wid, ff', s') \<Longrightarrow> wait_txns s s'"
  by (auto simp: park_timer_def bind_res_Inr_iff Let_def split: if_splits intro: insert_txn)

lemma import_txns: "import_timer wid inst task ff deadline created metadata s = Inr (w, s') \<Longrightarrow> wait_txns s s'"
  by (auto simp: import_timer_def bind_res_Inr_iff Let_def split: if_splits option.splits intro: insert_txn)

lemma delete_txns:
  assumes "waits_inv s" "delete_imported_wait wid metadata s = Inr (b, s')"
  shows "wait_txns s s'"
proof (cases "get_wait wid s")
  case None
  then show ?thesis using assms(2) by (simp add: delete_imported_wait_def)
next
  case (Some w)
  then have w: "w \<in> set (it_waits s)" "wt_id w = wid" by (auto simp: get_wait_def dest!: find_SomeD)
  have d: "wt_status w = Waiting" "wt_import w \<noteq> None" "s' = s\<lparr>it_waits := filter (\<lambda>w. wt_id w \<noteq> wid) (it_waits s)\<rparr>"
    using assms(2) Some by (auto simp: delete_imported_wait_def split: if_splits)
  have "wt_status v = Waiting \<and> wt_import v \<noteq> None" if "v \<in> set (it_waits s)" "wt_id v = wid" for v
    using wait_unique [OF assms(1) w(1) that(1)] that(2) w(2) d by simp
  then show ?thesis using d(3) by (intro r_into_rtranclp wait_txn.delete [of _ wid]) auto
qed

lemma expire_rows_txns: "wait_txns s (expire_rows now s)"
proof -
  let ?Q = "\<lambda>r. rq_id r \<in> set (map rq_id (filter (past_deadline now) (it_requests s)))"
  define s1 where "s1 = update_requests ?Q (\<lambda>r. r\<lparr>rq_status := Expired\<rparr>) s"
  define s2 where "s2 = update_waits (\<lambda>w. wt_kind w = SignalWait \<and> wt_status w = Waiting \<and> wt_expires w > 0 \<and> wt_expires w < now) (\<lambda>w. w\<lparr>wt_status := TimedOut\<rparr>) s1"
  have "wait_txn s s1" unfolding s1_def by (rule wait_txn.other) simp_all
  moreover have "wait_txn s1 s2" unfolding s2_def by (rule settle_txn) (simp add: undelivered_def same_wait_def)
  moreover have "wait_txn s2 (expire_rows now s)" unfolding expire_rows_def s1_def [symmetric] s2_def [symmetric]
    by (rule settle_txn) (simp add: undelivered_def same_wait_def)
  ultimately show ?thesis by (blast intro: converse_rtranclp_into_rtranclp)
qed

lemma announce_txns:
  assumes "waits_inv s" "announce_expired env now row s = Inr s'"
  shows "wait_txns s s'"
proof (cases "get_interaction (rq_id row) s")
  case (Some r)
  then obtain n where "notify_signal env now (rq_signal r) (JDict [(''status'', JStr ''expired''), (''answer'', JNull)]) (publish_answered r s) = Inr (n, s')"
    using assms(2) by (auto simp: announce_expired_def bind_res_Inr_iff split_beta)
  then show ?thesis using notified_txns [OF assms(1)] by simp
qed (use assms in \<open>simp add: announce_expired_def\<close>)

lemma sweep_txns:
  assumes "waits_inv s" "sweep_once env now s = Inr s'"
  shows "wait_txns s s'"
proof -
  have loop: "wait_txns t t'" if "fold_res (announce_expired env now) rs t = Inr t'" "waits_inv t" for rs t t'
    using that
  proof (induction rs arbitrary: t)
    case (Cons r rs)
    then obtain u where u: "announce_expired env now r t = Inr u" "fold_res (announce_expired env now) rs u = Inr t'" by (auto simp: bind_res_Inr_iff)
    have "wait_txns t u" using announce_txns [OF Cons.prems(2) u(1)] .
    then show ?case using Cons.IH [OF u(2)] Cons.prems(2) by (blast intro: rtranclp_trans txns_inv)
  qed simp
  obtain t where "fold_res (announce_expired env now) (filter (past_deadline now) (it_requests s)) (expire_rows now s) = Inr t" "s' = snd (deliver_resolved env now t)"
    using assms(2) by (auto simp: sweep_once_def bind_res_Inr_iff)
  moreover from this have "wait_txns s t" using loop expire_rows_txns [of s now] assms(1) by (blast intro: rtranclp_trans txns_inv)
  ultimately show ?thesis using then_deliver [OF assms(1)] by simp
qed

subsection \<open>Reachable stores\<close>

definition interactions_start :: "interactions \<Rightarrow> bool" where
  "interactions_start s \<longleftrightarrow> it_waits s = [] \<and> it_delivered s = [] \<and> it_requests s = [] \<and> it_values s = []"

inductive interaction_step :: "interactions \<Rightarrow> interactions \<Rightarrow> bool" where
  create: "create_interaction env now uuid a s = Inr (r, s') \<Longrightarrow> interaction_step s s'"
| confirm: "create_confirmation env now uuid a s = Inr (r, s') \<Longrightarrow> interaction_step s s'"
| respond: "interaction_step s (snd (respond env now rid answer by_user s))"
| cancel: "interaction_step s (snd (cancel_interaction env now rid s))"
| wait: "interaction_step s (snd (park_wait env now signal inst task ff timeout s))"
| timer: "park_timer env now uuid inst task ff deadline s = Inr (wid, ff', s') \<Longrightarrow> interaction_step s s'"
| import_timer: "import_timer wid inst task ff deadline created metadata s = Inr (w, s') \<Longrightarrow> interaction_step s s'"
| delete: "delete_imported_wait wid metadata s = Inr (b, s') \<Longrightarrow> interaction_step s s'"
| notify: "notify_signal env now signal v s = Inr (n, s') \<Longrightarrow> interaction_step s s'"
| consume: "interaction_step s (snd (consume_signal_value signal s))"
| cancel_wait: "interaction_step s (snd (cancel_wait env now wid s))"
| deliver: "interaction_step s (snd (deliver_resolved env now s))"
| sweep: "sweep_once env now s = Inr s' \<Longrightarrow> interaction_step s s'"
| flows: "interaction_step s (s\<lparr>it_executors := executors\<rparr>)"

lemma interaction_step_txns: "interaction_step s s' \<Longrightarrow> waits_inv s \<Longrightarrow> wait_txns s s'"
proof (induction rule: interaction_step.induct)
  case (confirm env now uuid a s r s')
  then show ?case by (auto simp: create_confirmation_def Let_def split: if_splits intro: create_txns)
qed (auto intro: create_txns respond_txns cancel_txns park_wait_txns timer_txns import_txns delete_txns notify_txns cancel_wait_txns deliver_resolved_txns
    sweep_txns other_txns simp: consume_frame)

interpretation its: evolving_store interactions_start interaction_step waits_inv waits_evolve
proof unfold_locales
  fix s assume "interactions_start s"
  then show "waits_inv s" by (simp add: interactions_start_def waits_inv_def)
qed (auto intro: txns_inv txns_evolve interaction_step_txns waits_evolve_trans)


subsection \<open>A signal resumes the flow\<close>

lemma entry_valid: "exec_wf ex \<Longrightarrow> valid_conn (snd (entry_connection t ex)) (fst (entry_connection t ex))"
  using wf_valid(3) [of ex _ t] by (auto simp: entry_connection_def valid_conn_def add_connection_def Let_def split: list.split)

text \<open>The first queue into a task, through which a FlowFile is injected.\<close>

definition entry_queue :: "string \<Rightarrow> executor \<Rightarrow> connection" where
  "entry_queue t ex = (case entry_connection t ex of (i, ex1) \<Rightarrow> conn ex1 i)"

lemma inject_room:
  assumes "exec_wf ex" "room_for 1 (ff_size ff) (entry_queue t ex)"
  shows "\<exists>ex' i. inject now ff (Some t) ex = Inr (True, ex') \<and> exec_wf ex' \<and> ex_stop ex' = ex_stop ex \<and> ff \<in> set (c_contents (conn ex' i)) \<and> c_target_id (conn ex' i) = c_target_id (entry_queue t ex)"
proof -
  obtain i ex1 where e: "entry_connection t ex = (i, ex1)" by fastforce
  have ex1: "exec_wf ex1" "valid_conn ex1 i" using keeps_entry [of ex t] entry_valid [OF assms(1), of t] assms(1) e by (simp_all add: keeps_def)
  have room: "room_for (Suc 0) (ff_size ff + 0) (conn ex1 i)" using assms(2) e by (simp add: entry_queue_def)
  from wf_conn [OF ex1] obtain c where c: "enqueue now ff (conn ex1 i) = (True, c)" "mset (c_contents c) = add_mset ff (mset (c_contents (conn ex1 i)))"
    using enqueue_room [OF wf_conn [OF ex1] room, of now] by (cases rule: enqueue_cases [of _ now ff]) auto
  have "inject now ff (Some t) ex = Inr (True, put_conn i c ex1)" by (simp add: inject_def entry_task_def e c)
  moreover have "exec_wf (put_conn i c ex1)" using keeps_enqueue [of ex1 i now ff] ex1(1) c(1) by (simp add: keeps_def)
  moreover have "ex_stop (put_conn i c ex1) = ex_stop ex"
    using e by (auto simp: put_conn_def entry_connection_def split: list.splits)
  moreover have "ff \<in> set (c_contents (conn (put_conn i c ex1) i))"
    using c(2) by (simp add: conn_put_conn [OF ex1(2)]) (metis set_mset_add_mset_insert insertI1 set_mset_mset)
  moreover have "c_target_id (conn (put_conn i c ex1) i) = c_target_id (entry_queue t ex)"
    using enqueue_ends [of "conn ex1 i" now ff] c(1) by (simp add: conn_put_conn [OF ex1(2)] entry_queue_def e same_ends_def)
  ultimately show ?thesis by blast
qed

lemma entry_target: "exec_wf ex \<Longrightarrow> c_target_id (entry_queue t ex) = t"
  by (auto simp: entry_queue_def entry_connection_def exec_wf_def cm_inv_def add_connection_def Let_def new_connection_def nth_append split: list.split
      dest!: filter_eq_ConsD)

lemma deliver_rows_append: "snd (deliver_rows env now (xs @ ys) s) = snd (deliver_rows env now ys (snd (deliver_rows env now xs s)))"
  by (induction xs arbitrary: s) (simp_all add: split_beta Let_def)

lemma deliver_wait_other_flow:
  assumes "wt_instance w \<noteq> inst"
  shows "map_of (it_executors (snd (deliver_wait env now w s))) inst = map_of (it_executors s) inst"
  using assms by (auto simp: deliver_wait_def hand_over_def Let_def update_conv' split: sum.splits option.splits prod.splits if_splits)

lemma deliver_rows_other_flow:
  "\<forall>w \<in> set ws. wt_instance w \<noteq> inst \<Longrightarrow> map_of (it_executors (snd (deliver_rows env now ws s))) inst = map_of (it_executors s) inst"
  by (induction ws arbitrary: s) (simp_all add: split_beta Let_def deliver_wait_other_flow)

lemma deliver_rows_others: "v \<in> set (it_waits s) \<Longrightarrow> wt_id v \<notin> wt_id ` set ws \<Longrightarrow> v \<in> set (it_waits (snd (deliver_rows env now ws s)))"
  by (induction ws arbitrary: s) (simp_all add: split_beta Let_def deliver_wait_others)

text \<open>A registered, running executor with room takes the FlowFile.\<close>

lemma deliver_wait_room:
  assumes "workflow_run_id (wt_instance w) = []" "map_of (it_executors s) (wt_instance w) = Some ex" "\<not> ex_stop ex" "exec_wf ex"
    "restore_parked (it_next s) (ie_fresh env (it_next s)) (wt_flowfile w) = Inr restored" "room_for 1 (ff_size restored) (entry_queue (wt_task w) ex)"
  shows "\<exists>ex' i. fst (deliver_wait env now w s) \<and> map_of (it_executors (snd (deliver_wait env now w s))) (wt_instance w) = Some ex' \<and>
    stamp_delivery env now w restored \<in> set (c_contents (conn ex' i)) \<and> c_target_id (conn ex' i) = wt_task w"
proof -
  let ?ff = "stamp_delivery env now w restored"
  have "ff_size ?ff = ff_size restored" by (simp add: ff_size_def)
  then obtain ex' i where i: "inject now ?ff (Some (wt_task w)) ex = Inr (True, ex')" "?ff \<in> set (c_contents (conn ex' i))" "c_target_id (conn ex' i) = wt_task w"
    using inject_room [OF assms(4), of ?ff "wt_task w" now] assms(6) entry_target [OF assms(4)] by auto
  have "deliver_wait env now w s = (True, update_waits (\<lambda>r. wt_id r = wt_id w) (\<lambda>r. r\<lparr>wt_status := Delivered\<rparr>)
      (s\<lparr>it_next := Suc (it_next s), it_executors := AList.update (wt_instance w) ex' (it_executors s), it_delivered := it_delivered s @ [(wt_id w, ?ff)]\<rparr>))"
    using assms(1,2,3,5) i(1) by (simp add: deliver_wait_def deliverable_def hand_over_def Let_def)
  then show ?thesis using i(2,3) by (auto simp: update_conv')
qed

lemma stamp_resolution_attribute [simp]:
  "k \<noteq> ''interaction.status'' \<Longrightarrow> k \<noteq> ''interaction.answer'' \<Longrightarrow> get_attribute (stamp_interaction_resolution env signal v ff) k = get_attribute ff k"
  by (auto simp: stamp_interaction_resolution_def Let_def split: json.split)

definition resume_attributes :: "string list" where
  "resume_attributes = [''durable.wait.status'', ''durable.wait.signal_id'', ''durable.wait.value'', ''interaction.status'', ''interaction.answer'']"

lemma stamp_signaled:
  assumes "wt_kind w = SignalWait" "wt_status w = Resolved" "wt_resolution w = Some v"
  shows "get_attribute (stamp_delivery env now w ff) ''durable.wait.status'' = Some ''signaled''"
    "get_attribute (stamp_delivery env now w ff) ''durable.wait.value'' = Some (json_text v)"
    "k \<notin> set resume_attributes \<Longrightarrow> get_attribute (stamp_delivery env now w ff) k = get_attribute ff k"
  using assms by (auto simp: stamp_delivery_def Let_def resume_attributes_def)

lemma resumed_passes:
  assumes "get_attribute ff ''durable.wait.status'' = Some st" "st \<noteq> []"
  shows "durable_wait_execute env now place cfg ff s = (Inr [ff], s)"
  using assms by (simp add: durable_wait_execute_def attribute_or_def)

definition other_flow_rows :: "string \<Rightarrow> wait_row \<Rightarrow> interactions \<Rightarrow> bool" where
  "other_flow_rows signal w s \<longleftrightarrow> (\<forall>v \<in> set (it_waits s). v = w \<or> wt_instance v \<noteq> wt_instance w \<or> wt_status v = Delivered \<or>
     (wt_status v = Waiting \<and> wt_signal v \<noteq> signal))"

lemma resolved_row:
  assumes "waits_inv s" "w \<in> set (it_waits s)" "waits_on signal w"
  shows "snd (resolve_signal signal v s) = update_waits (waits_on signal) (\<lambda>w. w\<lparr>wt_status := Resolved, wt_resolution := Some v\<rparr>) s" "0 < fst (resolve_signal signal v s)"
proof -
  have "wt_id u \<in> set (map wt_id (filter (waits_on signal) (it_waits s))) \<longleftrightarrow> waits_on signal u" if u: "u \<in> set (it_waits s)" for u
  proof
    assume "wt_id u \<in> set (map wt_id (filter (waits_on signal) (it_waits s)))"
    then obtain t where "t \<in> set (it_waits s)" "waits_on signal t" "wt_id u = wt_id t" unfolding set_map set_filter by blast
    then show "waits_on signal u" using wait_unique [OF assms(1) u] by metis
  next
    assume "waits_on signal u"
    with u show "wt_id u \<in> set (map wt_id (filter (waits_on signal) (it_waits s)))" unfolding set_map set_filter by blast
  qed
  then have "update_waits (\<lambda>u. wt_id u \<in> set (map wt_id (filter (waits_on signal) (it_waits s)))) f s = update_waits (waits_on signal) f s" for f
    unfolding update_waits_def by (intro arg_cong [where f = "\<lambda>ws. s\<lparr>it_waits := ws\<rparr>"] map_cong) simp_all
  moreover have ne: "filter (waits_on signal) (it_waits s) \<noteq> []" using assms(2,3) by (auto simp: filter_empty_conv)
  ultimately show "snd (resolve_signal signal v s) = update_waits (waits_on signal) (\<lambda>w. w\<lparr>wt_status := Resolved, wt_resolution := Some v\<rparr>) s"
    unfolding resolve_signal_def Let_def snd_conv by (simp only: ne if_False)
  show "0 < fst (resolve_signal signal v s)" using ne by (simp add: resolve_signal_def Let_def)
qed

lemma deliver_resolved_room:
  assumes "waits_inv s" "w \<in> set (it_waits s)" "undelivered w"
    "\<forall>v \<in> set (it_waits s). v = w \<or> wt_instance v \<noteq> wt_instance w \<or> \<not> undelivered v"
    "workflow_run_id (wt_instance w) = []" "map_of (it_executors s) (wt_instance w) = Some ex" "\<not> ex_stop ex" "exec_wf ex"
    "wt_flowfile w = serialize_parked ff" "distinct (dict_keys (ff_attributes ff))" "ff_process_id ff \<noteq> []" "room_for 1 (ff_size ff) (entry_queue (wt_task w) ex)"
  shows "\<exists>ex' i oid. w\<lparr>wt_status := Delivered\<rparr> \<in> set (it_waits (snd (deliver_resolved env now s))) \<and>
    map_of (it_executors (snd (deliver_resolved env now s))) (wt_instance w) = Some ex' \<and>
    stamp_delivery env now w (ff\<lparr>ff_oid := oid\<rparr>) \<in> set (c_contents (conn ex' i)) \<and> c_target_id (conn ex' i) = wt_task w"
proof -
  have "w \<in> set (filter undelivered (it_waits s))" using assms(2,3) by simp
  then obtain us vs where l: "filter undelivered (it_waits s) = us @ w # vs" by (blast dest: split_list)
  have "distinct (map wt_id (us @ w # vs))" using assms(1) unfolding l [symmetric] by (simp add: waits_inv_def distinct_map_filter)
  then have ids: "wt_id w \<notin> wt_id ` set us" "wt_id w \<notin> wt_id ` set vs" by auto
  have "wt_instance v \<noteq> wt_instance w" if "v \<in> set us \<union> set vs" for v
  proof -
    have "v \<in> set (filter undelivered (it_waits s))" "v \<noteq> w" using that ids l by auto
    then show ?thesis using assms(4) by auto
  qed
  then have inst: "\<forall>v \<in> set us. wt_instance v \<noteq> wt_instance w" "\<forall>v \<in> set vs. wt_instance v \<noteq> wt_instance w" by auto
  define s1 where "s1 = snd (deliver_rows env now us s)"
  have s1: "map_of (it_executors s1) (wt_instance w) = Some ex" "w \<in> set (it_waits s1)"
    using deliver_rows_other_flow [OF inst(1)] deliver_rows_others [OF assms(2) ids(1)] assms(6) by (simp_all add: s1_def)
  define s2 where "s2 = snd (deliver_wait env now w s1)"
  have restored: "restore_parked (it_next s1) (ie_fresh env (it_next s1)) (wt_flowfile w) = Inr (ff\<lparr>ff_oid := it_next s1\<rparr>)"
    using restore_serialize [OF assms(10,11)] assms(9) by simp
  have "room_for 1 (ff_size (ff\<lparr>ff_oid := it_next s1\<rparr>)) (entry_queue (wt_task w) ex)" using assms(12) by (simp add: ff_size_def)
  from deliver_wait_room [OF assms(5) s1(1) assms(7,8) restored this, of now]
  obtain ex' i where d: "fst (deliver_wait env now w s1)" "map_of (it_executors s2) (wt_instance w) = Some ex'"
      "stamp_delivery env now w (ff\<lparr>ff_oid := it_next s1\<rparr>) \<in> set (c_contents (conn ex' i))" "c_target_id (conn ex' i) = wt_task w"
    unfolding s2_def by blast
  have "w\<lparr>wt_status := Delivered\<rparr> \<in> set (it_waits s2)"
    using d(1) s1(2) unfolding s2_def by (cases rule: deliver_wait_cases [of env now w s1]) (auto simp: image_iff)
  then have "w\<lparr>wt_status := Delivered\<rparr> \<in> set (it_waits (snd (deliver_rows env now vs s2)))" using ids(2) by (intro deliver_rows_others) simp_all
  moreover have "map_of (it_executors (snd (deliver_rows env now vs s2))) (wt_instance w) = Some ex'" using deliver_rows_other_flow [OF inst(2)] d(2) by simp
  moreover have "snd (deliver_resolved env now s) = snd (deliver_rows env now vs s2)"
    unfolding deliver_resolved_def l deliver_rows_append s1_def [symmetric] by (simp add: split_beta Let_def s2_def)
  ultimately show ?thesis using d(3,4) by auto
qed

lemma resolved_rows_elsewhere:
  assumes "other_flow_rows signal w s" "waits_on signal w" "\<And>v. wt_instance (f v) = wt_instance v"
  shows "\<forall>v \<in> set (it_waits (update_waits (waits_on signal) f s)). v = f w \<or> wt_instance v \<noteq> wt_instance w \<or> \<not> undelivered v"
proof
  fix v assume "v \<in> set (it_waits (update_waits (waits_on signal) f s))"
  then obtain u where u: "u \<in> set (it_waits s)" "v = (if waits_on signal u then f u else u)" by auto
  from assms(1) u(1) consider "u = w" | "wt_instance u \<noteq> wt_instance w" | "wt_status u = Delivered" | "wt_status u = Waiting" "wt_signal u \<noteq> signal"
    unfolding other_flow_rows_def by blast
  then show "v = f w \<or> wt_instance v \<noteq> wt_instance w \<or> \<not> undelivered v"
    by cases (use assms(2,3) u(2) in \<open>simp_all add: waits_on_def undelivered_def\<close>)
qed

text \<open>
  C7: A signal resumes the flow that waits on it: when the executor of the flow runs and the queue into the waiting task has room, and no other wait of
  that flow is due, notify_signal marks the wait delivered and puts the parked FlowFile, with its bytes, process id and attributes and
  with the value of the signal, into a queue of the waiting task, which passes it on.  A FlowFile that was resumed once is passed on by every
  durableWait it meets later, whatever signal that one waits for.
\<close>

theorem signal_resumes_flow:
  assumes "interactions_start s0" "interaction_step\<^sup>*\<^sup>* s0 s" "signal \<noteq> []" "w \<in> set (it_waits s)" "waits_on signal w" "wt_kind w = SignalWait"
    "other_flow_rows signal w s" "workflow_run_id (wt_instance w) = []" "map_of (it_executors s) (wt_instance w) = Some ex" "\<not> ex_stop ex" "exec_wf ex"
    "wt_flowfile w = serialize_parked ff" "distinct (dict_keys (ff_attributes ff))" "ff_process_id ff \<noteq> []" "room_for 1 (ff_size ff) (entry_queue (wt_task w) ex)"
  shows "\<exists>n s' ex' i ff'. notify_signal env now signal v s = Inr (n, s') \<and> 0 < n \<and> (\<exists>w' \<in> set (it_waits s'). same_wait w w' \<and> wt_status w' = Delivered) \<and>
    map_of (it_executors s') (wt_instance w) = Some ex' \<and> ff' \<in> set (c_contents (conn ex' i)) \<and> c_target_id (conn ex' i) = wt_task w \<and>
    ff_content ff' = ff_content ff \<and> ff_process_id ff' = ff_process_id ff \<and> get_attribute ff' ''durable.wait.value'' = Some (json_text v) \<and>
    (\<forall>k. k \<notin> set resume_attributes \<longrightarrow> get_attribute ff' k = get_attribute ff k) \<and>
    (\<forall>env' t place cfg s2. durable_wait_execute env' t place cfg ff' s2 = (Inr [ff'], s2))"
proof -
  note inv = its.reachable_inv [OF assms(1,2)]
  let ?f = "\<lambda>w. w\<lparr>wt_status := Resolved, wt_resolution := Some v\<rparr>"
  define s1 where "s1 = update_waits (waits_on signal) ?f s"
  note res = resolved_row [OF inv assms(4,5), of v]
  have inv1: "waits_inv s1" using txns_inv [OF resolve_txns [OF inv] inv, of signal v] res(1) by (simp add: s1_def)
  have w1: "?f w \<in> set (it_waits s1)" using assms(4,5) by (force simp: s1_def)
  have others: "\<forall>u \<in> set (it_waits s1). u = ?f w \<or> wt_instance u \<noteq> wt_instance (?f w) \<or> \<not> undelivered u"
    using resolved_rows_elsewhere [OF assms(7,5), of ?f] unfolding s1_def by simp
  have ex: "map_of (it_executors s1) (wt_instance (?f w)) = Some ex" using assms(9) by (simp add: s1_def)
  have n: "notify_signal env now signal v s = Inr (fst (resolve_signal signal v s), snd (deliver_resolved env now s1))"
    using res assms(3) by (simp add: notify_signal_def split_beta Let_def s1_def)
  obtain ex' i oid where d: "?f w\<lparr>wt_status := Delivered\<rparr> \<in> set (it_waits (snd (deliver_resolved env now s1)))"
      "map_of (it_executors (snd (deliver_resolved env now s1))) (wt_instance w) = Some ex'"
      "stamp_delivery env now (?f w) (ff\<lparr>ff_oid := oid\<rparr>) \<in> set (c_contents (conn ex' i))" "c_target_id (conn ex' i) = wt_task w"
    using deliver_resolved_room [OF inv1 w1 _ others _ ex assms(10,11) _ assms(13,14), of env now] assms(8,12,15) by (auto simp: undelivered_def)
  define ff' where "ff' = stamp_delivery env now (?f w) (ff\<lparr>ff_oid := oid\<rparr>)"
  have k: "wt_kind (?f w) = SignalWait" "wt_status (?f w) = Resolved" "wt_resolution (?f w) = Some v" using assms(6) by simp_all
  note st = stamp_signaled [OF k, where env = env and now = now and ff = "ff\<lparr>ff_oid := oid\<rparr>", folded ff'_def]
  have "get_attribute ff' k = get_attribute ff k" if "k \<notin> set resume_attributes" for k using st(3) [OF that] by (simp add: get_attribute_def)
  moreover have "durable_wait_execute env' t place cfg ff' s2 = (Inr [ff'], s2)" for env' t place cfg s2 using resumed_passes [OF st(1)] by simp
  moreover have "ff_content ff' = ff_content ff" "ff_process_id ff' = ff_process_id ff" by (simp_all add: ff'_def)
  moreover have "same_wait w (?f w\<lparr>wt_status := Delivered\<rparr>)" "wt_status (?f w\<lparr>wt_status := Delivered\<rparr>) = Delivered" by (simp_all add: same_wait_def)
  ultimately show ?thesis using n res(2) d st(2) unfolding ff'_def [symmetric] by blast
qed

subsection \<open>Remembered values\<close>

lemma no_waiter_resolve:
  assumes "\<not> (\<exists>w \<in> set (it_waits s). waits_on signal w)"
  shows "resolve_signal signal v s = (0, s\<lparr>it_values := AList.update signal v (it_values s)\<rparr>)"
proof -
  have "filter (waits_on signal) (it_waits s) = []" using assms by (auto simp: filter_empty_conv)
  then show ?thesis by (simp add: resolve_signal_def update_waits_def)
qed

lemma consume_stored:
  "map_of (it_values s) signal = Some v \<Longrightarrow> consume_signal_value signal s = (v, s\<lparr>it_values := AList.delete signal (it_values s)\<rparr>)"
  by (simp add: consume_signal_value_def)

text \<open>
  C37: A signal that nobody waits for is remembered, the latest value winning, and the next wait on it takes the value, once, and passes its FlowFile on
  with that value.  Only a null value, the default of notify_signal, is lost: it is deleted all the same and the wait parks.
\<close>

theorem signal_remembered_once:
  assumes "signal \<noteq> []" "\<not> (\<exists>w \<in> set (it_waits s). waits_on signal w)" "ff_process_id ff \<noteq> []"
  shows "\<exists>s1 s2 r. notify_signal env now signal v s = Inr (0, s1) \<and> it_waits s1 = it_waits s \<and> map_of (it_values s1) = (map_of (it_values s))(signal \<mapsto> v) \<and>
    park_wait env t signal inst task ff timeout s1 = (r, s2) \<and> map_of (it_values s2) = (map_of (it_values s))(signal := None) \<and>
      (if v = JNull then r = Inr (Some (wait_id_of env signal inst task ff), ff) \<and> get_wait (wait_id_of env signal inst task ff) s2 \<noteq> None
        else it_waits s2 = it_waits s \<and> (\<exists>ff'. r = Inr (None, ff') \<and> ff_content ff' = ff_content ff \<and> ff_process_id ff' = ff_process_id ff \<and>
          get_attribute ff' ''durable.wait.status'' = Some ''signaled'' \<and> get_attribute ff' ''durable.wait.value'' = Some (json_text v)))"
proof -
  define s1 where "s1 = s\<lparr>it_values := AList.update signal v (it_values s)\<rparr>"
  define s2 where "s2 = s1\<lparr>it_values := AList.delete signal (it_values s1)\<rparr>"
  have n: "notify_signal env now signal v s = Inr (0, s1)" using assms(1) no_waiter_resolve [OF assms(2)] by (simp add: notify_signal_def s1_def)
  have c: "consume_signal_value signal s1 = (v, s2)" unfolding s2_def by (rule consume_stored) (simp add: s1_def update_conv')
  have vals: "map_of (it_values s1) = (map_of (it_values s))(signal \<mapsto> v)" "map_of (it_values s2) = (map_of (it_values s))(signal := None)"
    by (auto simp: s1_def s2_def update_conv' delete_conv')
  have w: "it_waits s1 = it_waits s" "it_waits s2 = it_waits s" by (simp_all add: s1_def s2_def)
  have ins: "fst (park_insert env t signal inst task ff timeout s2) = wait_id_of env signal inst task ff"
    "it_values (snd (park_insert env t signal inst task ff timeout s2)) = it_values s2"
    "get_wait (wait_id_of env signal inst task ff) (snd (park_insert env t signal inst task ff timeout s2)) \<noteq> None"
    by (auto simp: park_insert_def Let_def get_wait_None)
  show ?thesis
  proof (cases "v = JNull")
    case True
    then have "park_wait env t signal inst task ff timeout s1 =
        (Inr (Some (wait_id_of env signal inst task ff), ff), snd (park_insert env t signal inst task ff timeout s2))"
      using assms c ins(1) by (simp add: park_wait_def split_beta Let_def)
    then show ?thesis using n w vals ins True by simp
  next
    case False
    then have "park_wait env t signal inst task ff timeout s1 = (Inr (None, stamp_interaction_resolution env signal v
        (set_attribute ''durable.wait.value'' (json_text v) (set_attribute ''durable.wait.status'' ''signaled'' ff))), s2)"
      using assms c by (simp add: park_wait_def)
    then show ?thesis using n w vals False by simp
  qed
qed

subsection \<open>What a sweep leaves waiting\<close>

lemma deliver_requests [simp]:
  "it_requests (snd (deliver_wait env now w s)) = it_requests s" "it_values (snd (deliver_wait env now w s)) = it_values s"
proof -
  have h: "hand_over env now w ff (s\<lparr>it_next := Suc (it_next s)\<rparr>) = (ok, s1) \<Longrightarrow> it_requests s1 = it_requests s \<and> it_values s1 = it_values s" for ff ok s1
    using hand_over_frame [of env now w ff "s\<lparr>it_next := Suc (it_next s)\<rparr>" ok s1] by simp
  show "it_requests (snd (deliver_wait env now w s)) = it_requests s" "it_values (snd (deliver_wait env now w s)) = it_values s"
    using h by (auto simp: deliver_wait_def Let_def split: sum.split prod.split)
qed

lemma deliver_rows_requests [simp]:
  "it_requests (snd (deliver_rows env now ws s)) = it_requests s" "it_values (snd (deliver_rows env now ws s)) = it_values s"
  by (induction ws arbitrary: s) (simp_all add: split_beta Let_def)

lemma deliver_resolved_requests [simp]:
  "it_requests (snd (deliver_resolved env now s)) = it_requests s" "it_values (snd (deliver_resolved env now s)) = it_values s"
  by (simp_all add: deliver_resolved_def)

lemma resolve_requests [simp]: "it_requests (snd (resolve_signal signal v s)) = it_requests s"
  by (simp add: resolve_signal_def Let_def)

lemma notify_requests: "notify_signal env now signal v s = Inr (n, s') \<Longrightarrow> it_requests s' = it_requests s"
  by (auto simp: notify_signal_def split_beta Let_def split: if_splits)

lemma resolve_keeps:
  assumes "waits_inv s" "w \<in> set (it_waits s)" "\<not> waits_on signal w"
  shows "w \<in> set (it_waits (snd (resolve_signal signal v s)))"
proof -
  have "wt_id w \<notin> set (map wt_id (filter (waits_on signal) (it_waits s)))"
  proof
    assume "wt_id w \<in> set (map wt_id (filter (waits_on signal) (it_waits s)))"
    then obtain t where "t \<in> set (it_waits s)" "waits_on signal t" "wt_id w = wt_id t" unfolding set_map set_filter by blast
    then show False using wait_unique [OF assms(1,2)] assms(3) by metis
  qed
  then show ?thesis unfolding resolve_signal_def Let_def snd_conv using assms(2) by (auto simp: image_iff intro!: bexI [of _ w])
qed

lemma deliver_keeps_waiting:
  assumes "waits_inv s" "w \<in> set (it_waits s)" "wt_status w = Waiting"
  shows "w \<in> set (it_waits (snd (deliver_resolved env now s)))"
proof -
  have "wt_id w \<notin> wt_id ` set (filter undelivered (it_waits s))"
  proof
    assume "wt_id w \<in> wt_id ` set (filter undelivered (it_waits s))"
    then obtain t where "t \<in> set (it_waits s)" "undelivered t" "wt_id w = wt_id t" unfolding set_filter by blast
    moreover from this have "t = w" using wait_unique [OF assms(1,2)] by metis
    ultimately show False using assms(3) by (simp add: undelivered_def)
  qed
  then show ?thesis unfolding deliver_resolved_def using assms(2) by (intro deliver_rows_others)
qed

lemma notify_keeps_waiting:
  assumes "waits_inv s" "w \<in> set (it_waits s)" "wt_status w = Waiting" "wt_signal w \<noteq> signal" "notify_signal env now signal v s = Inr (n, s')"
  shows "w \<in> set (it_waits s')"
proof -
  have r: "w \<in> set (it_waits (snd (resolve_signal signal v s)))" using resolve_keeps [OF assms(1,2)] assms(4) by (simp add: waits_on_def)
  then have "w \<in> set (it_waits (snd (deliver_resolved env now (snd (resolve_signal signal v s)))))"
    using txns_inv [OF resolve_txns [OF assms(1)] assms(1)] assms(3) by (intro deliver_keeps_waiting)
  with r show ?thesis using assms(5) by (auto simp: notify_signal_def split_beta Let_def split: if_splits)
qed

text \<open>A wait without a timeout on a signal that no pending request will fire.\<close>

definition stranded :: "wait_row \<Rightarrow> interactions \<Rightarrow> bool" where
  "stranded w s \<longleftrightarrow> waits_inv s \<and> distinct (map rq_id (it_requests s)) \<and> (\<forall>r \<in> set (it_requests s). rq_signal r \<noteq> []) \<and>
     w \<in> set (it_waits s) \<and> wt_status w = Waiting \<and> wt_kind w = SignalWait \<and> wt_expires w = 0 \<and>
     (\<forall>r \<in> set (it_requests s). rq_status r = Pending \<longrightarrow> rq_signal r \<noteq> wt_signal w)"

lemma announce_loop_keeps:
  "waits_inv t \<Longrightarrow> w \<in> set (it_waits t) \<Longrightarrow> wt_status w = Waiting \<Longrightarrow> \<forall>r \<in> set (it_requests t). rq_signal r \<noteq> [] \<Longrightarrow>
   \<forall>row \<in> set rows. \<forall>r \<in> set (it_requests t). rq_id r = rq_id row \<longrightarrow> rq_signal r \<noteq> wt_signal w \<Longrightarrow>
   \<exists>t'. fold_res (announce_expired env now) rows t = Inr t' \<and> waits_inv t' \<and> w \<in> set (it_waits t') \<and> it_requests t' = it_requests t"
proof (induction rows arbitrary: t)
  case (Cons row rows)
  have "\<exists>u. announce_expired env now row t = Inr u \<and> w \<in> set (it_waits u) \<and> it_requests u = it_requests t"
  proof (cases "get_interaction (rq_id row) t")
    case (Some r)
    then have r: "r \<in> set (it_requests t)" "rq_id r = rq_id row" by (auto simp: get_interaction_def dest!: find_SomeD)
    then have sig: "rq_signal r \<noteq> []" "wt_signal w \<noteq> rq_signal r" using Cons.prems(4,5) by auto
    let ?v = "JDict [(''status'', JStr ''expired''), (''answer'', JNull)]"
    obtain n u where u: "notify_signal env now (rq_signal r) ?v (publish_answered r t) = Inr (n, u)"
      using sig(1) by (auto simp: notify_signal_def split_beta Let_def)
    have "waits_inv (publish_answered r t)" using Cons.prems(1) by (simp add: waits_inv_def)
    then have "w \<in> set (it_waits u)" using notify_keeps_waiting [OF _ _ Cons.prems(3) sig(2) u] Cons.prems(2) by simp
    then show ?thesis using Some u notify_requests [OF u] by (simp add: announce_expired_def)
  qed (use Cons.prems(2) in \<open>simp add: announce_expired_def\<close>)
  then obtain u where u: "announce_expired env now row t = Inr u" "w \<in> set (it_waits u)" "it_requests u = it_requests t" by blast
  have "waits_inv u" using txns_inv [OF announce_txns [OF Cons.prems(1) u(1)] Cons.prems(1)] .
  from Cons.IH [OF this u(2) Cons.prems(3)] show ?case using Cons.prems(4,5) u by simp
qed simp

lemma expire_requests: "it_requests (expire_rows now s) = map (\<lambda>r. if rq_id r \<in> set (map rq_id (filter (past_deadline now) (it_requests s))) then r\<lparr>rq_status := Expired\<rparr> else r) (it_requests s)"
  by (simp add: expire_rows_def)

lemma sweep_stranded:
  assumes "stranded w s"
  shows "\<exists>s'. sweep_once env now s = Inr s' \<and> stranded w s' \<and> map rq_id (it_requests s') = map rq_id (it_requests s)"
proof -
  define t where "t = expire_rows now s"
  have inv: "waits_inv t" using txns_inv [OF expire_rows_txns [of s now]] assms by (simp add: stranded_def t_def)
  have w: "w \<in> set (it_waits t)" using assms by (auto simp: stranded_def t_def expire_rows_def image_iff intro!: bexI [of _ w])
  let ?e = "\<lambda>r. if rq_id r \<in> set (map rq_id (filter (past_deadline now) (it_requests s))) then r\<lparr>rq_status := Expired\<rparr> else r"
  have req: "it_requests t = map ?e (it_requests s)" unfolding t_def by (rule expire_requests)
  have ids: "map rq_id (it_requests t) = map rq_id (it_requests s)" unfolding req list.map_comp by (intro map_cong) simp_all
  have sig: "\<forall>r \<in> set (it_requests t). rq_signal r \<noteq> []" using assms unfolding req stranded_def by auto
  have pend: "rq_signal r \<noteq> wt_signal w" if "r \<in> set (it_requests t)" "rq_status r = Pending" for r
    using that assms unfolding req stranded_def by (auto split: if_splits)
  have "rq_signal r \<noteq> wt_signal w" if row: "row \<in> set (filter (past_deadline now) (it_requests s))" "r \<in> set (it_requests t)" "rq_id r = rq_id row" for row r
  proof -
    obtain r0 where r0: "r0 \<in> set (it_requests s)" "r = ?e r0" using row(2) unfolding req by auto
    then have "rq_id r0 = rq_id r" "rq_signal r = rq_signal r0" by (simp_all split: if_splits)
    then have "rq_id r0 = rq_id row" using row(3) by simp
    then have "r0 = row" using assms row(1) r0(1) unfolding stranded_def distinct_map inj_on_def by auto
    then show ?thesis using assms row(1) \<open>rq_signal r = rq_signal r0\<close> unfolding stranded_def past_deadline_def by auto
  qed
  then obtain u where u: "fold_res (announce_expired env now) (filter (past_deadline now) (it_requests s)) t = Inr u" "waits_inv u" "w \<in> set (it_waits u)" "it_requests u = it_requests t"
    using announce_loop_keeps [OF inv w _ sig] assms unfolding stranded_def by blast
  have "waits_inv (snd (deliver_resolved env now u))" using txns_inv [OF deliver_resolved_txns [OF u(2)] u(2)] .
  moreover have "w \<in> set (it_waits (snd (deliver_resolved env now u)))" using deliver_keeps_waiting [OF u(2,3)] assms by (simp add: stranded_def)
  ultimately have "stranded w (snd (deliver_resolved env now u))" using assms u(4) ids sig pend unfolding stranded_def by simp
  then show ?thesis using u(1,4) ids by (simp add: sweep_once_def t_def [symmetric])
qed

lemma sweeps_stranded:
  "stranded w s \<Longrightarrow> \<exists>s'. fold_res (sweep_once env) ts s = Inr s' \<and> stranded w s'"
proof (induction ts arbitrary: s)
  case (Cons t ts)
  then obtain u where "sweep_once env t s = Inr u" "stranded w u" using sweep_stranded by blast
  with Cons.IH show ?case by simp
qed simp

subsection \<open>The table of requests\<close>

definition request_key :: "interaction \<Rightarrow> string \<times> string" where
  "request_key r = (rq_id r, rq_signal r)"

definition requests_ok :: "interactions \<Rightarrow> bool" where
  "requests_ok s \<longleftrightarrow> distinct (map rq_id (it_requests s)) \<and> (\<forall>r \<in> set (it_requests s). rq_signal r \<noteq> [])"

lemma requests_ok_keys:
  assumes "map request_key (it_requests s') = map request_key (it_requests s)" "requests_ok s"
  shows "requests_ok s'"
proof -
  have "map (fst \<circ> request_key) (it_requests s') = map (fst \<circ> request_key) (it_requests s)" "map (snd \<circ> request_key) (it_requests s') = map (snd \<circ> request_key) (it_requests s)"
    using assms(1) by (simp_all only: map_map [symmetric])
  then have k: "map rq_id (it_requests s') = map rq_id (it_requests s)" "map rq_signal (it_requests s') = map rq_signal (it_requests s)"
    by (simp_all add: request_key_def comp_def)
  have "rq_signal ` set (it_requests s') = rq_signal ` set (it_requests s)" using k(2) by (metis set_map)
  then show ?thesis using assms(2) k(1) unfolding requests_ok_def by (metis image_iff)
qed

lemma update_requests_keys: "(\<And>r. request_key (g r) = request_key r) \<Longrightarrow> map request_key (it_requests (update_requests Q g s)) = map request_key (it_requests s)"
  by simp

lemma resume_requests: "it_requests (snd (resume_requester env now r s)) = it_requests s"
  using notify_requests by (auto simp: resume_requester_def wake_agent_def split: sum.split prod.split)

lemma respond_keys: "map request_key (it_requests (snd (respond env now rid answer by_user s))) = map request_key (it_requests s)"
proof -
  have "map request_key (it_requests (snd (store_answer now rid v by_user s))) = map request_key (it_requests s)"
    "map request_key (it_requests (set_request_status rid st s)) = map request_key (it_requests s)" for v st
    by (simp_all add: store_answer_def set_request_status_def request_key_def)
  then show ?thesis
    by (auto simp: respond_def Let_def split_beta resume_requests split: option.split sum.split prod.split bool.split)
qed

lemma cancel_keys: "map request_key (it_requests (snd (cancel_interaction env now rid s))) = map request_key (it_requests s)"
proof -
  have "map request_key (it_requests (set_request_status rid st s)) = map request_key (it_requests s)" for st by (simp add: set_request_status_def request_key_def)
  then show ?thesis by (auto simp: cancel_interaction_def Let_def split: option.split sum.split prod.split dest!: notify_requests)
qed

lemma announce_requests: "announce_expired env now row s = Inr s' \<Longrightarrow> it_requests s' = it_requests s"
  by (auto simp: announce_expired_def bind_res_Inr_iff split: option.splits dest!: notify_requests)

lemma sweep_keys:
  assumes "sweep_once env now s = Inr s'"
  shows "map request_key (it_requests s') = map request_key (it_requests s)"
proof -
  have "it_requests t' = it_requests t" if "fold_res (announce_expired env now) rs t = Inr t'" for rs t t'
    using that by (induction rs arbitrary: t) (auto simp: bind_res_Inr_iff dest!: announce_requests)
  then have "it_requests s' = it_requests (expire_rows now s)" using assms by (auto simp: sweep_once_def bind_res_Inr_iff)
  then show ?thesis by (simp add: expire_requests request_key_def)
qed

lemma create_requests:
  assumes "create_interaction env now uuid a s = Inr (r, s')" "requests_ok s"
  shows "requests_ok s'"
proof -
  obtain r0 where p: "prepare_request env now uuid a = Inr r0" using assms(1) by (auto simp: create_interaction_def bind_res_Inr_iff)
  then have sig: "rq_signal r0 \<noteq> []" by (auto simp: prepare_request_def Let_def bind_res_Inr_iff split: if_splits)
  show ?thesis
  proof (cases "get_interaction (rq_id r0) s")
    case None
    then have "it_requests s' = it_requests s @ [r0]"
      using assms(1) p by (auto simp: create_interaction_def publish_interaction_def Let_def split: if_splits)
    moreover have "rq_id r0 \<notin> rq_id ` set (it_requests s)" using None by (auto simp: get_interaction_def find_None_iff)
    ultimately show ?thesis using assms(2) sig by (auto simp: requests_ok_def)
  next
    case (Some c)
    then show ?thesis using assms p by (simp add: create_interaction_def split: if_splits)
  qed
qed

lemma park_frames:
  "it_requests (snd (park_wait env now signal inst task ff timeout s)) = it_requests s"
  "it_requests (snd (consume_signal_value signal s)) = it_requests s"
  "it_requests (snd (cancel_wait env now wid s)) = it_requests s"
  "park_timer env now uuid inst task ff deadline s = Inr (w, ff', s') \<Longrightarrow> it_requests s' = it_requests s"
  "import_timer wid inst task ff at' created metadata s = Inr (row, s') \<Longrightarrow> it_requests s' = it_requests s"
  "delete_imported_wait wid metadata s = Inr (b, s') \<Longrightarrow> it_requests s' = it_requests s"
  by (auto simp: park_wait_def park_insert_def consume_signal_value_def cancel_wait_def park_timer_def import_timer_def delete_imported_wait_def insert_wait_def
      bind_res_Inr_iff Let_def split_beta split: if_splits option.splits)

lemma step_requests: "interaction_step s s' \<Longrightarrow> requests_ok s \<Longrightarrow> requests_ok s'"
proof (induction rule: interaction_step.induct)
  case (create env now uuid a s r s')
  then show ?case by (rule create_requests)
next
  case (confirm env now uuid a s r s')
  then show ?case by (auto simp: create_confirmation_def Let_def split: if_splits intro: create_requests)
qed (auto elim!: requests_ok_keys [rotated] simp: respond_keys cancel_keys sweep_keys park_frames notify_requests)

interpretation itr: store_system interactions_start interaction_step requests_ok
  by unfold_locales (simp add: interactions_start_def requests_ok_def, rule step_requests)

subsection \<open>Waits that nobody releases\<close>

text \<open>
  C39: Taking the remembered value and inserting the row are two transactions of park_wait.  A notification between them finds no waiter
  and is stored, the wait is then parked all the same, and no number of sweeps takes the stored value: without a timeout the wait stays
  until the signal fires again.
\<close>

theorem notification_between_lost:
  assumes "interactions_start s0" "interaction_step\<^sup>*\<^sup>* s0 s" "map_of (it_values s) signal = None" "\<not> (\<exists>w \<in> set (it_waits s). waits_on signal w)" "signal \<noteq> []"
    "get_wait (wait_id_of env signal inst task ff) s = None" "\<not> (\<exists>r \<in> set (it_requests s). rq_status r = Pending \<and> rq_signal r = signal)"
  shows "consume_signal_value signal s = (JNull, s) \<and>
    (\<exists>s1 s2 w. notify_signal env now signal v s = Inr (0, s1) \<and> park_insert env now signal inst task ff 0 s1 = (wt_id w, s2) \<and>
       map_of (it_values s2) signal = Some v \<and> waits_on signal w \<and> w \<in> set (it_waits s2) \<and>
       (\<forall>ts. \<exists>s3. fold_res (sweep_once env) ts s2 = Inr s3 \<and> w \<in> set (it_waits s3) \<and> wt_id w \<notin> fst ` set (it_delivered s3)))"
proof -
  define s1 where "s1 = s\<lparr>it_values := AList.update signal v (it_values s)\<rparr>"
  have n: "notify_signal env now signal v s = Inr (0, s1)" using assms(5) no_waiter_resolve [OF assms(4)] by (simp add: notify_signal_def s1_def)
  define w where "w = \<lparr>wt_id = wait_id_of env signal inst task ff, wt_signal = signal, wt_instance = inst, wt_task = task, wt_flowfile = serialize_parked ff,
        wt_created = now, wt_expires = 0, wt_status = Waiting, wt_resolution = None, wt_kind = SignalWait, wt_import = None\<rparr>"
  define s2 where "s2 = s1\<lparr>it_waits := it_waits s1 @ [w]\<rparr>"
  have p: "park_insert env now signal inst task ff 0 s1 = (wt_id w, s2)"
    using assms(6) by (simp add: park_insert_def Let_def s2_def w_def s1_def get_wait_def)
  have "wait_txns s s1" by (rule other_txns) (simp_all add: s1_def)
  moreover have "wait_txns s1 s2" using park_insert_txn [of s1 env now signal inst task ff 0] p by simp
  ultimately have "waits_inv s2" using its.reachable_inv [OF assms(1,2)] by (blast intro: txns_inv)
  moreover have "requests_ok s" by (rule itr.reachable_inv [OF assms(1,2)])
  ultimately have st: "stranded w s2" using assms(7) by (auto simp: stranded_def requests_ok_def s2_def s1_def w_def)
  have "\<exists>s3. fold_res (sweep_once env) ts s2 = Inr s3 \<and> w \<in> set (it_waits s3) \<and> wt_id w \<notin> fst ` set (it_delivered s3)" for ts
  proof -
    obtain s3 where "fold_res (sweep_once env) ts s2 = Inr s3" "stranded w s3" using sweeps_stranded [OF st] by blast
    then show ?thesis using undelivered_fresh [of s3 w] by (simp add: stranded_def)
  qed
  moreover have "map_of (it_values s2) signal = Some v" by (simp add: s2_def s1_def update_conv')
  moreover have "w \<in> set (it_waits s2)" "waits_on signal w" by (simp_all add: s2_def w_def waits_on_def)
  moreover have "consume_signal_value signal s = (JNull, s)" using assms(3) by (simp add: consume_signal_value_def)
  ultimately show ?thesis using n p by blast
qed

lemma set_request_status_in:
  "r' \<in> set (it_requests (set_request_status rid st s)) \<Longrightarrow> \<exists>r \<in> set (it_requests s). r' = (if rq_id r = rid then r\<lparr>rq_status := st\<rparr> else r)"
  by (auto simp: set_request_status_def)

text \<open>
  C38: An answer that comes after the deadline of its request but before the sweeper raises, marks the request expired and fires no
  signal; the sweeper announces only pending requests.  A flow that waits for that request without a timeout is therefore
  never released by any number of sweeps, although expiry is meant to release it.
\<close>

theorem late_answer_strands_flow:
  assumes "interactions_start s0" "interaction_step\<^sup>*\<^sup>* s0 s" "get_interaction rid s = Some r" "rq_status r = Pending" "0 < rq_expires r" "rq_expires r < now"
    "\<forall>r' \<in> set (it_requests s). rq_signal r' = rq_signal r \<longrightarrow> r' = r"
    "w \<in> set (it_waits s)" "waits_on (rq_signal r) w" "wt_kind w = SignalWait" "wt_expires w = 0"
  shows "\<exists>s1. respond env now rid answer by_user s = (Inl (ValueError ''Interaction has expired''), s1) \<and>
    map_option rq_status (get_interaction rid s1) = Some Expired \<and>
    (\<forall>ts. \<exists>s2. fold_res (sweep_once env) ts s1 = Inr s2 \<and> w \<in> set (it_waits s2) \<and> wt_id w \<notin> fst ` set (it_delivered s2))"
proof -
  define s1 where "s1 = set_request_status rid Expired s"
  have r: "r \<in> set (it_requests s)" "rq_id r = rid" using assms(3) by (auto simp: get_interaction_def dest!: find_SomeD)
  have resp: "respond env now rid answer by_user s = (Inl (ValueError ''Interaction has expired''), s1)"
    using assms(3,4,5,6) by (simp add: respond_def s1_def)
  have fnd: "find (\<lambda>r. rq_id r = rid) (map (\<lambda>r. if rq_id r = rid then r\<lparr>rq_status := Expired\<rparr> else r) rs) = map_option (\<lambda>r. r\<lparr>rq_status := Expired\<rparr>) (find (\<lambda>r. rq_id r = rid) rs)" for rs
    by (induction rs) auto
  have g: "map_option rq_status (get_interaction rid s1) = Some Expired"
    using assms(3) by (simp only: get_interaction_def s1_def set_request_status_def update_frame fnd) simp
  have frame: "it_waits s1 = it_waits s" "it_delivered s1 = it_delivered s" by (simp_all add: s1_def set_request_status_def)
  have keys: "map request_key (it_requests s1) = map request_key (it_requests s)" by (simp add: s1_def set_request_status_def request_key_def)
  have ok: "requests_ok s1" using requests_ok_keys [OF keys] itr.reachable_inv [OF assms(1,2)] .
  have inv: "waits_inv s1" using its.reachable_inv [OF assms(1,2)] frame by (simp add: waits_inv_def)
  have pend: "rq_signal r' \<noteq> wt_signal w" if r': "r' \<in> set (it_requests s1)" "rq_status r' = Pending" for r'
  proof
    assume e: "rq_signal r' = wt_signal w"
    obtain q where q: "q \<in> set (it_requests s)" "r' = (if rq_id q = rid then q\<lparr>rq_status := Expired\<rparr> else q)"
      using set_request_status_in r'(1) unfolding s1_def by blast
    have "rq_id q \<noteq> rid" using q(2) r'(2) by (cases "rq_id q = rid") simp_all
    moreover from this have "r' = q" using q(2) by simp
    moreover have "wt_signal w = rq_signal r" using assms(9) by (simp add: waits_on_def)
    moreover have "q = r" using bspec [OF assms(7) q(1)] e \<open>r' = q\<close> \<open>wt_signal w = rq_signal r\<close> by metis
    ultimately show False using r(2) by simp
  qed
  have st: "stranded w s1" using ok inv pend assms(8-11) frame(1) by (simp add: stranded_def requests_ok_def waits_on_def)
  have "\<exists>s2. fold_res (sweep_once env) ts s1 = Inr s2 \<and> w \<in> set (it_waits s2) \<and> wt_id w \<notin> fst ` set (it_delivered s2)" for ts
  proof -
    obtain s2 where "fold_res (sweep_once env) ts s1 = Inr s2" "stranded w s2" using sweeps_stranded [OF st] by blast
    then show ?thesis using undelivered_fresh [of s2 w] by (simp add: stranded_def)
  qed
  with resp g show ?thesis by (intro exI [of _ s1] conjI) simp_all
qed

subsection \<open>Examples\<close>

definition demo_ienv :: interaction_env where
  "demo_ienv = \<lparr>ie_answers = demo_answers, ie_digest = (\<lambda>s. s), ie_fresh = (\<lambda>_. ''new''), ie_date = (\<lambda>_. ''date''), ie_float = (\<lambda>_. None),
     ie_parse_date = (\<lambda>_. None), ie_resume = (\<lambda>_ _ _. Inr False)\<rparr>"

definition demo_store :: interactions where
  "demo_store = \<lparr>it_requests = [], it_waits = [], it_values = [], it_events = [], it_wakes = [], it_executors = [(''f'', demo_executor)], it_delivered = [],
     it_next = 7\<rparr>"

definition demo_parked :: flowfile where
  "demo_parked = \<lparr>ff_oid = 0, ff_process_id = ''p'', ff_attributes = [(''k'', ''v'')], ff_content = [1]\<rparr>"

definition demo_row :: wait_row where
  "demo_row = \<lparr>wt_id = ''wait_go'' @ [CHR 0x00] @ ''f'' @ [CHR 0x00] @ ''a'' @ [CHR 0x00] @ ''p'', wt_signal = ''go'', wt_instance = ''f'', wt_task = ''a'',
     wt_flowfile = serialize_parked demo_parked, wt_created = 0, wt_expires = 0, wt_status = Waiting, wt_resolution = None, wt_kind = SignalWait, wt_import = None\<rparr>"

lemma demo_store_start: "interactions_start demo_store"
  by (simp add: interactions_start_def demo_store_def)

lemma demo_park: "park_wait demo_ienv 0 ''go'' ''f'' ''a'' demo_parked 0 demo_store = (Inr (Some (wt_id demo_row), demo_parked), demo_store\<lparr>it_waits := [demo_row]\<rparr>)"
  by (simp add: park_wait_def park_insert_def consume_signal_value_def wait_id_of_def get_wait_def demo_store_def demo_ienv_def demo_row_def demo_parked_def Let_def)

lemma demo_parked_step: "interaction_step demo_store (demo_store\<lparr>it_waits := [demo_row]\<rparr>)"
  using interaction_step.wait [of demo_store demo_ienv 0 "''go''" "''f''" "''a''" demo_parked 0] by (simp add: demo_park)

lemmas demo_reach = r_into_rtranclp [of interaction_step, OF demo_parked_step]

lemma demo_room: "exec_wf demo_executor" "\<not> ex_stop demo_executor" "room_for 1 (ff_size demo_parked) (entry_queue ''a'' demo_executor)"
  using new_executor_start [OF demo_new] demo_executor_facts(1)
  by (simp_all add: xs_start_def idle_system_def entry_queue_def entry_connection_def demo_executor_facts cm_init_def get_incoming_def dict_get_def add_connection_def
      room_for_def new_connection_def Let_def ff_size_def demo_parked_def)

theorem signal_resumes_flow_witness:
  "\<exists>n s' ex' i ff'. notify_signal demo_ienv 5 ''go'' (JStr ''ok'') (demo_store\<lparr>it_waits := [demo_row]\<rparr>) = Inr (n, s') \<and> 0 < n \<and>
     map_of (it_executors s') ''f'' = Some ex' \<and> ff' \<in> set (c_contents (conn ex' i)) \<and> ff_content ff' = [1] \<and> get_attribute ff' ''k'' = Some ''v''"
proof -
  let ?s = "demo_store\<lparr>it_waits := [demo_row]\<rparr>"
  have go: "''go'' \<noteq> []" by simp
  have row: "demo_row \<in> set (it_waits ?s)" "waits_on ''go'' demo_row" "wt_kind demo_row = SignalWait" "other_flow_rows ''go'' demo_row ?s"
    "workflow_run_id (wt_instance demo_row) = []" "map_of (it_executors ?s) (wt_instance demo_row) = Some demo_executor" "wt_flowfile demo_row = serialize_parked demo_parked"
    by (simp_all add: demo_row_def waits_on_def other_flow_rows_def workflow_run_id_def demo_store_def)
  have ff: "distinct (dict_keys (ff_attributes demo_parked))" "ff_process_id demo_parked \<noteq> []" "room_for 1 (ff_size demo_parked) (entry_queue (wt_task demo_row) demo_executor)"
    using demo_room(3) by (simp_all add: demo_parked_def demo_row_def)
  have at: "''k'' \<notin> set resume_attributes" "get_attribute demo_parked ''k'' = Some ''v''" "ff_content demo_parked = [1]" "wt_instance demo_row = ''f''"
    by (simp_all add: resume_attributes_def get_attribute_def demo_parked_def demo_row_def)
  from signal_resumes_flow [OF demo_store_start demo_reach go row(1-6) demo_room(2,1) row(7) ff, of demo_ienv 5 "JStr ''ok''", unfolded at(3,4)]
  show ?thesis using at(1,2) by fastforce
qed


theorem signal_remembered_once_witness:
  "\<exists>s1 s2 ff'. notify_signal demo_ienv 0 ''go'' (JInt 3) demo_store = Inr (0, s1) \<and> map_of (it_values s1) = [''go'' \<mapsto> JInt 3] \<and>
     park_wait demo_ienv 1 ''go'' ''f'' ''a'' demo_parked 0 s1 = (Inr (None, ff'), s2) \<and> get_attribute ff' ''durable.wait.value'' = Some (json_text (JInt 3))"
proof -
  have st: "''go'' \<noteq> []" "\<not> (\<exists>w \<in> set (it_waits demo_store). waits_on ''go'' w)" "ff_process_id demo_parked \<noteq> []" "map_of (it_values demo_store) = Map.empty"
    by (simp_all add: demo_store_def demo_parked_def)
  have v: "(JInt 3 = JNull) = False" by simp
  from signal_remembered_once [OF st(1-3), where env = demo_ienv and now = 0 and v = "JInt 3" and t = 1 and inst = "''f''" and task = "''a''" and timeout = 0,
      unfolded st(4) v if_False]
  show ?thesis by blast
qed

theorem notification_between_lost_witness:
  "\<exists>s1 s2 w. notify_signal demo_ienv 0 ''go'' (JInt 3) demo_store = Inr (0, s1) \<and> park_insert demo_ienv 0 ''go'' ''f'' ''a'' demo_parked 0 s1 = (wt_id w, s2) \<and>
     (\<forall>ts. \<exists>s3. fold_res (sweep_once demo_ienv) ts s2 = Inr s3 \<and> w \<in> set (it_waits s3))"
proof -
  have "map_of (it_values demo_store) ''go'' = None" "\<not> (\<exists>w \<in> set (it_waits demo_store). waits_on ''go'' w)"
    "get_wait (wait_id_of demo_ienv ''go'' ''f'' ''a'' demo_parked) demo_store = None"
    "\<not> (\<exists>r \<in> set (it_requests demo_store). rq_status r = Pending \<and> rq_signal r = ''go'')"
    by (simp_all add: demo_store_def get_wait_def)
  from notification_between_lost [OF demo_store_start rtranclp.rtrancl_refl this(1,2) _ this(3,4), of 0 "JInt 3"] show ?thesis by blast
qed

definition demo_args :: request_args where
  "demo_args = \<lparr>ra_conversation = ''c'', ra_user = ''u'', ra_requester_kind = ''flow'', ra_requester = ''t'', ra_message = ''Go?'', ra_title = [],
     ra_kind = ''confirm'', ra_options = JNull, ra_schema = JNull, ra_expires_in = 60, ra_continuation = JNull, ra_prefix = ''confirmation'', ra_key = []\<rparr>"

definition demo_request :: interaction where
  "demo_request = \<lparr>rq_id = ''req_1'', rq_conversation = ''c'', rq_user = ''u'', rq_requester_kind = ''flow'', rq_requester = ''t'', rq_title = [], rq_message = ''Go?'',
     rq_kind = ''confirm'', rq_options = [\<lparr>op_value = ''yes'', op_label = ''Yes''\<rparr>, \<lparr>op_value = ''no'', op_label = ''No''\<rparr>], rq_schema = JDict [],
     rq_signal = ''confirmation:req_1'', rq_continuation = JDict [], rq_created = 0, rq_expires = 60, rq_status = Pending, rq_answer = JNull,
     rq_answered_by = [], rq_answered_at = 0\<rparr>"

lemma demo_prepare: "prepare_request demo_ienv 0 ''1'' demo_args = Inr demo_request"
proof -
  have "py_lower (py_strip ''confirm'') = ''confirm''" "py_strip ''Go?'' = ''Go?''" "py_strip [] = []" "''confirm'' \<in> set KINDS"
    "length (json_text (JDict [])) = 2" "\<not> jtruthy JNull" "is_dict (JDict [])"
    by code_simp+
  then show ?thesis
    by (simp add: prepare_request_def demo_args_def demo_request_def normalize_options_def normalize_response_schema_def request_id_of_def Let_def)
qed

definition demo_asked :: interactions where
  "demo_asked = demo_store\<lparr>it_requests := [demo_request], it_events := [(''c'', ''interaction_request'', demo_request), (''c'', ''confirmation_request'', demo_request)]\<rparr>"

lemma demo_ask: "create_interaction demo_ienv 0 ''1'' demo_args demo_store = Inr (demo_request, demo_asked)"
proof -
  have "ra_prefix demo_args = ''confirmation''" "rq_conversation demo_request = ''c''" by (simp_all add: demo_args_def demo_request_def)
  then show ?thesis by (simp add: create_interaction_def demo_prepare get_interaction_def demo_asked_def demo_store_def publish_interaction_def Let_def)
qed

definition demo_asking_row :: wait_row where
  "demo_asking_row = demo_row\<lparr>wt_id := wait_id_of demo_ienv ''confirmation:req_1'' ''f'' ''a'' demo_parked, wt_signal := ''confirmation:req_1''\<rparr>"

lemma demo_asking: "snd (park_wait demo_ienv 0 ''confirmation:req_1'' ''f'' ''a'' demo_parked 0 demo_asked) = demo_asked\<lparr>it_waits := [demo_asking_row]\<rparr>"
  by (simp add: park_wait_def park_insert_def consume_signal_value_def get_wait_def demo_asked_def demo_store_def demo_asking_row_def demo_row_def demo_parked_def Let_def)

theorem late_answer_strands_flow_witness:
  "\<exists>s1. respond demo_ienv 61 ''req_1'' (JStr ''yes'') ''u'' (demo_asked\<lparr>it_waits := [demo_asking_row]\<rparr>) = (Inl (ValueError ''Interaction has expired''), s1) \<and>
     (\<forall>ts. \<exists>s2. fold_res (sweep_once demo_ienv) ts s1 = Inr s2 \<and> demo_asking_row \<in> set (it_waits s2))"
proof -
  let ?s = "demo_asked\<lparr>it_waits := [demo_asking_row]\<rparr>"
  have "interaction_step demo_store demo_asked" using interaction_step.create [OF demo_ask] .
  moreover have "interaction_step demo_asked ?s"
    using interaction_step.wait [of demo_asked demo_ienv 0 "''confirmation:req_1''" "''f''" "''a''" demo_parked 0] by (simp add: demo_asking)
  ultimately have reach: "interaction_step\<^sup>*\<^sup>* demo_store ?s" by (blast intro: converse_rtranclp_into_rtranclp)
  have rows: "get_interaction ''req_1'' ?s = Some demo_request" "rq_status demo_request = Pending" "0 < rq_expires demo_request" "rq_expires demo_request < 61"
    "\<forall>r' \<in> set (it_requests ?s). rq_signal r' = rq_signal demo_request \<longrightarrow> r' = demo_request" "demo_asking_row \<in> set (it_waits ?s)"
    "waits_on (rq_signal demo_request) demo_asking_row" "wt_kind demo_asking_row = SignalWait" "wt_expires demo_asking_row = 0"
    by (simp_all add: get_interaction_def demo_asked_def demo_request_def waits_on_def demo_asking_row_def demo_row_def)
  show ?thesis using late_answer_strands_flow [OF demo_store_start reach rows, of demo_ienv "JStr ''yes''" "''u''"] by blast
qed

text \<open>
  Two threads that deliver at the same time work on rows selected before either marked one: the row is delivered again by the second, in spite of
  the first having marked it.
\<close>

lemma stale_row_delivered_twice:
  "let row = demo_row\<lparr>wt_status := Resolved, wt_resolution := Some (JInt 3)\<rparr>;
       s1 = snd (deliver_wait demo_ienv 5 row (demo_store\<lparr>it_waits := [row]\<rparr>)); s2 = snd (deliver_wait demo_ienv 5 row s1) in
   map wt_status (it_waits s1) = [Delivered] \<and> map fst (it_delivered s2) = [wt_id demo_row, wt_id demo_row]"
  by code_simp

end
