(* ===== verification/Poll_Scheduler.thy ===== *)
theory Poll_Scheduler
  imports Json
begin

section \<open>The scheduler of wake-ups\<close>

text \<open>
  \<open>core/poll_scheduler.py\<close>: wake-ups of agents, kept on disk.  An entry is a dictionary object; \<open>claim_due\<close> and \<open>reschedule_due\<close> compare entries by
  identity, so that the record has an object number and every new dictionary a fresh one.  A missing field is empty or 0, which is how the code
  reads it.  The clock, the random delay of a loop (\<open>uniform\<close>, in a poll one per key) and MD5 are arguments; writing the file succeeds.
\<close>

subsection \<open>State\<close>

record wake =
  wk_oid :: nat
  wk_conversation :: string
  wk_key :: string
  wk_recheck :: real
  wk_user :: string
  wk_reason :: string
  wk_created :: real
  wk_recurring :: bool
  wk_interval :: real
  wk_interval_max :: real
  wk_prompt :: string

record poll_scheduler =
  ps_schedules :: "(string, wake) dict"
  ps_due :: "(string, wake) dict"
  ps_delivering :: "(string, wake) dict"
  ps_cancelled :: "string list"
  ps_filters :: "(string \<times> string list \<times> string list) list"
  ps_file :: "wake list"
  ps_next :: nat

definition new_scheduler :: "wake list \<Rightarrow> nat \<Rightarrow> poll_scheduler" where
  "new_scheduler file n = \<lparr>ps_schedules = [], ps_due = [], ps_delivering = [], ps_cancelled = [], ps_filters = [], ps_file = file, ps_next = n\<rparr>"

text \<open>On disk an entry has no identity.\<close>

definition stored :: "wake \<Rightarrow> wake" where
  "stored e = e\<lparr>wk_oid := 0\<rparr>"

definition ps_save :: "poll_scheduler \<Rightarrow> poll_scheduler" where
  "ps_save s = s\<lparr>ps_file := map (stored \<circ> snd) (ps_schedules s)\<rparr>"

definition entry_key :: "wake \<Rightarrow> string" where
  "entry_key e = (if wk_key e = [] then wk_conversation e else wk_key e)"

definition loop_delay :: "(real \<Rightarrow> real \<Rightarrow> real) \<Rightarrow> wake \<Rightarrow> real" where
  "loop_delay uniform e = (if wk_interval_max e > wk_interval e then uniform (wk_interval e) (wk_interval_max e) else wk_interval e)"

definition drop_claims :: "string \<Rightarrow> poll_scheduler \<Rightarrow> poll_scheduler" where
  "drop_claims k s = s\<lparr>ps_due := AList.delete k (ps_due s), ps_delivering := AList.delete k (ps_delivering s)\<rparr>"

text \<open>Storing a new dictionary under a key: its object number is fresh.\<close>

definition put_wake :: "string \<Rightarrow> wake \<Rightarrow> poll_scheduler \<Rightarrow> poll_scheduler" where
  "put_wake k e s = s\<lparr>ps_schedules := AList.update k (e\<lparr>wk_oid := ps_next s\<rparr>) (ps_schedules s), ps_next := Suc (ps_next s)\<rparr>"

subsection \<open>Scheduling\<close>

definition schedule_wake :: "real \<Rightarrow> string \<Rightarrow> real \<Rightarrow> string \<Rightarrow> string \<Rightarrow> string \<Rightarrow> poll_scheduler \<Rightarrow> poll_scheduler" where
  "schedule_wake now conversation recheck_at user reason key s =
     (let k = (if key = [] then conversation else key) in
      ps_save (put_wake k \<lparr>wk_oid = 0, wk_conversation = conversation, wk_key = k, wk_recheck = recheck_at, wk_user = user, wk_reason = reason,
        wk_created = now, wk_recurring = False, wk_interval = 0, wk_interval_max = 0, wk_prompt = []\<rparr> (drop_claims k s)))"

definition schedule_delay :: "real \<Rightarrow> string \<Rightarrow> real \<Rightarrow> string \<Rightarrow> string \<Rightarrow> string \<Rightarrow> poll_scheduler \<Rightarrow> real \<times> poll_scheduler" where
  "schedule_delay now conversation delay user reason key s = (now + delay, schedule_wake now conversation (now + delay) user reason key s)"

definition schedule_loop ::
    "(string \<Rightarrow> string) \<Rightarrow> (real \<Rightarrow> real \<Rightarrow> real) \<Rightarrow> real \<Rightarrow> string \<Rightarrow> real \<Rightarrow> string \<Rightarrow> string \<Rightarrow> string \<Rightarrow> real \<Rightarrow> poll_scheduler \<Rightarrow> string \<times> poll_scheduler" where
  "schedule_loop md5 uniform now conversation interval prompt user key interval_max s =
     (let k = (if key = [] then ''loop::'' @ conversation @ ''::'' @ take 6 (md5 prompt) else key);
          e = \<lparr>wk_oid = 0, wk_conversation = conversation, wk_key = k, wk_recheck = 0, wk_user = user, wk_reason = ''[loop] '' @ take 60 prompt, wk_created = now,
               wk_recurring = True, wk_interval = interval, wk_interval_max = (if interval_max \<noteq> 0 \<and> interval_max > interval then interval_max else 0), wk_prompt = prompt\<rparr> in
      (k, ps_save (put_wake k (e\<lparr>wk_recheck := now + loop_delay uniform e\<rparr>) (drop_claims k s))))"

subsection \<open>Cancellation\<close>

definition claims_open :: "poll_scheduler \<Rightarrow> bool" where
  "claims_open s \<longleftrightarrow> ps_due s \<noteq> [] \<or> ps_delivering s \<noteq> []"

definition cancel_wake :: "string \<Rightarrow> poll_scheduler \<Rightarrow> bool \<times> poll_scheduler" where
  "cancel_wake k s =
     (let claimed = map_of (ps_due s) k \<noteq> None;
          s1 = drop_claims k (if claims_open s then s\<lparr>ps_cancelled := k # ps_cancelled s\<rparr> else s) in
      if map_of (ps_schedules s) k \<noteq> None then (True, ps_save (s1\<lparr>ps_schedules := AList.delete k (ps_schedules s1)\<rparr>))
      else (claimed, s1))"

definition prefix_match :: "string list \<Rightarrow> string \<Rightarrow> bool" where
  "prefix_match prefixes text \<longleftrightarrow> prefixes = [] \<or> list_ex (py_startswith text) prefixes"

definition selected_keys :: "string \<Rightarrow> string list \<Rightarrow> string list \<Rightarrow> poll_scheduler \<Rightarrow> string list" where
  "selected_keys conversation key_prefixes reason_prefixes s =
     map fst (filter (\<lambda>(k, e). wk_conversation e = conversation \<and> prefix_match key_prefixes k \<and> prefix_match reason_prefixes (wk_reason e))
       (fold (\<lambda>(k, e). AList.update k e) (ps_due s @ ps_schedules s) (ps_delivering s)))"

definition remove_key :: "string \<Rightarrow> poll_scheduler \<Rightarrow> poll_scheduler" where
  "remove_key k s = (drop_claims k s)\<lparr>ps_schedules := AList.delete k (ps_schedules s)\<rparr>"

definition cancel_for_conversation :: "string \<Rightarrow> string list \<Rightarrow> string list \<Rightarrow> poll_scheduler \<Rightarrow> nat \<times> poll_scheduler" where
  "cancel_for_conversation conversation key_prefixes reason_prefixes s =
     (if conversation = [] then (0, s)
      else
        (let s1 = (if claims_open s then s\<lparr>ps_filters := ps_filters s @ [(conversation, key_prefixes, reason_prefixes)]\<rparr> else s);
             removed = selected_keys conversation key_prefixes reason_prefixes s1;
             s2 = fold remove_key removed s1 in
         (length (filter (\<lambda>k. map_of (ps_due s1) k \<noteq> None \<or> map_of (ps_schedules s1) k \<noteq> None) removed),
          if list_ex (\<lambda>k. map_of (ps_schedules s1) k \<noteq> None) removed then ps_save s2 else s2)))"

subsection \<open>Polling\<close>

definition is_due :: "real \<Rightarrow> wake \<Rightarrow> bool" where
  "is_due now e \<longleftrightarrow> wk_recheck e \<le> now"

text \<open>One key of a batch: the entry leaves the schedule, and a loop is scheduled again as a new dictionary.\<close>

definition take_due :: "(string \<Rightarrow> real \<Rightarrow> real \<Rightarrow> real) \<Rightarrow> real \<Rightarrow> string \<times> wake \<Rightarrow> poll_scheduler \<Rightarrow> poll_scheduler" where
  "take_due uniform now = (\<lambda>(k, e) s.
     (let s1 = s\<lparr>ps_schedules := AList.delete k (ps_schedules s), ps_due := AList.update k e (ps_due s)\<rparr> in
      if wk_recurring e \<and> wk_interval e \<noteq> 0 then put_wake k (e\<lparr>wk_recheck := now + loop_delay (uniform k) e, wk_created := now\<rparr>) s1 else s1))"

definition get_due :: "(string \<Rightarrow> real \<Rightarrow> real \<Rightarrow> real) \<Rightarrow> real \<Rightarrow> poll_scheduler \<Rightarrow> wake list \<times> poll_scheduler" where
  "get_due uniform now s =
     (let expired = filter (\<lambda>(k, e). is_due now e) (ps_schedules s);
          s1 = fold (take_due uniform now) expired (s\<lparr>ps_due := [], ps_delivering := [], ps_cancelled := [], ps_filters := []\<rparr>) in
      (map snd expired, if expired = [] then s1 else ps_save s1))"

definition same_object :: "wake option \<Rightarrow> wake \<Rightarrow> bool" where
  "same_object found e \<longleftrightarrow> (case found of None \<Rightarrow> False | Some f \<Rightarrow> wk_oid f = wk_oid e)"

fun claim_due :: "wake list \<Rightarrow> poll_scheduler \<Rightarrow> wake list \<times> poll_scheduler" where
  "claim_due [] s = ([], s)"
| "claim_due (e # es) s =
     (let k = entry_key e in
      if same_object (map_of (ps_due s) k) e then
        (let (claimed, s1) = claim_due es (s\<lparr>ps_due := AList.delete k (ps_due s), ps_delivering := AList.update k e (ps_delivering s)\<rparr>) in (e # claimed, s1))
      else claim_due es s)"

definition filter_bars :: "string \<Rightarrow> wake \<Rightarrow> string \<times> string list \<times> string list \<Rightarrow> bool" where
  "filter_bars k e = (\<lambda>(cid, prefixes, reasons). cid = wk_conversation e \<and> prefix_match prefixes k \<and> prefix_match reasons (wk_reason e))"

definition empty_wake :: wake where
  "empty_wake = \<lparr>wk_oid = 0, wk_conversation = [], wk_key = [], wk_recheck = 0, wk_user = [], wk_reason = [], wk_created = 0, wk_recurring = False, wk_interval = 0,
     wk_interval_max = 0, wk_prompt = []\<rparr>"

definition reschedule_one :: "real \<Rightarrow> wake \<times> string \<times> real \<Rightarrow> nat \<times> poll_scheduler \<Rightarrow> nat \<times> poll_scheduler" where
  "reschedule_one now = (\<lambda>(e, k, delay) (n, s).
     (let own = entry_key e in
      if \<not> same_object (map_of (ps_due s) own) e \<and> \<not> same_object (map_of (ps_delivering s) own) e then (n, s)
      else
        (let s1 = drop_claims own s; current = (case map_of (ps_schedules s) k of None \<Rightarrow> empty_wake | Some c \<Rightarrow> c) in
         if k \<in> set (ps_cancelled s) \<or> list_ex (filter_bars k e) (ps_filters s) then (n, s1)
         else if k \<noteq> own \<and> map_of (ps_schedules s) k \<noteq> None then (n, s1)
         else (Suc n, put_wake k (current\<lparr>wk_conversation := wk_conversation e, wk_key := k, wk_recheck := now + delay, wk_user := wk_user e, wk_reason := wk_reason e,
            wk_created := now, wk_prompt := (if wk_prompt e = [] then wk_prompt current else wk_prompt e)\<rparr>) s1))))"

definition reschedule_due :: "real \<Rightarrow> (wake \<times> string \<times> real) list \<Rightarrow> poll_scheduler \<Rightarrow> nat \<times> poll_scheduler" where
  "reschedule_due now retries s = (let (n, s1) = fold (reschedule_one now) retries (0, s) in (n, if n > 0 then ps_save s1 else s1))"

definition get_wake :: "string \<Rightarrow> poll_scheduler \<Rightarrow> wake option" where
  "get_wake k s = map_of (ps_schedules s) k"

definition list_all_wakes :: "poll_scheduler \<Rightarrow> wake list" where
  "list_all_wakes s = map snd (ps_schedules s)"

definition list_loops :: "string \<Rightarrow> poll_scheduler \<Rightarrow> wake list" where
  "list_loops conversation s = filter (\<lambda>e. wk_recurring e \<and> (conversation = [] \<or> wk_conversation e = conversation)) (map snd (ps_schedules s))"

subsection \<open>Restart\<close>

definition is_stale :: "real \<Rightarrow> wake \<Rightarrow> bool" where
  "is_stale now e \<longleftrightarrow> entry_key e \<noteq> [] \<and> ((wk_recheck e \<noteq> 0 \<and> wk_recheck e < now - 86400) \<or> wk_conversation e = [])"

definition load_one :: "real \<Rightarrow> wake \<Rightarrow> poll_scheduler \<Rightarrow> poll_scheduler" where
  "load_one now e s = (if entry_key e = [] \<or> is_stale now e then s else put_wake (entry_key e) e s)"

definition load_scheduler :: "real \<Rightarrow> wake list \<Rightarrow> nat \<Rightarrow> poll_scheduler" where
  "load_scheduler now file n =
     (let s = fold (load_one now) file (new_scheduler file n) in if list_ex (is_stale now) file then ps_save s else s)"

subsection \<open>Cancellation is final\<close>

definition absent :: "string \<Rightarrow> poll_scheduler \<Rightarrow> bool" where
  "absent k s \<longleftrightarrow> map_of (ps_schedules s) k = None \<and> map_of (ps_due s) k = None \<and> map_of (ps_delivering s) k = None"

definition barred :: "string \<Rightarrow> poll_scheduler \<Rightarrow> bool" where
  "barred k s \<longleftrightarrow> k \<in> set (ps_cancelled s) \<or> \<not> claims_open s"

lemma save_frame [simp]:
  "ps_schedules (ps_save s) = ps_schedules s" "ps_due (ps_save s) = ps_due s" "ps_delivering (ps_save s) = ps_delivering s"
  "ps_cancelled (ps_save s) = ps_cancelled s" "ps_filters (ps_save s) = ps_filters s" "ps_next (ps_save s) = ps_next s"
  "ps_file (ps_save s) = map (stored \<circ> snd) (ps_schedules s)"
  by (simp_all add: ps_save_def)

lemma put_frame [simp]:
  "ps_due (put_wake k e s) = ps_due s" "ps_delivering (put_wake k e s) = ps_delivering s" "ps_cancelled (put_wake k e s) = ps_cancelled s"
  "ps_filters (put_wake k e s) = ps_filters s" "ps_file (put_wake k e s) = ps_file s" "ps_next (put_wake k e s) = Suc (ps_next s)"
  "ps_schedules (put_wake k e s) = AList.update k (e\<lparr>wk_oid := ps_next s\<rparr>) (ps_schedules s)"
  by (simp_all add: put_wake_def)

lemma drop_frame [simp]:
  "ps_due (drop_claims k s) = AList.delete k (ps_due s)" "ps_delivering (drop_claims k s) = AList.delete k (ps_delivering s)"
  "ps_cancelled (drop_claims k s) = ps_cancelled s" "ps_filters (drop_claims k s) = ps_filters s" "ps_file (drop_claims k s) = ps_file s"
  "ps_next (drop_claims k s) = ps_next s" "ps_schedules (drop_claims k s) = ps_schedules s"
  by (simp_all add: drop_claims_def)

lemma delete_Nil [simp]: "AList.delete k [] = []" by (simp add: AList.delete_eq)

lemma barred_less:
  assumes "barred k s" "set (ps_cancelled s) \<subseteq> set (ps_cancelled s')" "ps_due s = [] \<Longrightarrow> ps_delivering s = [] \<Longrightarrow> ps_due s' = [] \<and> ps_delivering s' = []"
  shows "barred k s'"
  using assms by (auto simp: barred_def claims_open_def)

text \<open>
  The operations that neither poll nor retry; those up to the next poll, with any retries; and those of any time, where a retry of another entry does not
  take this key.
\<close>

inductive calm_step :: "string \<Rightarrow> poll_scheduler \<Rightarrow> poll_scheduler \<Rightarrow> bool" for k where
  schedule: "(if key = [] then conversation else key) \<noteq> k \<Longrightarrow> calm_step k s (schedule_wake now conversation recheck_at user reason key s)"
| loop: "schedule_loop md5 uniform now conversation interval prompt user key interval_max s = (k', s') \<Longrightarrow> k' \<noteq> k \<Longrightarrow> calm_step k s s'"
| cancel: "calm_step k s (snd (cancel_wake k' s))"
| cancel_all: "calm_step k s (snd (cancel_for_conversation conversation key_prefixes reason_prefixes s))"
| claim: "calm_step k s (snd (claim_due es s))"

inductive batch_step :: "string \<Rightarrow> poll_scheduler \<Rightarrow> poll_scheduler \<Rightarrow> bool" for k where
  calm: "calm_step k s s' \<Longrightarrow> batch_step k s s'"
| retry: "batch_step k s (snd (reschedule_due now retries s))"

inductive later_step :: "string \<Rightarrow> poll_scheduler \<Rightarrow> poll_scheduler \<Rightarrow> bool" for k where
  calm: "calm_step k s s' \<Longrightarrow> later_step k s s'"
| poll: "later_step k s (snd (get_due uniform now s))"
| retry: "\<forall>(e, t, d) \<in> set retries. t = k \<longrightarrow> entry_key e = k \<Longrightarrow> later_step k s (snd (reschedule_due now retries s))"

lemma remove_absent: "absent k s \<Longrightarrow> absent k (remove_key k' s)"
  by (simp add: absent_def remove_key_def delete_conv')

lemma remove_barred: "barred k s \<Longrightarrow> barred k (remove_key k' s)"
  by (erule barred_less) (simp_all add: remove_key_def)

lemma remove_fold: "absent k s \<Longrightarrow> absent k (fold remove_key ks s)" "barred k s \<Longrightarrow> barred k (fold remove_key ks s)"
  by (induction ks arbitrary: s) (simp_all add: remove_absent remove_barred)

lemma claim_absent: "absent k s \<Longrightarrow> absent k (snd (claim_due es s)) \<and> k \<notin> entry_key ` set (fst (claim_due es s))"
proof (induction es arbitrary: s)
  case (Cons e es)
  show ?case
  proof (cases "same_object (map_of (ps_due s) (entry_key e)) e")
    case True
    then have "entry_key e \<noteq> k" using Cons.prems by (auto simp: absent_def same_object_def)
    then have "absent k (s\<lparr>ps_due := AList.delete (entry_key e) (ps_due s), ps_delivering := AList.update (entry_key e) e (ps_delivering s)\<rparr>)"
      using Cons.prems by (simp add: absent_def delete_conv' update_conv')
    from Cons.IH [OF this] show ?thesis using True \<open>entry_key e \<noteq> k\<close> by (simp add: Let_def split_beta) 
  qed (use Cons in \<open>simp add: Let_def\<close>)
qed simp

lemma claim_barred: "barred k s \<Longrightarrow> barred k (snd (claim_due es s))"
proof (induction es arbitrary: s)
  case (Cons e es)
  show ?case
  proof (cases "same_object (map_of (ps_due s) (entry_key e)) e")
    case True
    then have "ps_due s \<noteq> []" by (auto simp: same_object_def)
    then have "barred k (s\<lparr>ps_due := AList.delete (entry_key e) (ps_due s), ps_delivering := AList.update (entry_key e) e (ps_delivering s)\<rparr>)"
      using Cons.prems by (intro barred_less [OF Cons.prems]) simp_all
    from Cons.IH [OF this] show ?thesis using True by (simp add: Let_def split_beta)
  qed (use Cons in \<open>simp add: Let_def\<close>)
qed simp

lemma retry_one_absent:
  assumes "absent k s" "t = k \<Longrightarrow> barred k s \<or> entry_key e = k"
  shows "absent k (snd (reschedule_one now (e, t, d) (n, s)))"
proof (cases "same_object (map_of (ps_due s) (entry_key e)) e \<or> same_object (map_of (ps_delivering s) (entry_key e)) e")
  case True
  then have "claims_open s" by (auto simp: same_object_def claims_open_def)
  moreover have "entry_key e \<noteq> k" using True assms(1) by (auto simp: absent_def same_object_def)
  ultimately have "t = k \<Longrightarrow> t \<in> set (ps_cancelled s)" using assms(2) by (auto simp: barred_def)
  then show ?thesis using assms(1) by (auto simp: reschedule_one_def Let_def absent_def delete_conv' update_conv')
qed (use assms in \<open>simp add: reschedule_one_def\<close>)

lemma retry_one_barred: "barred k s \<Longrightarrow> barred k (snd (reschedule_one now r (n, s)))"
  by (erule barred_less) (auto simp: reschedule_one_def Let_def split: prod.splits)

lemma retry_absent:
  assumes "absent k s" "barred k s \<or> (\<forall>(e, t, d) \<in> set retries. t = k \<longrightarrow> entry_key e = k)"
  shows "absent k (snd (reschedule_due now retries s))" "barred k s \<Longrightarrow> barred k (snd (reschedule_due now retries s))"
proof -
  have a: "absent k (snd (fold (reschedule_one now) rs (n, u)))" if "absent k u" "barred k u \<or> (\<forall>(e, t, d) \<in> set rs. t = k \<longrightarrow> entry_key e = k)" for rs n u
    using that
  proof (induction rs arbitrary: n u)
    case (Cons r rs)
    obtain e t d where r: "r = (e, t, d)" using prod_cases3 by blast
    obtain n' u' where u': "reschedule_one now r (n, u) = (n', u')" by fastforce
    have "absent k u'" using retry_one_absent [of k u t e now d n] Cons.prems u' by (auto simp: r)
    moreover have "barred k u' \<or> (\<forall>(e, t, d) \<in> set rs. t = k \<longrightarrow> entry_key e = k)" using retry_one_barred [of k u now r n] Cons.prems(2) u' by auto
    ultimately show ?case using Cons.IH u' by simp
  qed simp
  have b: "barred k (snd (fold (reschedule_one now) rs (n, u)))" if "barred k u" for rs n u
    using that
  proof (induction rs arbitrary: n u)
    case (Cons r rs)
    then show ?case using retry_one_barred [of k u now r n] by (cases "reschedule_one now r (n, u)") simp
  qed simp
  show "absent k (snd (reschedule_due now retries s))" using a [OF assms, of 0] by (simp add: reschedule_due_def split_beta Let_def absent_def)
  show "barred k (snd (reschedule_due now retries s))" if "barred k s"
    using b [OF that, of retries 0] by (simp add: reschedule_due_def split_beta Let_def barred_def claims_open_def)
qed

lemma poll_absent: "absent k s \<Longrightarrow> absent k (snd (get_due uniform now s))"
proof -
  assume a: "absent k s"
  have "absent k (fold (take_due uniform now) ws u)" if "absent k u" "k \<notin> fst ` set ws" for ws u
    using that
  proof (induction ws arbitrary: u)
    case (Cons w ws)
    obtain k' e where w: "w = (k', e)" by fastforce
    have "absent k (take_due uniform now w u)" using Cons.prems by (simp add: w take_due_def Let_def absent_def delete_conv' update_conv')
    then show ?case using Cons by simp
  qed simp
  moreover have "k \<notin> fst ` set (filter (\<lambda>(k, e). is_due now e) (ps_schedules s))" using a by (auto simp: absent_def map_of_eq_None_iff)
  ultimately have "absent k (fold (take_due uniform now) (filter (\<lambda>(k, e). is_due now e) (ps_schedules s)) (s\<lparr>ps_due := [], ps_delivering := [], ps_cancelled := [], ps_filters := []\<rparr>))"
    using a by (simp add: absent_def)
  then show ?thesis using a by (simp add: get_due_def Let_def absent_def)
qed

lemma cancel_absent: "absent k (snd (cancel_wake k s))" "barred k (snd (cancel_wake k s))"
  by (auto simp: cancel_wake_def Let_def absent_def barred_def claims_open_def delete_conv')

lemma calm_absent:
  assumes "calm_step k s s'" "absent k s"
  shows "absent k s'" "barred k s \<Longrightarrow> barred k s'"
proof -
  have "absent k s' \<and> (barred k s \<longrightarrow> barred k s')"
    using assms
  proof (induction rule: calm_step.induct)
    case (schedule key conversation s now recheck_at user reason)
    then have "barred k s \<longrightarrow> barred k (schedule_wake now conversation recheck_at user reason key s)"
      by (auto elim!: barred_less simp: schedule_wake_def Let_def)
    with schedule show ?case by (simp add: schedule_wake_def Let_def absent_def delete_conv' update_conv')
  next
    case (loop md5 uniform now conversation interval prompt user key interval_max s k' s')
    then obtain e where "s' = ps_save (put_wake k' e (drop_claims k' s))" by (auto simp: schedule_loop_def Let_def)
    then show ?case using loop(2,3) by (auto elim!: barred_less simp: absent_def delete_conv' update_conv')
  next
    case (cancel s k')
    then have "barred k s \<longrightarrow> barred k (snd (cancel_wake k' s))" by (auto elim!: barred_less simp: cancel_wake_def Let_def)
    with cancel show ?case by (simp add: cancel_wake_def Let_def absent_def delete_conv')
  next
    case (cancel_all s conversation kp rp)
    let ?s = "if claims_open s then s\<lparr>ps_filters := ps_filters s @ [(conversation, kp, rp)]\<rparr> else s"
    have "absent k ?s" "barred k s \<longrightarrow> barred k ?s" using cancel_all by (simp_all add: absent_def barred_def claims_open_def)
    then have "absent k (fold remove_key ks ?s)" "barred k s \<longrightarrow> barred k (fold remove_key ks ?s)" for ks using remove_fold by blast+
    moreover have "absent k (ps_save u) = absent k u" "barred k (ps_save u) = barred k u" for u by (simp_all add: absent_def barred_def claims_open_def)
    ultimately show ?case using cancel_all by (simp add: cancel_for_conversation_def Let_def)
  next
    case (claim s es)
    then show ?case using claim_absent claim_barred by blast
  qed
  then show "absent k s'" "barred k s \<Longrightarrow> barred k s'" by simp_all
qed

text \<open>
  C15: A cancelled wake-up never comes back.  After cancel(key) no entry is scheduled, waiting or in delivery under the key and none is claimed, through all
  cancellations, claims, retries (whatever their target keys) and schedulings of other keys up to the next poll, and also through later polls as
  long as no retry of another entry is directed to the key.
\<close>

theorem cancelled_wake_stays_cancelled:
  assumes "s1 = snd (cancel_wake k s)" "(batch_step k)\<^sup>*\<^sup>* s1 s2 \<or> (later_step k)\<^sup>*\<^sup>* s1 s2"
  shows "absent k s2 \<and> (\<forall>es. k \<notin> entry_key ` set (fst (claim_due es s2)))"
proof -
  have s1: "absent k s1" "barred k s1" using cancel_absent by (simp_all add: assms(1))
  have "absent k s2"
    using assms(2)
  proof
    assume "(batch_step k)\<^sup>*\<^sup>* s1 s2"
    then have "absent k s2 \<and> barred k s2"
    proof (induction rule: rtranclp_induct)
      case (step u v)
      from step(2,3) show ?case
      proof (induction rule: batch_step.induct)
        case (calm s s')
        then show ?case using calm_absent by blast
      next
        case (retry s now retries)
        then show ?case using retry_absent by blast
      qed
    qed (use s1 in simp)
    then show ?thesis ..
  next
    assume "(later_step k)\<^sup>*\<^sup>* s1 s2"
    then show ?thesis
    proof (induction rule: rtranclp_induct)
      case (step u v)
      from step(2,3) show ?case
      proof (induction rule: later_step.induct)
        case (calm s s')
        then show ?case using calm_absent by blast
      next
        case (poll s uniform now)
        then show ?case by (rule poll_absent)
      next
        case (retry retries s now)
        then show ?case using retry_absent by blast
      qed
    qed (use s1 in simp)
  qed
  then show ?thesis using claim_absent by blast
qed

subsection \<open>Objects, keys and the file\<close>

text \<open>The numbers of the scheduled, the waiting and the claimed objects; each object is in one place, once.\<close>

definition objects :: "poll_scheduler \<Rightarrow> nat list \<Rightarrow> nat multiset" where
  "objects s claimed = image_mset (wk_oid \<circ> snd) (mset (ps_schedules s)) + image_mset (wk_oid \<circ> snd) (mset (ps_due s)) + mset claimed"

definition objects_ok :: "poll_scheduler \<Rightarrow> nat list \<Rightarrow> bool" where
  "objects_ok s claimed \<longleftrightarrow> (\<forall>n. count (objects s claimed) n \<le> 1) \<and> (\<forall>n \<in># objects s claimed. n < ps_next s)"

definition keys_ok :: "poll_scheduler \<Rightarrow> bool" where
  "keys_ok s \<longleftrightarrow> distinct (dict_keys (ps_schedules s)) \<and> (\<forall>(k, e) \<in> set (ps_schedules s). k \<noteq> [] \<and> entry_key e = k)"

definition file_ok :: "poll_scheduler \<Rightarrow> bool" where
  "file_ok s \<longleftrightarrow> ps_file s = map (stored \<circ> snd) (ps_schedules s)"

lemma objects_ok_less: "objects_ok s c \<Longrightarrow> objects s' c' \<subseteq># objects s c \<Longrightarrow> ps_next s \<le> ps_next s' \<Longrightarrow> objects_ok s' c'"
  unfolding objects_ok_def by (meson mset_subset_eqD mset_subset_eq_count order_trans less_le_trans)

lemma objects_ok_new:
  assumes "objects_ok s c" "objects s' c \<subseteq># add_mset (ps_next s) (objects s c)" "ps_next s' = Suc (ps_next s)"
  shows "objects_ok s' c"
proof -
  have fresh: "ps_next s \<notin># objects s c" using assms(1) by (auto simp: objects_ok_def)
  have "count (objects s' c) n \<le> count (add_mset (ps_next s) (objects s c)) n" for n using assms(2) by (rule mset_subset_eq_count)
  moreover have "count (add_mset (ps_next s) (objects s c)) n \<le> 1" for n using assms(1) fresh by (auto simp: objects_ok_def not_in_iff)
  moreover have "n < Suc (ps_next s)" if "n \<in># objects s' c" for n
    using mset_subset_eqD [OF assms(2) that] assms(1) by (auto simp: objects_ok_def less_Suc_eq)
  ultimately show ?thesis unfolding objects_ok_def assms(3) by (meson order_trans)
qed

lemma delete_absent: "k \<notin> set (dict_keys d) \<Longrightarrow> AList.delete k d = d"
  by (induction d) auto

lemma mset_delete: "mset (AList.delete k d) \<subseteq># mset d"
  by (simp add: AList.delete_eq)

lemma mset_update: "mset (AList.update k v d) \<subseteq># add_mset (k, v) (mset d)"
proof (induction d)
  case (Cons x d)
  obtain k' v' where x: "x = (k', v')" by fastforce
  show ?case
  proof (cases "k = k'")
    case True
    then show ?thesis by (simp add: x)
  next
    case False
    then show ?thesis using Cons by (simp add: x add_mset_commute)
  qed
qed simp

lemma mset_delete_member: "distinct (dict_keys d) \<Longrightarrow> (k, v) \<in> set d \<Longrightarrow> add_mset (k, v) (mset (AList.delete k d)) = mset d"
proof (induction d)
  case (Cons x d)
  show ?case
  proof (cases "x = (k, v)")
    case True
    have "AList.delete k d = d" using Cons.prems(1) True by (intro delete_absent) simp
    then show ?thesis using True by simp
  next
    case False
    then have m: "(k, v) \<in> set d" using Cons.prems by simp
    then have "k \<in> fst ` set d" by force
    then have "fst x \<noteq> k" using Cons.prems(1) by auto
    then have "AList.delete k (x # d) = x # AList.delete k d" by (cases x) simp
    then show ?thesis using Cons m by simp
  qed
qed simp

lemma objects_drop: "objects (drop_claims k s) c \<subseteq># objects s c"
  unfolding objects_def by (intro subset_mset.add_mono image_mset_subseteq_mono) (simp_all add: mset_delete)

lemma objects_put: "objects (put_wake k e s) c \<subseteq># add_mset (ps_next s) (objects s c)"
proof -
  have "image_mset (wk_oid \<circ> snd) (mset (ps_schedules (put_wake k e s))) \<subseteq># image_mset (wk_oid \<circ> snd) (add_mset (k, e\<lparr>wk_oid := ps_next s\<rparr>) (mset (ps_schedules s)))"
    by (intro image_mset_subseteq_mono) (simp add: mset_update)
  then have "objects (put_wake k e s) c \<subseteq># image_mset (wk_oid \<circ> snd) (add_mset (k, e\<lparr>wk_oid := ps_next s\<rparr>) (mset (ps_schedules s))) + image_mset (wk_oid \<circ> snd) (mset (ps_due s)) + mset c"
    unfolding objects_def by (intro subset_mset.add_mono) simp_all
  then show ?thesis by (simp add: objects_def)
qed

lemma objects_save [simp]: "objects (ps_save s) c = objects s c"
  by (simp add: objects_def)

lemma put_ok:
  assumes "objects_ok s c" "keys_ok s" "k \<noteq> []" "entry_key e = k"
  shows "objects_ok (put_wake k e s) c" "keys_ok (put_wake k e s)"
proof -
  show "objects_ok (put_wake k e s) c" using objects_ok_new [OF assms(1) objects_put] by simp
  have "entry_key (e\<lparr>wk_oid := n\<rparr>) = k" for n using assms(4) by (auto simp: entry_key_def)
  then show "keys_ok (put_wake k e s)"
    using assms(2,3) set_update_subset [of k "e\<lparr>wk_oid := ps_next s\<rparr>" "ps_schedules s"] unfolding keys_ok_def by (auto simp: distinct_update)
qed

lemma drop_ok: "objects_ok s c \<Longrightarrow> objects_ok (drop_claims k s) c" "keys_ok s \<Longrightarrow> keys_ok (drop_claims k s)"
  by (auto intro: objects_ok_less objects_drop simp: keys_ok_def)

lemma save_ok [simp]: "objects_ok (ps_save s) c = objects_ok s c" "keys_ok (ps_save s) = keys_ok s" "file_ok (ps_save s)"
  by (simp_all add: objects_ok_def keys_ok_def file_ok_def)

lemma delete_keys_ok: "keys_ok s \<Longrightarrow> keys_ok (s\<lparr>ps_schedules := AList.delete k (ps_schedules s)\<rparr>)"
  by (auto simp: keys_ok_def AList.delete_eq distinct_map_filter)

lemma remove_ok: "objects_ok s c \<Longrightarrow> objects_ok (remove_key k s) c" "keys_ok s \<Longrightarrow> keys_ok (remove_key k s)"
proof -
  have "objects (remove_key k s) c \<subseteq># objects s c"
    unfolding objects_def remove_key_def by (intro subset_mset.add_mono image_mset_subseteq_mono) (simp_all add: mset_delete)
  then show "objects_ok s c \<Longrightarrow> objects_ok (remove_key k s) c" using objects_ok_less [of s c "remove_key k s" c] by (simp add: remove_key_def)
  show "keys_ok s \<Longrightarrow> keys_ok (remove_key k s)" using delete_keys_ok [of "drop_claims k s" k] drop_ok(2) by (simp add: remove_key_def)
qed

lemma remove_fold_ok: "objects_ok s c \<Longrightarrow> objects_ok (fold remove_key ks s) c" "keys_ok s \<Longrightarrow> keys_ok (fold remove_key ks s)"
  by (induction ks arbitrary: s) (simp_all add: remove_ok)

lemma remove_fold_absent: "\<not> list_ex (\<lambda>k. map_of (ps_schedules s) k \<noteq> None) ks \<Longrightarrow> ps_schedules (fold remove_key ks s) = ps_schedules s \<and> ps_file (fold remove_key ks s) = ps_file s"
proof (induction ks arbitrary: s)
  case (Cons k ks)
  have "ps_schedules (remove_key k s) = ps_schedules s" using Cons.prems by (simp add: remove_key_def map_of_eq_None_iff delete_absent)
  moreover have "ps_file (remove_key k s) = ps_file s" by (simp add: remove_key_def)
  ultimately show ?case using Cons by simp
qed simp

lemma take_due_ok:
  assumes "objects_ok s c" "keys_ok s" "(k, e) \<in> set (ps_schedules s)"
  shows "objects_ok (take_due uniform now (k, e) s) c \<and> keys_ok (take_due uniform now (k, e) s) \<and>
    (\<forall>w \<in> set (ps_schedules s). fst w \<noteq> k \<longrightarrow> w \<in> set (ps_schedules (take_due uniform now (k, e) s)))"
proof -
  define s1 where "s1 = s\<lparr>ps_schedules := AList.delete k (ps_schedules s), ps_due := AList.update k e (ps_due s)\<rparr>"
  have d: "distinct (dict_keys (ps_schedules s))" "k \<noteq> []" "entry_key e = k" using assms(2,3) by (auto simp: keys_ok_def)
  have "image_mset (wk_oid \<circ> snd) (mset (ps_due s1)) \<subseteq># image_mset (wk_oid \<circ> snd) (add_mset (k, e) (mset (ps_due s)))"
    unfolding s1_def by (intro image_mset_subseteq_mono) (simp add: mset_update)
  then have "objects s1 c \<subseteq># image_mset (wk_oid \<circ> snd) (mset (AList.delete k (ps_schedules s))) + image_mset (wk_oid \<circ> snd) (add_mset (k, e) (mset (ps_due s))) + mset c"
    unfolding objects_def by (intro subset_mset.add_mono) (simp_all add: s1_def)
  also have "\<dots> = image_mset (wk_oid \<circ> snd) (add_mset (k, e) (mset (AList.delete k (ps_schedules s)))) + image_mset (wk_oid \<circ> snd) (mset (ps_due s)) + mset c" by simp
  also have "\<dots> = objects s c" unfolding mset_delete_member [OF d(1) assms(3)] objects_def ..
  finally have o1: "objects_ok s1 c" using objects_ok_less [OF assms(1)] by (simp add: s1_def)
  have k1: "keys_ok s1" using delete_keys_ok [OF assms(2), of k] by (simp add: s1_def keys_ok_def)
  have keep: "w \<in> set (ps_schedules s1)" if "w \<in> set (ps_schedules s)" "fst w \<noteq> k" for w using that by (auto simp: s1_def AList.delete_eq)
  have upd: "w \<in> set (AList.update k v xs)" if "w \<in> set xs" "fst w \<noteq> k" for w v and xs :: "(string, wake) dict"
    using that by (induction xs) auto
  let ?e = "e\<lparr>wk_recheck := now + loop_delay (uniform k) e, wk_created := now\<rparr>"
  have "entry_key ?e = k" using d(3) by (auto simp: entry_key_def)
  note p = put_ok [OF o1 k1 d(2) this]
  have "take_due uniform now (k, e) s = (if wk_recurring e \<and> wk_interval e \<noteq> 0 then put_wake k ?e s1 else s1)" by (simp add: take_due_def s1_def Let_def)
  then show ?thesis using o1 k1 p keep upd by auto
qed

lemma take_fold_ok:
  "objects_ok s c \<Longrightarrow> keys_ok s \<Longrightarrow> set ws \<subseteq> set (ps_schedules s) \<Longrightarrow> distinct (map fst ws) \<Longrightarrow>
   objects_ok (fold (take_due uniform now) ws s) c \<and> keys_ok (fold (take_due uniform now) ws s)"
proof (induction ws arbitrary: s)
  case (Cons w ws)
  obtain k e where w: "w = (k, e)" by fastforce
  note t = take_due_ok [OF Cons.prems(1,2), of k e uniform now]
  have "(k, e) \<in> set (ps_schedules s)" using Cons.prems(3) by (simp add: w)
  with t have t: "objects_ok (take_due uniform now w s) c" "keys_ok (take_due uniform now w s)"
    "\<forall>v \<in> set (ps_schedules s). fst v \<noteq> k \<longrightarrow> v \<in> set (ps_schedules (take_due uniform now w s))" by (simp_all add: w)
  have "set ws \<subseteq> set (ps_schedules (take_due uniform now w s))"
  proof
    fix v assume v: "v \<in> set ws"
    then have "fst v \<noteq> k" using Cons.prems(4) by (auto simp: w)
    then show "v \<in> set (ps_schedules (take_due uniform now w s))" using t(3) v Cons.prems(3) by auto
  qed
  then show ?case using Cons.IH [OF t(1,2)] Cons.prems(4) by simp
qed simp

lemma get_due_ok:
  assumes "objects_ok s c" "keys_ok s" "file_ok s"
  shows "objects_ok (snd (get_due uniform now s)) c" "keys_ok (snd (get_due uniform now s))" "file_ok (snd (get_due uniform now s))"
proof -
  let ?s = "s\<lparr>ps_due := [], ps_delivering := [], ps_cancelled := [], ps_filters := []\<rparr>"
  let ?ws = "filter (\<lambda>(k, e). is_due now e) (ps_schedules s)"
  have "objects ?s c \<subseteq># objects s c" by (simp add: objects_def)
  then have "objects_ok ?s c" "keys_ok ?s" "file_ok ?s" using objects_ok_less [OF assms(1), of ?s c] assms(2,3) by (simp_all add: keys_ok_def file_ok_def)
  moreover have "set ?ws \<subseteq> set (ps_schedules ?s)" "distinct (map fst ?ws)" using assms(2) by (auto simp: keys_ok_def distinct_map_filter)
  ultimately have f: "objects_ok (fold (take_due uniform now) ?ws ?s) c" "keys_ok (fold (take_due uniform now) ?ws ?s)" "file_ok ?s" using take_fold_ok by auto
  have eq: "snd (get_due uniform now s) = (if ?ws = [] then ?s else ps_save (fold (take_due uniform now) ?ws ?s))"
    unfolding get_due_def Let_def by (cases "?ws = []") simp_all
  show "objects_ok (snd (get_due uniform now s)) c" "keys_ok (snd (get_due uniform now s))" "file_ok (snd (get_due uniform now s))"
    unfolding eq using f by (auto split: if_split)
qed

lemma claim_ok:
  "objects_ok s c \<Longrightarrow> keys_ok s \<Longrightarrow> file_ok s \<Longrightarrow> objects_ok (snd (claim_due es s)) (map wk_oid (fst (claim_due es s)) @ c) \<and>
     keys_ok (snd (claim_due es s)) \<and> file_ok (snd (claim_due es s))"
proof (induction es arbitrary: s c)
  case (Cons e es)
  show ?case
  proof (cases "same_object (map_of (ps_due s) (entry_key e)) e")
    case True
    let ?k = "entry_key e"
    let ?s = "s\<lparr>ps_due := AList.delete ?k (ps_due s), ps_delivering := AList.update ?k e (ps_delivering s)\<rparr>"
    obtain f where f: "map_of (ps_due s) ?k = Some f" "wk_oid f = wk_oid e" using True by (auto simp: same_object_def split: option.splits)
    have "add_mset (?k, f) (mset (AList.delete ?k d)) \<subseteq># mset d" if "map_of d ?k = Some f" for d
      using that
    proof (induction d)
      case (Cons x d)
      then show ?case by (cases x) (auto simp: mset_delete split: if_splits)
    qed simp
    then have "image_mset (wk_oid \<circ> snd) (add_mset (?k, f) (mset (AList.delete ?k (ps_due s)))) \<subseteq># image_mset (wk_oid \<circ> snd) (mset (ps_due s))"
      using f(1) by (intro image_mset_subseteq_mono) blast
    then have "image_mset (wk_oid \<circ> snd) (mset (ps_schedules s)) + image_mset (wk_oid \<circ> snd) (add_mset (?k, f) (mset (AList.delete ?k (ps_due s)))) + mset c \<subseteq># objects s c"
      unfolding objects_def by (intro subset_mset.add_mono) simp_all
    then have "objects ?s (wk_oid e # c) \<subseteq># objects s c" using f(2) by (simp add: objects_def)
    then have "objects_ok ?s (wk_oid e # c)" using objects_ok_less [OF Cons.prems(1)] by simp
    moreover have "keys_ok ?s" "file_ok ?s" using Cons.prems by (simp_all add: keys_ok_def file_ok_def)
    ultimately have r: "objects_ok (snd (claim_due es ?s)) (map wk_oid (fst (claim_due es ?s)) @ wk_oid e # c)" "keys_ok (snd (claim_due es ?s))" "file_ok (snd (claim_due es ?s))"
      using Cons.IH by blast+
    have "objects_ok u (xs @ x # ys) = objects_ok u (x # xs @ ys)" for u xs x ys by (simp add: objects_ok_def objects_def)
    then show ?thesis using r True by (simp add: Let_def split_beta)
  qed (use Cons in \<open>simp add: Let_def\<close>)
qed simp

lemma retry_one_ok:
  assumes "objects_ok s c" "keys_ok s" "t \<noteq> []"
  shows "objects_ok (snd (reschedule_one now (e, t, d) (n, s))) c" "keys_ok (snd (reschedule_one now (e, t, d) (n, s)))"
    "n \<le> fst (reschedule_one now (e, t, d) (n, s))"
    "fst (reschedule_one now (e, t, d) (n, s)) = n \<Longrightarrow> ps_schedules (snd (reschedule_one now (e, t, d) (n, s))) = ps_schedules s \<and>
       ps_file (snd (reschedule_one now (e, t, d) (n, s))) = ps_file s"
proof -
  let ?e = "(case map_of (ps_schedules s) t of None \<Rightarrow> empty_wake | Some c \<Rightarrow> c)\<lparr>wk_conversation := wk_conversation e, wk_key := t, wk_recheck := now + d, wk_user := wk_user e, wk_reason := wk_reason e,
            wk_created := now, wk_prompt := (if wk_prompt e = [] then wk_prompt (case map_of (ps_schedules s) t of None \<Rightarrow> empty_wake | Some c \<Rightarrow> c) else wk_prompt e)\<rparr>"
  have "entry_key ?e = t" using assms(3) by (simp add: entry_key_def)
  have "reschedule_one now (e, t, d) (n, s) = (n, s) \<or> reschedule_one now (e, t, d) (n, s) = (n, drop_claims (entry_key e) s) \<or>
      reschedule_one now (e, t, d) (n, s) = (Suc n, put_wake t ?e (drop_claims (entry_key e) s))"
    unfolding reschedule_one_def Let_def by auto
  then show "objects_ok (snd (reschedule_one now (e, t, d) (n, s))) c" "keys_ok (snd (reschedule_one now (e, t, d) (n, s)))" "n \<le> fst (reschedule_one now (e, t, d) (n, s))"
    "fst (reschedule_one now (e, t, d) (n, s)) = n \<Longrightarrow> ps_schedules (snd (reschedule_one now (e, t, d) (n, s))) = ps_schedules s \<and>
       ps_file (snd (reschedule_one now (e, t, d) (n, s))) = ps_file s"
    using assms(1,2) drop_ok put_ok [OF drop_ok(1) [OF assms(1)] drop_ok(2) [OF assms(2)] assms(3) \<open>entry_key ?e = t\<close>] by auto
qed

lemma retry_fold_ok:
  "objects_ok s c \<Longrightarrow> keys_ok s \<Longrightarrow> \<forall>(e, t, d) \<in> set rs. t \<noteq> [] \<Longrightarrow> fold (reschedule_one now) rs (n, s) = (m, s') \<Longrightarrow>
   objects_ok s' c \<and> keys_ok s' \<and> n \<le> m \<and> (m = n \<longrightarrow> ps_schedules s' = ps_schedules s \<and> ps_file s' = ps_file s)"
proof (induction rs arbitrary: n s)
  case (Cons r rs)
  obtain e t d where r: "r = (e, t, d)" using prod_cases3 by blast
  obtain n1 s1 where s1: "reschedule_one now (e, t, d) (n, s) = (n1, s1)" by fastforce
  have "t \<noteq> []" using Cons.prems(3) by (simp add: r)
  note o = retry_one_ok [OF Cons.prems(1,2) this, where now = now and e = e and d = d and n = n, unfolded s1 fst_conv snd_conv]
  have "objects_ok s' c \<and> keys_ok s' \<and> n1 \<le> m \<and> (m = n1 \<longrightarrow> ps_schedules s' = ps_schedules s1 \<and> ps_file s' = ps_file s1)"
  proof (rule Cons.IH [OF o(1,2)])
    show "\<forall>(e, t, d) \<in> set rs. t \<noteq> []" using Cons.prems(3) by simp
    show "fold (reschedule_one now) rs (n1, s1) = (m, s')" using Cons.prems(4) s1 by (simp add: r)
  qed
  then show ?case using o(3,4) by auto
qed simp

lemma retry_ok:
  assumes "objects_ok s c" "keys_ok s" "file_ok s" "\<forall>(e, t, d) \<in> set retries. t \<noteq> []"
  shows "objects_ok (snd (reschedule_due now retries s)) c" "keys_ok (snd (reschedule_due now retries s))" "file_ok (snd (reschedule_due now retries s))"
proof -
  obtain m s' where f: "fold (reschedule_one now) retries (0, s) = (m, s')" by fastforce
  note r = retry_fold_ok [OF assms(1,2,4) f]
  have "snd (reschedule_due now retries s) = (if m > 0 then ps_save s' else s')" by (simp add: reschedule_due_def f)
  then show "objects_ok (snd (reschedule_due now retries s)) c" "keys_ok (snd (reschedule_due now retries s))" "file_ok (snd (reschedule_due now retries s))"
    using r assms(3) by (auto simp: file_ok_def)
qed

subsection \<open>Restart and delivery\<close>

lemma stored_simps [simp]: "entry_key (stored e) = entry_key e" "is_stale now (stored e) = is_stale now e" "stored (stored e) = stored e" "stored (e\<lparr>wk_oid := n\<rparr>) = stored e"
  by (simp_all add: stored_def entry_key_def is_stale_def)

lemma load_fold:
  "distinct (dict_keys (ps_schedules s) @ map entry_key es) \<Longrightarrow> \<forall>e \<in> set es. entry_key e \<noteq> [] \<Longrightarrow> objects_ok s c \<Longrightarrow> keys_ok s \<Longrightarrow>
   (let s' = fold (load_one now) es s in
    map (map_prod id stored) (ps_schedules s') = map (map_prod id stored) (ps_schedules s) @ map (\<lambda>e. (entry_key e, stored e)) (filter (\<lambda>e. \<not> is_stale now e) es) \<and>
    ps_file s' = ps_file s \<and> objects_ok s' c \<and> keys_ok s')"
proof (induction es arbitrary: s)
  case (Cons e es)
  show ?case
  proof (cases "is_stale now e")
    case True
    then show ?thesis using Cons by (auto simp: load_one_def)
  next
    case False
    let ?s = "put_wake (entry_key e) e s"
    have new: "entry_key e \<notin> set (dict_keys (ps_schedules s))" using Cons.prems(1) by auto
    have upd: "AList.update k v xs = xs @ [(k, v)]" if "k \<notin> set (dict_keys xs)" for k v and xs :: "(string, wake) dict" using that by (induction xs) auto
    have sch: "ps_schedules ?s = ps_schedules s @ [(entry_key e, e\<lparr>wk_oid := ps_next s\<rparr>)]" using upd [OF new] by simp
    have one: "load_one now e s = ?s" using False Cons.prems(2) by (simp add: load_one_def)
    note p = put_ok [OF Cons.prems(3,4) _ refl, of e]
    have "distinct (dict_keys (ps_schedules ?s) @ map entry_key es)" using Cons.prems(1) unfolding sch by auto
    from Cons.IH [OF this] show ?thesis using Cons.prems(2) p one False upd [OF new] unfolding Let_def by simp
  qed
qed simp

text \<open>The scheduler with the objects claimed so far; a restart reads the file back.\<close>

inductive wake_step :: "poll_scheduler \<times> nat list \<Rightarrow> poll_scheduler \<times> nat list \<Rightarrow> bool" where
  schedule: "conversation \<noteq> [] \<Longrightarrow> wake_step (s, c) (schedule_wake now conversation recheck_at user reason key s, c)"
| loop: "wake_step (s, c) (snd (schedule_loop md5 uniform now conversation interval prompt user key interval_max s), c)"
| cancel: "wake_step (s, c) (snd (cancel_wake k s), c)"
| cancel_all: "wake_step (s, c) (snd (cancel_for_conversation conversation key_prefixes reason_prefixes s), c)"
| poll: "wake_step (s, c) (snd (get_due uniform now s), c)"
| claim: "claim_due es s = (claimed, s') \<Longrightarrow> wake_step (s, c) (s', map wk_oid claimed @ c)"
| retry: "\<forall>(e, t, d) \<in> set retries. t \<noteq> [] \<Longrightarrow> wake_step (s, c) (snd (reschedule_due now retries s), c)"
| restart: "wake_step (s, c) (load_scheduler now (ps_file s) (ps_next s), c)"

definition wake_inv :: "poll_scheduler \<times> nat list \<Rightarrow> bool" where
  "wake_inv = (\<lambda>(s, c). objects_ok s c \<and> keys_ok s \<and> file_ok s)"

definition restarted :: "real \<Rightarrow> poll_scheduler \<Rightarrow> poll_scheduler \<Rightarrow> bool" where
  "restarted now s s' \<longleftrightarrow> map (map_prod id stored) (ps_schedules s') = map (map_prod id stored) (filter (\<lambda>(k, e). \<not> is_stale now e) (ps_schedules s))"

lemma stored_list:
  "\<forall>(k, e) \<in> set d. k \<noteq> [] \<and> entry_key e = k \<Longrightarrow>
   map (\<lambda>e. (entry_key e, stored e)) (filter (\<lambda>e. \<not> is_stale now e) (map (stored \<circ> snd) d)) = map (map_prod id stored) (filter (\<lambda>(k, e). \<not> is_stale now e) d)"
  by (induction d) auto

lemma load_restores:
  assumes "wake_inv (s, c)"
  shows "restarted now s (load_scheduler now (ps_file s) (ps_next s))" "wake_inv (load_scheduler now (ps_file s) (ps_next s), c)"
proof -
  have fl: "ps_file s = map (stored \<circ> snd) (ps_schedules s)" and keys: "distinct (dict_keys (ps_schedules s))" "\<forall>(k, e) \<in> set (ps_schedules s). k \<noteq> [] \<and> entry_key e = k"
    using assms by (auto simp: wake_inv_def file_ok_def keys_ok_def)
  have ks: "map entry_key (ps_file s) = dict_keys (ps_schedules s)" unfolding fl list.map_comp using keys(2) by (intro map_cong) auto
  let ?s = "new_scheduler (ps_file s) (ps_next s)"
  let ?t = "fold (load_one now) (ps_file s) ?s"
  have s0: "objects_ok ?s c" "keys_ok ?s" "ps_schedules ?s = []" "ps_file ?s = ps_file s"
  proof -
    have "objects ?s c \<subseteq># objects s c" by (simp add: objects_def new_scheduler_def)
    then show "objects_ok ?s c" using objects_ok_less [of s c ?s c] assms by (simp add: wake_inv_def new_scheduler_def)
  qed (simp_all add: keys_ok_def new_scheduler_def)
  have "distinct (dict_keys (ps_schedules ?s) @ map entry_key (ps_file s))" using keys(1) by (simp add: ks s0)
  moreover have "\<forall>e \<in> set (ps_file s). entry_key e \<noteq> []" using keys(2) unfolding fl by auto
  ultimately have l: "map (map_prod id stored) (ps_schedules ?t) = map (\<lambda>e. (entry_key e, stored e)) (filter (\<lambda>e. \<not> is_stale now e) (ps_file s))"
    "ps_file ?t = ps_file s" "objects_ok ?t c" "keys_ok ?t"
    using load_fold [OF _ _ s0(1,2), of "ps_file s" now] s0(3,4) by (simp_all add: Let_def)
  have "map (\<lambda>e. (entry_key e, stored e)) (filter (\<lambda>e. \<not> is_stale now e) (ps_file s)) = map (map_prod id stored) (filter (\<lambda>(k, e). \<not> is_stale now e) (ps_schedules s))"
    using stored_list [OF keys(2)] unfolding fl by simp
  then have t: "restarted now s ?t" using l(1) by (simp add: restarted_def)
  then show "restarted now s (load_scheduler now (ps_file s) (ps_next s))" by (simp add: load_scheduler_def Let_def restarted_def)
  have "file_ok ?t" if "\<not> list_ex (is_stale now) (ps_file s)"
  proof -
    have "filter (\<lambda>e. \<not> is_stale now e) (ps_file s) = ps_file s" using that by (simp add: list_ex_iff filter_id_conv)
    then have "map snd (map (map_prod id stored) (ps_schedules ?t)) = map stored (ps_file s)" unfolding l(1) by simp
    moreover have "map stored (ps_file s) = ps_file s" unfolding fl by simp
    ultimately show ?thesis unfolding file_ok_def l(2) by (simp add: comp_def)
  qed
  then show "wake_inv (load_scheduler now (ps_file s) (ps_next s), c)" using l(3,4) by (simp add: load_scheduler_def Let_def wake_inv_def)
qed

lemma schedule_ok:
  assumes "wake_inv (s, c)" "k \<noteq> []" "entry_key e = k"
  shows "wake_inv (ps_save (put_wake k e (drop_claims k s)), c)"
  using assms put_ok [of "drop_claims k s" c k e] drop_ok by (simp add: wake_inv_def)

lemma cancel_ok:
  assumes "wake_inv (s, c)"
  shows "wake_inv (snd (cancel_wake k s), c)"
proof -
  let ?t = "if claims_open s then s\<lparr>ps_cancelled := k # ps_cancelled s\<rparr> else s"
  have t: "objects_ok ?t c" "keys_ok ?t" "file_ok ?t" using assms by (auto simp: wake_inv_def objects_ok_def objects_def keys_ok_def file_ok_def)
  have "objects (drop_claims k ?t\<lparr>ps_schedules := AList.delete k (ps_schedules ?t)\<rparr>) c \<subseteq># objects (drop_claims k ?t) c"
    unfolding objects_def by (intro subset_mset.add_mono image_mset_subseteq_mono) (simp_all add: mset_delete)
  then have r: "objects_ok (drop_claims k ?t\<lparr>ps_schedules := AList.delete k (ps_schedules ?t)\<rparr>) c" "keys_ok (drop_claims k ?t\<lparr>ps_schedules := AList.delete k (ps_schedules ?t)\<rparr>)"
    using objects_ok_less [OF drop_ok(1) [OF t(1)]] delete_keys_ok [OF drop_ok(2) [OF t(2)], of k k] by simp_all
  moreover have "file_ok (drop_claims k ?t)" using t(3) by (simp add: file_ok_def)
  ultimately show ?thesis using drop_ok(1) [OF t(1), of k] drop_ok(2) [OF t(2), of k] unfolding cancel_wake_def Let_def wake_inv_def by simp
qed

lemma cancel_all_ok:
  assumes "wake_inv (s, c)"
  shows "wake_inv (snd (cancel_for_conversation conversation kp rp s), c)"
proof (cases "conversation = []")
  case False
  define t where "t = (if claims_open s then s\<lparr>ps_filters := ps_filters s @ [(conversation, kp, rp)]\<rparr> else s)"
  define ks where "ks = selected_keys conversation kp rp t"
  have t: "objects_ok t c" "keys_ok t" "file_ok t" using assms by (auto simp: wake_inv_def objects_ok_def objects_def keys_ok_def file_ok_def t_def)
  have "file_ok (fold remove_key ks t)" if "\<not> list_ex (\<lambda>k. map_of (ps_schedules t) k \<noteq> None) ks"
    using remove_fold_absent [OF that] t(3) by (simp add: file_ok_def)
  moreover have "snd (cancel_for_conversation conversation kp rp s) = (if list_ex (\<lambda>k. map_of (ps_schedules t) k \<noteq> None) ks then ps_save (fold remove_key ks t) else fold remove_key ks t)"
    using False by (simp add: cancel_for_conversation_def Let_def t_def [symmetric] ks_def)
  ultimately show ?thesis using remove_fold_ok t by (simp add: wake_inv_def)
qed (use assms in \<open>simp add: cancel_for_conversation_def\<close>)

lemma wake_step_inv: "wake_step x y \<Longrightarrow> wake_inv x \<Longrightarrow> wake_inv y"
proof (induction rule: wake_step.induct)
  case (schedule conversation s c now recheck_at user reason key)
  then show ?case using schedule_ok [of s c "if key = [] then conversation else key"] by (simp add: schedule_wake_def Let_def entry_key_def)
next
  case (loop s c md5 uniform now conversation interval prompt user key interval_max)
  have "(if key = [] then ''loop::'' @ conversation @ ''::'' @ take 6 (md5 prompt) else key) \<noteq> []" by simp
  with loop show ?case using schedule_ok [of s c "if key = [] then ''loop::'' @ conversation @ ''::'' @ take 6 (md5 prompt) else key"]
    by (simp add: schedule_loop_def Let_def entry_key_def)
next
  case (poll s c uniform now)
  then show ?case using get_due_ok [of s c uniform now] by (simp add: wake_inv_def)
next
  case (claim es s claimed s' c)
  then show ?case using claim_ok [of s c es] by (simp add: wake_inv_def)
next
  case (retry retries s c now)
  then show ?case using retry_ok [of s c retries now] by (simp add: wake_inv_def)
qed (simp_all add: cancel_ok cancel_all_ok load_restores)

definition wake_start :: "poll_scheduler \<times> nat list \<Rightarrow> bool" where
  "wake_start = (\<lambda>(s, c). s = load_scheduler 0 [] 0 \<and> c = [])"

interpretation pss: store_system wake_start wake_step wake_inv
proof unfold_locales
  fix x assume "wake_start x"
  then show "wake_inv x" by (auto simp: wake_start_def wake_inv_def load_scheduler_def new_scheduler_def objects_ok_def objects_def keys_ok_def file_ok_def)
qed (rule wake_step_inv)

text \<open>
  C40: In every reachable state no wake-up object was claimed for delivery twice, the file holds exactly the schedule, and a restart gives back the same schedule, in
  order, without the entries that are more than a day overdue, recurring loops included, and those without a conversation.
\<close>

theorem schedule_survives_restart:
  assumes "wake_start x" "wake_step\<^sup>*\<^sup>* x (s, claimed)"
  shows "distinct claimed \<and> ps_file s = map (stored \<circ> snd) (ps_schedules s) \<and>
    map (map_prod id stored) (ps_schedules (load_scheduler now (ps_file s) (ps_next s))) =
      map (map_prod id stored) (filter (\<lambda>(k, e). (wk_recheck e = 0 \<or> now - 86400 \<le> wk_recheck e) \<and> wk_conversation e \<noteq> []) (ps_schedules s))"
proof -
  note inv = pss.reachable_inv [OF assms]
  have "count (mset claimed) n \<le> 1" for n
  proof -
    have "count (mset claimed) n \<le> count (objects s claimed) n" by (simp add: objects_def)
    then show ?thesis using inv by (auto simp: wake_inv_def objects_ok_def intro: order_trans)
  qed
  then have "count (mset claimed) n = (if n \<in> set claimed then 1 else 0)" for n
    using count_greater_zero_iff [of "mset claimed" n] by (cases "count (mset claimed) n") (auto simp: le_Suc_eq simp del: count_mset)
  then have "distinct claimed" unfolding distinct_count_atmost_1 by blast
  moreover have "is_stale now e \<longleftrightarrow> \<not> ((wk_recheck e = 0 \<or> now - 86400 \<le> wk_recheck e) \<and> wk_conversation e \<noteq> [])" if "(k, e) \<in> set (ps_schedules s)" for k e
  proof -
    have "entry_key e \<noteq> []" using inv that by (auto simp: wake_inv_def keys_ok_def)
    then show ?thesis by (auto simp: is_stale_def)
  qed
  then have "filter (\<lambda>(k, e). \<not> is_stale now e) (ps_schedules s) = filter (\<lambda>(k, e). (wk_recheck e = 0 \<or> now - 86400 \<le> wk_recheck e) \<and> wk_conversation e \<noteq> []) (ps_schedules s)"
    by (intro filter_cong) auto
  ultimately show ?thesis using load_restores(1) [OF inv, of now] inv by (simp add: restarted_def wake_inv_def file_ok_def)
qed

definition demo_waking :: poll_scheduler where
  "demo_waking = schedule_wake 0 ''c'' 100 ''u'' ''r'' ''k'' (load_scheduler 0 [] 0)"

lemma demo_waking_step: "wake_step\<^sup>*\<^sup>* (load_scheduler 0 [] 0, []) (demo_waking, [])"
  using wake_step.schedule [of "''c''" "load_scheduler 0 [] 0" "[]" 0 100 "''u''" "''r''" "''k''"] by (simp add: demo_waking_def r_into_rtranclp)

theorem schedule_survives_restart_witness:
  "map fst (ps_schedules (load_scheduler 200 (ps_file demo_waking) (ps_next demo_waking))) = [''k''] \<and>
   ps_schedules (load_scheduler 86501 (ps_file demo_waking) (ps_next demo_waking)) = []"
proof -
  have start: "wake_start (load_scheduler 0 [] 0, [])" by (simp add: wake_start_def)
  have sch: "ps_schedules demo_waking = [(''k'', \<lparr>wk_oid = 0, wk_conversation = ''c'', wk_key = ''k'', wk_recheck = 100, wk_user = ''u'', wk_reason = ''r'',
        wk_created = 0, wk_recurring = False, wk_interval = 0, wk_interval_max = 0, wk_prompt = []\<rparr>)]"
    by (simp add: demo_waking_def schedule_wake_def load_scheduler_def new_scheduler_def Let_def put_wake_def drop_claims_def ps_save_def)
  note restores = schedule_survives_restart [OF start demo_waking_step, THEN conjunct2, THEN conjunct2]
  have "map (map_prod id stored) (ps_schedules (load_scheduler 200 (ps_file demo_waking) (ps_next demo_waking))) = map (map_prod id stored) (ps_schedules demo_waking)"
    unfolding restores by (simp add: sch)
  then have "map fst (map (map_prod id stored) (ps_schedules (load_scheduler 200 (ps_file demo_waking) (ps_next demo_waking)))) = [''k'']"
    by (simp only: sch) simp
  moreover have "map (map_prod id stored) (ps_schedules (load_scheduler 86501 (ps_file demo_waking) (ps_next demo_waking))) = []"
    unfolding restores by (simp add: sch)
  ultimately show ?thesis by (simp add: comp_def)
qed

theorem cancelled_wake_stays_cancelled_witness:
  "absent ''k'' (snd (get_due (\<lambda>k lo hi. lo) 500 (snd (cancel_wake ''k'' demo_waking))))"
  using cancelled_wake_stays_cancelled [of "snd (cancel_wake ''k'' demo_waking)" "''k''" demo_waking "snd (get_due (\<lambda>k lo hi. lo) 500 (snd (cancel_wake ''k'' demo_waking)))"]
    r_into_rtranclp [of "later_step ''k''", OF later_step.poll] by blast

end
