(* ===== verification/Flow_Run.thy ===== *)
theory Flow_Run
  imports Json
begin

section \<open>Durable flow runs and their terminal outbox\<close>

text \<open>
  \<open>core/flow_run_store.py\<close>.
  The two SQLite tables \<open>flow_runs\<close> and \<open>flow_run_outbox\<close> are lists of rows in insertion order.
  Every method is one transaction under the store's lock, rolled back when it raises, so a method is
  a function from the database to an exception or to a result and a new database.  Fresh identifiers
  (\<open>uuid4\<close>) and \<open>time.time()\<close> are arguments; a violated \<open>PRIMARY KEY\<close> or \<open>UNIQUE\<close>
  constraint raises.

  The three pydantic contracts \<open>create\<close> parses its arguments with rest on a third-party library:
  their \<open>from_dict\<close>/\<open>to_dict\<close> round trip is the parameter \<open>contracts\<close>.  The callback
  \<open>before_live_write\<close> is an argument too: it may raise, and then nothing is written.
  A text column that holds \<open>str(value)\<close> of a JSON value keeps the value.
\<close>

datatype run_status =
    Created | Starting | Running | Waiting | Cancelling | Committing
  | Completed | Failed | Cancelled | TimedOut | ForceStopped

definition FLOW_RUN_TERMINALS :: "run_status list" where
  "FLOW_RUN_TERMINALS = [Completed, Failed, Cancelled, TimedOut, ForceStopped]"

definition FLOW_RUN_LIVE :: "run_status list" where
  "FLOW_RUN_LIVE = [Created, Starting, Running, Waiting, Cancelling, Committing]"

fun TRANSITIONS :: "run_status \<Rightarrow> run_status list" where
  "TRANSITIONS Created = [Starting, Cancelling, Failed, TimedOut, ForceStopped]"
| "TRANSITIONS Starting = [Running, Cancelling, Failed, TimedOut, ForceStopped]"
| "TRANSITIONS Running = [Waiting, Committing, Cancelling, Failed, TimedOut, ForceStopped]"
| "TRANSITIONS Waiting = [Running, Committing, Cancelling, Failed, TimedOut, ForceStopped]"
| "TRANSITIONS Cancelling = [Cancelled, ForceStopped]"
| "TRANSITIONS Committing = [Completed]"
| "TRANSITIONS _ = []"

record flow_run =
  fr_run_id :: string
  fr_user_id :: string
  fr_conversation_id :: string
  fr_generation :: int
  fr_flow_ref :: json
  fr_instance_id :: string
  fr_proposal_id :: "string option"
  fr_parent_invocation :: "json option"
  fr_authorization_ref :: json
  fr_execution_authority :: "json option"
  fr_input :: json
  fr_parameters :: json
  fr_replay_of :: "string option"
  fr_status :: run_status
  fr_terminal :: "json option"
  fr_terminal_event_id :: "string option"
  fr_error :: "json option"
  fr_recovery_count :: int
  fr_created_at :: real
  fr_updated_at :: real
  fr_terminal_at :: "real option"
  fr_import_metadata :: "json option"
  fr_checkpoint :: "json option"

record outbox_row =
  ob_event_id :: string
  ob_run_id :: string
  ob_status :: run_status
  ob_terminal :: "json option"
  ob_error :: "json option"
  ob_delivered :: bool
  ob_attempts :: int
  ob_created_at :: real
  ob_delivered_at :: "real option"

record run_db =
  db_runs :: "flow_run list"
  db_outbox :: "outbox_row list"

record contracts =
  parse_ref :: "json \<Rightarrow> (string \<times> json) res"
  parse_authorization :: "json \<Rightarrow> json res"
  parse_authority :: "json \<Rightarrow> json res"

definition empty_db :: run_db where
  "empty_db = \<lparr>db_runs = [], db_outbox = []\<rparr>"

definition find_run :: "string \<Rightarrow> run_db \<Rightarrow> flow_run option" where
  "find_run rid db = find (\<lambda>r. fr_run_id r = rid) (db_runs db)"

text \<open>\<open>UPDATE flow_runs SET \<dots> WHERE run_id = ?\<close>\<close>

definition update_run :: "string \<Rightarrow> (flow_run \<Rightarrow> flow_run) \<Rightarrow> run_db \<Rightarrow> run_db" where
  "update_run rid f db = db\<lparr>db_runs := map (\<lambda>r. if fr_run_id r = rid then f r else r) (db_runs db)\<rparr>"

text \<open>\<open>SELECT COALESCE(MAX(generation), 0) \<dots>\<close> plus one.\<close>

definition next_generation :: "string \<Rightarrow> json \<Rightarrow> run_db \<Rightarrow> int" where
  "next_generation conv ref db =
     foldr max (map fr_generation (filter (\<lambda>r. fr_conversation_id r = conv \<and>
        json_dumps (fr_flow_ref r) = json_dumps ref) (db_runs db))) 0 + 1"

text \<open>The insertion with the primary key on \<open>run_id\<close> and the unique \<open>deployment_instance_id\<close>.\<close>

definition insert_run :: "flow_run \<Rightarrow> run_db \<Rightarrow> run_db res" where
  "insert_run r db =
     (if fr_run_id r \<in> set (map fr_run_id (db_runs db)) \<or>
         fr_instance_id r \<in> set (map fr_instance_id (db_runs db))
      then Inl (RuntimeError ''IntegrityError'')
      else Inr (db\<lparr>db_runs := db_runs db @ [r]\<rparr>))"

text \<open>The insertion of an outbox row: primary key \<open>event_id\<close>, unique \<open>run_id\<close>.\<close>

definition insert_event :: "outbox_row \<Rightarrow> run_db \<Rightarrow> run_db res" where
  "insert_event e db =
     (if ob_event_id e \<in> set (map ob_event_id (db_outbox db)) \<or>
         ob_run_id e \<in> set (map ob_run_id (db_outbox db))
      then Inl (RuntimeError ''IntegrityError'')
      else Inr (db\<lparr>db_outbox := db_outbox db @ [e]\<rparr>))"

definition fr_get :: "string \<Rightarrow> run_db \<Rightarrow> flow_run option" where
  "fr_get rid db = find_run rid db"

text \<open>\<open>value or None\<close> for a text argument.\<close>

definition or_none :: "string \<Rightarrow> string option" where
  "or_none s = (if s = [] then None else Some s)"

definition flow_ref_of :: "contracts \<Rightarrow> json \<Rightarrow> json res" where
  "flow_ref_of ct ref =
     bind_res (parse_ref ct ref) (\<lambda>(rtype, d).
       if rtype \<noteq> ''flow'' then Inl (ValueError ''flow_ref must identify an exact flow'') else Inr d)"

definition fr_create ::
    "contracts \<Rightarrow> unit res \<Rightarrow> real \<Rightarrow> string \<Rightarrow> string \<Rightarrow>
     string \<Rightarrow> string \<Rightarrow> json \<Rightarrow> json \<Rightarrow> json \<Rightarrow> json \<Rightarrow> json \<Rightarrow> string \<Rightarrow> json option \<Rightarrow> string \<Rightarrow>
     string \<Rightarrow> string \<Rightarrow> run_db \<Rightarrow> (flow_run option \<times> run_db) res" where
  "fr_create ct before now fresh_run fresh_inst
     user conv flow_ref auth_ref authority input parameters proposal parent replay_of
     run_id instance_id db =
     bind_res (flow_ref_of ct flow_ref) (\<lambda>ref.
     bind_res (parse_authorization ct auth_ref) (\<lambda>auth.
     bind_res (parse_authority ct authority) (\<lambda>exec_auth.
     if \<not> is_dict input \<or> \<not> is_dict parameters
     then Inl (TypeError ''input_snapshot and parameters must be objects'')
     else
     bind_res (required user ''user_id'') (\<lambda>user.
     bind_res (required conv ''conversation_id'') (\<lambda>conv.
     (let rid = (if run_id = [] then ''fr_'' @ fresh_run else run_id);
          inst = (if instance_id = [] then ''flowrun__'' @ fresh_inst else instance_id)
      in bind_res before (\<lambda>_.
         bind_res (insert_run
           \<lparr>fr_run_id = rid, fr_user_id = user, fr_conversation_id = conv,
            fr_generation = next_generation conv ref db, fr_flow_ref = ref, fr_instance_id = inst,
            fr_proposal_id = or_none proposal,
            fr_parent_invocation = (case parent of None \<Rightarrow> None | Some p \<Rightarrow> if jtruthy p then Some p else None),
            fr_authorization_ref = auth, fr_execution_authority = Some exec_auth,
            fr_input = input, fr_parameters = parameters, fr_replay_of = or_none replay_of,
            fr_status = Created, fr_terminal = None, fr_terminal_event_id = None, fr_error = None,
            fr_recovery_count = 0, fr_created_at = now, fr_updated_at = now, fr_terminal_at = None,
            fr_import_metadata = None, fr_checkpoint = None\<rparr> db) (\<lambda>db'.
         Inr (fr_get rid db', db')))))))))"

text \<open>What every import checks first: the four required texts.\<close>

definition import_ids ::
    "string \<Rightarrow> string \<Rightarrow> string \<Rightarrow> string \<Rightarrow> (string \<times> string \<times> string \<times> string) res" where
  "import_ids run_id user conv proposal =
     bind_res (required run_id ''run_id'') (\<lambda>rid.
     bind_res (required user ''user_id'') (\<lambda>u.
     bind_res (required conv ''conversation_id'') (\<lambda>c.
     bind_res (required proposal ''proposal_id'') (\<lambda>p. Inr (rid, u, c, p)))))"

text \<open>Python's \<open>existing.get(key) == value\<close> for an optional document.\<close>

definition opt_jeq :: "json option \<Rightarrow> json option \<Rightarrow> bool" where
  "opt_jeq a b = (case (a, b) of (None, None) \<Rightarrow> True | (Some x, Some y) \<Rightarrow> jeq x y
     | (None, Some y) \<Rightarrow> y = JNull | (Some x, None) \<Rightarrow> x = JNull)"

text \<open>
  The import step shared by the three import methods: an identical run is returned as it is, a
  different one under the same id is refused, otherwise the row is inserted.
\<close>

definition import_row ::
    "(flow_run \<Rightarrow> bool) \<Rightarrow> (int \<Rightarrow> flow_run) \<Rightarrow> string \<Rightarrow> string \<Rightarrow> json \<Rightarrow> run_db \<Rightarrow>
     (flow_run option \<times> run_db) res" where
  "import_row same row rid conv ref db =
     (case find_run rid db of
        Some existing \<Rightarrow>
          if same existing then Inr (Some existing, db)
          else Inl (ValueError ''different imported run already exists'')
      | None \<Rightarrow>
          bind_res (insert_run (row (next_generation conv ref db)) db) (\<lambda>db'.
          Inr (fr_get rid db', db')))"

definition import_terminal ::
    "contracts \<Rightarrow> string \<Rightarrow> string \<Rightarrow> string \<Rightarrow> json \<Rightarrow> string \<Rightarrow> run_status \<Rightarrow> json \<Rightarrow> json \<Rightarrow>
     real \<Rightarrow> real \<Rightarrow> run_db \<Rightarrow> (flow_run option \<times> run_db) res" where
  "import_terminal ct run_id user conv flow_ref proposal status terminal metadata created_at terminal_at db =
     bind_res (import_ids run_id user conv proposal) (\<lambda>(rid, user, conv, proposal).
     if status \<notin> set FLOW_RUN_TERMINALS
     then Inl (ValueError ''imported flow run status must be terminal'')
     else if \<not> is_dict terminal \<or> \<not> is_dict metadata
     then Inl (TypeError ''terminal and import_metadata must be objects'')
     else if terminal_at < created_at then Inl (ValueError ''import timestamps are invalid'')
     else bind_res (flow_ref_of ct flow_ref) (\<lambda>ref.
       import_row
         (\<lambda>r. fr_user_id r = user \<and> fr_conversation_id r = conv \<and> jeq (fr_flow_ref r) ref \<and>
              fr_proposal_id r = Some proposal \<and> fr_status r = status \<and>
              opt_jeq (fr_terminal r) (Some terminal) \<and> opt_jeq (fr_import_metadata r) (Some metadata) \<and>
              fr_created_at r = created_at \<and> fr_terminal_at r = Some terminal_at)
         (\<lambda>gen. \<lparr>fr_run_id = rid, fr_user_id = user, fr_conversation_id = conv, fr_generation = gen,
            fr_flow_ref = ref, fr_instance_id = ''flowrun__legacy__'' @ rid, fr_proposal_id = Some proposal,
            fr_parent_invocation = None,
            fr_authorization_ref = JDict [(''kind'', JStr ''legacy_plan_import'')],
            fr_execution_authority = None, fr_input = JDict [], fr_parameters = JDict [],
            fr_replay_of = None, fr_status = status, fr_terminal = Some terminal,
            fr_terminal_event_id = None,
            fr_error = (let e = jget_or terminal ''error'' JNull in if jtruthy e then Some e else None),
            fr_recovery_count = 0, fr_created_at = created_at, fr_updated_at = terminal_at,
            fr_terminal_at = Some terminal_at, fr_import_metadata = Some metadata, fr_checkpoint = None\<rparr>)
         rid conv ref db))"

definition require_object :: "bool \<Rightarrow> json \<Rightarrow> string \<Rightarrow> unit res" where
  "require_object nonempty v name =
     (if \<not> is_dict v \<or> (nonempty \<and> \<not> jtruthy v) then Inl (ValueError (name @ '' must be an object''))
      else Inr ())"

definition import_active ::
    "contracts \<Rightarrow> string \<Rightarrow> string \<Rightarrow> string \<Rightarrow> json \<Rightarrow> string \<Rightarrow> run_status \<Rightarrow> json \<Rightarrow> json \<Rightarrow>
     json \<Rightarrow> json \<Rightarrow> json \<Rightarrow> real \<Rightarrow> run_db \<Rightarrow> (flow_run option \<times> run_db) res" where
  "import_active ct run_id user conv flow_ref proposal status checkpoint metadata auth input parameters created_at db =
     bind_res (import_ids run_id user conv proposal) (\<lambda>(rid, user, conv, proposal).
     if status \<noteq> Waiting
     then Inl (ValueError ''active checkpoint import requires waiting status'')
     else
     bind_res (require_object True checkpoint ''checkpoint'') (\<lambda>_.
     bind_res (require_object True metadata ''import_metadata'') (\<lambda>_.
     bind_res (require_object True auth ''authorization_ref'') (\<lambda>_.
     bind_res (require_object False input ''input_snapshot'') (\<lambda>_.
     bind_res (require_object False parameters ''parameters'') (\<lambda>_.
     bind_res (flow_ref_of ct flow_ref) (\<lambda>ref.
       import_row
         (\<lambda>r. fr_user_id r = user \<and> fr_conversation_id r = conv \<and> jeq (fr_flow_ref r) ref \<and>
              fr_proposal_id r = Some proposal \<and> jeq (fr_authorization_ref r) auth \<and>
              jeq (fr_input r) input \<and> jeq (fr_parameters r) parameters \<and> fr_status r = status \<and>
              opt_jeq (fr_import_metadata r) (Some metadata) \<and> opt_jeq (fr_checkpoint r) (Some checkpoint) \<and>
              fr_created_at r = created_at)
         (\<lambda>gen. \<lparr>fr_run_id = rid, fr_user_id = user, fr_conversation_id = conv, fr_generation = gen,
            fr_flow_ref = ref, fr_instance_id = ''flowrun__legacy__'' @ rid, fr_proposal_id = Some proposal,
            fr_parent_invocation = None, fr_authorization_ref = auth,
            fr_execution_authority = None, fr_input = input, fr_parameters = parameters,
            fr_replay_of = None, fr_status = status, fr_terminal = None, fr_terminal_event_id = None,
            fr_error = None, fr_recovery_count = 0, fr_created_at = created_at, fr_updated_at = created_at,
            fr_terminal_at = None, fr_import_metadata = Some metadata, fr_checkpoint = Some checkpoint\<rparr>)
         rid conv ref db)))))))"

definition import_pending ::
    "contracts \<Rightarrow> string \<Rightarrow> string \<Rightarrow> string \<Rightarrow> json \<Rightarrow> string \<Rightarrow> json \<Rightarrow>
     json \<Rightarrow> json \<Rightarrow> json \<Rightarrow> real \<Rightarrow> run_db \<Rightarrow> (flow_run option \<times> run_db) res" where
  "import_pending ct run_id user conv flow_ref proposal metadata auth input parameters created_at db =
     bind_res (import_ids run_id user conv proposal) (\<lambda>(rid, user, conv, proposal).
     bind_res (require_object True metadata ''import_metadata'') (\<lambda>_.
     bind_res (require_object True auth ''authorization_ref'') (\<lambda>_.
     bind_res (require_object False input ''input_snapshot'') (\<lambda>_.
     bind_res (require_object False parameters ''parameters'') (\<lambda>_.
     bind_res (flow_ref_of ct flow_ref) (\<lambda>ref.
       import_row
         (\<lambda>r. fr_user_id r = user \<and> fr_conversation_id r = conv \<and> jeq (fr_flow_ref r) ref \<and>
              fr_proposal_id r = Some proposal \<and> jeq (fr_authorization_ref r) auth \<and>
              jeq (fr_input r) input \<and> jeq (fr_parameters r) parameters \<and> fr_status r = Created \<and>
              opt_jeq (fr_import_metadata r) (Some metadata) \<and> opt_jeq (fr_checkpoint r) None \<and>
              fr_created_at r = created_at)
         (\<lambda>gen. \<lparr>fr_run_id = rid, fr_user_id = user, fr_conversation_id = conv, fr_generation = gen,
            fr_flow_ref = ref, fr_instance_id = ''flowrun__legacy__'' @ rid, fr_proposal_id = Some proposal,
            fr_parent_invocation = None, fr_authorization_ref = auth,
            fr_execution_authority = None, fr_input = input, fr_parameters = parameters,
            fr_replay_of = None, fr_status = Created, fr_terminal = None, fr_terminal_event_id = None,
            fr_error = None, fr_recovery_count = 0, fr_created_at = created_at, fr_updated_at = created_at,
            fr_terminal_at = None, fr_import_metadata = Some metadata, fr_checkpoint = None\<rparr>)
         rid conv ref db))))))"

definition delete_imported :: "string \<Rightarrow> json \<Rightarrow> run_db \<Rightarrow> (bool \<times> run_db) res" where
  "delete_imported run_id metadata db =
     bind_res (required run_id ''run_id'') (\<lambda>rid.
     if \<not> is_dict metadata \<or> \<not> jtruthy metadata
     then Inl (ValueError ''import_metadata must be a non-empty object'')
     else (case find_run rid db of
         None \<Rightarrow> Inr (False, db)
       | Some r \<Rightarrow>
           if map_option json_dumps (fr_import_metadata r) \<noteq> Some (json_dumps metadata)
           then Inl (ValueError ''imported run provenance does not match'')
           else if rid \<in> set (map ob_run_id (db_outbox db))
           then Inl (ValueError ''imported run has a live outbox event'')
           else Inr (True, db\<lparr>db_runs := filter (\<lambda>r. fr_run_id r \<noteq> rid) (db_runs db)\<rparr>)))"

text \<open>\<open>ORDER BY created_at DESC LIMIT ?\<close>; a negative limit means no limit in SQLite.\<close>

definition fr_list :: "string \<Rightarrow> int \<Rightarrow> run_db \<Rightarrow> flow_run list" where
  "fr_list conv limit db =
     (let rows = sort_key_desc fr_created_at (filter (\<lambda>r. fr_conversation_id r = conv) (db_runs db))
      in if limit < 0 then rows else take (nat limit) rows)"

definition fr_transition ::
    "unit res \<Rightarrow> real \<Rightarrow> string \<Rightarrow> string \<Rightarrow> run_status \<Rightarrow> string \<Rightarrow> run_db \<Rightarrow>
     (flow_run option \<times> run_db) res" where
  "fr_transition before now fresh rid target err db =
     (case find_run rid db of
        None \<Rightarrow> Inl (KeyError rid)
      | Some row \<Rightarrow>
          if fr_status row = target then Inr (fr_get rid db, db)
          else if fr_status row \<in> set FLOW_RUN_TERMINALS \<or> target \<notin> set (TRANSITIONS (fr_status row))
          then Inl (ValueError ''invalid flow run transition'')
          else bind_res before (\<lambda>_.
            (let error = (if err = [] then None else Some (JStr err));
                 db1 = update_run rid (\<lambda>r. r\<lparr>fr_status := target, fr_error := error, fr_updated_at := now,
                   fr_terminal_at := (if target \<in> set FLOW_RUN_TERMINALS then Some now else fr_terminal_at r)\<rparr>) db
             in if target \<in> set FLOW_RUN_TERMINALS \<and> fr_terminal_event_id row = None then
                  (let event_id = ''fre_'' @ fresh;
                       db2 = update_run rid (\<lambda>r. r\<lparr>fr_terminal_event_id := Some event_id\<rparr>) db1
                   in bind_res (insert_event
                        \<lparr>ob_event_id = event_id, ob_run_id = rid, ob_status = target,
                         ob_terminal = fr_terminal row, ob_error = Some (JStr err), ob_delivered = False,
                         ob_attempts = 0, ob_created_at = now, ob_delivered_at = None\<rparr> db2)
                        (\<lambda>db3. Inr (fr_get rid db3, db3)))
                else Inr (fr_get rid db1, db1))))"

definition stage_terminal ::
    "unit res \<Rightarrow> real \<Rightarrow> string \<Rightarrow> string \<Rightarrow> json \<Rightarrow> run_db \<Rightarrow> (flow_run option \<times> run_db) res" where
  "stage_terminal before now fresh rid terminal db =
     (if \<not> is_dict terminal then Inl (TypeError ''terminal must be an object'')
      else if length (json_dumps terminal) > 1048576 then Inl (ValueError ''terminal exceeds 1 MiB'')
      else (case jget_or terminal ''artifacts'' (JList []) of
          JList artifacts \<Rightarrow>
            if length artifacts > 100
            then Inl (ValueError ''terminal artifacts must be an array of at most 100 items'')
            else (case find_run rid db of
              None \<Rightarrow> Inl (KeyError rid)
            | Some row \<Rightarrow>
                (case fr_terminal row of
                   Some staged \<Rightarrow>
                     if json_dumps staged \<noteq> json_dumps terminal
                     then Inl (ValueError ''flow run already has a different terminal'')
                     else Inr (fr_get rid db, db)
                 | None \<Rightarrow>
                     if fr_status row \<notin> {Running, Waiting}
                     then Inl (ValueError ''flow run terminal requires running or waiting status'')
                     else bind_res before (\<lambda>_.
                       (let event_id = ''fre_'' @ fresh;
                            db1 = update_run rid (\<lambda>r. r\<lparr>fr_status := Committing, fr_terminal := Some terminal,
                              fr_terminal_event_id := Some event_id, fr_updated_at := now\<rparr>) db
                        in bind_res (insert_event
                             \<lparr>ob_event_id = event_id, ob_run_id = rid, ob_status = Completed,
                              ob_terminal = Some terminal, ob_error = None, ob_delivered = False,
                              ob_attempts = 0, ob_created_at = now, ob_delivered_at = None\<rparr> db1)
                             (\<lambda>db2. Inr (fr_get rid db2, db2))))))
        | _ \<Rightarrow> Inl (ValueError ''terminal artifacts must be an array of at most 100 items'')))"

definition fr_commit ::
    "unit res \<Rightarrow> real \<Rightarrow> string \<Rightarrow> string \<Rightarrow> run_db \<Rightarrow> (flow_run option \<times> run_db) res" where
  "fr_commit before now fresh rid db =
     (case fr_get rid db of
        None \<Rightarrow> Inl (KeyError rid)
      | Some run \<Rightarrow>
          if fr_status run = Completed then Inr (Some run, db)
          else fr_transition before now fresh rid Completed [] db)"

definition has_pending_instance :: "string \<Rightarrow> run_db \<Rightarrow> bool" where
  "has_pending_instance inst db =
     (case find (\<lambda>r. fr_instance_id r = inst) (db_runs db) of
        None \<Rightarrow> False
      | Some r \<Rightarrow> fr_status r \<in> set FLOW_RUN_LIVE)"

definition list_recoverable :: "run_db \<Rightarrow> flow_run list" where
  "list_recoverable db =
     sort_key fr_created_at
       (filter (\<lambda>r. fr_status r \<in> {Starting, Running, Waiting, Committing}) (db_runs db))"

definition mark_recovered ::
    "unit res \<Rightarrow> real \<Rightarrow> string \<Rightarrow> run_db \<Rightarrow> (flow_run option \<times> run_db) res" where
  "mark_recovered before now rid db =
     (case find_run rid db of
        None \<Rightarrow> Inl (KeyError rid)
      | Some row \<Rightarrow>
          if fr_status row \<notin> {Starting, Running, Waiting}
          then Inl (ValueError ''flow run is not recoverable'')
          else bind_res before (\<lambda>_.
            (let db' = update_run rid (\<lambda>r. r\<lparr>fr_status := Starting,
                   fr_recovery_count := fr_recovery_count r + 1, fr_updated_at := now\<rparr>) db
             in Inr (fr_get rid db', db'))))"

definition pending_events :: "run_db \<Rightarrow> outbox_row list" where
  "pending_events db = sort_key ob_created_at (filter (\<lambda>e. \<not> ob_delivered e) (db_outbox db))"

definition acknowledge_event :: "real \<Rightarrow> string \<Rightarrow> run_db \<Rightarrow> run_db" where
  "acknowledge_event now eid db =
     db\<lparr>db_outbox := map (\<lambda>e. if ob_event_id e = eid
          then e\<lparr>ob_delivered := True, ob_attempts := ob_attempts e + 1, ob_delivered_at := Some now\<rparr>
          else e) (db_outbox db)\<rparr>"


subsection \<open>Row lookup\<close>

lemma find_run_Some_iff:
  assumes "distinct (map fr_run_id (db_runs db))"
  shows "find_run rid db = Some r \<longleftrightarrow> r \<in> set (db_runs db) \<and> fr_run_id r = rid"
proof
  assume "find_run rid db = Some r"
  then show "r \<in> set (db_runs db) \<and> fr_run_id r = rid"
    by (auto simp: find_run_def find_Some_iff)
next
  assume r: "r \<in> set (db_runs db) \<and> fr_run_id r = rid"
  then obtain r' where r': "find_run rid db = Some r'"
    by (cases "find_run rid db") (auto simp: find_run_def find_None_iff)
  then have "r' \<in> set (db_runs db) \<and> fr_run_id r' = rid"
    by (auto simp: find_run_def find_Some_iff)
  with r assms have "r' = r" by (metis distinct_map inj_on_eq_iff)
  with r' show "find_run rid db = Some r" by simp
qed

lemma find_run_None_iff: "find_run rid db = None \<longleftrightarrow> rid \<notin> set (map fr_run_id (db_runs db))"
  by (auto simp: find_run_def find_None_iff)

lemma update_run_ids:
  assumes "\<And>r. fr_run_id (f r) = fr_run_id r"
  shows "map fr_run_id (db_runs (update_run rid f db)) = map fr_run_id (db_runs db)"
  using assms by (simp add: update_run_def)

lemma update_run_outbox [simp]: "db_outbox (update_run rid f db) = db_outbox db"
  by (simp add: update_run_def)

lemma update_run_twice:
  assumes "\<And>r. fr_run_id (f r) = fr_run_id r"
  shows "update_run rid g (update_run rid f db) = update_run rid (g \<circ> f) db"
  using assms by (simp add: update_run_def o_def)

text \<open>Under a primary key, updating by id replaces one row.\<close>

definition set_row :: "flow_run \<Rightarrow> run_db \<Rightarrow> run_db" where
  "set_row r' db = update_run (fr_run_id r') (\<lambda>_. r') db"

lemma set_row_outbox [simp]: "db_outbox (set_row r' db) = db_outbox db"
  by (simp add: set_row_def)

lemma update_run_set_row:
  assumes "distinct (map fr_run_id (db_runs db))" and "find_run rid db = Some row"
    and "fr_run_id (f row) = fr_run_id row"
  shows "update_run rid f db = set_row (f row) db"
proof -
  have row: "row \<in> set (db_runs db)" "fr_run_id row = rid"
    using assms by (simp_all add: find_run_Some_iff)
  have "r = row" if "r \<in> set (db_runs db)" "fr_run_id r = rid" for r
    using that row assms(1) by (metis distinct_map inj_on_eq_iff)
  then have "map (\<lambda>r. if fr_run_id r = rid then f r else r) (db_runs db) =
      map (\<lambda>r. if fr_run_id r = rid then f row else r) (db_runs db)"
    by (intro map_cong) auto
  with row assms(3) show ?thesis by (simp add: set_row_def update_run_def)
qed

lemma set_row_ids:
  "map fr_run_id (db_runs (set_row r' db)) = map fr_run_id (db_runs db)"
  by (auto simp: set_row_def update_run_def)

lemma set_set_row:
  assumes "fr_run_id r' \<in> set (map fr_run_id (db_runs db))"
  shows "set (db_runs (set_row r' db)) = insert r' {r \<in> set (db_runs db). fr_run_id r \<noteq> fr_run_id r'}"
  using assms by (auto simp: set_row_def update_run_def)

lemma map_set_row:
  assumes "distinct (map fr_run_id (db_runs db))" and "find_run (fr_run_id r') db = Some row"
    and "g r' = g row"
  shows "map g (db_runs (set_row r' db)) = map g (db_runs db)"
proof -
  have row: "row \<in> set (db_runs db)" "fr_run_id row = fr_run_id r'"
    using assms by (simp_all add: find_run_Some_iff)
  have "r = row" if "r \<in> set (db_runs db)" "fr_run_id r = fr_run_id r'" for r
    using that row assms(1) by (metis distinct_map inj_on_eq_iff)
  then show ?thesis using assms(3) by (auto simp: set_row_def update_run_def)
qed

lemma find_run_set_row:
  assumes "find_run (fr_run_id r') db = Some row"
  shows "find_run rid (set_row r' db) = (if rid = fr_run_id r' then Some r' else find_run rid db)"
proof -
  have gen: "find (\<lambda>r. fr_run_id r = rid) (map (\<lambda>r. if fr_run_id r = fr_run_id r' then r' else r) xs) =
     (if rid = fr_run_id r' \<and> rid \<in> fr_run_id ` set xs then Some r' else find (\<lambda>r. fr_run_id r = rid) xs)" for xs
    by (induction xs) auto
  have "fr_run_id r' \<in> fr_run_id ` set (db_runs db)"
    using assms find_run_None_iff [of "fr_run_id r'" db] by auto
  then show ?thesis by (simp add: find_run_def set_row_def update_run_def gen)
qed

subsection \<open>What a transaction may write\<close>

text \<open>
  \<open>fr_write\<close> is the abstract contract of the store: a transaction leaves the tables alone, inserts
  a fresh run, deletes an imported run without an event, moves one live run along an edge of the
  state machine (with the recovery edge back to \<open>Starting\<close>), moves it and creates its terminal event
  in the same transaction, or acknowledges an event.
\<close>

definition may_move :: "run_status \<Rightarrow> run_status \<Rightarrow> bool" where
  "may_move s t \<longleftrightarrow> t \<in> set (TRANSITIONS s) \<or> (s \<in> {Starting, Running, Waiting} \<and> t = Starting)"

definition initial_run :: "flow_run \<Rightarrow> bool" where
  "initial_run r \<longleftrightarrow> fr_terminal_event_id r = None \<and> py_strip (fr_conversation_id r) = fr_conversation_id r \<and>
     fr_conversation_id r \<noteq> [] \<and>
     (fr_status r \<in> {Created, Waiting} \<and> fr_terminal r = None \<and> fr_terminal_at r = None \<or>
      fr_status r \<in> set FLOW_RUN_TERMINALS \<and> fr_terminal_at r \<noteq> None \<and> fr_import_metadata r \<noteq> None)"

inductive fr_write :: "run_db \<Rightarrow> run_db \<Rightarrow> bool" where
  w_none: "fr_write db db"
| w_insert: "initial_run r \<Longrightarrow> fr_generation r = next_generation (fr_conversation_id r) (fr_flow_ref r) db \<Longrightarrow>
    insert_run r db = Inr db' \<Longrightarrow> fr_write db db'"
| w_delete: "rid \<notin> set (map ob_run_id (db_outbox db)) \<Longrightarrow>
    (\<forall>r \<in> set (db_runs db). fr_run_id r = rid \<longrightarrow> fr_import_metadata r \<noteq> None) \<Longrightarrow>
    fr_write db (db\<lparr>db_runs := filter (\<lambda>r. fr_run_id r \<noteq> rid) (db_runs db)\<rparr>)"
| w_move: "find_run (fr_run_id row) db = Some row \<Longrightarrow> may_move (fr_status row) t \<Longrightarrow>
    (t \<in> set FLOW_RUN_TERMINALS \<longrightarrow> fr_terminal_event_id row \<noteq> None) \<Longrightarrow>
    fr_write db (set_row (row\<lparr>fr_status := t, fr_error := err, fr_updated_at := now,
      fr_terminal_at := (if t \<in> set FLOW_RUN_TERMINALS then Some now else fr_terminal_at row),
      fr_recovery_count := n\<rparr>) db)"
| w_event: "find_run (fr_run_id row) db = Some row \<Longrightarrow> fr_terminal_event_id row = None \<Longrightarrow>
    t \<in> set (TRANSITIONS (fr_status row)) \<Longrightarrow>
    t \<in> set FLOW_RUN_TERMINALS \<and> ob_status ev = t \<and> tm = fr_terminal row \<or> t = Committing \<and> ob_status ev = Completed \<Longrightarrow>
    ob_run_id ev = fr_run_id row \<Longrightarrow> ob_terminal ev = tm \<Longrightarrow> \<not> ob_delivered ev \<Longrightarrow>
    insert_event ev (set_row (row\<lparr>fr_status := t, fr_error := err, fr_updated_at := now, fr_terminal := tm,
      fr_terminal_at := (if t \<in> set FLOW_RUN_TERMINALS then Some now else fr_terminal_at row),
      fr_terminal_event_id := Some (ob_event_id ev)\<rparr>) db) = Inr db' \<Longrightarrow> fr_write db db'"
| w_ack: "fr_write db (acknowledge_event now eid db)"

text \<open>The invariant of the two tables.\<close>

definition run_ok :: "outbox_row list \<Rightarrow> flow_run \<Rightarrow> bool" where
  "run_ok outbox r \<longleftrightarrow> py_strip (fr_conversation_id r) = fr_conversation_id r \<and> fr_conversation_id r \<noteq> [] \<and>
     (fr_terminal_at r \<noteq> None \<longleftrightarrow> fr_status r \<in> set FLOW_RUN_TERMINALS) \<and>
     (case fr_terminal_event_id r of
        None \<Rightarrow> fr_run_id r \<notin> set (map ob_run_id outbox) \<and>
          (fr_status r \<in> set FLOW_RUN_TERMINALS \<longrightarrow> fr_import_metadata r \<noteq> None) \<and>
          (fr_status r \<in> set FLOW_RUN_LIVE \<longrightarrow> fr_terminal r = None)
      | Some eid \<Rightarrow>
          (fr_status r = Committing \<or> fr_status r \<in> set FLOW_RUN_TERMINALS) \<and>
          (\<exists>e \<in> set outbox. ob_event_id e = eid \<and> ob_run_id e = fr_run_id r \<and> ob_terminal e = fr_terminal r \<and>
             ob_status e = (if fr_status r = Committing then Completed else fr_status r)))"

definition fr_inv :: "run_db \<Rightarrow> bool" where
  "fr_inv db \<longleftrightarrow>
     distinct (map fr_run_id (db_runs db)) \<and> distinct (map fr_instance_id (db_runs db)) \<and>
     distinct (map (\<lambda>r. (fr_conversation_id r, json_dumps (fr_flow_ref r), fr_generation r)) (db_runs db)) \<and>
     distinct (map ob_event_id (db_outbox db)) \<and> distinct (map ob_run_id (db_outbox db)) \<and>
     set (map ob_run_id (db_outbox db)) \<subseteq> set (map fr_run_id (db_runs db)) \<and>
     (\<forall>r \<in> set (db_runs db). run_ok (db_outbox db) r)"

lemma fr_inv_empty: "fr_inv empty_db"
  by (simp add: fr_inv_def empty_db_def)

lemma fr_inv_ids: "fr_inv db \<Longrightarrow> distinct (map fr_run_id (db_runs db))"
  by (simp add: fr_inv_def)

lemmas status_lists = FLOW_RUN_TERMINALS_def FLOW_RUN_LIVE_def

lemma may_move_live: "may_move s t \<Longrightarrow> s \<notin> set FLOW_RUN_TERMINALS"
  by (cases s) (auto simp: may_move_def status_lists)

lemma live_iff_not_terminal: "s \<in> set FLOW_RUN_LIVE \<longleftrightarrow> s \<notin> set FLOW_RUN_TERMINALS"
  by (cases s) (auto simp: status_lists)

lemma next_generation_greater:
  assumes "r \<in> set (db_runs db)" "fr_conversation_id r = conv" "json_dumps (fr_flow_ref r) = json_dumps ref"
  shows "fr_generation r < next_generation conv ref db"
proof -
  have "x \<le> foldr max xs (0::int)" if "x \<in> set xs" for x xs
    using that by (induction xs) auto
  moreover have "fr_generation r \<in> set (map fr_generation (filter (\<lambda>r. fr_conversation_id r = conv \<and>
        json_dumps (fr_flow_ref r) = json_dumps ref) (db_runs db)))"
    using assms by auto
  ultimately show ?thesis unfolding next_generation_def by fastforce
qed

lemma insert_run_Inr:
  "insert_run r db = Inr db' \<longleftrightarrow>
   fr_run_id r \<notin> set (map fr_run_id (db_runs db)) \<and> fr_instance_id r \<notin> set (map fr_instance_id (db_runs db)) \<and>
   db' = db\<lparr>db_runs := db_runs db @ [r]\<rparr>"
  by (auto simp: insert_run_def)

lemma insert_event_Inr:
  "insert_event e db = Inr db' \<longleftrightarrow>
   ob_event_id e \<notin> set (map ob_event_id (db_outbox db)) \<and> ob_run_id e \<notin> set (map ob_run_id (db_outbox db)) \<and>
   db' = db\<lparr>db_outbox := db_outbox db @ [e]\<rparr>"
  by (auto simp: insert_event_def)

lemma initial_run_ok:
  "initial_run r \<Longrightarrow> fr_run_id r \<notin> set (map ob_run_id outbox) \<Longrightarrow> run_ok outbox r"
  by (auto simp: initial_run_def run_ok_def status_lists)

lemma run_ok_append:
  assumes "run_ok outbox r" "ob_run_id e \<noteq> fr_run_id r"
  shows "run_ok (outbox @ [e]) r"
  using assms by (fastforce simp: run_ok_def split: option.splits)

lemma fr_inv_insert:
  assumes inv: "fr_inv db" and r: "initial_run r"
    and gen: "fr_generation r = next_generation (fr_conversation_id r) (fr_flow_ref r) db"
    and ins: "insert_run r db = Inr db'"
  shows "fr_inv db'"
proof -
  let ?key = "\<lambda>r. (fr_conversation_id r, json_dumps (fr_flow_ref r), fr_generation r)"
  have "?key r \<notin> ?key ` set (db_runs db)"
    using next_generation_greater [of _ db "fr_conversation_id r" "fr_flow_ref r"] gen by force
  moreover have "fr_run_id r \<notin> set (map ob_run_id (db_outbox db))"
    using inv ins by (auto simp: fr_inv_def insert_run_Inr)
  then have "run_ok (db_outbox db) r" using r by (rule initial_run_ok [rotated])
  ultimately show ?thesis using inv ins
    by (auto simp: fr_inv_def insert_run_Inr)
qed

lemma fr_inv_delete:
  assumes inv: "fr_inv db" and "rid \<notin> set (map ob_run_id (db_outbox db))"
  shows "fr_inv (db\<lparr>db_runs := filter (\<lambda>r. fr_run_id r \<noteq> rid) (db_runs db)\<rparr>)"
proof -
  have "set (map ob_run_id (db_outbox db)) \<subseteq> set (map fr_run_id (filter (\<lambda>r. fr_run_id r \<noteq> rid) (db_runs db)))"
  proof
    fix x assume x: "x \<in> set (map ob_run_id (db_outbox db))"
    then have "x \<in> set (map fr_run_id (db_runs db))" using inv unfolding fr_inv_def by blast
    moreover have "x \<noteq> rid" using x assms(2) by blast
    ultimately show "x \<in> set (map fr_run_id (filter (\<lambda>r. fr_run_id r \<noteq> rid) (db_runs db)))" by auto
  qed
  then show ?thesis using inv by (simp add: fr_inv_def distinct_map_filter)
qed

lemma fr_inv_set_row:
  assumes inv: "fr_inv db" and find: "find_run (fr_run_id row') db = Some row"
    and same: "fr_instance_id row' = fr_instance_id row" "fr_conversation_id row' = fr_conversation_id row"
      "fr_flow_ref row' = fr_flow_ref row" "fr_generation row' = fr_generation row"
    and outbox: "outbox = db_outbox db \<or>
      (\<exists>e. outbox = db_outbox db @ [e] \<and> ob_run_id e = fr_run_id row' \<and>
           ob_event_id e \<notin> set (map ob_event_id (db_outbox db)) \<and> ob_run_id e \<notin> set (map ob_run_id (db_outbox db)))"
    and ok: "run_ok outbox row'"
  shows "fr_inv (set_row row' db\<lparr>db_outbox := outbox\<rparr>)"
proof -
  note dist = fr_inv_ids [OF inv]
  have mem: "fr_run_id row' \<in> set (map fr_run_id (db_runs db))"
    using find find_run_None_iff [of "fr_run_id row'" db] by auto
  have others: "run_ok outbox r" if "r \<in> set (db_runs db)" "fr_run_id r \<noteq> fr_run_id row'" for r
    using outbox
  proof
    assume "outbox = db_outbox db"
    then show ?thesis using inv that by (simp add: fr_inv_def)
  next
    assume "\<exists>e. outbox = db_outbox db @ [e] \<and> ob_run_id e = fr_run_id row' \<and>
       ob_event_id e \<notin> set (map ob_event_id (db_outbox db)) \<and> ob_run_id e \<notin> set (map ob_run_id (db_outbox db))"
    moreover have "run_ok (db_outbox db) r" using inv that by (simp add: fr_inv_def)
    ultimately show ?thesis using that by (metis run_ok_append)
  qed
  have "map (\<lambda>r. (fr_conversation_id r, json_dumps (fr_flow_ref r), fr_generation r)) (db_runs (set_row row' db)) =
     map (\<lambda>r. (fr_conversation_id r, json_dumps (fr_flow_ref r), fr_generation r)) (db_runs db)"
    using same by (intro map_set_row [OF dist find]) simp
  moreover have "map fr_instance_id (db_runs (set_row row' db)) = map fr_instance_id (db_runs db)"
    using same by (intro map_set_row [OF dist find]) simp
  moreover have "distinct (map ob_event_id outbox) \<and> distinct (map ob_run_id outbox) \<and>
      set (map ob_run_id outbox) \<subseteq> set (map fr_run_id (db_runs db))"
    using outbox inv mem unfolding fr_inv_def by force
  moreover have "\<forall>r \<in> set (db_runs (set_row row' db)). run_ok outbox r"
    using others ok by (simp add: set_set_row [OF mem])
  ultimately show ?thesis using inv by (simp add: fr_inv_def set_row_ids del: set_map)
qed

lemma fr_inv_move:
  assumes inv: "fr_inv db" and find: "find_run (fr_run_id row) db = Some row"
    and move: "may_move (fr_status row) t"
    and ev: "t \<in> set FLOW_RUN_TERMINALS \<longrightarrow> fr_terminal_event_id row \<noteq> None"
  shows "fr_inv (set_row (row\<lparr>fr_status := t, fr_error := err, fr_updated_at := now,
      fr_terminal_at := (if t \<in> set FLOW_RUN_TERMINALS then Some now else fr_terminal_at row),
      fr_recovery_count := n\<rparr>) db)" (is "fr_inv (set_row ?row' db)")
proof -
  have ok: "run_ok (db_outbox db) row"
    using inv find by (simp add: fr_inv_def find_run_Some_iff)
  have "run_ok (db_outbox db) ?row'"
  proof (cases "fr_terminal_event_id row")
    case None
    then show ?thesis using ok ev may_move_live [OF move]
      by (auto simp: run_ok_def live_iff_not_terminal)
  next
    case (Some eid)
    then have "fr_status row = Committing" "t = Completed"
      using ok move may_move_live [OF move] by (auto simp: run_ok_def may_move_def)
    then show ?thesis using ok Some by (auto simp: run_ok_def status_lists)
  qed
  then have "fr_inv (set_row ?row' db\<lparr>db_outbox := db_outbox db\<rparr>)"
    by (intro fr_inv_set_row [OF inv, of ?row' row]) (simp_all add: find)
  moreover have "set_row ?row' db\<lparr>db_outbox := db_outbox db\<rparr> = set_row ?row' db"
    by (rule run_db.equality) simp_all
  ultimately show ?thesis by (simp only:)
qed

lemma fr_inv_event:
  assumes inv: "fr_inv db" and find: "find_run (fr_run_id row) db = Some row"
    and "t \<in> set (TRANSITIONS (fr_status row))"
    and t: "t \<in> set FLOW_RUN_TERMINALS \<and> ob_status ev = t \<and> tm = fr_terminal row \<or> t = Committing \<and> ob_status ev = Completed"
    and ev: "ob_run_id ev = fr_run_id row" "ob_terminal ev = tm"
    and ins: "insert_event ev (set_row (row\<lparr>fr_status := t, fr_error := err, fr_updated_at := now, fr_terminal := tm,
      fr_terminal_at := (if t \<in> set FLOW_RUN_TERMINALS then Some now else fr_terminal_at row),
      fr_terminal_event_id := Some (ob_event_id ev)\<rparr>) db) = Inr db'"
      (is "insert_event ev (set_row ?row' db) = _")
  shows "fr_inv db'"
proof -
  have "run_ok (db_outbox db) row"
    using inv find by (simp add: fr_inv_def find_run_Some_iff)
  moreover have "fr_status row \<notin> set FLOW_RUN_TERMINALS"
    using assms(3) by (intro may_move_live [of _ t]) (simp add: may_move_def)
  ultimately have "run_ok (db_outbox db @ [ev]) ?row'"
    using t ev by (auto simp: run_ok_def status_lists)
  moreover have "db' = set_row ?row' db\<lparr>db_outbox := db_outbox db @ [ev]\<rparr>"
    using ins by (simp add: insert_event_Inr)
  moreover have "ob_event_id ev \<notin> set (map ob_event_id (db_outbox db))"
    "ob_run_id ev \<notin> set (map ob_run_id (db_outbox db))"
    using ins by (simp_all add: insert_event_Inr)
  ultimately show ?thesis
    by (simp only:) (rule fr_inv_set_row [OF inv, of ?row' row]; simp add: find ev(1))
qed

lemma ack_event_cols:
  "map ob_event_id (db_outbox (acknowledge_event now eid db)) = map ob_event_id (db_outbox db)"
  "map ob_run_id (db_outbox (acknowledge_event now eid db)) = map ob_run_id (db_outbox db)"
  "db_runs (acknowledge_event now eid db) = db_runs db"
  by (auto simp: acknowledge_event_def)

lemma run_ok_ack:
  assumes "run_ok (db_outbox db) r"
  shows "run_ok (db_outbox (acknowledge_event now eid db)) r"
proof -
  have "\<exists>e' \<in> set (db_outbox (acknowledge_event now eid db)). ob_event_id e' = ob_event_id e \<and>
      ob_run_id e' = ob_run_id e \<and> ob_terminal e' = ob_terminal e \<and> ob_status e' = ob_status e"
    if "e \<in> set (db_outbox db)" for e
    by (rule bexI [of _ "if ob_event_id e = eid
          then e\<lparr>ob_delivered := True, ob_attempts := ob_attempts e + 1, ob_delivered_at := Some now\<rparr> else e"])
      (use that in \<open>auto simp: acknowledge_event_def\<close>)
  then show ?thesis using assms
    unfolding run_ok_def ack_event_cols by (fastforce split: option.splits)
qed

lemma fr_inv_ack: "fr_inv db \<Longrightarrow> fr_inv (acknowledge_event now eid db)"
  unfolding fr_inv_def ack_event_cols by (blast intro: run_ok_ack)

lemma fr_write_inv:
  assumes "fr_write db db'" "fr_inv db"
  shows "fr_inv db'"
  using assms(1)
proof cases
  case w_none
  then show ?thesis using assms(2) by simp
next
  case (w_insert r)
  show ?thesis by (rule fr_inv_insert [OF assms(2) w_insert])
next
  case (w_delete rid)
  show ?thesis unfolding w_delete(1) by (rule fr_inv_delete [OF assms(2) w_delete(2)])
next
  case (w_move row t n now err)
  then show ?thesis using fr_inv_move [OF assms(2), where row = row and t = t] by (simp only:)
next
  case (w_event row t ev tm now err)
  show ?thesis by (rule fr_inv_event [OF assms(2) w_event(1,3-6,8)])
next
  case (w_ack now eid)
  then show ?thesis using fr_inv_ack [OF assms(2)] by (simp only:)
qed

text \<open>What a transaction may do to one stored run.\<close>

definition same_run :: "flow_run \<Rightarrow> flow_run \<Rightarrow> bool" where
  "same_run r r' \<longleftrightarrow> r' = r\<lparr>fr_status := fr_status r', fr_error := fr_error r', fr_updated_at := fr_updated_at r',
     fr_terminal := fr_terminal r', fr_terminal_at := fr_terminal_at r',
     fr_terminal_event_id := fr_terminal_event_id r', fr_recovery_count := fr_recovery_count r'\<rparr>"

lemma find_run_id: "find_run rid db = Some r \<Longrightarrow> fr_run_id r = rid"
  by (auto simp: find_run_def find_Some_iff)

lemma fr_write_row:
  assumes "fr_write db db'" "find_run rid db = Some r" "find_run rid db' = Some r'"
  shows "r' = r \<or> may_move (fr_status r) (fr_status r') \<and> same_run r r'"
  using assms(1)
proof cases
  case w_none
  then show ?thesis using assms by simp
next
  case (w_insert x)
  have "find P (xs @ [y]) = Some z" if "find P xs = Some z" for P xs and y z :: flow_run
    using that by (induction xs) (auto split: if_splits)
  then show ?thesis using assms(2,3) w_insert(3) by (auto simp: insert_run_Inr find_run_def)
next
  case (w_delete x)
  have del: "find (\<lambda>r. fr_run_id r = rid) (filter (\<lambda>r. fr_run_id r \<noteq> x) xs) =
      (if x = rid then None else find (\<lambda>r. fr_run_id r = rid) xs)" for xs
    by (induction xs) auto
  then show ?thesis using assms(2,3) w_delete(1) by (simp add: find_run_def del split: if_splits)
next
  case (w_move row t n now err)
  show ?thesis
  proof (cases "rid = fr_run_id row")
    case True
    then show ?thesis using assms(2,3) w_move(2,3) unfolding w_move(1)
      by (simp add: find_run_set_row [where row = row] same_run_def del: if_split) auto
  next
    case False
    then show ?thesis using assms(2,3) w_move(2) unfolding w_move(1)
      by (simp add: find_run_set_row [where row = row])
  qed
next
  case (w_event row t ev tm now err)
  let ?db = "set_row (row\<lparr>fr_status := t, fr_error := err, fr_updated_at := now, fr_terminal := tm,
      fr_terminal_at := (if t \<in> set FLOW_RUN_TERMINALS then Some now else fr_terminal_at row),
      fr_terminal_event_id := Some (ob_event_id ev)\<rparr>) db"
  have found: "find_run rid ?db = Some r'"
    using w_event(8) assms(3) by (simp add: insert_event_Inr find_run_def)
  show ?thesis
  proof (cases "rid = fr_run_id row")
    case True
    then show ?thesis using assms(2) found w_event(1,3)
      by (simp add: find_run_set_row [where row = row] same_run_def may_move_def del: if_split) auto
  next
    case False
    then show ?thesis using assms(2) found w_event(1)
      by (simp add: find_run_set_row [where row = row])
  qed
next
  case (w_ack now eid)
  then show ?thesis using assms by (simp add: find_run_def ack_event_cols)
qed

subsection \<open>Every operation keeps the contract\<close>

lemma import_row_write:
  assumes "import_row same row rid conv ref db = Inr (v, db')"
    and "\<And>g. initial_run (row g) \<and> fr_generation (row g) = g \<and>
      fr_conversation_id (row g) = conv \<and> fr_flow_ref (row g) = ref"
  shows "fr_write db db'"
  using assms
  by (auto simp: import_row_def bind_res_Inr_iff split: option.splits if_splits
      intro: w_none w_insert [where r = "row (next_generation conv ref db)"])

lemma fr_create_Inr:
  assumes "fr_create ct before now f1 f2 user conv ref auth authority input params proposal parent rep rid inst db
     = Inr (v, db')"
  obtains r where "insert_run r db = Inr db'" "initial_run r" "fr_status r = Created" "v = fr_get (fr_run_id r) db'"
    "fr_generation r = next_generation (fr_conversation_id r) (fr_flow_ref r) db"
    "flow_ref_of ct ref = Inr (fr_flow_ref r)" "required conv ''conversation_id'' = Inr (fr_conversation_id r)"
    "fr_input r = input" "fr_parameters r = params" "fr_replay_of r = or_none rep"
    "fr_proposal_id r = or_none proposal" "before = Inr ()"
  using assms
  by (auto simp: fr_create_def bind_res_Inr_iff Let_def initial_run_def required_Inr split: if_splits)

lemma fr_create_write:
  "fr_create ct before now f1 f2 user conv ref auth authority input params proposal parent rep rid inst db
     = Inr (v, db') \<Longrightarrow> fr_write db db'"
  by (erule fr_create_Inr) (blast intro: w_insert)

lemma import_terminal_write:
  "import_terminal ct rid user conv ref proposal st tm meta c t db = Inr (v, db') \<Longrightarrow> fr_write db db'"
  by (auto simp: import_terminal_def import_ids_def bind_res_Inr_iff initial_run_def required_Inr split: if_splits
      elim!: import_row_write)

lemma import_active_write:
  "import_active ct rid user conv ref proposal st ck meta auth input params c db = Inr (v, db') \<Longrightarrow> fr_write db db'"
  by (auto simp: import_active_def import_ids_def bind_res_Inr_iff initial_run_def required_Inr split: if_splits
      elim!: import_row_write)

lemma import_pending_write:
  "import_pending ct rid user conv ref proposal meta auth input params c db = Inr (v, db') \<Longrightarrow> fr_write db db'"
  by (auto simp: import_pending_def import_ids_def bind_res_Inr_iff initial_run_def required_Inr split: if_splits
      elim!: import_row_write)

lemma delete_imported_write:
  assumes "fr_inv db" "delete_imported rid meta db = Inr (v, db')"
  shows "fr_write db db'"
proof -
  have "fr_import_metadata r \<noteq> None"
    if "find_run x db = Some q" "fr_import_metadata q \<noteq> None" "r \<in> set (db_runs db)" "fr_run_id r = x" for x q r
  proof -
    have "find_run x db = Some r" using that(3,4) by (simp add: find_run_Some_iff [OF fr_inv_ids [OF assms(1)]])
    with that(1,2) show ?thesis by simp
  qed
  then show ?thesis using assms(2)
    by (auto simp: delete_imported_def bind_res_Inr_iff split: option.splits if_splits
        intro!: w_none w_delete)
qed

lemma fr_transition_write:
  assumes inv: "fr_inv db" and op: "fr_transition before now fresh rid t err db = Inr (v, db')"
  shows "fr_write db db'"
proof -
  obtain row where row: "find_run rid db = Some row"
    using op by (auto simp: fr_transition_def split: option.splits)
  have rid: "rid = fr_run_id row" using find_run_id [OF row] by simp
  have upd: "update_run rid f db = set_row (f row) db" if "fr_run_id (f row) = fr_run_id row" for f
    using update_run_set_row [where f = f, OF fr_inv_ids [OF inv] row] that by blast
  show ?thesis
  proof (cases "fr_status row = t")
    case True
    then show ?thesis using op row by (simp add: fr_transition_def w_none)
  next
    case False
    then have t: "t \<in> set (TRANSITIONS (fr_status row))"
      using op row by (auto simp: fr_transition_def split: if_splits)
    show ?thesis
    proof (cases "t \<in> set FLOW_RUN_TERMINALS \<and> fr_terminal_event_id row = None")
      case True
      let ?ev = "\<lparr>ob_event_id = ''fre_'' @ fresh, ob_run_id = rid, ob_status = t,
           ob_terminal = fr_terminal row, ob_error = Some (JStr err), ob_delivered = False,
           ob_attempts = 0, ob_created_at = now, ob_delivered_at = None\<rparr>"
      let ?err = "if err = [] then None else Some (JStr err)"
      have eq: "row\<lparr>fr_status := t, fr_error := e, fr_updated_at := now, fr_terminal := fr_terminal row,
           fr_terminal_at := Some now, fr_terminal_event_id := ev\<rparr> =
         row\<lparr>fr_status := t, fr_error := e, fr_updated_at := now, fr_terminal_at := Some now,
           fr_terminal_event_id := ev\<rparr>" for e ev
        by (cases row) simp
      have "insert_event ?ev (set_row (row\<lparr>fr_status := t, fr_error := ?err, fr_updated_at := now,
            fr_terminal := fr_terminal row,
            fr_terminal_at := (if t \<in> set FLOW_RUN_TERMINALS then Some now else fr_terminal_at row),
            fr_terminal_event_id := Some (ob_event_id ?ev)\<rparr>) db) = Inr db'"
      proof -
        have "insert_event ?ev (update_run rid (\<lambda>r. r\<lparr>fr_status := t, fr_error := ?err, fr_updated_at := now,
              fr_terminal_at := Some now, fr_terminal_event_id := Some (ob_event_id ?ev)\<rparr>) db) = Inr db'"
          using False op row True t
          by (simp add: fr_transition_def bind_res_Inr_iff Let_def update_run_twice o_def split: if_splits)
        then show ?thesis using True by (simp add: upd eq)
      qed
      then show ?thesis using row rid t True
        by (intro w_event [where row = row and t = t and ev = ?ev and tm = "fr_terminal row" and err = ?err]) simp_all
    next
      case no_event: False
      then have db': "db' = set_row (row\<lparr>fr_status := t, fr_error := (if err = [] then None else Some (JStr err)),
          fr_updated_at := now, fr_terminal_at := (if t \<in> set FLOW_RUN_TERMINALS then Some now else fr_terminal_at row),
          fr_recovery_count := fr_recovery_count row\<rparr>) db"
        using False op row by (auto simp: fr_transition_def bind_res_Inr_iff Let_def upd split: if_splits)
      show ?thesis unfolding db'
        by (rule w_move) (use row rid t no_event in \<open>simp_all add: may_move_def\<close>)
    qed
  qed
qed

lemma stage_terminal_write:
  assumes inv: "fr_inv db" and op: "stage_terminal before now fresh rid tm db = Inr (v, db')"
  shows "fr_write db db'"
proof -
  obtain row where row: "find_run rid db = Some row"
    using op by (auto simp: stage_terminal_def split: option.splits if_splits json.splits)
  have rid: "rid = fr_run_id row" using find_run_id [OF row] by simp
  have upd: "update_run rid f db = set_row (f row) db" if "fr_run_id (f row) = fr_run_id row" for f
    using update_run_set_row [where f = f, OF fr_inv_ids [OF inv] row] that by blast
  have ok: "run_ok (db_outbox db) row"
    using inv row by (simp add: fr_inv_def find_run_Some_iff)
  let ?ev = "\<lparr>ob_event_id = ''fre_'' @ fresh, ob_run_id = rid, ob_status = Completed,
       ob_terminal = Some tm, ob_error = None, ob_delivered = False,
       ob_attempts = 0, ob_created_at = now, ob_delivered_at = None\<rparr>"
  show ?thesis
  proof (cases "fr_terminal row")
    case (Some staged)
    then show ?thesis using op row
      by (auto simp: stage_terminal_def w_none split: option.splits if_splits json.splits)
  next
    case None
    have st: "fr_status row \<in> {Running, Waiting}" and
      ins: "insert_event ?ev (set_row (row\<lparr>fr_status := Committing, fr_terminal := Some tm,
         fr_terminal_event_id := Some (''fre_'' @ fresh), fr_updated_at := now\<rparr>) db) = Inr db'"
      using op row None
      by (auto simp: stage_terminal_def bind_res_Inr_iff Let_def upd split: option.splits if_splits json.splits)
    have none: "fr_terminal_event_id row = None"
      using ok st by (auto simp: run_ok_def status_lists split: option.splits)
    have "row\<lparr>fr_status := Committing, fr_terminal := Some tm,
         fr_terminal_event_id := Some (''fre_'' @ fresh), fr_updated_at := now\<rparr> =
        row\<lparr>fr_status := Committing, fr_error := fr_error row, fr_updated_at := now, fr_terminal := Some tm,
         fr_terminal_at := (if Committing \<in> set FLOW_RUN_TERMINALS then Some now else fr_terminal_at row),
         fr_terminal_event_id := Some (ob_event_id ?ev)\<rparr>"
      by (cases row) (simp add: status_lists)
    with ins show ?thesis using row rid st none
      by (intro w_event [where row = row and t = Committing and ev = ?ev and tm = "Some tm" and err = "fr_error row"]) auto
  qed
qed

lemma fr_commit_write:
  "fr_inv db \<Longrightarrow> fr_commit before now fresh rid db = Inr (v, db') \<Longrightarrow> fr_write db db'"
  by (auto simp: fr_commit_def w_none split: option.splits if_splits dest: fr_transition_write)

lemma mark_recovered_write:
  assumes inv: "fr_inv db" and op: "mark_recovered before now rid db = Inr (v, db')"
  shows "fr_write db db'"
proof -
  obtain row where row: "find_run rid db = Some row"
    using op by (auto simp: mark_recovered_def split: option.splits)
  have rid: "rid = fr_run_id row" using find_run_id [OF row] by simp
  have upd: "update_run rid f db = set_row (f row) db" if "fr_run_id (f row) = fr_run_id row" for f
    using update_run_set_row [where f = f, OF fr_inv_ids [OF inv] row] that by blast
  have eq: "row\<lparr>fr_status := Starting, fr_recovery_count := fr_recovery_count row + 1, fr_updated_at := now\<rparr> =
     row\<lparr>fr_status := Starting, fr_error := fr_error row, fr_updated_at := now,
       fr_terminal_at := (if Starting \<in> set FLOW_RUN_TERMINALS then Some now else fr_terminal_at row),
       fr_recovery_count := fr_recovery_count row + 1\<rparr>"
    by (cases row) (simp add: status_lists)
  have db': "db' = set_row (row\<lparr>fr_status := Starting,
      fr_recovery_count := fr_recovery_count row + 1, fr_updated_at := now\<rparr>) db"
    and "fr_status row \<in> {Starting, Running, Waiting}"
    using op row by (auto simp: mark_recovered_def bind_res_Inr_iff Let_def upd split: if_splits)
  then show ?thesis unfolding db' eq
    by (intro w_move) (use row rid in \<open>simp_all add: may_move_def status_lists\<close>)
qed

text \<open>One transaction of the store, whatever method runs it.\<close>

inductive fr_step :: "run_db \<Rightarrow> run_db \<Rightarrow> bool" where
  s_create: "fr_create ct before now f1 f2 user conv ref auth authority input params proposal parent rep rid inst db
     = Inr (v, db') \<Longrightarrow> fr_step db db'"
| s_import_terminal: "import_terminal ct rid user conv ref proposal st tm meta c t db = Inr (v, db') \<Longrightarrow> fr_step db db'"
| s_import_active: "import_active ct rid user conv ref proposal st ck meta auth input params c db = Inr (v, db') \<Longrightarrow>
     fr_step db db'"
| s_import_pending: "import_pending ct rid user conv ref proposal meta auth input params c db = Inr (v, db') \<Longrightarrow>
     fr_step db db'"
| s_delete: "delete_imported rid meta db = Inr (b, db') \<Longrightarrow> fr_step db db'"
| s_transition: "fr_transition before now fresh rid t err db = Inr (v, db') \<Longrightarrow> fr_step db db'"
| s_stage: "stage_terminal before now fresh rid tm db = Inr (v, db') \<Longrightarrow> fr_step db db'"
| s_commit: "fr_commit before now fresh rid db = Inr (v, db') \<Longrightarrow> fr_step db db'"
| s_recovered: "mark_recovered before now rid db = Inr (v, db') \<Longrightarrow> fr_step db db'"
| s_ack: "fr_step db (acknowledge_event now eid db)"

lemma fr_step_write:
  assumes "fr_step db db'" "fr_inv db"
  shows "fr_write db db'"
  using assms
  by (induction rule: fr_step.induct)
    (auto intro: fr_create_write import_terminal_write import_active_write import_pending_write
      delete_imported_write fr_transition_write stage_terminal_write fr_commit_write mark_recovered_write w_ack)

lemma fr_write_keeps:
  assumes "fr_write db db'" "find_run rid db = Some r" "fr_import_metadata r = None"
  obtains r' where "find_run rid db' = Some r'"
proof -
  have r: "r \<in> set (db_runs db)" "fr_run_id r = rid"
    using assms(2) by (auto simp: find_run_def find_Some_iff)
  then have mem: "rid \<in> set (map fr_run_id (db_runs db))" by auto
  have "rid \<in> set (map fr_run_id (db_runs db'))"
    using assms(1)
  proof cases
    case (w_delete x)
    then have "x \<noteq> rid" using r assms(3) by blast
    then show ?thesis using r w_delete(1) by auto
  qed (use mem in \<open>auto simp: insert_run_Inr insert_event_Inr set_row_ids ack_event_cols simp del: set_map\<close>)
  then show thesis using that find_run_None_iff [of rid db'] by (cases "find_run rid db'") auto
qed

text \<open>How the runs that were not imported evolve over any number of transactions.\<close>

definition fr_evolves :: "run_db \<Rightarrow> run_db \<Rightarrow> bool" where
  "fr_evolves db db' \<longleftrightarrow>
     (\<forall>rid r. find_run rid db = Some r \<longrightarrow> fr_import_metadata r = None \<longrightarrow>
        (\<exists>r'. find_run rid db' = Some r' \<and>
           (r' = r \<or> may_move\<^sup>+\<^sup>+ (fr_status r) (fr_status r') \<and> same_run r r')))"

lemma same_run_trans:
  assumes "same_run a b" "same_run b c"
  shows "same_run a c"
  using assms by (cases a; cases b; cases c) (simp add: same_run_def)

lemma same_run_metadata: "same_run a b \<Longrightarrow> fr_import_metadata b = fr_import_metadata a"
  by (cases a; cases b) (simp add: same_run_def)

lemma fr_evolves_trans:
  assumes "fr_evolves a b" "fr_evolves b c"
  shows "fr_evolves a c"
  unfolding fr_evolves_def
proof (intro allI impI)
  fix rid r assume r: "find_run rid a = Some r" "fr_import_metadata r = None"
  obtain r1 where r1: "find_run rid b = Some r1"
      "r1 = r \<or> may_move\<^sup>+\<^sup>+ (fr_status r) (fr_status r1) \<and> same_run r r1"
    using assms(1) r by (auto simp: fr_evolves_def)
  then have "fr_import_metadata r1 = None" using r same_run_metadata by auto
  then obtain r2 where r2: "find_run rid c = Some r2"
      "r2 = r1 \<or> may_move\<^sup>+\<^sup>+ (fr_status r1) (fr_status r2) \<and> same_run r1 r2"
    using assms(2) r1 by (auto simp: fr_evolves_def)
  from r1(2) r2(2) have "r2 = r \<or> may_move\<^sup>+\<^sup>+ (fr_status r) (fr_status r2) \<and> same_run r r2"
    by (meson same_run_trans tranclp_trans)
  with r2 show "\<exists>r'. find_run rid c = Some r' \<and>
      (r' = r \<or> may_move\<^sup>+\<^sup>+ (fr_status r) (fr_status r') \<and> same_run r r')" by blast
qed

lemma fr_write_evolves:
  assumes "fr_write db db'"
  shows "fr_evolves db db'"
  unfolding fr_evolves_def
proof (intro allI impI)
  fix rid r assume r: "find_run rid db = Some r" "fr_import_metadata r = None"
  obtain r' where "find_run rid db' = Some r'"
    using fr_write_keeps [OF assms r] by blast
  with fr_write_row [OF assms r(1) this]
  show "\<exists>r'. find_run rid db' = Some r' \<and>
      (r' = r \<or> may_move\<^sup>+\<^sup>+ (fr_status r) (fr_status r') \<and> same_run r r')"
    by (auto intro: tranclp.r_into_trancl)
qed

interpretation frs: evolving_store "\<lambda>db. db = empty_db" fr_step fr_inv fr_evolves
proof
  show "fr_inv s" if "s = empty_db" for s using that fr_inv_empty by simp
  show "fr_inv s'" if "fr_step s s'" "fr_inv s" for s s'
    using fr_write_inv fr_step_write that by blast
  show "fr_evolves s s" for s by (simp add: fr_evolves_def)
  show "fr_evolves s s''" if "fr_evolves s s'" "fr_evolves s' s''" for s s' s''
    using that by (rule fr_evolves_trans)
  show "fr_evolves s s'" if "fr_step s s'" "fr_inv s" for s s'
    using fr_write_evolves fr_step_write that by blast
qed

lemma terminal_no_move: "s \<in> set FLOW_RUN_TERMINALS \<Longrightarrow> \<not> may_move\<^sup>+\<^sup>+ s t"
  using may_move_live by (metis tranclpD)

lemma inv_event_of:
  assumes inv: "fr_inv db" and r: "r \<in> set (db_runs db)" and e: "e \<in> set (db_outbox db)" "ob_run_id e = fr_run_id r"
  shows "fr_terminal_event_id r = Some (ob_event_id e) \<and> ob_terminal e = fr_terminal r \<and>
     ob_status e = (if fr_status r = Committing then Completed else fr_status r)"
proof -
  have ok: "run_ok (db_outbox db) r" using inv r by (simp add: fr_inv_def)
  have "distinct (map ob_run_id (db_outbox db))" using inv by (simp add: fr_inv_def)
  then have uniq: "e' = e" if "e' \<in> set (db_outbox db)" "ob_run_id e' = fr_run_id r" for e'
    using that e by (metis distinct_map inj_on_eq_iff)
  show ?thesis
  proof (cases "fr_terminal_event_id r")
    case None
    moreover have "fr_run_id r \<in> ob_run_id ` set (db_outbox db)" using e by (metis imageI)
    ultimately show ?thesis using ok by (simp add: run_ok_def)
  next
    case (Some eid)
    then obtain e' where e': "e' \<in> set (db_outbox db)" "ob_event_id e' = eid" "ob_run_id e' = fr_run_id r"
        "ob_terminal e' = fr_terminal r" "ob_status e' = (if fr_status r = Committing then Completed else fr_status r)"
      using ok by (auto simp: run_ok_def)
    with uniq have "e' = e" by blast
    with e' Some show ?thesis by simp
  qed
qed

lemma distinct_filter_one:
  "distinct (map g xs) \<Longrightarrow> x \<in> set xs \<Longrightarrow> filter (\<lambda>y. g y = g x) xs = [x]"
  by (induction xs) (auto simp: filter_empty_conv image_iff)

subsection \<open>Properties of the run store\<close>

text \<open>A concrete run for the witnesses: created, then failed before it started.\<close>

definition demo_contracts :: contracts where
  "demo_contracts = \<lparr>parse_ref = (\<lambda>j. Inr (''flow'', j)), parse_authorization = Inr, parse_authority = Inr\<rparr>"

definition demo_run :: flow_run where
  "demo_run = \<lparr>fr_run_id = ''fr_a'', fr_user_id = ''u'', fr_conversation_id = ''c'', fr_generation = 1,
     fr_flow_ref = JDict [(''name'', JStr ''f'')], fr_instance_id = ''flowrun__b'', fr_proposal_id = Some ''p'',
     fr_parent_invocation = None, fr_authorization_ref = JDict [], fr_execution_authority = Some (JDict []),
     fr_input = JDict [], fr_parameters = JDict [], fr_replay_of = None, fr_status = Created, fr_terminal = None,
     fr_terminal_event_id = None, fr_error = None, fr_recovery_count = 0, fr_created_at = 0, fr_updated_at = 0,
     fr_terminal_at = None, fr_import_metadata = None, fr_checkpoint = None\<rparr>"

definition demo_failed :: flow_run where
  "demo_failed = demo_run\<lparr>fr_status := Failed, fr_error := Some (JStr ''boom''), fr_updated_at := 1,
     fr_terminal_at := Some 1, fr_terminal_event_id := Some ''fre_e''\<rparr>"

definition demo_event :: outbox_row where
  "demo_event = \<lparr>ob_event_id = ''fre_e'', ob_run_id = ''fr_a'', ob_status = Failed, ob_terminal = None,
     ob_error = Some (JStr ''boom''), ob_delivered = False, ob_attempts = 0, ob_created_at = 1, ob_delivered_at = None\<rparr>"

definition demo_db1 :: run_db where
  "demo_db1 = \<lparr>db_runs = [demo_run], db_outbox = []\<rparr>"

definition demo_db2 :: run_db where
  "demo_db2 = \<lparr>db_runs = [demo_failed], db_outbox = [demo_event]\<rparr>"

lemma demo_create:
  "fr_create demo_contracts (Inr ()) 0 ''a'' ''b'' ''u'' ''c'' (JDict [(''name'', JStr ''f'')]) (JDict []) (JDict [])
     (JDict []) (JDict []) ''p'' None [] [] [] empty_db = Inr (Some demo_run, demo_db1)"
proof -
  have "py_strip ''u'' = ''u''" "py_strip ''c'' = ''c''" by code_simp+
  then show ?thesis
    by (simp add: fr_create_def demo_contracts_def flow_ref_of_def is_dict_def required_def Let_def insert_run_def
        next_generation_def empty_db_def or_none_def fr_get_def find_run_def demo_run_def demo_db1_def)
qed

lemma demo_fail:
  "fr_transition (Inr ()) 1 ''e'' ''fr_a'' Failed ''boom'' demo_db1 = Inr (Some demo_failed, demo_db2)"
  by (simp add: fr_transition_def find_run_def demo_db1_def demo_db2_def demo_run_def demo_failed_def demo_event_def
      update_run_def insert_event_def Let_def status_lists fr_get_def)

lemma demo_reach: "fr_step\<^sup>*\<^sup>* empty_db demo_db1" "fr_step\<^sup>*\<^sup>* demo_db1 demo_db2" "fr_step\<^sup>*\<^sup>* empty_db demo_db2"
  using s_create [OF demo_create] s_transition [OF demo_fail] by auto

text \<open>
  C2: In every reachable state of the run store, whatever methods ran and raised before, a run in a
  terminal status that was not imported has exactly one outbox event; the event carries the run's
  terminal status and payload and the run names it.  A live run that is not committing has none.
\<close>

theorem terminal_event_exactly_once:
  assumes "fr_step\<^sup>*\<^sup>* empty_db db" and "r \<in> set (db_runs db)"
  shows "(fr_status r \<in> set FLOW_RUN_TERMINALS \<and> fr_import_metadata r = None \<longrightarrow>
      (\<exists>e. filter (\<lambda>e. ob_run_id e = fr_run_id r) (db_outbox db) = [e] \<and>
           fr_terminal_event_id r = Some (ob_event_id e) \<and> ob_status e = fr_status r \<and> ob_terminal e = fr_terminal r)) \<and>
    (fr_status r \<in> set FLOW_RUN_LIVE - {Committing} \<longrightarrow>
      filter (\<lambda>e. ob_run_id e = fr_run_id r) (db_outbox db) = [])"
proof -
  have inv: "fr_inv db" using frs.reachable_inv assms(1) by blast
  then have ok: "run_ok (db_outbox db) r" and dist: "distinct (map ob_run_id (db_outbox db))"
    using assms(2) by (simp_all add: fr_inv_def)
  have "\<exists>e. filter (\<lambda>e. ob_run_id e = fr_run_id r) (db_outbox db) = [e] \<and>
      fr_terminal_event_id r = Some (ob_event_id e) \<and> ob_status e = fr_status r \<and> ob_terminal e = fr_terminal r"
    if fin: "fr_status r \<in> set FLOW_RUN_TERMINALS" "fr_import_metadata r = None"
  proof -
    obtain e where e: "e \<in> set (db_outbox db)" "ob_run_id e = fr_run_id r"
      using ok fin by (auto simp: run_ok_def split: option.splits)
    moreover have "fr_status r \<noteq> Committing" using fin by (auto simp: status_lists)
    ultimately show ?thesis
      using inv_event_of [OF inv assms(2) e] distinct_filter_one [OF dist e(1)] by auto
  qed
  moreover have "filter (\<lambda>e. ob_run_id e = fr_run_id r) (db_outbox db) = []"
    if "fr_status r \<in> set FLOW_RUN_LIVE - {Committing}"
    using ok that by (auto simp: run_ok_def live_iff_not_terminal filter_empty_conv image_iff split: option.splits)
  ultimately show ?thesis by blast
qed

theorem terminal_event_exactly_once_witness:
  "\<exists>e. filter (\<lambda>e. ob_run_id e = ''fr_a'') (db_outbox demo_db2) = [e] \<and> ob_status e = Failed"
  using terminal_event_exactly_once [OF demo_reach(3), of demo_failed]
  by (auto simp: demo_db2_def demo_failed_def demo_run_def demo_event_def status_lists)

text \<open>
  A run that was not imported never disappears, and whatever transactions run, it is either the
  same row as before or it has moved along the edges of the transition table and the recovery edge
  with its identity, owner, flow version, input and generation unchanged.
\<close>

theorem run_lifecycle:
  assumes "fr_step\<^sup>*\<^sup>* empty_db db" and "fr_step\<^sup>*\<^sup>* db db'"
    and "find_run rid db = Some r" and "fr_import_metadata r = None"
  shows "\<exists>r'. find_run rid db' = Some r' \<and>
    (r' = r \<or> may_move\<^sup>+\<^sup>+ (fr_status r) (fr_status r') \<and> same_run r r')"
  using frs.reachable_rel [OF refl assms(1,2)] assms(3,4) by (simp add: fr_evolves_def)

theorem run_lifecycle_witness:
  "\<exists>r'. find_run ''fr_a'' demo_db2 = Some r' \<and>
     (r' = demo_run \<or> may_move\<^sup>+\<^sup>+ Created (fr_status r') \<and> same_run demo_run r')"
  using run_lifecycle [OF demo_reach(1,2), of "''fr_a''" demo_run]
  by (simp add: demo_db1_def demo_run_def find_run_def)

text \<open>
  Terminal is final: once a run that was not imported is completed, failed, cancelled, timed out
  or force stopped, no later transaction changes or removes its row.
\<close>

theorem terminal_run_final:
  assumes "fr_step\<^sup>*\<^sup>* empty_db db" and "fr_step\<^sup>*\<^sup>* db db'"
    and "find_run rid db = Some r" and "fr_status r \<in> set FLOW_RUN_TERMINALS" and "fr_import_metadata r = None"
  shows "find_run rid db' = Some r"
  using frs.reachable_rel [OF refl assms(1,2)] assms(3-5) terminal_no_move [OF assms(4)]
  by (auto simp: fr_evolves_def)

theorem terminal_run_final_witness:
  "find_run ''fr_a'' (acknowledge_event 2 ''fre_e'' demo_db2) = Some demo_failed"
proof -
  have "fr_step\<^sup>*\<^sup>* demo_db2 (acknowledge_event 2 ''fre_e'' demo_db2)" by (blast intro: s_ack)
  then show ?thesis
    using terminal_run_final [OF demo_reach(3), of _ "''fr_a''" demo_failed]
    by (simp add: demo_db2_def demo_failed_def demo_run_def find_run_def status_lists)
qed

text \<open>
  Generations number the runs of one flow version in one conversation: two different stored
  runs never share the triple of conversation, flow reference and generation, and a new run gets a
  generation above every stored one.
\<close>

theorem generations_distinct:
  assumes "fr_step\<^sup>*\<^sup>* empty_db db" and "r \<in> set (db_runs db)"
  shows "(\<forall>q \<in> set (db_runs db). q \<noteq> r \<and> fr_conversation_id q = fr_conversation_id r \<and>
       json_dumps (fr_flow_ref q) = json_dumps (fr_flow_ref r) \<longrightarrow> fr_generation q \<noteq> fr_generation r) \<and>
    fr_generation r < next_generation (fr_conversation_id r) (fr_flow_ref r) db"
proof -
  have "distinct (map (\<lambda>r. (fr_conversation_id r, json_dumps (fr_flow_ref r), fr_generation r)) (db_runs db))"
    using frs.reachable_inv [OF refl assms(1)] by (simp add: fr_inv_def)
  then have "inj_on (\<lambda>r. (fr_conversation_id r, json_dumps (fr_flow_ref r), fr_generation r)) (set (db_runs db))"
    by (simp add: distinct_map)
  with assms(2) next_generation_greater [OF assms(2) refl refl] show ?thesis
    by (auto dest: inj_onD)
qed

theorem generations_distinct_witness:
  "fr_generation demo_failed < next_generation ''c'' (JDict [(''name'', JStr ''f'')]) demo_db2"
  using generations_distinct [OF demo_reach(3), of demo_failed]
  by (simp add: demo_db2_def demo_failed_def demo_run_def)

end
