(* ===== verification/Flow_Coordinator.thy ===== *)
theory Flow_Coordinator
  imports Flow_Run
begin

section \<open>The coordinator of flow runs\<close>

text \<open>
  \<open>FlowRunCoordinator\<close> composes several transactions; what an earlier one wrote stays when a later
  one raises, so these operations return the database together with the result or the exception.
  \<open>before n\<close> and \<open>now n\<close> are what the \<open>n\<close>-th write of the operation sees of
  \<open>before_live_write\<close> and of the clock.  The executor is another component and a parameter:
  the outcomes of building it (\<open>ex_factory\<close>), of attaching, registering and feeding it
  (\<open>ex_launch\<close>), of starting it (\<open>ex_start\<close>) and of looking it up and stopping it (\<open>ex_stop\<close>).
  \<open>notify\<close> is the proposal store with its notification, given the state of the proposals: it
  says whether it returned or raised.
\<close>

record executor_env =
  ex_factory :: "unit res"
  ex_launch :: "unit res"
  ex_start :: "unit res"
  ex_stop :: "unit res"

type_synonym 'a run_tx = "'a res \<times> run_db"

definition tx :: "run_db \<Rightarrow> ('a \<times> run_db) res \<Rightarrow> 'a run_tx" where
  "tx db m = (case m of Inl e \<Rightarrow> (Inl e, db) | Inr (a, db') \<Rightarrow> (Inr a, db'))"

definition tx_then :: "'a run_tx \<Rightarrow> ('a \<Rightarrow> run_db \<Rightarrow> 'b run_tx) \<Rightarrow> 'b run_tx" where
  "tx_then m k = (case m of (Inl e, db) \<Rightarrow> (Inl e, db) | (Inr a, db) \<Rightarrow> k a db)"

text \<open>How a terminal event's status is projected onto the proposal.\<close>

definition proposal_status :: "run_status \<Rightarrow> run_status" where
  "proposal_status st =
     (if st = ForceStopped then Cancelled else if st = TimedOut then Failed else st)"

fun deliver_loop ::
    "(string \<Rightarrow> string \<Rightarrow> run_status \<Rightarrow> 'p \<Rightarrow> bool \<times> 'p) \<Rightarrow> real \<Rightarrow> outbox_row list \<Rightarrow>
     nat \<Rightarrow> 'p \<Rightarrow> run_db \<Rightarrow> nat \<times> 'p \<times> run_db" where
  "deliver_loop notify now [] delivered ps db = (delivered, ps, db)"
| "deliver_loop notify now (e # es) delivered ps db =
     (case fr_get (ob_run_id e) db of
        None \<Rightarrow> deliver_loop notify now es delivered ps db
      | Some run \<Rightarrow>
          (let (ok, ps') = (case fr_proposal_id run of
               None \<Rightarrow> (True, ps)
             | Some pid \<Rightarrow> if pid = [] then (True, ps)
                 else notify pid (fr_run_id run) (proposal_status (ob_status e)) ps)
           in if ok then deliver_loop notify now es (Suc delivered) ps' (acknowledge_event now (ob_event_id e) db)
              else deliver_loop notify now es delivered ps' db))"

definition deliver_pending_events ::
    "(string \<Rightarrow> string \<Rightarrow> run_status \<Rightarrow> 'p \<Rightarrow> bool \<times> 'p) \<Rightarrow> real \<Rightarrow> 'p \<Rightarrow> run_db \<Rightarrow> nat \<times> 'p \<times> run_db" where
  "deliver_pending_events notify now ps db = deliver_loop notify now (pending_events db) 0 ps db"

definition attach_and_start ::
    "contracts \<Rightarrow> executor_env \<Rightarrow> (nat \<Rightarrow> unit res) \<Rightarrow> (nat \<Rightarrow> real) \<Rightarrow> string \<Rightarrow> string \<Rightarrow> run_db \<Rightarrow> unit run_tx" where
  "attach_and_start ct ex before now fresh rid db =
     (case fr_get rid db of
        None \<Rightarrow> (Inl (KeyError rid), db)
      | Some run \<Rightarrow>
          tx_then (if fr_status run = Created
                   then tx db (fr_transition (before 0) (now 0) fresh rid Starting [] db)
                   else (Inr (Some run), db))
            (\<lambda>run db. case run of
               None \<Rightarrow> (Inl (TypeError ''run''), db)
             | Some run \<Rightarrow>
                 if fr_status run \<noteq> Starting
                 then (Inl (ValueError ''flow run must be created or starting''), db)
                 else (case bind_res (case fr_execution_authority run of
                             None \<Rightarrow> parse_authority ct JNull
                           | Some a \<Rightarrow> parse_authority ct a)
                         (\<lambda>_. bind_res (parse_authorization ct (fr_authorization_ref run)) (\<lambda>_. ex_launch ex)) of
                     Inl e \<Rightarrow> (Inl e, db)
                   | Inr _ \<Rightarrow>
                       tx_then (tx db (fr_transition (before 1) (now 1) fresh rid Running [] db))
                         (\<lambda>_ db. (ex_start ex, db)))))"

definition finalize ::
    "(string \<Rightarrow> string \<Rightarrow> run_status \<Rightarrow> 'p \<Rightarrow> bool \<times> 'p) \<Rightarrow> (nat \<Rightarrow> unit res) \<Rightarrow> (nat \<Rightarrow> real) \<Rightarrow> string \<Rightarrow> string \<Rightarrow>
     string \<Rightarrow> json \<Rightarrow> 'p \<Rightarrow> run_db \<Rightarrow> (flow_run option) res \<times> 'p \<times> run_db" where
  "finalize notify before now fresh1 fresh2 rid terminal ps db =
     (case tx_then (tx db (stage_terminal (before 0) (now 0) fresh1 rid terminal db))
             (\<lambda>_ db. tx db (fr_commit (before 1) (now 1) fresh2 rid db)) of
        (Inl e, db') \<Rightarrow> (Inl e, ps, db')
      | (Inr run, db') \<Rightarrow>
          (let (n, ps', db'') = deliver_pending_events notify (now 2) ps db' in (Inr run, ps', db'')))"

text \<open>The store writes of \<open>cancel\<close>: directly to \<open>ForceStopped\<close>, or through \<open>Cancelling\<close>.\<close>

definition cancel_writes ::
    "(nat \<Rightarrow> unit res) \<Rightarrow> (nat \<Rightarrow> real) \<Rightarrow> string \<Rightarrow> string \<Rightarrow> bool \<Rightarrow> string \<Rightarrow> flow_run \<Rightarrow> run_db \<Rightarrow>
     (flow_run option) run_tx" where
  "cancel_writes before now fresh rid force reason run db =
     (if force then tx db (fr_transition (before 0) (now 0) fresh rid ForceStopped reason db)
      else tx_then
        (if fr_status run \<noteq> Cancelling
         then tx db (fr_transition (before 0) (now 0) fresh rid Cancelling reason db)
         else (Inr (Some run), db))
        (\<lambda>_ db. tx db (fr_transition (before 1) (now 1) fresh rid Cancelled reason db)))"

definition cancel ::
    "(string \<Rightarrow> string \<Rightarrow> run_status \<Rightarrow> 'p \<Rightarrow> bool \<times> 'p) \<Rightarrow> executor_env \<Rightarrow> (nat \<Rightarrow> unit res) \<Rightarrow> (nat \<Rightarrow> real) \<Rightarrow>
     string \<Rightarrow> string \<Rightarrow> bool \<Rightarrow> string \<Rightarrow> 'p \<Rightarrow> run_db \<Rightarrow> (flow_run option) res \<times> 'p \<times> run_db" where
  "cancel notify ex before now fresh rid force reason ps db =
     (case fr_get rid db of
        None \<Rightarrow> (Inl (KeyError rid), ps, db)
      | Some run \<Rightarrow>
          if fr_status run \<in> set FLOW_RUN_TERMINALS then (Inr (Some run), ps, db)
          else
            (case tx_then (cancel_writes before now fresh rid force reason run db) (\<lambda>_ db. (ex_stop ex, db)) of
               (Inl e, db') \<Rightarrow> (Inl e, ps, db')
             | (Inr _, db') \<Rightarrow>
                 (let (n, ps', db'') = deliver_pending_events notify (now 2) ps db'
                  in (Inr (fr_get rid db''), ps', db''))))"

definition recover ::
    "contracts \<Rightarrow> executor_env \<Rightarrow> (nat \<Rightarrow> unit res) \<Rightarrow> (nat \<Rightarrow> real) \<Rightarrow> string \<Rightarrow> string \<Rightarrow> run_db \<Rightarrow> unit run_tx" where
  "recover ct ex before now fresh rid db =
     (case fr_get rid db of
        None \<Rightarrow> (Inl (KeyError rid), db)
      | Some run \<Rightarrow>
          if fr_status run = Committing
          then tx_then (tx db (fr_commit (before 0) (now 0) fresh rid db)) (\<lambda>_ db. (Inr (), db))
          else if fr_status run \<notin> {Starting, Running, Waiting}
          then (Inl (ValueError ''flow run is not recoverable''), db)
          else tx_then (tx db (mark_recovered (before 0) (now 0) rid db))
                 (\<lambda>_ db. tx_then (ex_factory ex, db)
                    (\<lambda>_ db. attach_and_start ct ex (\<lambda>n. before (Suc n)) (\<lambda>n. now (Suc n)) fresh rid db)))"

definition replay ::
    "contracts \<Rightarrow> unit res \<Rightarrow> real \<Rightarrow> string \<Rightarrow> string \<Rightarrow> string \<Rightarrow> json \<Rightarrow> json option \<Rightarrow> run_db \<Rightarrow>
     (flow_run option \<times> run_db) res" where
  "replay ct before now fresh_run fresh_inst rid auth_ref flow_ref db =
     (case fr_get rid db of
        None \<Rightarrow> Inl (KeyError rid)
      | Some original \<Rightarrow>
          if fr_status original \<notin> set FLOW_RUN_TERMINALS
          then Inl (ValueError ''only a terminal flow run can be replayed'')
          else
            (let exact = (case flow_ref of None \<Rightarrow> fr_flow_ref original
                          | Some r \<Rightarrow> if jtruthy r then r else fr_flow_ref original)
             in if \<not> jeq exact (fr_flow_ref original)
                then Inl (ValueError ''replay must use the same exact flow version'')
                else fr_create ct before now fresh_run fresh_inst
                  (fr_user_id original) (fr_conversation_id original) exact auth_ref
                  (case fr_execution_authority original of None \<Rightarrow> JNull | Some a \<Rightarrow> a)
                  (fr_input original) (fr_parameters original)
                  (case fr_proposal_id original of None \<Rightarrow> [] | Some p \<Rightarrow> p)
                  (fr_parent_invocation original) rid [] [] db))"

subsection \<open>Coordinator operations are sequences of transactions\<close>

abbreviation fr_steps :: "run_db \<Rightarrow> run_db \<Rightarrow> bool" where
  "fr_steps \<equiv> fr_step\<^sup>*\<^sup>*"

lemma tx_steps:
  assumes "\<And>v db'. m = Inr (v, db') \<Longrightarrow> fr_step db db'"
  shows "fr_steps db (snd (tx db m))"
  using assms by (auto simp: tx_def split: sum.splits)

lemma tx_then_steps:
  assumes "fr_steps db (snd m)" and "\<And>v db1. fr_steps db1 (snd (k v db1))"
  shows "fr_steps db (snd (tx_then m k))"
  using assms rtranclp_trans by (fastforce simp: tx_then_def split: sum.splits prod.splits)

lemma deliver_loop_steps: "fr_steps db (snd (snd (deliver_loop notify now es n ps db)))"
proof (induction es arbitrary: n ps db)
  case (Cons e es)
  have "fr_steps db (snd (snd (deliver_loop notify now es k qs (acknowledge_event now i db))))" for k qs i
    using Cons.IH by (blast intro: s_ack converse_rtranclp_into_rtranclp)
  then show ?case using Cons.IH by (auto simp: Let_def split: option.splits prod.splits)
qed simp

lemma deliver_steps: "fr_steps db (snd (snd (deliver_pending_events notify now ps db)))"
  by (simp add: deliver_pending_events_def deliver_loop_steps)

lemma attach_steps: "fr_steps db (snd (attach_and_start ct ex before now fresh rid db))"
  by (auto simp: attach_and_start_def split: option.splits sum.splits
      intro!: tx_then_steps tx_steps s_transition)

lemma recover_steps: "fr_steps db (snd (recover ct ex before now fresh rid db))"
  by (auto simp: recover_def split: option.splits
      intro!: tx_then_steps tx_steps attach_steps intro: s_commit s_recovered)

lemma finalize_steps: "fr_steps db (snd (snd (finalize notify before now f1 f2 rid tm ps db)))"
proof -
  let ?m = "tx_then (tx db (stage_terminal (before 0) (now 0) f1 rid tm db))
     (\<lambda>_ db. tx db (fr_commit (before 1) (now 1) f2 rid db))"
  have "fr_steps db (snd ?m)"
    by (auto intro!: tx_then_steps tx_steps intro: s_stage s_commit)
  then show ?thesis
    using deliver_steps [of "snd ?m" notify "now 2" ps]
    by (auto simp: finalize_def split: prod.splits sum.splits intro: rtranclp_trans)
qed

lemma cancel_steps: "fr_steps db (snd (snd (cancel notify ex before now fresh rid force reason ps db)))"
proof -
  define m where "m run = tx_then (cancel_writes before now fresh rid force reason run db)
     (\<lambda>_ db. (ex_stop ex, db))" for run
  have "fr_steps db (snd (m run))" for run
    by (auto simp: m_def cancel_writes_def intro!: tx_then_steps tx_steps intro: s_transition)
  then have "fr_steps db (snd (snd (deliver_pending_events notify (now 2) ps (snd (m run)))))" for run
    using deliver_steps rtranclp_trans by metis
  then show ?thesis
    using \<open>\<And>run. fr_steps db (snd (m run))\<close>
    by (auto simp: cancel_def simp flip: m_def split: option.splits prod.splits sum.splits)
       (metis snd_conv)+
qed

lemma replay_steps: "replay ct before now f1 f2 rid auth ref db = Inr (v, db') \<Longrightarrow> fr_step db db'"
  by (auto simp: replay_def Let_def split: option.splits if_splits intro: s_create)

subsection \<open>Successful transitions\<close>

lemma live_no_event:
  assumes inv: "fr_inv db" and row: "find_run rid db = Some row"
    and live: "fr_status row \<in> set FLOW_RUN_LIVE - {Committing}"
  shows "fr_terminal_event_id row = None" "rid \<notin> set (map ob_run_id (db_outbox db))"
proof -
  have "run_ok (db_outbox db) row"
    using inv row by (simp add: fr_inv_def find_run_Some_iff)
  then show "fr_terminal_event_id row = None" "rid \<notin> set (map ob_run_id (db_outbox db))"
    using live find_run_id [OF row] by (auto simp: run_ok_def live_iff_not_terminal split: option.splits)
qed

lemma find_run_update_run:
  assumes "find_run rid db = Some row" and "\<And>r. fr_run_id (f r) = fr_run_id r"
  shows "find_run rid (update_run rid f db) = Some (f row)"
proof -
  have "find (\<lambda>r. fr_run_id r = rid) (map (\<lambda>r. if fr_run_id r = rid then f r else r) xs) =
      map_option f (find (\<lambda>r. fr_run_id r = rid) xs)" for xs
    using assms(2) by (induction xs) auto
  then show ?thesis using assms(1) by (simp add: find_run_def update_run_def)
qed

lemma transition_live_ok:
  assumes "find_run rid db = Some row" and "fr_status row \<noteq> t" and "t \<in> set (TRANSITIONS (fr_status row))"
    and "t \<notin> set FLOW_RUN_TERMINALS"
  obtains row' db' where "fr_transition (Inr ()) now fresh rid t err db = Inr (Some row', db')"
    "find_run rid db' = Some row'" "fr_status row' = t" "db_outbox db' = db_outbox db"
proof -
  have live: "fr_status row \<notin> set FLOW_RUN_TERMINALS"
    using assms(3) by (intro may_move_live [of _ t]) (simp add: may_move_def)
  let ?f = "\<lambda>r. r\<lparr>fr_status := t, fr_error := (if err = [] then None else Some (JStr err)), fr_updated_at := now\<rparr>"
  have eq: "r\<lparr>fr_status := t, fr_error := e, fr_updated_at := now, fr_terminal_at := fr_terminal_at r\<rparr> =
      r\<lparr>fr_status := t, fr_error := e, fr_updated_at := now\<rparr>" for r :: flow_run and e
    by (cases r) simp
  have found: "find_run rid (update_run rid ?f db) = Some (?f row)"
    by (rule find_run_update_run [OF assms(1)]) simp
  have "fr_transition (Inr ()) now fresh rid t err db = Inr (Some (?f row), update_run rid ?f db)"
    using assms live found by (auto simp: fr_transition_def Let_def fr_get_def eq)
  from this found show thesis by (rule that) simp_all
qed

lemma transition_terminal_ok:
  assumes row: "find_run rid db = Some row" and t: "t \<in> set (TRANSITIONS (fr_status row))" "t \<in> set FLOW_RUN_TERMINALS"
    and fresh: "fr_terminal_event_id row = None" "''fre_'' @ fresh \<notin> set (map ob_event_id (db_outbox db))"
      "rid \<notin> set (map ob_run_id (db_outbox db))"
  obtains row' db' where "fr_transition (Inr ()) now fresh rid t err db = Inr (Some row', db')"
    "find_run rid db' = Some row'" "fr_status row' = t" "fr_terminal_event_id row' = Some (''fre_'' @ fresh)"
proof -
  have live: "fr_status row \<notin> set FLOW_RUN_TERMINALS"
    using t(1) by (intro may_move_live [of _ t]) (simp add: may_move_def)
  let ?f = "\<lambda>r. r\<lparr>fr_status := t, fr_error := (if err = [] then None else Some (JStr err)), fr_updated_at := now,
      fr_terminal_at := Some now, fr_terminal_event_id := Some (''fre_'' @ fresh)\<rparr>"
  let ?db = "update_run rid ?f db"
  let ?ev = "\<lparr>ob_event_id = ''fre_'' @ fresh, ob_run_id = rid, ob_status = t,
       ob_terminal = fr_terminal row, ob_error = Some (JStr err), ob_delivered = False,
       ob_attempts = 0, ob_created_at = now, ob_delivered_at = None\<rparr>"
  let ?db' = "?db\<lparr>db_outbox := db_outbox db @ [?ev]\<rparr>"
  have "find_run rid ?db = Some (?f row)"
    by (rule find_run_update_run [OF row]) simp
  then have found: "find_run rid ?db' = Some (?f row)" by (simp add: find_run_def)
  have "fr_status row \<noteq> t" using t(2) live by blast
  then have "fr_transition (Inr ()) now fresh rid t err db = Inr (fr_get rid ?db', ?db')"
    using row t fresh live
    by (simp add: fr_transition_def Let_def insert_event_def update_run_twice o_def del: set_map)
  with found show thesis by (intro that [of "?f row" ?db']) (simp_all add: fr_get_def)
qed

subsection \<open>Delivery of terminal events\<close>

text \<open>Whether projecting an event onto its proposal returns, given the state of the proposals.\<close>

definition projects ::
    "(string \<Rightarrow> string \<Rightarrow> run_status \<Rightarrow> 'p \<Rightarrow> bool \<times> 'p) \<Rightarrow> run_db \<Rightarrow> outbox_row \<Rightarrow> 'p \<Rightarrow> bool" where
  "projects notify db e ps = (case find_run (ob_run_id e) db of
       None \<Rightarrow> False
     | Some r \<Rightarrow> (case fr_proposal_id r of
           None \<Rightarrow> True
         | Some pid \<Rightarrow> pid = [] \<or> fst (notify pid (fr_run_id r) (proposal_status (ob_status e)) ps)))"

definition ack_row :: "real \<Rightarrow> outbox_row \<Rightarrow> outbox_row" where
  "ack_row now e = e\<lparr>ob_delivered := True, ob_attempts := ob_attempts e + 1, ob_delivered_at := Some now\<rparr>"

definition ack_all :: "real \<Rightarrow> string set \<Rightarrow> run_db \<Rightarrow> run_db" where
  "ack_all now ids db = db\<lparr>db_outbox := map (\<lambda>e. if ob_event_id e \<in> ids then ack_row now e else e) (db_outbox db)\<rparr>"

lemma ack_row_id [simp]: "ob_event_id (ack_row now e) = ob_event_id e"
  by (simp add: ack_row_def)

lemma find_run_ack [simp]: "find_run rid (acknowledge_event now eid db) = find_run rid db"
  by (simp add: find_run_def ack_event_cols)

lemma projects_ack [simp]: "projects notify (acknowledge_event now eid db) = projects notify db"
  by (simp add: projects_def fun_eq_iff)

lemma ack_all_acknowledge:
  assumes "eid \<notin> ids"
  shows "ack_all now ids (acknowledge_event now eid db) = ack_all now (insert eid ids) db"
  using assms by (auto simp: ack_all_def acknowledge_event_def ack_row_def)

lemma deliver_loop_Cons:
  assumes "find_run (ob_run_id e) db \<noteq> None"
  obtains ps' where
    "deliver_loop notify now (e # es) n ps db =
      (if projects notify db e ps
       then deliver_loop notify now es (Suc n) ps' (acknowledge_event now (ob_event_id e) db)
       else deliver_loop notify now es n ps' db)"
proof -
  obtain r where r: "find_run (ob_run_id e) db = Some r" using assms by blast
  let ?m = "case fr_proposal_id r of None \<Rightarrow> (True, ps)
     | Some pid \<Rightarrow> if pid = [] then (True, ps) else notify pid (fr_run_id r) (proposal_status (ob_status e)) ps"
  have "fst ?m = projects notify db e ps" using r by (simp add: projects_def split: option.splits)
  then show thesis using r by (intro that [of "snd ?m"]) (auto simp: fr_get_def Let_def split_beta)
qed

lemma deliver_loop_acks:
  assumes "deliver_loop notify now es n ps db = (n', ps', db')" and "distinct (map ob_event_id es)"
    and "\<forall>e \<in> set es. find_run (ob_run_id e) db \<noteq> None"
  shows "\<exists>A \<subseteq> set es. db' = ack_all now (ob_event_id ` A) db \<and> n' = n + card A \<and>
    (\<forall>e \<in> A. \<exists>q. projects notify db e q) \<and> (\<forall>e \<in> set es - A. \<exists>q. \<not> projects notify db e q)"
  using assms
proof (induction es arbitrary: n ps db)
  case Nil
  have "ack_all now {} db = db" by (simp add: ack_all_def)
  then show ?case using Nil by simp
next
  case (Cons e es)
  obtain qs where loop: "deliver_loop notify now (e # es) n ps db =
      (if projects notify db e ps
       then deliver_loop notify now es (Suc n) qs (acknowledge_event now (ob_event_id e) db)
       else deliver_loop notify now es n qs db)"
    using Cons.prems(3) deliver_loop_Cons [of e db] by (metis list.set_intros(1))
  show ?case
  proof (cases "projects notify db e ps")
    case True
    obtain A where A: "A \<subseteq> set es"
        "db' = ack_all now (ob_event_id ` A) (acknowledge_event now (ob_event_id e) db)" "n' = Suc n + card A"
        "\<forall>e \<in> A. \<exists>q. projects notify db e q" "\<forall>e \<in> set es - A. \<exists>q. \<not> projects notify db e q"
      using Cons.IH [of "Suc n" qs "acknowledge_event now (ob_event_id e) db"] Cons.prems loop True by auto
    have new: "ob_event_id e \<notin> ob_event_id ` A" "e \<notin> A" "finite A"
      using A(1) Cons.prems(2) finite_subset by auto
    then have "db' = ack_all now (ob_event_id ` insert e A) db" using A(2) by (simp add: ack_all_acknowledge)
    with A new True show ?thesis by (intro exI [of _ "insert e A"]) auto
  next
    case False
    obtain A where "A \<subseteq> set es" "db' = ack_all now (ob_event_id ` A) db" "n' = n + card A"
        "\<forall>e \<in> A. \<exists>q. projects notify db e q" "\<forall>e \<in> set es - A. \<exists>q. \<not> projects notify db e q"
      using Cons.IH [of n qs db] Cons.prems loop False by auto
    with False show ?thesis by (intro exI [of _ A]) auto
  qed
qed

lemma pending_after_ack_all:
  assumes dist: "distinct (map ob_event_id (db_outbox db))" and A: "A \<subseteq> set (pending_events db)"
  shows "set (pending_events (ack_all now (ob_event_id ` A) db)) = set (pending_events db) - A"
    and "length (pending_events (ack_all now (ob_event_id ` A) db)) + card A = length (pending_events db)"
proof -
  have inA: "ob_event_id e \<in> ob_event_id ` A \<longleftrightarrow> e \<in> A" if "e \<in> set (db_outbox db)" for e
    using that dist A by (auto simp: pending_events_def distinct_map inj_on_def)
  have map_eq: "db_outbox (ack_all now (ob_event_id ` A) db) =
      map (\<lambda>e. if e \<in> A then ack_row now e else e) (db_outbox db)"
    using inA by (simp add: ack_all_def)
  have step: "filter (\<lambda>e. \<not> ob_delivered e) (map (\<lambda>e. if e \<in> A then ack_row now e else e) xs) =
      filter (\<lambda>e. \<not> ob_delivered e \<and> e \<notin> A) xs" for xs
    by (induction xs) (auto simp: ack_row_def)
  show "set (pending_events (ack_all now (ob_event_id ` A) db)) = set (pending_events db) - A"
    by (auto simp: pending_events_def map_eq step)
  have "distinct (db_outbox db)" using dist by (simp add: distinct_map)
  moreover have "{e \<in> set (db_outbox db). \<not> ob_delivered e \<and> e \<notin> A} = set (pending_events db) - A"
    by (auto simp: pending_events_def)
  ultimately have "length (pending_events (ack_all now (ob_event_id ` A) db)) = card (set (pending_events db) - A)"
    by (simp add: pending_events_def map_eq step distinct_length_filter Collect_conj_eq Int_commute)
  moreover have "card (set (pending_events db)) = length (pending_events db)"
    using \<open>distinct (db_outbox db)\<close> by (intro distinct_card) (simp add: pending_events_def)
  ultimately show "length (pending_events (ack_all now (ob_event_id ` A) db)) + card A = length (pending_events db)"
    using A card_mono [OF _ A] by (simp add: card_Diff_subset finite_subset [OF A])
qed

subsection \<open>Cancellation\<close>

lemma deliver_keeps_runs: "db_runs (snd (snd (deliver_pending_events notify now ps db))) = db_runs db"
proof -
  have "db_runs (snd (snd (deliver_loop notify now es n q d))) = db_runs d" for es n q d
    by (induction es arbitrary: n q d) (auto simp: ack_event_cols Let_def split: option.splits prod.splits)
  then show ?thesis by (simp add: deliver_pending_events_def)
qed

lemma cancel_step:
  assumes inv: "fr_inv db" and row: "find_run rid db = Some run"
    and live: "fr_status run \<in> set FLOW_RUN_LIVE - {Committing}"
    and fresh: "''fre_'' @ fresh \<notin> set (map ob_event_id (db_outbox db))"
    and "t = (if force then ForceStopped else Cancelled)" and "force \<or> fr_status run = Cancelling"
  obtains run' db' where "fr_transition (Inr ()) now fresh rid t reason db = Inr (Some run', db')"
    "find_run rid db' = Some run'" "fr_status run' = t" "fr_terminal_event_id run' = Some (''fre_'' @ fresh)"
proof -
  have "t \<in> set (TRANSITIONS (fr_status run))" "t \<in> set FLOW_RUN_TERMINALS"
    using live assms(5,6) by (auto simp: status_lists)
  with row live_no_event [OF inv row live] fresh show thesis
    using transition_terminal_ok that by blast
qed

lemma cancel_moves:
  assumes inv: "fr_inv db" and row: "find_run rid db = Some run"
    and live: "fr_status run \<in> set FLOW_RUN_LIVE - {Committing}"
    and fresh: "''fre_'' @ fresh \<notin> set (map ob_event_id (db_outbox db))"
  obtains run' db' where
    "cancel_writes (\<lambda>_. Inr ()) now fresh rid force reason run db = (Inr (Some run'), db')"
    "find_run rid db' = Some run'" "fr_status run' = (if force then ForceStopped else Cancelled)"
    "fr_terminal_event_id run' = Some (''fre_'' @ fresh)"
proof -
  consider "force" | "\<not> force" "fr_status run = Cancelling" | "\<not> force" "fr_status run \<noteq> Cancelling" by blast
  then show thesis
  proof cases
    case 1
    obtain r1 db1 where "fr_transition (Inr ()) (now 0) fresh rid ForceStopped reason db = Inr (Some r1, db1)"
        "find_run rid db1 = Some r1" "fr_status r1 = ForceStopped" "fr_terminal_event_id r1 = Some (''fre_'' @ fresh)"
      by (rule cancel_step [OF inv row live fresh, where t = ForceStopped and force = force]) (use 1 in simp_all)
    with 1 show thesis by (intro that [of r1 db1]) (simp_all add: cancel_writes_def tx_def)
  next
    case 2
    obtain r1 db1 where "fr_transition (Inr ()) (now 1) fresh rid Cancelled reason db = Inr (Some r1, db1)"
        "find_run rid db1 = Some r1" "fr_status r1 = Cancelled" "fr_terminal_event_id r1 = Some (''fre_'' @ fresh)"
      by (rule cancel_step [OF inv row live fresh, where t = Cancelled and force = force]) (use 2 in simp_all)
    with 2 show thesis by (intro that [of r1 db1]) (simp_all add: cancel_writes_def tx_def tx_then_def)
  next
    case 3
    have "Cancelling \<in> set (TRANSITIONS (fr_status run))"
      using live 3 by (auto simp: FLOW_RUN_LIVE_def)
    then obtain r1 db1 where t1: "fr_transition (Inr ()) (now 0) fresh rid Cancelling reason db = Inr (Some r1, db1)"
        "find_run rid db1 = Some r1" "fr_status r1 = Cancelling" "db_outbox db1 = db_outbox db"
      by (rule transition_live_ok [OF row 3(2)]) (simp_all add: FLOW_RUN_TERMINALS_def)
    have inv1: "fr_inv db1" using inv fr_transition_write t1(1) fr_write_inv by blast
    obtain r2 db2 where "fr_transition (Inr ()) (now 1) fresh rid Cancelled reason db1 = Inr (Some r2, db2)"
        "find_run rid db2 = Some r2" "fr_status r2 = Cancelled" "fr_terminal_event_id r2 = Some (''fre_'' @ fresh)"
      by (rule cancel_step [OF inv1 t1(2), where t = Cancelled and force = force])
        (use 3 t1 fresh in \<open>simp_all add: FLOW_RUN_LIVE_def\<close>)
    with 3 t1 show thesis by (intro that [of r2 db2]) (simp_all add: cancel_writes_def tx_def tx_then_def)
  qed
qed

subsection \<open>Properties of the coordinator\<close>


text \<open>
  Cancelling a run that is live and not committing, when the writes are allowed and the
  executor stops, ends with the run cancelled (force stopped when forced) and with its terminal
  event; cancelling a committing run raises and changes nothing; a terminal run is returned as it is.
\<close>

theorem cancel_outcome:
  assumes "fr_step\<^sup>*\<^sup>* empty_db db" and row: "find_run rid db = Some run"
    and ok: "before = (\<lambda>_. Inr ())" "ex_stop ex = Inr ()" and fresh: "''fre_'' @ fresh \<notin> set (map ob_event_id (db_outbox db))"
  shows "(fr_status run \<in> set FLOW_RUN_LIVE - {Committing} \<longrightarrow>
      (\<exists>run' ps' db'. cancel notify ex before now fresh rid force reason ps db = (Inr (Some run'), ps', db') \<and>
         find_run rid db' = Some run' \<and> fr_status run' = (if force then ForceStopped else Cancelled) \<and>
         fr_terminal_event_id run' = Some (''fre_'' @ fresh))) \<and>
    (fr_status run = Committing \<longrightarrow>
      (\<exists>e. cancel notify ex before now fresh rid force reason ps db = (Inl (ValueError e), ps, db))) \<and>
    (fr_status run \<in> set FLOW_RUN_TERMINALS \<longrightarrow>
      cancel notify ex before now fresh rid force reason ps db = (Inr (Some run), ps, db))"
proof -
  have inv: "fr_inv db" using frs.reachable_inv assms(1) by blast
  have finish: "\<exists>run' ps' db'. cancel notify ex before now fresh rid force reason ps db = (Inr (Some run'), ps', db') \<and>
         find_run rid db' = Some run' \<and> fr_status run' = (if force then ForceStopped else Cancelled) \<and>
         fr_terminal_event_id run' = Some (''fre_'' @ fresh)"
    if live: "fr_status run \<in> set FLOW_RUN_LIVE - {Committing}"
  proof -
    obtain run' db1 where m: "cancel_writes before now fresh rid force reason run db = (Inr (Some run'), db1)"
      and run': "find_run rid db1 = Some run'" "fr_status run' = (if force then ForceStopped else Cancelled)"
      "fr_terminal_event_id run' = Some (''fre_'' @ fresh)"
      using cancel_moves [OF inv row live fresh] unfolding ok(1) by metis
    obtain n ps' db2 where d: "deliver_pending_events notify (now 2) ps db1 = (n, ps', db2)"
      by (metis prod_cases3)
    have "find_run rid db2 = Some run'"
      using deliver_keeps_runs [of notify "now 2" ps db1] d run'(1) by (simp add: find_run_def)
    moreover have "cancel notify ex before now fresh rid force reason ps db = (Inr (fr_get rid db2), ps', db2)"
      using live row m d ok(2) by (simp add: cancel_def fr_get_def live_iff_not_terminal tx_then_def)
    ultimately show ?thesis using run' by (simp add: fr_get_def)
  qed
  moreover have "\<exists>e. cancel notify ex before now fresh rid force reason ps db = (Inl (ValueError e), ps, db)"
    if "fr_status run = Committing"
    using that row by (auto simp: cancel_def cancel_writes_def fr_get_def fr_transition_def status_lists tx_def tx_then_def)
  moreover have "cancel notify ex before now fresh rid force reason ps db = (Inr (Some run), ps, db)"
    if "fr_status run \<in> set FLOW_RUN_TERMINALS"
    using that row by (simp add: cancel_def fr_get_def)
  ultimately show ?thesis by blast
qed

definition demo_executor :: executor_env where
  "demo_executor = \<lparr>ex_factory = Inr (), ex_launch = Inr (), ex_start = Inr (), ex_stop = Inr ()\<rparr>"

theorem cancel_outcome_witness:
  "\<exists>run' ps' db'. cancel (\<lambda>_ _ _ ps. (True, ps)) demo_executor (\<lambda>_. Inr ()) (\<lambda>_. 2) ''x'' ''fr_a'' False ''stop'' () demo_db1 =
       (Inr (Some run'), ps', db') \<and>
     find_run ''fr_a'' db' = Some run' \<and> fr_status run' = Cancelled \<and> fr_terminal_event_id run' = Some ''fre_x''"
  using cancel_outcome [OF demo_reach(1), of "''fr_a''" demo_run "\<lambda>_. Inr ()" demo_executor "''x''"
      "\<lambda>_ _ _ ps. (True, ps)" "\<lambda>_. 2" False "''stop''" "()"]
  by (simp add: demo_db1_def demo_run_def demo_executor_def find_run_def FLOW_RUN_LIVE_def)

text \<open>
  Delivering the outbox changes no run, counts exactly the events that left the pending state,
  leaves no event pending when every projection returns, and keeps every event whose projection
  raises pending, so a failed notification is retried.  Delivered events are never touched again.
\<close>

theorem delivery_outcome:
  assumes "fr_step\<^sup>*\<^sup>* empty_db db"
    and d: "deliver_pending_events notify now ps db = (n, ps', db')"
  shows "db_runs db' = db_runs db \<and>
    n + length (pending_events db') = length (pending_events db) \<and>
    set (pending_events db') \<subseteq> set (pending_events db) \<and>
    ((\<forall>p r st q. fst (notify p r st q)) \<longrightarrow> pending_events db' = []) \<and>
    (\<forall>e \<in> set (pending_events db). (\<forall>q. \<not> projects notify db e q) \<longrightarrow> e \<in> set (pending_events db')) \<and>
    (\<forall>e \<in> set (db_outbox db). ob_delivered e \<longrightarrow> e \<in> set (db_outbox db'))"
proof -
  have inv: "fr_inv db" using frs.reachable_inv assms(1) by blast
  then have dist: "distinct (map ob_event_id (db_outbox db))" by (simp add: fr_inv_def)
  have known: "\<forall>e \<in> set (pending_events db). find_run (ob_run_id e) db \<noteq> None"
    using inv by (auto simp: fr_inv_def pending_events_def find_run_None_iff)
  have "distinct (map ob_event_id (pending_events db))"
    using dist by (simp add: pending_events_def distinct_map inj_on_def)
  then obtain A where A: "A \<subseteq> set (pending_events db)" "db' = ack_all now (ob_event_id ` A) db" "n = card A"
      "\<forall>e \<in> A. \<exists>q. projects notify db e q" "\<forall>e \<in> set (pending_events db) - A. \<exists>q. \<not> projects notify db e q"
    using deliver_loop_acks [OF d [unfolded deliver_pending_events_def] _ known] by auto
  note after = pending_after_ack_all [OF dist A(1), of now, folded A(2)]
  have "set (pending_events db) \<subseteq> A" if ok: "\<forall>p r st q. fst (notify p r st q)"
  proof -
    have "projects notify db e q" if "e \<in> set (pending_events db)" for e q
      using known that ok by (auto simp: projects_def split: option.splits)
    then show ?thesis using A(5) by blast
  qed
  moreover have "e \<in> set (db_outbox db')" if "e \<in> set (db_outbox db)" "ob_delivered e" for e
  proof -
    have "ob_event_id e \<notin> ob_event_id ` A"
      using that A(1) dist by (auto simp: pending_events_def distinct_map inj_on_def)
    then show ?thesis using that(1) by (force simp: A(2) ack_all_def)
  qed
  moreover have "db_runs db' = db_runs db" by (simp add: A(2) ack_all_def)
  ultimately show ?thesis using after A(3,4)
    by (auto simp del: set_empty simp flip: set_empty)
qed

theorem delivery_outcome_witness:
  "pending_events (snd (snd (deliver_pending_events (\<lambda>_ _ _ ps. (True, ps)) 2 () demo_db2))) = []"
proof -
  obtain n ps' db' where d: "deliver_pending_events (\<lambda>_ _ _ ps. (True, ps)) 2 () demo_db2 = (n, ps', db')"
    by (metis prod_cases3)
  from delivery_outcome [OF demo_reach(3) d] d show ?thesis by simp
qed

text \<open>
  A replay that succeeds creates a second run next to the unchanged original: same owner
  conversation, flow version, input and parameters, status created, linked to the original and with a
  generation above it.  A run that is still live cannot be replayed, and neither can another version.
\<close>

theorem replay_outcome:
  assumes "fr_step\<^sup>*\<^sup>* empty_db db" and orig: "find_run rid db = Some original"
    and canonical: "parse_ref ct (fr_flow_ref original) = Inr (''flow'', fr_flow_ref original)"
    and exact: "exact = None \<or> exact = Some (fr_flow_ref original)"
  shows "(replay ct before now f1 f2 rid auth exact db = Inr (v, db') \<longrightarrow>
      (\<exists>r. db_runs db' = db_runs db @ [r] \<and> db_outbox db' = db_outbox db \<and> fr_status r = Created \<and>
         fr_flow_ref r = fr_flow_ref original \<and> fr_conversation_id r = fr_conversation_id original \<and>
         fr_input r = fr_input original \<and> fr_parameters r = fr_parameters original \<and>
         fr_replay_of r = or_none rid \<and> fr_generation original < fr_generation r)) \<and>
    (fr_status original \<in> set FLOW_RUN_LIVE \<longrightarrow> isl (replay ct before now f1 f2 rid auth exact db)) \<and>
    (\<not> jeq other (fr_flow_ref original) \<and> jtruthy other \<longrightarrow> isl (replay ct before now f1 f2 rid auth (Some other) db))"
proof -
  have inv: "fr_inv db" using frs.reachable_inv assms(1) by blast
  have mem: "original \<in> set (db_runs db)"
    using orig by (auto simp: find_run_def find_Some_iff)
  then have strip: "py_strip (fr_conversation_id original) = fr_conversation_id original"
    using inv by (simp add: fr_inv_def run_ok_def)
  have "\<exists>r. db_runs db' = db_runs db @ [r] \<and> db_outbox db' = db_outbox db \<and> fr_status r = Created \<and>
         fr_flow_ref r = fr_flow_ref original \<and> fr_conversation_id r = fr_conversation_id original \<and>
         fr_input r = fr_input original \<and> fr_parameters r = fr_parameters original \<and>
         fr_replay_of r = or_none rid \<and> fr_generation original < fr_generation r"
    if ok: "replay ct before now f1 f2 rid auth exact db = Inr (v, db')"
  proof -
    have "(case exact of None \<Rightarrow> fr_flow_ref original
           | Some r \<Rightarrow> if jtruthy r then r else fr_flow_ref original) = fr_flow_ref original"
      using exact by auto
    then obtain authority proposal parent where "fr_create ct before now f1 f2 (fr_user_id original) (fr_conversation_id original)
        (fr_flow_ref original) auth authority (fr_input original) (fr_parameters original) proposal parent rid [] [] db =
        Inr (v, db')"
      using ok orig by (auto simp: replay_def fr_get_def Let_def split: if_splits)
    then show ?thesis
    proof (rule fr_create_Inr)
      fix r assume "insert_run r db = Inr db'" "fr_status r = Created"
        "fr_generation r = next_generation (fr_conversation_id r) (fr_flow_ref r) db"
        "flow_ref_of ct (fr_flow_ref original) = Inr (fr_flow_ref r)"
        "required (fr_conversation_id original) ''conversation_id'' = Inr (fr_conversation_id r)"
        "fr_input r = fr_input original" "fr_parameters r = fr_parameters original" "fr_replay_of r = or_none rid"
      moreover from this have "fr_flow_ref r = fr_flow_ref original" "fr_conversation_id r = fr_conversation_id original"
        using canonical strip by (simp_all add: flow_ref_of_def required_Inr)
      ultimately show ?thesis
        using next_generation_greater [OF mem] by (intro exI [of _ r]) (simp add: insert_run_Inr)
    qed
  qed
  moreover have "isl (replay ct before now f1 f2 rid auth exact db)" if "fr_status original \<in> set FLOW_RUN_LIVE"
    using that orig by (simp add: replay_def fr_get_def live_iff_not_terminal)
  moreover have "isl (replay ct before now f1 f2 rid auth (Some other) db)"
    if "\<not> jeq other (fr_flow_ref original)" "jtruthy other"
    using that orig by (simp add: replay_def fr_get_def Let_def)
  ultimately show ?thesis by blast
qed

theorem replay_outcome_witness:
  "isl (replay demo_contracts (Inr ()) 3 ''x'' ''y'' ''fr_a'' (JDict []) None demo_db1)"
  using replay_outcome [OF demo_reach(1), of "''fr_a''" demo_run demo_contracts None "Inr ()" 3 "''x''" "''y''" "JDict []"]
  by (simp add: demo_db1_def demo_run_def demo_contracts_def find_run_def FLOW_RUN_LIVE_def)

end
