(* ===== verification/Validator.thy ===== *)
theory Validator
  imports Json
begin

section \<open>The flow validator\<close>

text \<open>
  \<open>engine/validator.py\<close>.  A flow is an arbitrary JSON document, and the checks of the class are
  run on it in order with Python's dynamic behaviour: a method called on a value of the wrong type
  raises, a list or an object is not hashable.  The texts of the messages are the constructors of
  \<open>verr\<close> and \<open>vwarn\<close>.  The set of registered task types is the argument \<open>registered\<close>.
\<close>

datatype verr =
    FlowNotDict | MissingId | MissingName | MissingTasks | TasksNotDict | RelationsNotList
  | NoTasks | TaskNotDict string | TaskNoType string
  | RelationNotDict nat | RelationNoFrom nat | SourceNotFound nat json
  | RelationNoTo nat | TargetNotFound nat json
  | DuplicateRelation json json json
  | CycleDetected "string list"

datatype vwarn = Disconnected string | TypeNotRegistered string json

record validation_result =
  vr_valid :: bool
  vr_errors :: "verr list"
  vr_warnings :: "vwarn list"

subsection \<open>Dynamic operations of the language\<close>

text \<open>\<open>d.items()\<close>, iteration, \<open>len\<close> and \<open>in\<close>.\<close>

definition items_res :: "json \<Rightarrow> ((string \<times> json) list) res" where
  "items_res d = (case d of JDict kvs \<Rightarrow> Inr kvs | _ \<Rightarrow> Inl (AttributeError ''items''))"

definition iter_res :: "json \<Rightarrow> (json list) res" where
  "iter_res v = (case v of
       JList xs \<Rightarrow> Inr xs
     | JDict kvs \<Rightarrow> Inr (map (\<lambda>kv. JStr (fst kv)) kvs)
     | JStr s \<Rightarrow> Inr (map (\<lambda>c. JStr [c]) s)
     | _ \<Rightarrow> Inl (TypeError ''object is not iterable''))"

definition len_res :: "json \<Rightarrow> nat res" where
  "len_res v = bind_res (iter_res v) (\<lambda>xs. Inr (length xs))"

definition in_res :: "json \<Rightarrow> json \<Rightarrow> bool res" where
  "in_res k v = (case v of
       JDict kvs \<Rightarrow> bind_res (hash_res k) (\<lambda>k. Inr (\<exists>kv \<in> set kvs. k = JStr (fst kv)))
     | JList xs \<Rightarrow> Inr (\<exists>x \<in> set xs. jeq x k)
     | JStr s \<Rightarrow> (case k of JStr p \<Rightarrow> Inr (py_str_in p s) | _ \<Rightarrow> Inl (TypeError ''in requires string''))
     | _ \<Rightarrow> Inl (TypeError ''argument is not iterable''))"

subsection \<open>The checks\<close>

definition check_structure :: "json \<Rightarrow> verr list" where
  "check_structure flow =
     (if \<not> is_dict flow then [FlowNotDict]
      else (if jget flow ''id'' = None then [MissingId] else []) @
           (if jget flow ''name'' = None then [MissingName] else []) @
           (case jget flow ''tasks'' of None \<Rightarrow> [MissingTasks]
              | Some t \<Rightarrow> if \<not> is_dict t then [TasksNotDict] else []) @
           (case jget flow ''relations'' of None \<Rightarrow> []
              | Some r \<Rightarrow> if \<not> is_list r then [RelationsNotList] else []))"

definition check_tasks :: "json \<Rightarrow> (verr list) res" where
  "check_tasks flow =
     bind_res (dict_get_res flow ''tasks'' (JDict [])) (\<lambda>tasks.
       if \<not> jtruthy tasks then Inr [NoTasks]
       else bind_res (items_res tasks) (\<lambda>kvs.
         Inr (concat (map (\<lambda>(tid, cfg).
           if \<not> is_dict cfg then [TaskNotDict tid]
           else if jget cfg ''type'' = None then [TaskNoType tid] else []) kvs))))"

definition endpoint_errors :: "json \<Rightarrow> json option \<Rightarrow> verr \<Rightarrow> (json \<Rightarrow> verr) \<Rightarrow> (verr list) res" where
  "endpoint_errors tasks v missing unknown =
     (case v of
        None \<Rightarrow> Inr [missing]
      | Some x \<Rightarrow> bind_res (in_res x tasks) (\<lambda>found. Inr (if found then [] else [unknown x])))"

fun relation_errors :: "json \<Rightarrow> nat \<Rightarrow> json list \<Rightarrow> (verr list) res" where
  "relation_errors tasks i [] = Inr []"
| "relation_errors tasks i (rel # rels) =
     bind_res
       (if \<not> is_dict rel then Inr [RelationNotDict i]
        else bind_res (endpoint_errors tasks (jget rel ''from'') (RelationNoFrom i) (SourceNotFound i)) (\<lambda>e1.
             bind_res (endpoint_errors tasks (jget rel ''to'') (RelationNoTo i) (TargetNotFound i)) (\<lambda>e2.
             Inr (e1 @ e2))))
       (\<lambda>es. bind_res (relation_errors tasks (Suc i) rels) (\<lambda>rest. Inr (es @ rest)))"

definition relation_key :: "json \<Rightarrow> (json \<times> json \<times> json) res" where
  "relation_key rel =
     bind_res (dict_get_res rel ''from'' (JStr [])) (\<lambda>f.
     bind_res (dict_get_res rel ''to'' (JStr [])) (\<lambda>t.
     bind_res (dict_get_res rel ''type'' (JStr ''success'')) (\<lambda>ty.
     bind_res (hash_res f) (\<lambda>_. bind_res (hash_res t) (\<lambda>_. bind_res (hash_res ty) (\<lambda>_. Inr (f, t, ty)))))))"

definition key_eq :: "json \<times> json \<times> json \<Rightarrow> json \<times> json \<times> json \<Rightarrow> bool" where
  "key_eq a b = (jeq (fst a) (fst b) \<and> jeq (fst (snd a)) (fst (snd b)) \<and> jeq (snd (snd a)) (snd (snd b)))"

fun duplicate_errors :: "(json \<times> json \<times> json) list \<Rightarrow> json list \<Rightarrow> (verr list) res" where
  "duplicate_errors seen [] = Inr []"
| "duplicate_errors seen (rel # rels) =
     bind_res (relation_key rel) (\<lambda>key.
     bind_res (duplicate_errors (key # seen) rels) (\<lambda>rest.
     Inr ((if list_ex (key_eq key) seen then [DuplicateRelation (fst key) (fst (snd key)) (snd (snd key))] else [])
          @ rest)))"

definition check_relations :: "json \<Rightarrow> (verr list) res" where
  "check_relations flow =
     bind_res (dict_get_res flow ''tasks'' (JDict [])) (\<lambda>tasks.
     bind_res (dict_get_res flow ''relations'' (JList [])) (\<lambda>relations.
     bind_res (iter_res relations) (\<lambda>rels.
     bind_res (relation_errors tasks 0 rels) (\<lambda>es.
     bind_res (duplicate_errors [] rels) (\<lambda>ds. Inr (es @ ds))))))"

subsection \<open>Cycle detection\<close>

datatype vcolor = WHITE | GRAY | BLACK

type_synonym adjacency = "string \<Rightarrow> json list"

text \<open>\<open>adj[src].append(tgt)\<close> when \<open>src\<close> is a task.\<close>

fun build_adj :: "string list \<Rightarrow> json list \<Rightarrow> adjacency \<Rightarrow> adjacency res" where
  "build_adj tids [] adj = Inr adj"
| "build_adj tids (rel # rels) adj =
     bind_res (dict_get_res rel ''from'' (JStr [])) (\<lambda>src.
     bind_res (dict_get_res rel ''to'' (JStr [])) (\<lambda>tgt.
     bind_res (hash_res src) (\<lambda>_.
     (case src of
        JStr s \<Rightarrow> if s \<in> set tids then build_adj tids rels (adj(s := adj s @ [tgt]))
                   else build_adj tids rels adj
      | _ \<Rightarrow> build_adj tids rels adj))))"

text \<open>\<open>path[path.index(x):]\<close>\<close>

definition path_from :: "string \<Rightarrow> string list \<Rightarrow> (string list) res" where
  "path_from x path = (if x \<in> set path then Inr (dropWhile (\<lambda>y. y \<noteq> x) path)
     else Inl (ValueError ''not in list''))"

text \<open>
  The nested function \<open>dfs\<close> and its loop over the neighbours; \<open>color\<close> and \<open>path\<close> are the shared
  mutable variables, passed along.  The number is the recursion depth that is left.
\<close>

fun dfs :: "nat \<Rightarrow> adjacency \<Rightarrow> string \<Rightarrow> (string \<rightharpoonup> vcolor) \<Rightarrow> string list \<Rightarrow>
     (string list option \<times> (string \<rightharpoonup> vcolor) \<times> string list) res"
and dfs_neighbors :: "nat \<Rightarrow> adjacency \<Rightarrow> json list \<Rightarrow> (string \<rightharpoonup> vcolor) \<Rightarrow> string list \<Rightarrow>
     (string list option \<times> (string \<rightharpoonup> vcolor) \<times> string list) res" where
  "dfs 0 adj node color path = Inl OutOfFuel"
| "dfs (Suc n) adj node color path =
     bind_res (dfs_neighbors n adj (adj node) (color(node \<mapsto> GRAY)) (path @ [node])) (\<lambda>(result, color, path).
       case result of
         Some cycle \<Rightarrow> Inr (Some cycle, color, path)
       | None \<Rightarrow> Inr (None, color(node \<mapsto> BLACK), butlast path))"
| "dfs_neighbors n adj [] color path = Inr (None, color, path)"
| "dfs_neighbors n adj (nb # nbs) color path =
     bind_res (hash_res nb) (\<lambda>_.
     case nb of
       JStr x \<Rightarrow>
         (case color x of
            None \<Rightarrow> dfs_neighbors n adj nbs color path
          | Some GRAY \<Rightarrow> bind_res (path_from x path) (\<lambda>cycle. Inr (Some cycle, color, path))
          | Some WHITE \<Rightarrow>
              bind_res (dfs n adj x color path) (\<lambda>(result, color, path).
                if (case result of None \<Rightarrow> False | Some c \<Rightarrow> c \<noteq> []) then Inr (result, color, path)
                else dfs_neighbors n adj nbs color path)
          | Some BLACK \<Rightarrow> dfs_neighbors n adj nbs color path)
     | _ \<Rightarrow> dfs_neighbors n adj nbs color path)"

fun dfs_roots :: "nat \<Rightarrow> adjacency \<Rightarrow> string list \<Rightarrow> (string \<rightharpoonup> vcolor) \<Rightarrow> (verr list) res" where
  "dfs_roots n adj [] color = Inr []"
| "dfs_roots n adj (tid # tids) color =
     (if color tid = Some WHITE
      then bind_res (dfs n adj tid color []) (\<lambda>(cycle, color, path).
        case cycle of
          Some c \<Rightarrow> if c \<noteq> [] then Inr [CycleDetected (c @ [hd c])] else dfs_roots n adj tids color
        | None \<Rightarrow> dfs_roots n adj tids color)
      else dfs_roots n adj tids color)"

text \<open>The iteration over \<open>tasks\<close>: its keys, which are strings.\<close>

definition task_ids :: "json \<Rightarrow> (string list) res" where
  "task_ids tasks = bind_res (iter_res tasks) (\<lambda>xs. Inr (concat (map (\<lambda>x. case x of JStr s \<Rightarrow> [s] | _ \<Rightarrow> []) xs)))"

definition check_cycles :: "nat \<Rightarrow> json \<Rightarrow> (verr list) res" where
  "check_cycles depth flow =
     bind_res (dict_get_res flow ''tasks'' (JDict [])) (\<lambda>tasks.
     bind_res (dict_get_res flow ''relations'' (JList [])) (\<lambda>relations.
     bind_res (task_ids tasks) (\<lambda>tids.
     bind_res (iter_res relations) (\<lambda>rels.
     bind_res (build_adj tids rels (\<lambda>_. [])) (\<lambda>adj.
     dfs_roots depth adj tids (\<lambda>t. if t \<in> set tids then Some WHITE else None))))))"

subsection \<open>Connectivity, task types and the whole validation\<close>

fun connected_set :: "json list \<Rightarrow> (json list) res" where
  "connected_set [] = Inr []"
| "connected_set (rel # rels) =
     bind_res (dict_get_res rel ''from'' (JStr [])) (\<lambda>f. bind_res (hash_res f) (\<lambda>_.
     bind_res (dict_get_res rel ''to'' (JStr [])) (\<lambda>t. bind_res (hash_res t) (\<lambda>_.
     bind_res (connected_set rels) (\<lambda>rest. Inr (f # t # rest))))))"

definition check_connectivity :: "json \<Rightarrow> (vwarn list) res" where
  "check_connectivity flow =
     bind_res (dict_get_res flow ''tasks'' (JDict [])) (\<lambda>tasks.
     bind_res (dict_get_res flow ''relations'' (JList [])) (\<lambda>relations.
     bind_res (len_res tasks) (\<lambda>n.
     if n \<le> 1 then Inr []
     else
     bind_res (iter_res relations) (\<lambda>rels.
     bind_res (connected_set rels) (\<lambda>connected.
     bind_res (task_ids tasks) (\<lambda>tids.
     Inr (map Disconnected (filter (\<lambda>t. JStr t \<notin> set connected) tids))))))))"

fun task_type_warnings :: "string list \<Rightarrow> (string \<times> json) list \<Rightarrow> (vwarn list) res" where
  "task_type_warnings registered [] = Inr []"
| "task_type_warnings registered ((tid, cfg) # kvs) =
     bind_res (dict_get_res cfg ''type'' (JStr [])) (\<lambda>ty.
     bind_res (if jtruthy ty
               then bind_res (hash_res ty) (\<lambda>ty.
                 Inr (if \<exists>s \<in> set registered. ty = JStr s then [] else [TypeNotRegistered tid ty]))
               else Inr []) (\<lambda>w.
     bind_res (task_type_warnings registered kvs) (\<lambda>rest. Inr (w @ rest))))"

definition check_task_types :: "string list \<Rightarrow> json \<Rightarrow> (vwarn list) res" where
  "check_task_types registered flow =
     bind_res (dict_get_res flow ''tasks'' (JDict [])) (\<lambda>tasks.
     bind_res (items_res tasks) (task_type_warnings registered))"

definition validate :: "nat \<Rightarrow> string list \<Rightarrow> json \<Rightarrow> validation_result res" where
  "validate depth registered flow =
     bind_res (check_tasks flow) (\<lambda>e2.
     bind_res (check_relations flow) (\<lambda>e3.
     bind_res (check_cycles depth flow) (\<lambda>e4.
     bind_res (check_connectivity flow) (\<lambda>w1.
     bind_res (check_task_types registered flow) (\<lambda>w2.
     (let errors = check_structure flow @ e2 @ e3 @ e4
      in Inr \<lparr>vr_valid = (length errors = 0), vr_errors = errors, vr_warnings = w1 @ w2\<rparr>))))))"

subsection \<open>Correctness of the search\<close>

definition flow_edges :: "string set \<Rightarrow> adjacency \<Rightarrow> (string \<times> string) set" where
  "flow_edges T adj = {(u, v). u \<in> T \<and> v \<in> T \<and> JStr v \<in> set (adj u)}"

definition is_cycle :: "('a \<times> 'a) set \<Rightarrow> 'a list \<Rightarrow> bool" where
  "is_cycle E c \<longleftrightarrow> c \<noteq> [] \<and> successively (\<lambda>x y. (x, y) \<in> E) c \<and> (last c, hd c) \<in> E"

lemma walk_rtrancl:
  "successively (\<lambda>x y. (x, y) \<in> E) c \<Longrightarrow> c \<noteq> [] \<Longrightarrow> (hd c, last c) \<in> E\<^sup>*"
proof (induction c)
  case (Cons x c)
  then show ?case by (cases c) (auto intro: converse_rtrancl_into_rtrancl)
qed simp

lemma is_cycle_not_acyclic: "is_cycle E c \<Longrightarrow> \<not> acyclic E"
  using walk_rtrancl [of E c] by (auto simp: is_cycle_def acyclic_def dest: rtrancl_into_trancl1)

lemma acyclic_add_source:
  assumes "acyclic R" and "\<And>x y. (x, y) \<in> S \<Longrightarrow> x = v" and "\<And>x. (x, v) \<notin> R \<union> S"
  shows "acyclic (R \<union> S)"
proof (rule acyclicI, rule allI, rule notI)
  fix a assume cyc: "(a, a) \<in> (R \<union> S)\<^sup>+"
  then have "a \<noteq> v" using assms(3) by (metis tranclD2)
  have "(a, b) \<in> R\<^sup>+ \<and> b \<noteq> v" if "(a, b) \<in> (R \<union> S)\<^sup>+" for b
    using that
  proof (induction rule: trancl_induct)
    case (base y)
    then show ?case using assms(2,3) \<open>a \<noteq> v\<close> by blast
  next
    case (step y z)
    then have "(y, z) \<in> R" using assms(2) by blast
    then show ?case using step assms(3) by (blast intro: trancl_into_trancl)
  qed
  with cyc assms(1) show False by (auto simp: acyclic_def)
qed

definition black_edges :: "(string \<times> string) set \<Rightarrow> (string \<rightharpoonup> vcolor) \<Rightarrow> (string \<times> string) set" where
  "black_edges E color = {(x, y) \<in> E. color x = Some BLACK}"

definition whites :: "(string \<rightharpoonup> vcolor) \<Rightarrow> string set" where
  "whites color = {x. color x = Some WHITE}"

text \<open>
  The search invariant: the gray nodes are the path, the path is a walk, what is black is closed
  under edges and acyclic.
\<close>

definition dfs_inv :: "string set \<Rightarrow> adjacency \<Rightarrow> (string \<rightharpoonup> vcolor) \<Rightarrow> string list \<Rightarrow> bool" where
  "dfs_inv T adj color path \<longleftrightarrow>
     dom color = T \<and> {x. color x = Some GRAY} = set path \<and> distinct path \<and>
     successively (\<lambda>x y. (x, y) \<in> flow_edges T adj) path \<and>
     (\<forall>x y. (x, y) \<in> flow_edges T adj \<longrightarrow> color x = Some BLACK \<longrightarrow> color y = Some BLACK) \<and>
     acyclic (black_edges (flow_edges T adj) color)"

definition darker :: "(string \<rightharpoonup> vcolor) \<Rightarrow> (string \<rightharpoonup> vcolor) \<Rightarrow> bool" where
  "darker color color' \<longleftrightarrow> whites color' \<subseteq> whites color \<and>
     (\<forall>x. color x = Some BLACK \<longrightarrow> color' x = Some BLACK)"

lemma darker_refl: "darker c c" and darker_trans: "darker a b \<Longrightarrow> darker b c \<Longrightarrow> darker a c"
  by (auto simp: darker_def)

definition dfs_ok :: "nat \<Rightarrow> string set \<Rightarrow> adjacency \<Rightarrow> bool" where
  "dfs_ok n T adj \<longleftrightarrow> (\<forall>node color path.
     dfs_inv T adj color path \<longrightarrow> color node = Some WHITE \<longrightarrow> card (whites color) \<le> n \<longrightarrow>
     (path \<noteq> [] \<longrightarrow> (last path, node) \<in> flow_edges T adj) \<longrightarrow>
     (\<exists>result color' path'. dfs n adj node color path = Inr (result, color', path') \<and>
        (case result of
           Some c \<Rightarrow> is_cycle (flow_edges T adj) c
         | None \<Rightarrow> dfs_inv T adj color' path \<and> path' = path \<and> color' node = Some BLACK \<and> darker color color')))"

lemma dfs_inv_path: "dfs_inv T adj color path \<Longrightarrow> x \<in> set path \<longleftrightarrow> color x = Some GRAY"
  unfolding dfs_inv_def by blast

lemma dfs_inv_gray:
  assumes inv: "dfs_inv T adj color path" and white: "color node = Some WHITE"
    and edge: "path \<noteq> [] \<longrightarrow> (last path, node) \<in> flow_edges T adj"
  shows "dfs_inv T adj (color(node \<mapsto> GRAY)) (path @ [node])"
proof -
  have new: "node \<notin> set path" using dfs_inv_path [OF inv] white by simp
  have "black_edges (flow_edges T adj) (color(node \<mapsto> GRAY)) = black_edges (flow_edges T adj) color"
    using white by (auto simp: black_edges_def split: if_splits)
  moreover have "{x. (color(node \<mapsto> GRAY)) x = Some GRAY} = insert node {x. color x = Some GRAY}" by auto
  moreover have "node \<in> T" using inv white by (auto simp: dfs_inv_def)
  ultimately show ?thesis
    using inv white edge new unfolding dfs_inv_def
    by (auto simp: successively_append_iff insert_absorb)
qed

lemma dfs_inv_black:
  assumes inv: "dfs_inv T adj color (path @ [node])"
    and nbs: "\<And>y. (node, y) \<in> flow_edges T adj \<Longrightarrow> color y = Some BLACK"
  shows "dfs_inv T adj (color(node \<mapsto> BLACK)) path"
proof -
  let ?E = "flow_edges T adj"
  have gray: "color node = Some GRAY" using dfs_inv_path [OF inv, of node] by simp
  have node: "node \<in> T" and new: "node \<notin> set path"
    using inv gray by (auto simp: dfs_inv_def)
  have into: "(x, node) \<notin> ?E" if "color x = Some BLACK" for x
    using inv that gray by (auto simp: dfs_inv_def)
  have "black_edges ?E (color(node \<mapsto> BLACK)) = black_edges ?E color \<union> {(x, y) \<in> ?E. x = node}"
    by (auto simp: black_edges_def)
  moreover have "acyclic (black_edges ?E color \<union> {(x, y) \<in> ?E. x = node})"
  proof (rule acyclic_add_source)
    show "acyclic (black_edges ?E color)" using inv by (simp add: dfs_inv_def)
    show "(x, node) \<notin> black_edges ?E color \<union> {(x, y) \<in> ?E. x = node}" for x
      using into nbs [of node] gray by (auto simp: black_edges_def)
  qed auto
  moreover have "{x. (color(node \<mapsto> BLACK)) x = Some GRAY} = {x. color x = Some GRAY} - {node}" by auto
  ultimately show ?thesis
    using inv node new nbs unfolding dfs_inv_def
    by (auto simp: successively_append_iff insert_absorb)
qed

lemma path_from_cycle:
  assumes inv: "dfs_inv T adj color (p @ [v])" and "(v, x) \<in> flow_edges T adj" and "color x = Some GRAY"
  obtains c where "path_from x (p @ [v]) = Inr c" "is_cycle (flow_edges T adj) c"
proof -
  let ?P = "\<lambda>x y. (x, y) \<in> flow_edges T adj"
  have x: "x \<in> set (p @ [v])" using dfs_inv_path [OF inv] assms(3) by blast
  define c where "c = dropWhile (\<lambda>y. y \<noteq> x) (p @ [v])"
  define q where "q = takeWhile (\<lambda>y. y \<noteq> x) (p @ [v])"
  have split: "p @ [v] = q @ c" by (simp add: c_def q_def)
  have c: "c \<noteq> []" using x by (auto simp: c_def)
  have "hd c = x" using x unfolding c_def by (metis (mono_tags) c c_def hd_dropWhile)
  moreover have "last c = v" using split c by (metis last_appendR last_snoc)
  moreover have "successively ?P c"
    using inv split by (simp add: dfs_inv_def successively_append_iff)
  ultimately have "is_cycle (flow_edges T adj) c" using c assms(2) by (simp add: is_cycle_def)
  moreover have "path_from x (p @ [v]) = Inr c" using x by (simp add: path_from_def c_def)
  ultimately show thesis by (rule that [rotated])
qed

lemma neighbors_ok:
  assumes IH: "dfs_ok n T adj"
  shows "dfs_inv T adj color (p @ [v]) \<Longrightarrow> v \<in> T \<Longrightarrow> set nbs \<subseteq> set (adj v) \<Longrightarrow> \<forall>nb \<in> set nbs. hashable nb \<Longrightarrow>
    finite T \<Longrightarrow> card (whites color) \<le> n \<Longrightarrow>
    (\<exists>result color' path'. dfs_neighbors n adj nbs color (p @ [v]) = Inr (result, color', path') \<and>
       (case result of
          Some c \<Rightarrow> is_cycle (flow_edges T adj) c
        | None \<Rightarrow> dfs_inv T adj color' (p @ [v]) \<and> path' = p @ [v] \<and> darker color color' \<and>
            (\<forall>y \<in> T. JStr y \<in> set nbs \<longrightarrow> color' y = Some BLACK)))"
    (is "_ \<Longrightarrow> _ \<Longrightarrow> _ \<Longrightarrow> _ \<Longrightarrow> _ \<Longrightarrow> _ \<Longrightarrow> ?goal nbs color")
proof (induction nbs arbitrary: color)
  case Nil
  then show ?case by (simp add: darker_refl)
next
  case (Cons nb nbs)
  have hash: "hash_res nb = Inr nb" using Cons.prems(4) by (simp add: hash_res_def)
  have skip: "?goal (nb # nbs) color"
    if step: "dfs_neighbors n adj (nb # nbs) color (p @ [v]) = dfs_neighbors n adj nbs color' (p @ [v])"
      and inv: "dfs_inv T adj color' (p @ [v])" and dark: "darker color color'"
      and nb: "\<And>y. y \<in> T \<Longrightarrow> nb = JStr y \<Longrightarrow> color' y = Some BLACK" for color'
  proof -
    have "finite (whites color)"
      using Cons.prems(1,5) by (auto simp: dfs_inv_def whites_def intro: finite_subset [of _ T])
    then have "card (whites color') \<le> n"
      using dark Cons.prems(6) by (meson card_mono darker_def le_trans)
    then have "?goal nbs color'" using Cons.IH [OF inv] Cons.prems by simp
    then show ?thesis using step dark nb
      by (force simp: darker_def split: option.splits)
  qed
  show ?case
  proof (cases "\<exists>x. nb = JStr x \<and> x \<in> T")
    case False
    then have "dfs_neighbors n adj (nb # nbs) color (p @ [v]) = dfs_neighbors n adj nbs color (p @ [v])"
      using hash Cons.prems(1) by (auto simp: dfs_inv_def split: json.split option.split)
    then show ?thesis using skip Cons.prems(1) False darker_refl by blast
  next
    case True
    then obtain x where x: "nb = JStr x" "x \<in> T" by blast
    have edge: "(v, x) \<in> flow_edges T adj" using x Cons.prems by (auto simp: flow_edges_def)
    obtain col where col: "color x = Some col" using x(2) Cons.prems(1) by (auto simp: dfs_inv_def)
    show ?thesis
    proof (cases col)
      case GRAY
      then obtain c where "path_from x (p @ [v]) = Inr c" "is_cycle (flow_edges T adj) c"
        using path_from_cycle [OF Cons.prems(1) edge] col by blast
      then show ?thesis using GRAY col x hash by simp
    next
      case BLACK
      then show ?thesis using skip [of color] Cons.prems(1) col x hash darker_refl by auto
    next
      case WHITE
      obtain result color' path' where d: "dfs n adj x color (p @ [v]) = Inr (result, color', path')"
        "case result of Some c \<Rightarrow> is_cycle (flow_edges T adj) c
         | None \<Rightarrow> dfs_inv T adj color' (p @ [v]) \<and> path' = p @ [v] \<and> color' x = Some BLACK \<and> darker color color'"
        using IH Cons.prems(1,6) col WHITE edge unfolding dfs_ok_def by (metis last_snoc)
      show ?thesis
      proof (cases result)
        case None
        then have "dfs_inv T adj color' (p @ [v])" "path' = p @ [v]" "color' x = Some BLACK" "darker color color'"
          using d by simp_all
        moreover from this None have "dfs_neighbors n adj (nb # nbs) color (p @ [v]) = dfs_neighbors n adj nbs color' (p @ [v])"
          using d col WHITE x hash by simp
        ultimately show ?thesis using skip [of color'] x by blast
      next
        case (Some c)
        then show ?thesis using d col WHITE x hash by (simp add: is_cycle_def)
      qed
    qed
  qed
qed

lemma dfs_correct:
  assumes fin: "finite T" and hash: "\<forall>u \<in> T. \<forall>nb \<in> set (adj u). hashable nb"
  shows "dfs_ok n T adj"
proof (induction n)
  case 0
  have "color node \<noteq> Some WHITE" if "dfs_inv T adj color path" "card (whites color) \<le> 0" for node color path
  proof -
    have "finite (whites color)"
      using that(1) fin by (auto simp: dfs_inv_def whites_def intro: finite_subset [of _ T])
    then show ?thesis using that(2) by (auto simp: whites_def)
  qed
  then show ?case by (auto simp: dfs_ok_def)
next
  case (Suc n)
  show ?case
    unfolding dfs_ok_def
  proof (intro allI impI)
    fix node color path
    assume inv: "dfs_inv T adj color path" and white: "color node = Some WHITE"
      and card: "card (whites color) \<le> Suc n" and edge: "path \<noteq> [] \<longrightarrow> (last path, node) \<in> flow_edges T adj"
    have node: "node \<in> T" using inv white by (auto simp: dfs_inv_def)
    let ?color = "color(node \<mapsto> GRAY)"
    have inv': "dfs_inv T adj ?color (path @ [node])" by (rule dfs_inv_gray [OF inv white edge])
    have "finite (whites color)"
      using inv fin by (auto simp: dfs_inv_def whites_def intro: finite_subset [of _ T])
    moreover have "whites ?color = whites color - {node}" by (auto simp: whites_def)
    ultimately have "card (whites ?color) \<le> n" using card white by (simp add: whites_def)
    then obtain result color' path' where d: "dfs_neighbors n adj (adj node) ?color (path @ [node]) = Inr (result, color', path')"
      "case result of Some c \<Rightarrow> is_cycle (flow_edges T adj) c
        | None \<Rightarrow> dfs_inv T adj color' (path @ [node]) \<and> path' = path @ [node] \<and> darker ?color color' \<and>
            (\<forall>y \<in> T. JStr y \<in> set (adj node) \<longrightarrow> color' y = Some BLACK)"
      using neighbors_ok [OF Suc inv' node subset_refl] hash node fin by blast
    show "\<exists>result color' path'. dfs (Suc n) adj node color path = Inr (result, color', path') \<and>
        (case result of Some c \<Rightarrow> is_cycle (flow_edges T adj) c
         | None \<Rightarrow> dfs_inv T adj color' path \<and> path' = path \<and> color' node = Some BLACK \<and> darker color color')"
    proof (cases result)
      case None
      have "dfs_inv T adj (color'(node \<mapsto> BLACK)) path"
        using d None by (intro dfs_inv_black) (auto simp: flow_edges_def)
      moreover have "darker color (color'(node \<mapsto> BLACK))"
        using d None white by (auto simp: darker_def whites_def split: if_splits)
      ultimately show ?thesis using d None by simp
    next
      case (Some c)
      then show ?thesis using d by simp
    qed
  qed
qed

lemma roots_ok:
  assumes fin: "finite T" and hash: "\<forall>u \<in> T. \<forall>nb \<in> set (adj u). hashable nb" and depth: "card T \<le> n"
  shows "dfs_inv T adj color [] \<Longrightarrow> set tids \<subseteq> T \<Longrightarrow> \<forall>x \<in> T. color x = Some BLACK \<or> x \<in> set tids \<Longrightarrow>
    (dfs_roots n adj tids color = Inr [] \<and> acyclic (flow_edges T adj)) \<or>
    (\<exists>c. dfs_roots n adj tids color = Inr [CycleDetected (c @ [hd c])] \<and> is_cycle (flow_edges T adj) c)"
proof (induction tids arbitrary: color)
  case Nil
  then have "black_edges (flow_edges T adj) color = flow_edges T adj"
    by (auto simp: black_edges_def flow_edges_def)
  then show ?case using Nil by (simp add: dfs_inv_def)
next
  case (Cons tid tids)
  show ?case
  proof (cases "color tid = Some WHITE")
    case False
    have "color tid \<noteq> Some GRAY" using dfs_inv_path [OF Cons.prems(1), of tid] by simp
    moreover have "tid \<in> dom color" using Cons.prems by (auto simp: dfs_inv_def)
    ultimately have "color tid = Some BLACK" using False by (auto intro: vcolor.exhaust)
    then have "\<forall>x \<in> T. color x = Some BLACK \<or> x \<in> set tids" using Cons.prems(3) by auto
    then show ?thesis using Cons.IH [OF Cons.prems(1)] Cons.prems(2) False by simp
  next
    case True
    have "whites color \<subseteq> T" using Cons.prems(1) by (auto simp: dfs_inv_def whites_def)
    then have "card (whites color) \<le> n" using depth fin by (meson card_mono le_trans)
    then obtain result color' path' where d: "dfs n adj tid color [] = Inr (result, color', path')"
      "case result of Some c \<Rightarrow> is_cycle (flow_edges T adj) c
        | None \<Rightarrow> dfs_inv T adj color' [] \<and> path' = [] \<and> color' tid = Some BLACK \<and> darker color color'"
      using dfs_correct [OF fin hash, of n] Cons.prems(1) True unfolding dfs_ok_def by blast
    show ?thesis
    proof (cases result)
      case None
      then have post: "dfs_inv T adj color' []" "color' tid = Some BLACK" "darker color color'"
        using d by simp_all
      have "\<forall>x \<in> T. color' x = Some BLACK \<or> x \<in> set tids"
        using Cons.prems(3) post(2,3) by (auto simp: darker_def)
      then show ?thesis using Cons.IH [OF post(1)] Cons.prems(2) True d None by simp
    next
      case (Some c)
      then show ?thesis using d True by (auto simp: is_cycle_def)
    qed
  qed
qed

subsection \<open>The graph of a flow\<close>

definition rel_end :: "string \<Rightarrow> json \<Rightarrow> json" where
  "rel_end k rel = jget_or rel k (JStr [])"

definition flow_tasks :: "json \<Rightarrow> (string \<times> json) list" where
  "flow_tasks flow = (case jget_or flow ''tasks'' (JDict []) of JDict kvs \<Rightarrow> kvs | _ \<Rightarrow> [])"

definition flow_relations :: "json \<Rightarrow> json list" where
  "flow_relations flow = (case jget_or flow ''relations'' (JList []) of JList rs \<Rightarrow> rs | _ \<Rightarrow> [])"

definition task_graph :: "json \<Rightarrow> (string \<times> string) set" where
  "task_graph flow = {(u, v). u \<in> fst ` set (flow_tasks flow) \<and> v \<in> fst ` set (flow_tasks flow) \<and>
     (\<exists>rel \<in> set (flow_relations flow). rel_end ''from'' rel = JStr u \<and> rel_end ''to'' rel = JStr v)}"

text \<open>The shape a flow needs for \<open>validate\<close> to report on it.\<close>

definition relation_shape :: "json \<Rightarrow> bool" where
  "relation_shape rel \<longleftrightarrow> is_dict rel \<and> hashable (rel_end ''from'' rel) \<and> hashable (rel_end ''to'' rel) \<and>
     hashable (jget_or rel ''type'' (JStr ''success''))"

definition flow_shape :: "json \<Rightarrow> bool" where
  "flow_shape flow \<longleftrightarrow> is_dict flow \<and> is_dict (jget_or flow ''tasks'' (JDict [])) \<and>
     is_list (jget_or flow ''relations'' (JList [])) \<and>
     (\<forall>kv \<in> set (flow_tasks flow). is_dict (snd kv) \<and> hashable (jget_or (snd kv) ''type'' (JStr []))) \<and>
     (\<forall>rel \<in> set (flow_relations flow). relation_shape rel)"

lemma dict_get_res_dict: "is_dict d \<Longrightarrow> dict_get_res d k v = Inr (jget_or d k v)"
  by (simp add: dict_get_res_def is_dict_def split: json.splits)

lemma hash_res_hashable [simp]: "hashable v \<Longrightarrow> hash_res v = Inr v"
  by (simp add: hash_res_def)

lemma relation_shapeD:
  assumes "relation_shape rel"
  shows "dict_get_res rel ''from'' (JStr []) = Inr (rel_end ''from'' rel)"
    "dict_get_res rel ''to'' (JStr []) = Inr (rel_end ''to'' rel)"
    "dict_get_res rel ''type'' (JStr ''success'') = Inr (jget_or rel ''type'' (JStr ''success''))"
    "hash_res (rel_end ''from'' rel) = Inr (rel_end ''from'' rel)"
    "hash_res (rel_end ''to'' rel) = Inr (rel_end ''to'' rel)"
    "hash_res (jget_or rel ''type'' (JStr ''success'')) = Inr (jget_or rel ''type'' (JStr ''success''))"
  using assms by (simp_all add: relation_shape_def rel_end_def dict_get_res_dict)

lemma flow_shapeD:
  assumes "flow_shape flow"
  shows "dict_get_res flow ''tasks'' (JDict []) = Inr (JDict (flow_tasks flow))"
    "dict_get_res flow ''relations'' (JList []) = Inr (JList (flow_relations flow))"
    "\<And>rel. rel \<in> set (flow_relations flow) \<Longrightarrow> relation_shape rel"
  using assms
  by (auto simp: flow_shape_def dict_get_res_dict flow_tasks_def flow_relations_def is_list_def
      is_dict_def [of "jget_or flow ''tasks'' (JDict [])"] split: json.splits)

lemma task_ids_dict [simp]: "task_ids (JDict kvs) = Inr (map fst kvs)"
proof -
  have "concat (map (\<lambda>x. case x of JStr s \<Rightarrow> [s] | _ \<Rightarrow> []) (map (\<lambda>kv. JStr (fst kv)) kvs)) = map fst kvs"
    by (induction kvs) auto
  then show ?thesis by (simp add: task_ids_def iter_res_def)
qed

lemma build_adj_shape:
  assumes "\<forall>rel \<in> set rels. relation_shape rel"
  shows "\<exists>adj'. build_adj tids rels adj = Inr adj' \<and> (\<forall>u x. x \<in> set (adj' u) \<longleftrightarrow> x \<in> set (adj u) \<or>
      u \<in> set tids \<and> (\<exists>rel \<in> set rels. rel_end ''from'' rel = JStr u \<and> rel_end ''to'' rel = x))"
  using assms
proof (induction rels arbitrary: adj)
  case (Cons rel rels)
  show ?case
  proof (cases "\<exists>s. rel_end ''from'' rel = JStr s \<and> s \<in> set tids")
    case True
    then obtain s where s: "rel_end ''from'' rel = JStr s" "s \<in> set tids" by blast
    let ?adj = "adj(s := adj s @ [rel_end ''to'' rel])"
    have step: "build_adj tids (rel # rels) adj = build_adj tids rels ?adj"
      using Cons.prems by (simp add: relation_shapeD [of rel, unfolded s(1)] s)
    obtain adj' where "build_adj tids rels ?adj = Inr adj'"
      and "\<forall>u x. x \<in> set (adj' u) \<longleftrightarrow> x \<in> set (?adj u) \<or>
        u \<in> set tids \<and> (\<exists>rel \<in> set rels. rel_end ''from'' rel = JStr u \<and> rel_end ''to'' rel = x)"
      using Cons.IH [of ?adj] Cons.prems by (metis list.set_intros(2))
    with s step show ?thesis by (intro exI [of _ adj']) auto
  next
    case False
    have "build_adj tids (rel # rels) adj = build_adj tids rels adj"
      using Cons.prems False by (auto simp: relation_shapeD split: json.splits)
    with Cons.IH [of adj] Cons.prems False show ?thesis by auto
  qed
qed simp

lemma check_cycles_shape:
  assumes shape: "flow_shape flow" and depth: "length (flow_tasks flow) \<le> depth"
  shows "(check_cycles depth flow = Inr [] \<and> acyclic (task_graph flow)) \<or>
    (\<exists>c. check_cycles depth flow = Inr [CycleDetected (c @ [hd c])] \<and> is_cycle (task_graph flow) c)"
proof -
  let ?T = "fst ` set (flow_tasks flow)" and ?tids = "map fst (flow_tasks flow)"
  obtain adj where adj: "build_adj ?tids (flow_relations flow) (\<lambda>_. []) = Inr adj"
    and mem: "\<forall>u x. x \<in> set (adj u) \<longleftrightarrow>
      u \<in> set ?tids \<and> (\<exists>rel \<in> set (flow_relations flow). rel_end ''from'' rel = JStr u \<and> rel_end ''to'' rel = x)"
    using build_adj_shape [of "flow_relations flow" ?tids "\<lambda>_. []"] flow_shapeD(3) [OF shape] by auto
  have graph: "flow_edges ?T adj = task_graph flow"
    using mem by (auto simp: flow_edges_def task_graph_def)
  have hash: "\<forall>u \<in> ?T. \<forall>nb \<in> set (adj u). hashable nb"
    using mem flow_shapeD(3) [OF shape] by (auto simp: relation_shape_def)
  have card: "card ?T \<le> depth"
    using depth card_image_le [of "set (flow_tasks flow)" fst] card_length [of "flow_tasks flow"] by auto
  let ?color = "\<lambda>t. if t \<in> set ?tids then Some WHITE else None"
  have "black_edges (flow_edges ?T adj) ?color = {}" by (auto simp: black_edges_def split: if_splits)
  then have "dfs_inv ?T adj ?color []"
    by (auto simp: dfs_inv_def dom_def acyclic_def split: if_splits)
  moreover have "check_cycles depth flow = dfs_roots depth adj ?tids ?color"
    using adj by (simp add: check_cycles_def flow_shapeD [OF shape] iter_res_def)
  ultimately show ?thesis
    using roots_ok [of ?T adj depth ?color ?tids] hash card graph by auto
qed

subsection \<open>The other checks on a well-shaped flow\<close>

definition task_known :: "json \<Rightarrow> json option \<Rightarrow> bool" where
  "task_known flow v \<longleftrightarrow> (\<exists>t \<in> set (map fst (flow_tasks flow)). v = Some (JStr t))"

definition full_key :: "json \<Rightarrow> json \<times> json \<times> json" where
  "full_key rel = (rel_end ''from'' rel, rel_end ''to'' rel, jget_or rel ''type'' (JStr ''success''))"

text \<open>No two relations with the same endpoints and type.\<close>

definition relations_unique :: "json \<Rightarrow> bool" where
  "relations_unique flow \<longleftrightarrow> sorted_wrt (\<lambda>a b. \<not> key_eq b a) (map full_key (flow_relations flow))"

lemma endpoint_errors_shape:
  assumes "v = None \<or> (\<exists>x. v = Some x \<and> hashable x)"
  shows "\<exists>es. endpoint_errors (JDict (flow_tasks flow)) v miss unk = Inr es \<and> (es = [] \<longleftrightarrow> task_known flow v)"
  using assms by (auto simp: endpoint_errors_def in_res_def task_known_def)

lemma rel_end_hashable:
  assumes "relation_shape rel" "k = ''from'' \<or> k = ''to''"
  shows "jget rel k = None \<or> (\<exists>x. jget rel k = Some x \<and> hashable x)"
  using assms by (auto simp: relation_shape_def rel_end_def jget_or_def split: option.splits)

lemma relation_errors_shape:
  assumes "\<forall>rel \<in> set rels. relation_shape rel"
  shows "\<exists>es. relation_errors (JDict (flow_tasks flow)) i rels = Inr es \<and>
    (es = [] \<longleftrightarrow> (\<forall>rel \<in> set rels. task_known flow (jget rel ''from'') \<and> task_known flow (jget rel ''to'')))"
  using assms
proof (induction rels arbitrary: i)
  case (Cons rel rels)
  obtain rest where "relation_errors (JDict (flow_tasks flow)) (Suc i) rels = Inr rest"
    "rest = [] \<longleftrightarrow> (\<forall>rel \<in> set rels. task_known flow (jget rel ''from'') \<and> task_known flow (jget rel ''to''))"
    using Cons.IH [of "Suc i"] Cons.prems by (metis list.set_intros(2))
  moreover obtain e1 where "endpoint_errors (JDict (flow_tasks flow)) (jget rel ''from'') (RelationNoFrom i) (SourceNotFound i) = Inr e1"
    "e1 = [] \<longleftrightarrow> task_known flow (jget rel ''from'')"
    using endpoint_errors_shape rel_end_hashable Cons.prems by (metis list.set_intros(1))
  moreover obtain e2 where "endpoint_errors (JDict (flow_tasks flow)) (jget rel ''to'') (RelationNoTo i) (TargetNotFound i) = Inr e2"
    "e2 = [] \<longleftrightarrow> task_known flow (jget rel ''to'')"
    using endpoint_errors_shape rel_end_hashable Cons.prems by (metis list.set_intros(1))
  moreover have "is_dict rel" using Cons.prems by (simp add: relation_shape_def)
  ultimately show ?case by auto
qed simp

lemma relation_key_shape: "relation_shape rel \<Longrightarrow> relation_key rel = Inr (full_key rel)"
  by (simp add: relation_key_def relation_shapeD full_key_def)

lemma duplicate_errors_shape:
  assumes "\<forall>rel \<in> set rels. relation_shape rel"
  shows "\<exists>es. duplicate_errors seen rels = Inr es \<and>
    (es = [] \<longleftrightarrow> sorted_wrt (\<lambda>a b. \<not> key_eq b a) (map full_key rels) \<and>
      (\<forall>rel \<in> set rels. \<forall>k \<in> set seen. \<not> key_eq (full_key rel) k))"
  using assms
proof (induction rels arbitrary: seen)
  case (Cons rel rels)
  obtain rest where "duplicate_errors (full_key rel # seen) rels = Inr rest"
    "rest = [] \<longleftrightarrow> sorted_wrt (\<lambda>a b. \<not> key_eq b a) (map full_key rels) \<and>
      (\<forall>r \<in> set rels. \<forall>k \<in> set (full_key rel # seen). \<not> key_eq (full_key r) k)"
    using Cons.IH [of "full_key rel # seen"] Cons.prems by (metis list.set_intros(2))
  then show ?case using Cons.prems by (auto simp: relation_key_shape list_ex_iff)
qed simp

lemma check_relations_shape:
  assumes shape: "flow_shape flow"
  shows "\<exists>es. check_relations flow = Inr es \<and>
    (es = [] \<longleftrightarrow> (\<forall>rel \<in> set (flow_relations flow). task_known flow (jget rel ''from'') \<and> task_known flow (jget rel ''to'')) \<and>
      relations_unique flow)"
proof -
  have rels: "\<forall>rel \<in> set (flow_relations flow). relation_shape rel" using flow_shapeD(3) [OF shape] by blast
  show ?thesis
    using relation_errors_shape [OF rels, of flow 0] duplicate_errors_shape [OF rels, of "[]"]
    by (auto simp: check_relations_def flow_shapeD [OF shape] iter_res_def relations_unique_def)
qed

lemma check_tasks_shape:
  assumes shape: "flow_shape flow"
  shows "\<exists>es. check_tasks flow = Inr es \<and>
    (es = [] \<longleftrightarrow> flow_tasks flow \<noteq> [] \<and> (\<forall>kv \<in> set (flow_tasks flow). jget (snd kv) ''type'' \<noteq> None))"
proof -
  have "\<forall>kv \<in> set (flow_tasks flow). is_dict (snd kv)" using shape by (simp add: flow_shape_def)
  then show ?thesis
    by (auto simp: check_tasks_def flow_shapeD [OF shape] jtruthy_def items_res_def split: if_splits) force+
qed

lemma connected_set_shape:
  assumes "\<forall>rel \<in> set rels. relation_shape rel"
  shows "\<exists>cs. connected_set rels = Inr cs \<and>
    (\<forall>x. x \<in> set cs \<longleftrightarrow> (\<exists>rel \<in> set rels. x = rel_end ''from'' rel \<or> x = rel_end ''to'' rel))"
  using assms
proof (induction rels)
  case (Cons rel rels)
  then obtain cs where "connected_set rels = Inr cs"
    "\<forall>x. x \<in> set cs \<longleftrightarrow> (\<exists>rel \<in> set rels. x = rel_end ''from'' rel \<or> x = rel_end ''to'' rel)" by auto
  then show ?case using Cons.prems by (auto simp: relation_shapeD)
qed simp

lemma check_connectivity_shape:
  assumes shape: "flow_shape flow"
  shows "\<exists>ws. check_connectivity flow = Inr ws \<and>
    (\<forall>t. Disconnected t \<in> set ws \<longleftrightarrow> 1 < length (flow_tasks flow) \<and> t \<in> fst ` set (flow_tasks flow) \<and>
      (\<forall>rel \<in> set (flow_relations flow). rel_end ''from'' rel \<noteq> JStr t \<and> rel_end ''to'' rel \<noteq> JStr t))"
proof -
  have "\<forall>rel \<in> set (flow_relations flow). relation_shape rel" using flow_shapeD(3) [OF shape] by blast
  then obtain cs where "connected_set (flow_relations flow) = Inr cs"
    "\<forall>x. x \<in> set cs \<longleftrightarrow> (\<exists>rel \<in> set (flow_relations flow). x = rel_end ''from'' rel \<or> x = rel_end ''to'' rel)"
    using connected_set_shape by blast
  moreover from this have "check_connectivity flow = Inr (if length (flow_tasks flow) \<le> 1 then []
      else map Disconnected (filter (\<lambda>t. JStr t \<notin> set cs) (map fst (flow_tasks flow))))"
    by (simp add: check_connectivity_def flow_shapeD [OF shape] len_res_def iter_res_def)
  ultimately show ?thesis by (auto simp: image_iff)
qed

lemma task_type_warnings_shape:
  assumes "\<forall>kv \<in> set kvs. is_dict (snd kv) \<and> hashable (jget_or (snd kv) ''type'' (JStr []))"
  shows "\<exists>ws. task_type_warnings registered kvs = Inr ws \<and> (\<forall>t. Disconnected t \<notin> set ws)"
  using assms
proof (induction kvs)
  case (Cons kv kvs)
  then show ?case by (cases kv) (auto simp: dict_get_res_dict)
qed simp

lemma check_task_types_shape:
  assumes shape: "flow_shape flow"
  shows "\<exists>ws. check_task_types registered flow = Inr ws \<and> (\<forall>t. Disconnected t \<notin> set ws)"
  using task_type_warnings_shape [of "flow_tasks flow"] shape
  by (simp add: check_task_types_def flow_shapeD [OF shape] items_res_def) (simp add: flow_shape_def)

text \<open>What makes a flow valid, written without the algorithm.\<close>

definition flow_valid :: "json \<Rightarrow> bool" where
  "flow_valid flow \<longleftrightarrow>
     jget flow ''id'' \<noteq> None \<and> jget flow ''name'' \<noteq> None \<and> jget flow ''tasks'' \<noteq> None \<and>
     flow_tasks flow \<noteq> [] \<and> (\<forall>kv \<in> set (flow_tasks flow). jget (snd kv) ''type'' \<noteq> None) \<and>
     (\<forall>rel \<in> set (flow_relations flow). task_known flow (jget rel ''from'') \<and> task_known flow (jget rel ''to'')) \<and>
     relations_unique flow \<and> acyclic (task_graph flow)"

lemma check_structure_shape:
  assumes "flow_shape flow"
  shows "check_structure flow = [] \<longleftrightarrow>
    jget flow ''id'' \<noteq> None \<and> jget flow ''name'' \<noteq> None \<and> jget flow ''tasks'' \<noteq> None"
  using assms
  by (auto simp: check_structure_def flow_shape_def jget_or_def split: option.splits if_splits)

subsection \<open>Messages about the shape of the document\<close>

definition shape_error :: "verr \<Rightarrow> bool" where
  "shape_error e = (case e of FlowNotDict \<Rightarrow> True | TaskNotDict _ \<Rightarrow> True | RelationNotDict _ \<Rightarrow> True | _ \<Rightarrow> False)"

lemma dict_get_res_Inr: "dict_get_res d k v = Inr x \<Longrightarrow> is_dict d"
  by (simp add: dict_get_res_def is_dict_def split: json.splits)

lemma endpoint_errors_kind:
  "endpoint_errors tasks v miss unk = Inr es \<Longrightarrow> \<not> shape_error miss \<Longrightarrow> (\<And>x. \<not> shape_error (unk x)) \<Longrightarrow>
   \<not> list_ex shape_error es"
  by (auto simp: endpoint_errors_def bind_res_Inr_iff split: option.splits if_splits)

lemma duplicate_errors_kind:
  "duplicate_errors seen rels = Inr es \<Longrightarrow> (\<forall>rel \<in> set rels. is_dict rel) \<and> \<not> list_ex shape_error es"
proof (induction rels arbitrary: seen es)
  case (Cons rel rels)
  obtain key rest where k: "relation_key rel = Inr key" and rest: "duplicate_errors (key # seen) rels = Inr rest"
    and es: "es = (if list_ex (key_eq key) seen then [DuplicateRelation (fst key) (fst (snd key)) (snd (snd key))] else []) @ rest"
    using Cons.prems by (auto simp: bind_res_Inr_iff)
  have "is_dict rel" using k by (auto simp: relation_key_def bind_res_Inr_iff dest: dict_get_res_Inr)
  then show ?case using Cons.IH [OF rest] es by (simp add: shape_error_def)
qed simp

lemma relation_errors_kind:
  "relation_errors tasks i rels = Inr es \<Longrightarrow> \<forall>rel \<in> set rels. is_dict rel \<Longrightarrow> \<not> list_ex shape_error es"
proof (induction rels arbitrary: i es)
  case (Cons rel rels)
  then obtain e1 e2 rest where
    "endpoint_errors tasks (jget rel ''from'') (RelationNoFrom i) (SourceNotFound i) = Inr e1"
    "endpoint_errors tasks (jget rel ''to'') (RelationNoTo i) (TargetNotFound i) = Inr e2"
    "relation_errors tasks (Suc i) rels = Inr rest" "es = (e1 @ e2) @ rest"
    by (auto simp: bind_res_Inr_iff)
  moreover from this have "\<not> list_ex shape_error e1" "\<not> list_ex shape_error e2"
    using endpoint_errors_kind by (auto simp: shape_error_def)
  ultimately show ?case using Cons.IH Cons.prems(2) by simp
qed simp

lemma dfs_roots_kind: "dfs_roots n adj tids color = Inr es \<Longrightarrow> \<not> list_ex shape_error es"
proof (induction tids arbitrary: color)
  case (Cons tid tids)
  show ?case
  proof (cases "color tid = Some WHITE")
    case True
    then obtain result color' path where "dfs n adj tid color [] = Inr (result, color', path)"
      using Cons.prems by (auto simp: bind_res_Inr_iff)
    then show ?thesis using Cons True by (auto simp: shape_error_def split: option.splits if_splits)
  next
    case False
    then show ?thesis using Cons by simp
  qed
qed simp

lemma task_type_warnings_dicts: "task_type_warnings registered kvs = Inr ws \<Longrightarrow> \<forall>kv \<in> set kvs. is_dict (snd kv)"
  by (induction registered kvs arbitrary: ws rule: task_type_warnings.induct)
    (auto simp: bind_res_Inr_iff dest: dict_get_res_Inr)

lemma check_tasks_kind:
  assumes "check_tasks flow = Inr es" and "check_task_types registered flow = Inr ws"
  shows "is_dict flow \<and> \<not> list_ex shape_error es"
proof -
  obtain tasks where tasks: "dict_get_res flow ''tasks'' (JDict []) = Inr tasks"
    using assms(1) by (auto simp: check_tasks_def bind_res_Inr_iff)
  obtain kvs where kvs: "tasks = JDict kvs" "\<forall>kv \<in> set kvs. is_dict (snd kv)"
    using assms(2) tasks task_type_warnings_dicts
    by (fastforce simp: check_task_types_def items_res_def bind_res_Inr_iff split: json.splits)
  have "es = (if kvs = [] then [NoTasks] else concat (map (\<lambda>(tid, cfg).
           if \<not> is_dict cfg then [TaskNotDict tid]
           else if jget cfg ''type'' = None then [TaskNoType tid] else []) kvs))"
    using assms(1) tasks kvs(1) by (auto simp: check_tasks_def jtruthy_def items_res_def split: if_splits)
  then show ?thesis
    using kvs(2) dict_get_res_Inr [OF tasks] by (auto simp: list_ex_iff shape_error_def split: if_splits)
qed

lemma check_relations_kind: "check_relations flow = Inr es \<Longrightarrow> \<not> list_ex shape_error es"
  using duplicate_errors_kind relation_errors_kind
  by (fastforce simp: check_relations_def bind_res_Inr_iff)

lemma check_structure_kind: "is_dict flow \<Longrightarrow> \<not> list_ex shape_error (check_structure flow)"
  by (simp add: check_structure_def shape_error_def split: option.splits)

subsection \<open>Properties of the validator\<close>

text \<open>A concrete flow for the witnesses: two tasks that feed each other.\<close>

definition demo_flow :: json where
  "demo_flow = JDict [(''id'', JStr ''f''), (''name'', JStr ''F''),
     (''tasks'', JDict [(''a'', JDict [(''type'', JStr ''log'')]), (''b'', JDict [(''type'', JStr ''log'')])]),
     (''relations'', JList [JDict [(''from'', JStr ''a''), (''to'', JStr ''b'')], JDict [(''from'', JStr ''b''), (''to'', JStr ''a'')]])]"

lemma demo_flow_shape: "flow_shape demo_flow"
  by (simp add: flow_shape_def demo_flow_def is_dict_def is_list_def jget_or_def jget_def flow_tasks_def
      flow_relations_def relation_shape_def rel_end_def)

text \<open>
  C32: On every flow of the right shape the validator returns, given a recursion depth of at least
  the number of tasks, and it calls the flow valid exactly when the flow has its required fields, at
  least one task, a type for each task, relations between known tasks only, no duplicate relation and
  no cycle.
\<close>

theorem validate_exact:
  assumes shape: "flow_shape flow" and depth: "length (flow_tasks flow) \<le> depth"
  shows "\<exists>r. validate depth registered flow = Inr r \<and> (vr_valid r \<longleftrightarrow> flow_valid flow) \<and>
    (vr_valid r \<longleftrightarrow> vr_errors r = []) \<and>
    (\<forall>t. Disconnected t \<in> set (vr_warnings r) \<longleftrightarrow>
      1 < length (flow_tasks flow) \<and> t \<in> fst ` set (flow_tasks flow) \<and>
      (\<forall>rel \<in> set (flow_relations flow). rel_end ''from'' rel \<noteq> JStr t \<and> rel_end ''to'' rel \<noteq> JStr t))"
proof -
  obtain e2 where e2: "check_tasks flow = Inr e2"
    "e2 = [] \<longleftrightarrow> flow_tasks flow \<noteq> [] \<and> (\<forall>kv \<in> set (flow_tasks flow). jget (snd kv) ''type'' \<noteq> None)"
    using check_tasks_shape [OF shape] by blast
  obtain e3 where e3: "check_relations flow = Inr e3"
    "e3 = [] \<longleftrightarrow> (\<forall>rel \<in> set (flow_relations flow). task_known flow (jget rel ''from'') \<and> task_known flow (jget rel ''to'')) \<and>
      relations_unique flow"
    using check_relations_shape [OF shape] by blast
  obtain e4 where e4: "check_cycles depth flow = Inr e4" "e4 = [] \<longleftrightarrow> acyclic (task_graph flow)"
    using check_cycles_shape [OF shape depth] is_cycle_not_acyclic by blast
  obtain w1 where w1: "check_connectivity flow = Inr w1"
    "\<forall>t. Disconnected t \<in> set w1 \<longleftrightarrow> 1 < length (flow_tasks flow) \<and> t \<in> fst ` set (flow_tasks flow) \<and>
      (\<forall>rel \<in> set (flow_relations flow). rel_end ''from'' rel \<noteq> JStr t \<and> rel_end ''to'' rel \<noteq> JStr t)"
    using check_connectivity_shape [OF shape] by blast
  obtain w2 where w2: "check_task_types registered flow = Inr w2" "\<forall>t. Disconnected t \<notin> set w2"
    using check_task_types_shape [OF shape] by blast
  show ?thesis
    using e2 e3 e4 w1 w2 check_structure_shape [OF shape]
    by (auto simp: validate_def flow_valid_def)
qed

theorem validate_exact_witness:
  "\<exists>r. validate 2 [''log''] demo_flow = Inr r \<and> (vr_valid r \<longleftrightarrow> flow_valid demo_flow)"
proof -
  have "length (flow_tasks demo_flow) \<le> 2" by (simp add: demo_flow_def flow_tasks_def jget_or_def jget_def)
  from validate_exact [OF demo_flow_shape this] show ?thesis by blast
qed

text \<open>
  C23: The depth-first search reports exactly the cyclic flows: with a recursion depth of at least the
  number of tasks it returns no error on an acyclic task graph, and otherwise one error whose path is
  a real cycle of the relations, closed by its first task.
\<close>

theorem check_cycles_exact:
  assumes "flow_shape flow" and "length (flow_tasks flow) \<le> depth"
  shows "(acyclic (task_graph flow) \<longrightarrow> check_cycles depth flow = Inr []) \<and>
    (\<not> acyclic (task_graph flow) \<longrightarrow>
      (\<exists>c. check_cycles depth flow = Inr [CycleDetected (c @ [hd c])] \<and> is_cycle (task_graph flow) c))"
  using check_cycles_shape [OF assms] is_cycle_not_acyclic by blast

theorem check_cycles_exact_witness:
  "check_cycles 2 demo_flow = Inr [CycleDetected [''a'', ''b'', ''a'']] \<and> \<not> acyclic (task_graph demo_flow)"
proof -
  have run: "check_cycles 2 demo_flow = Inr [CycleDetected [''a'', ''b'', ''a'']]" by code_simp
  have "length (flow_tasks demo_flow) \<le> 2" by (simp add: demo_flow_def flow_tasks_def jget_or_def jget_def)
  from check_cycles_exact [OF demo_flow_shape this] run show ?thesis by auto
qed

text \<open>
  The messages for a flow, a task or a relation that is not an object are never returned: on such
  a document \<open>validate\<close> raises, because a later check calls a method of the value the first check
  had only reported.
\<close>

theorem shape_messages_unreachable:
  assumes "validate depth registered flow = Inr r"
  shows "FlowNotDict \<notin> set (vr_errors r) \<and> TaskNotDict t \<notin> set (vr_errors r) \<and> RelationNotDict i \<notin> set (vr_errors r)"
proof -
  obtain e2 e3 e4 w2 where e: "check_tasks flow = Inr e2" "check_relations flow = Inr e3" "check_cycles depth flow = Inr e4"
      "check_task_types registered flow = Inr w2" "vr_errors r = check_structure flow @ e2 @ e3 @ e4"
    using assms by (auto simp: validate_def bind_res_Inr_iff Let_def)
  have "\<not> list_ex shape_error e4"
    using e(3) dfs_roots_kind by (fastforce simp: check_cycles_def bind_res_Inr_iff)
  then have "\<not> list_ex shape_error (vr_errors r)"
    using e check_tasks_kind [OF e(1,4)] check_relations_kind check_structure_kind by simp
  then show ?thesis by (force simp: list_ex_iff shape_error_def)
qed

theorem shape_messages_unreachable_witness:
  "\<exists>r. validate 2 [''log''] demo_flow = Inr r \<and> RelationNotDict 0 \<notin> set (vr_errors r)"
proof -
  have "isl (validate 2 [''log''] demo_flow) = False" by code_simp
  then obtain r where r: "validate 2 [''log''] demo_flow = Inr r" by (cases "validate 2 [''log''] demo_flow") auto
  from shape_messages_unreachable [OF r] r show ?thesis by blast
qed

end
