(* ===== verification/Cron.thy ===== *)
theory Cron
  imports Json
begin

section \<open>CRON expressions\<close>

text \<open>
  \<open>engine/cron_parser.py\<close>.  A set of values is a list whose order and repetitions do not
  matter.  The date is the four fields of \<open>datetime\<close> the parser reads and \<open>weekday()\<close>
  (Monday is 0).
\<close>

record cron_date =
  cd_minute :: int
  cd_hour :: int
  cd_day :: int
  cd_month :: int
  cd_weekday :: int

definition int_res :: "string \<Rightarrow> int res" where
  "int_res s = (case py_int s of None \<Rightarrow> Inl (ValueError ''invalid literal for int()'') | Some n \<Rightarrow> Inr n)"

text \<open>\<open>range(0, stop, step)\<close>\<close>

definition range_step :: "int \<Rightarrow> int \<Rightarrow> (int list) res" where
  "range_step stop step =
     (if step = 0 then Inl (ValueError ''range() arg 3 must not be zero'')
      else if step > 0 then Inr (map (\<lambda>i. step * int i) [0..<nat ((stop + step - 1) div step)])
      else Inr (map (\<lambda>i. step * int i) [0..<nat ((- stop + (- step) - 1) div (- step))]))"

definition parse_field :: "string \<Rightarrow> int \<Rightarrow> (int list) res" where
  "parse_field field max_value =
     (if py_startswith field ''*/''
      then bind_res (int_res (drop 2 field)) (\<lambda>step. range_step (max_value + 1) step)
      else if field = ''*'' then Inr [0..max_value]
      else if CHR ''-'' \<in> set field \<and> \<not> py_startswith field ''-''
      then (case py_split_on (CHR ''-'') [] field of
              [a, b] \<Rightarrow> bind_res (int_res a) (\<lambda>start. bind_res (int_res b) (\<lambda>end. Inr [start..end]))
            | _ \<Rightarrow> Inl (ValueError ''too many values to unpack''))
      else bind_res (int_res field) (\<lambda>v. Inr [v]))"

definition cron_limits :: "int list" where
  "cron_limits = [59, 23, 31, 12, 6]"

fun parse_fields :: "string list \<Rightarrow> int list \<Rightarrow> (int list list) res" where
  "parse_fields (f # fs) (l # ls) =
     bind_res (parse_field f l) (\<lambda>vs. bind_res (parse_fields fs ls) (\<lambda>rest. Inr (vs # rest)))"
| "parse_fields _ _ = Inr []"

definition cron_parse :: "string \<Rightarrow> (int list list) res" where
  "cron_parse expr =
     (let fields = py_split_ws [] (py_strip expr)
      in if length fields \<noteq> 5 then Inl (ValueError ''Invalid CRON expression'')
         else parse_fields fields cron_limits)"

definition cron_matches :: "string \<Rightarrow> cron_date \<Rightarrow> bool" where
  "cron_matches expr dt =
     (case cron_parse expr of
        Inl _ \<Rightarrow> False
      | Inr parsed \<Rightarrow>
          if cd_minute dt \<notin> set (parsed ! 0) then False
          else if cd_hour dt \<notin> set (parsed ! 1) then False
          else if cd_day dt \<notin> set (parsed ! 2) then False
          else if cd_month dt \<notin> set (parsed ! 3) then False
          else if (cd_weekday dt + 1) mod 7 \<notin> set (parsed ! 4) then False
          else True)"

subsection \<open>Decimal numerals\<close>

lemma of_char_digit: "k < 10 \<Longrightarrow> of_char (char_of (48 + k) :: char) = (48 + k :: nat)"
  by simp

lemma digit_char: "k < 10 \<Longrightarrow> is_digit (char_of (48 + k)) \<and> digit_value (char_of (48 + k)) = k"
  by (simp add: is_digit_def digit_value_def)

lemma digits_no_ws: "is_digit c \<Longrightarrow> \<not> is_ws c \<and> c \<noteq> CHR ''-'' \<and> c \<noteq> CHR ''+'' \<and> c \<noteq> CHR ''*''"
  by (auto simp: is_digit_def is_ws_def Let_def)

lemma py_digits_all:
  "\<forall>c \<in> set ds. is_digit c \<Longrightarrow>
   py_digits acc prev ds = (if ds = [] \<and> \<not> prev then None
     else Some (foldl (\<lambda>a c. 10 * a + digit_value c) acc ds))"
  by (induction ds arbitrary: acc prev) auto

lemma nat_digits_digits: "\<forall>c \<in> set (nat_digits n). is_digit c"
proof (induction n rule: nat_digits.induct)
  case (1 n)
  then show ?case using digit_char [of n] digit_char [of "n mod 10"]
    by (subst nat_digits.simps) auto
qed

lemma nat_digits_nonempty: "nat_digits n \<noteq> []"
  by (subst nat_digits.simps) simp

lemma nat_digits_value: "foldl (\<lambda>a c. 10 * a + digit_value c) 0 (nat_digits n) = n"
proof (induction n rule: nat_digits.induct)
  case (1 n)
  then show ?case using digit_char [of n] digit_char [of "n mod 10"]
    by (subst nat_digits.simps) auto
qed

lemma py_int_nat_digits: "py_int (nat_digits n) = Some (int n)"
proof -
  obtain c cs where c: "nat_digits n = c # cs" using nat_digits_nonempty by (cases "nat_digits n") auto
  have "is_digit c" using nat_digits_digits [of n] c by simp
  then have "c \<noteq> CHR ''-''" "c \<noteq> CHR ''+''" using digits_no_ws by blast+
  moreover have "py_strip (nat_digits n) = nat_digits n"
    using nat_digits_digits [of n] digits_no_ws by (intro py_strip_no_ws) blast
  moreover have "py_digits 0 False (nat_digits n) = Some n"
    using py_digits_all [OF nat_digits_digits, of 0 False n] nat_digits_nonempty nat_digits_value by simp
  ultimately show ?thesis unfolding py_int_def by (simp add: c)
qed

lemma int_res_nat_digits [simp]: "int_res (nat_digits n) = Inr (int n)"
  by (simp add: int_res_def py_int_nat_digits)

lemma py_split_on_free: "sep \<notin> set s \<Longrightarrow> py_split_on sep cur s = [rev cur @ s]"
  by (induction s arbitrary: cur) auto

lemma py_split_on_append:
  "sep \<notin> set s \<Longrightarrow> py_split_on sep cur (s @ sep # t) = (rev cur @ s) # py_split_on sep [] t"
  by (induction s arbitrary: cur) auto

lemma digits_free: "is_digit c = False \<Longrightarrow> c \<notin> set (nat_digits n)"
  using nat_digits_digits by blast

lemma set_range_step:
  assumes "0 < step" "0 < stop"
  obtains vs where "range_step stop step = Inr vs" "set vs = {v. 0 \<le> v \<and> v < stop \<and> step dvd v}"
proof -
  let ?n = "nat ((stop + step - 1) div step)"
  have "v \<in> (\<lambda>i. step * int i) ` {0..<?n} \<longleftrightarrow> 0 \<le> v \<and> v < stop \<and> step dvd v" for v
  proof
    assume "v \<in> (\<lambda>i. step * int i) ` {0..<?n}"
    then obtain i where "v = step * int i" "i \<in> {0..<?n}" by blast
    then have i: "v = step * int i" "i < ?n" by simp_all
    then have "int i \<le> (stop + step - 1) div step - 1" by linarith
    then have "step * int i \<le> step * ((stop + step - 1) div step - 1)"
      using assms(1) by (intro mult_left_mono) simp_all
    then have "step * int i \<le> step * ((stop + step - 1) div step) - step"
      by (simp add: right_diff_distrib)
    moreover have "step * ((stop + step - 1) div step) \<le> stop + step - 1"
      using assms(1) mult_div_mod_eq [of step "stop + step - 1"] pos_mod_sign [of step "stop + step - 1"] by linarith
    ultimately show "0 \<le> v \<and> v < stop \<and> step dvd v" using i assms(1) by auto
  next
    assume v: "0 \<le> v \<and> v < stop \<and> step dvd v"
    then obtain k where k: "v = step * k" by blast
    then have "0 \<le> k" using v assms(1) by (metis mult_less_0_iff not_le)
    moreover have "step * (k + 1) \<le> stop + step - 1" using v k by (simp add: algebra_simps)
    then have "k + 1 \<le> (stop + step - 1) div step"
      using assms(1) by (metis zdiv_mono1 nonzero_mult_div_cancel_left less_irrefl)
    ultimately have "nat k \<in> {0..<?n}" "v = step * int (nat k)" using k by auto
    then show "v \<in> (\<lambda>i. step * int i) ` {0..<?n}" by blast
  qed
  then show thesis using assms by (intro that) (auto simp: range_step_def)
qed

subsection \<open>Splitting an expression\<close>

definition plain_field :: "string \<Rightarrow> bool" where
  "plain_field f \<longleftrightarrow> f \<noteq> [] \<and> (\<forall>c \<in> set f. \<not> is_ws c)"

lemma space_is_ws: "is_ws CHR '' ''"
  by (simp add: is_ws_def)

lemma py_split_ws_field:
  "\<forall>c \<in> set f. \<not> is_ws c \<Longrightarrow> py_split_ws cur (f @ CHR '' '' # t) =
   (if rev cur @ f = [] then py_split_ws [] t else (rev cur @ f) # py_split_ws [] t)"
  by (induction f arbitrary: cur) (auto simp: space_is_ws)

lemma py_split_ws_last: "\<forall>c \<in> set f. \<not> is_ws c \<Longrightarrow> py_split_ws cur f = (if rev cur @ f = [] then [] else [rev cur @ f])"
  by (induction f arbitrary: cur) auto

lemma py_split_ws_join:
  assumes "\<forall>f \<in> set fs. plain_field f"
  shows "py_split_ws [] (join_with '' '' fs) = fs"
  using assms
proof (induction "'' ''" fs rule: join_with.induct)
  case (3 x y ys)
  then show ?case by (simp add: plain_field_def py_split_ws_field)
qed (auto simp: plain_field_def py_split_ws_last)

lemma join_with_ends:
  assumes "fs \<noteq> []" "\<forall>f \<in> set fs. plain_field f"
  shows "join_with '' '' fs \<noteq> [] \<and> hd (join_with '' '' fs) = hd (hd fs) \<and> last (join_with '' '' fs) = last (last fs)"
  using assms
proof (induction "'' ''" fs rule: join_with.induct)
  case (3 x y ys)
  then show ?case by (auto simp: plain_field_def)
qed (auto simp: plain_field_def)

lemma py_strip_join:
  assumes "fs \<noteq> []" "\<forall>f \<in> set fs. plain_field f"
  shows "py_strip (join_with '' '' fs) = join_with '' '' fs"
proof -
  note e = join_with_ends [OF assms]
  have "plain_field (hd fs)" "plain_field (last fs)" using assms by auto
  then have "\<not> is_ws (hd (join_with '' '' fs))" "\<not> is_ws (last (join_with '' '' fs))"
    using e by (auto simp: plain_field_def)
  then have "dropWhile is_ws (join_with '' '' fs) = join_with '' '' fs"
    "dropWhile is_ws (rev (join_with '' '' fs)) = rev (join_with '' '' fs)"
    using e by (auto simp: dropWhile_eq_self_iff hd_rev)
  then show ?thesis by (simp add: py_strip_def)
qed

subsection \<open>The field forms\<close>

lemma parse_field_star: "\<exists>vs. parse_field ''*'' m = Inr vs \<and> set vs = {0..m}"
  by (simp add: parse_field_def)

lemma parse_field_step:
  assumes "0 \<le> m" "0 < n"
  shows "\<exists>vs. parse_field (''*/'' @ nat_digits n) m = Inr vs \<and> set vs = {v. 0 \<le> v \<and> v \<le> m \<and> int n dvd v}"
proof -
  obtain vs where "range_step (m + 1) (int n) = Inr vs" "set vs = {v. 0 \<le> v \<and> v < m + 1 \<and> int n dvd v}"
    using set_range_step [of "int n" "m + 1"] assms by auto
  then show ?thesis by (auto simp: parse_field_def)
qed

lemma digit_head:
  obtains c cs where "nat_digits n = c # cs" "is_digit c" "c \<noteq> CHR ''-''" "c \<noteq> CHR ''*''"
proof -
  obtain c cs where c: "nat_digits n = c # cs" using nat_digits_nonempty by (cases "nat_digits n") auto
  moreover from c have "is_digit c" using nat_digits_digits [of n] by simp
  ultimately show thesis using that digits_no_ws by blast
qed

lemma dash_free: "CHR ''-'' \<notin> set (nat_digits n)"
  using nat_digits_digits digits_no_ws by blast

lemma parse_field_range:
  "\<exists>vs. parse_field (nat_digits a @ ''-'' @ nat_digits b) m = Inr vs \<and> set vs = {int a..int b}"
proof -
  obtain c cs where c: "nat_digits a = c # cs" "c \<noteq> CHR ''-''" "c \<noteq> CHR ''*''" by (rule digit_head)
  have "py_split_on (CHR ''-'') [] (nat_digits a @ ''-'' @ nat_digits b) = [nat_digits a, nat_digits b]"
    using py_split_on_append [OF dash_free, of "[]" a "nat_digits b"] py_split_on_free [OF dash_free, of "[]" b] by simp
  moreover have "\<not> py_startswith (nat_digits a @ ''-'' @ nat_digits b) ''*/''"
    "\<not> py_startswith (nat_digits a @ ''-'' @ nat_digits b) ''-''" "nat_digits a @ ''-'' @ nat_digits b \<noteq> ''*''"
    using c by simp_all
  ultimately show ?thesis by (simp add: parse_field_def)
qed

lemma parse_field_number: "\<exists>vs. parse_field (nat_digits a) m = Inr vs \<and> set vs = {int a}"
proof -
  obtain c cs where c: "nat_digits a = c # cs" "c \<noteq> CHR ''-''" "c \<noteq> CHR ''*''" by (rule digit_head)
  then have "\<not> py_startswith (nat_digits a) ''*/''" "nat_digits a \<noteq> ''*''" by simp_all
  then show ?thesis using dash_free [of a] by (simp add: parse_field_def)
qed

lemma parse_fields_Inr:
  "length fs = length ls \<Longrightarrow> parse_fields fs ls = Inr vss \<longleftrightarrow>
   length vss = length fs \<and> (\<forall>i < length fs. parse_field (fs ! i) (ls ! i) = Inr (vss ! i))"
proof (induction fs ls arbitrary: vss rule: parse_fields.induct)
  case (1 f fs l ls)
  then show ?case
    by (cases vss) (auto simp: bind_res_Inr_iff less_Suc_eq_0_disj)
qed auto

subsection \<open>Properties of the CRON parser\<close>

text \<open>
  C33: What the four field forms mean: with decimal numerals, \<open>*\<close> is every value from 0 to the
  limit, \<open>*/n\<close> the multiples of a positive \<open>n\<close> in that range, \<open>a-b\<close> the closed interval and a
  number itself; a step of zero raises \<open>ValueError\<close>.
\<close>

theorem parse_field_meaning:
  assumes "0 \<le> max_value" and "0 < n"
  shows "(\<exists>vs. parse_field ''*'' max_value = Inr vs \<and> set vs = {0..max_value}) \<and>
    (\<exists>vs. parse_field (''*/'' @ nat_digits n) max_value = Inr vs \<and>
       set vs = {v. 0 \<le> v \<and> v \<le> max_value \<and> int n dvd v}) \<and>
    (\<exists>vs. parse_field (nat_digits a @ ''-'' @ nat_digits b) max_value = Inr vs \<and> set vs = {int a..int b}) \<and>
    (\<exists>vs. parse_field (nat_digits a) max_value = Inr vs \<and> set vs = {int a}) \<and>
    (\<exists>e. parse_field ''*/0'' max_value = Inl (ValueError e))"
proof -
  have "int_res ''0'' = Inr 0" by code_simp
  then have "parse_field ''*/0'' max_value = Inl (ValueError ''range() arg 3 must not be zero'')"
    by (simp add: parse_field_def range_step_def)
  then show ?thesis
    using parse_field_star parse_field_step [OF assms] parse_field_range parse_field_number by blast
qed

theorem parse_field_meaning_witness:
  "\<exists>vs. parse_field (''*/'' @ nat_digits 15) 59 = Inr vs \<and> set vs = {v. 0 \<le> v \<and> v \<le> 59 \<and> 15 dvd v}"
  using parse_field_meaning [of 59 15] by simp

text \<open>
  An expression of five fields matches a date exactly when every field parses and contains the
  date's minute, hour, day, month and weekday, the latter counted from Sunday as 0; an expression that
  does not parse, or has another number of fields, matches nothing and does not raise.
\<close>

theorem cron_matches_fields:
  assumes "\<forall>f \<in> set fs. plain_field f" and "fs \<noteq> []"
  shows "cron_matches (join_with '' '' fs) dt \<longleftrightarrow> length fs = 5 \<and>
    (\<forall>i < 5. \<exists>vs. parse_field (fs ! i) (cron_limits ! i) = Inr vs \<and>
       [cd_minute dt, cd_hour dt, cd_day dt, cd_month dt, (cd_weekday dt + 1) mod 7] ! i \<in> set vs)"
proof (cases "length fs = 5")
  case False
  then show ?thesis using assms
    by (simp add: cron_matches_def cron_parse_def Let_def py_strip_join py_split_ws_join)
next
  case True
  have parse: "cron_parse (join_with '' '' fs) = parse_fields fs cron_limits"
    using assms True by (simp add: cron_parse_def Let_def py_strip_join py_split_ws_join)
  have len: "length fs = length cron_limits" using True by (simp add: cron_limits_def)
  have five: "(\<forall>i < (5::nat). P i) \<longleftrightarrow> P 0 \<and> P 1 \<and> P 2 \<and> P 3 \<and> P 4" for P
    by (auto simp: less_Suc_eq numeral_eq_Suc)
  show ?thesis
  proof (cases "parse_fields fs cron_limits")
    case (Inl e)
    have "\<exists>i < 5. \<forall>vs. parse_field (fs ! i) (cron_limits ! i) \<noteq> Inr vs"
    proof (rule ccontr)
      assume "\<not> ?thesis"
      then have "\<forall>i < 5. \<exists>vs. parse_field (fs ! i) (cron_limits ! i) = Inr vs" by blast
      then obtain g where "\<forall>i < 5. parse_field (fs ! i) (cron_limits ! i) = Inr (g i)" by metis
      then have "parse_fields fs cron_limits = Inr (map g [0..<5])"
        using parse_fields_Inr [OF len] True by simp
      with Inl show False by simp
    qed
    then show ?thesis using parse Inl by (auto simp: cron_matches_def)
  next
    case (Inr vss)
    then have v: "\<forall>i < 5. parse_field (fs ! i) (cron_limits ! i) = Inr (vss ! i)"
      using parse_fields_Inr [OF len] True by simp
    have "cron_matches (join_with '' '' fs) dt \<longleftrightarrow>
      (\<forall>i < 5. [cd_minute dt, cd_hour dt, cd_day dt, cd_month dt, (cd_weekday dt + 1) mod 7] ! i \<in> set (vss ! i))"
      unfolding five by (simp add: cron_matches_def parse Inr)
    then show ?thesis using v True by auto
  qed
qed

theorem cron_matches_fields_witness:
  "cron_matches (join_with '' '' [''*/15'', ''9-17'', ''*'', ''*'', ''0''])
     \<lparr>cd_minute = 30, cd_hour = 9, cd_day = 1, cd_month = 2, cd_weekday = 6\<rparr> \<longleftrightarrow>
   (\<forall>i < 5. \<exists>vs. parse_field ([''*/15'', ''9-17'', ''*'', ''*'', ''0''] ! i) (cron_limits ! i) = Inr vs \<and>
       [30, 9, 1, 2, 0] ! i \<in> set vs)"
  using cron_matches_fields [of "[''*/15'', ''9-17'', ''*'', ''*'', ''0'']"
      "\<lparr>cd_minute = 30, cd_hour = 9, cd_day = 1, cd_month = 2, cd_weekday = 6\<rparr>"]
  by (simp add: plain_field_def is_ws_def)

end
