(* ===== verification/Usage_Ledger.thy ===== *)
theory Usage_Ledger
  imports Prelude
begin

section \<open>The usage ledger\<close>

text \<open>
  \<open>core/usage_ledger.py\<close>.  The table \<open>usage_events\<close> is the list of its rows in insertion order.
  The local calendar (\<open>localtime\<close>/\<open>strftime\<close>) is a parameter: \<open>day_of\<close> names the day of a time
  and \<open>bucket_of\<close> labels a time for a bucket format.  Prices and costs are real numbers, the floats
  of the source without their rounding.  \<open>GROUP BY\<close> yields the groups in ascending order of the
  grouped column; ties of an \<open>ORDER BY\<close> keep that order.
\<close>

record usage_event =
  ue_id :: string
  ue_ts :: real
  ue_day :: string
  ue_user :: string
  ue_conversation :: string
  ue_agent :: string
  ue_service :: string
  ue_model :: string
  ue_provider :: string
  ue_channel :: string
  ue_in :: int
  ue_out :: int
  ue_cache_read :: int
  ue_cache_write :: int
  ue_duration :: int
  ue_cost :: real
  ue_virtual :: real
  ue_physical_service :: string
  ue_logical_scope :: string
  ue_logical_scope_id :: string
  ue_physical_scope :: string
  ue_physical_scope_id :: string
  ue_route_plan :: string
  ue_route_attempt :: string
  ue_route_index :: int
  ue_run :: string
  ue_task :: string

type_synonym ledger = "usage_event list"

text \<open>The pricing arguments of \<open>record\<close>; a missing rate is \<open>None\<close>.\<close>

record pricing =
  pr_input :: "real option"
  pr_output :: "real option"
  pr_cache_read :: "real option"
  pr_cache_write :: "real option"

definition compute_cost :: "int \<Rightarrow> int \<Rightarrow> int \<Rightarrow> int \<Rightarrow> pricing \<Rightarrow> real" where
  "compute_cost tin tout cread cwrite p =
     (let ci = (case pr_input p of None \<Rightarrow> 0 | Some x \<Rightarrow> x);
          co = (case pr_output p of None \<Rightarrow> 0 | Some x \<Rightarrow> x);
          ccr = (case pr_cache_read p of Some x \<Rightarrow> x | None \<Rightarrow> ci * (1 / 10));
          ccw = (case pr_cache_write p of Some x \<Rightarrow> x | None \<Rightarrow> ci * (125 / 100))
      in (of_int tin * ci + of_int tout * co + of_int cread * ccr + of_int cwrite * ccw) / 1000000)"

text \<open>
  \<open>record\<close>.  The row's fields are given by \<open>e\<close>, whose day, cost and (when empty) id are computed
  here; \<open>INSERT OR IGNORE\<close> keeps a stored event of the same id.  The result is the recorded real cost,
  whether a row was inserted, and the ledger.
\<close>

definition ledger_record ::
    "(real \<Rightarrow> string) \<Rightarrow> string \<Rightarrow> pricing \<Rightarrow> bool \<Rightarrow> usage_event \<Rightarrow> ledger \<Rightarrow> (real \<times> bool \<times> ledger) res" where
  "ledger_record day_of fresh p subscription e led =
     (if ue_user e = [] then Inl (ValueError ''BUG: user_id required for usage recording'')
      else if ue_channel e = [] then Inl (ValueError ''BUG: channel required for usage recording'')
      else
        (let cost0 = compute_cost (ue_in e) (ue_out e) (ue_cache_read e) (ue_cache_write e) p;
             virtual = (if subscription then ue_virtual e + cost0 else ue_virtual e);
             cost = (if subscription then 0 else cost0);
             eid = (if ue_id e = [] then fresh else ue_id e);
             row = e\<lparr>ue_id := eid, ue_day := day_of (ue_ts e), ue_cost := cost, ue_virtual := virtual\<rparr>
         in (case find (\<lambda>r. ue_id r = eid) led of
               Some old \<Rightarrow> Inr (ue_cost old, False, led)
             | None \<Rightarrow> Inr (cost, True, led @ [row]))))"

subsection \<open>Filters\<close>

text \<open>
  SQLite's \<open>LIKE\<close>: \<open>%\<close> stands for any text, \<open>_\<close> for any character, and ASCII letters match in
  either case.
\<close>

fun sql_like :: "string \<Rightarrow> string \<Rightarrow> bool" where
  "sql_like [] s = (s = [])"
| "sql_like (p # ps) [] = (p = CHR ''%'' \<and> sql_like ps [])"
| "sql_like (p # ps) (c # cs) =
     (if p = CHR ''%'' then sql_like ps (c # cs) \<or> sql_like (p # ps) cs
      else if p = CHR ''_'' then sql_like ps cs
      else py_lower_char p = py_lower_char c \<and> sql_like ps cs)"

record usage_filter =
  uf_user :: string
  uf_conversation :: string
  uf_agent :: string
  uf_service :: string
  uf_model :: string
  uf_channel :: string
  uf_run :: string
  uf_task :: string
  uf_prefix :: string
  uf_since :: real
  uf_until :: real

definition no_filter :: usage_filter where
  "no_filter = \<lparr>uf_user = [], uf_conversation = [], uf_agent = [], uf_service = [], uf_model = [], uf_channel = [],
     uf_run = [], uf_task = [], uf_prefix = [], uf_since = 0, uf_until = 0\<rparr>"

definition clause :: "string \<Rightarrow> string \<Rightarrow> bool" where
  "clause val col \<longleftrightarrow> val = [] \<or> col = val"

definition in_conversation :: "string \<Rightarrow> string \<Rightarrow> bool" where
  "in_conversation prefix conv \<longleftrightarrow> conv = prefix \<or> sql_like (prefix @ ''::%'') conv"

definition where_clause :: "usage_filter \<Rightarrow> usage_event \<Rightarrow> bool" where
  "where_clause f e \<longleftrightarrow>
     clause (uf_user f) (ue_user e) \<and> clause (uf_conversation f) (ue_conversation e) \<and>
     clause (uf_agent f) (ue_agent e) \<and> clause (uf_service f) (ue_service e) \<and>
     clause (uf_model f) (ue_model e) \<and> clause (uf_channel f) (ue_channel e) \<and>
     clause (uf_run f) (ue_run e) \<and> clause (uf_task f) (ue_task e) \<and>
     (uf_prefix f \<noteq> [] \<longrightarrow> in_conversation (uf_prefix f) (ue_conversation e)) \<and>
     (uf_since f \<noteq> 0 \<longrightarrow> uf_since f \<le> ue_ts e) \<and>
     (uf_until f \<noteq> 0 \<longrightarrow> ue_ts e < uf_until f)"

subsection \<open>Reads\<close>

record totals =
  t_in :: int
  t_out :: int
  t_cache_read :: int
  t_cache_write :: int
  t_calls :: nat
  t_cost :: real
  t_virtual :: real

definition sum_cols :: "usage_event list \<Rightarrow> totals" where
  "sum_cols rows =
     \<lparr>t_in = sum_list (map ue_in rows), t_out = sum_list (map ue_out rows),
      t_cache_read = sum_list (map ue_cache_read rows), t_cache_write = sum_list (map ue_cache_write rows),
      t_calls = length rows, t_cost = sum_list (map ue_cost rows), t_virtual = sum_list (map ue_virtual rows)\<rparr>"

definition ledger_summary :: "usage_filter \<Rightarrow> ledger \<Rightarrow> totals" where
  "ledger_summary f led = sum_cols (filter (where_clause f) led)"

definition group_by :: "(usage_event \<Rightarrow> 'k::linorder) \<Rightarrow> usage_event list \<Rightarrow> ('k \<times> totals) list" where
  "group_by key rows =
     map (\<lambda>k. (k, sum_cols (filter (\<lambda>e. key e = k) rows))) (sort (dedup (map key rows)))"

text \<open>The whitelisted group columns.\<close>

definition column :: "string \<Rightarrow> (usage_event \<Rightarrow> string) option" where
  "column c =
     (if c = ''llm_service'' then Some ue_service else if c = ''agent_name'' then Some ue_agent
      else if c = ''model'' then Some ue_model else if c = ''channel'' then Some ue_channel
      else if c = ''user_id'' then Some ue_user else if c = ''conversation_id'' then Some ue_conversation
      else if c = ''provider'' then Some ue_provider else if c = ''run_id'' then Some ue_run
      else if c = ''task_id'' then Some ue_task else None)"

definition bucket_format :: "string \<Rightarrow> string option" where
  "bucket_format b =
     (if b = ''hour'' then Some ''%Y-%m-%d %H:00'' else if b = ''day'' then Some ''%Y-%m-%d''
      else if b = ''month'' then Some ''%Y-%m'' else None)"

definition timeseries ::
    "(string \<Rightarrow> real \<Rightarrow> string) \<Rightarrow> string \<Rightarrow> string \<Rightarrow> usage_filter \<Rightarrow> ledger \<Rightarrow>
     (((string \<times> string) \<times> totals) list) res" where
  "timeseries bucket_of bucket grp f led =
     (case bucket_format bucket of
        None \<Rightarrow> Inl (ValueError ''bucket must be one of day, hour, month'')
      | Some fmt \<Rightarrow>
          let rows = filter (where_clause f) led
          in if grp = [] then Inr (map (\<lambda>(b, t). ((b, []), t)) (group_by (\<lambda>e. bucket_of fmt (ue_ts e)) rows))
             else (case column grp of
                 None \<Rightarrow> Inl (ValueError ''group_by must be one of the group columns'')
               | Some col \<Rightarrow>
                   Inr (concat (map (\<lambda>b. map (\<lambda>(g, t). ((b, g), t))
                          (group_by col (filter (\<lambda>e. bucket_of fmt (ue_ts e) = b) rows)))
                        (sort (dedup (map (\<lambda>e. bucket_of fmt (ue_ts e)) rows)))))))"

definition order_value :: "string \<Rightarrow> (totals \<Rightarrow> real) option" where
  "order_value c =
     (if c = ''cost_usd'' then Some t_cost else if c = ''tokens_in'' then Some (\<lambda>t. of_int (t_in t))
      else if c = ''tokens_out'' then Some (\<lambda>t. of_int (t_out t))
      else if c = ''calls'' then Some (\<lambda>t. of_nat (t_calls t)) else None)"

definition sql_limit :: "int \<Rightarrow> 'a list \<Rightarrow> 'a list" where
  "sql_limit n xs = (if n < 0 then xs else take (nat n) xs)"

definition ledger_top ::
    "string \<Rightarrow> int \<Rightarrow> string \<Rightarrow> usage_filter \<Rightarrow> ledger \<Rightarrow> ((string \<times> totals) list) res" where
  "ledger_top dimn limit order f led =
     (case column dimn of
        None \<Rightarrow> Inl (ValueError ''dimension must be one of the group columns'')
      | Some col \<Rightarrow>
          (case order_value order of
             None \<Rightarrow> Inl (ValueError ''order_by must be cost_usd/tokens_in/tokens_out/calls'')
           | Some val \<Rightarrow>
               Inr (sql_limit limit (sort_key_desc (\<lambda>kt. val (snd kt))
                      (group_by col (filter (where_clause f) led))))))"

definition export_rows :: "int \<Rightarrow> usage_filter \<Rightarrow> ledger \<Rightarrow> usage_event list" where
  "export_rows limit f led = sql_limit limit (sort_key_desc ue_ts (filter (where_clause f) led))"

definition conversation_cost :: "string \<Rightarrow> ledger \<Rightarrow> real \<times> (string \<times> totals) list" where
  "conversation_cost conv led =
     (let by_model = group_by ue_model (filter (\<lambda>e. ue_conversation e = conv) led)
      in (sum_list (map (\<lambda>kt. t_cost (snd kt)) by_model), by_model))"

record breakdown =
  bd_totals :: totals
  bd_by_agent :: "(string \<times> totals) list"
  bd_by_channel :: "(string \<times> totals) list"
  bd_by_model :: "(string \<times> totals) list"
  bd_recent :: "usage_event list"

definition conversation_breakdown :: "string \<Rightarrow> int \<Rightarrow> ledger \<Rightarrow> breakdown res" where
  "conversation_breakdown conv recent led =
     (let f = no_filter\<lparr>uf_prefix := conv\<rparr> in
      bind_res (ledger_top ''agent_name'' 50 ''cost_usd'' f led) (\<lambda>a.
      bind_res (ledger_top ''channel'' 50 ''cost_usd'' f led) (\<lambda>c.
      bind_res (ledger_top ''model'' 50 ''cost_usd'' f led) (\<lambda>mo.
      Inr \<lparr>bd_totals = ledger_summary f led, bd_by_agent = a, bd_by_channel = c, bd_by_model = mo,
           bd_recent = export_rows recent f led\<rparr>))))"

definition total_cost :: "ledger \<Rightarrow> real" where
  "total_cost led = sum_list (map ue_cost led)"

record usage_rollup =
  ur_totals :: totals
  ur_daily :: "(string \<times> totals) list"
  ur_models :: "(string \<times> totals) list"
  ur_agents :: "(string, (string \<times> string) \<times> totals) dict"

text \<open>The rollup of one user; the agents are keyed by the text \<open>agent::service\<close>.\<close>

definition user_usage :: "string \<Rightarrow> ledger \<Rightarrow> usage_rollup" where
  "user_usage user led =
     (let mine = filter (\<lambda>e. ue_user e = user) led;
          pairs = filter (\<lambda>e. ue_agent e \<noteq> []) mine
      in \<lparr>ur_totals = ledger_summary (no_filter\<lparr>uf_user := user\<rparr>) led,
          ur_daily = group_by ue_day mine,
          ur_models = group_by ue_model (filter (\<lambda>e. ue_model e \<noteq> []) mine),
          ur_agents = foldl (\<lambda>d (a, s).
             AList.update (a @ ''::'' @ s)
               ((a, s), sum_cols (filter (\<lambda>e. ue_agent e = a \<and> ue_service e = s) pairs)) d) []
             (concat (map (\<lambda>a. map (\<lambda>s. (a, s))
                (sort (dedup (map ue_service (filter (\<lambda>e. ue_agent e = a) pairs)))))
                (sort (dedup (map ue_agent pairs)))))\<rparr>)"

definition all_usage :: "ledger \<Rightarrow> (string \<times> usage_rollup) list" where
  "all_usage led = map (\<lambda>u. (u, user_usage u led)) (dedup (map ue_user led))"

subsection \<open>The import of the legacy file\<close>

text \<open>The statistics of one agent in the former \<open>token_usage.json\<close>, defaults applied.\<close>

record legacy_stats =
  ls_in :: int
  ls_out :: int
  ls_cache_read :: int
  ls_cache_write :: int
  ls_agent :: string
  ls_service :: string

definition legacy_event :: "real \<Rightarrow> string \<Rightarrow> legacy_stats \<Rightarrow> usage_event" where
  "legacy_event now user st =
     \<lparr>ue_id = [], ue_ts = now, ue_day = [], ue_user = user, ue_conversation = [],
      ue_agent = (if ls_agent st = [] then ''unknown'' else ls_agent st),
      ue_service = (if ls_service st = [] then ''unknown'' else ls_service st), ue_model = [], ue_provider = [],
      ue_channel = ''migrated'', ue_in = ls_in st, ue_out = ls_out st, ue_cache_read = ls_cache_read st,
      ue_cache_write = ls_cache_write st, ue_duration = 0, ue_cost = 0, ue_virtual = 0, ue_physical_service = [],
      ue_logical_scope = [], ue_logical_scope_id = [], ue_physical_scope = [], ue_physical_scope_id = [],
      ue_route_plan = [], ue_route_attempt = [], ue_route_index = - 1, ue_run = [], ue_task = []\<rparr>"

definition no_pricing :: pricing where
  "no_pricing = \<lparr>pr_input = None, pr_output = None, pr_cache_read = None, pr_cache_write = None\<rparr>"

text \<open>
  The loop over the entries of the file, given with the time and the fresh id each event gets; an
  exception ends the import and leaves what was recorded.
\<close>

fun migrate_legacy ::
    "(real \<Rightarrow> string) \<Rightarrow> (string \<times> legacy_stats \<times> real \<times> string) list \<Rightarrow> ledger \<Rightarrow> ledger \<times> bool" where
  "migrate_legacy day_of [] led = (led, True)"
| "migrate_legacy day_of ((user, st, now, fresh) # rest) led =
     (case ledger_record day_of fresh no_pricing False (legacy_event now user st) led of
        Inl _ \<Rightarrow> (led, False)
      | Inr (_, _, led') \<Rightarrow> migrate_legacy day_of rest led')"

subsection \<open>Grouping conserves totals\<close>

lemma sum_groups:
  fixes g :: "usage_event \<Rightarrow> 'a::comm_monoid_add"
  assumes "finite K" and "key ` set rows \<subseteq> K"
  shows "(\<Sum>k\<in>K. sum_list (map g (filter (\<lambda>e. key e = k) rows))) = sum_list (map g rows)"
  using assms(2)
proof (induction rows)
  case (Cons x xs)
  have "(\<Sum>k\<in>K. sum_list (map g (filter (\<lambda>e. key e = k) (x # xs)))) =
      (\<Sum>k\<in>K. (if key x = k then g x else 0) + sum_list (map g (filter (\<lambda>e. key e = k) xs)))"
    by (intro sum.cong) auto
  also have "\<dots> = g x + sum_list (map g xs)"
    using Cons assms(1) by (simp add: sum.distrib sum.delta)
  finally show ?case by simp
qed simp

lemma sum_list_groups:
  fixes g :: "usage_event \<Rightarrow> 'a::comm_monoid_add"
  shows "sum_list (map (\<lambda>k. sum_list (map g (filter (\<lambda>e. key e = k) rows))) (sort (dedup (map key rows)))) =
    sum_list (map g rows)"
  by (simp add: sum_list_distinct_conv_sum_set sum_groups)

text \<open>Adding up totals column by column.\<close>

definition add_totals :: "totals list \<Rightarrow> totals" where
  "add_totals ts =
     \<lparr>t_in = sum_list (map t_in ts), t_out = sum_list (map t_out ts), t_cache_read = sum_list (map t_cache_read ts),
      t_cache_write = sum_list (map t_cache_write ts), t_calls = sum_list (map t_calls ts),
      t_cost = sum_list (map t_cost ts), t_virtual = sum_list (map t_virtual ts)\<rparr>"

lemma group_by_conserves: "add_totals (map snd (group_by key rows)) = sum_cols rows"
proof -
  have col: "sum_list (map f (map snd (group_by key rows))) =
      sum_list (map (\<lambda>k. f (sum_cols (filter (\<lambda>e. key e = k) rows))) (sort (dedup (map key rows))))"
    for f :: "totals \<Rightarrow> 'b::monoid_add"
    by (simp add: group_by_def o_def)
  have calls: "sum_list (map (\<lambda>k. length (filter (\<lambda>e. key e = k) rows)) (sort (dedup (map key rows)))) = length rows"
    using sum_list_groups [of "\<lambda>_. 1::nat" key rows] by (simp add: sum_list_triv)
  show ?thesis
  proof (rule totals.equality)
    show "t_in (add_totals (map snd (group_by key rows))) = t_in (sum_cols rows)"
      using sum_list_groups [of ue_in key rows] by (simp only: add_totals_def totals.select_convs col) (simp add: sum_cols_def)
    show "t_out (add_totals (map snd (group_by key rows))) = t_out (sum_cols rows)"
      using sum_list_groups [of ue_out key rows] by (simp only: add_totals_def totals.select_convs col) (simp add: sum_cols_def)
    show "t_cache_read (add_totals (map snd (group_by key rows))) = t_cache_read (sum_cols rows)"
      using sum_list_groups [of ue_cache_read key rows] by (simp only: add_totals_def totals.select_convs col) (simp add: sum_cols_def)
    show "t_cache_write (add_totals (map snd (group_by key rows))) = t_cache_write (sum_cols rows)"
      using sum_list_groups [of ue_cache_write key rows] by (simp only: add_totals_def totals.select_convs col) (simp add: sum_cols_def)
    show "t_calls (add_totals (map snd (group_by key rows))) = t_calls (sum_cols rows)"
      using calls by (simp only: add_totals_def totals.select_convs col) (simp add: sum_cols_def)
    show "t_cost (add_totals (map snd (group_by key rows))) = t_cost (sum_cols rows)"
      using sum_list_groups [of ue_cost key rows] by (simp only: add_totals_def totals.select_convs col) (simp add: sum_cols_def)
    show "t_virtual (add_totals (map snd (group_by key rows))) = t_virtual (sum_cols rows)"
      using sum_list_groups [of ue_virtual key rows] by (simp only: add_totals_def totals.select_convs col) (simp add: sum_cols_def)
  qed simp
qed

lemma add_totals_perm:
  assumes "mset ts = mset us"
  shows "add_totals ts = add_totals us"
proof -
  have "sum_list (map f ts) = sum_list (map f us)" for f :: "totals \<Rightarrow> 'b::comm_monoid_add"
    using assms by (rule sum_list_map_mset_cong)
  then show ?thesis unfolding add_totals_def by metis
qed

lemma add_totals_concat: "add_totals (concat tss) = add_totals (map add_totals tss)"
  by (induction tss) (simp_all add: add_totals_def)

lemma add_totals_map_sum_cols:
  "add_totals (map (\<lambda>k. sum_cols (filter (\<lambda>e. key e = k) rows)) (sort (dedup (map key rows)))) = sum_cols rows"
  using group_by_conserves [of key rows] by (simp add: group_by_def o_def)

subsection \<open>Properties of the ledger\<close>

definition ledger_ok :: "ledger \<Rightarrow> bool" where
  "ledger_ok led \<longleftrightarrow> distinct (map ue_id led)"

text \<open>A ledger of one event for the witnesses.\<close>

definition demo_ledger :: ledger where
  "demo_ledger = [legacy_event 1 ''u'' \<lparr>ls_in = 7, ls_out = 2, ls_cache_read = 0, ls_cache_write = 0,
      ls_agent = ''a'', ls_service = ''s''\<rparr>\<lparr>ue_id := ''i'', ue_cost := 3, ue_conversation := ''aXb::task::1''\<rparr>]"

text \<open>
  C29: Recording is append-only and idempotent per event id: it keeps the ids distinct, never changes a
  stored row, adds at most one, and recording the same id again, whatever the prices are by then,
  changes nothing and returns the cost frozen at the first call.  A call without user or channel
  raises and stores nothing.
\<close>

theorem record_frozen:
  assumes "ledger_ok led" and "ledger_record day_of fresh p sub e led = Inr (cost, inserted, led')"
    and "fresh \<noteq> []"
  shows "ledger_ok led' \<and> (led' = led \<and> \<not> inserted \<or> (\<exists>row. led' = led @ [row] \<and> inserted \<and> ue_cost row = cost)) \<and>
    (\<exists>row \<in> set led'. ue_id row = (if ue_id e = [] then fresh else ue_id e) \<and> ue_cost row = cost) \<and>
    ledger_record day_of fresh2 p2 sub2 (e\<lparr>ue_id := if ue_id e = [] then fresh else ue_id e\<rparr>) led' = Inr (cost, False, led')"
proof -
  let ?eid = "if ue_id e = [] then fresh else ue_id e"
  have args: "ue_user e \<noteq> []" "ue_channel e \<noteq> []" "?eid \<noteq> []"
    using assms(2,3) by (auto simp: ledger_record_def split: if_splits)
  have again: "ledger_record day_of fresh2 p2 sub2 (e\<lparr>ue_id := ?eid\<rparr>) l = Inr (ue_cost old, False, l)"
    if "find (\<lambda>r. ue_id r = ?eid) l = Some old" for l old
    using that args by (simp add: ledger_record_def Let_def)
  show ?thesis
  proof (cases "find (\<lambda>r. ue_id r = ?eid) led")
    case (Some old)
    then have "cost = ue_cost old" "\<not> inserted" "led' = led"
      using assms(2) args by (simp_all add: ledger_record_def Let_def)
    moreover have "old \<in> set led" "ue_id old = ?eid" using Some by (auto simp: find_Some_iff)
    ultimately show ?thesis using assms(1) again [OF Some] by auto
  next
    case None
    then obtain row where row: "led' = led @ [row]" "inserted" "ue_cost row = cost" "ue_id row = ?eid"
      using assms(2) args by (auto simp: ledger_record_def Let_def)
    have none: "?eid \<notin> ue_id ` set led" using None by (auto simp: find_None_iff)
    have "find P (xs @ [y]) = Some y" if "find P xs = None" "P y" for P xs and y :: usage_event
      using that by (induction xs) (auto split: if_splits)
    then have "find (\<lambda>r. ue_id r = ?eid) led' = Some row" using None row by blast
    then show ?thesis using again row none assms(1) by (auto simp: ledger_ok_def)
  qed
qed

theorem record_frozen_witness:
  "\<exists>cost inserted led'. ledger_record (\<lambda>_. ''d'') ''i'' no_pricing False (legacy_event 1 ''u'' \<lparr>ls_in = 1, ls_out = 2,
      ls_cache_read = 0, ls_cache_write = 0, ls_agent = [], ls_service = []\<rparr>) [] = Inr (cost, inserted, led') \<and>
    ledger_ok led' \<and> inserted"
proof -
  let ?e = "legacy_event 1 ''u'' \<lparr>ls_in = 1, ls_out = 2, ls_cache_read = 0, ls_cache_write = 0, ls_agent = [], ls_service = []\<rparr>"
  obtain cost inserted led' where r: "ledger_record (\<lambda>_. ''d'') ''i'' no_pricing False ?e [] = Inr (cost, inserted, led')"
    and ins: "inserted"
    by (simp add: ledger_record_def legacy_event_def Let_def)
  have "ledger_ok []" by (simp add: ledger_ok_def)
  from record_frozen [OF this r] r ins show ?thesis by auto
qed

text \<open>
  The grouped reads account for every event exactly once: without a cut by the limit, the totals
  of the groups of \<open>top\<close> and of \<open>timeseries\<close>, grouped or not, and of \<open>conversation_cost\<close> add up,
  column by column, to the \<open>summary\<close> of the same filter.
\<close>

theorem groups_add_up:
  shows "(ledger_top dimn limit order f led = Inr gs \<and> limit < 0 \<longrightarrow>
      add_totals (map snd gs) = ledger_summary f led) \<and>
    (timeseries bucket_of bucket grp f led = Inr ts \<longrightarrow> add_totals (map snd ts) = ledger_summary f led) \<and>
    fst (conversation_cost conv led) = sum_list (map ue_cost (filter (\<lambda>e. ue_conversation e = conv) led))"
proof -
  have top: "add_totals (map snd gs) = ledger_summary f led"
    if ok: "ledger_top dimn limit order f led = Inr gs" "limit < 0"
  proof -
    obtain col val where "gs = sort_key_desc (\<lambda>kt. val (snd kt) :: real) (group_by col (filter (where_clause f) led))"
      using ok by (auto simp: ledger_top_def sql_limit_def split: option.splits)
    then have "add_totals (map snd gs) = add_totals (map snd (group_by col (filter (where_clause f) led)))"
      by (intro add_totals_perm) simp
    then show ?thesis by (simp add: group_by_conserves ledger_summary_def)
  qed
  have series: "add_totals (map snd ts) = ledger_summary f led" if ok: "timeseries bucket_of bucket grp f led = Inr ts"
  proof -
    let ?rows = "filter (where_clause f) led"
    obtain fmt where fmt: "bucket_format bucket = Some fmt" using ok by (auto simp: timeseries_def split: option.splits)
    let ?b = "\<lambda>e. bucket_of fmt (ue_ts e)"
    show ?thesis
    proof (cases "grp = []")
      case True
      then have "map snd ts = map snd (group_by ?b ?rows)"
        using ok fmt by (auto simp: timeseries_def Let_def)
      then show ?thesis by (simp add: group_by_conserves ledger_summary_def)
    next
      case False
      then obtain col where "ts = concat (map (\<lambda>b. map (\<lambda>(g, t). ((b, g), t)) (group_by col (filter (\<lambda>e. ?b e = b) ?rows)))
          (sort (dedup (map ?b ?rows))))"
        using ok fmt by (auto simp: timeseries_def Let_def split: option.splits)
      then have "map snd ts = concat (map (\<lambda>b. map snd (group_by col (filter (\<lambda>e. ?b e = b) ?rows)))
          (sort (dedup (map ?b ?rows))))"
        by (simp add: map_concat o_def split_beta)
      then have "add_totals (map snd ts) = add_totals (map (\<lambda>b. add_totals (map snd (group_by col (filter (\<lambda>e. ?b e = b) ?rows))))
          (sort (dedup (map ?b ?rows))))"
        by (simp only: add_totals_concat map_map o_def)
      then show ?thesis by (simp only: group_by_conserves add_totals_map_sum_cols ledger_summary_def)
    qed
  qed
  have "fst (conversation_cost conv led) =
      t_cost (add_totals (map snd (group_by ue_model (filter (\<lambda>e. ue_conversation e = conv) led))))"
    by (simp add: conversation_cost_def add_totals_def o_def Let_def)
  then have "fst (conversation_cost conv led) = sum_list (map ue_cost (filter (\<lambda>e. ue_conversation e = conv) led))"
    by (simp only: group_by_conserves) (simp add: sum_cols_def)
  with top series show ?thesis by blast
qed

theorem groups_add_up_witness:
  "\<exists>gs. ledger_top ''model'' (- 1) ''calls'' no_filter demo_ledger = Inr gs \<and>
     add_totals (map snd gs) = ledger_summary no_filter demo_ledger"
proof -
  obtain gs where g: "ledger_top ''model'' (- 1) ''calls'' no_filter demo_ledger = Inr gs"
    by (simp add: ledger_top_def column_def order_value_def)
  from groups_add_up [of "''model''" "- 1" "''calls''" no_filter demo_ledger gs] g show ?thesis by auto
qed

text \<open>
  Recording an event adds exactly its frozen cost to the real totals of the filters that select it
  and nothing to the others; traffic of a subscription service adds nothing to any real total and its
  computed cost to the virtual one.
\<close>

theorem record_accounting:
  assumes "ledger_record day_of fresh p sub e led = Inr (cost, True, led')"
  shows "\<exists>row. led' = led @ [row] \<and>
    t_cost (ledger_summary f led') = t_cost (ledger_summary f led) + (if where_clause f row then cost else 0) \<and>
    (sub \<longrightarrow> t_cost (ledger_summary f led') = t_cost (ledger_summary f led) \<and>
       t_virtual (ledger_summary f led') = t_virtual (ledger_summary f led) + (if where_clause f row
         then ue_virtual e + compute_cost (ue_in e) (ue_out e) (ue_cache_read e) (ue_cache_write e) p else 0)) \<and>
    (\<not> sub \<longrightarrow> cost = compute_cost (ue_in e) (ue_out e) (ue_cache_read e) (ue_cache_write e) p)"
proof -
  let ?c = "compute_cost (ue_in e) (ue_out e) (ue_cache_read e) (ue_cache_write e) p"
  define row where "row = e\<lparr>ue_id := (if ue_id e = [] then fresh else ue_id e), ue_day := day_of (ue_ts e),
    ue_cost := (if sub then 0 else ?c), ue_virtual := (if sub then ue_virtual e + ?c else ue_virtual e)\<rparr>"
  have "cost = (if sub then 0 else ?c) \<and> led' = led @ [row]"
    using assms unfolding ledger_record_def Let_def row_def by (simp split: if_splits option.splits; blast)
  then have row: "led' = led @ [row]" "ue_cost row = cost" "sub \<longrightarrow> cost = 0 \<and> ue_virtual row = ue_virtual e + ?c"
    "\<not> sub \<longrightarrow> cost = ?c"
    by (simp_all add: row_def)
  have "t_cost (ledger_summary f led') = t_cost (ledger_summary f led) + (if where_clause f row then cost else 0)"
    "t_virtual (ledger_summary f led') = t_virtual (ledger_summary f led) + (if where_clause f row then ue_virtual row else 0)"
    by (simp_all add: row(1,2) ledger_summary_def sum_cols_def)
  with row show ?thesis by (intro exI [of _ row]) simp
qed

theorem record_accounting_witness:
  "\<exists>row. ledger_record (\<lambda>_. ''d'') ''j'' \<lparr>pr_input = Some 2, pr_output = Some 4, pr_cache_read = None, pr_cache_write = None\<rparr>
      True (legacy_event 5 ''u'' \<lparr>ls_in = 500000, ls_out = 0, ls_cache_read = 0, ls_cache_write = 0, ls_agent = [], ls_service = []\<rparr>)
      demo_ledger = Inr (0, True, demo_ledger @ [row]) \<and>
    t_cost (ledger_summary no_filter (demo_ledger @ [row])) = t_cost (ledger_summary no_filter demo_ledger)"
proof -
  let ?p = "\<lparr>pr_input = Some 2, pr_output = Some 4, pr_cache_read = None, pr_cache_write = None\<rparr>"
  let ?e = "legacy_event 5 ''u'' \<lparr>ls_in = 500000, ls_out = 0, ls_cache_read = 0, ls_cache_write = 0, ls_agent = [], ls_service = []\<rparr>"
  obtain led' where r: "ledger_record (\<lambda>_. ''d'') ''j'' ?p True ?e demo_ledger = Inr (0, True, led')"
    by (simp add: ledger_record_def legacy_event_def demo_ledger_def Let_def)
  from record_accounting [OF r, of no_filter] r show ?thesis by auto
qed

end
