(* ===== verification/Budget.thy ===== *)
theory Budget
  imports Usage_Ledger
begin

section \<open>Spend budgets\<close>

text \<open>
  \<open>core/budget_store.py\<close> on top of the ledger.  The store is the dictionary \<open>_budgets\<close> in
  insertion order; the JSON file is its copy and is not modelled.  \<open>period_bounds\<close> reads the local
  calendar: \<open>cal period\<close> is its result (start of the period and period key) at the time of the call.
  What \<open>_notify\<close> publishes is a list of alerts.
\<close>

record budget =
  bg_id :: string
  bg_scope_type :: string
  bg_scope_value :: string
  bg_period :: string
  bg_limit :: real
  bg_policy :: string
  bg_created_by :: string
  bg_created_at :: real
  bg_updated_at :: real
  bg_last_pct :: int
  bg_last_key :: string

type_synonym budget_store = "(string, budget) dict"

definition SCOPE_TYPES :: "string list" where
  "SCOPE_TYPES = [''global'', ''user'', ''conversation'', ''agent'', ''llm_service'']"

definition PERIODS :: "string list" where
  "PERIODS = [''daily'', ''monthly'']"

definition POLICIES :: "string list" where
  "POLICIES = [''warn'', ''block'']"

definition THRESHOLDS :: "int list" where
  "THRESHOLDS = [100, 80, 50]"

definition validate_budget :: "string \<Rightarrow> string \<Rightarrow> string \<Rightarrow> real \<Rightarrow> string \<Rightarrow> unit res" where
  "validate_budget scope_type scope_value period limit policy =
     (if scope_type \<notin> set SCOPE_TYPES then Inl (ValueError ''scope_type must be one of SCOPE_TYPES'')
      else if scope_type \<noteq> ''global'' \<and> scope_value = [] then Inl (ValueError ''scope_value is required'')
      else if period \<notin> set PERIODS then Inl (ValueError ''period must be one of PERIODS'')
      else if policy \<notin> set POLICIES then Inl (ValueError ''policy must be one of POLICIES'')
      else if \<not> (limit > 0) then Inl (ValueError ''limit_usd must be a positive number'')
      else Inr ())"

definition budget_create ::
    "string \<Rightarrow> real \<Rightarrow> string \<Rightarrow> string \<Rightarrow> string \<Rightarrow> real \<Rightarrow> string \<Rightarrow> string \<Rightarrow> budget_store \<Rightarrow> (budget \<times> budget_store) res" where
  "budget_create fresh now scope_type scope_value period limit policy created_by st =
     bind_res (validate_budget scope_type scope_value period limit policy) (\<lambda>_.
       (let b = \<lparr>bg_id = fresh, bg_scope_type = scope_type,
              bg_scope_value = (if scope_type \<noteq> ''global'' then scope_value else []),
              bg_period = period, bg_limit = limit, bg_policy = policy, bg_created_by = created_by,
              bg_created_at = now, bg_updated_at = now, bg_last_pct = 0, bg_last_key = []\<rparr>
        in Inr (b, AList.update fresh b st)))"

text \<open>The keyword arguments of \<open>update\<close>: only those that are given.\<close>

record budget_fields =
  bf_scope_type :: "string option"
  bf_scope_value :: "string option"
  bf_period :: "string option"
  bf_limit :: "real option"
  bf_policy :: "string option"

definition or_else :: "'a option \<Rightarrow> 'a \<Rightarrow> 'a" where
  "or_else v d = (case v of None \<Rightarrow> d | Some x \<Rightarrow> x)"

definition budget_update ::
    "real \<Rightarrow> string \<Rightarrow> budget_fields \<Rightarrow> budget_store \<Rightarrow> (budget \<times> budget_store) res" where
  "budget_update now bid flds st =
     (case map_of st bid of
        None \<Rightarrow> Inl (KeyError bid)
      | Some b \<Rightarrow>
          (let ty = or_else (bf_scope_type flds) (bg_scope_type b);
               va = or_else (bf_scope_value flds) (bg_scope_value b);
               pe = or_else (bf_period flds) (bg_period b);
               li = or_else (bf_limit flds) (bg_limit b);
               po = or_else (bf_policy flds) (bg_policy b)
           in bind_res (validate_budget ty va pe li po) (\<lambda>_.
                (let b' = b\<lparr>bg_scope_type := ty, bg_scope_value := (if ty \<noteq> ''global'' then va else []),
                       bg_period := pe, bg_limit := li, bg_policy := po, bg_updated_at := now,
                       bg_last_pct := 0, bg_last_key := []\<rparr>
                 in Inr (b', AList.update bid b' st)))))"

definition budget_delete :: "string \<Rightarrow> budget_store \<Rightarrow> bool \<times> budget_store" where
  "budget_delete bid st = (if bid \<notin> set (dict_keys st) then (False, st) else (True, AList.delete bid st))"

definition budget_get :: "string \<Rightarrow> budget_store \<Rightarrow> budget option" where
  "budget_get bid st = map_of st bid"

definition budget_list :: "string \<Rightarrow> string \<Rightarrow> budget_store \<Rightarrow> budget list" where
  "budget_list scope_type scope_value st =
     (let out = map snd st;
          out = (if scope_type \<noteq> [] then filter (\<lambda>b. bg_scope_type b = scope_type) out else out);
          out = (if scope_value \<noteq> [] then filter (\<lambda>b. bg_scope_value b = scope_value) out else out)
      in sort_key bg_created_at out)"

subsection \<open>Matching and spend\<close>

text \<open>The dimensions of a turn.\<close>

record dims =
  dm_user :: string
  dm_conversation :: string
  dm_agent :: string
  dm_service :: string

definition budget_matches :: "dims \<Rightarrow> budget \<Rightarrow> bool" where
  "budget_matches d b =
     (if bg_scope_type b = ''global'' then True
      else if bg_scope_type b = ''user'' then dm_user d \<noteq> [] \<and> bg_scope_value b = dm_user d
      else if bg_scope_type b = ''conversation'' then
        (if dm_conversation d = [] then False
         else dm_conversation d = bg_scope_value b \<or>
              py_startswith (dm_conversation d) (bg_scope_value b @ ''::''))
      else if bg_scope_type b = ''agent'' then dm_agent d \<noteq> [] \<and> bg_scope_value b = dm_agent d
      else if bg_scope_type b = ''llm_service'' then dm_service d \<noteq> [] \<and> bg_scope_value b = dm_service d
      else False)"

definition matching_budgets :: "dims \<Rightarrow> budget_store \<Rightarrow> budget list" where
  "matching_budgets d st = filter (budget_matches d) (budget_list [] [] st)"

type_synonym calendar = "string \<Rightarrow> real \<times> string"

definition scope_filter :: "real \<Rightarrow> budget \<Rightarrow> usage_filter" where
  "scope_filter start b =
     (let f = no_filter\<lparr>uf_since := start\<rparr> in
      if bg_scope_type b = ''user'' then f\<lparr>uf_user := bg_scope_value b\<rparr>
      else if bg_scope_type b = ''conversation'' then f\<lparr>uf_prefix := bg_scope_value b\<rparr>
      else if bg_scope_type b = ''agent'' then f\<lparr>uf_agent := bg_scope_value b\<rparr>
      else if bg_scope_type b = ''llm_service'' then f\<lparr>uf_service := bg_scope_value b\<rparr>
      else f)"

definition current_spend :: "calendar \<Rightarrow> ledger \<Rightarrow> budget \<Rightarrow> real" where
  "current_spend cal led b = t_cost (ledger_summary (scope_filter (fst (cal (bg_period b))) b) led)"

subsection \<open>Enforcement and notification\<close>

definition budget_label :: "budget \<Rightarrow> string" where
  "budget_label b = (if bg_scope_type b = ''global'' then ''global''
     else bg_scope_type b @ '':'' @ bg_scope_value b)"

fun enforce_loop :: "calendar \<Rightarrow> ledger \<Rightarrow> budget list \<Rightarrow> unit res" where
  "enforce_loop cal led [] = Inr ()"
| "enforce_loop cal led (b # bs) =
     (if bg_policy b \<noteq> ''block'' then enforce_loop cal led bs
      else if current_spend cal led b \<ge> bg_limit b
      then Inl (BudgetExceededError (''Budget exceeded: '' @ budget_label b))
      else enforce_loop cal led bs)"

definition enforce_pre_turn :: "calendar \<Rightarrow> ledger \<Rightarrow> dims \<Rightarrow> budget_store \<Rightarrow> unit res" where
  "enforce_pre_turn cal led d st = enforce_loop cal led (matching_budgets d st)"

record alert =
  al_budget :: string
  al_pct :: int
  al_spend :: real
  al_limit :: real
  al_blocked :: bool
  al_conversation :: string
  al_agent :: string

definition budget_notify :: "budget \<Rightarrow> real \<Rightarrow> int \<Rightarrow> dims \<Rightarrow> alert list" where
  "budget_notify b spend pct d =
     (if dm_conversation d = [] then []
      else [\<lparr>al_budget = bg_id b, al_pct = pct, al_spend = spend, al_limit = bg_limit b,
             al_blocked = (pct \<ge> 100 \<and> bg_policy b = ''block''),
             al_conversation = dm_conversation d, al_agent = dm_agent d\<rparr>])"

text \<open>The body of the loop of \<open>check_and_notify\<close>: the budget afterwards and the threshold that fired.\<close>

definition fired_threshold :: "real \<Rightarrow> int \<Rightarrow> int option" where
  "fired_threshold pct last_pct = find (\<lambda>t. pct \<ge> of_int t \<and> last_pct < t) THRESHOLDS"

definition notify_budget :: "string \<Rightarrow> real \<Rightarrow> budget \<Rightarrow> budget \<times> int option" where
  "notify_budget key spend b =
     (if bg_limit b \<le> 0 then (b, None)
      else
        (let b1 = (if bg_last_key b \<noteq> key then b\<lparr>bg_last_pct := 0, bg_last_key := key\<rparr> else b);
             pct = spend / bg_limit b1 * 100
         in (case fired_threshold pct (bg_last_pct b1) of
               None \<Rightarrow> (b1, None)
             | Some t \<Rightarrow> (b1\<lparr>bg_last_pct := t\<rparr>, Some t))))"

fun notify_loop :: "calendar \<Rightarrow> ledger \<Rightarrow> dims \<Rightarrow> budget list \<Rightarrow> budget_store \<Rightarrow> budget_store \<times> alert list" where
  "notify_loop cal led d [] st = (st, [])"
| "notify_loop cal led d (b # bs) st =
     (let spend = current_spend cal led b;
          (b', fired) = notify_budget (snd (cal (bg_period b))) spend b;
          (st', alerts) = notify_loop cal led d bs (AList.update (bg_id b) b' st)
      in (st', (case fired of None \<Rightarrow> [] | Some t \<Rightarrow> budget_notify b' spend t d) @ alerts))"

definition check_and_notify :: "calendar \<Rightarrow> ledger \<Rightarrow> dims \<Rightarrow> budget_store \<Rightarrow> budget_store \<times> alert list" where
  "check_and_notify cal led d st = notify_loop cal led d (matching_budgets d st) st"

text \<open>\<open>UsageLedger.record\<close> with its hook: an inserted event is checked against the budgets.\<close>

definition record_usage ::
    "(real \<Rightarrow> string) \<Rightarrow> calendar \<Rightarrow> string \<Rightarrow> pricing \<Rightarrow> bool \<Rightarrow> usage_event \<Rightarrow> ledger \<Rightarrow> budget_store \<Rightarrow>
     (real \<times> ledger \<times> budget_store \<times> alert list) res" where
  "record_usage day_of cal fresh p sub e led st =
     bind_res (ledger_record day_of fresh p sub e led) (\<lambda>(cost, inserted, led').
       if \<not> inserted then Inr (cost, led', st, [])
       else (let (st', alerts) = check_and_notify cal led'
                  \<lparr>dm_user = ue_user e, dm_conversation = ue_conversation e, dm_agent = ue_agent e, dm_service = ue_service e\<rparr> st
             in Inr (cost, led', st', alerts)))"

subsection \<open>The store invariant\<close>

definition budget_ok :: "budget \<Rightarrow> bool" where
  "budget_ok b \<longleftrightarrow> validate_budget (bg_scope_type b) (bg_scope_value b) (bg_period b) (bg_limit b) (bg_policy b) = Inr () \<and>
     (bg_scope_type b = ''global'' \<longrightarrow> bg_scope_value b = [])"

definition budgets_inv :: "budget_store \<Rightarrow> bool" where
  "budgets_inv st \<longleftrightarrow> distinct (dict_keys st) \<and> (\<forall>kb \<in> set st. bg_id (snd kb) = fst kb \<and> budget_ok (snd kb))"

lemma budgets_inv_update:
  assumes "budgets_inv st" "bg_id b = k" "budget_ok b"
  shows "budgets_inv (AList.update k b st)"
proof -
  have upd: "set (AList.update k b st) \<subseteq> insert (k, b) (set st)"
    by (induction st) (auto split: if_splits)
  have "bg_id (snd kb) = fst kb \<and> budget_ok (snd kb)" if "kb \<in> set (AList.update k b st)" for kb
    using subsetD [OF upd that] assms by (auto simp: budgets_inv_def)
  with assms show ?thesis by (simp add: budgets_inv_def distinct_update)
qed

lemma budgets_inv_delete: "budgets_inv st \<Longrightarrow> budgets_inv (AList.delete k st)"
  by (auto simp: budgets_inv_def distinct_map_filter AList.delete_eq)

lemma validate_budget_global:
  "validate_budget ty va pe li po = Inr () \<Longrightarrow> validate_budget ty (if ty \<noteq> ''global'' then va else []) pe li po = Inr ()"
  by (auto simp: validate_budget_def split: if_splits)

lemma budgets_inv_create:
  "budgets_inv st \<Longrightarrow> budget_create fresh now ty va pe li po by st = Inr (b, st') \<Longrightarrow> budgets_inv st' \<and> budget_ok b"
  by (auto simp: budget_create_def bind_res_Inr_iff Let_def budget_ok_def dest: validate_budget_global
      intro!: budgets_inv_update)

lemma budgets_inv_edit:
  assumes "budgets_inv st" "budget_update now bid flds st = Inr (b, st')"
  shows "budgets_inv st' \<and> budget_ok b"
proof -
  obtain old where old: "map_of st bid = Some old" using assms(2) by (auto simp: budget_update_def split: option.splits)
  then have "bg_id old = bid" using assms(1) map_of_SomeD by (fastforce simp: budgets_inv_def)
  moreover have "budget_ok b" "st' = AList.update bid b st" "bg_id b = bg_id old"
    using assms(2) old
    by (auto simp: budget_update_def bind_res_Inr_iff Let_def budget_ok_def dest: validate_budget_global)
  ultimately show ?thesis using assms(1) by (simp add: budgets_inv_update)
qed

lemma notify_budget_same:
  "budget_ok b \<Longrightarrow> budget_ok (fst (notify_budget key spend b)) \<and> bg_id (fst (notify_budget key spend b)) = bg_id b"
  by (auto simp: notify_budget_def budget_ok_def Let_def split: option.splits)

lemma budgets_inv_loop:
  assumes "budgets_inv st" "\<forall>b \<in> set bs. budget_ok b"
  shows "budgets_inv (fst (notify_loop cal led d bs st))"
  using assms
proof (induction bs arbitrary: st)
  case (Cons b bs)
  let ?b' = "fst (notify_budget (snd (cal (bg_period b))) (current_spend cal led b) b)"
  have "budgets_inv (AList.update (bg_id b) ?b' st)"
    using Cons.prems notify_budget_same by (intro budgets_inv_update) auto
  then show ?case using Cons by (auto simp: Let_def split_beta)
qed simp

lemma matching_in_store: "b \<in> set (matching_budgets d st) \<longleftrightarrow> b \<in> snd ` set st \<and> budget_matches d b"
  by (auto simp: matching_budgets_def budget_list_def Let_def)

lemma budgets_inv_check: "budgets_inv st \<Longrightarrow> budgets_inv (fst (check_and_notify cal led d st))"
  unfolding check_and_notify_def
  by (rule budgets_inv_loop) (auto simp: matching_in_store budgets_inv_def)

inductive budget_step :: "budget_store \<Rightarrow> budget_store \<Rightarrow> bool" where
  bs_create: "budget_create fresh now ty va pe li po by st = Inr (b, st') \<Longrightarrow> budget_step st st'"
| bs_update: "budget_update now bid flds st = Inr (b, st') \<Longrightarrow> budget_step st st'"
| bs_delete: "budget_delete bid st = (r, st') \<Longrightarrow> budget_step st st'"
| bs_check: "check_and_notify cal led d st = (st', alerts) \<Longrightarrow> budget_step st st'"

interpretation bst: store_system "\<lambda>st. st = []" budget_step budgets_inv
proof
  show "budgets_inv s" if "s = []" for s using that by (simp add: budgets_inv_def)
  show "budgets_inv s'" if "budget_step s s'" "budgets_inv s" for s s'
    using that
  proof cases
    case (bs_check cal led d alerts)
    then show ?thesis using budgets_inv_check [OF that(2), of cal led d] by simp
  qed (auto simp: budget_delete_def budgets_inv_delete dest: budgets_inv_create budgets_inv_edit split: if_splits)
qed

subsection \<open>Notification of one budget over time\<close>

text \<open>The threshold already announced in the period \<open>key\<close>.\<close>

definition announced :: "string \<Rightarrow> budget \<Rightarrow> int" where
  "announced key b = (if bg_last_key b = key then bg_last_pct b else 0)"

lemma fired_threshold_Some:
  assumes "fired_threshold pct last_pct = Some t"
  shows "last_pct < t \<and> of_int t \<le> pct \<and> t \<in> {50, 80, 100}"
  using assms by (auto simp: fired_threshold_def THRESHOLDS_def split: if_splits)

lemma fired_threshold_reached:
  assumes "t \<in> {50, 80, 100}" "of_int t \<le> pct"
  shows "t \<le> (case fired_threshold pct last_pct of None \<Rightarrow> last_pct | Some u \<Rightarrow> u)"
  using assms by (auto simp: fired_threshold_def THRESHOLDS_def)

lemma notify_budget_announced:
  assumes "0 < bg_limit b"
  shows "announced key (fst (notify_budget key spend b)) =
      (case snd (notify_budget key spend b) of None \<Rightarrow> announced key b | Some t \<Rightarrow> t)"
    and "snd (notify_budget key spend b) = fired_threshold (spend / bg_limit b * 100) (announced key b)"
  using assms by (auto simp: notify_budget_def announced_def Let_def split: option.splits)

lemma notify_budget_fields:
  "bg_period (fst (notify_budget key spend b)) = bg_period b"
  "bg_limit (fst (notify_budget key spend b)) = bg_limit b"
  "bg_id (fst (notify_budget key spend b)) = bg_id b"
  by (auto simp: notify_budget_def Let_def split: option.splits)

text \<open>A check changes nothing but the record of what was announced.\<close>

definition same_budget :: "budget \<Rightarrow> budget \<Rightarrow> bool" where
  "same_budget b b' \<longleftrightarrow> b' = b\<lparr>bg_last_pct := bg_last_pct b', bg_last_key := bg_last_key b'\<rparr>"

lemma notify_budget_same_budget: "same_budget b (fst (notify_budget key spend b))"
  by (cases b) (auto simp: notify_budget_def same_budget_def Let_def split: option.splits)

lemma same_budgetD:
  assumes "same_budget b b'"
  shows "bg_period b' = bg_period b" "bg_limit b' = bg_limit b" "budget_matches d b' = budget_matches d b"
    "current_spend cal led b' = current_spend cal led b"
proof -
  obtain p k where "b' = b\<lparr>bg_last_pct := p, bg_last_key := k\<rparr>"
    using assms unfolding same_budget_def by blast
  then show "bg_period b' = bg_period b" "bg_limit b' = bg_limit b" "budget_matches d b' = budget_matches d b"
    "current_spend cal led b' = current_spend cal led b"
    by (simp_all add: budget_matches_def current_spend_def scope_filter_def Let_def)
qed

lemma same_budget_refl: "same_budget b b"
  by (cases b) (simp add: same_budget_def)

abbreviation checked :: "calendar \<Rightarrow> ledger \<Rightarrow> budget \<Rightarrow> budget \<times> int option" where
  "checked cal led b \<equiv> notify_budget (snd (cal (bg_period b))) (current_spend cal led b) b"

lemma notify_loop_other:
  assumes "i \<notin> bg_id ` set bs"
  shows "map_of (fst (notify_loop cal led d bs st)) i = map_of st i \<and>
    filter (\<lambda>a. al_budget a = i) (snd (notify_loop cal led d bs st)) = []"
  using assms
proof (induction bs arbitrary: st)
  case (Cons b bs)
  then show ?case
    by (auto simp: Let_def split_beta update_conv' budget_notify_def notify_budget_fields filter_empty_conv split: option.split)
qed simp

lemma notify_loop_own:
  assumes "b \<in> set bs" "distinct (map bg_id bs)"
  shows "map_of (fst (notify_loop cal led d bs st)) (bg_id b) = Some (fst (checked cal led b)) \<and>
    map al_pct (filter (\<lambda>a. al_budget a = bg_id b) (snd (notify_loop cal led d bs st))) =
      (case snd (checked cal led b) of None \<Rightarrow> [] | Some t \<Rightarrow> if dm_conversation d = [] then [] else [t])"
  using assms
proof (induction bs arbitrary: st)
  case (Cons c bs)
  let ?st = "AList.update (bg_id c) (fst (checked cal led c)) st"
  show ?case
  proof (cases "c = b")
    case True
    then have "bg_id b \<notin> bg_id ` set bs" using Cons.prems by simp
    from notify_loop_other [OF this, of cal led d ?st] True show ?thesis
      by (auto simp: Let_def split_beta update_conv' budget_notify_def notify_budget_fields split: option.split)
  next
    case False
    then have "b \<in> set bs" "bg_id c \<noteq> bg_id b" using Cons.prems by auto
    with Cons.IH [of ?st] Cons.prems show ?thesis
      by (auto simp: Let_def split_beta budget_notify_def notify_budget_fields split: option.split)
  qed
qed simp

lemma matching_distinct:
  assumes "budgets_inv st"
  shows "distinct (map bg_id (matching_budgets d st))"
proof -
  have "map bg_id (map snd st) = dict_keys st" using assms by (simp add: budgets_inv_def)
  then have "distinct (map bg_id (map snd st))" using assms by (simp only: budgets_inv_def)
  then show ?thesis by (auto simp: matching_budgets_def budget_list_def Let_def distinct_map inj_on_def)
qed

lemma check_and_notify_own:
  assumes inv: "budgets_inv st" and b: "map_of st i = Some b"
  shows "\<exists>b'. map_of (fst (check_and_notify cal led d st)) i = Some b' \<and>
same_budget b b' \<and>
    (if budget_matches d b
     then b' = fst (checked cal led b) \<and>
       map al_pct (filter (\<lambda>a. al_budget a = i) (snd (check_and_notify cal led d st))) =
         (case snd (checked cal led b) of None \<Rightarrow> [] | Some t \<Rightarrow> if dm_conversation d = [] then [] else [t])
     else b' = b \<and> filter (\<lambda>a. al_budget a = i) (snd (check_and_notify cal led d st)) = [])"
proof -
  have mem: "(i, b) \<in> set st" using b by (rule map_of_SomeD)
  then have i: "bg_id b = i" using inv by (auto simp: budgets_inv_def)
  show ?thesis
  proof (cases "budget_matches d b")
    case True
    then have "b \<in> set (matching_budgets d st)" using mem by (force simp: matching_in_store)
    from notify_loop_own [OF this matching_distinct [OF inv], of cal led d st] True i show ?thesis
      by (auto simp: check_and_notify_def notify_budget_same_budget)
  next
    case False
    have "i \<notin> bg_id ` set (matching_budgets d st)"
    proof
      assume "i \<in> bg_id ` set (matching_budgets d st)"
      then obtain c k where c: "(k, c) \<in> set st" "budget_matches d c" "bg_id c = i" by (auto simp: matching_in_store)
      then have "k = i" using inv by (auto simp: budgets_inv_def)
      then have "c = b" using c b inv by (simp add: budgets_inv_def)
      with c False show False by simp
    qed
    from notify_loop_other [OF this, of cal led d st] False b show ?thesis
      by (simp add: check_and_notify_def same_budget_refl)
  qed
qed

text \<open>A sequence of checks, each with its calendar, ledger and turn.\<close>

fun notify_run :: "(calendar \<times> ledger \<times> dims) list \<Rightarrow> budget_store \<Rightarrow> budget_store \<times> alert list" where
  "notify_run [] st = (st, [])"
| "notify_run ((cal, led, d) # calls) st =
     (let (st1, a1) = check_and_notify cal led d st; (st2, a2) = notify_run calls st1 in (st2, a1 @ a2))"

text \<open>One check, seen by one budget in the period \<open>key\<close>.\<close>

lemma check_once:
  assumes inv: "budgets_inv st" and b: "map_of st i = Some b" and key: "snd (cal (bg_period b)) = key"
  shows "\<exists>b'. map_of (fst (check_and_notify cal led d st)) i = Some b' \<and> same_budget b b' \<and>
    announced key b \<le> announced key b' \<and>
    (let pcts = map al_pct (filter (\<lambda>a. al_budget a = i) (snd (check_and_notify cal led d st)))
     in pcts = [] \<or> pcts = [announced key b'] \<and> announced key b < announced key b' \<and> announced key b' \<in> {50, 80, 100}) \<and>
    (\<forall>t \<in> {50, 80, 100}. budget_matches d b \<longrightarrow>
       of_int t \<le> current_spend cal led b / bg_limit b * 100 \<longrightarrow> t \<le> announced key b')"
proof -
  obtain b' where b': "map_of (fst (check_and_notify cal led d st)) i = Some b'" "same_budget b b'"
    and own: "if budget_matches d b
     then b' = fst (checked cal led b) \<and>
       map al_pct (filter (\<lambda>a. al_budget a = i) (snd (check_and_notify cal led d st))) =
         (case snd (checked cal led b) of None \<Rightarrow> [] | Some t \<Rightarrow> if dm_conversation d = [] then [] else [t])
     else b' = b \<and> filter (\<lambda>a. al_budget a = i) (snd (check_and_notify cal led d st)) = []"
    using check_and_notify_own [OF inv b, of cal led d] by blast
  have "(i, b) \<in> set st" using b by (rule map_of_SomeD)
  then have "0 < bg_limit b"
    using inv by (fastforce simp: budgets_inv_def budget_ok_def validate_budget_def split: if_splits)
  note ann = notify_budget_announced [OF this, of key "current_spend cal led b"]
  show ?thesis
  proof (cases "budget_matches d b")
    case False
    then show ?thesis using own b' by simp
  next
    case True
    then have eq: "b' = fst (checked cal led b)" and pcts: "map al_pct (filter (\<lambda>a. al_budget a = i) (snd (check_and_notify cal led d st))) =
         (case snd (checked cal led b) of None \<Rightarrow> [] | Some t \<Rightarrow> if dm_conversation d = [] then [] else [t])"
      using own by simp_all
    let ?f = "fired_threshold (current_spend cal led b / bg_limit b * 100) (announced key b)"
    have new: "announced key b' = (case ?f of None \<Rightarrow> announced key b | Some t \<Rightarrow> t)"
      using ann eq key by simp
    have "t \<le> announced key b'" if "t \<in> {50, 80, 100}" "of_int t \<le> current_spend cal led b / bg_limit b * 100" for t
      using fired_threshold_reached [OF that] new by simp
    moreover have "announced key b \<le> announced key b'"
      using new fired_threshold_Some by (fastforce split: option.splits)
    moreover have "let pcts = map al_pct (filter (\<lambda>a. al_budget a = i) (snd (check_and_notify cal led d st)))
       in pcts = [] \<or> pcts = [announced key b'] \<and> announced key b < announced key b' \<and> announced key b' \<in> {50, 80, 100}"
      unfolding Let_def pcts
      using new ann(2) key fired_threshold_Some [of "current_spend cal led b / bg_limit b * 100" "announced key b"]
      by (cases ?f) auto
    ultimately show ?thesis using b' True by blast
  qed
qed

lemma notify_run_alerts:
  assumes "budgets_inv st" "map_of st i = Some b" "\<forall>(cal, led, d) \<in> set calls. snd (cal (bg_period b)) = key"
  shows "\<exists>b'. map_of (fst (notify_run calls st)) i = Some b' \<and> announced key b \<le> announced key b' \<and>
    (let pcts = map al_pct (filter (\<lambda>a. al_budget a = i) (snd (notify_run calls st)))
     in sorted_wrt (<) pcts \<and> set pcts \<subseteq> {50, 80, 100} \<and> (\<forall>p \<in> set pcts. announced key b < p \<and> p \<le> announced key b')) \<and>
    (\<forall>(cal, led, d) \<in> set calls. \<forall>t \<in> {50, 80, 100}. budget_matches d b \<longrightarrow>
       of_int t \<le> current_spend cal led b / bg_limit b * 100 \<longrightarrow> t \<le> announced key b')"
  using assms
proof (induction calls arbitrary: st b)
  case Nil
  then show ?case by simp
next
  case (Cons call calls)
  obtain cal led d where call: "call = (cal, led, d)" by (cases call)
  let ?st = "fst (check_and_notify cal led d st)"
  let ?p1 = "map al_pct (filter (\<lambda>a. al_budget a = i) (snd (check_and_notify cal led d st)))"
  obtain b1 where b1: "map_of ?st i = Some b1" "same_budget b b1" "announced key b \<le> announced key b1"
    "?p1 = [] \<or> ?p1 = [announced key b1] \<and> announced key b < announced key b1 \<and> announced key b1 \<in> {50, 80, 100}"
    "\<forall>t \<in> {50, 80, 100}. budget_matches d b \<longrightarrow>
       of_int t \<le> current_spend cal led b / bg_limit b * 100 \<longrightarrow> t \<le> announced key b1"
    using check_once [OF Cons.prems(1,2), of cal key led d] Cons.prems(3) call unfolding Let_def by auto
  note same = same_budgetD [OF b1(2)]
  have "\<forall>(cal, led, d) \<in> set calls. snd (cal (bg_period b1)) = key"
    using Cons.prems(3) same(1) by auto
  from Cons.IH [OF budgets_inv_check [OF Cons.prems(1)] b1(1) this]
  obtain b2 where b2: "map_of (fst (notify_run calls ?st)) i = Some b2" "announced key b1 \<le> announced key b2"
    and p2: "let pcts = map al_pct (filter (\<lambda>a. al_budget a = i) (snd (notify_run calls ?st)))
     in sorted_wrt (<) pcts \<and> set pcts \<subseteq> {50, 80, 100} \<and> (\<forall>p \<in> set pcts. announced key b1 < p \<and> p \<le> announced key b2)"
    and r2: "\<forall>(cal, led, d) \<in> set calls. \<forall>t \<in> {50, 80, 100}. budget_matches d b \<longrightarrow>
       of_int t \<le> current_spend cal led b / bg_limit b * 100 \<longrightarrow> t \<le> announced key b2"
    by (auto simp: same)
  have run: "fst (notify_run (call # calls) st) = fst (notify_run calls ?st)"
    "snd (notify_run (call # calls) st) = snd (check_and_notify cal led d st) @ snd (notify_run calls ?st)"
    by (simp_all add: call split_beta Let_def)
  have "sorted_wrt (<) (?p1 @ map al_pct (filter (\<lambda>a. al_budget a = i) (snd (notify_run calls ?st))))"
    "set (?p1 @ map al_pct (filter (\<lambda>a. al_budget a = i) (snd (notify_run calls ?st)))) \<subseteq> {50, 80, 100}"
    "\<forall>p \<in> set (?p1 @ map al_pct (filter (\<lambda>a. al_budget a = i) (snd (notify_run calls ?st)))).
       announced key b < p \<and> p \<le> announced key b2"
    using b1(3,4) b2(2) p2 unfolding Let_def by (elim disjE; force)+
  moreover have "\<forall>t \<in> {50, 80, 100}. budget_matches d b \<longrightarrow>
       of_int t \<le> current_spend cal led b / bg_limit b * 100 \<longrightarrow> t \<le> announced key b2"
    using b1(5) b2(2) by force
  ultimately show ?case
    using b1(3) b2 r2 unfolding run Let_def map_append filter_append
    by (intro exI [of _ b2] conjI) (simp_all add: call)
qed

subsection \<open>Properties\<close>

text \<open>
  C27: Before a turn, enforcement raises exactly when some stored budget matches the turn's user,
  conversation, agent or service, has the policy block and has spent its limit in the current
  period; in every reachable store each such budget has a positive limit, a known scope, period and
  policy, and, unless global, a scope value.
\<close>

theorem enforce_exact:
  assumes "budget_step\<^sup>*\<^sup>* [] st"
  shows "(isl (enforce_pre_turn cal led d st) \<longleftrightarrow>
      (\<exists>b \<in> snd ` set st. budget_matches d b \<and> bg_policy b = ''block'' \<and> bg_limit b \<le> current_spend cal led b)) \<and>
    (\<forall>e. enforce_pre_turn cal led d st = Inl e \<longrightarrow> (\<exists>m. e = BudgetExceededError (''Budget exceeded: '' @ m))) \<and>
    (\<forall>b \<in> snd ` set st. budget_ok b \<and> 0 < bg_limit b)"
proof -
  have loop: "(isl (enforce_loop cal led bs) \<longleftrightarrow>
      (\<exists>b \<in> set bs. bg_policy b = ''block'' \<and> bg_limit b \<le> current_spend cal led b)) \<and>
    (\<forall>e. enforce_loop cal led bs = Inl e \<longrightarrow> (\<exists>m. e = BudgetExceededError (''Budget exceeded: '' @ m)))" for bs
    by (induction bs) auto
  have "budgets_inv st" using bst.reachable_inv assms by blast
  then have "\<forall>b \<in> snd ` set st. budget_ok b" by (auto simp: budgets_inv_def)
  moreover have "0 < bg_limit b" if "budget_ok b" for b
    using that by (auto simp: budget_ok_def validate_budget_def split: if_splits)
  ultimately show ?thesis
    using loop [of "matching_budgets d st"] by (simp add: enforce_pre_turn_def Bex_def matching_in_store conj_assoc)
qed

definition demo_budget :: budget where
  "demo_budget = \<lparr>bg_id = ''b'', bg_scope_type = ''conversation'', bg_scope_value = ''a_b'', bg_period = ''daily'',
     bg_limit = 2, bg_policy = ''block'', bg_created_by = ''u'', bg_created_at = 0, bg_updated_at = 0,
     bg_last_pct = 0, bg_last_key = []\<rparr>"

definition demo_dims :: dims where
  "demo_dims = \<lparr>dm_user = ''u'', dm_conversation = ''a_b'', dm_agent = ''a'', dm_service = ''s''\<rparr>"

lemma demo_budget_create:
  "budget_create ''b'' 0 ''conversation'' ''a_b'' ''daily'' 2 ''block'' ''u'' [] = Inr (demo_budget, [(''b'', demo_budget)])"
  by (simp add: budget_create_def validate_budget_def demo_budget_def SCOPE_TYPES_def PERIODS_def POLICIES_def Let_def)

lemma demo_budget_reach: "budget_step\<^sup>*\<^sup>* [] [(''b'', demo_budget)]"
  using bs_create [OF demo_budget_create] by blast

lemma demo_budget_inv: "budgets_inv [(''b'', demo_budget)]"
  using budgets_inv_create [OF _ demo_budget_create] by (simp add: budgets_inv_def)

lemma demo_like: "sql_like ''a_b::%'' ''aXb::task::1''"
  by code_simp

lemma demo_spend: "current_spend (\<lambda>_. (0, ''k'')) demo_ledger demo_budget = 3"
  using demo_like
  by (simp add: current_spend_def ledger_summary_def scope_filter_def demo_budget_def demo_ledger_def legacy_event_def
      where_clause_def in_conversation_def no_filter_def clause_def sum_cols_def Let_def)

theorem enforce_exact_witness:
  "isl (enforce_pre_turn (\<lambda>_. (0, ''k'')) demo_ledger demo_dims [(''b'', demo_budget)])"
proof -
  have "budget_matches demo_dims demo_budget" "bg_policy demo_budget = ''block''" "bg_limit demo_budget = 2"
    by (simp_all add: budget_matches_def demo_dims_def demo_budget_def)
  with enforce_exact [OF demo_budget_reach, of "\<lambda>_. (0, ''k'')" demo_ledger demo_dims] demo_spend show ?thesis by simp
qed

text \<open>
  C30: Within one period no threshold of a budget is announced twice: over any sequence of checks,
  with any ledgers and turns, the announced percentages of a budget are strictly increasing and among
  50, 80 and 100, and whenever a check finds the spend at or above a threshold, that threshold or a
  higher one has been recorded as announced afterwards.
\<close>

theorem thresholds_once_per_period:
  assumes "budget_step\<^sup>*\<^sup>* [] st" and "map_of st i = Some b"
    and "\<forall>call \<in> set calls. snd (fst call (bg_period b)) = key"
  shows "sorted_wrt (<) (map al_pct (filter (\<lambda>a. al_budget a = i) (snd (notify_run calls st)))) \<and>
    set (map al_pct (filter (\<lambda>a. al_budget a = i) (snd (notify_run calls st)))) \<subseteq> {50, 80, 100} \<and>
    (\<exists>b'. map_of (fst (notify_run calls st)) i = Some b' \<and>
      (\<forall>call \<in> set calls. \<forall>t \<in> {50, 80, 100}. budget_matches (snd (snd call)) b \<longrightarrow>
         of_int t \<le> current_spend (fst call) (fst (snd call)) b / bg_limit b * 100 \<longrightarrow>
         t \<le> announced key b'))"
proof -
  have "budgets_inv st" using bst.reachable_inv assms(1) by blast
  moreover have "\<forall>(cal, led, d) \<in> set calls. snd (cal (bg_period b)) = key" using assms(3) by auto
  ultimately obtain b' where "map_of (fst (notify_run calls st)) i = Some b'"
    "let pcts = map al_pct (filter (\<lambda>a. al_budget a = i) (snd (notify_run calls st)))
     in sorted_wrt (<) pcts \<and> set pcts \<subseteq> {50, 80, 100} \<and> (\<forall>p \<in> set pcts. announced key b < p \<and> p \<le> announced key b')"
    "\<forall>(cal, led, d) \<in> set calls. \<forall>t \<in> {50, 80, 100}. budget_matches d b \<longrightarrow>
       of_int t \<le> current_spend cal led b / bg_limit b * 100 \<longrightarrow> t \<le> announced key b'"
    using notify_run_alerts [OF _ assms(2)] by blast
  then show ?thesis unfolding Let_def by (intro conjI exI [of _ b']) auto
qed

theorem thresholds_once_per_period_witness:
  "sorted_wrt (<) (map al_pct (filter (\<lambda>a. al_budget a = ''b'')
     (snd (notify_run [(\<lambda>_. (0, ''k''), demo_ledger, demo_dims), (\<lambda>_. (0, ''k''), demo_ledger, demo_dims)] [(''b'', demo_budget)]))))"
  using thresholds_once_per_period [OF demo_budget_reach, of "''b''" demo_budget
      "[(\<lambda>_. (0, ''k''), demo_ledger, demo_dims), (\<lambda>_. (0, ''k''), demo_ledger, demo_dims)]" "''k''"]
  by simp

lemma sql_like_percent: "sql_like ps s \<Longrightarrow> sql_like (CHR ''%'' # ps) s"
  by (cases s) auto

lemma sql_like_any: "sql_like ''%'' s"
  by (induction s) auto

lemma sql_like_prefix: "sql_like (v @ ''::%'') (v @ ''::'' @ rest)"
proof (induction v)
  case Nil
  then show ?case using sql_like_any by simp
next
  case (Cons c v)
  then show ?case using sql_like_percent [of "v @ ''::%''" "v @ ''::'' @ rest"] by auto
qed

lemma matches_in_conversation:
  "bg_scope_type b = ''conversation'' \<Longrightarrow> budget_matches d b \<Longrightarrow> in_conversation (bg_scope_value b) (dm_conversation d)"
  using sql_like_prefix
  by (auto simp: budget_matches_def in_conversation_def py_startswith_iff split: if_splits)

text \<open>
  A conversation budget counts the spend of every conversation it applies to, but not only
  those: the ledger selects by \<open>LIKE\<close> without escaping, so a budget on \<open>a_b\<close> is charged for
  \<open>aXb::task::1\<close>, which it does not match, and blocks the turns of \<open>a_b\<close> for it.
\<close>

theorem conversation_scope_spend:
  "(\<forall>b d. bg_scope_type b = ''conversation'' \<and> budget_matches d b \<longrightarrow>
      in_conversation (bg_scope_value b) (dm_conversation d)) \<and>
   in_conversation ''a_b'' ''aXb::task::1'' \<and>
   \<not> budget_matches (demo_dims\<lparr>dm_conversation := ''aXb::task::1''\<rparr>) demo_budget \<and>
   isl (enforce_pre_turn (\<lambda>_. (0, ''k'')) demo_ledger demo_dims [(''b'', demo_budget)])"
proof -
  have "in_conversation ''a_b'' ''aXb::task::1''" using demo_like by (simp add: in_conversation_def)
  moreover have "\<not> budget_matches (demo_dims\<lparr>dm_conversation := ''aXb::task::1''\<rparr>) demo_budget"
    by (simp add: budget_matches_def demo_dims_def demo_budget_def)
  moreover have "budget_matches demo_dims demo_budget" "bg_policy demo_budget = ''block''" "bg_limit demo_budget = 2"
    by (simp_all add: budget_matches_def demo_dims_def demo_budget_def)
  then have "isl (enforce_pre_turn (\<lambda>_. (0, ''k'')) demo_ledger demo_dims [(''b'', demo_budget)])"
    using demo_spend by (simp add: enforce_pre_turn_def matching_budgets_def budget_list_def)
  ultimately show ?thesis using matches_in_conversation by blast
qed

theorem conversation_scope_spend_witness:
  "budget_matches demo_dims demo_budget \<and> in_conversation (bg_scope_value demo_budget) (dm_conversation demo_dims)"
proof -
  have "budget_matches demo_dims demo_budget" "bg_scope_type demo_budget = ''conversation''"
    by (simp_all add: budget_matches_def demo_dims_def demo_budget_def)
  with conversation_scope_spend show ?thesis by blast
qed

end
