(* ===== verification/Inbox.thy ===== *)
theory Inbox
  imports Json
begin

section \<open>The agent inbox\<close>

text \<open>
  \<open>core/agent_inbox_store.py\<close>.  The eight SQLite tables are the fields of \<open>inbox_db\<close>: the items in
  order of their \<open>AUTOINCREMENT\<close> sequence with the high-water mark of that sequence, the claims, the
  ingress receipts, the migrations, the notices, the read offsets, the fences and the context
  receipts.  Every method is one transaction: it returns an exception and the database stays as it was,
  or a result and the new database.  The clock and \<open>uuid4\<close> are arguments.

  \<open>inbox_env\<close> holds what the store takes from the standard library: \<open>parse_stamp\<close> reads a textual
  timestamp (\<open>float()\<close>, then \<open>datetime.fromisoformat\<close> with a time zone), \<open>repr_of\<close> is \<open>str()\<close> of a
  list or an object.
\<close>

datatype istate = IPending | INotified | IRead | IClaimed | IAcknowledged | IDiscarded

record inbox_item =
  ix_sequence :: nat
  ix_conversation :: string
  ix_agent :: string
  ix_msg :: string
  ix_payload :: json
  ix_source :: string
  ix_state :: istate
  ix_owner :: "string option"
  ix_owner_task :: "string option"
  ix_lease :: "real option"
  ix_created :: real
  ix_enqueued :: real
  ix_updated :: real
  ix_notified :: "real option"
  ix_read :: "real option"
  ix_read_call :: string

record inbox_claim =
  cl_id :: string
  cl_conversation :: string
  cl_agent :: string
  cl_run :: string
  cl_task :: string
  cl_items :: "string list"
  cl_lease :: real
  cl_created :: real

datatype rstate = RPrepared | RTranscript | RQueued

record receipt =
  rc_conversation :: string
  rc_agent :: string
  rc_msg :: string
  rc_payload :: json
  rc_source :: string
  rc_state :: rstate
  rc_prepared :: real
  rc_updated :: real

record migration =
  mg_conversation :: string
  mg_agent :: string
  mg_path :: string
  mg_sha :: string
  mg_count :: nat
  mg_completed :: real

record notice =
  nt_conversation :: string
  nt_agent :: string
  nt_sequence :: int
  nt_turns :: int
  nt_updated :: real

record read_mark =
  ro_conversation :: string
  ro_agent :: string
  ro_msg :: string
  ro_offset :: int
  ro_updated :: real

record fence =
  fe_conversation :: string
  fe_agent :: string
  fe_cutoff :: real

record inbox_db =
  ib_items :: "inbox_item list"
  ib_next :: nat
  ib_claims :: "inbox_claim list"
  ib_receipts :: "receipt list"
  ib_migrations :: "migration list"
  ib_notices :: "notice list"
  ib_offsets :: "read_mark list"
  ib_fences :: "fence list"
  ib_contexts :: "(string \<times> string \<times> string) list"

definition empty_inbox :: inbox_db where
  "empty_inbox = \<lparr>ib_items = [], ib_next = 1, ib_claims = [], ib_receipts = [], ib_migrations = [],
     ib_notices = [], ib_offsets = [], ib_fences = [], ib_contexts = []\<rparr>"

record inbox_env =
  parse_stamp :: "string \<Rightarrow> real option"
  repr_of :: "json \<Rightarrow> string"

subsection \<open>Arguments\<close>

text \<open>\<open>str(value or "")\<close>\<close>

definition text_of :: "inbox_env \<Rightarrow> json \<Rightarrow> string" where
  "text_of env v = str_or_empty (repr_of env) v"

text \<open>\<open>str(value)\<close>, without the \<open>or ""\<close>.\<close>

definition content_text :: "inbox_env \<Rightarrow> json \<Rightarrow> string" where
  "content_text env v = py_str (repr_of env) v"

definition inbox_agent :: "string \<Rightarrow> string res" where
  "inbox_agent v = bind_res (required v ''agent_key'') (\<lambda>s. Inr (py_lower s))"

text \<open>The two keys every method normalises first.\<close>

definition inbox_keys :: "string \<Rightarrow> string \<Rightarrow> (string \<times> string) res" where
  "inbox_keys conv agent =
     bind_res (required conv ''conversation_id'') (\<lambda>c. bind_res (inbox_agent agent) (\<lambda>a. Inr (c, a)))"

definition payload_msg_id :: "inbox_env \<Rightarrow> json \<Rightarrow> string res" where
  "payload_msg_id env payload =
     bind_res (dict_get_res payload ''msg_id'' JNull) (\<lambda>v. required (text_of env v) ''msg_id'')"

definition is_unstamped :: "json \<Rightarrow> bool" where
  "is_unstamped payload \<longleftrightarrow> jget_or payload ''ts'' JNull = JNull \<and> jget_or payload ''timestamp'' JNull = JNull"

definition created_at :: "inbox_env \<Rightarrow> json \<Rightarrow> real res" where
  "created_at env payload =
     (let v = (let ts = jget_or payload ''ts'' JNull in
               if ts = JNull then jget_or payload ''timestamp'' JNull else ts);
          bad = Inl (ValueError ''inbox payload requires a valid creation timestamp (ts)'')
      in case v of
           JInt n \<Rightarrow> Inr (of_int n)
         | JFloat x _ \<Rightarrow> Inr x
         | JStr s \<Rightarrow> (case parse_stamp env s of None \<Rightarrow> bad | Some t \<Rightarrow> Inr t)
         | _ \<Rightarrow> bad)"

definition is_inbox_source :: "string \<Rightarrow> bool" where
  "is_inbox_source s = py_startswith s ''inbox:''"

definition nonempty_texts :: "string list \<Rightarrow> string list" where
  "nonempty_texts xs = dedup (filter (\<lambda>s. s \<noteq> []) xs)"

text \<open>Payload without the queue bookkeeping fields.\<close>

definition meaningful :: "json \<Rightarrow> json" where
  "meaningful payload =
     (case payload of JDict kvs \<Rightarrow> JDict (filter (\<lambda>kv. \<not> py_startswith (fst kv) ''_pending_'') kvs) | _ \<Rightarrow> payload)"

subsection \<open>Items\<close>

definition in_box :: "string \<Rightarrow> string \<Rightarrow> inbox_item \<Rightarrow> bool" where
  "in_box c a i \<longleftrightarrow> ix_conversation i = c \<and> ix_agent i = a"

text \<open>\<open>UPDATE agent_inbox_items SET \<dots> WHERE \<dots>\<close>, and its row count.\<close>

definition update_items :: "(inbox_item \<Rightarrow> bool) \<Rightarrow> (inbox_item \<Rightarrow> inbox_item) \<Rightarrow> inbox_db \<Rightarrow> inbox_db" where
  "update_items P f db = db\<lparr>ib_items := map (\<lambda>i. if P i then f i else i) (ib_items db)\<rparr>"

definition count_items :: "(inbox_item \<Rightarrow> bool) \<Rightarrow> inbox_db \<Rightarrow> nat" where
  "count_items P db = length (filter P (ib_items db))"

definition fence_of :: "string \<Rightarrow> string \<Rightarrow> inbox_db \<Rightarrow> real option" where
  "fence_of c a db =
     map_option fe_cutoff (find (\<lambda>f. fe_conversation f = c \<and> fe_agent f = a) (ib_fences db))"

definition find_item :: "string \<Rightarrow> string \<Rightarrow> string \<Rightarrow> inbox_db \<Rightarrow> inbox_item option" where
  "find_item c a msg db = find (\<lambda>i. in_box c a i \<and> ix_msg i = msg) (ib_items db)"

text \<open>The row \<open>_enqueue_item\<close> inserts: a message created at or before the fence is born discarded.\<close>

definition new_item ::
    "string \<Rightarrow> string \<Rightarrow> string \<Rightarrow> json \<Rightarrow> string \<Rightarrow> real \<Rightarrow> real \<Rightarrow> real \<Rightarrow> inbox_db \<Rightarrow> inbox_item" where
  "new_item c a msg payload source created ts enq db =
     \<lparr>ix_sequence = ib_next db, ix_conversation = c, ix_agent = a, ix_msg = msg,
      ix_payload = payload, ix_source = source,
      ix_state = (case fence_of c a db of
          None \<Rightarrow> IPending
        | Some cutoff \<Rightarrow> if created \<le> cutoff then IDiscarded else IPending),
      ix_owner = None, ix_owner_task = None, ix_lease = None, ix_created = created, ix_enqueued = enq,
      ix_updated = ts, ix_notified = None, ix_read = None, ix_read_call = []\<rparr>"

definition enqueue_item ::
    "inbox_env \<Rightarrow> string \<Rightarrow> string \<Rightarrow> json \<Rightarrow> string \<Rightarrow> real \<Rightarrow> real \<Rightarrow> inbox_db \<Rightarrow> (inbox_item \<times> inbox_db) res" where
  "enqueue_item env c a payload source ts enq db =
     (if \<not> is_dict payload then Inl (TypeError ''inbox payload must be an object'')
      else
      bind_res (payload_msg_id env payload) (\<lambda>msg.
      bind_res (required source ''source'') (\<lambda>source.
      bind_res (if \<not> is_inbox_source source \<and> is_unstamped payload then Inr ts else created_at env payload) (\<lambda>created.
      (case find_item c a msg db of
         Some row \<Rightarrow>
           if json_dumps (ix_payload row) \<noteq> json_dumps payload \<and>
              \<not> jeq (meaningful (ix_payload row)) (meaningful payload)
           then Inl (ValueError ''msg_id already has a different inbox payload'')
           else Inr (row, db)
       | None \<Rightarrow>
           (let row = new_item c a msg payload source created ts enq db
            in Inr (row, db\<lparr>ib_items := ib_items db @ [row], ib_next := Suc (ib_next db)\<rparr>)))))))"

definition inbox_enqueue ::
    "inbox_env \<Rightarrow> string \<Rightarrow> string \<Rightarrow> json \<Rightarrow> string \<Rightarrow> real \<Rightarrow> inbox_db \<Rightarrow> (inbox_item \<times> inbox_db) res" where
  "inbox_enqueue env conv agent payload source now db =
     bind_res (inbox_keys conv agent) (\<lambda>(c, a). enqueue_item env c a payload source now now db)"

definition enqueue_context_history ::
    "inbox_env \<Rightarrow> string \<Rightarrow> string \<Rightarrow> json \<Rightarrow> real \<Rightarrow> inbox_db \<Rightarrow> (bool \<times> inbox_db) res" where
  "enqueue_context_history env conv agent payload now db =
     bind_res (inbox_keys conv agent) (\<lambda>(c, a).
     bind_res (payload_msg_id env payload) (\<lambda>msg.
     if (c, a, msg) \<in> set (ib_contexts db) then Inr (False, db)
     else bind_res (enqueue_item env c a payload ''inbox:catch_up'' now now db) (\<lambda>(row, db').
       Inr (ix_state row \<in> {IPending, INotified}, db'\<lparr>ib_contexts := ib_contexts db' @ [(c, a, msg)]\<rparr>))))"

subsection \<open>Ingress receipts\<close>

definition is_receipt :: "string \<Rightarrow> string \<Rightarrow> string \<Rightarrow> receipt \<Rightarrow> bool" where
  "is_receipt c a msg r \<longleftrightarrow> rc_conversation r = c \<and> rc_agent r = a \<and> rc_msg r = msg"

definition update_receipts :: "(receipt \<Rightarrow> bool) \<Rightarrow> (receipt \<Rightarrow> receipt) \<Rightarrow> inbox_db \<Rightarrow> inbox_db" where
  "update_receipts P f db = db\<lparr>ib_receipts := map (\<lambda>r. if P r then f r else r) (ib_receipts db)\<rparr>"

definition prepare_receipt ::
    "inbox_env \<Rightarrow> string \<Rightarrow> string \<Rightarrow> json \<Rightarrow> string \<Rightarrow> real \<Rightarrow> inbox_db \<Rightarrow> rstate res \<times> inbox_db" where
  "prepare_receipt env conv agent payload source now db =
     (case bind_res (inbox_keys conv agent) (\<lambda>(c, a).
           bind_res (payload_msg_id env payload) (\<lambda>msg.
           bind_res (required source ''source'') (\<lambda>src. Inr (c, a, msg, src)))) of
        Inl e \<Rightarrow> (Inl e, db)
      | Inr (c, a, msg, src) \<Rightarrow>
          (case find (is_receipt c a msg) (ib_receipts db) of
             Some r \<Rightarrow>
               if json_dumps (rc_payload r) \<noteq> json_dumps payload
               then (Inl (ValueError ''msg_id already has a different ingress payload''), db)
               else (Inr (rc_state r), db)
           | None \<Rightarrow>
               (Inr RPrepared,
                db\<lparr>ib_receipts := ib_receipts db @ [\<lparr>rc_conversation = c, rc_agent = a, rc_msg = msg,
                  rc_payload = payload, rc_source = src, rc_state = RPrepared, rc_prepared = now, rc_updated = now\<rparr>]\<rparr>)))"

definition mark_transcript_persisted ::
    "inbox_env \<Rightarrow> string \<Rightarrow> string \<Rightarrow> string \<Rightarrow> real \<Rightarrow> inbox_db \<Rightarrow> (inbox_item \<times> inbox_db) res" where
  "mark_transcript_persisted env conv agent msg_id now db =
     bind_res (inbox_keys conv agent) (\<lambda>(c, a).
     bind_res (required msg_id ''msg_id'') (\<lambda>msg.
     (case find (is_receipt c a msg) (ib_receipts db) of
        None \<Rightarrow> Inl (KeyError ''ingress receipt does not exist'')
      | Some r \<Rightarrow>
          (let db1 = update_receipts (\<lambda>r. is_receipt c a msg r \<and> rc_state r = RPrepared)
                 (\<lambda>r. r\<lparr>rc_state := RTranscript, rc_updated := now\<rparr>) db
           in bind_res (enqueue_item env c a (rc_payload r) (rc_source r) now (rc_prepared r) db1) (\<lambda>(row, db2).
                Inr (row, update_receipts (is_receipt c a msg) (\<lambda>r. r\<lparr>rc_state := RQueued, rc_updated := now\<rparr>) db2))))))"

subsection \<open>Leases\<close>

definition rows_for_ids :: "string \<Rightarrow> string \<Rightarrow> string list \<Rightarrow> string option \<Rightarrow> inbox_db \<Rightarrow> inbox_item list" where
  "rows_for_ids c a ids run db =
     (let rows = filter (\<lambda>i. in_box c a i \<and> ix_msg i \<in> set ids \<and>
            (case run of None \<Rightarrow> True | Some r \<Rightarrow> ix_owner i = Some r \<and> \<not> is_inbox_source (ix_source i))) (ib_items db)
      in concat (map (\<lambda>m. case find (\<lambda>i. ix_msg i = m) rows of None \<Rightarrow> [] | Some i \<Rightarrow> [i]) ids))"

definition to_pending :: "real \<Rightarrow> inbox_item \<Rightarrow> inbox_item" where
  "to_pending now i = i\<lparr>ix_state := IPending, ix_owner := None, ix_owner_task := None, ix_lease := None, ix_updated := now\<rparr>"

definition lease_expired :: "real \<Rightarrow> inbox_item \<Rightarrow> bool" where
  "lease_expired now i \<longleftrightarrow> ix_state i = IClaimed \<and> (case ix_lease i of None \<Rightarrow> False | Some t \<Rightarrow> t \<le> now)"

definition recover_expired :: "real \<Rightarrow> inbox_db \<Rightarrow> nat \<times> inbox_db" where
  "recover_expired now db =
     (count_items (lease_expired now) db,
      update_items (lease_expired now) (to_pending now) db\<lparr>ib_claims := filter (\<lambda>cl. \<not> cl_lease cl \<le> now) (ib_claims db)\<rparr>)"

definition claimable ::
    "string \<Rightarrow> string \<Rightarrow> string list \<Rightarrow> string list \<Rightarrow> int option \<Rightarrow> inbox_item \<Rightarrow> bool" where
  "claimable c a sources wanted max_seq i \<longleftrightarrow>
     in_box c a i \<and> ix_state i = IPending \<and> \<not> is_inbox_source (ix_source i) \<and>
     (sources = [] \<or> ix_source i \<in> set sources) \<and> (wanted = [] \<or> ix_msg i \<in> set wanted) \<and>
     (case max_seq of None \<Rightarrow> True | Some n \<Rightarrow> int (ix_sequence i) \<le> max 0 n)"

definition inbox_claim_op ::
    "string \<Rightarrow> real \<Rightarrow> string \<Rightarrow> string \<Rightarrow> string \<Rightarrow> string \<Rightarrow> int \<Rightarrow> real \<Rightarrow> string list \<Rightarrow> string list \<Rightarrow> int option \<Rightarrow>
     inbox_db \<Rightarrow> ((inbox_claim option \<times> inbox_item list) \<times> inbox_db) res" where
  "inbox_claim_op fresh now conv agent run_id task_id limit lease_seconds sources wanted max_seq db =
     bind_res (inbox_keys conv agent) (\<lambda>(c, a).
     bind_res (required run_id ''run_id'') (\<lambda>run.
     bind_res (required task_id ''task_id'') (\<lambda>task.
     if limit < 0 then Inl (ValueError ''max_messages must be non-negative'')
     else
       (let expires = now + max 1 lease_seconds;
            db1 = snd (recover_expired now db)
        in case find (\<lambda>cl. cl_conversation cl = c \<and> cl_agent cl = a \<and> cl_run cl = run \<and> cl_task cl = task) (ib_claims db1) of
             Some previous \<Rightarrow> Inr ((Some previous, rows_for_ids c a (cl_items previous) (Some run) db1), db1)
           | None \<Rightarrow>
               (let ready = filter (claimable c a (nonempty_texts sources) (nonempty_texts wanted) max_seq) (ib_items db1);
                    ids = map ix_msg (if limit > 0 then take (nat limit) ready else ready)
                in if ids = [] then Inr ((None, []), db1)
                   else
                     (let claim = \<lparr>cl_id = fresh, cl_conversation = c, cl_agent = a, cl_run = run, cl_task = task,
                            cl_items = ids, cl_lease = expires, cl_created = now\<rparr>;
                          db2 = update_items (\<lambda>i. in_box c a i \<and> ix_state i = IPending \<and> ix_msg i \<in> set ids)
                            (\<lambda>i. i\<lparr>ix_state := IClaimed, ix_owner := Some run, ix_owner_task := Some task,
                                   ix_lease := Some expires, ix_updated := now\<rparr>) db1;
                          db3 = db2\<lparr>ib_claims := ib_claims db2 @ [claim]\<rparr>
                      in if fresh \<in> set (map cl_id (ib_claims db2))
                         then Inl (RuntimeError ''IntegrityError'')
                         else Inr ((Some claim, rows_for_ids c a ids (Some run) db3), db3)))))))"

definition recover_expired_leases :: "real \<Rightarrow> inbox_db \<Rightarrow> nat \<times> inbox_db" where
  "recover_expired_leases now db = recover_expired now db"

definition required_all :: "string \<Rightarrow> string list \<Rightarrow> (string list) res" where
  "required_all name vs =
     fold_res (\<lambda>v acc. bind_res (required v name) (\<lambda>s. Inr (acc @ [s]))) vs []"

definition is_workflow_run :: "string \<Rightarrow> bool" where
  "is_workflow_run r \<longleftrightarrow> take 3 r = ''wr_''"

definition recover_orphaned_workflow_claims :: "string list \<Rightarrow> real \<Rightarrow> inbox_db \<Rightarrow> (nat \<times> inbox_db) res" where
  "recover_orphaned_workflow_claims runs now db =
     bind_res (required_all ''recoverable_run_id'' runs) (\<lambda>keep.
       (let orphan = (\<lambda>i. ix_state i = IClaimed \<and>
              (case ix_owner i of None \<Rightarrow> False | Some r \<Rightarrow> is_workflow_run r \<and> r \<notin> set keep))
        in Inr (count_items orphan db,
                update_items orphan (to_pending now) db\<lparr>ib_claims :=
                  filter (\<lambda>cl. \<not> (is_workflow_run (cl_run cl) \<and> cl_run cl \<notin> set keep)) (ib_claims db)\<rparr>)))"

definition drop_claims :: "string \<Rightarrow> string \<Rightarrow> string \<Rightarrow> inbox_db \<Rightarrow> inbox_db" where
  "drop_claims c a run db =
     db\<lparr>ib_claims := filter (\<lambda>cl. \<not> (cl_conversation cl = c \<and> cl_agent cl = a \<and> cl_run cl = run)) (ib_claims db)\<rparr>"

definition owned_by :: "string \<Rightarrow> string \<Rightarrow> string \<Rightarrow> inbox_item \<Rightarrow> bool" where
  "owned_by c a run i \<longleftrightarrow> in_box c a i \<and> ix_state i = IClaimed \<and> ix_owner i = Some run"

definition inbox_acknowledge ::
    "string \<Rightarrow> string \<Rightarrow> string \<Rightarrow> string list \<Rightarrow> real \<Rightarrow> inbox_db \<Rightarrow> (nat \<times> inbox_db) res" where
  "inbox_acknowledge conv agent run_id msgs now db =
     bind_res (inbox_keys conv agent) (\<lambda>(c, a).
     bind_res (required run_id ''run_id'') (\<lambda>run.
       (let ids = nonempty_texts msgs; P = (\<lambda>i. owned_by c a run i \<and> ix_msg i \<in> set ids)
        in if ids = [] then Inr (0, db)
           else Inr (count_items P db,
             drop_claims c a run (update_items P (\<lambda>i. i\<lparr>ix_state := IAcknowledged, ix_owner := None,
               ix_owner_task := None, ix_lease := None, ix_updated := now\<rparr>) db)))))"

definition inbox_release ::
    "string \<Rightarrow> string \<Rightarrow> string \<Rightarrow> string list \<Rightarrow> real \<Rightarrow> inbox_db \<Rightarrow> (nat \<times> inbox_db) res" where
  "inbox_release conv agent run_id msgs now db =
     bind_res (inbox_keys conv agent) (\<lambda>(c, a).
     bind_res (required run_id ''run_id'') (\<lambda>run.
       (let ids = nonempty_texts msgs; P = (\<lambda>i. owned_by c a run i \<and> (ids = [] \<or> ix_msg i \<in> set ids))
        in Inr (count_items P db, drop_claims c a run (update_items P (to_pending now) db)))))"

definition inbox_transfer ::
    "string \<Rightarrow> string \<Rightarrow> string \<Rightarrow> string \<Rightarrow> real \<Rightarrow> real \<Rightarrow> inbox_db \<Rightarrow> (nat \<times> inbox_db) res" where
  "inbox_transfer conv agent old_run new_run lease_seconds now db =
     bind_res (inbox_keys conv agent) (\<lambda>(c, a).
     bind_res (required old_run ''old_run_id'') (\<lambda>old.
     bind_res (required new_run ''new_run_id'') (\<lambda>new.
       (let expires = now + max 1 lease_seconds;
            moved = (\<lambda>cl. if cl_conversation cl = c \<and> cl_agent cl = a \<and> cl_run cl = old
              then cl\<lparr>cl_run := new, cl_task := ''restart:'' @ old @ '':'' @ cl_task cl, cl_lease := expires\<rparr> else cl);
            claims = map moved (ib_claims db)
        in if \<not> distinct (map (\<lambda>cl. (cl_conversation cl, cl_agent cl, cl_run cl, cl_task cl)) claims)
           then Inl (RuntimeError ''IntegrityError'')
           else Inr (count_items (owned_by c a old) db,
             update_items (owned_by c a old) (\<lambda>i. i\<lparr>ix_owner := Some new, ix_lease := Some expires, ix_updated := now\<rparr>)
               db\<lparr>ib_claims := claims\<rparr>)))))"

subsection \<open>Discarding and the fence\<close>

definition raise_fence :: "string \<Rightarrow> string \<Rightarrow> real \<Rightarrow> inbox_db \<Rightarrow> inbox_db" where
  "raise_fence c a cutoff db =
     (case fence_of c a db of
        None \<Rightarrow> db\<lparr>ib_fences := ib_fences db @ [\<lparr>fe_conversation = c, fe_agent = a, fe_cutoff = cutoff\<rparr>]\<rparr>
      | Some _ \<Rightarrow> db\<lparr>ib_fences := map (\<lambda>f. if fe_conversation f = c \<and> fe_agent f = a
            then f\<lparr>fe_cutoff := max (fe_cutoff f) cutoff\<rparr> else f) (ib_fences db)\<rparr>)"

definition unread_or_leased :: "inbox_item \<Rightarrow> bool" where
  "unread_or_leased i \<longleftrightarrow> ix_state i \<in> {IPending, INotified, IClaimed}"

definition to_discarded :: "real \<Rightarrow> inbox_item \<Rightarrow> inbox_item" where
  "to_discarded now i = i\<lparr>ix_state := IDiscarded, ix_owner := None, ix_owner_task := None, ix_lease := None, ix_updated := now\<rparr>"

definition discard_through :: "string \<Rightarrow> string \<Rightarrow> real \<Rightarrow> real \<Rightarrow> inbox_db \<Rightarrow> (nat \<times> inbox_db) res" where
  "discard_through conv agent cutoff now db =
     bind_res (inbox_keys conv agent) (\<lambda>(c, a).
       (let db1 = raise_fence c a cutoff db;
            P = (\<lambda>i. in_box c a i \<and> unread_or_leased i \<and>
              (case fence_of c a db1 of None \<Rightarrow> False | Some f \<Rightarrow> ix_created i \<le> f));
            db2 = update_items P (to_discarded now) db1
        in Inr (count_items P db1,
             db2\<lparr>ib_claims := filter (\<lambda>cl. \<not> (cl_conversation cl = c \<and> cl_agent cl = a \<and>
               \<not> (\<exists>i \<in> set (ib_items db2). owned_by c a (cl_run cl) i))) (ib_claims db2)\<rparr>)))"

definition inbox_discard_msg_ids ::
    "string \<Rightarrow> string \<Rightarrow> string list \<Rightarrow> string list \<Rightarrow> real \<Rightarrow> inbox_db \<Rightarrow> (nat \<times> inbox_db) res" where
  "inbox_discard_msg_ids conv agent msgs sources now db =
     (let ids = nonempty_texts msgs; srcs = nonempty_texts sources
      in if ids = [] then Inr (0, db)
         else bind_res (inbox_keys conv agent) (\<lambda>(c, a).
           (let P = (\<lambda>i. in_box c a i \<and> unread_or_leased i \<and> ix_msg i \<in> set ids \<and> (srcs = [] \<or> ix_source i \<in> set srcs))
            in Inr (count_items P db, update_items P (to_discarded now) db))))"

subsection \<open>Reads\<close>

definition state_name :: "istate \<Rightarrow> string" where
  "state_name st = (case st of IPending \<Rightarrow> ''pending'' | INotified \<Rightarrow> ''notified'' | IRead \<Rightarrow> ''read''
     | IClaimed \<Rightarrow> ''claimed'' | IAcknowledged \<Rightarrow> ''acknowledged'' | IDiscarded \<Rightarrow> ''discarded'')"

definition list_items :: "string \<Rightarrow> string \<Rightarrow> string list \<Rightarrow> int \<Rightarrow> inbox_db \<Rightarrow> (inbox_item list) res" where
  "list_items conv agent states limit db =
     bind_res (inbox_keys conv agent) (\<lambda>(c, a).
       (let names = nonempty_texts states
        in Inr (take (nat (max 1 limit))
             (filter (\<lambda>i. in_box c a i \<and> (names = [] \<or> state_name (ix_state i) \<in> set names)) (ib_items db)))))"

definition is_unread :: "inbox_item \<Rightarrow> bool" where
  "is_unread i \<longleftrightarrow> ix_state i \<in> {IPending, INotified}"

definition list_pending :: "string \<Rightarrow> string \<Rightarrow> string \<Rightarrow> string \<Rightarrow> int \<Rightarrow> inbox_db \<Rightarrow> (inbox_item list) res" where
  "list_pending conv agent prefix excluded limit db =
     bind_res (inbox_keys conv agent) (\<lambda>(c, a).
       Inr (take (nat (max 1 limit))
         (filter (\<lambda>i. in_box c a i \<and> is_unread i \<and>
            (prefix = [] \<or> take (length prefix) (ix_source i) = prefix) \<and>
            (excluded = [] \<or> take (length excluded) (ix_source i) \<noteq> excluded)) (ib_items db))))"

definition notice_state :: "string \<Rightarrow> string \<Rightarrow> inbox_db \<Rightarrow> (int \<times> int) res" where
  "notice_state conv agent db =
     bind_res (inbox_keys conv agent) (\<lambda>(c, a).
       Inr (case find (\<lambda>n. nt_conversation n = c \<and> nt_agent n = a) (ib_notices db) of
              None \<Rightarrow> (0, 0) | Some n \<Rightarrow> (nt_sequence n, nt_turns n)))"

definition coalesce :: "'a option \<Rightarrow> 'a \<Rightarrow> 'a" where
  "coalesce v d = (case v of None \<Rightarrow> d | Some x \<Rightarrow> x)"

definition set_notice_state ::
    "string \<Rightarrow> string \<Rightarrow> int option \<Rightarrow> int option \<Rightarrow> real \<Rightarrow> inbox_db \<Rightarrow> inbox_db res" where
  "set_notice_state conv agent notified turns now db =
     (if notified = None \<and> turns = None then Inl (ValueError ''notified_sequence or unread_turns is required'')
      else bind_res (inbox_keys conv agent) (\<lambda>(c, a).
        (let mine = (\<lambda>n. nt_conversation n = c \<and> nt_agent n = a)
         in Inr (if list_ex mine (ib_notices db)
              then db\<lparr>ib_notices := map (\<lambda>n. if mine n then n\<lparr>nt_sequence := coalesce notified (nt_sequence n),
                     nt_turns := coalesce turns (nt_turns n), nt_updated := now\<rparr> else n) (ib_notices db)\<rparr>
              else db\<lparr>ib_notices := ib_notices db @ [\<lparr>nt_conversation = c, nt_agent = a, nt_sequence = coalesce notified 0,
                     nt_turns = coalesce turns 0, nt_updated = now\<rparr>]\<rparr>))))"

definition is_mark :: "string \<Rightarrow> string \<Rightarrow> string \<Rightarrow> read_mark \<Rightarrow> bool" where
  "is_mark c a msg r \<longleftrightarrow> ro_conversation r = c \<and> ro_agent r = a \<and> ro_msg r = msg"

definition read_offset :: "string \<Rightarrow> string \<Rightarrow> string \<Rightarrow> inbox_db \<Rightarrow> int res" where
  "read_offset conv agent msg_id db =
     bind_res (inbox_keys conv agent) (\<lambda>(c, a). bind_res (required msg_id ''msg_id'') (\<lambda>msg.
       Inr (case find (is_mark c a msg) (ib_offsets db) of None \<Rightarrow> 0 | Some r \<Rightarrow> ro_offset r)))"

definition set_read_offset :: "string \<Rightarrow> string \<Rightarrow> string \<Rightarrow> int \<Rightarrow> real \<Rightarrow> inbox_db \<Rightarrow> inbox_db res" where
  "set_read_offset conv agent msg_id offset now db =
     (if offset < 0 then Inl (ValueError ''offset must be non-negative'')
      else bind_res (inbox_keys conv agent) (\<lambda>(c, a). bind_res (required msg_id ''msg_id'') (\<lambda>msg.
        Inr (if list_ex (is_mark c a msg) (ib_offsets db)
             then db\<lparr>ib_offsets := map (\<lambda>r. if is_mark c a msg r then r\<lparr>ro_offset := offset, ro_updated := now\<rparr> else r) (ib_offsets db)\<rparr>
             else db\<lparr>ib_offsets := ib_offsets db @ [\<lparr>ro_conversation = c, ro_agent = a, ro_msg = msg, ro_offset = offset, ro_updated = now\<rparr>]\<rparr>))))"

definition mark_notified :: "string \<Rightarrow> string \<Rightarrow> int \<Rightarrow> real \<Rightarrow> inbox_db \<Rightarrow> (nat \<times> inbox_db) res" where
  "mark_notified conv agent through now db =
     bind_res (inbox_keys conv agent) (\<lambda>(c, a).
       (let P = (\<lambda>i. in_box c a i \<and> ix_state i = IPending \<and> is_inbox_source (ix_source i) \<and> int (ix_sequence i) \<le> through)
        in Inr (count_items P db,
             update_items P (\<lambda>i. i\<lparr>ix_state := INotified, ix_notified := Some now, ix_updated := now\<rparr>) db)))"

definition mark_read ::
    "string \<Rightarrow> string \<Rightarrow> string list \<Rightarrow> string \<Rightarrow> real \<Rightarrow> inbox_db \<Rightarrow> (nat \<times> inbox_db) res" where
  "mark_read conv agent msgs call now db =
     bind_res (inbox_keys conv agent) (\<lambda>(c, a).
       (let ids = nonempty_texts msgs;
            P = (\<lambda>i. in_box c a i \<and> is_unread i \<and> is_inbox_source (ix_source i) \<and> ix_msg i \<in> set ids)
        in if ids = [] then Inr (0, db)
           else Inr (count_items P db,
             update_items P (\<lambda>i. i\<lparr>ix_state := IRead, ix_owner := None, ix_owner_task := None, ix_lease := None,
                 ix_updated := now, ix_read := Some now, ix_read_call := call\<rparr>) db
             \<lparr>ib_offsets := filter (\<lambda>r. \<not> (ro_conversation r = c \<and> ro_agent r = a \<and> ro_msg r \<in> set ids)) (ib_offsets db)\<rparr>)))"

definition is_closed :: "inbox_item \<Rightarrow> bool" where
  "is_closed i \<longleftrightarrow> ix_state i \<in> {IRead, IAcknowledged, IDiscarded}"

definition purge_acknowledged :: "real \<Rightarrow> real \<Rightarrow> inbox_db \<Rightarrow> (nat \<times> inbox_db) res" where
  "purge_acknowledged retention now db =
     (if retention < 0 then Inl (ValueError ''older_than_seconds must be non-negative'')
      else
        (let old = (\<lambda>i. is_closed i \<and> ix_updated i < now - retention);
             items = filter (\<lambda>i. \<not> old i) (ib_items db)
         in Inr (count_items old db,
              db\<lparr>ib_items := items,
                 ib_offsets := filter (\<lambda>r. \<exists>i \<in> set items. in_box (ro_conversation r) (ro_agent r) i \<and>
                   ix_msg i = ro_msg r \<and> unread_or_leased i) (ib_offsets db)\<rparr>)))"

definition pending_count :: "string \<Rightarrow> string \<Rightarrow> inbox_db \<Rightarrow> nat res" where
  "pending_count conv agent db =
     bind_res (inbox_keys conv agent) (\<lambda>(c, a). Inr (count_items (\<lambda>i. in_box c a i \<and> is_unread i) db))"

definition latest_sequence :: "string \<Rightarrow> string \<Rightarrow> inbox_db \<Rightarrow> nat res" where
  "latest_sequence conv agent db =
     bind_res (inbox_keys conv agent) (\<lambda>(c, a).
       Inr (foldr max (map ix_sequence (filter (in_box c a) (ib_items db))) 0))"

definition list_agent_keys :: "string \<Rightarrow> inbox_db \<Rightarrow> (string list) res" where
  "list_agent_keys conv db =
     bind_res (required conv ''conversation_id'') (\<lambda>c.
       Inr (sort (dedup (map ix_agent (filter (\<lambda>i. ix_conversation i = c \<and> unread_or_leased i) (ib_items db))))))"

definition list_ready_keys :: "inbox_db \<Rightarrow> (string \<times> string) list" where
  "list_ready_keys db =
     (let keys = dedup (map (\<lambda>i. (ix_conversation i, ix_agent i)) (filter is_unread (ib_items db)))
      in sort_key fst (sort_key snd keys))"

subsection \<open>Reconciliation of receipts\<close>

text \<open>
  The transcript is another store: \<open>contains\<close> asks it, \<open>append\<close> (when given) adds a message and may
  raise.  \<open>now n\<close> is the clock of the \<open>n\<close>-th promotion.  What was promoted before an exception stays.
\<close>

fun reconcile_loop ::
    "inbox_env \<Rightarrow> ('t \<Rightarrow> string \<Rightarrow> string \<Rightarrow> bool) \<Rightarrow> ('t \<Rightarrow> string \<Rightarrow> string \<Rightarrow> json \<Rightarrow> 't res) option \<Rightarrow> (nat \<Rightarrow> real) \<Rightarrow>
     receipt list \<Rightarrow> nat \<Rightarrow> nat \<Rightarrow> 't \<Rightarrow> inbox_db \<Rightarrow> (nat \<times> nat) res \<times> 't \<times> inbox_db" where
  "reconcile_loop env contains app now [] repaired awaiting t db = (Inr (repaired, awaiting), t, db)"
| "reconcile_loop env contains app now (r # rs) repaired awaiting t db =
     (case (if contains t (rc_conversation r) (rc_msg r) then Inr (True, t)
            else case app of
                None \<Rightarrow> Inr (False, t)
              | Some f \<Rightarrow> bind_res (f t (rc_conversation r) (rc_agent r) (rc_payload r)) (\<lambda>t'. Inr (True, t'))) of
        Inl e \<Rightarrow> (Inl e, t, db)
      | Inr (present, t') \<Rightarrow>
          if present
          then (case mark_transcript_persisted env (rc_conversation r) (rc_agent r) (rc_msg r) (now repaired) db of
                  Inl e \<Rightarrow> (Inl e, t', db)
                | Inr (row, db') \<Rightarrow> reconcile_loop env contains app now rs (Suc repaired) awaiting t' db')
          else reconcile_loop env contains app now rs repaired (Suc awaiting) t' db)"

definition reconcile_receipts ::
    "inbox_env \<Rightarrow> ('t \<Rightarrow> string \<Rightarrow> string \<Rightarrow> bool) \<Rightarrow> ('t \<Rightarrow> string \<Rightarrow> string \<Rightarrow> json \<Rightarrow> 't res) option \<Rightarrow> (nat \<Rightarrow> real) \<Rightarrow>
     't \<Rightarrow> inbox_db \<Rightarrow> (nat \<times> nat) res \<times> 't \<times> inbox_db" where
  "reconcile_receipts env contains app now t db =
     reconcile_loop env contains app now
       (sort_key rc_prepared (filter (\<lambda>r. rc_state r \<noteq> RQueued) (ib_receipts db))) 0 0 t db"

subsection \<open>Migration of the legacy queue\<close>

text \<open>\<open>_legacy_source\<close>: the producer tag of a legacy message.\<close>

definition legacy_rescue :: "json \<Rightarrow> (bool \<times> string) res" where
  "legacy_rescue payload =
     (let origin = (let o1 = jget_or payload ''source'' JNull in if jtruthy o1 then o1 else JDict []) in
      bind_res (dict_get_res origin ''type'' JNull) (\<lambda>ty.
      bind_res (dict_get_res origin ''delegate'' JNull) (\<lambda>delegate.
      bind_res (dict_get_res origin ''kind'' JNull) (\<lambda>kind.
      bind_res (dict_get_res origin ''name'' JNull) (\<lambda>name.
      if ty = JStr ''user'' \<and> \<not> jtruthy delegate then Inr (True, ''preempt_rescue'')
      else bind_res (hash_res ty) (\<lambda>ty.
        if ty \<in> {JStr ''agent_delegate'', JStr ''a2a'', JStr ''cross_conversation_delegate''}
        then Inr (False, if kind = JStr ''reply'' then ''delegate_reply'' else ''delegate_message'')
        else if jtruthy delegate then Inr (False, ''delegate_result'')
        else if ty = JStr ''scheduled_wakeup'' then Inr (False, ''scheduled_wakeup'')
        else if ty = JStr ''system'' \<and> name = JStr ''background'' then Inr (False, ''background_result'')
        else Inl (ValueError ''legacy preempt_rescue requires a recognized origin'')))))))"

definition legacy_kind :: "inbox_env \<Rightarrow> json \<Rightarrow> string \<Rightarrow> string res" where
  "legacy_kind env payload source =
     (if source \<in> {''http'', ''agent_msg'', ''resume_agent'', ''preempt_soft'', ''skill_run''} then Inr source
      else if py_startswith source ''inbox:''
      then bind_res (required (drop 6 source) ''inbox kind'') (\<lambda>_. Inr source)
      else if source = ''delegate_reply'' then
        bind_res (hash_res (case jget payload ''source'' of Some (JDict d) \<Rightarrow> jget_or (JDict d) ''kind'' JNull | _ \<Rightarrow> JNull)) (\<lambda>kind.
          Inr (''inbox:'' @ (if kind = JStr ''reply'' then ''delegate_reply''
                             else if kind = JStr ''request'' then ''delegate_message'' else ''delegate_result'')))
      else if source = ''bg_tool'' then Inr ''inbox:background_result''
      else if source = ''scheduled_wakeup'' then
        Inr (''inbox:'' @ (if py_str_in ''continuation'' (py_lower (content_text env (jget_or payload ''content'' (JStr []))))
                           then ''continuation'' else ''scheduled_wakeup''))
      else if py_startswith source ''skill_'' then Inr ''inbox:skill_event''
      else if source \<in> {''delegate_message'', ''delegate_result'', ''background_result'', ''continuation'',
                         ''task_checkin'', ''catch_up'', ''workflow_proposal''} then Inr (''inbox:'' @ source)
      else Inl (ValueError ''unknown legacy pending source''))"

definition legacy_source :: "inbox_env \<Rightarrow> json \<Rightarrow> string res" where
  "legacy_source env payload =
     bind_res (required (text_of env (jget_or payload ''_pending_source'' JNull)) ''_pending_source'') (\<lambda>source.
       if source = ''preempt_rescue''
       then bind_res (legacy_rescue payload) (\<lambda>(stop, s). if stop then Inr s else legacy_kind env payload s)
       else legacy_kind env payload source)"

text \<open>
  \<open>migrate_pending_jsonl\<close> on the lines of the file that are not blank: \<open>None\<close> is a line that is not
  JSON.  The digest of the file is an argument, and so are the two readings of the clock.
\<close>

fun legacy_rows :: "inbox_env \<Rightarrow> json option list \<Rightarrow> (json list) res" where
  "legacy_rows env [] = Inr []"
| "legacy_rows env (None # ls) = Inl (ValueError ''invalid pending JSONL line'')"
| "legacy_rows env (Some p # ls) =
     (if \<not> is_dict p \<or> \<not> jtruthy (jget_or p ''msg_id'' JNull)
      then Inl (ValueError ''invalid pending JSONL line: stamped object required'')
      else bind_res (created_at env p) (\<lambda>_. bind_res (legacy_rows env ls) (\<lambda>rest. Inr (p # rest))))"

fun enqueue_legacy :: "inbox_env \<Rightarrow> string \<Rightarrow> string \<Rightarrow> real \<Rightarrow> json list \<Rightarrow> inbox_db \<Rightarrow> inbox_db res" where
  "enqueue_legacy env c a now [] db = Inr db"
| "enqueue_legacy env c a now (p # ps) db =
     bind_res (legacy_source env p) (\<lambda>src.
     bind_res (enqueue_item env c a p src now now db) (\<lambda>(row, db'). enqueue_legacy env c a now ps db'))"

definition migrate_pending_jsonl ::
    "inbox_env \<Rightarrow> string \<Rightarrow> string \<Rightarrow> string \<Rightarrow> string \<Rightarrow> json option list \<Rightarrow> real \<Rightarrow> real \<Rightarrow> inbox_db \<Rightarrow>
     ((bool \<times> nat) \<times> inbox_db) res" where
  "migrate_pending_jsonl env conv agent path digest lines now completed db =
     bind_res (inbox_keys conv agent) (\<lambda>(c, a).
     bind_res (legacy_rows env lines) (\<lambda>rows.
     (case find (\<lambda>g. mg_conversation g = c \<and> mg_agent g = a) (ib_migrations db) of
        Some g \<Rightarrow>
          if mg_sha g \<noteq> digest \<or> mg_count g \<noteq> length rows
          then Inl (ValueError ''legacy pending queue changed after migration'')
          else Inr ((False, length rows), db)
      | None \<Rightarrow>
          bind_res (enqueue_legacy env c a now rows db) (\<lambda>db1.
            (let ids = dedup (map (\<lambda>p. text_of env (jget_or p ''msg_id'' JNull)) rows);
                 n = count_items (\<lambda>i. in_box c a i \<and> ix_msg i \<in> set ids) db1
             in if rows \<noteq> [] \<and> n \<noteq> length ids
                then Inl (RuntimeError ''legacy pending migration count validation failed'')
                else Inr ((True, length rows),
                  db1\<lparr>ib_migrations := ib_migrations db1 @ [\<lparr>mg_conversation = c, mg_agent = a, mg_path = path,
                    mg_sha = digest, mg_count = length rows, mg_completed = completed\<rparr>]\<rparr>))))))"

definition migration_status :: "string \<Rightarrow> string \<Rightarrow> inbox_db \<Rightarrow> (migration option) res" where
  "migration_status conv agent db =
     bind_res (inbox_keys conv agent) (\<lambda>(c, a).
       Inr (find (\<lambda>g. mg_conversation g = c \<and> mg_agent g = a) (ib_migrations db)))"

definition inbox_delete_conversation :: "string \<Rightarrow> inbox_db \<Rightarrow> (nat \<times> inbox_db) res" where
  "inbox_delete_conversation conv db =
     bind_res (required conv ''conversation_id'') (\<lambda>c.
       Inr (length (filter (\<lambda>x. cl_conversation x = c) (ib_claims db)) +
            length (filter (\<lambda>x. ix_conversation x = c) (ib_items db)) +
            length (filter (\<lambda>x. rc_conversation x = c) (ib_receipts db)) +
            length (filter (\<lambda>x. mg_conversation x = c) (ib_migrations db)) +
            length (filter (\<lambda>x. nt_conversation x = c) (ib_notices db)) +
            length (filter (\<lambda>x. ro_conversation x = c) (ib_offsets db)) +
            length (filter (\<lambda>x. fe_conversation x = c) (ib_fences db)) +
            length (filter (\<lambda>x. fst x = c) (ib_contexts db)),
          db\<lparr>ib_claims := filter (\<lambda>x. cl_conversation x \<noteq> c) (ib_claims db),
             ib_items := filter (\<lambda>x. ix_conversation x \<noteq> c) (ib_items db),
             ib_receipts := filter (\<lambda>x. rc_conversation x \<noteq> c) (ib_receipts db),
             ib_migrations := filter (\<lambda>x. mg_conversation x \<noteq> c) (ib_migrations db),
             ib_notices := filter (\<lambda>x. nt_conversation x \<noteq> c) (ib_notices db),
             ib_offsets := filter (\<lambda>x. ro_conversation x \<noteq> c) (ib_offsets db),
             ib_fences := filter (\<lambda>x. fe_conversation x \<noteq> c) (ib_fences db),
             ib_contexts := filter (\<lambda>x. fst x \<noteq> c) (ib_contexts db)\<rparr>))"

end
