(* ===== verification/Inbox_Proofs.thy ===== *)
theory Inbox_Proofs
  imports Inbox
begin

section \<open>The agent inbox: invariant, leases and delivery\<close>

text \<open>
  The invariant of the inbox tables, the life cycle of an item as a state machine, and what claiming,
  acknowledging, fencing and enqueueing guarantee.
\<close>

subsection \<open>The invariant\<close>

definition ix_key :: "inbox_item \<Rightarrow> string \<times> string \<times> string" where
  "ix_key i = (ix_conversation i, ix_agent i, ix_msg i)"

definition item_ok :: "inbox_db \<Rightarrow> inbox_item \<Rightarrow> bool" where
  "item_ok db i \<longleftrightarrow> ix_msg i \<noteq> [] \<and>
     (ix_state i = IClaimed \<longleftrightarrow> ix_owner i \<noteq> None) \<and> (ix_owner i = None \<longleftrightarrow> ix_lease i = None) \<and>
     (ix_state i = IClaimed \<longrightarrow> \<not> is_inbox_source (ix_source i)) \<and>
     (ix_state i \<in> {INotified, IRead} \<longrightarrow> is_inbox_source (ix_source i)) \<and>
     (unread_or_leased i \<longrightarrow> (\<forall>f. fence_of (ix_conversation i) (ix_agent i) db = Some f \<longrightarrow> f < ix_created i))"

definition inbox_inv :: "inbox_db \<Rightarrow> bool" where
  "inbox_inv db \<longleftrightarrow>
     sorted_wrt (<) (map ix_sequence (ib_items db)) \<and> (\<forall>i \<in> set (ib_items db). ix_sequence i < ib_next db) \<and>
     distinct (map ix_key (ib_items db)) \<and> (\<forall>i \<in> set (ib_items db). item_ok db i)"

definition same_item :: "inbox_item \<Rightarrow> inbox_item \<Rightarrow> bool" where
  "same_item i j \<longleftrightarrow> (\<exists>st ow tk le up no re ca. j = i\<lparr>ix_state := st, ix_owner := ow, ix_owner_task := tk,
     ix_lease := le, ix_updated := up, ix_notified := no, ix_read := re, ix_read_call := ca\<rparr>)"

lemma same_itemD:
  assumes "same_item i j"
  shows "ix_sequence j = ix_sequence i" "ix_key j = ix_key i" "ix_source j = ix_source i" "ix_created j = ix_created i"
    "ix_payload j = ix_payload i" "ix_conversation j = ix_conversation i" "ix_agent j = ix_agent i" "ix_msg j = ix_msg i"
  using assms by (auto simp: same_item_def ix_key_def)

lemma same_item_refl: "same_item i i"
  unfolding same_item_def by (cases i) (auto intro!: exI)

lemma same_item_trans: "same_item i j \<Longrightarrow> same_item j k \<Longrightarrow> same_item i k"
  unfolding same_item_def by (cases i) auto

text \<open>The states an item may move between in one transaction.\<close>

fun item_edge :: "istate \<Rightarrow> istate \<Rightarrow> bool" where
  "item_edge IPending t = (t \<in> {IClaimed, INotified, IRead, IDiscarded})"
| "item_edge INotified t = (t \<in> {IRead, IDiscarded})"
| "item_edge IClaimed t = (t \<in> {IPending, IAcknowledged, IDiscarded})"
| "item_edge _ t = False"

definition item_step :: "inbox_item \<Rightarrow> inbox_item \<Rightarrow> bool" where
  "item_step i j \<longleftrightarrow> same_item i j \<and> (ix_state j = ix_state i \<or> item_edge (ix_state i) (ix_state j))"

text \<open>What a transaction may do to the items and the fences; only the purge removes rows.\<close>

definition fences_raised :: "inbox_db \<Rightarrow> inbox_db \<Rightarrow> bool" where
  "fences_raised db db' \<longleftrightarrow> (\<forall>c a f. fence_of c a db = Some f \<longrightarrow> (\<exists>f'. fence_of c a db' = Some f' \<and> f \<le> f'))"

lemma fences_raised_same: "ib_fences db' = ib_fences db \<Longrightarrow> fences_raised db db'"
  by (auto simp: fences_raised_def fence_of_def)

lemma fences_raised_trans: "fences_raised db db' \<Longrightarrow> fences_raised db' db'' \<Longrightarrow> fences_raised db db''"
  unfolding fences_raised_def by (meson order_trans)

inductive ib_write :: "inbox_db \<Rightarrow> inbox_db \<Rightarrow> bool" where
  iw_update: "ib_items db' = map g (ib_items db) \<Longrightarrow> ib_next db' = ib_next db \<Longrightarrow> fences_raised db db' \<Longrightarrow>
    (\<And>i. i \<in> set (ib_items db) \<Longrightarrow> item_step i (g i) \<and> item_ok db' (g i)) \<Longrightarrow> ib_write db db'"
| iw_insert: "ib_items db' = ib_items db @ [i] \<Longrightarrow> ib_next db' = Suc (ib_next db) \<Longrightarrow> ib_fences db' = ib_fences db \<Longrightarrow>
    ix_sequence i = ib_next db \<Longrightarrow> ix_key i \<notin> set (map ix_key (ib_items db)) \<Longrightarrow> item_ok db' i \<Longrightarrow> ib_write db db'"

inductive ib_purge :: "inbox_db \<Rightarrow> inbox_db \<Rightarrow> bool" where
  iw_purge: "ib_items db' = filter Q (ib_items db) \<Longrightarrow> ib_next db' = ib_next db \<Longrightarrow> ib_fences db' = ib_fences db \<Longrightarrow>
    (\<And>i. i \<in> set (ib_items db) \<Longrightarrow> \<not> Q i \<Longrightarrow> is_closed i) \<Longrightarrow> ib_purge db db'"

lemma item_ok_fences:
  assumes "ib_fences db' = ib_fences db"
  shows "item_ok db' = item_ok db"
  using assms by (auto simp: item_ok_def fence_of_def fun_eq_iff)

lemma ib_write_inv:
  assumes "ib_write db db'" "inbox_inv db"
  shows "inbox_inv db'"
  using assms(1)
proof cases
  case (iw_update g)
  have seq: "map ix_sequence (ib_items db') = map ix_sequence (ib_items db)"
    and key: "map ix_key (ib_items db') = map ix_key (ib_items db)"
    using iw_update by (auto simp: item_step_def dest: same_itemD)
  have "\<forall>i \<in> set (ib_items db). ix_sequence (g i) = ix_sequence i"
    using iw_update(4) same_itemD(1) by (auto simp: item_step_def)
  then have "\<forall>j \<in> set (ib_items db'). ix_sequence j < ib_next db'"
    using iw_update(1,2) assms(2) by (auto simp: inbox_inv_def)
  moreover have "\<forall>j \<in> set (ib_items db'). item_ok db' j" using iw_update(1,4) by auto
  ultimately show ?thesis using assms(2) unfolding inbox_inv_def seq key by blast
next
  case (iw_insert i)
  then show ?thesis using assms(2) item_ok_fences [of db' db]
    by (auto simp: inbox_inv_def sorted_wrt_append less_Suc_eq)
qed

lemma inbox_inv_filter:
  assumes "inbox_inv db" "ib_items db' = filter Q (ib_items db)" "ib_next db' = ib_next db"
    "\<And>i. i \<in> set (ib_items db) \<Longrightarrow> Q i \<Longrightarrow> item_ok db i \<Longrightarrow> item_ok db' i"
  shows "inbox_inv db'"
proof -
  have "sorted_wrt (<) (map ix_sequence (filter Q xs))" if "sorted_wrt (<) (map ix_sequence xs)" for xs
    using that by (induction xs) auto
  then have "sorted_wrt (<) (map ix_sequence (ib_items db'))" using assms(1,2) by (simp add: inbox_inv_def)
  moreover have "distinct (map ix_key (ib_items db'))" using assms(1,2) by (simp add: inbox_inv_def distinct_map_filter)
  moreover have "\<forall>i \<in> set (ib_items db'). ix_sequence i < ib_next db' \<and> item_ok db' i"
    using assms by (auto simp: inbox_inv_def)
  ultimately show ?thesis by (simp add: inbox_inv_def)
qed

lemma ib_purge_inv:
  assumes "ib_purge db db'" "inbox_inv db"
  shows "inbox_inv db'"
  using assms(1)
proof cases
  case (iw_purge Q)
  show ?thesis
    by (rule inbox_inv_filter [OF assms(2) iw_purge(1,2)]) (simp add: item_ok_fences [OF iw_purge(3)])
qed

lemma ib_write_same:
  assumes "ib_items db' = ib_items db" "ib_next db' = ib_next db" "ib_fences db' = ib_fences db" "inbox_inv db"
  shows "ib_write db db'"
  by (rule iw_update [where g = id])
    (use assms item_ok_fences [of db' db] fences_raised_same [of db' db] in \<open>auto simp: inbox_inv_def item_step_def same_item_refl\<close>)

lemma ib_write_update:
  assumes "inbox_inv db" and "ib_items db' = map (\<lambda>i. if P i then f i else i) (ib_items db)"
    and "ib_next db' = ib_next db" "ib_fences db' = ib_fences db"
    and "\<And>i. i \<in> set (ib_items db) \<Longrightarrow> P i \<Longrightarrow> item_ok db i \<Longrightarrow> item_step i (f i) \<and> item_ok db (f i)"
  shows "ib_write db db'"
  by (rule iw_update [where g = "\<lambda>i. if P i then f i else i"])
    (use assms item_ok_fences [of db' db] fences_raised_same [of db' db] in \<open>auto simp: inbox_inv_def item_step_def same_item_refl\<close>)

subsection \<open>Every operation keeps the contract\<close>

named_theorems item_change \<open>the row changes of the operations\<close>

lemma same_item_change [item_change]:
  "same_item i (i\<lparr>ix_state := st, ix_owner := ow, ix_owner_task := tk, ix_lease := le, ix_updated := now\<rparr>)"
  "same_item i (i\<lparr>ix_owner := ow, ix_lease := le, ix_updated := now\<rparr>)"
  "same_item i (i\<lparr>ix_state := INotified, ix_notified := no, ix_updated := now\<rparr>)"
  "same_item i (i\<lparr>ix_state := IRead, ix_owner := ow, ix_owner_task := tk, ix_lease := le, ix_updated := now,
     ix_read := re, ix_read_call := ca\<rparr>)"
  by (cases i; simp add: same_item_def)+

lemma release_step:
  assumes "item_ok db i" "ix_state i = IClaimed"
  shows "item_step i (to_pending now i) \<and> item_ok db (to_pending now i)"
  using assms by (auto simp: item_step_def item_change item_ok_def to_pending_def unread_or_leased_def)

lemma discard_step:
  assumes "item_ok db i" "unread_or_leased i"
  shows "item_step i (to_discarded now i) \<and> item_ok db (to_discarded now i)"
  using assms by (auto simp: item_step_def item_change item_ok_def to_discarded_def unread_or_leased_def)

text \<open>The two ways an enqueue succeeds: the message is there with the same content, or it is inserted.\<close>

lemma enqueue_item_cases:
  assumes "enqueue_item env c a payload source ts enq db = Inr (row, db')"
  obtains (old) msg where "payload_msg_id env payload = Inr msg" "find_item c a msg db = Some row" "db' = db"
      "json_dumps (ix_payload row) = json_dumps payload \<or> jeq (meaningful (ix_payload row)) (meaningful payload)"
  | (new) msg src created where "payload_msg_id env payload = Inr msg" "find_item c a msg db = None"
      "row = new_item c a msg payload src created ts enq db"
      "db' = db\<lparr>ib_items := ib_items db @ [row], ib_next := Suc (ib_next db)\<rparr>"
proof -
  have dict: "is_dict payload" using assms by (cases "is_dict payload") (simp_all add: enqueue_item_def)
  then obtain msg src created where m: "payload_msg_id env payload = Inr msg"
      "required source ''source'' = Inr src"
      "(if \<not> is_inbox_source src \<and> is_unstamped payload then Inr ts else created_at env payload) = Inr created"
    using assms unfolding enqueue_item_def by (simp only: bind_res_Inr_iff not_True_eq_False if_False) blast
  show thesis
  proof (cases "find_item c a msg db")
    case None
    then show thesis using assms m dict by (intro new [of msg src created]) (auto simp: enqueue_item_def Let_def)
  next
    case (Some r)
    then show thesis using assms m dict by (intro old [of msg]) (auto simp: enqueue_item_def split: if_splits)
  qed
qed

lemma payload_msg_id_nonempty: "payload_msg_id env payload = Inr msg \<Longrightarrow> msg \<noteq> []"
  by (auto simp: payload_msg_id_def bind_res_Inr_iff required_Inr)

lemma new_item_ok: "msg \<noteq> [] \<Longrightarrow> item_ok db (new_item c a msg payload src created ts enq db)"
  by (auto simp: new_item_def item_ok_def unread_or_leased_def split: option.splits if_splits)

lemma find_item_None_key: "find_item c a msg db = None \<longleftrightarrow> (c, a, msg) \<notin> set (map ix_key (ib_items db))"
  by (force simp: find_item_def find_None_iff ix_key_def in_box_def)

lemma enqueue_item_write:
  assumes inv: "inbox_inv db" and op: "enqueue_item env c a payload source ts enq db = Inr (row, db')"
  shows "ib_write db db'"
  using op
proof (cases rule: enqueue_item_cases)
  case (old msg)
  then show ?thesis using inv by (simp add: ib_write_same)
next
  case (new msg src created)
  have "ix_key row = (c, a, msg)" "ix_sequence row = ib_next db" using new(3) by (simp_all add: new_item_def ix_key_def)
  moreover have "item_ok db' row" using new(3,4) new_item_ok [OF payload_msg_id_nonempty [OF new(1)]] item_ok_fences [of db' db] by simp
  ultimately show ?thesis using new(2,4)
    by (intro iw_insert [where i = row]) (simp_all add: find_item_None_key)
qed

lemma ib_write_refl: "inbox_inv db \<Longrightarrow> ib_write db db"
  by (simp add: ib_write_same)

lemma update_receipts_same:
  "ib_items (update_receipts P f db) = ib_items db" "ib_next (update_receipts P f db) = ib_next db"
  "ib_fences (update_receipts P f db) = ib_fences db"
  by (simp_all add: update_receipts_def)

lemma inbox_inv_cong:
  assumes "ib_items db' = ib_items db" "ib_next db' = ib_next db" "ib_fences db' = ib_fences db"
  shows "inbox_inv db' = inbox_inv db"
  using assms item_ok_fences [of db' db] by (simp add: inbox_inv_def)

lemma ib_write_cong:
  assumes "ib_write db db'" "ib_items e = ib_items db" "ib_next e = ib_next db" "ib_fences e = ib_fences db"
    "ib_items e' = ib_items db'" "ib_next e' = ib_next db'" "ib_fences e' = ib_fences db'"
  shows "ib_write e e'"
  using assms(1)
proof cases
  case (iw_update g)
  moreover have "fences_raised e e'" using iw_update(3) assms by (simp add: fences_raised_def fence_of_def)
  ultimately show ?thesis using assms item_ok_fences [of e' db'] by (intro ib_write.iw_update [where g = g]) auto
next
  case (iw_insert i)
  then show ?thesis using assms item_ok_fences [of e' db'] by (intro ib_write.iw_insert [where i = i]) auto
qed

lemma recover_expired_write:
  assumes "inbox_inv db"
  shows "ib_write db (snd (recover_expired now db))"
  unfolding recover_expired_def snd_conv
  by (rule ib_write_update [OF assms, where P = "lease_expired now" and f = "to_pending now"])
    (auto simp: update_items_def lease_expired_def release_step)

lemma orphaned_write:
  assumes "inbox_inv db" "recover_orphaned_workflow_claims runs now db = Inr (n, db')"
  shows "ib_write db db'"
proof -
  obtain keep where "db' = update_items (\<lambda>i. ix_state i = IClaimed \<and>
              (case ix_owner i of None \<Rightarrow> False | Some r \<Rightarrow> is_workflow_run r \<and> r \<notin> set keep)) (to_pending now)
       db\<lparr>ib_claims := filter (\<lambda>cl. \<not> (is_workflow_run (cl_run cl) \<and> cl_run cl \<notin> set keep)) (ib_claims db)\<rparr>"
    using assms(2) by (auto simp: recover_orphaned_workflow_claims_def bind_res_Inr_iff Let_def)
  then show ?thesis
    by (intro ib_write_update [OF assms(1), where P = "\<lambda>i. ix_state i = IClaimed \<and>
              (case ix_owner i of None \<Rightarrow> False | Some r \<Rightarrow> is_workflow_run r \<and> r \<notin> set keep)" and f = "to_pending now"])
      (auto simp: update_items_def release_step)
qed

lemma acknowledge_write:
  assumes "inbox_inv db" "inbox_acknowledge conv agent run msgs now db = Inr (n, db')"
  shows "ib_write db db'"
proof -
  obtain c a r where "db' = db \<or> db' = drop_claims c a r (update_items
      (\<lambda>i. owned_by c a r i \<and> ix_msg i \<in> set (nonempty_texts msgs))
      (\<lambda>i. i\<lparr>ix_state := IAcknowledged, ix_owner := None, ix_owner_task := None, ix_lease := None, ix_updated := now\<rparr>) db)"
    using assms(2) by (auto simp: inbox_acknowledge_def bind_res_Inr_iff Let_def split: if_splits)
  then show ?thesis
  proof
    assume "db' = db"
    then show ?thesis using assms(1) by (simp add: ib_write_refl)
  next
    assume db': "db' = drop_claims c a r (update_items
      (\<lambda>i. owned_by c a r i \<and> ix_msg i \<in> set (nonempty_texts msgs))
      (\<lambda>i. i\<lparr>ix_state := IAcknowledged, ix_owner := None, ix_owner_task := None, ix_lease := None, ix_updated := now\<rparr>) db)"
    show ?thesis unfolding db'
      by (rule ib_write_update [OF assms(1), where P = "\<lambda>i. owned_by c a r i \<and> ix_msg i \<in> set (nonempty_texts msgs)"
        and f = "\<lambda>i. i\<lparr>ix_state := IAcknowledged, ix_owner := None, ix_owner_task := None, ix_lease := None, ix_updated := now\<rparr>"])
        (auto simp: drop_claims_def update_items_def owned_by_def item_step_def item_change item_ok_def unread_or_leased_def)
  qed
qed

lemma release_write:
  assumes "inbox_inv db" "inbox_release conv agent run msgs now db = Inr (n, db')"
  shows "ib_write db db'"
proof -
  obtain c a r ids where db': "db' = drop_claims c a r (update_items
      (\<lambda>i. owned_by c a r i \<and> (ids = [] \<or> ix_msg i \<in> set ids)) (to_pending now) db)"
    using assms(2) by (auto simp: inbox_release_def bind_res_Inr_iff Let_def)
  show ?thesis unfolding db'
    by (rule ib_write_update [OF assms(1), where P = "\<lambda>i. owned_by c a r i \<and> (ids = [] \<or> ix_msg i \<in> set ids)"
        and f = "to_pending now"])
      (auto simp: drop_claims_def update_items_def owned_by_def release_step)
qed

lemma transfer_write:
  assumes "inbox_inv db" "inbox_transfer conv agent old_run new_run lease now db = Inr (n, db')"
  shows "ib_write db db'"
proof -
  obtain c a old new' e claims where db': "db' = update_items (owned_by c a old)
      (\<lambda>i. i\<lparr>ix_owner := Some new', ix_lease := Some e, ix_updated := now\<rparr>) db\<lparr>ib_claims := claims\<rparr>"
    using assms(2) by (auto simp: inbox_transfer_def bind_res_Inr_iff Let_def split: if_splits)
  show ?thesis unfolding db'
    by (rule ib_write_update [OF assms(1), where P = "owned_by c a old"
        and f = "\<lambda>i. i\<lparr>ix_owner := Some new', ix_lease := Some e, ix_updated := now\<rparr>"])
      (auto simp: update_items_def owned_by_def item_step_def item_change item_ok_def unread_or_leased_def)
qed

lemma discard_msg_ids_write:
  assumes "inbox_inv db" "inbox_discard_msg_ids conv agent msgs sources now db = Inr (n, db')"
  shows "ib_write db db'"
proof (cases "nonempty_texts msgs = []")
  case True
  then show ?thesis using assms by (simp add: inbox_discard_msg_ids_def Let_def ib_write_refl)
next
  case False
  then obtain c a where "inbox_keys conv agent = Inr (c, a)"
    using assms(2) by (auto simp: inbox_discard_msg_ids_def Let_def bind_res_Inr_iff)
  then have db': "db' = update_items (\<lambda>i. in_box c a i \<and> unread_or_leased i \<and> ix_msg i \<in> set (nonempty_texts msgs) \<and>
      (nonempty_texts sources = [] \<or> ix_source i \<in> set (nonempty_texts sources))) (to_discarded now) db"
    using assms(2) False by (simp add: inbox_discard_msg_ids_def Let_def)
  show ?thesis
    by (rule ib_write_update [OF assms(1), where P = "\<lambda>i. in_box c a i \<and> unread_or_leased i \<and>
        ix_msg i \<in> set (nonempty_texts msgs) \<and> (nonempty_texts sources = [] \<or> ix_source i \<in> set (nonempty_texts sources))"
        and f = "to_discarded now"]) (auto simp: db' update_items_def discard_step)
qed

lemma mark_notified_write:
  assumes "inbox_inv db" "mark_notified conv agent through now db = Inr (n, db')"
  shows "ib_write db db'"
proof -
  obtain c a where "inbox_keys conv agent = Inr (c, a)"
    using assms(2) by (auto simp: mark_notified_def bind_res_Inr_iff)
  then have db': "db' = update_items (\<lambda>i. in_box c a i \<and> ix_state i = IPending \<and> is_inbox_source (ix_source i) \<and>
       int (ix_sequence i) \<le> through) (\<lambda>i. i\<lparr>ix_state := INotified, ix_notified := Some now, ix_updated := now\<rparr>) db"
    using assms(2) by (simp add: mark_notified_def Let_def)
  show ?thesis
    by (rule ib_write_update [OF assms(1), where P = "\<lambda>i. in_box c a i \<and> ix_state i = IPending \<and>
        is_inbox_source (ix_source i) \<and> int (ix_sequence i) \<le> through"
        and f = "\<lambda>i. i\<lparr>ix_state := INotified, ix_notified := Some now, ix_updated := now\<rparr>"])
      (auto simp: db' update_items_def item_step_def item_change item_ok_def unread_or_leased_def)
qed

lemma mark_read_write:
  assumes "inbox_inv db" "mark_read conv agent msgs call now db = Inr (n, db')"
  shows "ib_write db db'"
proof -
  obtain c a where ca: "inbox_keys conv agent = Inr (c, a)"
    using assms(2) by (auto simp: mark_read_def bind_res_Inr_iff)
  show ?thesis
  proof (cases "nonempty_texts msgs = []")
    case True
    then show ?thesis using assms ca by (simp add: mark_read_def Let_def ib_write_refl)
  next
    case False
    then obtain offs where db': "db' = update_items (\<lambda>i. in_box c a i \<and> is_unread i \<and> is_inbox_source (ix_source i) \<and>
        ix_msg i \<in> set (nonempty_texts msgs)) (\<lambda>i. i\<lparr>ix_state := IRead, ix_owner := None, ix_owner_task := None,
        ix_lease := None, ix_updated := now, ix_read := Some now, ix_read_call := call\<rparr>) db\<lparr>ib_offsets := offs\<rparr>"
      using assms(2) ca by (auto simp: mark_read_def Let_def)
    show ?thesis
      by (rule ib_write_update [OF assms(1), where P = "\<lambda>i. in_box c a i \<and> is_unread i \<and> is_inbox_source (ix_source i) \<and>
          ix_msg i \<in> set (nonempty_texts msgs)" and f = "\<lambda>i. i\<lparr>ix_state := IRead, ix_owner := None,
          ix_owner_task := None, ix_lease := None, ix_updated := now, ix_read := Some now, ix_read_call := call\<rparr>"])
        (auto simp: db' update_items_def is_unread_def item_step_def item_change item_ok_def unread_or_leased_def)
  qed
qed

lemma purge_purges:
  assumes "purge_acknowledged retention now db = Inr (n, db')"
  shows "ib_purge db db'"
  using assms
  by (intro iw_purge [where Q = "\<lambda>i. \<not> (is_closed i \<and> ix_updated i < now - retention)"])
    (auto simp: purge_acknowledged_def Let_def split: if_splits)

lemma raise_fence_items:
  "ib_items (raise_fence c a cutoff db) = ib_items db" "ib_next (raise_fence c a cutoff db) = ib_next db"
  by (simp_all add: raise_fence_def split: option.split)

lemma fence_of_raise:
  "fence_of c' a' (raise_fence c a cutoff db) =
   (if c' = c \<and> a' = a then Some (case fence_of c a db of None \<Rightarrow> cutoff | Some f \<Rightarrow> max f cutoff) else fence_of c' a' db)"
proof -
  let ?P = "\<lambda>c a f. fe_conversation f = c \<and> fe_agent f = a"
  have upd: "map_option fe_cutoff (find (?P c' a') (map (\<lambda>f. if ?P c a f then f\<lparr>fe_cutoff := max (fe_cutoff f) cutoff\<rparr> else f) fs)) =
    (if c' = c \<and> a' = a then map_option (\<lambda>f. max (fe_cutoff f) cutoff) (find (?P c a) fs)
     else map_option fe_cutoff (find (?P c' a') fs))" for fs
    by (induction fs) auto
  have app: "find (?P c' a') (fs @ [f]) = (case find (?P c' a') fs of None \<Rightarrow> if ?P c' a' f then Some f else None | Some g \<Rightarrow> Some g)" for fs f
    by (induction fs) auto
  show ?thesis
  proof (cases "find (?P c a) (ib_fences db)")
    case None
    then show ?thesis by (auto simp: raise_fence_def fence_of_def app split: option.splits)
  next
    case (Some f)
    then show ?thesis by (simp add: raise_fence_def fence_of_def upd)
  qed
qed

lemma discard_through_write:
  assumes inv: "inbox_inv db" and op: "discard_through conv agent cutoff now db = Inr (n, db')"
  shows "ib_write db db'"
proof -
  obtain c a where ca: "inbox_keys conv agent = Inr (c, a)"
    using op by (auto simp: discard_through_def bind_res_Inr_iff)
  define F where "F = (case fence_of c a db of None \<Rightarrow> cutoff | Some f \<Rightarrow> max f cutoff)"
  let ?g = "\<lambda>i. if in_box c a i \<and> unread_or_leased i \<and> ix_created i \<le> F then to_discarded now i else i"
  have items: "ib_items db' = map ?g (ib_items db)" and "ib_next db' = ib_next db"
    and fences: "ib_fences db' = ib_fences (raise_fence c a cutoff db)"
    using op ca by (auto simp: discard_through_def Let_def update_items_def raise_fence_items fence_of_raise F_def)
  moreover have fence: "fence_of c' a' db' = (if c' = c \<and> a' = a then Some F else fence_of c' a' db)" for c' a'
    using fences fence_of_raise [of c' a' c a cutoff db] by (simp add: fence_of_def F_def)
  moreover have "fences_raised db db'" by (simp add: fences_raised_def fence F_def split: option.split)
  moreover have "item_step i (?g i) \<and> item_ok db' (?g i)" if "i \<in> set (ib_items db)" for i
  proof -
    have ok: "item_ok db i" using inv that by (simp add: inbox_inv_def)
    show ?thesis
    proof (cases "in_box c a i \<and> unread_or_leased i \<and> ix_created i \<le> F")
      case True
      then have "item_step i (to_discarded now i)" using discard_step [OF ok] by blast
      moreover have "item_ok db' (to_discarded now i)"
        using ok by (simp add: item_ok_def to_discarded_def unread_or_leased_def)
      ultimately show ?thesis using True by simp
    next
      case False
      then have "item_ok db' i" using ok fence by (auto simp: item_ok_def in_box_def)
      then show ?thesis unfolding if_not_P [OF False] by (simp add: item_step_def same_item_refl)
    qed
  qed
  ultimately show ?thesis by (intro iw_update [where g = ?g])
qed

text \<open>The three ways a claim returns: an earlier claim again, nothing ready, or a new claim.\<close>

abbreviation claim_row :: "string \<Rightarrow> string \<Rightarrow> real \<Rightarrow> real \<Rightarrow> inbox_item \<Rightarrow> inbox_item" where
  "claim_row run task expires now i \<equiv> i\<lparr>ix_state := IClaimed, ix_owner := Some run, ix_owner_task := Some task,
     ix_lease := Some expires, ix_updated := now\<rparr>"

lemma claim_cases:
  assumes "inbox_claim_op fresh now conv agent run_id task_id limit lease_seconds sources wanted max_seq db = Inr ((cl, rows), db')"
  obtains (again) c a run previous where "inbox_keys conv agent = Inr (c, a)" "required run_id ''run_id'' = Inr run"
      "cl = Some previous" "rows = rows_for_ids c a (cl_items previous) (Some run) db'" "db' = snd (recover_expired now db)"
  | (nothing) "cl = None" "rows = []" "db' = snd (recover_expired now db)"
  | (new) c a run task claim where "inbox_keys conv agent = Inr (c, a)" "required run_id ''run_id'' = Inr run"
      "cl = Some claim" "rows = rows_for_ids c a (cl_items claim) (Some run) db'"
      "\<forall>m \<in> set (cl_items claim). \<exists>i \<in> set (ib_items (snd (recover_expired now db))).
         claimable c a (nonempty_texts sources) (nonempty_texts wanted) max_seq i \<and> ix_msg i = m"
      "db' = update_items (\<lambda>i. in_box c a i \<and> ix_state i = IPending \<and> ix_msg i \<in> set (cl_items claim))
         (claim_row run task (now + max 1 lease_seconds) now) (snd (recover_expired now db))
         \<lparr>ib_claims := ib_claims (snd (recover_expired now db)) @ [claim]\<rparr>"
proof -
  obtain c a run task where k: "inbox_keys conv agent = Inr (c, a)" "required run_id ''run_id'' = Inr run"
      "required task_id ''task_id'' = Inr task" and lim: "\<not> limit < 0"
    using assms by (auto simp: inbox_claim_op_def bind_res_Inr_iff split: if_splits)
  let ?db1 = "snd (recover_expired now db)"
  let ?ready = "filter (claimable c a (nonempty_texts sources) (nonempty_texts wanted) max_seq) (ib_items ?db1)"
  define ids where "ids = map ix_msg (if limit > 0 then take (nat limit) ?ready else ?ready)"
  let ?claim = "\<lparr>cl_id = fresh, cl_conversation = c, cl_agent = a, cl_run = run, cl_task = task,
                  cl_items = ids, cl_lease = now + max 1 lease_seconds, cl_created = now\<rparr>"
  let ?db2 = "update_items (\<lambda>i. in_box c a i \<and> ix_state i = IPending \<and> ix_msg i \<in> set ids)
      (claim_row run task (now + max 1 lease_seconds) now) ?db1"
  let ?find = "find (\<lambda>cl. cl_conversation cl = c \<and> cl_agent cl = a \<and> cl_run cl = run \<and> cl_task cl = task) (ib_claims ?db1)"
  have eq: "inbox_claim_op fresh now conv agent run_id task_id limit lease_seconds sources wanted max_seq db =
      (case ?find of
         Some previous \<Rightarrow> Inr ((Some previous, rows_for_ids c a (cl_items previous) (Some run) ?db1), ?db1)
       | None \<Rightarrow> if ids = [] then Inr ((None, []), ?db1)
           else if fresh \<in> set (map cl_id (ib_claims ?db2)) then Inl (RuntimeError ''IntegrityError'')
           else Inr ((Some ?claim, rows_for_ids c a ids (Some run) (?db2\<lparr>ib_claims := ib_claims ?db2 @ [?claim]\<rparr>)),
                  ?db2\<lparr>ib_claims := ib_claims ?db2 @ [?claim]\<rparr>))"
    unfolding inbox_claim_op_def k Let_def ids_def using lim by (simp only: bind_res_simps prod.case if_False)
  show thesis
  proof (cases ?find)
    case (Some previous)
    then show thesis using assms unfolding eq by (intro again [OF k(1,2), of previous]) auto
  next
    case None
    show thesis
    proof (cases "ids = []")
      case True
      then have "cl = None" "rows = []" "db' = ?db1" using assms None unfolding eq by auto
      then show thesis by (rule nothing)
    next
      case False
      then have res: "cl = Some ?claim" "rows = rows_for_ids c a ids (Some run) (?db2\<lparr>ib_claims := ib_claims ?db2 @ [?claim]\<rparr>)"
        "db' = ?db2\<lparr>ib_claims := ib_claims ?db2 @ [?claim]\<rparr>"
        using assms None unfolding eq by (auto split: if_splits)
      have "\<forall>m \<in> set ids. \<exists>i \<in> set (ib_items ?db1).
         claimable c a (nonempty_texts sources) (nonempty_texts wanted) max_seq i \<and> ix_msg i = m"
        by (fastforce simp: ids_def dest: in_set_takeD split: if_splits)
      then show thesis using res by (intro new [OF k(1,2), of ?claim task]) (simp_all add: update_items_def)
    qed
  qed
qed

lemma claim_write:
  assumes inv: "inbox_inv db"
    and op: "inbox_claim_op fresh now conv agent run_id task_id limit lease_seconds sources wanted max_seq db = Inr ((cl, rows), db')"
  shows "ib_write (snd (recover_expired now db)) db'"
proof -
  let ?db1 = "snd (recover_expired now db)"
  have inv1: "inbox_inv ?db1" using ib_write_inv [OF recover_expired_write [OF inv] inv] .
  show ?thesis using op
  proof (cases rule: claim_cases)
    case (new c a run task claim)
    let ?P = "\<lambda>i. in_box c a i \<and> ix_state i = IPending \<and> ix_msg i \<in> set (cl_items claim)"
    have "\<not> is_inbox_source (ix_source i)" if i: "i \<in> set (ib_items ?db1)" "?P i" for i
    proof -
      obtain j where j: "j \<in> set (ib_items ?db1)" "claimable c a (nonempty_texts sources) (nonempty_texts wanted) max_seq j"
        "ix_msg j = ix_msg i" using new(5) i(2) by blast
      then have "ix_key j = ix_key i" using i(2) by (simp add: claimable_def in_box_def ix_key_def)
      then have "j = i" using inv1 j(1) i(1) by (auto simp: inbox_inv_def distinct_map dest: inj_onD)
      then show ?thesis using j(2) by (simp add: claimable_def)
    qed
    then show ?thesis
      by (intro ib_write_update [OF inv1, where P = ?P and f = "claim_row run task (now + max 1 lease_seconds) now"])
        (auto simp: new(6) update_items_def item_step_def item_change item_ok_def unread_or_leased_def)
  qed (simp_all add: ib_write_refl inv1)
qed

lemma prepare_receipt_write:
  assumes "inbox_inv db" "prepare_receipt env conv agent payload source now db = (r, db')"
  shows "ib_write db db'"
  using assms by (intro ib_write_same) (auto simp: prepare_receipt_def split: sum.splits option.splits prod.splits if_splits)

lemma mark_transcript_write:
  assumes "inbox_inv db" "mark_transcript_persisted env conv agent msg_id now db = Inr (row, db')"
  shows "ib_write db db'"
proof -
  obtain P f P' f' c a payload source enq db2 where
    enq: "enqueue_item env c a payload source now enq (update_receipts P f db) = Inr (row, db2)"
    and db': "db' = update_receipts P' f' db2"
    using assms(2) by (auto simp: mark_transcript_persisted_def bind_res_Inr_iff Let_def split: option.splits)
  have "inbox_inv (update_receipts P f db)" using assms(1) inbox_inv_cong update_receipts_same by metis
  from enqueue_item_write [OF this enq] show ?thesis
    by (rule ib_write_cong) (simp_all add: update_receipts_same db')
qed

lemma context_history_write:
  assumes "inbox_inv db" "enqueue_context_history env conv agent payload now db = Inr (r, db')"
  shows "ib_write db db'"
proof -
  obtain c a msg where k: "inbox_keys conv agent = Inr (c, a)" "payload_msg_id env payload = Inr msg"
    using assms(2) by (auto simp: enqueue_context_history_def bind_res_Inr_iff)
  show ?thesis
  proof (cases "(c, a, msg) \<in> set (ib_contexts db)")
    case True
    then show ?thesis using assms k by (simp add: enqueue_context_history_def ib_write_refl)
  next
    case False
    then obtain row db2 where enq: "enqueue_item env c a payload ''inbox:catch_up'' now now db = Inr (row, db2)"
      and db': "db' = db2\<lparr>ib_contexts := ib_contexts db2 @ [(c, a, msg)]\<rparr>"
      using assms(2) k by (auto simp: enqueue_context_history_def bind_res_Inr_iff)
    from enqueue_item_write [OF assms(1) enq] show ?thesis by (rule ib_write_cong) (simp_all add: db')
  qed
qed

lemma enqueue_legacy_writes:
  assumes "inbox_inv db" "enqueue_legacy env c a now ps db = Inr db'"
  shows "ib_write\<^sup>*\<^sup>* db db'"
  using assms
proof (induction ps arbitrary: db)
  case (Cons p ps)
  then obtain src row db1 where enq: "enqueue_item env c a p src now now db = Inr (row, db1)"
    and rest: "enqueue_legacy env c a now ps db1 = Inr db'" by (auto simp: bind_res_Inr_iff)
  have "ib_write db db1" using enqueue_item_write [OF Cons.prems(1) enq] .
  then show ?case using Cons.IH [OF _ rest] ib_write_inv [OF _ Cons.prems(1)]
    by (blast intro: converse_rtranclp_into_rtranclp)
qed simp

lemma migrate_writes:
  assumes "inbox_inv db" "migrate_pending_jsonl env conv agent path digest lines now completed db = Inr (r, db')"
  shows "\<exists>e. ib_write\<^sup>*\<^sup>* db e \<and> ib_write e db'"
proof -
  obtain c a rows where k: "inbox_keys conv agent = Inr (c, a)" "legacy_rows env lines = Inr rows"
    using assms(2) by (auto simp: migrate_pending_jsonl_def bind_res_Inr_iff)
  show ?thesis
  proof (cases "find (\<lambda>g. mg_conversation g = c \<and> mg_agent g = a) (ib_migrations db)")
    case (Some g)
    then have "db' = db" using assms(2) k by (auto simp: migrate_pending_jsonl_def split: if_splits)
    then show ?thesis using ib_write_refl [OF assms(1)] by blast
  next
    case None
    then obtain db1 ms where leg: "enqueue_legacy env c a now rows db = Inr db1" and db': "db' = db1\<lparr>ib_migrations := ms\<rparr>"
      using assms(2) k by (auto simp: migrate_pending_jsonl_def bind_res_Inr_iff Let_def split: if_splits)
    have w: "ib_write\<^sup>*\<^sup>* db db1" using enqueue_legacy_writes [OF assms(1) leg] .
    then have "inbox_inv db1" using assms(1) by (induction rule: rtranclp_induct) (auto intro: ib_write_inv)
    then have "ib_write db1 db'" by (simp add: ib_write_same db')
    with w show ?thesis by blast
  qed
qed

subsection \<open>The inbox as a transition system\<close>

text \<open>One successful transaction of the store, deletion of a conversation apart.\<close>

inductive inbox_step :: "inbox_db \<Rightarrow> inbox_db \<Rightarrow> bool" where
  is_enqueue: "inbox_enqueue env conv agent payload source now db = Inr (row, db') \<Longrightarrow> inbox_step db db'"
| is_context: "enqueue_context_history env conv agent payload now db = Inr (b, db') \<Longrightarrow> inbox_step db db'"
| is_prepare: "prepare_receipt env conv agent payload source now db = (r, db') \<Longrightarrow> inbox_step db db'"
| is_transcript: "mark_transcript_persisted env conv agent msg_id now db = Inr (row, db') \<Longrightarrow> inbox_step db db'"
| is_claim: "inbox_claim_op fresh now conv agent run task limit lease sources wanted max_seq db = Inr (res, db') \<Longrightarrow> inbox_step db db'"
| is_recover: "recover_expired_leases now db = (n, db') \<Longrightarrow> inbox_step db db'"
| is_orphans: "recover_orphaned_workflow_claims runs now db = Inr (n, db') \<Longrightarrow> inbox_step db db'"
| is_acknowledge: "inbox_acknowledge conv agent run msgs now db = Inr (n, db') \<Longrightarrow> inbox_step db db'"
| is_release: "inbox_release conv agent run msgs now db = Inr (n, db') \<Longrightarrow> inbox_step db db'"
| is_transfer: "inbox_transfer conv agent run run' lease now db = Inr (n, db') \<Longrightarrow> inbox_step db db'"
| is_fence: "discard_through conv agent cutoff now db = Inr (n, db') \<Longrightarrow> inbox_step db db'"
| is_discard: "inbox_discard_msg_ids conv agent msgs sources now db = Inr (n, db') \<Longrightarrow> inbox_step db db'"
| is_notice: "set_notice_state conv agent seq turns now db = Inr db' \<Longrightarrow> inbox_step db db'"
| is_offset: "set_read_offset conv agent msg_id offset now db = Inr db' \<Longrightarrow> inbox_step db db'"
| is_notified: "mark_notified conv agent through now db = Inr (n, db') \<Longrightarrow> inbox_step db db'"
| is_read: "mark_read conv agent msgs call now db = Inr (n, db') \<Longrightarrow> inbox_step db db'"
| is_purge: "purge_acknowledged retention now db = Inr (n, db') \<Longrightarrow> inbox_step db db'"
| is_migrate: "migrate_pending_jsonl env conv agent path digest lines now completed db = Inr (r, db') \<Longrightarrow> inbox_step db db'"

lemma set_notice_write:
  assumes "inbox_inv db" "set_notice_state conv agent seq turns now db = Inr db'"
  shows "ib_write db db'"
  using assms by (intro ib_write_same) (auto simp: set_notice_state_def bind_res_Inr_iff Let_def split: if_splits)

lemma set_offset_write:
  assumes "inbox_inv db" "set_read_offset conv agent msg_id offset now db = Inr db'"
  shows "ib_write db db'"
  using assms by (intro ib_write_same) (auto simp: set_read_offset_def bind_res_Inr_iff split: if_splits)

lemma inbox_step_writes:
  assumes step: "inbox_step db db'" and inv: "inbox_inv db"
  shows "ib_write\<^sup>*\<^sup>* db db' \<or> ib_purge db db'"
proof -
  note single = r_into_rtranclp [where r = ib_write]
  from step show ?thesis
  proof cases
    case (is_enqueue env conv agent payload source now row)
    then obtain c a where "enqueue_item env c a payload source now now db = Inr (row, db')"
      by (auto simp: inbox_enqueue_def bind_res_Inr_iff)
    then show ?thesis using enqueue_item_write [OF inv] single by blast
  next
    case (is_claim fresh now conv agent run task limit lease sources wanted max_seq res)
    then obtain cl rows where "inbox_claim_op fresh now conv agent run task limit lease sources wanted max_seq db = Inr ((cl, rows), db')"
      by (cases res) auto
    from claim_write [OF inv this] show ?thesis
      using recover_expired_write [OF inv, of now] by (blast intro: converse_rtranclp_into_rtranclp single)
  next
    case (is_recover now n)
    then have "db' = snd (recover_expired now db)" by (metis recover_expired_leases_def snd_conv)
    then show ?thesis using recover_expired_write [OF inv, of now] single by simp
  next
    case (is_migrate env conv agent path digest lines now completed r)
    then show ?thesis using migrate_writes [OF inv is_migrate] by (blast intro: rtranclp.rtrancl_into_rtrancl)
  qed (use inv in \<open>blast intro: single prepare_receipt_write mark_transcript_write context_history_write
      orphaned_write acknowledge_write release_write transfer_write discard_through_write discard_msg_ids_write
      set_notice_write set_offset_write mark_notified_write mark_read_write purge_purges\<close>)+
qed

subsection \<open>History of the rows\<close>

definition item_history :: "inbox_item \<Rightarrow> inbox_item \<Rightarrow> bool" where
  "item_history i j \<longleftrightarrow> same_item i j \<and> item_edge\<^sup>*\<^sup>* (ix_state i) (ix_state j)"

lemma item_history_refl: "item_history i i"
  by (simp add: item_history_def same_item_refl)

lemma item_history_trans: "item_history i j \<Longrightarrow> item_history j k \<Longrightarrow> item_history i k"
  unfolding item_history_def by (blast intro: same_item_trans rtranclp_trans)

lemma item_step_history: "item_step i j \<Longrightarrow> item_history i j"
  unfolding item_step_def item_history_def by (auto intro: r_into_rtranclp)

lemma item_edge_closed: "item_edge\<^sup>*\<^sup>* s t \<Longrightarrow> s \<in> {IRead, IAcknowledged, IDiscarded} \<Longrightarrow> t = s"
  by (induction rule: rtranclp_induct) auto

definition inbox_grows :: "inbox_db \<Rightarrow> inbox_db \<Rightarrow> bool" where
  "inbox_grows db db' \<longleftrightarrow> ib_next db \<le> ib_next db' \<and> fences_raised db db' \<and>
     (\<forall>j \<in> set (ib_items db'). ix_sequence j < ib_next db \<longrightarrow> (\<exists>i \<in> set (ib_items db). item_history i j))"

lemma inbox_grows_refl: "inbox_grows db db"
  unfolding inbox_grows_def using item_history_refl by (auto simp: fences_raised_same)

lemma inbox_grows_trans:
  assumes "inbox_grows db db'" "inbox_grows db' db''"
  shows "inbox_grows db db''"
proof -
  have "\<exists>i \<in> set (ib_items db). item_history i k"
    if k: "k \<in> set (ib_items db'')" "ix_sequence k < ib_next db" for k
  proof -
    have "ix_sequence k < ib_next db'" using k(2) assms(1) by (simp add: inbox_grows_def)
    then obtain j where j: "j \<in> set (ib_items db')" "item_history j k"
      using k(1) assms(2) unfolding inbox_grows_def by blast
    then have "ix_sequence j < ib_next db" using k(2) same_itemD(1) by (metis item_history_def)
    then show ?thesis using j assms(1) unfolding inbox_grows_def by (meson item_history_trans)
  qed
  then show ?thesis using assms fences_raised_trans unfolding inbox_grows_def by (meson order_trans)
qed

lemma ib_write_grows:
  assumes "ib_write db db'"
  shows "inbox_grows db db'"
  using assms
proof cases
  case (iw_update g)
  then show ?thesis unfolding inbox_grows_def by (auto intro: item_step_history)
next
  case (iw_insert i)
  then show ?thesis unfolding inbox_grows_def using item_history_refl by (auto simp: fences_raised_same)
qed

lemma ib_write_keeps:
  assumes "ib_write db db'" "i \<in> set (ib_items db)"
  shows "\<exists>j \<in> set (ib_items db'). item_history i j"
  using assms(1)
proof cases
  case (iw_update g)
  then show ?thesis using assms(2) item_step_history [of i "g i"] by auto
next
  case (iw_insert k)
  then show ?thesis using assms(2) item_history_refl by auto
qed

lemma ib_writes:
  assumes "ib_write\<^sup>*\<^sup>* db db'"
  shows "inbox_grows db db'" "inbox_inv db \<Longrightarrow> inbox_inv db'"
    "i \<in> set (ib_items db) \<Longrightarrow> \<exists>j \<in> set (ib_items db'). item_history i j"
  using assms
proof (induction rule: rtranclp_induct)
  case base
  { case 1 show ?case by (rule inbox_grows_refl) next
    case 2 then show ?case . next
    case 3 then show ?case using item_history_refl by blast }
next
  case (step y z)
  { case 1 show ?case using step inbox_grows_trans ib_write_grows by blast next
    case 2 then show ?case using step ib_write_inv by blast next
    case 3 then show ?case using step ib_write_keeps item_history_trans by meson }
qed

interpretation ibx: evolving_store "\<lambda>db. db = empty_inbox" inbox_step inbox_inv inbox_grows
proof
  show "inbox_inv s" if "s = empty_inbox" for s using that by (simp add: empty_inbox_def inbox_inv_def)
  show "inbox_inv s'" if "inbox_step s s'" "inbox_inv s" for s s'
    using inbox_step_writes [OF that] ib_writes(2) ib_purge_inv that(2) by blast
  show "inbox_grows s s" for s by (rule inbox_grows_refl)
  show "inbox_grows s s''" if "inbox_grows s s'" "inbox_grows s' s''" for s s' s''
    using that by (rule inbox_grows_trans)
  show "inbox_grows s s'" if st: "inbox_step s s'" "inbox_inv s" for s s'
  proof -
    have "inbox_grows s s'" if "ib_purge s s'"
      using that by cases (use item_history_refl in \<open>auto simp: inbox_grows_def fences_raised_same\<close>)
    then show ?thesis using inbox_step_writes [OF st] ib_writes(1) by blast
  qed
qed

subsection \<open>Deletion of a conversation\<close>

definition inbox_any_step :: "inbox_db \<Rightarrow> inbox_db \<Rightarrow> bool" where
  "inbox_any_step db db' \<longleftrightarrow> inbox_step db db' \<or> (\<exists>conv n. inbox_delete_conversation conv db = Inr (n, db'))"

lemma delete_conversation_inv:
  assumes "inbox_delete_conversation conv db = Inr (n, db')" "inbox_inv db"
  shows "inbox_inv db'"
proof -
  obtain c where "required conv ''conversation_id'' = Inr c"
    using assms(1) by (auto simp: inbox_delete_conversation_def bind_res_Inr_iff)
  then have db': "ib_items db' = filter (\<lambda>x. ix_conversation x \<noteq> c) (ib_items db)" "ib_next db' = ib_next db"
    "ib_fences db' = filter (\<lambda>x. fe_conversation x \<noteq> c) (ib_fences db)"
    using assms(1) by (auto simp: inbox_delete_conversation_def)
  have other: "find (\<lambda>f. fe_conversation f = c' \<and> fe_agent f = a) (filter (\<lambda>x. fe_conversation x \<noteq> c) fs) =
      find (\<lambda>f. fe_conversation f = c' \<and> fe_agent f = a) fs" if "c' \<noteq> c" for c' a fs
    using that by (induction fs) auto
  have fence: "fence_of c' a db' = fence_of c' a db" if "c' \<noteq> c" for c' a
    by (simp add: fence_of_def db'(3) other [OF that])
  show ?thesis
    by (rule inbox_inv_filter [OF assms(2) db'(1,2)]) (auto simp: item_ok_def fence)
qed

interpretation ibd: store_system "\<lambda>db. db = empty_inbox" inbox_any_step inbox_inv
proof
  show "inbox_inv s" if "s = empty_inbox" for s using that by (rule ibx.init_inv)
  show "inbox_inv s'" if "inbox_any_step s s'" "inbox_inv s" for s s'
    using that ibx.step_inv delete_conversation_inv unfolding inbox_any_step_def by blast
qed

subsection \<open>Rows of a claim\<close>

lemma rows_for_idsD:
  assumes "row \<in> set (rows_for_ids c a ids (Some run) db)"
  shows "row \<in> set (ib_items db)" "in_box c a row" "ix_owner row = Some run" "\<not> is_inbox_source (ix_source row)"
  using assms by (auto simp: rows_for_ids_def Let_def dest!: find_SomeD [OF sym] split: option.splits)

lemma items_unique:
  assumes "inbox_inv db" "i \<in> set (ib_items db)" "j \<in> set (ib_items db)"
  shows "ix_key i = ix_key j \<Longrightarrow> i = j" "ix_sequence i = ix_sequence j \<Longrightarrow> i = j"
proof -
  have "distinct (map ix_sequence (ib_items db))"
    using assms(1) by (simp add: inbox_inv_def strict_sorted_iff)
  then show "ix_sequence i = ix_sequence j \<Longrightarrow> i = j" using assms(2,3) by (simp add: distinct_map inj_on_def)
  show "ix_key i = ix_key j \<Longrightarrow> i = j" using assms by (simp add: inbox_inv_def distinct_map inj_on_def)
qed

lemma recover_expired_item:
  assumes "j \<in> set (ib_items (snd (recover_expired now db)))"
  obtains i where "i \<in> set (ib_items db)" "j = (if lease_expired now i then to_pending now i else i)"
  using assms by (auto simp: recover_expired_def update_items_def)

lemma recover_expired_keeps:
  assumes "i \<in> set (ib_items db)" "\<not> lease_expired now i"
  shows "i \<in> set (ib_items (snd (recover_expired now db)))"
  using assms by (force simp: recover_expired_def update_items_def)

lemma claim_inv:
  assumes "inbox_inv db"
    "inbox_claim_op fresh now conv agent run_id task_id limit lease_seconds sources wanted max_seq db = Inr ((cl, rows), db')"
  shows "inbox_inv (snd (recover_expired now db))" "inbox_inv db'"
  using ib_write_inv recover_expired_write [OF assms(1)] claim_write [OF assms] assms(1) by blast+

text \<open>Every row of a claim was free, expired or the run's own.\<close>

lemma claimed_row_origin:
  assumes inv: "inbox_inv db" and run: "required run_id ''run_id'' = Inr run"
    and op: "inbox_claim_op fresh now conv agent run_id task_id limit lease_seconds sources wanted max_seq db = Inr ((cl, rows), db')"
    and row: "row \<in> set rows"
  shows "ix_owner row = Some run" "row \<in> set (ib_items db')" "\<not> is_inbox_source (ix_source row)"
    "\<exists>i \<in> set (ib_items db). same_item i row \<and> (ix_state i = IPending \<or> lease_expired now i \<or> ix_owner i = Some run)"
proof -
  let ?db1 = "snd (recover_expired now db)"
  obtain c a ids where "rows = rows_for_ids c a ids (Some run) db'"
    using op by (cases rule: claim_cases) (use run row in auto)
  note facts = rows_for_idsD [OF row [unfolded this]]
  show own: "ix_owner row = Some run" and mem: "row \<in> set (ib_items db')" and "\<not> is_inbox_source (ix_source row)"
    using facts by simp_all
  have free: "\<exists>i \<in> set (ib_items db). same_item i j \<and> (ix_state i = IPending \<or> lease_expired now i \<or> ix_owner i = Some run)"
    if j: "j \<in> set (ib_items ?db1)" "ix_state j = IPending \<or> ix_owner j = Some run" for j
  proof -
    obtain i where i: "i \<in> set (ib_items db)" "j = (if lease_expired now i then to_pending now i else i)"
      using j(1) by (rule recover_expired_item)
    have "same_item i j" using i(2) item_change by (simp add: to_pending_def same_item_refl)
    then show ?thesis using i j(2) by (metis (full_types))
  qed
  show "\<exists>i \<in> set (ib_items db). same_item i row \<and> (ix_state i = IPending \<or> lease_expired now i \<or> ix_owner i = Some run)"
    using op
  proof (cases rule: claim_cases)
    case again
    then show ?thesis using free [of row] mem own by simp
  next
    case nothing
    then show ?thesis using row by simp
  next
    case (new c a run' task claim)
    then obtain j where j: "j \<in> set (ib_items ?db1)" "row = (if in_box c a j \<and> ix_state j = IPending \<and>
        ix_msg j \<in> set (cl_items claim) then claim_row run' task (now + max 1 lease_seconds) now j else j)"
      using mem by (auto simp: update_items_def)
    have "same_item j row" using j(2) by (simp add: item_change same_item_refl)
    moreover have "ix_state j = IPending \<or> ix_owner j = Some run" using j(2) own by (auto split: if_splits)
    ultimately show ?thesis using free [OF j(1)] same_item_trans by blast
  qed
qed

lemma claim_keeps_others:
  assumes inv: "inbox_inv db"
    and op: "inbox_claim_op fresh now conv agent run_id task_id limit lease_seconds sources wanted max_seq db = Inr ((cl, rows), db')"
    and i: "i \<in> set (ib_items db)" "ix_state i = IClaimed" "\<not> lease_expired now i"
  shows "i \<in> set (ib_items db')"
proof -
  have mem: "i \<in> set (ib_items (snd (recover_expired now db)))" using i(1,3) by (rule recover_expired_keeps)
  from op show ?thesis
  proof (cases rule: claim_cases)
    case (new c a run task claim)
    then show ?thesis using mem i(2) by (force simp: update_items_def)
  qed (use mem in simp_all)
qed

subsection \<open>Ingress receipts\<close>

definition rc_key :: "receipt \<Rightarrow> string \<times> string \<times> string" where
  "rc_key r = (rc_conversation r, rc_agent r, rc_msg r)"

lemma is_receipt_key: "is_receipt c a msg r \<longleftrightarrow> rc_key r = (c, a, msg)"
  by (simp add: is_receipt_def rc_key_def)

text \<open>The keys under which the receipts are stored are normalised and unique.\<close>

definition normal_key :: "string \<times> string \<times> string \<Rightarrow> bool" where
  "normal_key k \<longleftrightarrow> (case k of (c, a, msg) \<Rightarrow> inbox_keys c a = Inr (c, a) \<and> required msg ''msg_id'' = Inr msg)"

definition receipts_ok :: "inbox_db \<Rightarrow> bool" where
  "receipts_ok db \<longleftrightarrow> distinct (map rc_key (ib_receipts db)) \<and> (\<forall>r \<in> set (ib_receipts db). normal_key (rc_key r))"

lemma inbox_keys_normal:
  assumes "inbox_keys conv agent = Inr (c, a)"
  shows "inbox_keys c a = Inr (c, a)"
  using assms by (auto simp: inbox_keys_def inbox_agent_def bind_res_Inr_iff required_Inr py_strip_lower)

lemma required_normal: "required v f = Inr s \<Longrightarrow> required s g = Inr s"
  by (auto simp: required_Inr)

lemma enqueue_item_receipts:
  assumes "enqueue_item env c a payload source ts enq db = Inr (row, db')"
  shows "ib_receipts db' = ib_receipts db" "row \<in> set (ib_items db')" "in_box c a row"
    "payload_msg_id env payload = Inr (ix_msg row)"
  using assms by (cases rule: enqueue_item_cases; force simp: find_item_def new_item_def in_box_def dest!: find_SomeD)+

lemma receipts_ok_map:
  assumes "ib_receipts db' = map g (ib_receipts db)" "\<And>r. rc_key (g r) = rc_key r" "receipts_ok db"
  shows "receipts_ok db'"
  using assms by (simp add: receipts_ok_def comp_def)

lemma prepare_receipt_ok:
  assumes "prepare_receipt env conv agent payload source now db = (r, db')" "receipts_ok db"
  shows "receipts_ok db'"
proof (cases "db' = db")
  case False
  then obtain c a msg src where k: "inbox_keys conv agent = Inr (c, a)" "payload_msg_id env payload = Inr msg"
    "required source ''source'' = Inr src"
    using assms(1) by (auto simp: prepare_receipt_def bind_res_def split: sum.splits)
  have new: "find (is_receipt c a msg) (ib_receipts db) = None"
    using False assms(1) k by (auto simp: prepare_receipt_def split: option.splits if_splits)
  then obtain r' where "ib_receipts db' = ib_receipts db @ [r']" "rc_key r' = (c, a, msg)"
    using assms(1) k by (auto simp: prepare_receipt_def rc_key_def)
  moreover have "normal_key (c, a, msg)"
    using k inbox_keys_normal by (auto simp: normal_key_def payload_msg_id_def bind_res_Inr_iff dest: required_normal)
  moreover have "(c, a, msg) \<notin> rc_key ` set (ib_receipts db)"
    using new by (auto simp: find_None_iff is_receipt_key)
  ultimately show ?thesis using assms(2) by (auto simp: receipts_ok_def)
qed (use assms(2) in simp)

text \<open>The promotion of one receipt.\<close>

lemma mark_transcript_receipts:
  assumes ok: "receipts_ok db" and r: "r \<in> set (ib_receipts db)"
    and op: "mark_transcript_persisted env (rc_conversation r) (rc_agent r) (rc_msg r) now db = Inr (row, db')"
  shows "ib_receipts db' = map (\<lambda>r'. if rc_key r' = rc_key r then r'\<lparr>rc_state := RQueued, rc_updated := now\<rparr> else r') (ib_receipts db)"
    "row \<in> set (ib_items db')" "in_box (rc_conversation r) (rc_agent r) row" "payload_msg_id env (rc_payload r) = Inr (ix_msg row)"
proof -
  let ?is = "is_receipt (rc_conversation r) (rc_agent r) (rc_msg r)"
  let ?db1 = "update_receipts (\<lambda>r'. ?is r' \<and> rc_state r' = RPrepared) (\<lambda>r. r\<lparr>rc_state := RTranscript, rc_updated := now\<rparr>) db"
  have keys: "inbox_keys (rc_conversation r) (rc_agent r) = Inr (rc_conversation r, rc_agent r)"
    "required (rc_msg r) ''msg_id'' = Inr (rc_msg r)"
    using ok r by (auto simp: receipts_ok_def normal_key_def rc_key_def)
  have "find ?is (ib_receipts db) = Some r"
  proof (cases "find ?is (ib_receipts db)")
    case None
    then show ?thesis using r by (auto simp: find_None_iff is_receipt_def)
  next
    case (Some r')
    then have "r' \<in> set (ib_receipts db)" "rc_key r' = rc_key r" by (auto dest: find_SomeD simp: is_receipt_key rc_key_def)
    then show ?thesis using ok r Some by (auto simp: receipts_ok_def distinct_map dest: inj_onD)
  qed
  then obtain db2 where enq: "enqueue_item env (rc_conversation r) (rc_agent r) (rc_payload r) (rc_source r) now (rc_prepared r) ?db1 = Inr (row, db2)"
    and db': "db' = update_receipts ?is (\<lambda>r. r\<lparr>rc_state := RQueued, rc_updated := now\<rparr>) db2"
    using op keys by (auto simp: mark_transcript_persisted_def Let_def bind_res_Inr_iff)
  show "row \<in> set (ib_items db')" "in_box (rc_conversation r) (rc_agent r) row" "payload_msg_id env (rc_payload r) = Inr (ix_msg row)"
    using enqueue_item_receipts [OF enq] by (simp_all add: db' update_receipts_same)
  show "ib_receipts db' = map (\<lambda>r'. if rc_key r' = rc_key r then r'\<lparr>rc_state := RQueued, rc_updated := now\<rparr> else r') (ib_receipts db)"
    using enqueue_item_receipts(1) [OF enq] by (simp add: db' update_receipts_def is_receipt_key rc_key_def comp_def)
qed

lemma mark_transcript_other:
  assumes "mark_transcript_persisted env conv agent msg_id now db = Inr (row, db')" "receipts_ok db"
  shows "receipts_ok db'"
proof -
  obtain c a msg where k: "inbox_keys conv agent = Inr (c, a)" "required msg_id ''msg_id'' = Inr msg"
    using assms(1) by (auto simp: mark_transcript_persisted_def bind_res_Inr_iff)
  then obtain r where f: "find (is_receipt c a msg) (ib_receipts db) = Some r"
    using assms(1) by (auto simp: mark_transcript_persisted_def split: option.splits)
  then have r: "r \<in> set (ib_receipts db)" "rc_key r = (c, a, msg)" by (auto dest: find_SomeD simp: is_receipt_key)
  have "mark_transcript_persisted env (rc_conversation r) (rc_agent r) (rc_msg r) now db = Inr (row, db')"
    using assms(1) k r(2) inbox_keys_normal [OF k(1)] required_normal [OF k(2), of "''msg_id''"]
    by (simp add: mark_transcript_persisted_def rc_key_def)
  note receipts = mark_transcript_receipts(1) [OF assms(2) r(1) this]
  show ?thesis by (rule receipts_ok_map [OF receipts _ assms(2)]) (simp add: rc_key_def)
qed

lemma enqueue_legacy_receipts: "enqueue_legacy env c a now ps db = Inr db' \<Longrightarrow> ib_receipts db' = ib_receipts db"
  by (induction ps arbitrary: db) (auto simp: bind_res_Inr_iff dest: enqueue_item_receipts(1))

lemmas receipts_untouched = bind_res_Inr_iff Let_def update_items_def

lemma inbox_step_receipts:
  assumes "inbox_step db db'" "receipts_ok db"
  shows "receipts_ok db'"
  using assms(1)
proof cases
  case (is_prepare env conv agent payload source now r)
  then show ?thesis using prepare_receipt_ok assms(2) by blast
next
  case (is_transcript env conv agent msg_id now row)
  then show ?thesis using mark_transcript_other assms(2) by blast
next
  case (is_claim fresh now conv agent run task limit lease sources wanted max_seq res)
  then obtain cl rows where op: "inbox_claim_op fresh now conv agent run task limit lease sources wanted max_seq db = Inr ((cl, rows), db')"
    by (cases res) auto
  have recovered: "ib_receipts (snd (recover_expired now db)) = ib_receipts db" by (simp add: recover_expired_def update_items_def)
  have "ib_receipts db' = ib_receipts db" using op by (cases rule: claim_cases) (simp_all add: recovered update_items_def)
  then show ?thesis using assms(2) by (simp add: receipts_ok_def)
next
  case (is_enqueue env conv agent payload source now row)
  then have "ib_receipts db' = ib_receipts db"
    by (auto simp: inbox_enqueue_def receipts_untouched dest: enqueue_item_receipts(1))
  then show ?thesis using assms(2) by (simp add: receipts_ok_def)
next
  case (is_context env conv agent payload now b)
  then have "ib_receipts db' = ib_receipts db"
    by (auto simp: enqueue_context_history_def receipts_untouched dest: enqueue_item_receipts(1) split: if_splits)
  then show ?thesis using assms(2) by (simp add: receipts_ok_def)
next
  case (is_fence conv agent cutoff now n)
  then have "ib_receipts db' = ib_receipts db"
    by (auto simp: discard_through_def receipts_untouched raise_fence_def split: option.splits)
  then show ?thesis using assms(2) by (simp add: receipts_ok_def)
next
  case (is_migrate env conv agent path digest lines now completed r)
  then have "ib_receipts db' = ib_receipts db"
    by (auto simp: migrate_pending_jsonl_def receipts_untouched dest: enqueue_legacy_receipts split: option.splits if_splits)
  then show ?thesis using assms(2) by (simp add: receipts_ok_def)
qed (use assms(2) in \<open>auto simp: receipts_ok_def receipts_untouched recover_expired_leases_def recover_expired_def
    recover_orphaned_workflow_claims_def inbox_acknowledge_def drop_claims_def inbox_release_def inbox_transfer_def
    inbox_discard_msg_ids_def set_notice_state_def set_read_offset_def mark_notified_def mark_read_def
    purge_acknowledged_def split: if_splits\<close>)+

interpretation ibr: store_system "\<lambda>db. db = empty_inbox" inbox_any_step receipts_ok
proof
  show "receipts_ok s" if "s = empty_inbox" for s using that by (simp add: empty_inbox_def receipts_ok_def)
  show "receipts_ok s'" if st: "inbox_any_step s s'" "receipts_ok s" for s s'
  proof (cases "inbox_step s s'")
    case False
    then obtain c where "ib_receipts s' = filter (\<lambda>x. rc_conversation x \<noteq> c) (ib_receipts s)"
      using st(1) by (auto simp: inbox_any_step_def inbox_delete_conversation_def bind_res_Inr_iff)
    then show ?thesis using st(2) by (auto simp: receipts_ok_def distinct_map_filter)
  qed (use st(2) inbox_step_receipts in blast)
qed

text \<open>
  The reconciliation with an appender: \<open>awaits\<close> are the receipts still to do, \<open>stored\<close> says that the
  message of a receipt is in the inbox.
\<close>

definition stored :: "inbox_env \<Rightarrow> inbox_db \<Rightarrow> receipt \<Rightarrow> bool" where
  "stored env db r \<longleftrightarrow> (\<exists>i \<in> set (ib_items db). in_box (rc_conversation r) (rc_agent r) i \<and> payload_msg_id env (rc_payload r) = Inr (ix_msg i))"

lemma stored_keeps:
  assumes "stored env db r" "ib_write db db'"
  shows "stored env db' r"
proof -
  obtain i where i: "i \<in> set (ib_items db)" "in_box (rc_conversation r) (rc_agent r) i" "payload_msg_id env (rc_payload r) = Inr (ix_msg i)"
    using assms(1) by (auto simp: stored_def)
  obtain j where j: "j \<in> set (ib_items db')" "same_item i j"
    using ib_write_keeps [OF assms(2) i(1)] by (auto simp: item_history_def)
  have "in_box (rc_conversation r) (rc_agent r) j" using i(2) same_itemD(6,7) [OF j(2)] by (simp add: in_box_def)
  then show ?thesis using j(1) i(3) same_itemD(8) [OF j(2)] by (auto simp: stored_def)
qed

lemma reconcile_loop_promotes:
  assumes "reconcile_loop env contains (Some f) now rs rep aw t db = (Inr (rep', aw'), t', db')"
    "receipts_ok db" "inbox_inv db"
    "\<forall>r \<in> set rs. \<exists>r' \<in> set (ib_receipts db). rc_key r' = rc_key r \<and> rc_payload r' = rc_payload r"
  shows "aw' = aw \<and> rep' = rep + length rs \<and> (\<forall>r \<in> set rs. stored env db' r) \<and> (\<forall>r. stored env db r \<longrightarrow> stored env db' r) \<and>
    map rc_key (ib_receipts db') = map rc_key (ib_receipts db) \<and>
    (\<forall>r' \<in> set (ib_receipts db'). rc_state r' = RQueued \<or> r' \<in> set (ib_receipts db) \<and> rc_key r' \<notin> rc_key ` set rs)"
  using assms
proof (induction rs arbitrary: rep t db)
  case (Cons r rs)
  obtain r0 where r0: "r0 \<in> set (ib_receipts db)" "rc_key r0 = rc_key r" "rc_payload r0 = rc_payload r"
    using Cons.prems(4) by auto
  from Cons.prems(1) obtain t1 row db1 where
    mark: "mark_transcript_persisted env (rc_conversation r) (rc_agent r) (rc_msg r) (now rep) db = Inr (row, db1)"
    and rest: "reconcile_loop env contains (Some f) now rs (Suc rep) aw t1 db1 = (Inr (rep', aw'), t', db')"
    by (auto simp: bind_res_def split: sum.splits if_splits)
  have key: "rc_conversation r0 = rc_conversation r" "rc_agent r0 = rc_agent r" "rc_msg r0 = rc_msg r"
    using r0(2) by (simp_all add: rc_key_def)
  note promoted = mark_transcript_receipts [OF Cons.prems(2) r0(1), unfolded key r0(2), OF mark]
  have keys1: "map rc_key (ib_receipts db1) = map rc_key (ib_receipts db)" using promoted(1) by (simp add: rc_key_def)
  have wr: "ib_write db db1" using mark_transcript_write [OF Cons.prems(3) mark] .
  have stored1: "stored env db1 r" using promoted(2-4) r0(3) unfolding stored_def by metis
  have "\<forall>q \<in> set rs. \<exists>q' \<in> set (ib_receipts db1). rc_key q' = rc_key q \<and> rc_payload q' = rc_payload q"
  proof
    fix q assume "q \<in> set rs"
    then obtain q' where q': "q' \<in> set (ib_receipts db)" "rc_key q' = rc_key q" "rc_payload q' = rc_payload q"
      using Cons.prems(4) by auto
    let ?q = "if rc_key q' = rc_key r then q'\<lparr>rc_state := RQueued, rc_updated := now rep\<rparr> else q'"
    have "?q \<in> set (ib_receipts db1)" using q'(1) unfolding promoted(1) by (simp only: set_map image_eqI)
    moreover have "rc_key ?q = rc_key q \<and> rc_payload ?q = rc_payload q" using q'(2,3) by (simp add: rc_key_def)
    ultimately show "\<exists>q' \<in> set (ib_receipts db1). rc_key q' = rc_key q \<and> rc_payload q' = rc_payload q" by blast
  qed
  note IH = Cons.IH [OF rest mark_transcript_other [OF mark Cons.prems(2)] ib_write_inv [OF wr Cons.prems(3)] this]
  have open1: "rc_state q = RQueued \<or> q \<in> set (ib_receipts db) \<and> rc_key q \<noteq> rc_key r" if "q \<in> set (ib_receipts db1)" for q
    using that promoted(1) by auto
  have "rc_state q = RQueued \<or> q \<in> set (ib_receipts db) \<and> rc_key q \<notin> rc_key ` set (r # rs)" if "q \<in> set (ib_receipts db')" for q
    using that IH open1 [of q] by auto
  then show ?case using IH stored1 stored_keeps [OF _ wr] keys1 by simp
qed simp

subsection \<open>A small run: a message is enqueued, claimed and acknowledged\<close>

definition demo_env :: inbox_env where
  "demo_env = \<lparr>parse_stamp = (\<lambda>s. None), repr_of = (\<lambda>v. [])\<rparr>"

definition demo_msg :: json where
  "demo_msg = JDict [(''msg_id'', JStr ''m1''), (''ts'', JInt 5)]"

definition demo_item :: inbox_item where
  "demo_item = \<lparr>ix_sequence = 1, ix_conversation = ''c1'', ix_agent = ''bob'', ix_msg = ''m1'', ix_payload = demo_msg,
     ix_source = ''http'', ix_state = IPending, ix_owner = None, ix_owner_task = None, ix_lease = None,
     ix_created = 5, ix_enqueued = 9, ix_updated = 9, ix_notified = None, ix_read = None, ix_read_call = []\<rparr>"

definition demo_db :: inbox_db where
  "demo_db = empty_inbox\<lparr>ib_items := [demo_item], ib_next := 2\<rparr>"

lemmas demo_defs = demo_env_def demo_msg_def demo_item_def demo_db_def empty_inbox_def

lemma demo_keys: "inbox_keys ''c1'' ''Bob'' = Inr (''c1'', ''bob'')"
  by code_simp

lemma demo_texts:
  "payload_msg_id demo_env demo_msg = Inr ''m1''" "is_dict demo_msg" "required ''http'' ''source'' = Inr ''http''"
  "is_inbox_source ''http'' = False" "is_unstamped demo_msg = False" "required ''r1'' ''run_id'' = Inr ''r1''"
  "required ''t1'' ''task_id'' = Inr ''t1''" "nonempty_texts [''m1''] = [''m1'']" "nonempty_texts [] = []"
  "jget_or demo_msg ''ts'' JNull = JInt 5"
  by code_simp+

lemma demo_enqueue: "inbox_enqueue demo_env ''c1'' ''Bob'' demo_msg ''http'' 9 empty_inbox = Inr (demo_item, demo_db)"
  by (simp add: Let_def inbox_enqueue_def demo_keys enqueue_item_def demo_texts created_at_def find_item_def new_item_def
      fence_of_def demo_item_def demo_db_def empty_inbox_def)

definition demo_claimed :: inbox_db where
  "demo_claimed = demo_db\<lparr>ib_items := [claim_row ''r1'' ''t1'' 70 10 demo_item],
     ib_claims := [\<lparr>cl_id = ''x1'', cl_conversation = ''c1'', cl_agent = ''bob'', cl_run = ''r1'', cl_task = ''t1'',
       cl_items = [''m1''], cl_lease = 70, cl_created = 10\<rparr>]\<rparr>"

lemma demo_claim:
  "inbox_claim_op ''x1'' 10 ''c1'' ''Bob'' ''r1'' ''t1'' 0 60 [] [] None demo_db =
     Inr ((Some (hd (ib_claims demo_claimed)), [claim_row ''r1'' ''t1'' 70 10 demo_item]), demo_claimed)"
  by (simp add: Let_def inbox_claim_op_def demo_keys demo_texts demo_claimed_def recover_expired_def update_items_def
      claimable_def in_box_def rows_for_ids_def demo_item_def demo_db_def empty_inbox_def lease_expired_def)

definition demo_acked :: inbox_db where
  "demo_acked = demo_db\<lparr>ib_items := [demo_item\<lparr>ix_state := IAcknowledged, ix_owner := None, ix_owner_task := None,
     ix_lease := None, ix_updated := 11\<rparr>]\<rparr>"

lemma demo_ack: "inbox_acknowledge ''c1'' ''Bob'' ''r1'' [''m1''] 11 demo_claimed = Inr (1, demo_acked)"
  by (simp add: Let_def inbox_acknowledge_def demo_keys demo_texts demo_claimed_def demo_acked_def update_items_def owned_by_def
      in_box_def count_items_def drop_claims_def demo_item_def demo_db_def empty_inbox_def)

lemma demo_reachable:
  "inbox_any_step\<^sup>*\<^sup>* empty_inbox demo_db" "inbox_any_step\<^sup>*\<^sup>* empty_inbox demo_claimed"
  "inbox_any_step\<^sup>*\<^sup>* empty_inbox demo_acked"
proof -
  show "inbox_any_step\<^sup>*\<^sup>* empty_inbox demo_db"
    using is_enqueue [OF demo_enqueue] by (simp add: inbox_any_step_def r_into_rtranclp)
  then show "inbox_any_step\<^sup>*\<^sup>* empty_inbox demo_claimed"
    using is_claim [OF demo_claim] by (simp add: inbox_any_step_def rtranclp.rtrancl_into_rtrancl)
  then show "inbox_any_step\<^sup>*\<^sup>* empty_inbox demo_acked"
    using is_acknowledge [OF demo_ack] by (simp add: inbox_any_step_def rtranclp.rtrancl_into_rtrancl)
qed

subsection \<open>Properties\<close>

text \<open>
  However the inbox was driven - every method that writes, deletions included - its tables stay
  well formed.  Sequences increase and are never equal, a message id occurs once per mailbox, an item has
  an owner and a lease exactly while it is claimed, only ordinary messages are claimed, only inbox
  notifications are marked notified or read, and no item that was created at or before the fence of its
  mailbox is still deliverable.\<close>

theorem inbox_tables_wf:
  assumes "inbox_any_step\<^sup>*\<^sup>* empty_inbox db"
  shows "sorted_wrt (<) (map ix_sequence (ib_items db)) \<and> distinct (map ix_key (ib_items db)) \<and>
    (\<forall>i \<in> set (ib_items db).
       ix_sequence i < ib_next db \<and>
       (ix_state i = IClaimed \<longleftrightarrow> ix_owner i \<noteq> None) \<and> (ix_owner i = None \<longleftrightarrow> ix_lease i = None) \<and>
       (ix_state i = IClaimed \<longrightarrow> \<not> is_inbox_source (ix_source i)) \<and>
       (ix_state i \<in> {INotified, IRead} \<longrightarrow> is_inbox_source (ix_source i)) \<and>
       (unread_or_leased i \<longrightarrow> (\<forall>f. fence_of (ix_conversation i) (ix_agent i) db = Some f \<longrightarrow> f < ix_created i)))"
proof -
  have inv: "inbox_inv db" using ibd.reachable_inv [OF refl assms] .
  then have "\<forall>i \<in> set (ib_items db). ix_sequence i < ib_next db \<and> item_ok db i" by (simp add: inbox_inv_def)
  then show ?thesis using inv unfolding inbox_inv_def item_ok_def by blast
qed

theorem inbox_tables_wf_witness:
  "inbox_any_step\<^sup>*\<^sup>* empty_inbox demo_claimed \<and> distinct (map ix_key (ib_items demo_claimed))"
  using inbox_tables_wf [OF demo_reachable(2)] demo_reachable(2) by simp


text \<open>
  C3: No transaction of the store loses a message.  An item that is pending, notified or claimed before
  a transaction is there after it with the same sequence, key, payload and source, in the same state or
  in one its life cycle allows.  Rows leave the table only by the purge, which takes closed ones, or with
  their conversation.\<close>

theorem no_message_lost:
  assumes "inbox_any_step\<^sup>*\<^sup>* empty_inbox db" "inbox_step db db'" "i \<in> set (ib_items db)" "\<not> is_closed i"
  shows "\<exists>j \<in> set (ib_items db'). same_item i j \<and> item_edge\<^sup>*\<^sup>* (ix_state i) (ix_state j)"
proof -
  have inv: "inbox_inv db" using ibd.reachable_inv [OF refl assms(1)] .
  have "\<exists>j \<in> set (ib_items db'). item_history i j"
    using inbox_step_writes [OF assms(2) inv]
  proof
    assume "ib_write\<^sup>*\<^sup>* db db'"
    then show ?thesis using ib_writes(3) assms(3) by blast
  next
    assume "ib_purge db db'"
    then show ?thesis using assms(3,4) item_history_refl by cases auto
  qed
  then show ?thesis by (simp add: item_history_def)
qed

theorem no_message_lost_witness:
  "inbox_step demo_claimed demo_acked \<and>
   (\<exists>i \<in> set (ib_items demo_claimed). \<not> is_closed i \<and> (\<exists>j \<in> set (ib_items demo_acked). same_item i j))"
proof -
  have open_item: "hd (ib_items demo_claimed) \<in> set (ib_items demo_claimed)" "\<not> is_closed (hd (ib_items demo_claimed))"
    by (simp_all add: demo_claimed_def is_closed_def)
  show ?thesis
    using no_message_lost [OF demo_reachable(2) is_acknowledge [OF demo_ack] open_item] open_item is_acknowledge [OF demo_ack]
    by blast
qed


text \<open>
  Messages are delivered to a run at most once.  Once an item is acknowledged, read or discarded, no
  claim of any later time - other transactions, recoveries, migrations and purges in between - returns
  the row with its sequence again.\<close>

theorem closed_never_redelivered:
  assumes "inbox_any_step\<^sup>*\<^sup>* empty_inbox db" "i \<in> set (ib_items db)" "is_closed i" "inbox_step\<^sup>*\<^sup>* db db'"
    and op: "inbox_claim_op fresh now conv agent run_id task_id limit lease sources wanted max_seq db' = Inr ((cl, rows), db'')"
  shows "ix_sequence i \<notin> set (map ix_sequence rows)"
proof
  assume "ix_sequence i \<in> set (map ix_sequence rows)"
  then obtain row where row: "row \<in> set rows" "ix_sequence row = ix_sequence i" by auto
  have inv: "inbox_inv db" using ibd.reachable_inv [OF refl assms(1)] .
  have inv': "inbox_inv db'" using ibx.steps_inv [OF assms(4) inv] .
  obtain run where run: "required run_id ''run_id'' = Inr run"
    using op by (auto simp: inbox_claim_op_def bind_res_Inr_iff)
  note origin = claimed_row_origin [OF inv' run op row(1)]
  have "inbox_step\<^sup>*\<^sup>* db db''" using assms(4) is_claim [OF op] by (rule rtranclp.rtrancl_into_rtrancl)
  then have "inbox_grows db db''" using ibx.steps_rel inv by blast
  moreover have "ix_sequence row < ib_next db" using inv assms(2) row(2) by (simp add: inbox_inv_def)
  ultimately obtain k where k: "k \<in> set (ib_items db)" "item_history k row"
    using origin(2) unfolding inbox_grows_def by blast
  then have "k = i" using items_unique(2) [OF inv k(1) assms(2)] row(2) same_itemD(1) unfolding item_history_def by metis
  then have "ix_state row = ix_state i"
    using k(2) item_edge_closed assms(3) unfolding item_history_def is_closed_def by blast
  moreover have "ix_state row = IClaimed" using claim_inv(2) [OF inv' op] origin(1,2) by (simp add: inbox_inv_def item_ok_def)
  ultimately show False using assms(3) by (simp add: is_closed_def)
qed

theorem closed_never_redelivered_witness:
  "inbox_claim_op ''x2'' 20 ''c1'' ''Bob'' ''r2'' ''t2'' 0 60 [] [] None demo_acked = Inr ((None, []), demo_acked) \<and>
   1 \<notin> set (map ix_sequence ([] :: inbox_item list))"
proof -
  have run: "required ''r2'' ''run_id'' = Inr ''r2''" "required ''t2'' ''task_id'' = Inr ''t2''" by code_simp+
  have op: "inbox_claim_op ''x2'' 20 ''c1'' ''Bob'' ''r2'' ''t2'' 0 60 [] [] None demo_acked = Inr ((None, []), demo_acked)"
    by (simp add: Let_def inbox_claim_op_def demo_keys demo_texts run demo_acked_def recover_expired_def update_items_def
      claimable_def demo_item_def demo_db_def empty_inbox_def lease_expired_def)
  have "hd (ib_items demo_acked) \<in> set (ib_items demo_acked)" "is_closed (hd (ib_items demo_acked))"
    by (simp_all add: demo_acked_def is_closed_def)
  then have "ix_sequence (hd (ib_items demo_acked)) \<notin> set (map ix_sequence ([] :: inbox_item list))"
    using closed_never_redelivered [OF demo_reachable(3) _ _ rtranclp.rtrancl_refl op] by blast
  then show ?thesis using op by (simp add: demo_acked_def demo_item_def)
qed

text \<open>
  C4: A claim is exclusive.  Every row it returns is an ordinary message of the table that the run now
  owns under a claim, and before it was pending, held by a lease that had expired, or already the run's own;
  a row that any run holds under a live lease is not touched.\<close>

theorem claim_exclusive:
  assumes "inbox_any_step\<^sup>*\<^sup>* empty_inbox db" "required run_id ''run_id'' = Inr run"
    and "inbox_claim_op fresh now conv agent run_id task_id limit lease sources wanted max_seq db = Inr ((cl, rows), db')"
  shows "(\<forall>row \<in> set rows. row \<in> set (ib_items db') \<and> ix_state row = IClaimed \<and> ix_owner row = Some run \<and>
       \<not> is_inbox_source (ix_source row) \<and>
       (\<exists>i \<in> set (ib_items db). same_item i row \<and>
          (ix_state i = IPending \<or> (\<exists>t. ix_lease i = Some t \<and> t \<le> now) \<or> ix_owner i = Some run))) \<and>
    (\<forall>i \<in> set (ib_items db). ix_state i = IClaimed \<longrightarrow> (\<exists>t. ix_lease i = Some t \<and> now < t) \<longrightarrow> i \<in> set (ib_items db'))"
proof (intro conjI ballI impI)
  have inv: "inbox_inv db" using ibd.reachable_inv [OF refl assms(1)] .
  show "i \<in> set (ib_items db')" if "i \<in> set (ib_items db)" "ix_state i = IClaimed" "\<exists>t. ix_lease i = Some t \<and> now < t" for i
    using claim_keeps_others [OF inv assms(3) that(1,2)] that(3) by (auto simp: lease_expired_def)
  fix row assume row: "row \<in> set rows"
  note origin = claimed_row_origin [OF inv assms(2,3) row]
  then show "row \<in> set (ib_items db')" "ix_owner row = Some run" "\<not> is_inbox_source (ix_source row)"
    "\<exists>i \<in> set (ib_items db). same_item i row \<and> (ix_state i = IPending \<or> (\<exists>t. ix_lease i = Some t \<and> t \<le> now) \<or> ix_owner i = Some run)"
    by (auto simp: lease_expired_def split: option.splits)
  show "ix_state row = IClaimed" using claim_inv(2) [OF inv assms(3)] origin(1,2) by (simp add: inbox_inv_def item_ok_def)
qed

theorem claim_exclusive_witness:
  "inbox_any_step\<^sup>*\<^sup>* empty_inbox demo_db \<and> ix_owner (claim_row ''r1'' ''t1'' 70 10 demo_item) = Some ''r1''"
  using claim_exclusive [OF demo_reachable(1) demo_texts(6) demo_claim] demo_reachable(1) by simp



text \<open>
  Enqueueing is idempotent per message id.  A successful enqueue leaves exactly one row with the
  message's key, appended last or already there; repeating the call with the same payload, at any clock
  reading, returns that row and changes nothing; and a row inserted behind the fence of its mailbox is
  born discarded.\<close>

theorem enqueue_idempotent:
  assumes op: "inbox_enqueue env conv agent payload source now db = Inr (row, db')" and inv: "inbox_inv db"
  shows "inbox_enqueue env conv agent payload source now' db' = Inr (row, db') \<and>
    filter (\<lambda>i. ix_key i = ix_key row) (ib_items db') = [row] \<and>
    (db' = db \<or> ib_items db' = ib_items db @ [row] \<and>
       (ix_state row = IDiscarded \<longleftrightarrow> (\<exists>f. fence_of (ix_conversation row) (ix_agent row) db = Some f \<and> ix_created row \<le> f)))"
proof -
  obtain c a where ca: "inbox_keys conv agent = Inr (c, a)" "enqueue_item env c a payload source now now db = Inr (row, db')"
    using op by (auto simp: inbox_enqueue_def bind_res_Inr_iff)
  have inv': "inbox_inv db'" using ib_write_inv [OF enqueue_item_write [OF inv ca(2)] inv] .
  note row = enqueue_item_receipts [OF ca(2)]
  have "filter (\<lambda>i. ix_key i = ix_key row) xs = [row]" if "row \<in> set xs" "distinct (map ix_key xs)" for xs
    using that by (induction xs) (auto simp: filter_empty_conv image_iff)
  then have one: "filter (\<lambda>i. ix_key i = ix_key row) (ib_items db') = [row]" using row(2) inv' by (simp add: inbox_inv_def)
  have found: "find_item c a (ix_msg row) db' = Some row"
  proof (cases "find_item c a (ix_msg row) db'")
    case None
    then show ?thesis using row(2,3) by (auto simp: find_item_def find_None_iff)
  next
    case (Some r)
    then have "r \<in> set (ib_items db')" "ix_key r = ix_key row" using row(3) by (auto simp: find_item_def ix_key_def in_box_def dest: find_SomeD)
    then show ?thesis using items_unique(1) [OF inv' _ row(2)] Some by simp
  qed
  have same: "json_dumps (ix_payload row) = json_dumps payload \<or> jeq (meaningful (ix_payload row)) (meaningful payload)"
    using ca(2) by (cases rule: enqueue_item_cases) (simp_all add: new_item_def)
  have dict: "is_dict payload" using ca(2) by (cases "is_dict payload") (simp_all add: enqueue_item_def)
  obtain src created where src: "required source ''source'' = Inr src"
      "(if \<not> is_inbox_source src \<and> is_unstamped payload then Inr now else created_at env payload) = Inr created"
    using ca(2) dict unfolding enqueue_item_def by (simp only: bind_res_Inr_iff not_True_eq_False if_False) blast
  then obtain created' where "(if \<not> is_inbox_source src \<and> is_unstamped payload then Inr now' else created_at env payload) = Inr created'"
    by (cases "\<not> is_inbox_source src \<and> is_unstamped payload") auto
  then have "inbox_enqueue env conv agent payload source now' db' = Inr (row, db')"
    using ca(1) dict row(4) src(1) found same by (auto simp: inbox_enqueue_def enqueue_item_def)
  moreover have "db' = db \<or> ib_items db' = ib_items db @ [row] \<and>
       (ix_state row = IDiscarded \<longleftrightarrow> (\<exists>f. fence_of (ix_conversation row) (ix_agent row) db = Some f \<and> ix_created row \<le> f))"
    using ca(2) by (cases rule: enqueue_item_cases) (simp_all add: new_item_def split: option.split)
  ultimately show ?thesis using one by blast
qed

theorem enqueue_idempotent_witness:
  "inbox_inv empty_inbox \<and> inbox_enqueue demo_env ''c1'' ''Bob'' demo_msg ''http'' 30 demo_db = Inr (demo_item, demo_db)"
  using enqueue_idempotent [OF demo_enqueue ibx.init_inv [OF refl], of 30] ibx.init_inv [OF refl] by simp

text \<open>
  Reconciliation leaves no receipt behind.  When \<open>reconcile_receipts\<close> is given an appender and
  returns, it has repaired every receipt that was not queued, none awaits its transcript, every receipt of
  the store is queued, and the message of each repaired receipt is a row of the inbox.\<close>

theorem reconcile_complete:
  assumes "inbox_any_step\<^sup>*\<^sup>* empty_inbox db"
    and op: "reconcile_receipts env contains (Some appender) now t db = (Inr (repaired, awaiting), t', db')"
  shows "awaiting = 0 \<and> repaired = length (filter (\<lambda>r. rc_state r \<noteq> RQueued) (ib_receipts db)) \<and>
    (\<forall>r \<in> set (ib_receipts db'). rc_state r = RQueued) \<and>
    (\<forall>r \<in> set (ib_receipts db). rc_state r \<noteq> RQueued \<longrightarrow> stored env db' r)"
proof -
  have ok: "receipts_ok db" using ibr.reachable_inv [OF refl assms(1)] .
  have inv: "inbox_inv db" using ibd.reachable_inv [OF refl assms(1)] .
  let ?todo = "sort_key rc_prepared (filter (\<lambda>r. rc_state r \<noteq> RQueued) (ib_receipts db))"
  have todo: "\<forall>r \<in> set ?todo. \<exists>r' \<in> set (ib_receipts db). rc_key r' = rc_key r \<and> rc_payload r' = rc_payload r" by auto
  note loop = reconcile_loop_promotes [OF op [unfolded reconcile_receipts_def] ok inv todo]
  then show ?thesis by auto
qed

theorem reconcile_complete_witness:
  "\<exists>db db'. inbox_any_step\<^sup>*\<^sup>* empty_inbox db \<and> length (ib_receipts db) = 1 \<and>
     reconcile_receipts demo_env (\<lambda>t c m. False) (Some (\<lambda>t c a p. Inr (p # t))) (\<lambda>n. 9) [] db = (Inr (1, 0), [demo_msg], db') \<and>
     (\<forall>r \<in> set (ib_receipts db'). rc_state r = RQueued)"
proof -
  let ?r = "\<lparr>rc_conversation = ''c1'', rc_agent = ''bob'', rc_msg = ''m1'', rc_payload = demo_msg, rc_source = ''http'',
     rc_state = RPrepared, rc_prepared = 9, rc_updated = 9\<rparr>"
  let ?db = "empty_inbox\<lparr>ib_receipts := [?r]\<rparr>"
  have "prepare_receipt demo_env ''c1'' ''Bob'' demo_msg ''http'' 9 empty_inbox = (Inr RPrepared, ?db)"
    by (simp add: prepare_receipt_def demo_keys demo_texts empty_inbox_def)
  then have reach: "inbox_any_step\<^sup>*\<^sup>* empty_inbox ?db" by (blast intro: is_prepare r_into_rtranclp inbox_any_step_def [THEN iffD2])
  have keys: "inbox_keys ''c1'' ''bob'' = Inr (''c1'', ''bob'')" "required ''m1'' ''msg_id'' = Inr ''m1''" by code_simp+
  have "\<exists>db'. reconcile_receipts demo_env (\<lambda>t c m. False) (Some (\<lambda>t c a p. Inr (p # t))) (\<lambda>n. 9) [] ?db = (Inr (1, 0), [demo_msg], db')"
    by (simp add: reconcile_receipts_def mark_transcript_persisted_def keys is_receipt_def Let_def update_receipts_def
      enqueue_item_def demo_texts created_at_def find_item_def new_item_def fence_of_def empty_inbox_def)
  then obtain db' where op: "reconcile_receipts demo_env (\<lambda>t c m. False) (Some (\<lambda>t c a p. Inr (p # t))) (\<lambda>n. 9) [] ?db = (Inr (1, 0), [demo_msg], db')"
    by blast
  have "length (ib_receipts ?db) = 1" by simp
  then show ?thesis using reconcile_complete [OF reach op] reach op by blast
qed

end
