(* ===== verification/Pending_Queue.thy ===== *)
theory Pending_Queue
  imports Inbox_Proofs
begin

section \<open>The pending queue\<close>

text \<open>
  \<open>core/pending_queue.py\<close>: the queue of messages an agent must see on its next turn, one per
  conversation and agent, kept in the agent inbox.  \<open>pend_world\<close> is the state the queues share: the inbox,
  the queues whose legacy file was looked for, and the legacy files on disk under the queue they belong to
  (path, digest and lines).  Uuids and every reading of the clock are arguments; \<open>extra\<close> reads the
  force-stop times of the conversation store, whose failure the code swallows.
\<close>

record pend_world =
  pw_db :: inbox_db
  pw_checked :: "(string \<times> string) list"
  pw_files :: "((string \<times> string) \<times> (string \<times> string \<times> json option list)) list"

definition INBOX_SOURCE_PREFIX :: string where
  "INBOX_SOURCE_PREFIX = ''inbox:''"

definition DRAIN_BATCH :: int where
  "DRAIN_BATCH = 500"

definition PEEK_LIMIT :: int where
  "PEEK_LIMIT = 100000"

definition for_agent :: "string \<Rightarrow> string \<Rightarrow> (string \<times> string) res" where
  "for_agent conv agent =
     (if py_strip conv = [] \<or> py_strip agent = []
      then Inl (ValueError ''conversation_id and agent_name are required'')
      else Inr (py_strip conv, py_lower (py_strip agent)))"

subsection \<open>The legacy file\<close>

definition pend_migrate_legacy ::
    "inbox_env \<Rightarrow> real \<times> real \<Rightarrow> string \<times> string \<Rightarrow> pend_world \<Rightarrow> ((bool \<times> nat \<times> string) \<times> pend_world) res" where
  "pend_migrate_legacy env clock q w =
     (case map_of (pw_files w) q of
        None \<Rightarrow>
          bind_res (migration_status (fst q) (snd q) (pw_db w)) (\<lambda>previous.
            Inr (case previous of None \<Rightarrow> (False, 0, []) | Some g \<Rightarrow> (False, mg_count g, mg_sha g), w))
      | Some (path, digest, lines) \<Rightarrow>
          bind_res (migrate_pending_jsonl env (fst q) (snd q) path digest lines (fst clock) (snd clock) (pw_db w))
            (\<lambda>((migrated, n), db). Inr ((migrated, n, digest),
               w\<lparr>pw_db := db, pw_files := filter (\<lambda>f. fst f \<noteq> q) (pw_files w)\<rparr>)))"

definition queue_store :: "inbox_env \<Rightarrow> real \<times> real \<Rightarrow> string \<times> string \<Rightarrow> pend_world \<Rightarrow> pend_world res" where
  "queue_store env clock q w =
     (if q \<in> set (pw_checked w) then Inr w
      else bind_res (pend_migrate_legacy env clock q w) (\<lambda>(_, w'). Inr (w'\<lparr>pw_checked := q # pw_checked w'\<rparr>)))"

definition migrate_agent_to_inbox ::
    "inbox_env \<Rightarrow> real \<times> real \<Rightarrow> string \<Rightarrow> string \<Rightarrow> pend_world \<Rightarrow> ((bool \<times> nat \<times> string) \<times> pend_world) res" where
  "migrate_agent_to_inbox env clock conv agent w =
     bind_res (for_agent conv agent) (\<lambda>q.
     bind_res (pend_migrate_legacy env clock q w) (\<lambda>(r, w'). Inr (r, w'\<lparr>pw_checked := q # pw_checked w'\<rparr>)))"

subsection \<open>Writes\<close>

text \<open>The newest force stop of the conversation or of the agent, 0 when it cannot be read.\<close>

definition force_cutoff :: "(string \<Rightarrow> string \<Rightarrow> real res) \<Rightarrow> string \<times> string \<Rightarrow> real" where
  "force_cutoff extra q =
     (case bind_res (extra (fst q) ''last_force_stop_at'') (\<lambda>g.
           bind_res (extra (fst q) (''last_force_stop_at:'' @ py_lower (snd q))) (\<lambda>a. Inr (max g a))) of
        Inl _ \<Rightarrow> 0 | Inr t \<Rightarrow> t)"

definition pending_entry :: "json \<Rightarrow> string \<Rightarrow> json \<Rightarrow> json" where
  "pending_entry message source stamp =
     (case message of
        JDict d \<Rightarrow> JDict (AList.update ''_pending_enqueued_at'' stamp (AList.update ''_pending_source'' (JStr source) d))
      | _ \<Rightarrow> message)"

definition pend_enqueue ::
    "inbox_env \<Rightarrow> (string \<Rightarrow> string \<Rightarrow> real res) \<Rightarrow> real \<times> real \<Rightarrow> real \<Rightarrow> real \<Rightarrow> json \<Rightarrow>
     string \<times> string \<Rightarrow> json \<Rightarrow> string \<Rightarrow> pend_world \<Rightarrow> bool res \<times> pend_world" where
  "pend_enqueue env extra clock t1 t2 stamp q message source w =
     (if \<not> is_dict message then (Inl (TypeError ''PendingQueue.enqueue: message must be a dict''), w)
      else if \<not> jtruthy (jget_or message ''msg_id'' JNull) \<or> is_unstamped message
      then (Inl (ValueError ''PendingQueue.enqueue: message must be stamped''), w)
      else if py_strip source = [] then (Inl (ValueError ''source is required''), w)
      else case queue_store env clock q w of
        Inl e \<Rightarrow> (Inl e, w)
      | Inr w1 \<Rightarrow>
          (let cutoff = force_cutoff extra q in
           case (if cutoff \<noteq> 0 then discard_through (fst q) (snd q) cutoff t1 (pw_db w1) else Inr (0, pw_db w1)) of
             Inl e \<Rightarrow> (Inl e, w1)
           | Inr (_, db1) \<Rightarrow>
               (case inbox_enqueue env (fst q) (snd q) (pending_entry message (py_strip source) stamp)
                       (py_strip source) t2 db1 of
                  Inl e \<Rightarrow> (Inl e, w1\<lparr>pw_db := db1\<rparr>)
                | Inr (item, db2) \<Rightarrow> (Inr (ix_state item \<noteq> IDiscarded), w1\<lparr>pw_db := db2\<rparr>))))"

definition drain_run :: "string \<Rightarrow> string" where
  "drain_run uuid = ''pending-drain:'' @ uuid"

text \<open>
  \<open>drain\<close>: the rounds of the loop.  Round \<open>n\<close> uses the run uuid, the claim uuid and the two readings of the
  clock that \<open>rounds n\<close> gives; \<open>None\<close> is a loop that needs more rounds than the fuel.
\<close>

fun pend_loop ::
    "nat \<Rightarrow> (nat \<Rightarrow> string \<times> string \<times> real \<times> real) \<Rightarrow> nat \<Rightarrow> string \<times> string \<Rightarrow> json list \<Rightarrow> inbox_db \<Rightarrow>
     ((json list) res \<times> inbox_db) option" where
  "pend_loop 0 rounds n q entries db = None"
| "pend_loop (Suc fuel) rounds n q entries db =
     (case list_pending (fst q) (snd q) [] INBOX_SOURCE_PREFIX DRAIN_BATCH db of
        Inl e \<Rightarrow> Some (Inl e, db)
      | Inr pending \<Rightarrow>
          if pending = [] then Some (Inr entries, db)
          else case rounds n of (run, cid, t1, t2) \<Rightarrow>
            (case inbox_claim_op cid t1 (fst q) (snd q) (drain_run run) ''legacy_drain'' 0 60 []
                    (map ix_msg pending) None db of
               Inl e \<Rightarrow> Some (Inl e, db)
             | Inr ((_, items), db1) \<Rightarrow>
                 if items = [] then Some (Inr entries, db1)
                 else (case inbox_acknowledge (fst q) (snd q) (drain_run run) (map ix_msg items) t2 db1 of
                         Inl e \<Rightarrow> Some (Inl e, db1)
                       | Inr (_, db2) \<Rightarrow>
                           if int (length pending) < DRAIN_BATCH then Some (Inr (entries @ map ix_payload items), db2)
                           else pend_loop fuel rounds (Suc n) q (entries @ map ix_payload items) db2)))"

definition pend_drain ::
    "nat \<Rightarrow> inbox_env \<Rightarrow> real \<times> real \<Rightarrow> (nat \<Rightarrow> string \<times> string \<times> real \<times> real) \<Rightarrow> string \<times> string \<Rightarrow> pend_world \<Rightarrow>
     ((json list) res \<times> pend_world) option" where
  "pend_drain fuel env clock rounds q w =
     (case queue_store env clock q w of
        Inl e \<Rightarrow> Some (Inl e, w)
      | Inr w1 \<Rightarrow> map_option (\<lambda>(r, db). (r, w1\<lparr>pw_db := db\<rparr>)) (pend_loop fuel rounds 0 q [] (pw_db w1)))"

definition pend_clear ::
    "inbox_env \<Rightarrow> real \<times> real \<Rightarrow> real \<Rightarrow> real \<Rightarrow> string \<times> string \<Rightarrow> pend_world \<Rightarrow> nat res \<times> pend_world" where
  "pend_clear env clock cutoff now q w =
     (case queue_store env clock q w of
        Inl e \<Rightarrow> (Inl e, w)
      | Inr w1 \<Rightarrow>
          (case discard_through (fst q) (snd q) cutoff now (pw_db w1) of
             Inl e \<Rightarrow> (Inl e, w1)
           | Inr (n, db) \<Rightarrow> (Inr n, w1\<lparr>pw_db := db\<rparr>)))"

definition pend_discard_msg_ids ::
    "inbox_env \<Rightarrow> real \<times> real \<Rightarrow> real \<Rightarrow> string \<times> string \<Rightarrow> string list \<Rightarrow> string list \<Rightarrow> pend_world \<Rightarrow> nat res \<times> pend_world" where
  "pend_discard_msg_ids env clock now q msgs sources w =
     (case queue_store env clock q w of
        Inl e \<Rightarrow> (Inl e, w)
      | Inr w1 \<Rightarrow>
          (case inbox_discard_msg_ids (fst q) (snd q) (nonempty_texts msgs) (nonempty_texts sources) now (pw_db w1) of
             Inl e \<Rightarrow> (Inl e, w1)
           | Inr (n, db) \<Rightarrow> (Inr n, w1\<lparr>pw_db := db\<rparr>)))"

subsection \<open>Reads and recovery at boot\<close>

definition pend_pending ::
    "inbox_env \<Rightarrow> real \<times> real \<Rightarrow> string \<times> string \<Rightarrow> pend_world \<Rightarrow> (inbox_item list) res \<times> pend_world" where
  "pend_pending env clock q w =
     (case queue_store env clock q w of
        Inl e \<Rightarrow> (Inl e, w)
      | Inr w1 \<Rightarrow> (list_pending (fst q) (snd q) [] INBOX_SOURCE_PREFIX PEEK_LIMIT (pw_db w1), w1))"

definition peek_count :: "inbox_env \<Rightarrow> real \<times> real \<Rightarrow> string \<times> string \<Rightarrow> pend_world \<Rightarrow> nat res \<times> pend_world" where
  "peek_count env clock q w = (case pend_pending env clock q w of (r, w') \<Rightarrow> (bind_res r (\<lambda>xs. Inr (length xs)), w'))"

definition pend_peek :: "inbox_env \<Rightarrow> real \<times> real \<Rightarrow> string \<times> string \<Rightarrow> pend_world \<Rightarrow> (json list) res \<times> pend_world" where
  "pend_peek env clock q w = (case pend_pending env clock q w of (r, w') \<Rightarrow> (bind_res r (\<lambda>xs. Inr (map ix_payload xs)), w'))"

text \<open>
  The boot scan over the directories that hold a legacy file: one that cannot be imported is logged and
  left where it is.
\<close>

fun migrate_legacy_files :: "inbox_env \<Rightarrow> real \<times> real \<Rightarrow> (string \<times> string) list \<Rightarrow> pend_world \<Rightarrow> pend_world" where
  "migrate_legacy_files env clock [] w = w"
| "migrate_legacy_files env clock ((conv, sub) # dirs) w =
     (if sub = ''_shared'' then migrate_legacy_files env clock dirs w
      else case migrate_agent_to_inbox env clock conv sub w of
        Inl _ \<Rightarrow> migrate_legacy_files env clock dirs w
      | Inr (_, w') \<Rightarrow> migrate_legacy_files env clock dirs w')"

definition all_nonempty ::
    "inbox_env \<Rightarrow> real \<times> real \<Rightarrow> (string \<times> string) list \<Rightarrow> real \<Rightarrow> pend_world \<Rightarrow>
     ((string \<times> string \<times> nat) list) res \<times> pend_world" where
  "all_nonempty env clock dirs now w =
     (let w1 = migrate_legacy_files env clock dirs w in
      case purge_acknowledged (30 * 24 * 60 * 60) now (pw_db w1) of
        Inl e \<Rightarrow> (Inl e, w1)
      | Inr (_, db) \<Rightarrow>
          (fold_res (\<lambda>(c, a) acc. bind_res (pending_count c a db) (\<lambda>n.
               Inr (if n > 0 then acc @ [(c, a, n)] else acc))) (list_ready_keys db) [],
           w1\<lparr>pw_db := db\<rparr>))"

subsection \<open>One round of the drain\<close>

definition ready :: "string \<times> string \<Rightarrow> inbox_db \<Rightarrow> inbox_item list" where
  "ready q db = filter (\<lambda>i. in_box (fst q) (snd q) i \<and> ix_state i = IPending \<and> \<not> is_inbox_source (ix_source i)) (ib_items db)"

lemma prefix_inbox: "take (length INBOX_SOURCE_PREFIX) s = INBOX_SOURCE_PREFIX \<longleftrightarrow> is_inbox_source s"
proof -
  have "take (length p) s = p \<longleftrightarrow> (\<exists>r. s = p @ r)" for p by (metis append_eq_conv_conj append_take_drop_id)
  then show ?thesis unfolding is_inbox_source_def py_startswith_iff INBOX_SOURCE_PREFIX_def by blast
qed

lemma list_pending_ready:
  assumes "inbox_inv db" "inbox_keys (fst q) (snd q) = Inr q" "0 < limit"
  shows "list_pending (fst q) (snd q) [] INBOX_SOURCE_PREFIX limit db = Inr (take (nat limit) (ready q db))"
proof -
  have "filter (\<lambda>i. in_box (fst q) (snd q) i \<and> is_unread i \<and> \<not> is_inbox_source (ix_source i)) (ib_items db) = ready q db"
    unfolding ready_def
  proof (rule filter_cong)
    fix i assume "i \<in> set (ib_items db)"
    then have "ix_state i = INotified \<longrightarrow> is_inbox_source (ix_source i)" using assms(1) by (simp add: inbox_inv_def item_ok_def)
    then show "(in_box (fst q) (snd q) i \<and> is_unread i \<and> \<not> is_inbox_source (ix_source i)) =
      (in_box (fst q) (snd q) i \<and> ix_state i = IPending \<and> \<not> is_inbox_source (ix_source i))"
      by (auto simp: is_unread_def)
  qed simp
  then show ?thesis using assms(2,3) prefix_inbox
    by (cases q) (simp add: list_pending_def INBOX_SOURCE_PREFIX_def max_def)
qed

lemma ready_distinct:
  assumes "inbox_inv db"
  shows "distinct (map ix_msg (ready q db))" "distinct (ready q db)"
proof -
  have "distinct (map ix_key (ready q db))" using assms by (simp add: ready_def inbox_inv_def distinct_map_filter)
  moreover have "map ix_key (ready q db) = map (\<lambda>m. (fst q, snd q, m)) (map ix_msg (ready q db))"
    by (auto simp: ready_def ix_key_def in_box_def)
  ultimately show "distinct (map ix_msg (ready q db))" by (metis distinct_map)
  then show "distinct (ready q db)" by (simp add: distinct_map)
qed

text \<open>What a round relies on: a new uuid for the run and for the claim, and no lease that has run out.\<close>

definition round_ok :: "string \<times> string \<times> real \<times> real \<Rightarrow> inbox_db \<Rightarrow> bool" where
  "round_ok r db \<longleftrightarrow> (case r of (uuid, cid, t1, t2) \<Rightarrow> (\<forall>ch \<in> set uuid. \<not> is_ws ch) \<and>
     (\<forall>i \<in> set (ib_items db). ix_owner i \<noteq> Some (drain_run uuid) \<and> \<not> lease_expired t1 i) \<and>
     (\<forall>cl \<in> set (ib_claims db). cl_run cl \<noteq> drain_run uuid \<and> cl_id cl \<noteq> cid))"

lemma drain_run_required:
  assumes "\<forall>ch \<in> set uuid. \<not> is_ws ch"
  shows "required (drain_run uuid) ''run_id'' = Inr (drain_run uuid)" "required ''legacy_drain'' ''task_id'' = Inr ''legacy_drain''"
proof -
  have "list_all (\<lambda>ch. \<not> is_ws ch) ''pending-drain:''" by code_simp
  then have "\<forall>ch \<in> set (drain_run uuid). \<not> is_ws ch" using assms by (auto simp: list_all_iff drain_run_def)
  then have "py_strip (drain_run uuid) = drain_run uuid" by (rule py_strip_no_ws)
  then show "required (drain_run uuid) ''run_id'' = Inr (drain_run uuid)" by (simp add: required_Inr drain_run_def)
  show "required ''legacy_drain'' ''task_id'' = Inr ''legacy_drain''" by code_simp
qed

lemma recover_nothing:
  assumes "\<forall>i \<in> set (ib_items db). \<not> lease_expired now i"
  shows "snd (recover_expired now db) = db\<lparr>ib_claims := filter (\<lambda>cl. \<not> cl_lease cl \<le> now) (ib_claims db)\<rparr>"
proof -
  have "map (\<lambda>i. if lease_expired now i then to_pending now i else i) (ib_items db) = ib_items db"
    using assms by (intro map_idI) simp
  then show ?thesis by (cases db) (simp add: recover_expired_def update_items_def)
qed

text \<open>The claim of a round takes exactly the rows that were listed.\<close>

lemma claim_round:
  assumes inv: "inbox_inv db" and keys: "inbox_keys (fst q) (snd q) = Inr q" and ok: "round_ok (uuid, cid, t1, t2) db"
    and B: "B = take k (ready q db)" "B \<noteq> []"
  obtains cl claims where
    "inbox_claim_op cid t1 (fst q) (snd q) (drain_run uuid) ''legacy_drain'' 0 60 [] (map ix_msg B) None db =
       Inr ((cl, map (claim_row (drain_run uuid) ''legacy_drain'' (t1 + 60) t1) B),
         db\<lparr>ib_items := map (\<lambda>i. if i \<in> set B then claim_row (drain_run uuid) ''legacy_drain'' (t1 + 60) t1 i else i) (ib_items db),
            ib_claims := claims\<rparr>)"
    "\<forall>c \<in> set claims. c \<in> set (ib_claims db) \<or> cl_conversation c = fst q \<and> cl_agent c = snd q \<and> cl_run c = drain_run uuid"
proof -
  let ?c = "fst q" and ?a = "snd q" and ?run = "drain_run uuid"
  let ?row = "claim_row ?run ''legacy_drain'' (t1 + 60) t1"
  let ?claims = "filter (\<lambda>cl. \<not> cl_lease cl \<le> t1) (ib_claims db)"
  let ?db1 = "db\<lparr>ib_claims := ?claims\<rparr>"
  have sub: "set B \<subseteq> set (ready q db)" using B(1) by (auto dest: in_set_takeD)
  have inB: "b \<in> set (ib_items db)" "in_box ?c ?a b" "ix_state b = IPending" "\<not> is_inbox_source (ix_source b)" "ix_msg b \<noteq> []"
    if "b \<in> set B" for b using that sub inv by (auto simp: ready_def inbox_inv_def item_ok_def)
  have texts: "set (nonempty_texts (map ix_msg B)) = ix_msg ` set B" "nonempty_texts (map ix_msg B) \<noteq> []"
    using inB(5) B(2) by (auto simp: nonempty_texts_def simp flip: set_empty)
  have sel: "filter (claimable ?c ?a [] (nonempty_texts (map ix_msg B)) None) (ib_items db) = B"
  proof -
    have "filter (claimable ?c ?a [] (nonempty_texts (map ix_msg B)) None) (ib_items db) = filter (\<lambda>i. ix_msg i \<in> ix_msg ` set B) (ready q db)"
      unfolding ready_def filter_filter by (rule filter_cong) (auto simp: claimable_def texts)
    then show ?thesis using filter_key_take [OF ready_distinct(1) [OF inv]] B(1) by simp
  qed
  have uniq: "i = b" if "i \<in> set (ib_items db)" "b \<in> set B" "in_box ?c ?a i" "ix_msg i = ix_msg b" for i b
    using items_unique(1) [OF inv that(1) inB(1) [OF that(2)]] that inB(2) [OF that(2)] by (simp add: ix_key_def in_box_def)
  let ?items = "map (\<lambda>i. if i \<in> set B then ?row i else i) (ib_items db)"
  define items where "items = ?items"
  have P: "map (\<lambda>i. if in_box ?c ?a i \<and> ix_state i = IPending \<and> ix_msg i \<in> ix_msg ` set B then ?row i else i) (ib_items db) = items"
    unfolding items_def by (rule map_cong) (use uniq inB in auto)
  have rows: "rows_for_ids ?c ?a (map ix_msg B) (Some ?run) (db\<lparr>ib_items := items, ib_claims := cls\<rparr>) = map ?row B" for cls
  proof -
    let ?rows = "filter (\<lambda>i. in_box ?c ?a i \<and> ix_msg i \<in> ix_msg ` set B \<and> ix_owner i = Some ?run \<and> \<not> is_inbox_source (ix_source i)) ?items"
    have "find (\<lambda>i. ix_msg i = ix_msg b) ?rows = Some (?row b)" if b: "b \<in> set B" for b
    proof (rule find_unique)
      show "?row b \<in> set ?rows" using b inB [OF b] by (auto simp: in_box_def intro!: image_eqI [of _ _ b])
      show "ix_msg (?row b) = ix_msg b" by simp
      fix y assume y: "y \<in> set ?rows" "ix_msg y = ix_msg b"
      then obtain i where i: "i \<in> set (ib_items db)" "y = (if i \<in> set B then ?row i else i)" by auto
      then have "in_box ?c ?a i" "ix_msg i = ix_msg b" using y by (auto simp: in_box_def split: if_splits)
      then have "i = b" using uniq [OF i(1) b] by simp
      then show "y = ?row b" using i(2) b by simp
    qed
    then have "concat (map (\<lambda>b. case find (\<lambda>i. ix_msg i = ix_msg b) ?rows of None \<Rightarrow> [] | Some i \<Rightarrow> [i]) B) = map ?row B"
      by (intro concat_map_singles) simp
    then show ?thesis by (simp add: rows_for_ids_def Let_def comp_def items_def)
  qed
  have keys': "inbox_keys ?c ?a = Inr (?c, ?a)" using keys by simp
  show thesis
  proof (rule that)
    let ?claim = "\<lparr>cl_id = cid, cl_conversation = ?c, cl_agent = ?a, cl_run = ?run, cl_task = ''legacy_drain'',
      cl_items = map ix_msg B, cl_lease = t1 + 60, cl_created = t1\<rparr>"
    have "snd (recover_expired t1 db) = ?db1" using ok by (intro recover_nothing) (simp add: round_ok_def)
    moreover have "find (\<lambda>cl. cl_conversation cl = ?c \<and> cl_agent cl = ?a \<and> cl_run cl = ?run \<and> cl_task cl = ''legacy_drain'') ?claims = None"
      using ok by (auto simp: find_None_iff round_ok_def)
    moreover have "cid \<notin> cl_id ` set ?claims" using ok by (auto simp: round_ok_def)
    moreover have "required ?run ''run_id'' = Inr ?run" "required ''legacy_drain'' ''task_id'' = Inr ''legacy_drain''"
      using drain_run_required [of uuid] ok by (simp_all add: round_ok_def)
    ultimately show "inbox_claim_op cid t1 ?c ?a ?run ''legacy_drain'' 0 60 [] (map ix_msg B) None db =
       Inr ((Some ?claim, map ?row B), db\<lparr>ib_items := ?items, ib_claims := ?claims @ [?claim]\<rparr>)"
      using B(2) keys' sel P rows [of "?claims @ [?claim]"]
      by (simp add: inbox_claim_op_def Let_def update_items_def nonempty_texts_def [of "[]"] del: prod.collapse flip: items_def)
    show "\<forall>c \<in> set (?claims @ [?claim]). c \<in> set (ib_claims db) \<or> cl_conversation c = ?c \<and> cl_agent c = ?a \<and> cl_run c = ?run"
      by auto
  qed
qed

text \<open>The rows a round has acknowledged.\<close>

definition acked :: "real \<Rightarrow> inbox_item \<Rightarrow> inbox_item" where
  "acked now i = i\<lparr>ix_state := IAcknowledged, ix_owner := None, ix_owner_task := None, ix_lease := None, ix_updated := now\<rparr>"

lemma ack_round:
  assumes inv: "inbox_inv db" and keys: "inbox_keys (fst q) (snd q) = Inr q" and ok: "round_ok (uuid, cid, t1, t2) db"
    and B: "set B \<subseteq> set (ready q db)" "B \<noteq> []"
    and db1: "db1 = db\<lparr>ib_items := map (\<lambda>i. if i \<in> set B then claim_row (drain_run uuid) task e t1 i else i) (ib_items db), ib_claims := claims\<rparr>"
  shows "inbox_acknowledge (fst q) (snd q) (drain_run uuid) (map ix_msg B) t2 db1 =
    Inr (count_items (\<lambda>i. owned_by (fst q) (snd q) (drain_run uuid) i \<and> ix_msg i \<in> ix_msg ` set B) db1,
      db\<lparr>ib_items := map (\<lambda>i. if i \<in> set B then acked t2 i else i) (ib_items db),
         ib_claims := filter (\<lambda>cl. \<not> (cl_conversation cl = fst q \<and> cl_agent cl = snd q \<and> cl_run cl = drain_run uuid)) claims\<rparr>)"
proof -
  let ?run = "drain_run uuid"
  let ?P = "\<lambda>i. owned_by (fst q) (snd q) ?run i \<and> ix_msg i \<in> ix_msg ` set B"
  have inB: "in_box (fst q) (snd q) b" "ix_msg b \<noteq> []" if "b \<in> set B" for b
    using that B(1) inv by (auto simp: ready_def inbox_inv_def item_ok_def)
  have texts: "set (nonempty_texts (map ix_msg B)) = ix_msg ` set B" "nonempty_texts (map ix_msg B) \<noteq> []"
    using inB(2) B(2) by (auto simp: nonempty_texts_def simp flip: set_empty)
  have mine: "?P (claim_row ?run task e t1 i)" if "i \<in> set B" for i
    using that inB(1) [OF that] by (auto simp: owned_by_def in_box_def)
  have other: "\<not> ?P i" if "i \<in> set (ib_items db)" for i
    using ok that by (auto simp: round_ok_def owned_by_def)
  have ack: "acked t2 (claim_row ?run task e t1 i) = acked t2 i" for i by (simp add: acked_def)
  let ?g = "\<lambda>i. if i \<in> set B then claim_row ?run task e t1 i else i"
  have "(if ?P (?g i) then acked t2 (?g i) else ?g i) = (if i \<in> set B then acked t2 i else i)" if "i \<in> set (ib_items db)" for i
  proof (cases "i \<in> set B")
    case True
    show ?thesis unfolding if_P [OF True] if_P [OF mine [OF True]] ack ..
  next
    case False
    show ?thesis unfolding if_not_P [OF False] if_not_P [OF other [OF that]] ..
  qed
  then have upd: "update_items ?P (acked t2) db1 = db1\<lparr>ib_items := map (\<lambda>i. if i \<in> set B then acked t2 i else i) (ib_items db)\<rparr>"
    by (simp add: update_items_def db1 comp_def)
  have keys': "inbox_keys (fst q) (snd q) = Inr (fst q, snd q)" using keys by simp
  have "inbox_acknowledge (fst q) (snd q) ?run (map ix_msg B) t2 db1 =
      Inr (count_items ?P db1, drop_claims (fst q) (snd q) ?run (update_items ?P (acked t2) db1))"
    using texts drain_run_required(1) [of uuid] ok keys'
    by (simp add: inbox_acknowledge_def Let_def round_ok_def del: prod.collapse flip: acked_def)
  then show ?thesis unfolding upd by (simp add: drop_claims_def db1)
qed

lemma ready_acked:
  assumes inv: "inbox_inv db" and "ib_items db2 = map (\<lambda>i. if i \<in> set (take k (ready q db)) then acked t2 i else i) (ib_items db)"
  shows "ready q db2 = drop k (ready q db)"
proof -
  let ?B = "take k (ready q db)"
  have "filter R (map (\<lambda>i. if i \<in> S then acked t2 i else i) xs) = filter (\<lambda>i. i \<notin> S) (filter R xs)"
    if "\<And>i. \<not> R (acked t2 i)" for R S xs using that by (induction xs) auto
  then have "ready q db2 = filter (\<lambda>i. i \<notin> set ?B) (ready q db)" by (simp add: ready_def assms(2) acked_def)
  then show ?thesis using filter_notin_take [OF ready_distinct(2) [OF inv]] by simp
qed

text \<open>One round as a whole.\<close>

lemma drain_round:
  assumes inv: "inbox_inv db" and keys: "inbox_keys (fst q) (snd q) = Inr q" and ok: "round_ok (rounds n) db"
    and B: "B = take 500 (ready q db)" "B \<noteq> []"
  obtains db2 where "ib_items db2 = map (\<lambda>i. if i \<in> set B then acked (snd (snd (snd (rounds n)))) i else i) (ib_items db)"
    "set (ib_claims db2) \<subseteq> set (ib_claims db)" "inbox_inv db2" "inbox_step\<^sup>*\<^sup>* db db2"
    "\<forall>fuel entries. pend_loop (Suc fuel) rounds n q entries db =
       (if length B < 500 then Some (Inr (entries @ map ix_payload B), db2)
        else pend_loop fuel rounds (Suc n) q (entries @ map ix_payload B) db2)"
proof -
  obtain uuid cid t1 t2 where r: "rounds n = (uuid, cid, t1, t2)" by (cases "rounds n")
  note ok' = ok [unfolded r]
  obtain cl claims where claim:
    "inbox_claim_op cid t1 (fst q) (snd q) (drain_run uuid) ''legacy_drain'' 0 60 [] (map ix_msg B) None db =
       Inr ((cl, map (claim_row (drain_run uuid) ''legacy_drain'' (t1 + 60) t1) B),
         db\<lparr>ib_items := map (\<lambda>i. if i \<in> set B then claim_row (drain_run uuid) ''legacy_drain'' (t1 + 60) t1 i else i) (ib_items db),
            ib_claims := claims\<rparr>)" (is "_ = Inr (_, ?db1)")
    and claims: "\<forall>c \<in> set claims. c \<in> set (ib_claims db) \<or> cl_conversation c = fst q \<and> cl_agent c = snd q \<and> cl_run c = drain_run uuid"
    using claim_round [OF inv keys ok' B] .
  have sub: "set B \<subseteq> set (ready q db)" using B(1) by (auto dest: in_set_takeD)
  let ?db2 = "db\<lparr>ib_items := map (\<lambda>i. if i \<in> set B then acked t2 i else i) (ib_items db),
         ib_claims := filter (\<lambda>cl. \<not> (cl_conversation cl = fst q \<and> cl_agent cl = snd q \<and> cl_run cl = drain_run uuid)) claims\<rparr>"
  obtain m where ack: "inbox_acknowledge (fst q) (snd q) (drain_run uuid) (map ix_msg B) t2 ?db1 = Inr (m, ?db2)"
    using ack_round [OF inv keys ok' sub B(2) refl] by blast
  have steps: "inbox_step\<^sup>*\<^sup>* db ?db2" using is_claim [OF claim] is_acknowledge [OF ack] by (meson r_into_rtranclp rtranclp.rtrancl_into_rtrancl)
  have list: "list_pending (fst q) (snd q) [] INBOX_SOURCE_PREFIX DRAIN_BATCH db = Inr B"
    using list_pending_ready [OF inv keys, of DRAIN_BATCH] B(1) by (simp add: DRAIN_BATCH_def)
  have msgs: "map ix_msg (map (claim_row (drain_run uuid) ''legacy_drain'' (t1 + 60) t1) B) = map ix_msg B"
    "map ix_payload (map (claim_row (drain_run uuid) ''legacy_drain'' (t1 + 60) t1) B) = map ix_payload B" by simp_all
  have len: "int (length B) < DRAIN_BATCH \<longleftrightarrow> length B < 500" by (simp add: DRAIN_BATCH_def)
  show thesis
  proof (rule that [of ?db2])
    have "pend_loop (Suc fuel) rounds n q entries db =
       (if length B < 500 then Some (Inr (entries @ map ix_payload B), ?db2)
        else pend_loop fuel rounds (Suc n) q (entries @ map ix_payload B) ?db2)" for fuel entries
      unfolding pend_loop.simps list sum.case if_not_P [OF B(2)] r prod.case claim msgs ack len
      using B(2) by (simp only: map_is_Nil_conv if_False)
    then show "\<forall>fuel entries. pend_loop (Suc fuel) rounds n q entries db =
       (if length B < 500 then Some (Inr (entries @ map ix_payload B), ?db2)
        else pend_loop fuel rounds (Suc n) q (entries @ map ix_payload B) ?db2)" by blast
    show "set (ib_claims ?db2) \<subseteq> set (ib_claims db)" using claims by auto
    show "inbox_inv ?db2" using ibx.steps_inv [OF steps inv] .
    show "ib_items ?db2 = map (\<lambda>i. if i \<in> set B then acked (snd (snd (snd (rounds n)))) i else i) (ib_items db)" by (simp add: r)
  qed (rule steps)
qed

lemma round_ok_mono:
  assumes "round_ok r db" "set (ib_claims db2) \<subseteq> set (ib_claims db)"
    and "ib_items db2 = map (\<lambda>i. if i \<in> S then acked t i else i) (ib_items db)"
  shows "round_ok r db2"
proof -
  have "ix_owner (acked t i) = None" "\<not> lease_expired t' (acked t i)" for i t' by (simp_all add: acked_def lease_expired_def)
  then show ?thesis using assms by (cases r) (auto simp: round_ok_def)
qed

lemma pend_loop_exact:
  assumes "inbox_inv db" "inbox_keys (fst q) (snd q) = Inr q" "\<And>k. n \<le> k \<Longrightarrow> round_ok (rounds k) db"
    and "length (ready q db) div 500 < fuel"
  shows "\<exists>db'. pend_loop fuel rounds n q entries db = Some (Inr (entries @ map ix_payload (ready q db)), db') \<and>
    ready q db' = [] \<and> inbox_step\<^sup>*\<^sup>* db db' \<and>
    (\<exists>g. ib_items db' = map g (ib_items db) \<and> (\<forall>i \<in> set (ib_items db).
       if i \<in> set (ready q db) then \<exists>t. g i = acked t i else g i = i))"
  using assms
proof (induction fuel arbitrary: n entries db)
  case (Suc fuel)
  let ?R = "ready q db"
  show ?case
  proof (cases "?R = []")
    case True
    then have "pend_loop (Suc fuel) rounds n q entries db = Some (Inr entries, db)"
      using list_pending_ready [OF Suc.prems(1,2), of DRAIN_BATCH] by (simp add: DRAIN_BATCH_def)
    then show ?thesis using True by (intro exI [of _ db] conjI exI [of _ id]) auto
  next
    case False
    let ?B = "take 500 ?R"
    have "?B \<noteq> []" using False by simp
    from drain_round [where rounds = rounds and n = n, OF Suc.prems(1,2) Suc.prems(3) [OF order_refl] refl this] obtain db2 where
      db2: "ib_items db2 = map (\<lambda>i. if i \<in> set ?B then acked (snd (snd (snd (rounds n)))) i else i) (ib_items db)"
        "set (ib_claims db2) \<subseteq> set (ib_claims db)" "inbox_inv db2" "inbox_step\<^sup>*\<^sup>* db db2"
      and loop: "\<forall>fuel entries. pend_loop (Suc fuel) rounds n q entries db =
       (if length ?B < 500 then Some (Inr (entries @ map ix_payload ?B), db2)
        else pend_loop fuel rounds (Suc n) q (entries @ map ix_payload ?B) db2)" .
    have rest: "ready q db2 = drop 500 ?R" using ready_acked [OF Suc.prems(1) db2(1)] .
    show ?thesis
    proof (cases "length ?R < 500")
      case True
      then show ?thesis using loop [rule_format, of fuel entries] rest db2(1,4)
        by (intro exI [of _ db2] conjI exI [of _ "\<lambda>i. if i \<in> set ?B then acked (snd (snd (snd (rounds n)))) i else i"]) auto
    next
      case False
      have "length (ready q db2) div 500 < fuel" using Suc.prems(4) False rest by (simp add: div_if)
      with Suc.IH [OF db2(3) Suc.prems(2) round_ok_mono [OF Suc.prems(3) db2(2,1)], of "Suc n" "entries @ map ix_payload ?B"]
      obtain db' g where d: "pend_loop fuel rounds (Suc n) q (entries @ map ix_payload ?B) db2 =
          Some (Inr ((entries @ map ix_payload ?B) @ map ix_payload (drop 500 ?R)), db')" "ready q db' = []" "inbox_step\<^sup>*\<^sup>* db2 db'"
          "ib_items db' = map g (ib_items db2)"
          "\<forall>i \<in> set (ib_items db2). if i \<in> set (drop 500 ?R) then \<exists>t. g i = acked t i else g i = i"
        unfolding rest by (auto simp: Suc_le_eq)
      have "map ix_payload ?B @ map ix_payload (drop 500 ?R) = map ix_payload ?R" by (simp flip: map_append)
      then have result: "pend_loop (Suc fuel) rounds n q entries db = Some (Inr (entries @ map ix_payload ?R), db')"
        using loop [rule_format, of fuel entries] False d(1) by simp
      have steps: "inbox_step\<^sup>*\<^sup>* db db'" using db2(4) d(3) by (rule rtranclp_trans)
      let ?G = "g \<circ> (\<lambda>i. if i \<in> set ?B then acked (snd (snd (snd (rounds n)))) i else i)"
      have each: "if i \<in> set ?R then \<exists>t. ?G i = acked t i
          else ?G i = i" if i: "i \<in> set (ib_items db)" for i
      proof (cases "i \<in> set ?B")
        case True
        let ?j = "acked (snd (snd (snd (rounds n)))) i"
        have "?j \<in> set (ib_items db2)" using True i by (auto simp: db2(1))
        moreover have "?j \<notin> set (drop 500 ?R)" by (auto simp: ready_def acked_def dest!: in_set_dropD)
        ultimately show ?thesis using True d(5) by (auto dest: in_set_takeD)
      next
        case False
        then have "i \<in> set (ib_items db2)" using i by (force simp: db2(1))
        moreover have "i \<in> set (drop 500 ?R) \<longleftrightarrow> i \<in> set ?R" using False by (metis Un_iff append_take_drop_id set_append)
        ultimately show ?thesis using False d(5) by auto
      qed
      have items: "ib_items db' = map ?G (ib_items db)" by (simp add: d(4) db2(1))
      show ?thesis
        by (rule exI [of _ db'], rule conjI [OF result], rule conjI [OF d(2)], rule conjI [OF steps],
          rule exI [of _ ?G], rule conjI [OF items]) (use each in blast)
    qed
  qed
qed simp

subsection \<open>The queue and the inbox\<close>

lemma for_agent_keys:
  assumes "for_agent conv agent = Inr q"
  shows "inbox_keys (fst q) (snd q) = Inr q"
  using assms by (auto simp: for_agent_def inbox_keys_def inbox_agent_def required_def Let_def py_strip_lower split: if_splits)

abbreviation world_steps :: "pend_world \<Rightarrow> pend_world \<Rightarrow> bool" where
  "world_steps w w' \<equiv> inbox_step\<^sup>*\<^sup>* (pw_db w) (pw_db w')"

lemma pend_migrate_legacy_steps:
  assumes "pend_migrate_legacy env clock q w = Inr (r, w')"
  shows "world_steps w w'"
proof (cases "map_of (pw_files w) q")
  case None
  then show ?thesis using assms by (auto simp: pend_migrate_legacy_def bind_res_Inr_iff)
next
  case (Some f)
  obtain path digest lines where f: "f = (path, digest, lines)" by (cases f)
  obtain res db where "migrate_pending_jsonl env (fst q) (snd q) path digest lines (fst clock) (snd clock) (pw_db w) = Inr (res, db)"
    and "pw_db w' = db" using assms by (auto simp: pend_migrate_legacy_def Some f bind_res_Inr_iff)
  then show ?thesis using is_migrate by blast
qed

lemma queue_store_steps:
  assumes "queue_store env clock q w = Inr w'"
  shows "world_steps w w'" "q \<in> set (pw_checked w')"
proof -
  show "world_steps w w'"
  proof (cases "q \<in> set (pw_checked w)")
    case False
    then obtain r w1 where "pend_migrate_legacy env clock q w = Inr (r, w1)" "w' = w1\<lparr>pw_checked := q # pw_checked w1\<rparr>"
      using assms by (auto simp: queue_store_def bind_res_Inr_iff)
    then show ?thesis using pend_migrate_legacy_steps by auto
  qed (use assms in \<open>simp add: queue_store_def\<close>)
  show "q \<in> set (pw_checked w')" using assms by (auto simp: queue_store_def bind_res_Inr_iff split: if_splits)
qed

lemma pend_loop_steps:
  assumes "pend_loop fuel rounds n q entries db = Some (r, db')"
  shows "inbox_step\<^sup>*\<^sup>* db db'"
  using assms
proof (induction fuel arbitrary: n entries db)
  case (Suc fuel)
  obtain uuid cid t1 t2 where rnd: "rounds n = (uuid, cid, t1, t2)" by (cases "rounds n")
  let ?claim = "\<lambda>pending. inbox_claim_op cid t1 (fst q) (snd q) (drain_run uuid) ''legacy_drain'' 0 60 [] (map ix_msg pending) None db"
  show ?case
  proof (cases "list_pending (fst q) (snd q) [] INBOX_SOURCE_PREFIX DRAIN_BATCH db")
    case (Inr pending)
    note list = Inr
    show ?thesis
    proof (cases "pending = [] \<or> (\<exists>e. ?claim pending = Inl e)")
      case True
      then have "db' = db" using Suc.prems list rnd by (auto split: if_splits)
      then show ?thesis by simp
    next
      case False
      then obtain cl items db1 where claim: "?claim pending = Inr ((cl, items), db1)" by (metis obj_sumE surj_pair)
      have step1: "inbox_step\<^sup>*\<^sup>* db db1" using is_claim [OF claim] by blast
      show ?thesis
      proof (cases "inbox_acknowledge (fst q) (snd q) (drain_run uuid) (map ix_msg items) t2 db1")
        case (Inl e)
        then have "db' = db1" using Suc.prems list rnd claim False by (auto split: if_splits)
        then show ?thesis using step1 by simp
      next
        case (Inr res)
        then obtain m db2 where ack: "inbox_acknowledge (fst q) (snd q) (drain_run uuid) (map ix_msg items) t2 db1 = Inr (m, db2)"
          by (cases res) auto
        have step2: "inbox_step\<^sup>*\<^sup>* db db2" using step1 is_acknowledge [OF ack] by (rule rtranclp.rtrancl_into_rtrancl)
        have "db' = db1 \<or> db' = db2 \<or> pend_loop fuel rounds (Suc n) q (entries @ map ix_payload items) db2 = Some (r, db')"
          using Suc.prems list rnd claim ack False by (auto split: if_splits)
        then show ?thesis using step1 step2 Suc.IH by (auto intro: rtranclp_trans)
      qed
    qed
  qed (use Suc.prems in simp)
qed simp

lemma migrate_files_steps: "world_steps w (migrate_legacy_files env clock dirs w)"
proof (induction dirs arbitrary: w)
  case (Cons d dirs)
  obtain conv sub where d: "d = (conv, sub)" by (cases d)
  have "world_steps w w'" if op: "migrate_agent_to_inbox env clock conv sub w = Inr (r, w')" for r w'
  proof -
    obtain q w1 where "pend_migrate_legacy env clock q w = Inr (r, w1)" "w' = w1\<lparr>pw_checked := q # pw_checked w1\<rparr>"
      using op by (auto simp: migrate_agent_to_inbox_def bind_res_Inr_iff)
    then show ?thesis using pend_migrate_legacy_steps by auto
  qed
  then show ?case using Cons.IH d by (auto split: sum.split intro: rtranclp_trans)
qed simp

text \<open>
  Every operation of a pending queue, and the recovery at boot, whether it returns or raises, leaves an
  inbox reached by transactions of the inbox store, so that all guarantees of the inbox hold of it: no
  message is lost, none is delivered twice, and force stops stay in force.\<close>

theorem queue_only_transactions:
  "world_steps w (snd (pend_enqueue env extra clock t1 t2 stamp q message source w)) \<and>
   world_steps w (snd (pend_clear env clock cutoff now q w)) \<and>
   world_steps w (snd (pend_discard_msg_ids env clock now q msgs sources w)) \<and>
   world_steps w (snd (peek_count env clock q w)) \<and> world_steps w (snd (pend_peek env clock q w)) \<and>
   world_steps w (snd (all_nonempty env clock dirs now w)) \<and>
   (case pend_drain fuel env clock rounds q w of None \<Rightarrow> True | Some (r, w') \<Rightarrow> world_steps w w')"
proof (intro conjI)
  note steps = queue_store_steps(1) rtranclp.rtrancl_into_rtrancl
  show "world_steps w (snd (pend_clear env clock cutoff now q w))"
    by (auto simp: pend_clear_def split: sum.split prod.split intro: steps is_fence)
  show "world_steps w (snd (pend_discard_msg_ids env clock now q msgs sources w))"
    by (auto simp: pend_discard_msg_ids_def split: sum.split prod.split intro: steps is_discard)
  show "world_steps w (snd (peek_count env clock q w))" "world_steps w (snd (pend_peek env clock q w))"
    by (auto simp: peek_count_def pend_peek_def pend_pending_def split: sum.split intro: steps)
  show "case pend_drain fuel env clock rounds q w of None \<Rightarrow> True | Some (r, w') \<Rightarrow> world_steps w w'"
  proof (cases "queue_store env clock q w")
    case (Inr w1)
    then show ?thesis using queue_store_steps(1) [OF Inr]
      by (auto simp: pend_drain_def split: option.split intro: rtranclp_trans dest!: pend_loop_steps)
  qed (simp add: pend_drain_def)
  show "world_steps w (snd (all_nonempty env clock dirs now w))"
    using migrate_files_steps [of w env clock dirs]
    by (auto simp: all_nonempty_def Let_def split: sum.split prod.split intro: rtranclp.rtrancl_into_rtrancl is_purge)
  show "world_steps w (snd (pend_enqueue env extra clock t1 t2 stamp q message source w))"
  proof (cases "queue_store env clock q w")
    case (Inr w1)
    let ?fence = "if force_cutoff extra q \<noteq> 0 then discard_through (fst q) (snd q) (force_cutoff extra q) t1 (pw_db w1) else Inr (0, pw_db w1)"
    have fence: "inbox_step\<^sup>*\<^sup>* (pw_db w) db1" if "?fence = Inr (n, db1)" for n db1
      using that queue_store_steps(1) [OF Inr] is_fence by (auto split: if_splits intro: rtranclp.rtrancl_into_rtrancl)
    then show ?thesis using Inr queue_store_steps(1) [OF Inr]
      by (auto simp: pend_enqueue_def Let_def split: sum.split prod.split intro: rtranclp.rtrancl_into_rtrancl is_enqueue)
  qed (simp add: pend_enqueue_def)
qed

text \<open>
  C25: \<open>drain\<close> terminates and is exact.  With new uuids and no lease running out meanwhile, a number of
  rounds one more than the number of full batches waiting is enough; it returns the payloads of all
  pending ordinary messages of the mailbox, oldest first, leaves none pending, acknowledges exactly those
  rows and touches no other, inbox notifications included; and \<open>peek\<close> shows the same payloads beforehand.\<close>

theorem drain_exact:
  assumes "inbox_any_step\<^sup>*\<^sup>* empty_inbox (pw_db w)" "for_agent conv agent = Inr q"
    and store: "queue_store env clock q w = Inr w1" and "\<And>k. round_ok (rounds k) (pw_db w1)"
    and "length (ready q (pw_db w1)) div 500 < fuel"
  shows "\<exists>db'. pend_drain fuel env clock rounds q w = Some (Inr (map ix_payload (ready q (pw_db w1))), w1\<lparr>pw_db := db'\<rparr>) \<and>
    ready q db' = [] \<and>
    (\<exists>g. ib_items db' = map g (ib_items (pw_db w1)) \<and> (\<forall>i \<in> set (ib_items (pw_db w1)).
       if i \<in> set (ready q (pw_db w1)) then \<exists>t. g i = acked t i else g i = i)) \<and>
    fst (pend_peek env clock q w) = Inr (take 100000 (map ix_payload (ready q (pw_db w1))))"
proof -
  have "inbox_inv (pw_db w)" using ibd.reachable_inv [OF refl assms(1)] .
  then have inv: "inbox_inv (pw_db w1)" using ibx.steps_inv queue_store_steps(1) [OF store] by blast
  note keys = for_agent_keys [OF assms(2)]
  have "fst (pend_peek env clock q w) = Inr (take 100000 (map ix_payload (ready q (pw_db w1))))"
    using list_pending_ready [OF inv keys, of PEEK_LIMIT] store
    by (simp add: pend_peek_def pend_pending_def PEEK_LIMIT_def take_map)
  moreover obtain db' where d: "pend_loop fuel rounds 0 q [] (pw_db w1) = Some (Inr ([] @ map ix_payload (ready q (pw_db w1))), db')"
    "ready q db' = []" "\<exists>g. ib_items db' = map g (ib_items (pw_db w1)) \<and> (\<forall>i \<in> set (ib_items (pw_db w1)).
       if i \<in> set (ready q (pw_db w1)) then \<exists>t. g i = acked t i else g i = i)"
    using pend_loop_exact [where rounds = rounds and n = 0 and entries = "[]", OF inv keys assms(4) assms(5)] by blast
  moreover have "pend_drain fuel env clock rounds q w = Some (Inr (map ix_payload (ready q (pw_db w1))), w1\<lparr>pw_db := db'\<rparr>)"
    using d(1) store by (simp add: pend_drain_def)
  ultimately show ?thesis by blast
qed

theorem drain_exact_witness:
  "let w = \<lparr>pw_db = demo_db, pw_checked = [(''c1'', ''bob'')], pw_files = []\<rparr> in
   \<exists>db'. pend_drain 1 demo_env (9, 9) (\<lambda>n. (''u'', ''x'', 10, 11)) (''c1'', ''bob'') w = Some (Inr [demo_msg], w\<lparr>pw_db := db'\<rparr>)"
proof -
  let ?w = "\<lparr>pw_db = demo_db, pw_checked = [(''c1'', ''bob'')], pw_files = []\<rparr>"
  have "for_agent ''c1'' ''Bob'' = Inr (''c1'', ''bob'')" "\<not> is_ws (CHR ''u'')" by code_simp+
  moreover have "queue_store demo_env (9, 9) (''c1'', ''bob'') ?w = Inr ?w" by (simp add: queue_store_def)
  moreover have "round_ok (''u'', ''x'', 10, 11) demo_db"
    using calculation(2) by (simp add: round_ok_def demo_db_def demo_item_def empty_inbox_def lease_expired_def)
  moreover have "ready (''c1'', ''bob'') demo_db = [demo_item]"
    by (simp add: ready_def demo_db_def demo_item_def in_box_def demo_texts)
  moreover have "ix_payload demo_item = demo_msg" by (simp add: demo_item_def)
  ultimately show ?thesis
    using drain_exact [of ?w "''c1''" "''Bob''" "(''c1'', ''bob'')" demo_env "(9, 9)" ?w "\<lambda>n. (''u'', ''x'', 10, 11)" 1] demo_reachable(1)
    by (auto simp: Let_def)
qed

end
