(* ===== verification/Tool_Sequence.thy ===== *)
theory Tool_Sequence
  imports Json
begin

section \<open>Repair of tool-call sequences\<close>

text \<open>
  \<open>core/llm_tool_sequence.py\<close>, on the messages of \<open>core/_llm_types.py\<close>.  Providers reject a context in
  which an assistant message with tool calls is not followed at once by one tool message per call;
  \<open>repair_tool_sequence\<close> rebuilds the list.  A dictionary is its insertion-ordered association list, the
  set of moved indexes a list.  \<open>fresh n\<close> is the id and the time the \<open>n\<close>-th new message would mint.  The
  main loop is written as a function that returns what it appends.
\<close>

record llm_tool_call =
  tc_id :: string
  tc_name :: string
  tc_arguments :: json
  tc_timestamp :: real
  tc_origin :: string

record llm_message =
  lm_role :: string
  lm_content :: json
  lm_tool_calls :: "llm_tool_call list option"
  lm_tool_call_id :: "string option"
  lm_source :: json
  lm_msg_id :: string
  lm_display_only :: bool
  lm_thinking :: string
  lm_thinking_signature :: string
  lm_reasoning_item :: string
  lm_is_error :: bool
  lm_timestamp :: real
  lm_seq :: int
  lm_conversation_id :: string

text \<open>\<open>LLMMessage.__post_init__\<close>\<close>

definition message_post_init :: "string \<times> real \<Rightarrow> llm_message \<Rightarrow> llm_message res" where
  "message_post_init minted m =
     (if lm_conversation_id m = [] then Inl (ValueError ''LLMMessage requires conversation_id'')
      else Inr (m\<lparr>lm_msg_id := (if lm_msg_id m = [] then fst minted else lm_msg_id m),
                  lm_timestamp := (if lm_timestamp m = 0 then snd minted else lm_timestamp m)\<rparr>))"

definition UNAVAILABLE_RESULT :: string where
  "UNAVAILABLE_RESULT = ''[Result unavailable because the previous turn was '' @
     ''cancelled before this tool result was persisted.]''"

definition synthetic_result :: "string \<times> real \<Rightarrow> string \<Rightarrow> string \<Rightarrow> llm_message res" where
  "synthetic_result minted call_id conversation_id =
     message_post_init minted \<lparr>lm_role = ''tool'', lm_content = JStr UNAVAILABLE_RESULT, lm_tool_calls = None,
       lm_tool_call_id = Some call_id, lm_source = JNull, lm_msg_id = [], lm_display_only = False, lm_thinking = [],
       lm_thinking_signature = [], lm_reasoning_item = [], lm_is_error = False, lm_timestamp = 0, lm_seq = 0,
       lm_conversation_id = conversation_id\<rparr>"

definition replace_tool_calls :: "string \<times> real \<Rightarrow> llm_message \<Rightarrow> llm_tool_call list option \<Rightarrow> llm_message res" where
  "replace_tool_calls minted m calls = message_post_init minted (m\<lparr>lm_tool_calls := calls\<rparr>)"

definition is_tool :: "llm_message \<Rightarrow> bool" where
  "is_tool m \<longleftrightarrow> lm_role m = ''tool''"

definition result_id :: "llm_message \<Rightarrow> string" where
  "result_id m = (case lm_tool_call_id m of None \<Rightarrow> [] | Some s \<Rightarrow> s)"

definition calls_of :: "llm_message \<Rightarrow> llm_tool_call list" where
  "calls_of m = (if lm_role m = ''assistant'' then (case lm_tool_calls m of None \<Rightarrow> [] | Some cs \<Rightarrow> cs) else [])"

text \<open>\<open>result_indexes\<close>: the earliest tool message per call id.\<close>

fun result_indexes :: "nat \<Rightarrow> llm_message list \<Rightarrow> (string \<times> nat) list \<Rightarrow> (string \<times> nat) list" where
  "result_indexes idx [] acc = acc"
| "result_indexes idx (m # ms) acc =
     result_indexes (Suc idx) ms
       (if is_tool m \<and> result_id m \<noteq> [] \<and> map_of acc (result_id m) = None then acc @ [(result_id m, idx)] else acc)"

text \<open>The results of one assistant message: what is appended, the moved indexes, \<open>changed\<close>, and the
  number of messages minted so far.\<close>

fun expected_results ::
    "(nat \<Rightarrow> string \<times> real) \<Rightarrow> string \<Rightarrow> llm_message list \<Rightarrow> (string \<times> nat) list \<Rightarrow> llm_tool_call list \<Rightarrow>
     nat list \<Rightarrow> bool \<Rightarrow> nat \<Rightarrow> (llm_message list \<times> nat list \<times> bool \<times> nat) res" where
  "expected_results fresh conv messages indexes [] moved changed k = Inr ([], moved, changed, k)"
| "expected_results fresh conv messages indexes (c # cs) moved changed k =
     (if tc_id c = [] then expected_results fresh conv messages indexes cs moved True k
      else case map_of indexes (tc_id c) of
        Some j \<Rightarrow>
          if j \<notin> set moved
          then bind_res (expected_results fresh conv messages indexes cs (j # moved) changed k)
                 (\<lambda>(expected, r). Inr (messages ! j # expected, r))
          else bind_res (synthetic_result (fresh k) (tc_id c) conv) (\<lambda>m.
               bind_res (expected_results fresh conv messages indexes cs moved True (Suc k))
                 (\<lambda>(expected, r). Inr (m # expected, r)))
      | None \<Rightarrow>
          bind_res (synthetic_result (fresh k) (tc_id c) conv) (\<lambda>m.
          bind_res (expected_results fresh conv messages indexes cs moved True (Suc k))
            (\<lambda>(expected, r). Inr (m # expected, r))))"

text \<open>The assistant message itself: calls without an id are stripped, and a message of which nothing is
  left is dropped.\<close>

definition stripped_message :: "string \<times> real \<Rightarrow> llm_message \<Rightarrow> (llm_message list) res" where
  "stripped_message minted m =
     (let kept = filter (\<lambda>c. tc_id c \<noteq> []) (calls_of m) in
      if length kept = length (calls_of m) then Inr [m]
      else if kept \<noteq> [] then bind_res (replace_tool_calls minted m (Some kept)) (\<lambda>m'. Inr [m'])
      else if \<not> jtruthy (lm_content m) then Inr []
      else bind_res (replace_tool_calls minted m None) (\<lambda>m'. Inr [m']))"

fun repair_loop ::
    "(nat \<Rightarrow> string \<times> real) \<Rightarrow> string \<Rightarrow> llm_message list \<Rightarrow> (string \<times> nat) list \<Rightarrow> nat \<Rightarrow> llm_message list \<Rightarrow>
     nat list \<Rightarrow> bool \<Rightarrow> nat \<Rightarrow> (llm_message list \<times> nat list \<times> bool) res" where
  "repair_loop fresh conv messages indexes idx [] moved changed k = Inr ([], moved, changed)"
| "repair_loop fresh conv messages indexes idx (m # ms) moved changed k =
     (if idx \<in> set moved then repair_loop fresh conv messages indexes (Suc idx) ms moved changed k
      else if is_tool m
      then repair_loop fresh conv messages indexes (Suc idx) ms moved
             (changed \<or> map_of indexes (result_id m) \<noteq> Some idx) k
      else if calls_of m = []
      then bind_res (repair_loop fresh conv messages indexes (Suc idx) ms moved changed k)
             (\<lambda>(rest, r). Inr (m # rest, r))
      else bind_res (expected_results fresh conv messages indexes (calls_of m) moved changed k)
        (\<lambda>(expected, moved', changed', k').
           bind_res (stripped_message (fresh k') m) (\<lambda>head.
           bind_res (repair_loop fresh conv messages indexes (Suc idx) ms moved'
                       (changed' \<or> take (length expected) ms \<noteq> expected) (Suc k'))
             (\<lambda>(rest, r). Inr (head @ expected @ rest, r)))))"

definition repair_tool_sequence ::
    "(nat \<Rightarrow> string \<times> real) \<Rightarrow> llm_message list \<Rightarrow> string \<Rightarrow> (llm_message list \<times> bool) res" where
  "repair_tool_sequence fresh messages conv =
     (let indexes = result_indexes 0 messages [] in
      bind_res (repair_loop fresh conv messages indexes 0 messages [] False 0) (\<lambda>(rebuilt, moved, changed).
        Inr (rebuilt, changed \<or> (\<exists>j \<in> set (map snd indexes). j \<notin> set moved))))"

subsection \<open>What a provider accepts\<close>

function provider_valid :: "llm_message list \<Rightarrow> bool" where
  "provider_valid [] = True"
| "provider_valid (m # ms) =
     (\<not> is_tool m \<and> length (calls_of m) \<le> length ms \<and>
      list_all2 (\<lambda>c r. tc_id c \<noteq> [] \<and> is_tool r \<and> lm_tool_call_id r = Some (tc_id c)) (calls_of m) (take (length (calls_of m)) ms) \<and>
      provider_valid (drop (length (calls_of m)) ms))"
  by pat_completeness auto
termination by (relation "measure length") auto

declare provider_valid.simps(2) [simp del]

lemma provider_valid_block:
  assumes "\<not> is_tool m" "list_all2 (\<lambda>c r. tc_id c \<noteq> [] \<and> is_tool r \<and> lm_tool_call_id r = Some (tc_id c)) (calls_of m) rs" "provider_valid ms"
  shows "provider_valid (m # rs @ ms)"
proof -
  have len: "length (calls_of m) = length rs" using assms(2) by (rule list_all2_lengthD)
  have "take (length (calls_of m)) (rs @ ms) = rs" "drop (length (calls_of m)) (rs @ ms) = ms"
    "length (calls_of m) \<le> length (rs @ ms)" by (simp_all add: len)
  then show ?thesis by (simp only: provider_valid.simps(2) assms simp_thms)
qed

text \<open>The indexes name tool messages, and the first one for each id.\<close>

lemma result_indexes_sound:
  assumes "\<forall>(i, j) \<in> set acc. P i j" "\<And>n. n < length ms \<Longrightarrow> is_tool (ms ! n) \<Longrightarrow> result_id (ms ! n) \<noteq> [] \<Longrightarrow> P (result_id (ms ! n)) (idx + n)"
  shows "\<forall>(i, j) \<in> set (result_indexes idx ms acc). P i j"
  using assms
proof (induction idx ms acc rule: result_indexes.induct)
  case (2 idx m ms acc)
  let ?acc = "if is_tool m \<and> result_id m \<noteq> [] \<and> map_of acc (result_id m) = None then acc @ [(result_id m, idx)] else acc"
  have "P (result_id m) idx" if "is_tool m" "result_id m \<noteq> []" using that 2(3) [of 0] by simp
  then have acc: "\<forall>(i, j) \<in> set ?acc. P i j" using 2(2) by auto
  have rest: "P (result_id (ms ! n)) (Suc idx + n)" if "n < length ms" "is_tool (ms ! n)" "result_id (ms ! n) \<noteq> []" for n
    using that 2(3) [of "Suc n"] by simp
  show ?case unfolding result_indexes.simps by (rule 2(1) [OF acc rest])
qed simp

lemma result_indexes_tools:
  assumes "map_of (result_indexes 0 messages []) i = Some j"
  shows "j < length messages \<and> is_tool (messages ! j) \<and> result_id (messages ! j) = i \<and> lm_tool_call_id (messages ! j) = Some i"
proof -
  have "\<forall>(i, j) \<in> set (result_indexes 0 messages []).
      j < length messages \<and> is_tool (messages ! j) \<and> result_id (messages ! j) = i \<and> lm_tool_call_id (messages ! j) = Some i"
    by (rule result_indexes_sound) (auto simp: result_id_def split: option.splits)
  then show ?thesis using map_of_SomeD [OF assms] by auto
qed

lemma synthetic_result_tool:
  assumes "synthetic_result minted i conv = Inr m"
  shows "is_tool m" "lm_tool_call_id m = Some i"
  using assms by (auto simp: synthetic_result_def message_post_init_def is_tool_def split: if_splits)

text \<open>The three things that happen to a call: stripped, answered, or given a placeholder.\<close>

lemma expected_results_cases:
  assumes "expected_results fresh conv messages indexes (c # cs) moved changed k = Inr (expected, moved', changed', k')"
  obtains (strip) "tc_id c = []" "expected_results fresh conv messages indexes cs moved True k = Inr (expected, moved', changed', k')"
  | (answer) j rest where "tc_id c \<noteq> []" "map_of indexes (tc_id c) = Some j" "j \<notin> set moved" "expected = messages ! j # rest"
      "expected_results fresh conv messages indexes cs (j # moved) changed k = Inr (rest, moved', changed', k')"
  | (mint) m rest where "tc_id c \<noteq> []" "\<forall>j. map_of indexes (tc_id c) = Some j \<longrightarrow> j \<in> set moved" "expected = m # rest"
      "synthetic_result (fresh k) (tc_id c) conv = Inr m"
      "expected_results fresh conv messages indexes cs moved True (Suc k) = Inr (rest, moved', changed', k')"
proof (cases "tc_id c = []")
  case True
  then show thesis using assms strip by simp
next
  case False
  have minted: thesis if no: "\<forall>j. map_of indexes (tc_id c) = Some j \<longrightarrow> j \<in> set moved"
  proof -
    obtain m rest where "synthetic_result (fresh k) (tc_id c) conv = Inr m" "expected = m # rest"
      "expected_results fresh conv messages indexes cs moved True (Suc k) = Inr (rest, moved', changed', k')"
      using assms False no by (cases "map_of indexes (tc_id c)") (auto simp: bind_res_Inr_iff)
    then show thesis using mint [OF False no] by blast
  qed
  show thesis
  proof (cases "map_of indexes (tc_id c)")
    case (Some j)
    show thesis
    proof (cases "j \<in> set moved")
      case True
      then show thesis using minted Some by simp
    next
      case new: False
      obtain rest where "expected_results fresh conv messages indexes cs (j # moved) changed k = Inr (rest, moved', changed', k')"
        "expected = messages ! j # rest" using assms False Some new by (auto simp: bind_res_Inr_iff)
      then show thesis using answer [OF False Some new] by blast
    qed
  qed (use minted in simp)
qed

lemma expected_results_valid:
  assumes "expected_results fresh conv messages (result_indexes 0 messages []) cs moved changed k = Inr (expected, moved', changed', k')"
  shows "list_all2 (\<lambda>c r. tc_id c \<noteq> [] \<and> is_tool r \<and> lm_tool_call_id r = Some (tc_id c)) (filter (\<lambda>c. tc_id c \<noteq> []) cs) expected"
  using assms
proof (induction cs arbitrary: expected moved changed k)
  case (Cons c cs)
  from Cons.prems show ?case
    by (cases rule: expected_results_cases) (use Cons.IH in \<open>auto simp: synthetic_result_tool dest: result_indexes_tools\<close>)
qed simp

text \<open>What becomes of a message that is not a tool result.\<close>

definition cleaned :: "llm_message \<Rightarrow> llm_message \<Rightarrow> bool" where
  "cleaned m m' \<longleftrightarrow> (\<exists>cs i t. m' = m\<lparr>lm_tool_calls := cs, lm_msg_id := i, lm_timestamp := t\<rparr> \<and>
     calls_of m' = filter (\<lambda>c. tc_id c \<noteq> []) (calls_of m) \<and> (lm_msg_id m \<noteq> [] \<longrightarrow> i = lm_msg_id m) \<and> (lm_timestamp m \<noteq> 0 \<longrightarrow> t = lm_timestamp m))"

definition has_content :: "llm_message \<Rightarrow> bool" where
  "has_content m \<longleftrightarrow> calls_of m = [] \<or> filter (\<lambda>c. tc_id c \<noteq> []) (calls_of m) \<noteq> [] \<or> jtruthy (lm_content m)"

lemma calls_of_role: "calls_of m \<noteq> [] \<Longrightarrow> lm_role m = ''assistant'' \<and> lm_tool_calls m = Some (calls_of m)"
  by (auto simp: calls_of_def split: if_splits option.splits)

lemma cleaned_refl:
  assumes "filter (\<lambda>c. tc_id c \<noteq> []) (calls_of m) = calls_of m"
  shows "cleaned m m"
  unfolding cleaned_def using assms
  by (intro exI [of _ "lm_tool_calls m"] exI [of _ "lm_msg_id m"] exI [of _ "lm_timestamp m"]) simp

lemma stripped_message_cleaned:
  assumes "stripped_message minted m = Inr head" "calls_of m \<noteq> []"
  shows "if has_content m then \<exists>m'. head = [m'] \<and> cleaned m m' else head = []"
proof -
  let ?kept = "filter (\<lambda>c. tc_id c \<noteq> []) (calls_of m)"
  have role: "lm_role m = ''assistant''" using calls_of_role [OF assms(2)] by simp
  have repl: "cleaned m m'" if "replace_tool_calls minted m cs = Inr m'" "(case cs of None \<Rightarrow> [] | Some xs \<Rightarrow> xs) = ?kept" for cs m'
    using that role unfolding cleaned_def replace_tool_calls_def message_post_init_def
    by (auto simp: calls_of_def split: if_splits)
  show ?thesis
  proof (cases "length ?kept = length (calls_of m)")
    case True
    then have "?kept = calls_of m" by (metis filter_True length_filter_less less_irrefl)
    then show ?thesis using assms cleaned_refl by (auto simp: stripped_message_def has_content_def Let_def)
  next
    case False
    then show ?thesis using assms repl [of "Some ?kept"] repl [of None]
      by (auto simp: stripped_message_def has_content_def Let_def bind_res_Inr_iff split: if_splits)
  qed
qed

lemma cleaned_tool: "cleaned m m' \<Longrightarrow> is_tool m' = is_tool m"
  by (auto simp: cleaned_def is_tool_def)

text \<open>Which indexes a block of calls moves, and where its results come from.\<close>

lemma expected_results_moved:
  assumes "expected_results fresh conv messages indexes cs moved changed k = Inr (expected, moved', changed', k')"
  shows "set moved \<subseteq> set moved'" "\<forall>j \<in> set moved'. j \<in> set moved \<or> (\<exists>i. map_of indexes i = Some j) \<and> messages ! j \<in> set expected"
    "\<forall>c \<in> set cs. \<forall>j. tc_id c \<noteq> [] \<longrightarrow> map_of indexes (tc_id c) = Some j \<longrightarrow> j \<in> set moved'"
    "\<forall>r \<in> set expected. lm_content r = JStr UNAVAILABLE_RESULT \<or> (\<exists>i j. map_of indexes i = Some j \<and> r = messages ! j)"
  using assms
proof (induction cs arbitrary: expected moved changed k)
  case (Cons c cs)
  have syn: "lm_content m = JStr UNAVAILABLE_RESULT" if "synthetic_result minted i conv = Inr m" for minted i m
    using that by (auto simp: synthetic_result_def message_post_init_def split: if_splits)
  {
    case 1
    then show ?case
    proof (cases rule: expected_results_cases)
      case strip
      then show ?thesis using Cons.IH(1) [OF strip(2)] by simp
    next
      case (answer j rest)
      then show ?thesis using Cons.IH(1) [OF answer(5)] by auto
    next
      case (mint m rest)
      then show ?thesis using Cons.IH(1) [OF mint(5)] by auto
    qed
  next
    case 2
    then show ?case
    proof (cases rule: expected_results_cases)
      case strip
      then show ?thesis using Cons.IH(2) [OF strip(2)] by simp
    next
      case (answer j rest)
      then show ?thesis using Cons.IH(2) [OF answer(5)] by auto
    next
      case (mint m rest)
      then show ?thesis using Cons.IH(2) [OF mint(5)] by auto
    qed
  next
    case 3
    then show ?case
    proof (cases rule: expected_results_cases)
      case (answer j rest)
      then show ?thesis using Cons.IH(1,3) [OF answer(5)] by auto
    next
      case (mint m rest)
      then show ?thesis using Cons.IH(1,3) [OF mint(5)] by auto
    qed (use Cons.IH(3) in auto)
  next
    case 4
    then show ?case
    proof (cases rule: expected_results_cases)
      case strip
      then show ?thesis using Cons.IH(4) [OF strip(2)] by simp
    next
      case (answer j rest)
      then show ?thesis using Cons.IH(4) [OF answer(5)] by auto
    next
      case (mint m rest)
      then show ?thesis using Cons.IH(4) [OF mint(5)] syn [OF mint(4)] by auto
    qed
  }
qed simp_all

lemma repair_loop_cases:
  assumes "repair_loop fresh conv messages indexes idx (m # ms) moved changed k = Inr (new, moved', changed')"
  obtains (skip) "idx \<in> set moved" "repair_loop fresh conv messages indexes (Suc idx) ms moved changed k = Inr (new, moved', changed')"
  | (result) "idx \<notin> set moved" "is_tool m"
      "repair_loop fresh conv messages indexes (Suc idx) ms moved (changed \<or> map_of indexes (result_id m) \<noteq> Some idx) k = Inr (new, moved', changed')"
  | (plain) rest where "\<not> is_tool m" "calls_of m = []" "new = m # rest"
      "repair_loop fresh conv messages indexes (Suc idx) ms moved changed k = Inr (rest, moved', changed')"
  | (block) expected moved1 changed1 k1 head rest where "\<not> is_tool m" "calls_of m \<noteq> []"
      "expected_results fresh conv messages indexes (calls_of m) moved changed k = Inr (expected, moved1, changed1, k1)"
      "stripped_message (fresh k1) m = Inr head" "new = head @ expected @ rest"
      "repair_loop fresh conv messages indexes (Suc idx) ms moved1 (changed1 \<or> take (length expected) ms \<noteq> expected) (Suc k1) = Inr (rest, moved', changed')"
proof (cases "idx \<in> set moved \<or> is_tool m \<or> calls_of m = []")
  case True
  then consider "idx \<in> set moved" | "idx \<notin> set moved" "is_tool m" | "idx \<notin> set moved" "\<not> is_tool m" "calls_of m = []" by blast
  then show thesis
  proof cases
    case 3
    then obtain rest where "repair_loop fresh conv messages indexes (Suc idx) ms moved changed k = Inr (rest, moved', changed')" "new = m # rest"
      using assms by (auto simp: bind_res_Inr_iff)
    then show thesis using plain 3 by blast
  qed (use assms skip result in auto)
next
  case False
  then obtain expected moved1 changed1 k1 head rest where
      "expected_results fresh conv messages indexes (calls_of m) moved changed k = Inr (expected, moved1, changed1, k1)"
      "stripped_message (fresh k1) m = Inr head" "new = head @ expected @ rest"
      "repair_loop fresh conv messages indexes (Suc idx) ms moved1 (changed1 \<or> take (length expected) ms \<noteq> expected) (Suc k1) = Inr (rest, moved', changed')"
    using assms by (auto simp: bind_res_Inr_iff)
  then show thesis using block False by blast
qed

definition kept_messages :: "llm_message list \<Rightarrow> llm_message list" where
  "kept_messages ms = filter (\<lambda>m. \<not> is_tool m \<and> has_content m) ms"

lemma block_valid:
  assumes "expected_results fresh conv messages (result_indexes 0 messages []) (calls_of m) moved changed k = Inr (expected, moved1, changed1, k1)"
    and "stripped_message minted m = Inr head" "calls_of m \<noteq> []" "\<not> is_tool m" "provider_valid rest"
  shows "provider_valid (head @ expected @ rest)" "filter (\<lambda>m. \<not> is_tool m) (head @ expected) = head" "list_all2 cleaned (kept_messages [m]) head"
proof -
  note valid = expected_results_valid [OF assms(1)]
  have tools: "\<forall>r \<in> set expected. is_tool r" using valid by (auto simp: list_all2_conv_all_nth in_set_conv_nth)
  have head: "if has_content m then \<exists>m'. head = [m'] \<and> cleaned m m' else head = []"
    using stripped_message_cleaned [OF assms(2,3)] .
  have calls: "calls_of m' = filter (\<lambda>c. tc_id c \<noteq> []) (calls_of m)" if "cleaned m m'" for m' using that by (auto simp: cleaned_def)
  show "list_all2 cleaned (kept_messages [m]) head" using head assms(4) by (auto simp: kept_messages_def split: if_splits)
  show "filter (\<lambda>m. \<not> is_tool m) (head @ expected) = head"
    using head tools assms(4) cleaned_tool by (auto simp: filter_empty_conv split: if_splits)
  show "provider_valid (head @ expected @ rest)"
  proof (cases "has_content m")
    case True
    then obtain m' where m': "head = [m']" "cleaned m m'" using head by auto
    have "provider_valid (m' # expected @ rest)"
      using valid assms(4,5) cleaned_tool [OF m'(2)] by (intro provider_valid_block) (simp_all add: calls [OF m'(2)])
    then show ?thesis using m' by simp
  next
    case False
    then have "expected = []" using valid by (auto simp: has_content_def)
    then show ?thesis using head False assms(5) by simp
  qed
qed

lemma repair_loop_valid:
  assumes "repair_loop fresh conv messages (result_indexes 0 messages []) idx ms moved changed k = Inr (new, moved', changed')"
    and "ms = drop idx messages" "\<forall>j \<in> set moved. is_tool (messages ! j)"
  shows "provider_valid new \<and> list_all2 cleaned (kept_messages ms) (filter (\<lambda>m. \<not> is_tool m) new)"
  using assms
proof (induction ms arbitrary: idx moved changed k new)
  case Nil
  then show ?case by (simp add: kept_messages_def)
next
  case (Cons m ms)
  have ms: "ms = drop (Suc idx) messages" "m = messages ! idx" "idx < length messages"
    using Cons.prems(2) by (metis drop_Suc list.sel(3) tl_drop, metis nth_via_drop, metis drop_eq_Nil leI list.distinct(1))
  from Cons.prems(1) show ?case
  proof (cases rule: repair_loop_cases)
    case skip
    then show ?thesis using Cons.IH [OF skip(2) ms(1) Cons.prems(3)] Cons.prems(3) ms(2) by (auto simp: kept_messages_def)
  next
    case result
    then show ?thesis using Cons.IH [OF result(3) ms(1) Cons.prems(3)] by (auto simp: kept_messages_def)
  next
    case (plain rest)
    then have "provider_valid (m # [] @ rest)" using Cons.IH [OF plain(4) ms(1) Cons.prems(3)] by (intro provider_valid_block) auto
    then show ?thesis using plain Cons.IH [OF plain(4) ms(1) Cons.prems(3)] cleaned_refl [of m]
      by (auto simp: kept_messages_def has_content_def)
  next
    case (block expected moved1 changed1 k1 head rest)
    have "\<forall>j \<in> set moved1. is_tool (messages ! j)"
      using expected_results_moved(2) [OF block(3)] Cons.prems(3) result_indexes_tools by blast
    note IH = Cons.IH [OF block(6) ms(1) this]
    note blk = block_valid [OF block(3,4,2,1), of rest]
    have split: "filter (\<lambda>m. \<not> is_tool m) new = head @ filter (\<lambda>m. \<not> is_tool m) rest"
      "kept_messages (m # ms) = kept_messages [m] @ kept_messages ms" using blk(2) IH block(5) by (simp_all add: kept_messages_def)
    show ?thesis unfolding split using blk(1,3) IH block(5) by (auto intro: list_all2_appendI)
  qed
qed

subsection \<open>Persisted results are kept, and an unchanged context is returned as it is\<close>

text \<open>A block of calls that reports no change took one persisted result per call.\<close>

lemma expected_results_unchanged:
  assumes "expected_results fresh conv messages indexes cs moved changed k = Inr (expected, moved', False, k')"
  shows "\<not> changed \<and> (\<forall>c \<in> set cs. tc_id c \<noteq> []) \<and> (\<exists>js. map (\<lambda>c. map_of indexes (tc_id c)) cs = map Some js \<and>
    expected = map ((!) messages) js \<and> set moved' = set js \<union> set moved)"
  using assms
proof (induction cs arbitrary: expected moved changed k)
  case (Cons c cs)
  from Cons.prems show ?case
  proof (cases rule: expected_results_cases)
    case strip
    then show ?thesis using Cons.IH by blast
  next
    case (answer j rest)
    then obtain js where "map (\<lambda>c. map_of indexes (tc_id c)) cs = map Some js" "rest = map ((!) messages) js" "set moved' = set js \<union> set (j # moved)"
      using Cons.IH [OF answer(5)] by blast
    then have "map (\<lambda>c. map_of indexes (tc_id c)) (c # cs) = map Some (j # js)" "expected = map ((!) messages) (j # js)" "set moved' = set (j # js) \<union> set moved"
      using answer by auto
    then show ?thesis using Cons.IH [OF answer(5)] answer(1) by (metis set_ConsD)
  next
    case (mint m rest)
    then show ?thesis using Cons.IH by blast
  qed
qed simp

lemma repair_loop_moved:
  assumes "repair_loop fresh conv messages indexes idx ms moved changed k = Inr (new, moved', changed')"
  shows "set moved \<subseteq> set moved' \<and> (\<forall>j \<in> set moved'. j \<in> set moved \<or> (\<exists>i. map_of indexes i = Some j) \<and> messages ! j \<in> set new) \<and>
    (\<forall>r \<in> set new. is_tool r \<longrightarrow> lm_content r = JStr UNAVAILABLE_RESULT \<or> (\<exists>i j. map_of indexes i = Some j \<and> r = messages ! j)) \<and>
    (changed \<longrightarrow> changed')"
  using assms
proof (induction ms arbitrary: idx moved changed k new)
  case (Cons m ms)
  from Cons.prems show ?case
  proof (cases rule: repair_loop_cases)
    case skip
    then show ?thesis using Cons.IH [OF skip(2)] by blast
  next
    case result
    then show ?thesis using Cons.IH [OF result(3)] by blast
  next
    case (plain rest)
    then show ?thesis using Cons.IH [OF plain(4)] by auto
  next
    case (block expected moved1 changed1 k1 head rest)
    have head: "\<forall>r \<in> set head. \<not> is_tool r"
      using stripped_message_cleaned [OF block(4,2)] block(1) cleaned_tool by (auto split: if_splits)
    have "changed \<longrightarrow> changed1" using block(3) expected_results_unchanged [of fresh conv messages indexes "calls_of m" moved changed k expected moved1 k1]
      by (cases changed1) auto
    then show ?thesis using Cons.IH [OF block(6)] expected_results_moved [OF block(3)] head block(5) by auto
  qed
qed simp

text \<open>A tool message that is not the first one of its id makes the loop report a change.\<close>

lemma repair_loop_duplicate:
  assumes "repair_loop fresh conv messages indexes idx ms moved changed k = Inr (new, moved', changed')"
    and "ms = drop idx messages" "idx \<le> q" "q < length messages" "is_tool (messages ! q)" "map_of indexes (result_id (messages ! q)) \<noteq> Some q"
    and "\<And>i j. map_of indexes i = Some j \<Longrightarrow> result_id (messages ! j) = i" "\<forall>j \<in> set moved. \<exists>i. map_of indexes i = Some j"
  shows changed'
  using assms
proof (induction ms arbitrary: idx moved changed k new)
  case Nil
  then show ?case by simp
next
  case (Cons m ms)
  have ms: "ms = drop (Suc idx) messages" "m = messages ! idx"
    using Cons.prems(2) by (metis drop_Suc list.sel(3) tl_drop, metis nth_via_drop)
  have q: "q \<notin> set moved" using Cons.prems(6,7,8) by metis
  from Cons.prems(1) show ?case
  proof (cases rule: repair_loop_cases)
    case skip
    then have "Suc idx \<le> q" using q Cons.prems(3) by (metis le_neq_implies_less Suc_leI)
    then show ?thesis using Cons.IH [OF skip(2) ms(1) _ Cons.prems(4-8)] by blast
  next
    case result
    show ?thesis
    proof (cases "idx = q")
      case True
      then show ?thesis using repair_loop_moved [OF result(3)] Cons.prems(6) ms(2) by simp
    next
      case False
      then show ?thesis using Cons.IH [OF result(3) ms(1) _ Cons.prems(4-8)] Cons.prems(3) by simp
    qed
  next
    case (plain rest)
    then have "idx \<noteq> q" using Cons.prems(5) ms(2) by auto
    then show ?thesis using Cons.IH [OF plain(4) ms(1) _ Cons.prems(4-8)] Cons.prems(3) by simp
  next
    case (block expected moved1 changed1 k1 head rest)
    then have "idx \<noteq> q" using Cons.prems(5) ms(2) by auto
    moreover have "\<forall>j \<in> set moved1. \<exists>i. map_of indexes i = Some j"
      using expected_results_moved(2) [OF block(3)] Cons.prems(8) by blast
    ultimately show ?thesis using Cons.IH [OF block(6) ms(1) _ Cons.prems(4-7)] Cons.prems(3) by simp
  qed
qed

definition indexes_ok :: "llm_message list \<Rightarrow> (string \<times> nat) list \<Rightarrow> bool" where
  "indexes_ok messages indexes \<longleftrightarrow> (\<forall>i j. map_of indexes i = Some j \<longrightarrow>
     j < length messages \<and> is_tool (messages ! j) \<and> result_id (messages ! j) = i)"

definition moved_ok :: "(string \<times> nat) list \<Rightarrow> nat list \<Rightarrow> bool" where
  "moved_ok indexes moved \<longleftrightarrow> (\<forall>j \<in> set moved. \<exists>i. map_of indexes i = Some j)"

text \<open>When no change is reported, the results of an assistant message stand right behind it.\<close>

lemma block_in_place:
  assumes ok: "indexes_ok messages indexes" "moved_ok indexes moved"
    and ms: "ms = drop (Suc idx) messages"
    and ex: "expected_results fresh conv messages indexes cs moved changed k = Inr (expected, moved1, changed1, k1)"
    and rest: "repair_loop fresh conv messages indexes (Suc idx) ms moved1 (changed1 \<or> take (length expected) ms \<noteq> expected) k' = Inr (rest, moved', False)"
  shows "expected = take (length cs) ms \<and> length cs \<le> length ms \<and> set moved1 = {Suc idx..<Suc idx + length cs} \<union> set moved \<and>
    \<not> changed \<and> (\<forall>c \<in> set cs. tc_id c \<noteq> []) \<and> moved_ok indexes moved1"
proof -
  have unch: "\<not> changed1" "take (length expected) ms = expected" using repair_loop_moved [OF rest] by auto
  have ex': "expected_results fresh conv messages indexes cs moved changed k = Inr (expected, moved1, False, k1)" using ex unch(1) by simp
  obtain js where js: "map (\<lambda>c. map_of indexes (tc_id c)) cs = map Some js" "expected = map ((!) messages) js" "set moved1 = set js \<union> set moved"
    using expected_results_unchanged [OF ex'] by blast
  have len: "length js = length cs" using js(1) by (metis length_map)
  have lms: "length cs \<le> length ms" using unch(2) js(2) len by (metis length_map length_take min.cobounded1)
  have ok1: "moved_ok indexes moved1" using expected_results_moved(2) [OF ex] ok(2) unfolding moved_ok_def by blast
  have "js ! p = Suc idx + p" if p: "p < length cs" for p
  proof (rule ccontr)
    let ?q = "Suc idx + p"
    assume ne: "js ! p \<noteq> ?q"
    have idp: "map_of indexes (tc_id (cs ! p)) = Some (js ! p)" using js(1) p len by (metis nth_map)
    have q: "?q < length messages" using p lms ms by simp
    have "messages ! ?q = ms ! p" using p lms ms by simp
    also have "ms ! p = expected ! p" using unch(2) p len js(2) by (metis length_map nth_take)
    finally have same: "messages ! ?q = messages ! (js ! p)" using js(2) p len by simp
    have tool: "is_tool (messages ! ?q)" "result_id (messages ! ?q) = tc_id (cs ! p)" using same ok(1) idp by (auto simp: indexes_ok_def)
    have "map_of indexes (result_id (messages ! ?q)) \<noteq> Some ?q" using tool(2) idp ne by simp
    then show False
      using repair_loop_duplicate [OF rest ms _ q tool(1)] ok ok1 unfolding indexes_ok_def moved_ok_def by auto
  qed
  then have "js = [Suc idx..<Suc idx + length cs]" using len by (intro nth_equalityI) (auto simp del: upt_Suc)
  then have "set js = {Suc idx..<Suc idx + length cs}" by (simp del: upt_Suc)
  then show ?thesis using js len lms unch expected_results_unchanged [OF ex'] ok1 by simp
qed

lemma repair_loop_late:
  assumes "repair_loop fresh conv messages indexes idx ms moved changed k = Inr (new, moved', False)"
    and "indexes_ok messages indexes" "moved_ok indexes moved" "ms = drop idx messages" "j < idx" "j \<in> set moved'"
  shows "j \<in> set moved"
  using assms
proof (induction ms arbitrary: idx moved changed k new)
  case (Cons m ms)
  have ms: "ms = drop (Suc idx) messages" using Cons.prems(4) by (metis drop_Suc list.sel(3) tl_drop)
  from Cons.prems(1) show ?case
  proof (cases rule: repair_loop_cases)
    case skip
    then show ?thesis using Cons.IH [OF skip(2) Cons.prems(2,3) ms] Cons.prems(5,6) by simp
  next
    case result
    then show ?thesis using Cons.IH [OF result(3) Cons.prems(2,3) ms] Cons.prems(5,6) by simp
  next
    case (plain rest)
    then show ?thesis using Cons.IH [OF plain(4) Cons.prems(2,3) ms] Cons.prems(5,6) by simp
  next
    case (block expected moved1 changed1 k1 head rest)
    note place = block_in_place [OF Cons.prems(2,3) ms block(3,6)]
    then have "j \<in> set moved1" using Cons.IH [OF block(6) Cons.prems(2) _ ms] Cons.prems(5,6) by simp
    then show ?thesis using place Cons.prems(5) by auto
  qed
qed simp

lemma repair_loop_identity:
  assumes "repair_loop fresh conv messages indexes idx ms moved changed k = Inr (new, moved', False)"
    and "indexes_ok messages indexes" "moved_ok indexes moved" "ms = drop idx messages"
    and "\<forall>i j. map_of indexes i = Some j \<longrightarrow> j \<in> set moved'" "set moved \<inter> {idx..} = {idx..<idx + e}" "idx + e \<le> length messages"
  shows "new = drop (idx + e) messages"
  using assms
proof (induction ms arbitrary: idx moved changed k new e)
  case Nil
  then show ?case by simp
next
  case (Cons m ms)
  have ms: "ms = drop (Suc idx) messages" "m = messages ! idx" "idx < length messages"
    using Cons.prems(4) by (metis drop_Suc list.sel(3) tl_drop, metis nth_via_drop, metis drop_eq_Nil leI list.distinct(1))
  have inside: "x \<in> set moved \<longleftrightarrow> x < idx + e" if "idx \<le> x" for x
    using arg_cong [OF Cons.prems(6), of "\<lambda>S. x \<in> S"] that by simp
  then have window: "idx \<in> set moved \<longleftrightarrow> 0 < e" by simp
  have next0: "set moved \<inter> {Suc idx..} = {Suc idx..<Suc idx + 0}" if "e = 0" using inside that by fastforce
  from Cons.prems(1) show ?case
  proof (cases rule: repair_loop_cases)
    case skip
    then have e: "0 < e" using window by simp
    have "set moved \<inter> {Suc idx..} = {Suc idx..<Suc idx + (e - 1)}" using inside e by fastforce
    then have "new = drop (Suc idx + (e - 1)) messages"
      using e Cons.prems(7) by (intro Cons.IH [OF skip(2) Cons.prems(2,3) ms(1) Cons.prems(5)]) simp_all
    then show ?thesis using e by simp
  next
    case result
    have "map_of indexes (result_id m) = Some idx" using repair_loop_moved [OF result(3)] by auto
    then have "idx \<in> set moved'" using Cons.prems(5) by blast
    then have "idx \<in> set moved" using repair_loop_late [OF result(3) Cons.prems(2,3) ms(1)] by simp
    then show ?thesis using result(1) by simp
  next
    case (plain rest)
    then have "e = 0" using window Cons.prems(3,2) ms(2) by (auto simp: moved_ok_def indexes_ok_def)
    moreover have "rest = drop (Suc idx + 0) messages"
      using ms(3) next0 calculation by (intro Cons.IH [OF plain(4) Cons.prems(2,3) ms(1) Cons.prems(5)]) simp_all
    ultimately show ?thesis using plain(3) ms by (simp add: Cons_nth_drop_Suc)
  next
    case (block expected moved1 changed1 k1 head rest)
    have e0: "e = 0" using block(1) window Cons.prems(3,2) ms(2) by (auto simp: moved_ok_def indexes_ok_def)
    note place = block_in_place [OF Cons.prems(2,3) ms(1) block(3,6)]
    let ?n = "length (calls_of m)"
    have "set moved1 \<inter> {Suc idx..} = {Suc idx..<Suc idx + ?n}" using place next0 [OF e0] by auto
    moreover have "?n \<le> length messages - Suc idx" using place ms(1) by simp
    then have "Suc idx + ?n \<le> length messages" using ms(3) by arith
    ultimately have "rest = drop (Suc idx + ?n) messages"
      using place by (intro Cons.IH [OF block(6) Cons.prems(2) _ ms(1) Cons.prems(5)]) simp_all
    moreover have "head = [m]" using place block(4) by (simp add: stripped_message_def Let_def)
    moreover have "expected = take ?n ms" using place by simp
    moreover have "take ?n ms @ drop (Suc idx + ?n) messages = ms" using ms(1) by (metis add.commute append_take_drop_id drop_drop)
    ultimately show ?thesis using block(5) ms e0 by (simp add: Cons_nth_drop_Suc)
  qed
qed

subsection \<open>The repair\<close>

lemma result_indexes_ok: "indexes_ok messages (result_indexes 0 messages [])"
  using result_indexes_tools unfolding indexes_ok_def by blast

lemma result_indexes_complete:
  assumes "map_of (result_indexes idx ms acc) i = None"
  shows "map_of acc i = None \<and> (\<forall>m \<in> set ms. is_tool m \<longrightarrow> result_id m \<noteq> [] \<longrightarrow> result_id m \<noteq> i)"
  using assms
proof (induction idx ms acc rule: result_indexes.induct)
  case (2 idx m ms acc)
  have "map_of (xs @ [(x, j)]) i = None \<longleftrightarrow> map_of xs i = None \<and> x \<noteq> i" for xs x and j :: nat
    by (auto simp: map_add_def split: option.splits)
  then show ?case using 2 by (auto split: if_splits)
qed simp

lemma repair_loop_answers:
  assumes "repair_loop fresh conv messages indexes idx ms moved changed k = Inr (new, moved', changed')"
    and "\<forall>j \<in> set moved. is_tool (messages ! j)" "indexes_ok messages indexes" "ms = drop idx messages"
    and "m \<in> set ms" "\<not> is_tool m" "c \<in> set (calls_of m)" "tc_id c \<noteq> []" "map_of indexes (tc_id c) = Some j"
  shows "j \<in> set moved'"
  using assms
proof (induction ms arbitrary: idx moved changed k new)
  case (Cons x ms)
  have ms: "ms = drop (Suc idx) messages" "x = messages ! idx"
    using Cons.prems(4) by (metis drop_Suc list.sel(3) tl_drop, metis nth_via_drop)
  from Cons.prems(1) show ?case
  proof (cases rule: repair_loop_cases)
    case skip
    then have "m \<in> set ms" using Cons.prems(2,5,6) ms(2) by auto
    then show ?thesis using Cons.IH [OF skip(2) Cons.prems(2,3) ms(1)] Cons.prems(6-9) by blast
  next
    case result
    then have "m \<in> set ms" using Cons.prems(5,6) by auto
    then show ?thesis using Cons.IH [OF result(3) Cons.prems(2,3) ms(1)] Cons.prems(6-9) by blast
  next
    case (plain rest)
    then have "m \<in> set ms" using Cons.prems(5,7) by auto
    then show ?thesis using Cons.IH [OF plain(4) Cons.prems(2,3) ms(1)] Cons.prems(6-9) by blast
  next
    case (block expected moved1 changed1 k1 head rest)
    have tools: "\<forall>j \<in> set moved1. is_tool (messages ! j)"
      using expected_results_moved(2) [OF block(3)] Cons.prems(2,3) unfolding indexes_ok_def by blast
    show ?thesis
    proof (cases "m = x")
      case True
      then have "j \<in> set moved1" using expected_results_moved(3) [OF block(3)] Cons.prems(7-9) by blast
      then show ?thesis using repair_loop_moved [OF block(6)] by blast
    next
      case False
      then have "m \<in> set ms" using Cons.prems(5) by simp
      then show ?thesis using Cons.IH [OF block(6) tools Cons.prems(3) ms(1)] Cons.prems(6-9) by blast
    qed
  qed
qed simp

lemma repair_loop_returns:
  assumes "conv \<noteq> []" "\<forall>m \<in> set ms. lm_conversation_id m \<noteq> []"
  shows "\<exists>r. repair_loop fresh conv messages indexes idx ms moved changed k = Inr r"
  using assms(2)
proof (induction ms arbitrary: idx moved changed k)
  case (Cons m ms)
  have exp: "\<exists>r. expected_results fresh conv messages indexes cs moved changed k = Inr r" for cs moved changed k
    using assms(1)
    by (induction cs arbitrary: moved changed k) (auto simp: synthetic_result_def message_post_init_def bind_res_def split: option.splits sum.splits; metis sum.distinct(1))+
  have strip: "\<exists>r. stripped_message minted m = Inr r" for minted
    using Cons.prems by (auto simp: stripped_message_def Let_def replace_tool_calls_def message_post_init_def)
  have rest: "\<exists>r. repair_loop fresh conv messages indexes (Suc idx) ms moved changed k = Inr r" for moved changed k
    using Cons by simp
  show ?case
  proof (cases "idx \<in> set moved \<or> is_tool m \<or> calls_of m = []")
    case True
    obtain out where "repair_loop fresh conv messages indexes (Suc idx) ms moved changed k = Inr out" using rest by blast
    then show ?thesis using True rest by (cases out) auto
  next
    case False
    obtain expected moved1 changed1 k1 where ex: "expected_results fresh conv messages indexes (calls_of m) moved changed k = Inr (expected, moved1, changed1, k1)"
      using exp [of "calls_of m" moved changed k] by (metis prod_cases4)
    obtain head where hd: "stripped_message (fresh k1) m = Inr head" using strip by blast
    obtain r where "repair_loop fresh conv messages indexes (Suc idx) ms moved1 (changed1 \<or> take (length expected) ms \<noteq> expected) (Suc k1) = Inr r"
      using rest by blast
    then show ?thesis using False ex hd by (simp add: split_beta)
  qed
qed simp

definition demo_message :: "string \<Rightarrow> llm_tool_call list option \<Rightarrow> string option \<Rightarrow> llm_message" where
  "demo_message role calls call_id = \<lparr>lm_role = role, lm_content = JStr ''text'', lm_tool_calls = calls,
     lm_tool_call_id = call_id, lm_source = JNull, lm_msg_id = ''m'', lm_display_only = False, lm_thinking = [],
     lm_thinking_signature = [], lm_reasoning_item = [], lm_is_error = False, lm_timestamp = 1, lm_seq = 0,
     lm_conversation_id = ''c''\<rparr>"

definition demo_call :: llm_tool_call where
  "demo_call = \<lparr>tc_id = ''k'', tc_name = ''read'', tc_arguments = JDict [], tc_timestamp = 1, tc_origin = []\<rparr>"

text \<open>
  C12: The repaired context is one a provider accepts, and nothing worth keeping is lost.  For messages that
  belong to a conversation the repair returns; in its result every tool message belongs to an assistant
  message, which is followed at once by one tool message per call, in the order of the calls, each call
  with an id.  The other messages stay, in order and unchanged except that calls without an id are
  gone, and only an assistant message of which nothing is left is dropped.  A persisted result is in
  the output whenever a call asks for its id (the earliest one, should there be several), and no other
  text than the placeholder is invented.\<close>

theorem repair_tool_sequence_valid:
  assumes "conv \<noteq> []" "\<forall>m \<in> set messages. lm_conversation_id m \<noteq> []"
  shows "\<exists>rebuilt changed. repair_tool_sequence fresh messages conv = Inr (rebuilt, changed) \<and> provider_valid rebuilt \<and>
    list_all2 cleaned (kept_messages messages) (filter (\<lambda>m. \<not> is_tool m) rebuilt) \<and>
    (\<forall>r \<in> set rebuilt. is_tool r \<longrightarrow> r \<in> set messages \<or> lm_content r = JStr UNAVAILABLE_RESULT) \<and>
    (\<forall>m \<in> set messages. \<forall>c \<in> set (calls_of m). \<forall>r \<in> set messages.
       tc_id c \<noteq> [] \<and> is_tool r \<and> result_id r = tc_id c \<longrightarrow>
       (\<exists>r' \<in> set rebuilt. r' \<in> set messages \<and> is_tool r' \<and> result_id r' = tc_id c))"
proof -
  let ?ix = "result_indexes 0 messages []"
  obtain rebuilt moved changed where run: "repair_loop fresh conv messages ?ix 0 messages [] False 0 = Inr (rebuilt, moved, changed)"
    using repair_loop_returns [OF assms] by (metis prod_cases3)
  have result: "repair_tool_sequence fresh messages conv = Inr (rebuilt, changed \<or> (\<exists>j \<in> set (map snd ?ix). j \<notin> set moved))"
    by (simp add: repair_tool_sequence_def run)
  have valid: "provider_valid rebuilt \<and> list_all2 cleaned (kept_messages messages) (filter (\<lambda>m. \<not> is_tool m) rebuilt)"
    using repair_loop_valid [OF run] by simp
  have origin: "\<forall>r \<in> set rebuilt. is_tool r \<longrightarrow> r \<in> set messages \<or> lm_content r = JStr UNAVAILABLE_RESULT"
    using repair_loop_moved [OF run] result_indexes_ok [of messages] unfolding indexes_ok_def by (metis nth_mem)
  have "\<exists>r' \<in> set rebuilt. r' \<in> set messages \<and> is_tool r' \<and> result_id r' = tc_id c"
    if c: "m \<in> set messages" "c \<in> set (calls_of m)" "r \<in> set messages" "tc_id c \<noteq> []" "is_tool r" "result_id r = tc_id c" for m c r
  proof -
    have "map_of ?ix (tc_id c) \<noteq> None" using result_indexes_complete [of 0 messages "[]" "tc_id c"] c by metis
    then obtain j where j: "map_of ?ix (tc_id c) = Some j" by blast
    have "calls_of m \<noteq> []" using c(2) by (metis empty_iff list.set(1))
    then have "\<not> is_tool m" using calls_of_role by (simp add: is_tool_def)
    then have "j \<in> set moved" using repair_loop_answers [OF run _ result_indexes_ok _ c(1) _ c(2,4) j] by simp
    then have "messages ! j \<in> set rebuilt" using repair_loop_moved [OF run] by auto
    then show ?thesis using j result_indexes_ok [of messages] unfolding indexes_ok_def by (metis nth_mem)
  qed
  then show ?thesis using result valid origin by blast
qed

theorem repair_tool_sequence_valid_witness:
  "let ms = [demo_message ''tool'' None (Some ''k''), demo_message ''assistant'' (Some [demo_call]) None] in
   (\<exists>rebuilt changed. repair_tool_sequence (\<lambda>n. (''x'', 2)) ms ''c'' = Inr (rebuilt, changed) \<and> provider_valid rebuilt) \<and>
   repair_tool_sequence (\<lambda>n. (''x'', 2)) ms ''c'' = Inr (rev ms, True)"
proof -
  let ?ms = "[demo_message ''tool'' None (Some ''k''), demo_message ''assistant'' (Some [demo_call]) None]"
  have "\<forall>m \<in> set ?ms. lm_conversation_id m \<noteq> []" by (simp add: demo_message_def)
  from repair_tool_sequence_valid [OF _ this, of "''c''" "\<lambda>n. (''x'', 2)"]
  have "\<exists>rebuilt changed. repair_tool_sequence (\<lambda>n. (''x'', 2)) ?ms ''c'' = Inr (rebuilt, changed) \<and> provider_valid rebuilt" by blast
  moreover have "repair_tool_sequence (\<lambda>n. (''x'', 2)) ?ms ''c'' = Inr (rev ?ms, True)"
    by (simp add: repair_tool_sequence_def demo_message_def demo_call_def is_tool_def result_id_def calls_of_def stripped_message_def)
  ultimately show ?thesis by (simp add: Let_def)
qed

text \<open>
  A context that needs no repair is returned as it is: when \<open>repair_tool_sequence\<close> reports that it
  changed nothing, its result is the input, so that a caller that keeps its list in that case loses
  nothing; and such a list is one a provider accepts.\<close>

theorem repair_unchanged_is_input:
  assumes "repair_tool_sequence fresh messages conv = Inr (rebuilt, False)"
  shows "rebuilt = messages \<and> provider_valid messages"
proof -
  let ?ix = "result_indexes 0 messages []"
  obtain moved where run: "repair_loop fresh conv messages ?ix 0 messages [] False 0 = Inr (rebuilt, moved, False)"
    and all: "\<forall>j \<in> set (map snd ?ix). j \<in> set moved"
    using assms by (auto simp: repair_tool_sequence_def bind_res_Inr_iff Let_def)
  have "\<forall>i j. map_of ?ix i = Some j \<longrightarrow> j \<in> set moved" using all map_of_SomeD [of ?ix] by (metis image_eqI set_map snd_conv)
  then have "rebuilt = drop (0 + 0) messages"
    by (intro repair_loop_identity [OF run result_indexes_ok _ _ _]) (simp_all add: moved_ok_def)
  then show ?thesis using repair_loop_valid [OF run] by simp
qed

theorem repair_unchanged_is_input_witness:
  "let ms = [demo_message ''assistant'' (Some [demo_call]) None, demo_message ''tool'' None (Some ''k'')] in
   repair_tool_sequence (\<lambda>n. (''x'', 2)) ms ''c'' = Inr (ms, False) \<and> provider_valid ms"
proof -
  let ?ms = "[demo_message ''assistant'' (Some [demo_call]) None, demo_message ''tool'' None (Some ''k'')]"
  have run: "repair_tool_sequence (\<lambda>n. (''x'', 2)) ?ms ''c'' = Inr (?ms, False)"
    by (simp add: repair_tool_sequence_def demo_message_def demo_call_def is_tool_def result_id_def calls_of_def stripped_message_def)
  show ?thesis using repair_unchanged_is_input [OF run] run by (simp add: Let_def)
qed

end
