(* ===== verification/Tool_Approval.thy ===== *)
theory Tool_Approval
  imports Json
begin

section \<open>The tool approval gate\<close>

text \<open>
  \<open>core/tool_approval.py\<close>: which tool calls need a user's approval, and the dialogue that asks for it.
  Arguments are JSON documents with Python's dynamic behaviour: a method called on a value of the wrong type
  raises, a list or an object is not hashable.  \<open>repr_of\<close> is Python's text of a list or an object.
  The tables of the class are the fields of \<open>gate_world\<close>; \<open>gw_extras\<close> is what the conversation
  store keeps for a conversation and a key (\<open>None\<close> when its file does not exist).  Strings are ASCII, so that
  \<open>casefold\<close> is \<open>lower\<close>.
\<close>

subsection \<open>Tables\<close>

definition EXEMPT_TOOLS :: "string list" where
  "EXEMPT_TOOLS = [''recall'', ''semantic_recall'', ''consult_agent'', ''pawflow_help'', ''list_secrets'',
     ''read'', ''list_dir'', ''stat'', ''exists'', ''glob'', ''grep'', ''search'', ''show_file'', ''get_image_model_info'',
     ''web_search'', ''read_history'', ''read_parent_context'', ''conversation_search'', ''read_inbox'',
     ''notify_user'', ''ask_user'', ''request_confirmation'', ''get_tool_schema'', ''compact_result'', ''share_file'',
     ''create_file'']"

definition ALWAYS_ASK :: "string list" where
  "ALWAYS_ASK = [''remote_exec'', ''execute_script'', ''bash'', ''screen'', ''browser_action'', ''browser'',
     ''store_secret'', ''link_identity'', ''create_tool'', ''manage_resource'']"

definition FS_EXEMPT :: "string list" where
  "FS_EXEMPT = [''list_dir'', ''read_file'', ''stat'', ''exists'', ''search'', ''grep'', ''git_status'', ''git_log'', ''git_diff'']"

definition FS_ALWAYS_ASK :: "string list" where
  "FS_ALWAYS_ASK = [''exec'', ''git_push'', ''git_checkout'']"

definition READ_ONLY_ALLOWED :: "string list" where
  "READ_ONLY_ALLOWED = [''read'', ''list_dir'', ''stat'', ''exists'', ''glob'', ''grep'', ''search'', ''show_file'',
     ''recall'', ''semantic_recall'', ''read_history'', ''read_parent_context'', ''conversation_search'', ''read_inbox'',
     ''pawflow_help'', ''get_tool_schema'', ''list_secrets'', ''web_search'', ''notify_user'', ''ask_user'', ''request_confirmation'']"

definition ADVISOR_READ_ONLY_ALLOWED :: "string list" where
  "ADVISOR_READ_ONLY_ALLOWED =
     filter (\<lambda>t. t \<notin> {''notify_user'', ''ask_user'', ''request_confirmation''}) READ_ONLY_ALLOWED"

definition SEE_SCREEN_PATHS :: "string list" where
  "SEE_SCREEN_PATHS = [''screen'', ''screenshot'']"

definition COMMAND_BEARING_TOOLS :: "string list" where
  "COMMAND_BEARING_TOOLS = [''bash'', ''execute_script'', ''monitor'']"

definition TOOL_ALIASES :: "(string, string) dict" where
  "TOOL_ALIASES =
     [(''run_command'', ''bash''), (''shell'', ''bash''), (''execute'', ''bash''), (''run'', ''bash''), (''terminal'', ''bash''),
      (''exec'', ''bash''), (''find_files'', ''glob''), (''list_files'', ''glob''), (''cat'', ''read''), (''view'', ''read''),
      (''open'', ''read''), (''create_file'', ''write''), (''save'', ''write''), (''replace'', ''edit''), (''patch'', ''edit''),
      (''modify'', ''edit''), (''web_fetch'', ''fetch''), (''http'', ''fetch''), (''image'', ''see''), (''image_view'', ''see''),
      (''view_image'', ''see''), (''Task'', ''Agent''), (''Brief'', ''SendUserMessage''), (''KillShell'', ''TaskStop''),
      (''AgentOutputTool'', ''TaskOutput''), (''BashOutputTool'', ''TaskOutput'')]"

definition DANGEROUS_BASH_PATTERNS :: "string list" where
  "DANGEROUS_BASH_PATTERNS =
     [''python'', ''python3'', ''python2'', ''node'', ''deno'', ''bun'', ''tsx'', ''ruby'', ''perl'', ''php'', ''lua'',
      ''npx'', ''bunx'', ''npm run'', ''yarn run'', ''pnpm run'', ''bun run'', ''pip install'', ''pip3 install'',
      ''bash'', ''sh'', ''zsh'', ''fish'', ''eval'', ''exec'', ''source'', ''sudo'', ''su '', ''ssh'', ''scp'', ''rsync'',
      ''rm -rf'', ''rm -r'', ''rmdir'', ''mkfs'', ''dd if='', ''chmod 777'', ''> /dev/'', ''curl | sh'', ''wget | sh'',
      ''curl | bash'', ''wget | bash'', ''curl'', ''wget'', ''nc '', ''netcat'', ''git push --force'', ''git push -f'',
      ''git reset --hard'', ''git clean -f'', ''git checkout -- .'', ''docker run'', ''docker exec'', ''powershell'', ''pwsh'',
      ''cmd /c'', ''wsl'']"

definition CATASTROPHIC_PATTERNS :: "string list" where
  "CATASTROPHIC_PATTERNS =
     [''rm -rf /'', ''rm -rf /*'', ''rm -rf ~'', ''dd if=/dev/zero of=/dev/sd'', ''mkfs.'', '':(){:|:&};:'',
      ''chmod -R 777 /'', ''mv / '', ''mv /* '', ''> /dev/sda'', ''del /f /s /q c:'' @ [CHR 0x5C]]"

definition PROTECTED_PATHS :: "string list" where
  "PROTECTED_PATHS = [''.git/'', ''.git'' @ [CHR 0x5C], ''.env'', ''.env.'', ''.claude/'', ''.claude'' @ [CHR 0x5C],
     ''.vscode/'', ''.vscode'' @ [CHR 0x5C], ''secrets'', ''.credentials'', ''id_rsa'', ''id_ed25519'', ''.ssh/'', ''.npmrc'',
     ''.pypirc'', ''docker-compose'', ''Dockerfile'', ''.github/workflows'']"

definition PATCH_PATH_PREFIXES :: "string list" where
  "PATCH_PATH_PREFIXES = [''*** Add File:'', ''*** Update File:'', ''*** Delete File:'', ''*** Move to:'']"

subsection \<open>Names\<close>

definition normalize_tool_name :: "string \<Rightarrow> string" where
  "normalize_tool_name tool = py_lower (py_strip tool)"

definition escalated_policy_name :: "string \<Rightarrow> string" where
  "escalated_policy_name tool =
     (let policy = normalize_tool_name tool;
          target = normalize_tool_name (dict_get TOOL_ALIASES policy policy)
      in if target \<in> set ALWAYS_ASK then target else policy)"

definition is_command_bearing_tool :: "string \<Rightarrow> bool" where
  "is_command_bearing_tool tool \<longleftrightarrow> escalated_policy_name tool \<in> set COMMAND_BEARING_TOOLS"

subsection \<open>Values of any type\<close>

text \<open>\<open>v in frozenset(texts)\<close>, a string method on \<open>v\<close>, \<open>v or ""\<close>, and \<open>for x in v\<close>.\<close>

definition in_texts :: "json \<Rightarrow> string list \<Rightarrow> bool res" where
  "in_texts v texts = bind_res (hash_res v) (\<lambda>h. Inr (\<exists>t \<in> set texts. h = JStr t))"

definition str_res :: "json \<Rightarrow> string res" where
  "str_res v = (case v of JStr s \<Rightarrow> Inr s | _ \<Rightarrow> Inl (AttributeError ''str method''))"

definition or_empty :: "json \<Rightarrow> json" where
  "or_empty v = (if jtruthy v then v else JStr [])"

definition iter_res :: "json \<Rightarrow> (json list) res" where
  "iter_res v = (case v of
       JList xs \<Rightarrow> Inr xs
     | JStr s \<Rightarrow> Inr (map (\<lambda>c. JStr [c]) s)
     | JDict d \<Rightarrow> Inr (map (\<lambda>(k, _). JStr k) d)
     | _ \<Rightarrow> Inl (TypeError ''not iterable''))"

subsection \<open>Read-only calls\<close>

definition see_path :: "json \<Rightarrow> string res" where
  "see_path arguments =
     bind_res (dict_get_res arguments ''path'' (JStr [])) (\<lambda>v.
       bind_res (str_res (or_empty v)) (\<lambda>s. Inr (py_strip (py_lower s))))"

definition is_read_only_allowed :: "string \<Rightarrow> json \<Rightarrow> bool res" where
  "is_read_only_allowed tool arguments =
     (let policy = normalize_tool_name tool in
      if policy = [] then Inr False
      else if policy \<in> set READ_ONLY_ALLOWED then Inr True
      else if policy = ''filesystem'' \<and> is_dict arguments then in_texts (jget_or arguments ''action'' (JStr [])) FS_EXEMPT
      else if policy = ''see'' \<and> is_dict arguments then
        bind_res (see_path arguments) (\<lambda>p. Inr (p \<notin> set SEE_SCREEN_PATHS))
      else Inr False)"

definition is_advisor_read_only_allowed :: "string \<Rightarrow> json \<Rightarrow> bool res" where
  "is_advisor_read_only_allowed tool arguments =
     (if normalize_tool_name tool \<in> {''notify_user'', ''ask_user''} then Inr False else is_read_only_allowed tool arguments)"

subsection \<open>Commands\<close>

definition is_dangerous_command :: "json \<Rightarrow> bool res" where
  "is_dangerous_command command =
     (if \<not> jtruthy command then Inr False
      else bind_res (str_res command) (\<lambda>s.
        (let cmd = py_strip (py_lower s) in
         Inr ((\<exists>p \<in> set DANGEROUS_BASH_PATTERNS. py_str_in p cmd) \<or>
              py_str_in ''|'' cmd \<and> (\<exists>sh \<in> set [''sh'', ''bash'', ''python'', ''node'']. py_str_in sh cmd)))))"

definition is_catastrophic_command :: "json \<Rightarrow> bool res" where
  "is_catastrophic_command command =
     (if \<not> jtruthy command then Inr False
      else bind_res (str_res command) (\<lambda>s. Inr (\<exists>p \<in> set CATASTROPHIC_PATTERNS. py_str_in p (py_lower (py_strip s)))))"

subsection \<open>Paths\<close>

definition is_protected_path :: "string \<Rightarrow> bool" where
  "is_protected_path path \<longleftrightarrow> path \<noteq> [] \<and>
     (let low = map (\<lambda>c. if c = CHR 0x5C then CHR ''/'' else c) (py_lower path)
      in \<exists>p \<in> set PROTECTED_PATHS. py_str_in (py_lower p) low)"

text \<open>\<open>str.splitlines()\<close>; \<open>\r\n\<close> is one line end.\<close>

definition is_line_end :: "char \<Rightarrow> bool" where
  "is_line_end c \<longleftrightarrow> (let n = (of_char c :: nat) in (10 \<le> n \<and> n \<le> 13) \<or> (28 \<le> n \<and> n \<le> 30))"

fun py_splitlines :: "string \<Rightarrow> string \<Rightarrow> string list" where
  "py_splitlines cur [] = (if cur = [] then [] else [rev cur])"
| "py_splitlines cur (c # cs) =
     (if is_line_end c then
        (case cs of
           [] \<Rightarrow> [rev cur]
         | d # ds \<Rightarrow> if c = CHR 0x0D \<and> d = CHR 0x0A then rev cur # py_splitlines [] ds else rev cur # py_splitlines [] (d # ds))
      else py_splitlines (c # cur) cs)"

text \<open>
  \<open>shlex.split\<close> in its POSIX mode: the states of the scanner are between words, in a word, inside a quotation and after
  a backslash, which returns to the word or to the quotation it stands in.
\<close>

datatype shlex_state = Between | InWord | InQuote char | Escaped "char option"

definition is_quote :: "char \<Rightarrow> bool" where
  "is_quote c \<longleftrightarrow> c = CHR 0x22 \<or> c = CHR 0x27"

definition is_shlex_ws :: "char \<Rightarrow> bool" where
  "is_shlex_ws c \<longleftrightarrow> c \<in> {CHR '' '', CHR 0x09, CHR 0x0D, CHR 0x0A}"

fun shlex_scan :: "shlex_state \<Rightarrow> bool \<Rightarrow> string \<Rightarrow> string \<Rightarrow> (string list) res" where
  "shlex_scan Between quoted token [] = Inr []"
| "shlex_scan Between quoted token (c # cs) =
     (if is_shlex_ws c then shlex_scan Between quoted token cs
      else if c = CHR 0x5C then shlex_scan (Escaped None) quoted token cs
      else if is_quote c then shlex_scan (InQuote c) quoted token cs
      else shlex_scan InWord quoted [c] cs)"
| "shlex_scan InWord quoted token [] = Inr (if token \<noteq> [] \<or> quoted then [token] else [])"
| "shlex_scan InWord quoted token (c # cs) =
     (if is_shlex_ws c then
        (if token \<noteq> [] \<or> quoted then bind_res (shlex_scan Between False [] cs) (\<lambda>rest. Inr (token # rest))
         else shlex_scan Between quoted token cs)
      else if is_quote c then shlex_scan (InQuote c) quoted token cs
      else if c = CHR 0x5C then shlex_scan (Escaped None) quoted token cs
      else shlex_scan InWord quoted (token @ [c]) cs)"
| "shlex_scan (InQuote q) quoted token [] = Inl (ValueError ''No closing quotation'')"
| "shlex_scan (InQuote q) quoted token (c # cs) =
     (if c = q then shlex_scan InWord True token cs
      else if c = CHR 0x5C \<and> q = CHR 0x22 then shlex_scan (Escaped (Some q)) True token cs
      else shlex_scan (InQuote q) True (token @ [c]) cs)"
| "shlex_scan (Escaped back) quoted token [] = Inl (ValueError ''No escaped character'')"
| "shlex_scan (Escaped None) quoted token (c # cs) = shlex_scan InWord quoted (token @ [c]) cs"
| "shlex_scan (Escaped (Some q)) quoted token (c # cs) =
     shlex_scan (InQuote q) quoted (token @ (if c \<noteq> CHR 0x5C \<and> c \<noteq> q then [CHR 0x5C] else []) @ [c]) cs"

definition shlex_split :: "string \<Rightarrow> (string list) res" where
  "shlex_split s = shlex_scan Between False [] s"

definition header_paths :: "string \<Rightarrow> string list" where
  "header_paths line =
     (case find (\<lambda>p. py_startswith line p) PATCH_PATH_PREFIXES of
        Some p \<Rightarrow> (let value = py_strip (drop (length p) line) in if value \<noteq> [] then [value] else [])
      | None \<Rightarrow>
          if py_startswith line ''--- '' \<or> py_startswith line ''+++ '' then
            (let value = py_strip (takeWhile (\<lambda>c. c \<noteq> CHR 0x09) (drop 4 line))
             in if value \<noteq> [] \<and> value \<noteq> ''/dev/null'' then [value] else [])
          else if py_startswith line ''diff --git '' then
            (case shlex_split line of Inl _ \<Rightarrow> [] | Inr parts \<Rightarrow> if length parts \<ge> 4 then take 2 (drop 2 parts) else [])
          else [])"

definition patch_paths :: "(json \<Rightarrow> string) \<Rightarrow> json \<Rightarrow> string list" where
  "patch_paths repr_of patch = concat (map (\<lambda>line. header_paths (py_strip line)) (py_splitlines [] (str_or_empty repr_of patch)))"

definition text_list :: "json \<Rightarrow> string list" where
  "text_list v = (case v of JStr s \<Rightarrow> if s \<noteq> [] then [s] else [] | _ \<Rightarrow> [])"

definition edit_paths :: "json list \<Rightarrow> string list" where
  "edit_paths edits = concat (map (\<lambda>e. if is_dict e then text_list (jget_or e ''path'' JNull) else []) edits)"

definition write_paths :: "(json \<Rightarrow> string) \<Rightarrow> string \<Rightarrow> json \<Rightarrow> (string list) res" where
  "write_paths repr_of action arguments =
     bind_res (dict_get_res arguments ''path'' JNull) (\<lambda>p.
     bind_res (dict_get_res arguments ''file_path'' JNull) (\<lambda>f.
       (let own = text_list p @ text_list f; name = normalize_tool_name action in
        if name = ''batch_edit'' then
          (let edits = jget_or arguments ''edits'' JNull in
           bind_res (iter_res (if jtruthy edits then edits else JList [])) (\<lambda>es. Inr (own @ edit_paths es)))
        else if name = ''apply_patch'' then Inr (own @ patch_paths repr_of (jget_or arguments ''patch'' (JStr [])))
        else Inr own)))"

subsection \<open>Permissions of a conversation and an agent\<close>

record pending_request =
  pr_event :: bool
  pr_effective :: string
  pr_conversation :: string
  pr_agent :: string
  pr_attribution :: json

text \<open>The published request; \<open>aq_catastrophic\<close> stands for the warning put in front of the summary.\<close>

record approval_request =
  aq_request_id :: string
  aq_tool :: string
  aq_catastrophic :: bool
  aq_summary :: string
  aq_agent :: string
  aq_arguments :: json
  aq_attribution :: json

record gate_world =
  gw_pending :: "(string, pending_request) dict"
  gw_results :: "(string, json) dict"
  gw_extras :: "(string, (string, json) dict) dict"
  gw_events :: "(string \<times> approval_request) list"
  gw_advisors :: "string list"

text \<open>
  \<open>ConversationStore.get_extra\<close> and \<open>set_extra\<close>: nothing is read from or written to a conversation that does not
  exist.  A store that fails is treated by the gate like one without the conversation.
\<close>

definition get_extra :: "(string, (string, json) dict) dict \<Rightarrow> string \<Rightarrow> string \<Rightarrow> json" where
  "get_extra extras conv key =
     (case map_of extras conv of None \<Rightarrow> JNull | Some d \<Rightarrow> (case map_of d key of None \<Rightarrow> JNull | Some v \<Rightarrow> v))"

definition set_extra :: "(string, (string, json) dict) dict \<Rightarrow> string \<Rightarrow> string \<Rightarrow> json \<Rightarrow> (string, (string, json) dict) dict" where
  "set_extra extras conv key v =
     (case map_of extras conv of None \<Rightarrow> extras | Some d \<Rightarrow> AList.update conv (AList.update key v d) extras)"

definition perm_key :: "string \<Rightarrow> string" where
  "perm_key agent = (if agent \<noteq> [] then ''tool_permissions:'' @ agent else ''tool_permissions'')"

definition or_dict :: "json \<Rightarrow> json" where
  "or_dict v = (if jtruthy v then v else JDict [])"

definition get_permissions :: "gate_world \<Rightarrow> string \<Rightarrow> string \<Rightarrow> json" where
  "get_permissions w conv agent = (if conv = [] then JDict [] else or_dict (get_extra (gw_extras w) conv (perm_key agent)))"

definition set_permission :: "gate_world \<Rightarrow> string \<Rightarrow> string \<Rightarrow> string \<Rightarrow> string \<Rightarrow> gate_world" where
  "set_permission w conv tool level agent =
     (if conv = [] then w
      else case or_dict (get_extra (gw_extras w) conv (perm_key agent)) of
        JDict perms \<Rightarrow>
          w\<lparr>gw_extras := set_extra (gw_extras w) conv (perm_key agent) (JDict (AList.update tool (JStr level) perms))\<rparr>
      | _ \<Rightarrow> w)"

definition allow_all :: "gate_world \<Rightarrow> string \<Rightarrow> string \<Rightarrow> string \<Rightarrow> gate_world" where
  "allow_all w conv scope agent = set_permission w conv (''_allow_all:'' @ scope) ''always_allow'' agent"

definition deny_all :: "gate_world \<Rightarrow> string \<Rightarrow> string \<Rightarrow> string \<Rightarrow> gate_world" where
  "deny_all w conv scope agent = set_permission w conv (''_allow_all:'' @ scope) [] agent"

definition get_mode :: "gate_world \<Rightarrow> string \<Rightarrow> json" where
  "get_mode w conv =
     (if conv = [] then JStr ''default''
      else (let v = get_extra (gw_extras w) conv ''permission_mode'' in if jtruthy v then v else JStr ''default''))"

definition mark_advisor_read_only :: "gate_world \<Rightarrow> string \<Rightarrow> gate_world" where
  "mark_advisor_read_only w conv =
     (if conv = [] \<or> conv \<in> set (gw_advisors w) then w else w\<lparr>gw_advisors := conv # gw_advisors w\<rparr>)"

definition unmark_advisor_read_only :: "gate_world \<Rightarrow> string \<Rightarrow> gate_world" where
  "unmark_advisor_read_only w conv = (if conv = [] then w else w\<lparr>gw_advisors := removeAll conv (gw_advisors w)\<rparr>)"

definition is_advisor_read_only_conv :: "gate_world \<Rightarrow> string \<Rightarrow> bool" where
  "is_advisor_read_only_conv w conv \<longleftrightarrow> conv \<noteq> [] \<and> conv \<in> set (gw_advisors w)"

subsection \<open>What a call needs\<close>

record approval_call =
  ac_tool :: string
  ac_summary :: string
  ac_conversation :: string
  ac_agent :: string
  ac_arguments :: json
  ac_allow_prompt :: bool
  ac_attribution :: json
  ac_force_prompt :: bool

text \<open>The name a permission is stored under, whether the call is exempt and whether it has to ask.\<close>

definition fs_level :: "(json \<Rightarrow> string) \<Rightarrow> approval_call \<Rightarrow> (string \<times> bool \<times> bool) res" where
  "fs_level repr_of call =
     (let policy = escalated_policy_name (ac_tool call); exempt = policy \<in> set EXEMPT_TOOLS in
      if policy = ''filesystem'' \<and> jtruthy (ac_arguments call) then
        bind_res (dict_get_res (ac_arguments call) ''action'' (JStr [])) (\<lambda>action.
          (let name = ''filesystem.'' @ py_str repr_of action in
           bind_res (in_texts action FS_EXEMPT) (\<lambda>free.
             if free then Inr (name, True, False)
             else bind_res (in_texts action FS_ALWAYS_ASK) (\<lambda>_. Inr (name, False, True)))))
      else Inr (ac_tool call, exempt, \<not> exempt))"

definition approval_level :: "(json \<Rightarrow> string) \<Rightarrow> approval_call \<Rightarrow> (string \<times> bool \<times> bool) res" where
  "approval_level repr_of call =
     (let policy = escalated_policy_name (ac_tool call) in
      bind_res (fs_level repr_of call) (\<lambda>(name, exempt, ask).
      bind_res (if policy = ''see'' \<and> jtruthy (ac_arguments call)
                then bind_res (see_path (ac_arguments call)) (\<lambda>path.
                       Inr (if path \<in> set SEE_SCREEN_PATHS then (''see.screenshot'', False, True) else (name, True, False)))
                else Inr (name, exempt, ask)) (\<lambda>(name, exempt, ask).
        Inr (if policy \<in> {''remember'', ''forget''} \<or> ac_force_prompt call then (name, False, True) else (name, exempt, ask)))))"

text \<open>The command of a command-bearing tool: whether it forces a question, and whether it is catastrophic.\<close>

definition command_class :: "approval_call \<Rightarrow> (bool \<times> bool) res" where
  "command_class call =
     (if is_command_bearing_tool (ac_tool call) \<and> jtruthy (ac_arguments call) then
        bind_res (dict_get_res (ac_arguments call) ''command'' (JStr [])) (\<lambda>c.
          (let cmd = (if jtruthy c then c else jget_or (ac_arguments call) ''code'' (JStr [])) in
           bind_res (is_catastrophic_command cmd) (\<lambda>catastrophic.
             if catastrophic then Inr (True, True)
             else bind_res (is_dangerous_command cmd) (\<lambda>dangerous. Inr (dangerous, False)))))
      else Inr (False, False))"

definition content_check :: "approval_call \<Rightarrow> string \<Rightarrow> (bool \<times> bool \<times> string) res" where
  "content_check call name =
     bind_res (command_class call) (\<lambda>(danger, catastrophic).
       Inr (danger, catastrophic,
         if catastrophic then ac_tool call @ '':catastrophic'' else if danger then ac_tool call @ '':dangerous'' else name))"

definition WRITE_TOOLS :: "string list" where
  "WRITE_TOOLS = [''write'', ''edit'', ''delete'', ''batch_edit'', ''apply_patch'', ''find_replace'']"

definition FS_WRITES :: "string list" where
  "FS_WRITES = [''write_file'', ''edit'', ''delete_file'', ''find_replace'', ''batch_edit'', ''apply_patch'']"

text \<open>The paths a call writes, with the name of a permission for protected ones.\<close>

definition path_targets :: "(json \<Rightarrow> string) \<Rightarrow> approval_call \<Rightarrow> (string list \<times> string) res" where
  "path_targets repr_of call =
     (let policy = escalated_policy_name (ac_tool call); args = ac_arguments call in
      if \<not> jtruthy args then Inr ([], [])
      else if policy \<in> set WRITE_TOOLS then
        bind_res (write_paths repr_of policy args) (\<lambda>paths. Inr (paths, ac_tool call @ '':protected''))
      else if policy = ''filesystem'' then
        bind_res (dict_get_res args ''action'' (JStr [])) (\<lambda>action.
          case action of
            JStr a \<Rightarrow>
              if a \<in> set FS_WRITES then
                bind_res (write_paths repr_of a args) (\<lambda>paths. Inr (paths, ''filesystem.'' @ a @ '':protected''))
              else Inr ([], [])
          | _ \<Rightarrow> Inr ([], []))
      else Inr ([], []))"

definition path_check :: "(json \<Rightarrow> string) \<Rightarrow> approval_call \<Rightarrow> string \<Rightarrow> (bool \<times> string) res" where
  "path_check repr_of call name =
     bind_res (path_targets repr_of call) (\<lambda>(paths, label).
       Inr (if \<exists>p \<in> set paths. is_protected_path p then (True, label) else (False, name)))"

definition granted :: "json \<Rightarrow> string \<Rightarrow> bool res" where
  "granted perms key = bind_res (dict_get_res perms key JNull) (\<lambda>v. Inr (v = JStr ''always_allow''))"

definition stored_permission :: "(json \<Rightarrow> string) \<Rightarrow> json \<Rightarrow> approval_call \<Rightarrow> string \<Rightarrow> bool res" where
  "stored_permission repr_of perms call name =
     (let policy = escalated_policy_name (ac_tool call) in
      bind_res (if policy = ''filesystem'' \<and> jtruthy (ac_arguments call) then
                  bind_res (dict_get_res (ac_arguments call) ''service'' (JStr [])) (\<lambda>svc.
                  bind_res (if jtruthy svc then granted perms (''_allow_all:filesystem.'' @ py_str repr_of svc) else Inr False) (\<lambda>one.
                    if one then Inr True else granted perms ''_allow_all:filesystem''))
                else Inr False) (\<lambda>scope.
      if scope then Inr True
      else bind_res (granted perms (''_allow_all:'' @ ac_tool call)) (\<lambda>all.
        if all then Inr True
        else bind_res (dict_get_res perms name (JStr [])) (\<lambda>v.
               (let perm = (if jtruthy v then v else jget_or perms (ac_tool call) (JStr []))
                in Inr (perm = JStr ''always_allow'' \<or> perm = JStr ''session_allow''))))))"

subsection \<open>The dialogue\<close>

definition truncate_args :: "(string \<times> json) list \<Rightarrow> json" where
  "truncate_args d = JDict (map (\<lambda>(k, v). (k,
     case v of JStr s \<Rightarrow> if length s > 500 then JStr (take 500 s @ ''... ('' @ int_str (int (length s)) @ '' chars)'') else v
     | _ \<Rightarrow> v)) d)"

text \<open>
  The event bus: nobody listens, it raises, or it publishes.  \<open>check\<close> is cut at the wait: \<open>check_start\<close> settles the call or
  leaves a pending request, \<open>check_finish\<close> is what follows the wait, which ends with the event set, with the caller's
  cancellation, or at the deadline.
\<close>

datatype bus_outcome = NoSubscriber | PublishFails | Publishes

datatype wait_outcome = Signalled | Cancelled | Expired

datatype progress = Settled string | Waiting string

definition unregister :: "gate_world \<Rightarrow> string \<Rightarrow> gate_world" where
  "unregister w r = w\<lparr>gw_pending := AList.delete r (gw_pending w), gw_results := AList.delete r (gw_results w)\<rparr>"

definition ask_user :: "gate_world \<Rightarrow> approval_call \<Rightarrow> string \<Rightarrow> bool \<Rightarrow> string \<Rightarrow> bus_outcome \<Rightarrow> bool \<Rightarrow> progress \<times> gate_world" where
  "ask_user w call name catastrophic r bus fail_open =
     (let entry = \<lparr>pr_event = False, pr_effective = name, pr_conversation = ac_conversation call, pr_agent = ac_agent call,
            pr_attribution = or_dict (ac_attribution call)\<rparr>;
          w1 = w\<lparr>gw_pending := AList.update r entry (gw_pending w)\<rparr>;
          w0 = w1\<lparr>gw_pending := AList.delete r (gw_pending w1)\<rparr>;
          failed = (Settled (if fail_open \<and> escalated_policy_name (ac_tool call) \<notin> set ALWAYS_ASK then ''approved'' else ''denied''), w0)
      in case bus of
           NoSubscriber \<Rightarrow> (Settled ''denied'', w0)
         | PublishFails \<Rightarrow> failed
         | Publishes \<Rightarrow>
             (case or_dict (ac_arguments call) of
                JDict d \<Rightarrow>
                  (Waiting name, w1\<lparr>gw_events := gw_events w1 @ [(ac_conversation call,
                     \<lparr>aq_request_id = r, aq_tool = name, aq_catastrophic = catastrophic, aq_summary = ac_summary call,
                       aq_agent = ac_agent call, aq_arguments = truncate_args d, aq_attribution = or_dict (ac_attribution call)\<rparr>)]\<rparr>)
              | _ \<Rightarrow> failed))"

definition check_start ::
    "(json \<Rightarrow> string) \<Rightarrow> gate_world \<Rightarrow> approval_call \<Rightarrow> string \<Rightarrow> bus_outcome \<Rightarrow> bool \<Rightarrow> (progress \<times> gate_world) res" where
  "check_start repr_of w call r bus fail_open =
     bind_res (approval_level repr_of call) (\<lambda>(name, exempt, ask).
     if exempt then Inr (Settled ''approved'', w)
     else
       bind_res (content_check call name) (\<lambda>(danger, catastrophic, name).
       bind_res (path_check repr_of call name) (\<lambda>(protected, name).
       (let forced = (ac_force_prompt call \<or> danger \<or> protected);
            perms = get_permissions w (ac_conversation call) (ac_agent call) in
        bind_res (if forced then Inr False else stored_permission repr_of perms call name) (\<lambda>stored.
          Inr (if stored then (Settled ''approved'', w)
               else if \<not> ask then (Settled ''approved'', w)
               else if \<not> ac_allow_prompt call then (Settled ''needs_approval'', w)
               else if ac_conversation call = [] then (Settled ''denied'', w)
               else ask_user w call name catastrophic r bus fail_open))))))"

definition check_finish :: "gate_world \<Rightarrow> approval_call \<Rightarrow> string \<Rightarrow> string \<Rightarrow> wait_outcome \<Rightarrow> string res \<times> gate_world" where
  "check_finish w call name r outcome =
     (let w' = unregister w r;
          (perm, agent) = (case map_of (gw_pending w) r of None \<Rightarrow> (name, ac_agent call) | Some p \<Rightarrow> (pr_effective p, pr_agent p)) in
      case outcome of
        Cancelled \<Rightarrow> (Inr ''cancelled'', w')
      | Expired \<Rightarrow> (Inr ''timeout'', w')
      | Signalled \<Rightarrow>
          (case map_of (gw_results w) r of
             None \<Rightarrow> (Inr ''denied'', w')
           | Some JNull \<Rightarrow> (Inr ''denied'', w')
           | Some result \<Rightarrow>
               (case dict_get_res result ''choice'' (JStr ''deny'') of
                  Inl e \<Rightarrow> (Inl e, w')
                | Inr choice \<Rightarrow>
                    if choice = JStr ''allow_once'' then (Inr ''approved'', w')
                    else if choice = JStr ''allow_session'' then
                      (Inr ''approved'', set_permission w' (ac_conversation call) perm ''session_allow'' agent)
                    else if choice = JStr ''always_allow'' then
                      (Inr ''approved'', set_permission w' (ac_conversation call) perm ''always_allow'' agent)
                    else (Inr ''denied'', w'))))"

definition conversation_for_request :: "gate_world \<Rightarrow> string \<Rightarrow> string" where
  "conversation_for_request w r =
     (if r = [] then [] else case map_of (gw_pending w) r of None \<Rightarrow> [] | Some p \<Rightarrow> pr_conversation p)"

definition resolve_request :: "gate_world \<Rightarrow> string \<Rightarrow> json \<Rightarrow> bool \<times> gate_world" where
  "resolve_request w r result =
     (case map_of (gw_pending w) r of
        None \<Rightarrow> (False, w)
      | Some p \<Rightarrow> (True, w\<lparr>gw_results := AList.update r result (gw_results w),
                          gw_pending := AList.update r (p\<lparr>pr_event := True\<rparr>) (gw_pending w)\<rparr>))"

subsection \<open>Guarded calls\<close>

text \<open>Calls whose content forces a question.\<close>

definition guarded :: "(json \<Rightarrow> string) \<Rightarrow> approval_call \<Rightarrow> bool" where
  "guarded repr_of call \<longleftrightarrow> ac_force_prompt call \<or>
     (case content_check call [] of Inl _ \<Rightarrow> False | Inr (danger, _, _) \<Rightarrow> danger) \<or>
     (case path_check repr_of call [] of Inl _ \<Rightarrow> False | Inr (protected, _) \<Rightarrow> protected)"

lemma in_texts_True: "in_texts v texts = Inr True \<longleftrightarrow> (\<exists>t \<in> set texts. v = JStr t)"
  by (auto simp: in_texts_def bind_res_Inr_iff hash_res_def split: if_splits)

lemma level_exempt:
  assumes "approval_level repr_of call = Inr (name, exempt, ask)"
  shows "ask = (\<not> exempt) \<and> (exempt \<longrightarrow> \<not> ac_force_prompt call \<and>
    (escalated_policy_name (ac_tool call) \<in> set EXEMPT_TOOLS \<or> escalated_policy_name (ac_tool call) = ''see'' \<or>
     escalated_policy_name (ac_tool call) = ''filesystem'' \<and>
       (\<exists>a \<in> set FS_EXEMPT. dict_get_res (ac_arguments call) ''action'' (JStr []) = Inr (JStr a))))"
  using assms
  by (auto simp: approval_level_def fs_level_def Let_def bind_res_Inr_iff in_texts_True split: if_splits prod.splits)

lemma content_check_name:
  "content_check call name = Inr (danger, catastrophic, name') \<Longrightarrow>
     \<exists>n. content_check call [] = Inr (danger, catastrophic, n)"
  by (auto simp: content_check_def bind_res_Inr_iff)

lemma path_check_name: "path_check repr_of call name = Inr (protected, name') \<Longrightarrow> \<exists>n. path_check repr_of call [] = Inr (protected, n)"
  by (auto simp: path_check_def bind_res_Inr_iff split: if_splits)

lemma path_targets_cases:
  assumes "path_targets repr_of call = Inr (p # ps, label)"
  shows "escalated_policy_name (ac_tool call) \<in> set WRITE_TOOLS \<or> escalated_policy_name (ac_tool call) = ''filesystem'' \<and>
    (\<exists>a \<in> set FS_WRITES. dict_get_res (ac_arguments call) ''action'' (JStr []) = Inr (JStr a))"
proof -
  have "escalated_policy_name (ac_tool call) \<in> set WRITE_TOOLS \<or> escalated_policy_name (ac_tool call) = ''filesystem'' \<and>
    (\<exists>v. dict_get_res (ac_arguments call) ''action'' (JStr []) = Inr v)"
    using assms by (auto simp: path_targets_def Let_def bind_res_Inr_iff split: if_splits)
  moreover have "\<exists>a \<in> set FS_WRITES. v = JStr a"
    if "escalated_policy_name (ac_tool call) = ''filesystem''" "escalated_policy_name (ac_tool call) \<notin> set WRITE_TOOLS"
      "dict_get_res (ac_arguments call) ''action'' (JStr []) = Inr v" for v
    using assms that by (cases v) (auto simp: path_targets_def Let_def split: if_splits)
  ultimately show ?thesis by blast
qed

lemma command_tools_not_exempt: "t \<in> set COMMAND_BEARING_TOOLS \<Longrightarrow> t \<notin> set EXEMPT_TOOLS \<and> t \<noteq> ''see'' \<and> t \<noteq> ''filesystem''"
  by (auto simp: COMMAND_BEARING_TOOLS_def EXEMPT_TOOLS_def)

lemma write_tools_not_exempt: "t \<in> set WRITE_TOOLS \<Longrightarrow> t \<notin> set EXEMPT_TOOLS \<and> t \<noteq> ''see'' \<and> t \<noteq> ''filesystem''"
  by (auto simp: WRITE_TOOLS_def EXEMPT_TOOLS_def)

lemma fs_writes_not_exempt: "a \<in> set FS_WRITES \<Longrightarrow> a \<notin> set FS_EXEMPT"
  by (auto simp: FS_WRITES_def FS_EXEMPT_def)

lemma guarded_not_exempt:
  assumes "guarded repr_of call" "approval_level repr_of call = Inr (name, exempt, ask)"
  shows "\<not> exempt"
proof
  assume "exempt"
  then have level: "\<not> ac_force_prompt call"
    "escalated_policy_name (ac_tool call) \<in> set EXEMPT_TOOLS \<or> escalated_policy_name (ac_tool call) = ''see'' \<or>
     escalated_policy_name (ac_tool call) = ''filesystem'' \<and>
       (\<exists>a \<in> set FS_EXEMPT. dict_get_res (ac_arguments call) ''action'' (JStr []) = Inr (JStr a))"
    using level_exempt [OF assms(2)] by simp_all
  consider c n where "content_check call [] = Inr (True, c, n)" | n where "path_check repr_of call [] = Inr (True, n)"
    using assms(1) level(1) by (auto simp: guarded_def split: sum.splits)
  then show False
  proof cases
    case 1
    then have "escalated_policy_name (ac_tool call) \<in> set COMMAND_BEARING_TOOLS"
      by (auto simp: content_check_def command_class_def bind_res_Inr_iff is_command_bearing_tool_def split: if_splits)
    then show ?thesis using level(2) command_tools_not_exempt by blast
  next
    case 2
    then obtain p ps label where "path_targets repr_of call = Inr (p # ps, label)"
      by (auto simp: path_check_def bind_res_Inr_iff neq_Nil_conv split: if_splits) (metis list.exhaust list.set_intros(1) empty_iff list.set(1))
    then consider "escalated_policy_name (ac_tool call) \<in> set WRITE_TOOLS"
      | a where "escalated_policy_name (ac_tool call) = ''filesystem''" "a \<in> set FS_WRITES"
          "dict_get_res (ac_arguments call) ''action'' (JStr []) = Inr (JStr a)"
      using path_targets_cases by blast
    then show ?thesis
    proof cases
      case 1
      then show ?thesis using level(2) write_tools_not_exempt by blast
    next
      case (2 a)
      have "''filesystem'' \<notin> set EXEMPT_TOOLS" by (simp add: EXEMPT_TOOLS_def)
      then show ?thesis using level(2) 2 fs_writes_not_exempt by auto
    qed
  qed
qed

lemma check_start_guarded:
  assumes "guarded repr_of call" "check_start repr_of w call r bus fail_open = Inr x"
  obtains name catastrophic where "\<And>w. check_start repr_of w call r bus fail_open =
    Inr (if \<not> ac_allow_prompt call then (Settled ''needs_approval'', w)
         else if ac_conversation call = [] then (Settled ''denied'', w) else ask_user w call name catastrophic r bus fail_open)"
proof -
  obtain n0 exempt ask where level: "approval_level repr_of call = Inr (n0, exempt, ask)"
    using assms(2) by (auto simp: check_start_def bind_res_Inr_iff)
  have ask: "\<not> exempt" "ask" using guarded_not_exempt [OF assms(1) level] level_exempt [OF level] by auto
  obtain danger catastrophic n1 where content: "content_check call n0 = Inr (danger, catastrophic, n1)"
    using assms(2) level ask by (auto simp: check_start_def bind_res_Inr_iff)
  obtain protected n2 where path: "path_check repr_of call n1 = Inr (protected, n2)"
    using assms(2) level ask content by (auto simp: check_start_def bind_res_Inr_iff)
  have "ac_force_prompt call \<or> danger \<or> protected"
    using assms(1) content_check_name [OF content] path_check_name [OF path] by (auto simp: guarded_def)
  then have "check_start repr_of w call r bus fail_open =
    Inr (if \<not> ac_allow_prompt call then (Settled ''needs_approval'', w)
         else if ac_conversation call = [] then (Settled ''denied'', w) else ask_user w call n2 catastrophic r bus fail_open)" for w
    using ask by (simp add: check_start_def level content path Let_def)
  then show thesis by (rule that)
qed

lemma ask_user_result:
  "fst (ask_user w call name catastrophic r bus fail_open) =
     (if bus = Publishes \<and> is_dict (or_dict (ac_arguments call)) then Waiting name
      else Settled (if bus \<noteq> NoSubscriber \<and> fail_open \<and> escalated_policy_name (ac_tool call) \<notin> set ALWAYS_ASK
                    then ''approved'' else ''denied''))"
  by (auto simp: ask_user_def Let_def is_dict_def split: bus_outcome.split json.split)

lemma guarded_outcome:
  assumes "guarded repr_of call" "check_start repr_of w call r bus fail_open = Inr (out, w')"
  shows "(\<exists>name. out = Waiting name) \<or> out = Settled ''denied'' \<or> out = Settled ''needs_approval'' \<or>
    out = Settled ''approved'' \<and> fail_open \<and> bus \<noteq> NoSubscriber \<and> escalated_policy_name (ac_tool call) \<notin> set ALWAYS_ASK"
proof -
  obtain name catastrophic where eq: "\<And>w. check_start repr_of w call r bus fail_open =
    Inr (if \<not> ac_allow_prompt call then (Settled ''needs_approval'', w)
         else if ac_conversation call = [] then (Settled ''denied'', w) else ask_user w call name catastrophic r bus fail_open)"
    using check_start_guarded [OF assms] by blast
  have "out = (if \<not> ac_allow_prompt call then Settled ''needs_approval'' else if ac_conversation call = [] then Settled ''denied''
      else fst (ask_user w call name catastrophic r bus fail_open))"
    using assms(2) unfolding eq by (auto split: if_splits dest: arg_cong [where f = fst])
  then show ?thesis by (auto simp: ask_user_result split: if_splits)
qed


definition empty_world :: gate_world where
  "empty_world = \<lparr>gw_pending = [], gw_results = [], gw_extras = [], gw_events = [], gw_advisors = []\<rparr>"

definition shell_call :: approval_call where
  "shell_call = \<lparr>ac_tool = ''Shell'', ac_summary = [], ac_conversation = ''c'', ac_agent = ''a'',
     ac_arguments = JDict [(''command'', JStr ''RM -rf /tmp'')], ac_allow_prompt = True, ac_attribution = JNull, ac_force_prompt = False\<rparr>"


subsection \<open>The dialogue as a system\<close>

text \<open>
  Calls in progress wait for their answer while other threads start calls, answer requests and change permissions; the lock
  makes each of these a step.  \<open>gs_waiting\<close> holds the waiting calls under their request id, \<open>gs_answers\<close> what the users
  answered to them.  A request id is not that of a request that is pending.
\<close>

record gate_system =
  gs_world :: gate_world
  gs_waiting :: "(string, approval_call \<times> string) dict"
  gs_answers :: "(string \<times> json) list"

inductive gate_step :: "(json \<Rightarrow> string) \<Rightarrow> gate_system \<Rightarrow> gate_system \<Rightarrow> bool" for repr_of where
  asks: "map_of (gw_pending (gs_world s)) r = None \<Longrightarrow>
    check_start repr_of (gs_world s) call r bus fail_open = Inr (Waiting name, w') \<Longrightarrow>
    gate_step repr_of s (s\<lparr>gs_world := w', gs_waiting := AList.update r (call, name) (gs_waiting s),
      gs_answers := filter (\<lambda>a. fst a \<noteq> r) (gs_answers s)\<rparr>)"
| settles: "map_of (gw_pending (gs_world s)) r = None \<Longrightarrow>
    check_start repr_of (gs_world s) call r bus fail_open = Inr (Settled verdict, w') \<Longrightarrow> gate_step repr_of s (s\<lparr>gs_world := w'\<rparr>)"
| resolves: "resolve_request (gs_world s) r result = (ok, w') \<Longrightarrow>
    gate_step repr_of s (s\<lparr>gs_world := w', gs_answers := (if ok then gs_answers s @ [(r, result)] else gs_answers s)\<rparr>)"
| finishes: "map_of (gs_waiting s) r = Some (call, name) \<Longrightarrow> map_of (gw_pending (gs_world s)) r = Some p \<Longrightarrow>
    outcome = Signalled \<and> pr_event p \<or> outcome = Expired \<and> \<not> pr_event p \<or> outcome = Cancelled \<Longrightarrow>
    check_finish (gs_world s) call name r outcome = (verdict, w') \<Longrightarrow>
    gate_step repr_of s (s\<lparr>gs_world := w', gs_waiting := AList.delete r (gs_waiting s)\<rparr>)"
| permits: "gate_step repr_of s (s\<lparr>gs_world := set_permission (gs_world s) conv tool level agent\<rparr>)"
| marks: "gate_step repr_of s (s\<lparr>gs_world := mark_advisor_read_only (gs_world s) conv\<rparr>)"
| unmarks: "gate_step repr_of s (s\<lparr>gs_world := unmark_advisor_read_only (gs_world s) conv\<rparr>)"

definition request_ok :: "gate_system \<Rightarrow> string \<Rightarrow> bool" where
  "request_ok s r \<longleftrightarrow>
     (case map_of (gw_pending (gs_world s)) r of
        None \<Rightarrow> map_of (gs_waiting s) r = None \<and> map_of (gw_results (gs_world s)) r = None
      | Some p \<Rightarrow>
          (\<exists>call. map_of (gs_waiting s) r = Some (call, pr_effective p) \<and> pr_conversation p = ac_conversation call \<and> pr_agent p = ac_agent call) \<and>
          (case map_of (gw_results (gs_world s)) r of None \<Rightarrow> \<not> pr_event p | Some v \<Rightarrow> pr_event p \<and> (r, v) \<in> set (gs_answers s)))"

definition gate_inv :: "gate_system \<Rightarrow> bool" where
  "gate_inv s \<longleftrightarrow> (\<forall>r. request_ok s r)"

lemma gate_inv_world:
  assumes "map_of (gw_pending w') = map_of (gw_pending (gs_world s))" "gw_results w' = gw_results (gs_world s)"
  shows "gate_inv (s\<lparr>gs_world := w'\<rparr>) = gate_inv s"
proof -
  have "gs_waiting (s\<lparr>gs_world := w'\<rparr>) = gs_waiting s" "gs_answers (s\<lparr>gs_world := w'\<rparr>) = gs_answers s"
    "gs_world (s\<lparr>gs_world := w'\<rparr>) = w'" by simp_all
  then show ?thesis using assms unfolding gate_inv_def request_ok_def by presburger
qed

lemma set_permission_tables [simp]:
  "gw_pending (set_permission w conv tool level agent) = gw_pending w"
  "gw_results (set_permission w conv tool level agent) = gw_results w"
  by (simp_all add: set_permission_def split: json.split)

lemma mark_tables [simp]:
  "gw_pending (mark_advisor_read_only w conv) = gw_pending w" "gw_results (mark_advisor_read_only w conv) = gw_results w"
  "gw_pending (unmark_advisor_read_only w conv) = gw_pending w" "gw_results (unmark_advisor_read_only w conv) = gw_results w"
  by (simp_all add: mark_advisor_read_only_def unmark_advisor_read_only_def)

lemma unregister_tables [simp]:
  "gw_pending (unregister w r) = AList.delete r (gw_pending w)" "gw_results (unregister w r) = AList.delete r (gw_results w)"
  "gw_extras (unregister w r) = gw_extras w"
  by (simp_all add: unregister_def)

lemma check_finish_cases:
  assumes "check_finish w call name r outcome = (verdict, w')"
  obtains "verdict \<noteq> Inr ''approved''" "w' = unregister w r"
  | result level where "verdict = Inr ''approved''" "outcome = Signalled" "map_of (gw_results w) r = Some result"
      "jget_or result ''choice'' (JStr ''deny'') \<in> {JStr ''allow_once'', JStr ''allow_session'', JStr ''always_allow''}"
      "w' = unregister w r \<or> w' = set_permission (unregister w r) (ac_conversation call)
         (case map_of (gw_pending w) r of None \<Rightarrow> name | Some p \<Rightarrow> pr_effective p) level
         (case map_of (gw_pending w) r of None \<Rightarrow> ac_agent call | Some p \<Rightarrow> pr_agent p)"
proof (cases "outcome = Signalled \<and> (\<exists>d. map_of (gw_results w) r = Some (JDict d))")
  case True
  then obtain d where d: "map_of (gw_results w) r = Some (JDict d)" by blast
  show ?thesis
    using assms that True d
    by (cases "map_of (gw_pending w) r") (auto simp: check_finish_def Let_def dict_get_res_def split: if_splits)
next
  case False
  have "verdict \<noteq> Inr ''approved'' \<and> w' = unregister w r"
  proof (cases "map_of (gw_results w) r")
    case (Some v)
    then show ?thesis using assms False by (cases outcome; cases v) (auto simp: check_finish_def Let_def dict_get_res_def split: prod.splits)
  qed (use assms in \<open>cases outcome; auto simp: check_finish_def Let_def split: prod.splits\<close>)
  then show ?thesis using that(1) by blast
qed

lemma finish_tables:
  assumes "check_finish w call name r outcome = (verdict, w')"
  shows "gw_pending w' = AList.delete r (gw_pending w)" "gw_results w' = AList.delete r (gw_results w)"
  using assms by (auto elim: check_finish_cases)

lemma check_start_cases:
  assumes "check_start repr_of w call r bus fail_open = Inr (out, w')"
  obtains v where "out = Settled v" "w' = w" | name catastrophic where "ask_user w call name catastrophic r bus fail_open = (out, w')"
  using assms by (auto simp: check_start_def Let_def bind_res_Inr_iff split: if_splits)

lemma check_start_tables:
  assumes "check_start repr_of w call r bus fail_open = Inr (out, w')" "map_of (gw_pending w) r = None"
  shows "gw_results w' = gw_results w" "gw_extras w' = gw_extras w"
    "out = Settled v \<Longrightarrow> map_of (gw_pending w') = map_of (gw_pending w)"
    "out = Waiting name \<Longrightarrow> map_of (gw_pending w') = (map_of (gw_pending w))(r \<mapsto> \<lparr>pr_event = False, pr_effective = name,
         pr_conversation = ac_conversation call, pr_agent = ac_agent call, pr_attribution = or_dict (ac_attribution call)\<rparr>)"
  using assms by (auto elim!: check_start_cases
      simp: ask_user_def Let_def update_conv' delete_conv' fun_upd_idem split: bus_outcome.splits json.splits)

lemma gate_step_inv: "gate_step repr_of s s' \<Longrightarrow> gate_inv s \<Longrightarrow> gate_inv s'"
proof (induction rule: gate_step.induct)
  case (asks s r call bus fail_open name w')
  have ok: "request_ok s q" for q using asks(3) by (simp add: gate_inv_def)
  note tables = check_start_tables(1) [OF asks(2,1)] check_start_tables(4) [OF asks(2,1) refl]
  have "request_ok (s\<lparr>gs_world := w', gs_waiting := AList.update r (call, name) (gs_waiting s),
      gs_answers := filter (\<lambda>a. fst a \<noteq> r) (gs_answers s)\<rparr>) q" for q
    using ok [of q] asks(1) unfolding request_ok_def by (cases "q = r") (auto simp: tables update_conv' split: option.splits)
  then show ?case by (simp add: gate_inv_def)
next
  case (settles s r call bus fail_open verdict w')
  then show ?case using check_start_tables(1) [OF settles(2,1)] check_start_tables(3) [OF settles(2,1) refl] by (simp add: gate_inv_world)
next
  case (resolves s r result ok w')
  have ok: "request_ok s q" for q using resolves(2) by (simp add: gate_inv_def)
  have "request_ok (s\<lparr>gs_world := w', gs_answers := (if ok then gs_answers s @ [(r, result)] else gs_answers s)\<rparr>) q" for q
    using ok [of q] resolves(1) unfolding request_ok_def resolve_request_def
    by (cases "q = r") (auto simp: update_conv' split: option.splits)
  then show ?case by (simp add: gate_inv_def)
next
  case (finishes s r call name p outcome verdict w')
  have ok: "request_ok s q" for q using finishes(5) by (simp add: gate_inv_def)
  have "request_ok (s\<lparr>gs_world := w', gs_waiting := AList.delete r (gs_waiting s)\<rparr>) q" for q
    using ok [of q] finish_tables [OF finishes(4)] unfolding request_ok_def
    by (cases "q = r") (auto simp: delete_conv' split: option.splits)
  then show ?case by (simp add: gate_inv_def)
qed (simp_all add: gate_inv_world)

definition gate_start :: "gate_system \<Rightarrow> bool" where
  "gate_start s \<longleftrightarrow> gw_pending (gs_world s) = [] \<and> gw_results (gs_world s) = [] \<and> gs_waiting s = []"

interpretation gts: store_system gate_start "gate_step repr_of" gate_inv for repr_of
proof unfold_locales
  show "gate_start s \<Longrightarrow> gate_inv s" for s by (simp add: gate_start_def gate_inv_def request_ok_def)
  show "gate_step repr_of s s' \<Longrightarrow> gate_inv s \<Longrightarrow> gate_inv s'" for s s' by (rule gate_step_inv)
qed

lemma set_extra_other: "conv' \<noteq> conv \<or> key' \<noteq> key \<Longrightarrow> get_extra (set_extra extras conv key v) conv' key' = get_extra extras conv' key'"
  by (auto simp: get_extra_def set_extra_def update_conv' split: option.splits)

lemma perm_key_inj: "perm_key a = perm_key b \<longleftrightarrow> a = b"
  by (simp add: perm_key_def)

lemma set_permission_other:
  assumes "conv' \<noteq> conv \<or> agent' \<noteq> agent"
  shows "get_permissions (set_permission w conv tool level agent) conv' agent' = get_permissions w conv' agent'"
  using assms by (simp add: get_permissions_def set_permission_def set_extra_other perm_key_inj split: json.split)

lemma approved_answer:
  assumes "gate_start s0" "(gate_step repr_of)\<^sup>*\<^sup>* s0 s"
    and "map_of (gs_waiting s) r = Some (call, name)"
    and "check_finish (gs_world s) call name r outcome = (Inr ''approved'', w')"
  shows "outcome = Signalled" "\<exists>result. (r, result) \<in> set (gs_answers s) \<and>
    jget_or result ''choice'' (JStr ''deny'') \<in> {JStr ''allow_once'', JStr ''allow_session'', JStr ''always_allow''}"
proof -
  have ok: "request_ok s r" using gts.reachable_inv [OF assms(1,2)] by (simp add: gate_inv_def)
  then obtain p where p: "map_of (gw_pending (gs_world s)) r = Some p"
    using assms(3) unfolding request_ok_def by (auto split: option.splits)
  have "outcome = Signalled \<and> (\<exists>result. map_of (gw_results (gs_world s)) r = Some result \<and>
      jget_or result ''choice'' (JStr ''deny'') \<in> {JStr ''allow_once'', JStr ''allow_session'', JStr ''always_allow''})"
    using assms(4) by (auto elim: check_finish_cases)
  moreover have "(r, result) \<in> set (gs_answers s)" if "map_of (gw_results (gs_world s)) r = Some result" for result
    using ok p that unfolding request_ok_def by simp
  ultimately show "outcome = Signalled" "\<exists>result. (r, result) \<in> set (gs_answers s) \<and>
    jget_or result ''choice'' (JStr ''deny'') \<in> {JStr ''allow_once'', JStr ''allow_session'', JStr ''always_allow''}" by blast+
qed

text \<open>
  C21: Whatever calls, answers and permission changes interleave, a waiting call is approved only when a user answered
  its own request with one of the three allowing choices; the answer is then consumed with the request, the tables
  keep nothing of it, and the answer changes the permissions of no other conversation or agent.\<close>

theorem approval_needs_own_answer:
  assumes "gate_start s0" "(gate_step repr_of)\<^sup>*\<^sup>* s0 s"
    and "map_of (gs_waiting s) r = Some (call, name)"
    and "check_finish (gs_world s) call name r outcome = (verdict, w')"
  shows "(verdict = Inr ''approved'' \<longrightarrow> outcome = Signalled \<and>
      (\<exists>result. (r, result) \<in> set (gs_answers s) \<and>
         jget_or result ''choice'' (JStr ''deny'') \<in> {JStr ''allow_once'', JStr ''allow_session'', JStr ''always_allow''})) \<and>
    map_of (gw_pending w') r = None \<and> map_of (gw_results w') r = None \<and> \<not> fst (resolve_request w' r answer) \<and>
    (\<forall>conv agent. conv \<noteq> ac_conversation call \<or> agent \<noteq> ac_agent call \<or> verdict \<noteq> Inr ''approved'' \<longrightarrow>
       get_permissions w' conv agent = get_permissions (gs_world s) conv agent)"
proof -
  have ok: "request_ok s r" using gts.reachable_inv [OF assms(1,2)] by (simp add: gate_inv_def)
  then obtain p where p: "map_of (gw_pending (gs_world s)) r = Some p" "pr_agent p = ac_agent call"
    using assms(3) unfolding request_ok_def by (auto split: option.splits)
  note tables = finish_tables [OF assms(4)]
  have gone: "map_of (gw_pending w') r = None" "map_of (gw_results w') r = None" by (simp_all add: tables delete_conv')
  have unregistered: "get_permissions (unregister (gs_world s) r) conv agent = get_permissions (gs_world s) conv agent" for conv agent
    by (simp add: get_permissions_def)
  have "outcome = Signalled \<and> (\<exists>result. (r, result) \<in> set (gs_answers s) \<and>
      jget_or result ''choice'' (JStr ''deny'') \<in> {JStr ''allow_once'', JStr ''allow_session'', JStr ''always_allow''})"
    if "verdict = Inr ''approved''"
    using approved_answer [OF assms(1-3)] assms(4) that by blast
  moreover have "get_permissions w' conv agent = get_permissions (gs_world s) conv agent"
    if "conv \<noteq> ac_conversation call \<or> agent \<noteq> ac_agent call \<or> verdict \<noteq> Inr ''approved''" for conv agent
    using assms(4) that p by (auto simp: unregistered set_permission_other elim!: check_finish_cases)
  moreover have "\<not> fst (resolve_request w' r answer)" using gone by (simp add: resolve_request_def)
  ultimately show ?thesis using gone by blast
qed

definition start_system :: gate_system where
  "start_system = \<lparr>gs_world = empty_world, gs_waiting = [], gs_answers = []\<rparr>"

definition asked_world :: gate_world where
  "asked_world = empty_world\<lparr>gw_pending := [(''r'', \<lparr>pr_event = False, pr_effective = ''Shell:catastrophic'', pr_conversation = ''c'',
       pr_agent = ''a'', pr_attribution = JDict []\<rparr>)],
     gw_events := [(''c'', \<lparr>aq_request_id = ''r'', aq_tool = ''Shell:catastrophic'', aq_catastrophic = True, aq_summary = [],
       aq_agent = ''a'', aq_arguments = JDict [(''command'', JStr ''RM -rf /tmp'')], aq_attribution = JDict []\<rparr>)]\<rparr>"

definition answered_system :: gate_system where
  "answered_system = start_system\<lparr>gs_world := snd (resolve_request asked_world ''r'' (JDict [(''choice'', JStr ''allow_once'')])),
     gs_waiting := [(''r'', (shell_call, ''Shell:catastrophic''))], gs_answers := [(''r'', JDict [(''choice'', JStr ''allow_once'')])]\<rparr>"

lemma answered_reachable: "(gate_step (\<lambda>v. []))\<^sup>*\<^sup>* start_system answered_system"
proof -
  let ?s1 = "start_system\<lparr>gs_world := asked_world, gs_waiting := [(''r'', (shell_call, ''Shell:catastrophic''))]\<rparr>"
  have "check_start (\<lambda>v. []) (gs_world start_system) shell_call ''r'' Publishes True = Inr (Waiting ''Shell:catastrophic'', asked_world)"
    by code_simp
  then have "gate_step (\<lambda>v. []) start_system ?s1"
    using gate_step.asks [of start_system "''r''" "\<lambda>v. []" shell_call Publishes True "''Shell:catastrophic''" asked_world]
    by (simp add: start_system_def empty_world_def)
  moreover have "resolve_request (gs_world ?s1) ''r'' (JDict [(''choice'', JStr ''allow_once'')]) =
      (True, snd (resolve_request asked_world ''r'' (JDict [(''choice'', JStr ''allow_once'')])))"
    by (simp add: resolve_request_def asked_world_def)
  then have "gate_step (\<lambda>v. []) ?s1 answered_system"
    using gate_step.resolves [of ?s1 "''r''" "JDict [(''choice'', JStr ''allow_once'')]" True] by (simp add: answered_system_def start_system_def)
  ultimately show ?thesis by (meson converse_rtranclp_into_rtranclp rtranclp.rtrancl_refl)
qed

theorem approval_needs_own_answer_witness:
  "fst (check_finish (gs_world answered_system) shell_call ''Shell:catastrophic'' ''r'' Signalled) = Inr ''approved'' \<and>
   (\<exists>result. (''r'', result) \<in> set (gs_answers answered_system) \<and>
      jget_or result ''choice'' (JStr ''deny'') \<in> {JStr ''allow_once'', JStr ''allow_session'', JStr ''always_allow''})"
proof -
  have approved: "fst (check_finish (gs_world answered_system) shell_call ''Shell:catastrophic'' ''r'' Signalled) = Inr ''approved''"
    by code_simp
  have "gate_start start_system" by (simp add: gate_start_def start_system_def empty_world_def)
  moreover have "map_of (gs_waiting answered_system) ''r'' = Some (shell_call, ''Shell:catastrophic'')" by (simp add: answered_system_def)
  ultimately show ?thesis
    using approved approval_needs_own_answer [OF _ answered_reachable _ prod.collapse [symmetric]] by blast
qed

subsection \<open>Read-only calls and catastrophic commands\<close>

lemma catastrophic_lower: "py_str_in p (py_lower s) \<Longrightarrow> \<forall>c \<in> set p. py_lower_char c = c"
proof
  fix c
  assume "py_str_in p (py_lower s)" "c \<in> set p"
  then have "c \<in> set (py_lower s)" by (auto simp: py_str_in_iff)
  then show "py_lower_char c = c" by (auto simp: py_lower_def)
qed

text \<open>
  The catastrophic test raises only for a value that is not a text, and calls a text catastrophic exactly when its
  lower-case form contains one of the patterns; the pattern with a capital letter is compared with lower-case text and never
  matches, so that a recursive \<open>chmod 777\<close> of the root is not catastrophic.\<close>

theorem catastrophic_exact:
  "is_catastrophic_command (JStr s) =
     Inr (\<exists>p \<in> set CATASTROPHIC_PATTERNS - {''chmod -R 777 /''}. py_str_in p (py_lower (py_strip s))) \<and>
   is_catastrophic_command (JStr ''chmod -R 777 /'') = Inr False \<and> is_catastrophic_command (JStr ''rm -rf /'') = Inr True"
proof -
  have "\<not> py_str_in ''chmod -R 777 /'' (py_lower t)" for t
  proof
    assume "py_str_in ''chmod -R 777 /'' (py_lower t)"
    then have "py_lower_char (CHR ''R'') = CHR ''R''" using catastrophic_lower by fastforce
    moreover have "py_lower_char (CHR ''R'') \<noteq> CHR ''R''" by code_simp
    ultimately show False by simp
  qed
  moreover have "\<not> (\<exists>p \<in> set CATASTROPHIC_PATTERNS. py_str_in p (py_lower (py_strip [])))" by code_simp
  ultimately have "is_catastrophic_command (JStr s) =
    Inr (\<exists>p \<in> set CATASTROPHIC_PATTERNS - {''chmod -R 777 /''}. py_str_in p (py_lower (py_strip s)))"
    by (cases s) (auto simp: is_catastrophic_command_def jtruthy_def str_res_def)
  moreover have "is_catastrophic_command (JStr ''chmod -R 777 /'') = Inr False" "is_catastrophic_command (JStr ''rm -rf /'') = Inr True"
    by code_simp+
  ultimately show ?thesis by blast
qed

lemma read_only_tables:
  "t \<in> set READ_ONLY_ALLOWED \<Longrightarrow> t \<in> set EXEMPT_TOOLS \<and> normalize_tool_name (dict_get TOOL_ALIASES t t) \<notin> set ALWAYS_ASK \<and>
     t \<noteq> ''see'' \<and> t \<noteq> ''filesystem'' \<and> t \<notin> {''remember'', ''forget''}"
proof -
  have "\<forall>t \<in> set READ_ONLY_ALLOWED. t \<in> set EXEMPT_TOOLS \<and> normalize_tool_name (dict_get TOOL_ALIASES t t) \<notin> set ALWAYS_ASK \<and>
     t \<noteq> ''see'' \<and> t \<noteq> ''filesystem'' \<and> t \<notin> {''remember'', ''forget''}" by code_simp
  then show "t \<in> set READ_ONLY_ALLOWED \<Longrightarrow> ?thesis" by blast
qed

lemma normalize_idem [simp]: "normalize_tool_name (normalize_tool_name t) = normalize_tool_name t"
  by (simp add: normalize_tool_name_def py_strip_lower)

lemma escalated_plain:
  "normalize_tool_name (dict_get TOOL_ALIASES (normalize_tool_name t) (normalize_tool_name t)) \<notin> set ALWAYS_ASK \<Longrightarrow>
     escalated_policy_name t = normalize_tool_name t"
  by (simp add: escalated_policy_name_def Let_def)

text \<open>
  The two permission modes agree: a call that read-only mode lets through, with arguments or for a tool of the
  allow list, is approved by the gate without a question, whatever is stored, unless a prompt is forced; and what
  advisors may call is read-only.\<close>

theorem read_only_calls_exempt:
  assumes "is_read_only_allowed (ac_tool call) (ac_arguments call) = Inr True \<or>
      is_advisor_read_only_allowed (ac_tool call) (ac_arguments call) = Inr True"
    and "jtruthy (ac_arguments call) \<or> normalize_tool_name (ac_tool call) \<in> set READ_ONLY_ALLOWED" "\<not> ac_force_prompt call"
  shows "check_start repr_of w call r bus fail_open = Inr (Settled ''approved'', w)"
proof -
  let ?t = "normalize_tool_name (ac_tool call)"
  have allowed: "is_read_only_allowed (ac_tool call) (ac_arguments call) = Inr True"
    using assms(1) by (auto simp: is_advisor_read_only_allowed_def split: if_splits)
  consider "?t \<in> set READ_ONLY_ALLOWED"
    | a where "?t = ''filesystem''" "a \<in> set FS_EXEMPT" "is_dict (ac_arguments call)" "jget_or (ac_arguments call) ''action'' (JStr []) = JStr a"
    | path where "?t = ''see''" "see_path (ac_arguments call) = Inr path" "path \<notin> set SEE_SCREEN_PATHS"
    using allowed by (auto simp: is_read_only_allowed_def Let_def in_texts_True bind_res_Inr_iff split: if_splits)
  then have "\<exists>name. approval_level repr_of call = Inr (name, True, False)"
  proof cases
    case 1
    then have "escalated_policy_name (ac_tool call) = ?t" using read_only_tables escalated_plain by blast
    then show ?thesis using read_only_tables [OF 1] assms(3) by (simp add: approval_level_def fs_level_def Let_def)
  next
    case (2 a)
    have "normalize_tool_name (dict_get TOOL_ALIASES ''filesystem'' ''filesystem'') \<notin> set ALWAYS_ASK" "''filesystem'' \<notin> set READ_ONLY_ALLOWED"
      by code_simp+
    then have "escalated_policy_name (ac_tool call) = ''filesystem''" "jtruthy (ac_arguments call)"
      using escalated_plain [of "ac_tool call"] 2(1) assms(2) by auto
    moreover have "dict_get_res (ac_arguments call) ''action'' (JStr []) = Inr (JStr a)"
      using 2 by (cases "ac_arguments call") (simp_all add: dict_get_res_def is_dict_def)
    moreover have "in_texts (JStr a) FS_EXEMPT = Inr True" using 2(2) by (simp add: in_texts_True)
    ultimately show ?thesis using assms(3) by (simp add: approval_level_def fs_level_def Let_def)
  next
    case (3 path)
    have "normalize_tool_name (dict_get TOOL_ALIASES ''see'' ''see'') \<notin> set ALWAYS_ASK" "''see'' \<notin> set READ_ONLY_ALLOWED"
      by code_simp+
    then have "escalated_policy_name (ac_tool call) = ''see''" "jtruthy (ac_arguments call)"
      using escalated_plain [of "ac_tool call"] 3(1) assms(2) by auto
    then show ?thesis using assms(3) 3(2,3) by (simp add: approval_level_def fs_level_def Let_def)
  qed
  then show ?thesis by (auto simp: check_start_def)
qed

theorem read_only_calls_exempt_witness:
  "check_start (\<lambda>v. []) empty_world (shell_call\<lparr>ac_tool := '' SEE'', ac_arguments := JDict [(''path'', JStr ''a.png'')]\<rparr>) ''r'' NoSubscriber False =
     Inr (Settled ''approved'', empty_world)"
proof -
  have "is_read_only_allowed '' SEE'' (JDict [(''path'', JStr ''a.png'')]) = Inr True" by code_simp
  then show ?thesis
    using read_only_calls_exempt [of "shell_call\<lparr>ac_tool := '' SEE'', ac_arguments := JDict [(''path'', JStr ''a.png'')]\<rparr>"]
    by (simp add: jtruthy_def shell_call_def)
qed

end
