(* ===== verification/Authority.thy ===== *)
theory Authority
  imports Tool_Approval
begin

section \<open>User authority\<close>

text \<open>
  \<open>core/authorization_context.py\<close>: the versioned record of what a user asked for, by reference to which tool calls are
  judged.  A document is a record; the files under the store's root are a dictionary from user, conversation and
  context id to the document (\<open>None\<close> for a file that cannot be read), and the cache of revisions is an insertion-ordered dictionary.
  Only the store writes these files, so that a document has the fields the store gives it.  Each operation runs under
  the lock of its path; \<open>uuid4\<close> and the clock are arguments.  The active authority of an agent is kept in the extras of
  the conversation store.
\<close>

subsection \<open>References\<close>

definition MAX_DIRECTIVE_CHARS :: nat where
  "MAX_DIRECTIVE_CHARS = 32000"

definition DEFAULT_ENVELOPE_CHARS :: int where
  "DEFAULT_ENVELOPE_CHARS = 8000"

definition CACHE_LIMIT :: nat where
  "CACHE_LIMIT = 256"

record authorization_ref =
  rf_context_id :: string
  rf_revision :: int
  rf_root_turn_id :: string

definition ref_dict :: "authorization_ref \<Rightarrow> (string, json) dict" where
  "ref_dict ref = [(''context_id'', JStr (rf_context_id ref)), (''revision'', JInt (rf_revision ref)),
     (''root_turn_id'', JStr (rf_root_turn_id ref))]"

definition ref_from_dict :: "(json \<Rightarrow> string) \<Rightarrow> json \<Rightarrow> authorization_ref option" where
  "ref_from_dict repr_of raw =
     (case raw of
        JDict _ \<Rightarrow>
          (let context = str_or_empty repr_of (jget_or raw ''context_id'' JNull);
               rev = jget_or raw ''revision'' JNull in
           case json_int (if jtruthy rev then rev else JInt 0) of
             Inl _ \<Rightarrow> None
           | Inr n \<Rightarrow>
               if context = [] \<or> n < 1 then None
               else Some \<lparr>rf_context_id = context, rf_revision = n,
                 rf_root_turn_id = str_or_empty repr_of (jget_or raw ''root_turn_id'' JNull)\<rparr>)
      | _ \<Rightarrow> None)"

definition ref_from_message_source :: "(json \<Rightarrow> string) \<Rightarrow> json \<Rightarrow> authorization_ref option" where
  "ref_from_message_source repr_of source =
     (if is_dict source then ref_from_dict repr_of (jget_or source ''authorization'' JNull) else None)"

text \<open>
  \<open>_SAFE_PART\<close>: a letter or digit and up to 127 characters of names; its \<open>$\<close> also matches before a final newline.
\<close>

definition is_alnum :: "char \<Rightarrow> bool" where
  "is_alnum c \<longleftrightarrow> (let n = (of_char c :: nat) in (48 \<le> n \<and> n \<le> 57) \<or> (65 \<le> n \<and> n \<le> 90) \<or> (97 \<le> n \<and> n \<le> 122))"

definition is_part_char :: "char \<Rightarrow> bool" where
  "is_part_char c \<longleftrightarrow> is_alnum c \<or> c \<in> {CHR ''_'', CHR ''.'', CHR '':'', CHR ''@'', CHR ''-''}"

definition is_safe_part :: "string \<Rightarrow> bool" where
  "is_safe_part s =
     (case s of
        [] \<Rightarrow> False
      | c # cs \<Rightarrow>
          (let body = (if cs \<noteq> [] \<and> last cs = CHR 0x0A then butlast cs else cs)
           in is_alnum c \<and> length body \<le> 127 \<and> (\<forall>d \<in> set body. is_part_char d)))"

definition safe_part :: "string \<Rightarrow> string \<Rightarrow> string res" where
  "safe_part v label = (if is_safe_part v then Inr v else Inl (AuthorizationContextError (''invalid '' @ label)))"

definition directive_text :: "(json \<Rightarrow> string) \<Rightarrow> json \<Rightarrow> string res" where
  "directive_text repr_of content =
     (let body = py_strip (str_or_empty repr_of content) in
      if body = [] then Inl (AuthorizationContextError ''a directive needs user-authored text'')
      else Inr (take MAX_DIRECTIVE_CHARS body))"

subsection \<open>Documents\<close>

record directive =
  dv_id :: string
  dv_message_id :: string
  dv_timestamp :: real
  dv_content :: string
  dv_source_type :: string
  dv_operation :: string

record auth_doc =
  ad_context_id :: string
  ad_revision :: int
  ad_created_at :: real
  ad_updated_at :: real
  ad_user_id :: string
  ad_conversation_id :: string
  ad_root_turn_id :: string
  ad_root_message_id :: string
  ad_directives :: "directive list"
  ad_optional_context :: json

type_synonym auth_key = "string \<times> string \<times> string"

record auth_store =
  as_files :: "(auth_key, auth_doc option) dict"
  as_cache :: "(string \<times> string \<times> string \<times> int, auth_doc) dict"

record envelope_view =
  ev_context_id :: string
  ev_revision :: int
  ev_root_request :: string
  ev_followups :: "string list"
  ev_directive_ids :: "string list"
  ev_optional_plan :: json
  ev_truncated :: bool

fun bounded_texts :: "string list \<Rightarrow> int \<Rightarrow> string list \<times> bool" where
  "bounded_texts [] remaining = ([], False)"
| "bounded_texts (t # ts) remaining =
     (if remaining \<le> 0 then ([], True)
      else if int (length t) > remaining then ([take (nat remaining) t], True)
      else (let (rest, cut) = bounded_texts ts (remaining - int (length t)) in (t # rest, cut)))"

definition authority_envelope :: "auth_doc \<Rightarrow> int \<Rightarrow> envelope_view" where
  "authority_envelope doc max_chars =
     (let directives = ad_directives doc;
          root = (case directives of [] \<Rightarrow> [] | d # _ \<Rightarrow> dv_content d);
          followups = map dv_content (tl directives);
          budget = max 256 max_chars;
          cut = int (length root) > budget;
          root' = (if cut then take (nat budget) root else root);
          (bounded, more) = bounded_texts followups (budget - int (length root'))
      in \<lparr>ev_context_id = ad_context_id doc, ev_revision = ad_revision doc, ev_root_request = root', ev_followups = bounded,
           ev_directive_ids = map dv_id directives,
           ev_optional_plan = jget_or (or_dict (ad_optional_context doc)) ''pawflow_plan_snapshot'' JNull,
           ev_truncated = (cut \<or> more)\<rparr>)"

subsection \<open>The store\<close>

definition auth_path :: "string \<Rightarrow> string \<Rightarrow> string \<Rightarrow> auth_key res" where
  "auth_path user conv context =
     bind_res (safe_part user ''user_id'') (\<lambda>u.
     bind_res (safe_part conv ''conversation_id'') (\<lambda>c.
     bind_res (safe_part context ''context_id'') (\<lambda>x. Inr (u, c, x))))"

definition auth_read :: "auth_store \<Rightarrow> auth_key \<Rightarrow> auth_doc option" where
  "auth_read st path = (case map_of (as_files st) path of None \<Rightarrow> None | Some d \<Rightarrow> d)"

definition auth_write :: "auth_key \<Rightarrow> auth_doc \<Rightarrow> auth_store \<Rightarrow> auth_store" where
  "auth_write path doc st = st\<lparr>as_files := AList.update path (Some doc) (as_files st)\<rparr>"

definition remember :: "auth_doc \<Rightarrow> auth_store \<Rightarrow> auth_store" where
  "remember doc st =
     (let cache = AList.update (ad_user_id doc, ad_conversation_id doc, ad_context_id doc, ad_revision doc) doc (as_cache st)
      in st\<lparr>as_cache := drop (length cache - CACHE_LIMIT) cache\<rparr>)"

definition auth_create ::
    "(json \<Rightarrow> string) \<Rightarrow> string \<Rightarrow> string \<Rightarrow> real \<Rightarrow> string \<Rightarrow> string \<Rightarrow> string \<Rightarrow> string \<Rightarrow> json \<Rightarrow> json \<Rightarrow> auth_store \<Rightarrow>
     (auth_doc \<times> auth_store) res" where
  "auth_create repr_of context_id directive_id now user conv root_turn root_message content optional st =
     bind_res (directive_text repr_of content) (\<lambda>body.
     bind_res (safe_part user ''user_id'') (\<lambda>u.
     bind_res (safe_part conv ''conversation_id'') (\<lambda>c.
       (let doc = \<lparr>ad_context_id = context_id, ad_revision = 1, ad_created_at = now, ad_updated_at = now, ad_user_id = u,
              ad_conversation_id = c, ad_root_turn_id = root_turn, ad_root_message_id = root_message,
              ad_directives = [\<lparr>dv_id = directive_id, dv_message_id = root_message, dv_timestamp = now, dv_content = body,
                dv_source_type = ''user'', dv_operation = ''root''\<rparr>],
              ad_optional_context = or_dict optional\<rparr> in
        bind_res (auth_path user conv context_id) (\<lambda>path. Inr (doc, remember doc (auth_write path doc st)))))))"

definition auth_get :: "string \<Rightarrow> string \<Rightarrow> string \<Rightarrow> auth_store \<Rightarrow> (auth_doc option) res" where
  "auth_get user conv context st = bind_res (auth_path user conv context) (\<lambda>path. Inr (auth_read st path))"

definition append_user_directive ::
    "(json \<Rightarrow> string) \<Rightarrow> string \<Rightarrow> real \<Rightarrow> string \<Rightarrow> string \<Rightarrow> string \<Rightarrow> string \<Rightarrow> json \<Rightarrow> int option \<Rightarrow> string \<Rightarrow> auth_store \<Rightarrow>
     (auth_doc \<times> auth_store) res" where
  "append_user_directive repr_of directive_id now user conv context message content expected source_type st =
     (if source_type \<noteq> ''user'' then Inl (AuthorizationContextError ''only authenticated user input may revise authority'')
      else bind_res (directive_text repr_of content) (\<lambda>body.
        bind_res (auth_path user conv context) (\<lambda>path.
          case auth_read st path of
            None \<Rightarrow> Inl (AuthorizationContextError ''authorization context not found'')
          | Some doc \<Rightarrow>
              if expected \<noteq> None \<and> expected \<noteq> Some (ad_revision doc) then Inl (StaleRevisionError ''revision'')
              else
                (let doc' = doc\<lparr>ad_directives := ad_directives doc @
                       [\<lparr>dv_id = directive_id, dv_message_id = message, dv_timestamp = now, dv_content = body,
                         dv_source_type = ''user'', dv_operation = ''revise''\<rparr>],
                       ad_revision := ad_revision doc + 1, ad_updated_at := now\<rparr>
                 in Inr (doc', remember doc' (auth_write path doc' st))))))"

definition auth_snapshot :: "string \<Rightarrow> string \<Rightarrow> string \<Rightarrow> int option \<Rightarrow> auth_store \<Rightarrow> auth_doc option" where
  "auth_snapshot user conv context revision st =
     (case auth_path user conv context of
        Inl _ \<Rightarrow> None
      | Inr path \<Rightarrow>
          (case auth_read st path of
             None \<Rightarrow> None
           | Some doc \<Rightarrow>
               (case revision of
                  None \<Rightarrow> Some doc
                | Some n \<Rightarrow> if n = ad_revision doc then Some doc else map_of (as_cache st) (user, conv, context, n))))"

definition auth_ref :: "auth_doc \<Rightarrow> authorization_ref" where
  "auth_ref doc = \<lparr>rf_context_id = ad_context_id doc, rf_revision = ad_revision doc, rf_root_turn_id = ad_root_turn_id doc\<rparr>"

definition list_for_conversation :: "string \<Rightarrow> string \<Rightarrow> auth_store \<Rightarrow> (auth_doc list) res" where
  "list_for_conversation user conv st =
     bind_res (safe_part user ''user_id'') (\<lambda>u.
     bind_res (safe_part conv ''conversation_id'') (\<lambda>c.
       (let files = filter (\<lambda>((u', c', x), d). u' = u \<and> c' = c) (as_files st);
            named = sort_key (\<lambda>((u', c', x), d). x @ ''.json'') files
        in Inr (sort_key ad_created_at (concat (map (\<lambda>(k, d). case d of None \<Rightarrow> [] | Some doc \<Rightarrow> [doc]) named))))))"

definition delete_for_conversation :: "string \<Rightarrow> string \<Rightarrow> auth_store \<Rightarrow> (nat \<times> auth_store) res" where
  "delete_for_conversation user conv st =
     bind_res (safe_part user ''user_id'') (\<lambda>u.
     bind_res (safe_part conv ''conversation_id'') (\<lambda>c.
       (let here = (\<lambda>((u', c', x), d). u' = u \<and> c' = c) in
        Inr (length (filter here (as_files st)),
          st\<lparr>as_files := filter (\<lambda>e. \<not> here e) (as_files st),
             as_cache := filter (\<lambda>((u', c', x, n), d). \<not> (u' = user \<and> c' = conv)) (as_cache st)\<rparr>))))"

subsection \<open>The active authority of an agent\<close>

definition active_authority_ref ::
    "(json \<Rightarrow> string) \<Rightarrow> (string, (string, json) dict) dict \<Rightarrow> string \<Rightarrow> string \<Rightarrow> authorization_ref option" where
  "active_authority_ref repr_of extras conv agent =
     (if conv = [] \<or> agent = [] then None
      else case or_dict (get_extra extras conv ''gating_authority'') of
        JDict table \<Rightarrow>
          (let own = jget_or (JDict table) agent JNull
           in ref_from_dict repr_of (if jtruthy own then own else jget_or (JDict table) (py_lower agent) JNull))
      | _ \<Rightarrow> None)"

definition set_active_authority_ref ::
    "json \<Rightarrow> (string, (string, json) dict) dict \<Rightarrow> string \<Rightarrow> string \<Rightarrow> authorization_ref \<Rightarrow> (string, (string, json) dict) dict" where
  "set_active_authority_ref now extras conv agent ref =
     (let table = (case or_dict (get_extra extras conv ''gating_authority'') of JDict d \<Rightarrow> d | _ \<Rightarrow> [])
      in set_extra extras conv ''gating_authority'' (JDict (AList.update agent (JDict (ref_dict ref @ [(''updated_at'', now)])) table)))"

record ingress_env =
  ie_context_id :: string
  ie_directive_id :: string
  ie_now :: real
  ie_stamp :: json

definition record_user_ingress ::
    "(json \<Rightarrow> string) \<Rightarrow> ingress_env \<Rightarrow> string \<Rightarrow> string \<Rightarrow> string \<Rightarrow> string \<Rightarrow> string \<Rightarrow> json \<Rightarrow> bool \<Rightarrow>
     (string, (string, json) dict) dict \<Rightarrow> auth_store \<Rightarrow>
     (authorization_ref option \<times> (string, (string, json) dict) dict \<times> auth_store) res" where
  "record_user_ingress repr_of env user conv agent message turn content steering extras st =
     (let body = py_strip (str_or_empty repr_of content) in
      if user = [] \<or> conv = [] \<or> agent = [] \<or> body = [] then Inr (None, extras, st)
      else
        (let revised =
           (if steering then
              (case active_authority_ref repr_of extras conv agent of
                 None \<Rightarrow> Inr None
               | Some current \<Rightarrow>
                   (case append_user_directive repr_of (ie_directive_id env) (ie_now env) user conv (rf_context_id current) message
                           (JStr body) None ''user'' st of
                      Inl (AuthorizationContextError _) \<Rightarrow> Inr None
                    | Inl (StaleRevisionError _) \<Rightarrow> Inr None
                    | Inl e \<Rightarrow> Inl e
                    | Inr x \<Rightarrow> Inr (Some x)))
            else Inr None) in
         bind_res revised (\<lambda>r.
         bind_res (case r of
             Some x \<Rightarrow> Inr x
           | None \<Rightarrow> auth_create repr_of (ie_context_id env) (ie_directive_id env) (ie_now env) user conv turn message (JStr body) JNull st)
           (\<lambda>(doc, st').
             Inr (Some (auth_ref doc), set_active_authority_ref (ie_stamp env) extras conv agent (auth_ref doc), st')))))"

subsection \<open>Lineages\<close>

text \<open>\<open>au_used\<close> are the context ids that were ever given out; \<open>uuid4\<close> does not repeat one.\<close>

record auth_system =
  au_store :: auth_store
  au_used :: "string list"

inductive auth_step :: "(json \<Rightarrow> string) \<Rightarrow> auth_system \<Rightarrow> auth_system \<Rightarrow> bool" for repr_of where
  creates: "auth_create repr_of x i now user conv turn message content optional (au_store s) = Inr (doc, st') \<Longrightarrow> x \<notin> set (au_used s) \<Longrightarrow>
    auth_step repr_of s \<lparr>au_store = st', au_used = x # au_used s\<rparr>"
| appends: "append_user_directive repr_of i now user conv x message content expected source (au_store s) = Inr (doc, st') \<Longrightarrow>
    auth_step repr_of s \<lparr>au_store = st', au_used = au_used s\<rparr>"
| deletes: "delete_for_conversation user conv (au_store s) = Inr (n, st') \<Longrightarrow> auth_step repr_of s \<lparr>au_store = st', au_used = au_used s\<rparr>"

definition user_directive :: "directive \<Rightarrow> bool" where
  "user_directive d \<longleftrightarrow> dv_source_type d = ''user'' \<and> dv_content d \<noteq> [] \<and> length (dv_content d) \<le> MAX_DIRECTIVE_CHARS"

definition doc_ok :: "auth_key \<Rightarrow> auth_doc \<Rightarrow> bool" where
  "doc_ok k d \<longleftrightarrow> k = (ad_user_id d, ad_conversation_id d, ad_context_id d) \<and>
     ad_revision d = int (length (ad_directives d)) \<and> (\<forall>v \<in> set (ad_directives d). user_directive v) \<and>
     (\<exists>v vs. ad_directives d = v # vs \<and> dv_operation v = ''root'' \<and> (\<forall>w \<in> set vs. dv_operation w = ''revise''))"

text \<open>\<open>d\<close> is an earlier revision of \<open>cur\<close>, or the same.\<close>

definition earlier :: "auth_doc \<Rightarrow> auth_doc \<Rightarrow> bool" where
  "earlier d cur \<longleftrightarrow> length (ad_directives d) \<le> length (ad_directives cur) \<and>
     ad_directives d = take (length (ad_directives d)) (ad_directives cur) \<and> ad_created_at d = ad_created_at cur \<and>
     ad_root_turn_id d = ad_root_turn_id cur \<and> ad_optional_context d = ad_optional_context cur"

definition cached_ok :: "auth_store \<Rightarrow> (string \<times> string \<times> string \<times> int) \<Rightarrow> auth_doc \<Rightarrow> bool" where
  "cached_ok st key d = (case key of (u, c, x, n) \<Rightarrow>
     doc_ok (u, c, x) d \<and> ad_revision d = n \<and> (\<exists>cur. auth_read st (u, c, x) = Some cur \<and> earlier d cur))"

definition auth_inv :: "auth_system \<Rightarrow> bool" where
  "auth_inv s \<longleftrightarrow> (\<forall>k d. auth_read (au_store s) k = Some d \<longrightarrow> doc_ok k d \<and> snd (snd k) \<in> set (au_used s)) \<and>
     (\<forall>(key, d) \<in> set (as_cache (au_store s)). cached_ok (au_store s) key d)"

definition auth_grows :: "auth_system \<Rightarrow> auth_system \<Rightarrow> bool" where
  "auth_grows s s' \<longleftrightarrow> set (au_used s) \<subseteq> set (au_used s') \<and>
     (\<forall>k d'. snd (snd k) \<in> set (au_used s) \<longrightarrow> auth_read (au_store s') k = Some d' \<longrightarrow>
        (\<exists>d. auth_read (au_store s) k = Some d \<and> earlier d d'))"

lemma earlier_refl [simp]: "earlier d d"
  by (simp add: earlier_def)

lemma earlier_take: "earlier d cur \<Longrightarrow> ad_directives d = take (length (ad_directives d)) (ad_directives cur)"
  by (simp add: earlier_def)

lemma earlier_trans: "earlier a b \<Longrightarrow> earlier b c \<Longrightarrow> earlier a c"
  unfolding earlier_def by (metis min.absorb1 order_trans take_take)

lemma auth_path_Inr: "auth_path u c x = Inr k \<longleftrightarrow> k = (u, c, x) \<and> is_safe_part u \<and> is_safe_part c \<and> is_safe_part x"
  by (auto simp: auth_path_def safe_part_def bind_res_Inr_iff)

lemma directive_text_Inr: "directive_text repr_of content = Inr body \<Longrightarrow> body \<noteq> [] \<and> length body \<le> MAX_DIRECTIVE_CHARS"
  by (auto simp: directive_text_def Let_def MAX_DIRECTIVE_CHARS_def split: if_splits)

lemma read_write [simp]: "auth_read (auth_write k d st) k' = (if k' = k then Some d else auth_read st k')"
  by (simp add: auth_read_def auth_write_def update_conv')

lemma read_remember [simp]: "auth_read (remember d st) k = auth_read st k"
  by (simp add: auth_read_def remember_def Let_def)

lemma cache_remember:
  "set (as_cache (remember d (auth_write k d st))) \<subseteq>
     insert ((ad_user_id d, ad_conversation_id d, ad_context_id d, ad_revision d), d) (set (as_cache st))"
  using set_update_subset by (fastforce simp: remember_def auth_write_def Let_def dest: in_set_dropD)

lemma store_doc_inv:
  assumes "auth_inv s" "doc_ok k doc" "snd (snd k) \<in> set used" "set (au_used s) \<subseteq> set used"
    and "\<And>cur. auth_read (au_store s) k = Some cur \<Longrightarrow> earlier cur doc"
  shows "auth_inv \<lparr>au_store = remember doc (auth_write k doc (au_store s)), au_used = used\<rparr>"
proof -
  let ?st = "remember doc (auth_write k doc (au_store s))"
  have files: "doc_ok k' d \<and> snd (snd k') \<in> set used" if "auth_read ?st k' = Some d" for k' d
    using that assms(1-4) by (cases k') (auto simp: auth_inv_def split: if_splits)
  have "cached_ok ?st key d" if "(key, d) \<in> set (as_cache ?st)" for key d
  proof (cases "(key, d) \<in> set (as_cache (au_store s))")
    case True
    then have "cached_ok (au_store s) key d" using assms(1) by (auto simp: auth_inv_def)
    then show ?thesis using assms(5) by (auto simp: cached_ok_def intro: earlier_trans split: prod.splits)
  next
    case False
    then have "key = (ad_user_id doc, ad_conversation_id doc, ad_context_id doc, ad_revision doc)" "d = doc"
      using that cache_remember by fastforce+
    then show ?thesis using assms(2) by (auto simp: cached_ok_def doc_ok_def)
  qed
  then show ?thesis using files by (auto simp: auth_inv_def)
qed

lemma store_doc_grows:
  assumes "set (au_used s) \<subseteq> set used"
    and "snd (snd k) \<in> set (au_used s) \<Longrightarrow> \<exists>cur. auth_read (au_store s) k = Some cur \<and> earlier cur doc"
  shows "auth_grows s \<lparr>au_store = remember doc (auth_write k doc (au_store s)), au_used = used\<rparr>"
  using assms by (auto simp: auth_grows_def)

lemma snapshot_cases:
  assumes "auth_snapshot u c x (Some n) st = Some snap"
  obtains cur where "auth_read st (u, c, x) = Some cur" "n = ad_revision cur" "snap = cur"
  | cur where "auth_read st (u, c, x) = Some cur" "map_of (as_cache st) (u, c, x, n) = Some snap"
proof -
  obtain path where path: "auth_path u c x = Inr path" using assms by (auto simp: auth_snapshot_def split: sum.splits)
  then have "path = (u, c, x)" by (simp add: auth_path_Inr)
  moreover obtain cur where cur: "auth_read st path = Some cur" using assms path by (auto simp: auth_snapshot_def split: option.splits)
  ultimately show thesis using assms path that by (cases "n = ad_revision cur") (simp_all add: auth_snapshot_def)
qed

lemma create_cases:
  assumes "auth_create repr_of x i now user conv turn message content optional st = Inr (doc, st')"
  shows "doc_ok (user, conv, x) doc" "st' = remember doc (auth_write (user, conv, x) doc st)"
    "ad_context_id doc = x" "is_safe_part x" "length (ad_directives doc) = 1"
    "directive_text repr_of content = Inr (dv_content (last (ad_directives doc)))"
  using assms by (auto simp: auth_create_def bind_res_Inr_iff Let_def auth_path_Inr safe_part_def doc_ok_def user_directive_def
      dest: directive_text_Inr split: if_splits)

lemma append_cases:
  assumes "append_user_directive repr_of i now user conv x message content expected source st = Inr (doc, st')"
  obtains cur body where "auth_read st (user, conv, x) = Some cur" "source = ''user''" "expected = None \<or> expected = Some (ad_revision cur)"
    "directive_text repr_of content = Inr body" "is_safe_part x"
    "doc = cur\<lparr>ad_directives := ad_directives cur @ [\<lparr>dv_id = i, dv_message_id = message, dv_timestamp = now, dv_content = body,
        dv_source_type = ''user'', dv_operation = ''revise''\<rparr>], ad_revision := ad_revision cur + 1, ad_updated_at := now\<rparr>"
    "st' = remember doc (auth_write (user, conv, x) doc st)"
  using assms by (auto simp: append_user_directive_def bind_res_Inr_iff Let_def auth_path_Inr split: if_splits option.splits)

lemma append_ok:
  assumes "append_user_directive repr_of i now user conv x message content expected source st = Inr (doc, st')"
    and "\<And>cur. auth_read st (user, conv, x) = Some cur \<Longrightarrow> doc_ok (user, conv, x) cur"
  shows "doc_ok (user, conv, x) doc" "st' = remember doc (auth_write (user, conv, x) doc st)"
    "\<exists>cur. auth_read st (user, conv, x) = Some cur \<and> earlier cur doc"
    "directive_text repr_of content = Inr (dv_content (last (ad_directives doc)))" "is_safe_part x"
  using assms(1) by (rule append_cases; use assms(2) directive_text_Inr in \<open>auto simp: doc_ok_def user_directive_def earlier_def\<close>)+

lemma delete_read:
  assumes "delete_for_conversation user conv st = Inr (n, st')"
  shows "auth_read st' (u, c, x) = (if u = user \<and> c = conv then None else auth_read st (u, c, x))"
    "set (as_cache st') = {((u, c, x, m), d) \<in> set (as_cache st). \<not> (u = user \<and> c = conv)}"
proof -
  have "map_of (filter (\<lambda>((u', c', x), d). \<not> (u' = user \<and> c' = conv)) files) (u, c, x) =
    (if u = user \<and> c = conv then None else map_of files (u, c, x))" for files :: "(auth_key, auth_doc option) dict"
    by (induction files) auto
  then show "auth_read st' (u, c, x) = (if u = user \<and> c = conv then None else auth_read st (u, c, x))"
    using assms by (auto simp: delete_for_conversation_def bind_res_Inr_iff Let_def auth_read_def safe_part_def case_prod_unfold split: if_splits)
  show "set (as_cache st') = {((u, c, x, m), d) \<in> set (as_cache st). \<not> (u = user \<and> c = conv)}"
    using assms by (auto simp: delete_for_conversation_def bind_res_Inr_iff Let_def)
qed

lemma auth_step_inv: "auth_step repr_of s s' \<Longrightarrow> auth_inv s \<Longrightarrow> auth_inv s' \<and> auth_grows s s'"
proof (induction rule: auth_step.induct)
  case (creates x i now user conv turn message content optional s doc st')
  note c = create_cases [OF creates(1)]
  have "auth_read (au_store s) (user, conv, x) = None" using creates(2,3) unfolding auth_inv_def by (metis not_None_eq snd_conv)
  then show ?case using c(1) creates(2,3) unfolding c(2) by (intro conjI store_doc_inv store_doc_grows) auto
next
  case (appends i now user conv x message content expected source s doc st')
  have "doc_ok (user, conv, x) cur" if "auth_read (au_store s) (user, conv, x) = Some cur" for cur
    using appends(2) that by (simp add: auth_inv_def)
  then have a: "doc_ok (user, conv, x) doc" "st' = remember doc (auth_write (user, conv, x) doc (au_store s))"
    "\<exists>cur. auth_read (au_store s) (user, conv, x) = Some cur \<and> earlier cur doc"
    using append_ok [OF appends(1)] by blast+
  obtain cur where cur: "auth_read (au_store s) (user, conv, x) = Some cur" "earlier cur doc" using a(3) by blast
  then have "x \<in> set (au_used s)" using appends(2) unfolding auth_inv_def by (metis snd_conv)
  then show ?case using a(1) cur appends(2) unfolding a(2) by (intro conjI store_doc_inv store_doc_grows) auto
next
  case (deletes user conv s n st')
  note del = delete_read [OF deletes(1)]
  have "auth_inv \<lparr>au_store = st', au_used = au_used s\<rparr>"
  proof -
    have "cached_ok st' key d" if "(key, d) \<in> set (as_cache st')" for key d
    proof -
      obtain u c x m where key: "key = (u, c, x, m)" by (cases key) auto
      then have "cached_ok (au_store s) key d" "\<not> (u = user \<and> c = conv)" using that deletes(2) by (auto simp: del auth_inv_def)
      then show ?thesis using key by (simp add: cached_ok_def del)
    qed
    moreover have "doc_ok k d \<and> snd (snd k) \<in> set (au_used s)" if "auth_read st' k = Some d" for k d
      using that deletes(2) by (cases k) (auto simp: auth_inv_def del split: if_splits)
    ultimately show ?thesis by (auto simp: auth_inv_def)
  qed
  then show ?case by (auto simp: auth_grows_def del split: if_splits)
qed

lemma auth_grows_trans: "auth_grows a b \<Longrightarrow> auth_grows b c \<Longrightarrow> auth_grows a c"
  unfolding auth_grows_def by (meson earlier_trans subset_iff)

definition auth_start :: "auth_system \<Rightarrow> bool" where
  "auth_start s \<longleftrightarrow> as_files (au_store s) = [] \<and> as_cache (au_store s) = []"

interpretation auth: evolving_store auth_start "auth_step repr_of" auth_inv auth_grows for repr_of
proof unfold_locales
  show "auth_start s \<Longrightarrow> auth_inv s" for s by (simp add: auth_start_def auth_inv_def auth_read_def)
  show "auth_grows s s" for s by (auto simp: auth_grows_def)
qed (use auth_step_inv auth_grows_trans in blast)+

subsection \<open>What the store guarantees\<close>

text \<open>
  C19: Authority is what the user wrote and nothing else: every stored document, whatever was created, revised and deleted before,
  holds only directives of source \<open>user\<close> with bounded non-empty text, a root followed by revisions, and its revision counts them.
  A revision from any other source and one against a revision that is not current are refused.\<close>

theorem authority_is_user_text:
  assumes "auth_start s0" "(auth_step repr_of)\<^sup>*\<^sup>* s0 s" "auth_read (au_store s) (u, c, x) = Some doc"
  shows "ad_user_id doc = u \<and> ad_conversation_id doc = c \<and> ad_context_id doc = x \<and>
    ad_revision doc = int (length (ad_directives doc)) \<and> (\<forall>v \<in> set (ad_directives doc). user_directive v) \<and>
    map dv_operation (ad_directives doc) = ''root'' # replicate (length (ad_directives doc) - 1) ''revise'' \<and>
    (source \<noteq> ''user'' \<or> expected \<noteq> None \<and> expected \<noteq> Some (ad_revision doc) \<longrightarrow>
       (\<exists>e. append_user_directive repr_of i now u c x message content expected source (au_store s) = Inl e))"
proof -
  have ok: "doc_ok (u, c, x) doc"
    using auth.reachable_inv [OF assms(1,2)] assms(3) by (simp add: auth_inv_def)
  then obtain v vs where d: "ad_directives doc = v # vs" "dv_operation v = ''root''" "\<forall>w \<in> set vs. dv_operation w = ''revise''"
    by (auto simp: doc_ok_def)
  have "map dv_operation vs = replicate (length vs) ''revise''" using d(3) by (induction vs) auto
  moreover have "\<exists>e. append_user_directive repr_of i now u c x message content expected source (au_store s) = Inl e"
    if refused: "source \<noteq> ''user'' \<or> expected \<noteq> None \<and> expected \<noteq> Some (ad_revision doc)"
  proof (rule ccontr)
    assume "\<not> ?thesis"
    then obtain doc' st' where "append_user_directive repr_of i now u c x message content expected source (au_store s) = Inr (doc', st')"
      by (cases "append_user_directive repr_of i now u c x message content expected source (au_store s)") auto
    then show False using refused assms(3) by (auto elim!: append_cases)
  qed
  ultimately show ?thesis using ok d by (auto simp: doc_ok_def)
qed

definition no_authority :: auth_system where
  "no_authority = \<lparr>au_store = \<lparr>as_files = [], as_cache = []\<rparr>, au_used = []\<rparr>"

definition demo_doc :: auth_doc where
  "demo_doc = \<lparr>ad_context_id = ''x'', ad_revision = 1, ad_created_at = 5, ad_updated_at = 5, ad_user_id = ''u'', ad_conversation_id = ''c'',
     ad_root_turn_id = ''t'', ad_root_message_id = ''m'', ad_directives = [\<lparr>dv_id = ''i'', dv_message_id = ''m'', dv_timestamp = 5,
       dv_content = ''go'', dv_source_type = ''user'', dv_operation = ''root''\<rparr>], ad_optional_context = JDict []\<rparr>"

definition demo_authority :: auth_system where
  "demo_authority = \<lparr>au_store = remember demo_doc (auth_write (''u'', ''c'', ''x'') demo_doc (au_store no_authority)), au_used = [''x'']\<rparr>"

lemma demo_authority_reachable: "auth_start no_authority" "(auth_step (\<lambda>v. []))\<^sup>*\<^sup>* no_authority demo_authority"
proof -
  show "auth_start no_authority" by (simp add: auth_start_def no_authority_def)
  have "py_strip '' go'' = ''go''" "is_safe_part ''u''" "is_safe_part ''c''" "is_safe_part ''x''" by code_simp+
  moreover from this have "directive_text (\<lambda>v. []) (JStr '' go'') = Inr ''go''"
    by (simp add: directive_text_def str_or_empty_def jtruthy_def py_str_def MAX_DIRECTIVE_CHARS_def)
  ultimately have "auth_create (\<lambda>v. []) ''x'' ''i'' 5 ''u'' ''c'' ''t'' ''m'' (JStr '' go'') JNull (au_store no_authority) =
    Inr (demo_doc, au_store demo_authority)"
    by (simp add: auth_create_def auth_path_def safe_part_def demo_authority_def demo_doc_def or_dict_def jtruthy_def Let_def)
  then have "auth_step (\<lambda>v. []) no_authority \<lparr>au_store = au_store demo_authority, au_used = ''x'' # au_used no_authority\<rparr>"
    by (rule auth_step.creates) (simp add: no_authority_def)
  then show "(auth_step (\<lambda>v. []))\<^sup>*\<^sup>* no_authority demo_authority" by (simp add: demo_authority_def no_authority_def)
qed

lemma demo_read: "auth_read (au_store demo_authority) (''u'', ''c'', ''x'') = Some demo_doc"
  by (simp add: demo_authority_def)

theorem authority_is_user_text_witness:
  "\<exists>e. append_user_directive (\<lambda>v. []) ''j'' 6 ''u'' ''c'' ''x'' ''n'' (JStr ''stop'') None ''assistant'' (au_store demo_authority) = Inl e"
  using authority_is_user_text [OF demo_authority_reachable demo_read, of "''assistant''"] by blast

text \<open>
  A revision never changes: a snapshot by number returns a document of that revision whose directives are
  the first ones of the current document, and a revision once read is the same authority at every later time it can be read.\<close>

theorem revisions_immutable:
  assumes "auth_start s0" "(auth_step repr_of)\<^sup>*\<^sup>* s0 s" "(auth_step repr_of)\<^sup>*\<^sup>* s s'"
    and "auth_read (au_store s) (u, c, x) = Some doc" "auth_snapshot u c x (Some n) (au_store s') = Some snap"
  shows "ad_revision snap = n \<and> ad_context_id snap = x \<and>
    (\<exists>cur. auth_read (au_store s') (u, c, x) = Some cur \<and> ad_directives snap = take (nat n) (ad_directives cur)) \<and>
    (n = ad_revision doc \<longrightarrow> ad_directives snap = ad_directives doc) \<and>
    (n \<ge> ad_revision doc \<longrightarrow> take (nat (ad_revision doc)) (ad_directives snap) = ad_directives doc)"
proof -
  have inv: "auth_inv s" "auth_inv s'" using auth.reachable_inv [OF assms(1)] assms(2,3) by (auto intro: rtranclp_trans)
  obtain cur where cur: "auth_read (au_store s') (u, c, x) = Some cur" using assms(5) by (rule snapshot_cases)
  have ok: "doc_ok (u, c, x) doc" "doc_ok (u, c, x) cur" "x \<in> set (au_used s)"
    using inv assms(4) cur by (auto simp: auth_inv_def)
  have snap: "doc_ok (u, c, x) snap" "ad_revision snap = n" "earlier snap cur"
  proof -
    consider "n = ad_revision cur" "snap = cur" | "map_of (as_cache (au_store s')) (u, c, x, n) = Some snap"
      using assms(5) by (rule snapshot_cases) (use cur in auto)
    then have "doc_ok (u, c, x) snap \<and> ad_revision snap = n \<and> earlier snap cur"
    proof cases
      case 2
      then have "cached_ok (au_store s') (u, c, x, n) snap" using inv(2) by (auto simp: auth_inv_def dest: map_of_SomeD)
      then show ?thesis using cur by (simp add: cached_ok_def)
    qed (use ok(2) in simp)
    then show "doc_ok (u, c, x) snap" "ad_revision snap = n" "earlier snap cur" by auto
  qed
  have old: "earlier doc cur"
  proof -
    have "auth_grows s s'" by (rule auth.reachable_rel [OF assms(1-3)])
    then obtain d where "auth_read (au_store s) (u, c, x) = Some d" "earlier d cur" using ok(3) cur unfolding auth_grows_def by fastforce
    then show ?thesis using assms(4) by simp
  qed
  have len: "nat n = length (ad_directives snap)" "nat (ad_revision doc) = length (ad_directives doc)"
    using ok(1) snap(1,2) by (auto simp: doc_ok_def)
  have before: "take (nat (ad_revision doc)) (ad_directives snap) = ad_directives doc" if "n \<ge> ad_revision doc"
  proof -
    have le: "length (ad_directives doc) \<le> length (ad_directives snap)" using that len by linarith
    have "take (length (ad_directives doc)) (ad_directives snap) =
        take (length (ad_directives doc)) (take (length (ad_directives snap)) (ad_directives cur))"
      by (rule arg_cong [OF earlier_take [OF snap(3)]])
    also have "\<dots> = take (length (ad_directives doc)) (ad_directives cur)" using le by (simp add: min_def)
    also have "\<dots> = ad_directives doc" by (rule earlier_take [OF old, symmetric])
    finally show ?thesis using len by simp
  qed
  moreover have "ad_directives snap = ad_directives doc" if "n = ad_revision doc"
    using before that len by simp
  moreover have "ad_directives snap = take (nat n) (ad_directives cur)" unfolding len(1) by (rule earlier_take [OF snap(3)])
  moreover have "ad_context_id snap = x" using snap(1) by (simp add: doc_ok_def)
  ultimately show ?thesis using snap(2) cur by blast
qed

theorem revisions_immutable_witness:
  "auth_snapshot ''u'' ''c'' ''x'' (Some 1) (au_store demo_authority) = Some demo_doc \<and> ad_revision demo_doc = 1"
proof -
  have "is_safe_part ''u''" "is_safe_part ''c''" "is_safe_part ''x''" by code_simp+
  then have snap: "auth_snapshot ''u'' ''c'' ''x'' (Some 1) (au_store demo_authority) = Some demo_doc"
    using demo_read by (simp add: auth_snapshot_def auth_path_def safe_part_def demo_doc_def)
  then show ?thesis using revisions_immutable [OF demo_authority_reachable rtranclp.rtrancl_refl demo_read snap] by simp
qed

abbreviation total_length :: "string list \<Rightarrow> int" where
  "total_length ts \<equiv> sum_list (map (\<lambda>t. int (length t)) ts)"

lemma bounded_texts_spec:
  assumes "bounded_texts ts n = (out, trunc)" "0 \<le> n" "\<forall>t \<in> set ts. t \<noteq> []"
  shows "total_length out \<le> n \<and> (trunc \<longleftrightarrow> total_length ts > n) \<and> (\<not> trunc \<longrightarrow> out = ts) \<and>
    list_all2 (\<lambda>a b. a = take (length a) b) out (take (length out) ts)"
  using assms
proof (induction ts arbitrary: n out trunc)
  case (Cons t ts)
  have nonneg: "0 \<le> total_length ts" by (rule sum_list_nonneg) auto
  show ?case
  proof (cases "n \<le> 0 \<or> int (length t) > n")
    case True
    have len: "int (length t) > 0" using Cons.prems(3) by simp
    have "trunc" "out = (if n \<le> 0 then [] else [take (nat n) t])" using True Cons.prems(1) by (auto split: if_splits)
    then show ?thesis using True Cons.prems(2) nonneg len by (auto simp: min_def)
  next
    case False
    then obtain rest where rest: "bounded_texts ts (n - int (length t)) = (rest, trunc)" "out = t # rest"
      using Cons.prems(1) by (auto split: prod.splits)
    then show ?thesis using Cons.IH [OF rest(1)] Cons.prems(3) False by auto
  qed
qed simp

text \<open>
  C34: The evaluators' view of the authority is bounded and honest: its texts are prefixes of the user's directives in
  order, together at most the budget of characters, it is marked truncated exactly when the directives do not fit, and
  otherwise it carries all of them in full.\<close>

theorem envelope_bounded:
  assumes "\<forall>v \<in> set (ad_directives doc). user_directive v" "ad_directives doc = d # ds"
    and "e = authority_envelope doc max_chars" "texts = map dv_content (ad_directives doc)"
  shows "total_length (ev_root_request e # ev_followups e) \<le> max 256 max_chars \<and>
    (ev_truncated e \<longleftrightarrow> total_length texts > max 256 max_chars) \<and>
    (\<not> ev_truncated e \<longrightarrow> ev_root_request e # ev_followups e = texts) \<and>
    list_all2 (\<lambda>a b. a = take (length a) b) (ev_root_request e # ev_followups e) (take (Suc (length (ev_followups e))) texts)"
proof -
  define budget where "budget = max 256 max_chars"
  have pos: "0 \<le> budget" by (simp add: budget_def)
  let ?root = "dv_content d" and ?follow = "map dv_content ds"
  let ?root' = "if int (length ?root) > budget then take (nat budget) ?root else ?root"
  obtain out trunc where b: "bounded_texts ?follow (budget - int (length ?root')) = (out, trunc)" by fastforce
  have texts: "texts = ?root # ?follow" "\<forall>t \<in> set ?follow. t \<noteq> []" using assms by (auto simp: user_directive_def)
  have e: "ev_root_request e = ?root'" "ev_followups e = out" "ev_truncated e \<longleftrightarrow> int (length ?root) > budget \<or> trunc"
    using assms(2,3) b by (auto simp: authority_envelope_def Let_def budget_def)
  have nonneg: "0 \<le> total_length ?follow" by (rule sum_list_nonneg) auto
  show ?thesis
  proof (cases "int (length ?root) > budget")
    case True
    then have len: "int (length (take (nat budget) ?root)) = budget" using pos by (simp add: min_def)
    then have "out = []" using b True by (cases ds) auto
    then show ?thesis using True nonneg len unfolding e texts budget_def [symmetric] by auto
  next
    case False
    then show ?thesis using bounded_texts_spec [OF b _ texts(2)] unfolding e texts budget_def [symmetric] by auto
  qed
qed

theorem envelope_bounded_witness:
  "ev_truncated (authority_envelope \<lparr>ad_context_id = ''x'', ad_revision = 2, ad_created_at = 0, ad_updated_at = 0, ad_user_id = ''u'',
     ad_conversation_id = ''c'', ad_root_turn_id = [], ad_root_message_id = [],
     ad_directives = [\<lparr>dv_id = ''1'', dv_message_id = [], dv_timestamp = 0, dv_content = replicate 200 (CHR ''a''), dv_source_type = ''user'',
       dv_operation = ''root''\<rparr>, \<lparr>dv_id = ''2'', dv_message_id = [], dv_timestamp = 0, dv_content = replicate 57 (CHR ''b''),
       dv_source_type = ''user'', dv_operation = ''revise''\<rparr>], ad_optional_context = JDict []\<rparr> 100)"
proof -
  let ?ds = "[\<lparr>dv_id = ''1'', dv_message_id = [], dv_timestamp = 0, dv_content = replicate 200 (CHR ''a''), dv_source_type = ''user'',
       dv_operation = ''root''\<rparr>, \<lparr>dv_id = ''2'', dv_message_id = [], dv_timestamp = 0, dv_content = replicate 57 (CHR ''b''),
       dv_source_type = ''user'', dv_operation = ''revise''\<rparr>]"
  let ?doc = "\<lparr>ad_context_id = ''x'', ad_revision = 2, ad_created_at = 0, ad_updated_at = 0, ad_user_id = ''u'',
     ad_conversation_id = ''c'', ad_root_turn_id = [], ad_root_message_id = [], ad_directives = ?ds, ad_optional_context = JDict []\<rparr>"
  have "\<forall>v \<in> set (ad_directives ?doc). user_directive v" by (auto simp: user_directive_def MAX_DIRECTIVE_CHARS_def)
  then show ?thesis using envelope_bounded [of ?doc "hd ?ds" "tl ?ds" _ 100, OF _ _ refl refl] by simp
qed

subsection \<open>Ingress\<close>

lemma ingress_cases:
  assumes "record_user_ingress repr_of env user conv agent message turn content steering extras st = Inr (Some ref, extras', st')"
    and "body = py_strip (str_or_empty repr_of content)"
  obtains doc x where "append_user_directive repr_of (ie_directive_id env) (ie_now env) user conv x message (JStr body) None ''user'' st = Inr (doc, st')"
    "ref = auth_ref doc" "extras' = set_active_authority_ref (ie_stamp env) extras conv agent ref" "conv \<noteq> []" "agent \<noteq> []" "body \<noteq> []"
  | doc where "auth_create repr_of (ie_context_id env) (ie_directive_id env) (ie_now env) user conv turn message (JStr body) JNull st = Inr (doc, st')"
    "ref = auth_ref doc" "extras' = set_active_authority_ref (ie_stamp env) extras conv agent ref" "conv \<noteq> []" "agent \<noteq> []" "body \<noteq> []"
  using assms by (auto simp: record_user_ingress_def Let_def bind_res_Inr_iff split: if_splits option.splits sum.splits py_error.splits)

lemma active_after_set:
  assumes "map_of extras conv \<noteq> None" "conv \<noteq> []" "agent \<noteq> []" "rf_context_id ref \<noteq> []" "1 \<le> rf_revision ref"
  shows "active_authority_ref repr_of (set_active_authority_ref now extras conv agent ref) conv agent = Some ref"
proof -
  obtain d where d: "map_of extras conv = Some d" using assms(1) by blast
  have "ref_from_dict repr_of (JDict (ref_dict ref @ [(''updated_at'', now)])) = Some ref"
    using assms(4,5) by (simp add: ref_from_dict_def ref_dict_def jget_or_def jget_def str_or_empty_def py_str_def jtruthy_def json_int_def Let_def)
  moreover have "jtruthy (JDict (AList.update k v t))" for k :: string and v t by (simp add: jtruthy_def update_nonempty)
  moreover have "jtruthy (JDict (ref_dict ref @ [(''updated_at'', now)]))" by (simp add: jtruthy_def)
  ultimately show ?thesis using assms(2,3) d
    by (simp add: active_authority_ref_def set_active_authority_ref_def set_extra_def get_extra_def or_dict_def update_conv' jget_or_def jget_def Let_def)
qed

lemma active_other:
  assumes "agent' \<noteq> agent" "py_lower agent' \<noteq> agent" "conv' = conv \<longrightarrow> is_dict (or_dict (get_extra extras conv ''gating_authority''))"
  shows "active_authority_ref repr_of (set_active_authority_ref now extras conv agent ref) conv' agent' =
    active_authority_ref repr_of extras conv' agent'"
proof (cases "conv' = conv \<and> map_of extras conv \<noteq> None")
  case True
  then obtain table where "or_dict (get_extra extras conv ''gating_authority'') = JDict table"
    using assms(3) by (cases "or_dict (get_extra extras conv ''gating_authority'')") (auto simp: is_dict_def)
  then show ?thesis using True assms(1,2)
    by (auto simp: active_authority_ref_def set_active_authority_ref_def set_extra_def get_extra_def [of "AList.update _ _ _"] or_dict_def [of "JDict _"]
        jtruthy_def [of "JDict _"] update_nonempty update_conv' jget_or_def jget_def Let_def)
next
  case False
  then show ?thesis
    by (auto simp: active_authority_ref_def set_active_authority_ref_def set_extra_def get_extra_def update_conv' split: option.split)
qed

lemma directive_text_strip:
  "directive_text repr_of (JStr (py_strip t)) = Inr body \<Longrightarrow> body = take MAX_DIRECTIVE_CHARS (py_strip t)"
  by (auto simp: directive_text_def str_or_empty_def jtruthy_def py_str_def Let_def py_strip_def [of "[]"] split: if_splits)

lemma snapshot_current:
  "auth_read st (u, c, x) = Some doc \<Longrightarrow> is_safe_part u \<Longrightarrow> is_safe_part c \<Longrightarrow> is_safe_part x \<Longrightarrow>
     auth_snapshot u c x (Some (ad_revision doc)) st = Some doc"
  by (simp add: auth_snapshot_def auth_path_def safe_part_def)

lemma stored_snapshot:
  assumes "doc_ok (u, c, x) doc" "st' = remember doc (auth_write (u, c, x) doc st)" "is_safe_part u" "is_safe_part c" "is_safe_part x"
  shows "auth_snapshot u c (rf_context_id (auth_ref doc)) (Some (rf_revision (auth_ref doc))) st' = Some doc"
    "rf_context_id (auth_ref doc) \<noteq> []" "1 \<le> rf_revision (auth_ref doc)"
  using assms snapshot_current [of st' u c x doc] by (auto simp: doc_ok_def auth_ref_def is_safe_part_def)

text \<open>
  A user message becomes authority: when its ingress succeeds in an existing conversation, the agent's active reference
  is the returned one, the snapshot it names exists and ends with the message as a user directive, and the store moved by
  one of its own operations; the authority of other agents stays.\<close>

theorem ingress_establishes_authority:
  assumes "auth_start s0" "(auth_step repr_of)\<^sup>*\<^sup>* s0 s" "map_of extras conv \<noteq> None" "ie_context_id env \<notin> set (au_used s)"
    and "record_user_ingress repr_of env user conv agent message turn content steering extras (au_store s) = Inr (Some ref, extras', st')"
  shows "active_authority_ref repr_of extras' conv agent = Some ref \<and>
    (\<exists>doc. auth_snapshot user conv (rf_context_id ref) (Some (rf_revision ref)) st' = Some doc \<and> auth_ref doc = ref \<and>
       dv_content (last (ad_directives doc)) = take MAX_DIRECTIVE_CHARS (py_strip (str_or_empty repr_of content)) \<and>
       (\<forall>v \<in> set (ad_directives doc). user_directive v)) \<and>
    (\<exists>s'. auth_step repr_of s s' \<and> au_store s' = st') \<and>
    (\<forall>agent'. agent' \<noteq> agent \<and> py_lower agent' \<noteq> agent \<and> is_dict (or_dict (get_extra extras conv ''gating_authority'')) \<longrightarrow>
       active_authority_ref repr_of extras' conv agent' = active_authority_ref repr_of extras conv agent')"
proof -
  let ?body = "py_strip (str_or_empty repr_of content)"
  have inv: "auth_inv s" by (rule auth.reachable_inv [OF assms(1,2)])
  have "\<exists>doc x s'. doc_ok (user, conv, x) doc \<and> st' = remember doc (auth_write (user, conv, x) doc (au_store s)) \<and> is_safe_part user \<and>
      is_safe_part conv \<and> is_safe_part x \<and> ref = auth_ref doc \<and> directive_text repr_of (JStr ?body) = Inr (dv_content (last (ad_directives doc))) \<and>
      auth_step repr_of s s' \<and> au_store s' = st' \<and> extras' = set_active_authority_ref (ie_stamp env) extras conv agent ref \<and> conv \<noteq> [] \<and> agent \<noteq> []"
    using assms(5) refl
  proof (rule ingress_cases)
    fix doc x
    assume call: "append_user_directive repr_of (ie_directive_id env) (ie_now env) user conv x message (JStr ?body) None ''user'' (au_store s) = Inr (doc, st')"
      and rest: "ref = auth_ref doc" "extras' = set_active_authority_ref (ie_stamp env) extras conv agent ref" "conv \<noteq> []" "agent \<noteq> []"
    have "doc_ok (user, conv, x) cur" if "auth_read (au_store s) (user, conv, x) = Some cur" for cur
      using inv that by (simp add: auth_inv_def)
    note ok = append_ok [OF call this]
    have "is_safe_part user" "is_safe_part conv"
      using call by (auto simp: append_user_directive_def bind_res_Inr_iff auth_path_Inr split: if_splits)
    then show ?thesis using ok rest auth_step.appends [OF call] by (intro exI conjI) (assumption | simp)+
  next
    fix doc
    assume call: "auth_create repr_of (ie_context_id env) (ie_directive_id env) (ie_now env) user conv turn message (JStr ?body) JNull (au_store s) = Inr (doc, st')"
      and rest: "ref = auth_ref doc" "extras' = set_active_authority_ref (ie_stamp env) extras conv agent ref" "conv \<noteq> []" "agent \<noteq> []"
    note ok = create_cases [OF call]
    have "is_safe_part user" "is_safe_part conv"
      using call by (auto simp: auth_create_def bind_res_Inr_iff auth_path_Inr Let_def)
    then show ?thesis using ok rest auth_step.creates [OF call assms(4)] by (intro exI conjI) (assumption | simp)+
  qed
  then obtain doc x s' where doc: "doc_ok (user, conv, x) doc" "st' = remember doc (auth_write (user, conv, x) doc (au_store s))"
      "is_safe_part user" "is_safe_part conv" "is_safe_part x"
    and ref: "ref = auth_ref doc" "directive_text repr_of (JStr ?body) = Inr (dv_content (last (ad_directives doc)))"
    and step: "auth_step repr_of s s'" "au_store s' = st'"
    and extras: "extras' = set_active_authority_ref (ie_stamp env) extras conv agent ref" "conv \<noteq> []" "agent \<noteq> []"
    by blast
  note snap = stored_snapshot [OF doc]
  have "active_authority_ref repr_of extras' conv agent = Some ref"
    unfolding extras(1) using active_after_set [OF assms(3) extras(2,3)] snap(2,3) ref(1) by simp
  moreover have "\<forall>v \<in> set (ad_directives doc). user_directive v" using doc(1) by (simp add: doc_ok_def)
  ultimately show ?thesis using snap(1) ref directive_text_strip [OF ref(2)] step active_other unfolding extras(1) by blast
qed

theorem ingress_establishes_authority_witness:
  "\<exists>ref extras' st'. record_user_ingress (\<lambda>v. []) \<lparr>ie_context_id = ''y'', ie_directive_id = ''j'', ie_now = 6, ie_stamp = JInt 6\<rparr> ''u'' ''c'' ''bob''
     ''n'' ''t'' (JStr ''stop'') True [(''c'', [])] (au_store demo_authority) = Inr (Some ref, extras', st') \<and>
     active_authority_ref (\<lambda>v. []) extras' ''c'' ''bob'' = Some ref"
proof -
  let ?env = "\<lparr>ie_context_id = ''y'', ie_directive_id = ''j'', ie_now = 6, ie_stamp = JInt 6\<rparr> :: ingress_env"
  have "active_authority_ref (\<lambda>v. []) [(''c'', [])] ''c'' ''bob'' = None"
    by (simp add: active_authority_ref_def get_extra_def or_dict_def jtruthy_def jget_or_def jget_def ref_from_dict_def Let_def)
  moreover have plain: "py_strip ''stop'' = ''stop''" "is_safe_part ''u''" "is_safe_part ''c''" "is_safe_part ''y''" by code_simp+
  moreover from plain(1) have "directive_text (\<lambda>v. []) (JStr ''stop'') = Inr ''stop''"
    by (simp add: directive_text_def str_or_empty_def jtruthy_def py_str_def MAX_DIRECTIVE_CHARS_def)
  note plain = plain this
  have "\<exists>x. auth_create (\<lambda>v. []) ''y'' ''j'' 6 ''u'' ''c'' ''t'' ''n'' (JStr ''stop'') JNull (au_store demo_authority) = Inr x"
    using plain by (simp add: auth_create_def auth_path_def safe_part_def Let_def)
  then obtain doc st' where create: "auth_create (\<lambda>v. []) ''y'' ''j'' 6 ''u'' ''c'' ''t'' ''n'' (JStr ''stop'') JNull
      (au_store demo_authority) = Inr (doc, st')" by auto
  ultimately have call: "record_user_ingress (\<lambda>v. []) ?env ''u'' ''c'' ''bob'' ''n'' ''t'' (JStr ''stop'') True [(''c'', [])] (au_store demo_authority) =
      Inr (Some (auth_ref doc), set_active_authority_ref (JInt 6) [(''c'', [])] ''c'' ''bob'' (auth_ref doc), st')"
    using create plain(1) by (simp add: record_user_ingress_def str_or_empty_def jtruthy_def py_str_def Let_def)
  have "ie_context_id ?env \<notin> set (au_used demo_authority)" by (simp add: demo_authority_def)
  then have "active_authority_ref (\<lambda>v. []) (set_active_authority_ref (JInt 6) [(''c'', [])] ''c'' ''bob'' (auth_ref doc)) ''c'' ''bob'' = Some (auth_ref doc)"
    using ingress_establishes_authority [OF demo_authority_reachable _ _ call] by simp
  then show ?thesis using call by blast
qed

end
