(* ===== verification/Gating.thy ===== *)
theory Gating
  imports Authority
begin

section \<open>Policy gating\<close>

text \<open>
  \<open>core/gating_policy.py\<close>: the rules that decide what becomes of a tool call.  \<open>repr_of\<close> is Python's text of
  a list or an object, \<open>loads\<close> is \<open>json.loads\<close> (\<open>None\<close> for a \<open>ValueError\<close>), \<open>digest\<close> is the
  SHA-256 of the canonical text of a document.  The uuid and the clock of a record are arguments.  Strings are ASCII.
\<close>

definition DECISIONS :: "string list" where
  "DECISIONS = [''allow'', ''deny'', ''ask'', ''abstain'']"

definition FINAL_DECISIONS :: "string list" where
  "FINAL_DECISIONS = [''allow'', ''deny'', ''ask'']"

definition FAILURE_DECISIONS :: "string list" where
  "FAILURE_DECISIONS = [''ask'', ''deny'']"

definition SEVERITY :: "string \<Rightarrow> nat" where
  "SEVERITY d = (if d = ''deny'' then 3 else if d = ''ask'' then 2 else if d = ''allow'' then 1 else 0)"

definition INTERNAL_UNGATED_TOOLS :: "string list" where
  "INTERNAL_UNGATED_TOOLS = [''get_tool_schema'', ''ask_user'', ''request_confirmation'', ''compact_result'', ''read_inbox'']"

definition HARD_CONFIRM_TOOLS :: "string list" where
  "HARD_CONFIRM_TOOLS = [''create_tool'', ''delete_tool'', ''manage_resource'', ''manage_package'', ''store_secret'']"

definition HARD_CONFIRM_ACTION_PREFIXES :: "string list" where
  "HARD_CONFIRM_ACTION_PREFIXES = [''a2a_publication_'', ''mcp_publish'', ''agui_'']"

text \<open>The alternatives of \<open>_SECRET_KEY_RE\<close>, with its optional separators written out.\<close>

definition SECRET_KEY_WORDS :: "string list" where
  "SECRET_KEY_WORDS = [''authorization'', ''passw'', ''secret'', ''token'', ''apikey'', ''api-key'', ''api_key'',
     ''cookie'', ''credential'', ''privatekey'', ''private-key'', ''private_key'']"

definition is_secret_key :: "string \<Rightarrow> bool" where
  "is_secret_key key \<longleftrightarrow> (\<exists>w \<in> set SECRET_KEY_WORDS. py_str_in w (py_lower key))"

subsection \<open>Decisions\<close>

definition normalize_decision :: "(json \<Rightarrow> string) \<Rightarrow> json \<Rightarrow> string" where
  "normalize_decision repr_of v =
     (let t = py_lower (py_strip (str_or_empty repr_of v)) in if t \<in> set DECISIONS then t else [])"

text \<open>\<open>re.sub("<[^>]*>", "", text)\<close>\<close>

function strip_tags :: "string \<Rightarrow> string" where
  "strip_tags [] = []"
| "strip_tags (c # cs) =
     (if c = CHR ''<'' then
        (case dropWhile (\<lambda>d. d \<noteq> CHR ''>'') cs of [] \<Rightarrow> c # strip_tags cs | _ # rest \<Rightarrow> strip_tags rest)
      else c # strip_tags cs)"
  by pat_completeness auto
termination
proof (relation "measure length")
  fix c :: char and cs x and rest :: string
  assume "dropWhile (\<lambda>d. d \<noteq> CHR ''>'') cs = x # rest"
  then have "length (x # rest) \<le> length cs" by (metis length_dropWhile_le)
  then show "(rest, c # cs) \<in> measure length" by simp
qed auto

definition is_control :: "char \<Rightarrow> bool" where
  "is_control c \<longleftrightarrow> (let n = (of_char c :: nat) in n \<le> 8 \<or> n = 11 \<or> n = 12 \<or> 14 \<le> n \<and> n \<le> 31)"

definition sanitize_reason :: "(json \<Rightarrow> string) \<Rightarrow> json \<Rightarrow> nat \<Rightarrow> string" where
  "sanitize_reason repr_of reason limit =
     take limit (join_with '' '' (py_split_ws [] (filter (\<lambda>c. \<not> is_control c) (strip_tags (str_or_empty repr_of reason)))))"

record eval_result =
  er_decision_id :: string
  er_created_at :: json
  er_decision :: string
  er_reason :: string
  er_rule_id :: string
  er_matched :: "string list"
  er_source :: string
  er_source_id :: string
  er_metadata :: json

definition evaluator_result ::
    "(json \<Rightarrow> string) \<Rightarrow> string \<Rightarrow> json \<Rightarrow> json \<Rightarrow> json \<Rightarrow> string \<Rightarrow> string \<Rightarrow> json \<Rightarrow> json list \<Rightarrow> json \<Rightarrow> eval_result res" where
  "evaluator_result repr_of uuid now decision reason source source_id rule_id matched metadata =
     (let d = normalize_decision repr_of decision in
      if d = [] then Inl (ValueError ''invalid gating decision'')
      else Inr \<lparr>er_decision_id = uuid, er_created_at = now, er_decision = d, er_reason = sanitize_reason repr_of reason 500,
        er_rule_id = take 120 (str_or_empty repr_of rule_id), er_matched = take 32 (map (py_str repr_of) (filter jtruthy matched)),
        er_source = source, er_source_id = source_id, er_metadata = (if jtruthy metadata then metadata else JDict [])\<rparr>)"

fun merge_loop :: "(json \<Rightarrow> string) \<Rightarrow> json list \<Rightarrow> string \<Rightarrow> string res" where
  "merge_loop repr_of [] best = Inr best"
| "merge_loop repr_of (r # rs) best =
     bind_res (if jtruthy r then dict_get_res r ''decision'' JNull else Inr JNull) (\<lambda>v.
       (let d = normalize_decision repr_of v
        in merge_loop repr_of rs (if d \<noteq> [] \<and> SEVERITY d > SEVERITY best then d else best)))"

definition merge_decisions :: "(json \<Rightarrow> string) \<Rightarrow> json list \<Rightarrow> string \<Rightarrow> string res" where
  "merge_decisions repr_of results failure =
     bind_res (merge_loop repr_of results ''abstain'') (\<lambda>best.
       Inr (if best = ''abstain'' then (if failure \<in> set FAILURE_DECISIONS then failure else ''ask'') else best))"

definition compose_final :: "string option \<Rightarrow> string option \<Rightarrow> string" where
  "compose_final conversation agent =
     (let ok = (\<lambda>d. case d of None \<Rightarrow> [] | Some x \<Rightarrow> if x \<in> set FINAL_DECISIONS then [x] else []) in
      case ok conversation @ ok agent of
        [] \<Rightarrow> ''ask''
      | [d] \<Rightarrow> d
      | d # e # _ \<Rightarrow> if SEVERITY e > SEVERITY d then e else d)"

subsection \<open>Redaction\<close>

text \<open>\<open>text.replace(old, new)\<close>\<close>

function py_replace :: "string \<Rightarrow> string \<Rightarrow> string \<Rightarrow> string" where
  "py_replace old new s =
     (if old = [] then concat (map (\<lambda>c. new @ [c]) s) @ new
      else case s of
        [] \<Rightarrow> []
      | c # cs \<Rightarrow> if py_startswith s old then new @ py_replace old new (drop (length old) s) else c # py_replace old new cs)"
  by pat_completeness auto
termination by (relation "measure (\<lambda>(old, new, s). length s)") (auto simp: neq_Nil_conv)

declare py_replace.simps [simp del]

text \<open>The secrets that are looked for, longest first; \<open>values\<close> is the set of values in its iteration order.\<close>

definition known_secrets :: "string list \<Rightarrow> string list" where
  "known_secrets values = sort_key_desc length (filter (\<lambda>s. length s \<ge> 4) (dedup values))"

definition hide_secrets :: "string list \<Rightarrow> string \<Rightarrow> string" where
  "hide_secrets secrets text = foldl (\<lambda>t s. if py_str_in s t then py_replace s ''<secret>'' t else t) text secrets"

definition more_chars :: "nat \<Rightarrow> string" where
  "more_chars n = ''...<'' @ int_str (int n) @ '' more chars>''"

definition scrub_text :: "string list \<Rightarrow> nat \<Rightarrow> string \<Rightarrow> string" where
  "scrub_text secrets max_string text =
     (let t = hide_secrets secrets text in
      if length t > max_string then take max_string t @ more_chars (length t - max_string) else t)"

function redact_walk :: "string list \<Rightarrow> nat \<Rightarrow> nat \<Rightarrow> nat \<Rightarrow> json \<Rightarrow> nat \<Rightarrow> json" where
  "redact_walk secrets ms mi md v depth =
     (if depth > md then JStr ''<depth limit>''
      else case v of
        JDict d \<Rightarrow>
          (let out = map (\<lambda>(k, x). (k, if is_secret_key k then JStr ''<redacted>'' else redact_walk secrets ms mi md x (Suc depth))) (take mi d)
           in JDict (if length d > mi then AList.update ''<truncated>'' (JStr (int_str (int (length d - mi)) @ '' more keys'')) out else out))
      | JList xs \<Rightarrow>
          JList (map (\<lambda>x. redact_walk secrets ms mi md x (Suc depth)) (take mi xs) @
            (if length xs > mi then [JStr (''<'' @ int_str (int (length xs - mi)) @ '' more items>'')] else []))
      | JStr s \<Rightarrow> JStr (scrub_text secrets ms s)
      | _ \<Rightarrow> v)"
  by pat_completeness auto
termination by (relation "measure (\<lambda>(secrets, ms, mi, md, v, depth). Suc md - depth)") auto

declare redact_walk.simps [simp del]

definition redact_arguments :: "string list \<Rightarrow> nat \<Rightarrow> nat \<Rightarrow> nat \<Rightarrow> json \<Rightarrow> json" where
  "redact_arguments values max_string max_items max_depth arguments =
     redact_walk (known_secrets values) max_string max_items max_depth arguments 0"

definition canonical_hash :: "(json \<Rightarrow> string) \<Rightarrow> string \<Rightarrow> json \<Rightarrow> string" where
  "canonical_hash digest tool redacted = digest (JDict [(''tool'', JStr tool), (''arguments'', redacted)])"

subsection \<open>Classification\<close>

definition CAPABILITY_EFFECTS :: "string list" where
  "CAPABILITY_EFFECTS = [''filesystem.read'', ''filesystem.write'', ''process.execute'', ''network.read'', ''network.write'',
     ''browser.observe'', ''browser.control'', ''desktop.observe'', ''desktop.control'', ''messaging.send'', ''resource.read'',
     ''resource.write'', ''secret.use'', ''secret.write'', ''agent.spawn'', ''agent.control'', ''workflow.execute'',
     ''external.side_effect'']"

definition READ_ONLY_EFFECTS :: "string list" where
  "READ_ONLY_EFFECTS = [''filesystem.read'', ''network.read'', ''browser.observe'', ''desktop.observe'', ''resource.read'']"

definition is_mutating_call :: "string \<Rightarrow> json \<Rightarrow> bool" where
  "is_mutating_call tool arguments = (case is_read_only_allowed tool arguments of Inl _ \<Rightarrow> True | Inr b \<Rightarrow> \<not> b)"

text \<open>The guard of the read-only modes: \<open>Some reason\<close> denies the call.\<close>

definition read_only_guard :: "string \<Rightarrow> json \<Rightarrow> string \<Rightarrow> (string list) option \<Rightarrow> (string option) res" where
  "read_only_guard name args mode effects =
     (if mode \<in> {''read_only'', ''advisor_read_only''} then
        (case effects of
           Some es \<Rightarrow>
             Inr (if \<not> set es \<subseteq> set CAPABILITY_EFFECTS then Some ''unknown capability effect''
                  else if es = [] \<or> \<not> set es \<subseteq> set READ_ONLY_EFFECTS then Some ''read-only mode'' else None)
         | None \<Rightarrow> bind_res (is_read_only_allowed name args) (\<lambda>ok. Inr (if ok then None else Some ''read-only mode'')))
      else Inr None)"

definition call_command :: "(json \<Rightarrow> string) \<Rightarrow> json \<Rightarrow> string" where
  "call_command repr_of args =
     (let cmd = jget_or args ''command'' JNull in str_or_empty repr_of (if jtruthy cmd then cmd else jget_or args ''cmd'' JNull))"

definition confirm_reason :: "(json \<Rightarrow> string) \<Rightarrow> string \<Rightarrow> json \<Rightarrow> string option" where
  "confirm_reason repr_of name args =
     (let action = str_or_empty repr_of (jget_or args ''action'' JNull);
          paths = (case write_paths repr_of name args of Inl _ \<Rightarrow> [] | Inr ps \<Rightarrow> ps) in
      if name \<in> set HARD_CONFIRM_TOOLS then Some ''widens agent capabilities''
      else if \<exists>p \<in> set HARD_CONFIRM_ACTION_PREFIXES. py_startswith action p then Some ''changes a published surface''
      else if is_command_bearing_tool name \<and> is_catastrophic_command (JStr (call_command repr_of args)) = Inr True
        then Some ''catastrophic command''
      else if \<exists>p \<in> set paths. is_protected_path p then Some ''writes a protected path''
      else None)"

definition classify_call ::
    "(json \<Rightarrow> string) \<Rightarrow> string \<Rightarrow> json \<Rightarrow> string \<Rightarrow> string \<Rightarrow> bool \<Rightarrow> (string list) option \<Rightarrow> (string \<times> string) res" where
  "classify_call repr_of tool arguments mode permission override effects =
     (let name = normalize_tool_name tool;
          args = (if is_dict arguments then arguments else JDict []) in
      if name \<in> set INTERNAL_UNGATED_TOOLS then Inr (''internal_ungated'', ''authorization plumbing'')
      else if permission = ''deny'' then Inr (''hard_deny'', ''tool is denied by permission settings'')
      else bind_res (read_only_guard name args mode effects) (\<lambda>denied.
        case denied of
          Some reason \<Rightarrow> Inr (''hard_deny'', reason)
        | None \<Rightarrow>
            bind_res (if override then bind_res (is_read_only_allowed name args) (\<lambda>ok. Inr (\<not> ok)) else Inr False) (\<lambda>blocked.
              if blocked then Inr (''hard_deny'', ''read-only mode'')
              else if permission = ''confirm'' then Inr (''hard_confirm'', ''tool requires confirmation by permission settings'')
              else case confirm_reason repr_of name args of
                Some reason \<Rightarrow> Inr (''hard_confirm'', reason)
              | None \<Rightarrow> Inr (''ordinary'', []))))"

subsection \<open>The envelope\<close>

record call_identity =
  ci_user :: string
  ci_conversation :: string
  ci_agent :: string
  ci_turn :: string
  ci_tool :: string
  ci_call :: string

definition view_json :: "envelope_view \<Rightarrow> json" where
  "view_json v = JDict [(''context_id'', JStr (ev_context_id v)), (''revision'', JInt (ev_revision v)),
     (''root_request'', JStr (ev_root_request v)), (''followups'', JList (map JStr (ev_followups v))),
     (''directive_ids'', JList (map JStr (ev_directive_ids v))), (''optional_plan'', ev_optional_plan v),
     (''truncated'', JBool (ev_truncated v))]"

definition build_envelope ::
    "(json \<Rightarrow> string) \<Rightarrow> string \<Rightarrow> json \<Rightarrow> call_identity \<Rightarrow> json \<Rightarrow> auth_doc option \<Rightarrow> string list \<Rightarrow> string \<Rightarrow> int option \<Rightarrow>
     (string list) option \<Rightarrow> json" where
  "build_envelope digest uuid now who arguments authorization values classification max_chars effects =
     (let redacted = redact_arguments values 2000 64 8 arguments;
          bound = (case max_chars of None \<Rightarrow> DEFAULT_ENVELOPE_CHARS | Some n \<Rightarrow> if n = 0 then DEFAULT_ENVELOPE_CHARS else n);
          authority = (case authorization of None \<Rightarrow> JNull | Some doc \<Rightarrow> view_json (authority_envelope doc bound));
          known = or_dict authority in
      JDict [(''schema_version'', JInt 1), (''decision_id'', JStr uuid), (''created_at'', now),
        (''identity'', JDict [(''user_id'', JStr (ci_user who)), (''conversation_id'', JStr (ci_conversation who)),
           (''agent_name'', JStr (ci_agent who)), (''turn_id'', JStr (ci_turn who)),
           (''authorization_context_id'', jget_or known ''context_id'' (JStr [])),
           (''authorization_revision'', jget_or known ''revision'' (JInt 0))]),
        (''authority'', authority), (''authority_missing'', JBool (authority = JNull)),
        (''tool_call'', JDict [(''call_id'', JStr (ci_call who)), (''canonical_name'', JStr (ci_tool who)),
           (''arguments'', redacted), (''arguments_sha256'', JStr (canonical_hash digest (ci_tool who) redacted)),
           (''policy_classification'', JStr classification),
           (''mutating'', JBool (is_mutating_call (ci_tool who) arguments)),
           (''capability_effects'', JList (map JStr (case effects of None \<Rightarrow> [] | Some es \<Rightarrow> es)))])])"

subsection \<open>The answer of a gate model\<close>

fun first_json :: "(string \<Rightarrow> json option) \<Rightarrow> string \<Rightarrow> string \<Rightarrow> nat \<Rightarrow> nat \<Rightarrow> nat option \<Rightarrow> bool \<Rightarrow> bool \<Rightarrow> json option" where
  "first_json loads text [] index depth start in_string escape = None"
| "first_json loads text (c # cs) index depth start in_string escape =
     (if in_string then
        (if escape then first_json loads text cs (Suc index) depth start True False
         else if c = CHR 0x5C then first_json loads text cs (Suc index) depth start True True
         else if c = CHR 0x22 then first_json loads text cs (Suc index) depth start False False
         else first_json loads text cs (Suc index) depth start True False)
      else if c = CHR 0x22 then first_json loads text cs (Suc index) depth start True escape
      else if c = CHR ''{'' then
        first_json loads text cs (Suc index) (Suc depth) (if depth = 0 then Some index else start) False escape
      else if c = CHR ''}'' \<and> depth \<noteq> 0 then
        (if depth = 1 \<and> start \<noteq> None then
           (case loads (drop (the start) (take (Suc index) text)) of
              None \<Rightarrow> first_json loads text cs (Suc index) 0 None False escape
            | Some v \<Rightarrow> if is_dict v then Some v else None)
         else first_json loads text cs (Suc index) (depth - 1) start False escape)
      else first_json loads text cs (Suc index) depth start False escape)"

definition first_json_object :: "(string \<Rightarrow> json option) \<Rightarrow> string \<Rightarrow> json option" where
  "first_json_object loads text = first_json loads text text 0 0 None False False"

definition ALLOWED_LLM_KEYS :: "string list" where
  "ALLOWED_LLM_KEYS = [''decision'', ''reason'', ''matched_directive_ids'', ''rule_id'']"

record llm_decision =
  ld_decision :: string
  ld_reason :: string
  ld_matched :: "string list"
  ld_rule_id :: string

definition parse_llm_decision :: "(json \<Rightarrow> string) \<Rightarrow> (string \<Rightarrow> json option) \<Rightarrow> json \<Rightarrow> llm_decision option" where
  "parse_llm_decision repr_of loads text =
     (case first_json_object loads (str_or_empty repr_of text) of
        Some (JDict raw) \<Rightarrow>
          if \<not> set (map fst raw) \<subseteq> set ALLOWED_LLM_KEYS then None
          else
            (let get = (\<lambda>k. jget_or (JDict raw) k JNull);
                 d = normalize_decision repr_of (get ''decision'');
                 matched = (if jtruthy (get ''matched_directive_ids'') then get ''matched_directive_ids'' else JList []) in
             if d = [] then None
             else case matched of
               JList ids \<Rightarrow>
                 Some \<lparr>ld_decision = d, ld_reason = sanitize_reason repr_of (get ''reason'') 500,
                   ld_matched = take 32 (map (py_str repr_of) ids), ld_rule_id = take 120 (str_or_empty repr_of (get ''rule_id''))\<rparr>
             | _ \<Rightarrow> None)
      | _ \<Rightarrow> None)"

definition result_json :: "eval_result \<Rightarrow> json" where
  "result_json r = JDict [(''decision_id'', JStr (er_decision_id r)), (''created_at'', er_created_at r), (''decision'', JStr (er_decision r)),
     (''reason'', JStr (er_reason r)), (''rule_id'', JStr (er_rule_id r)), (''matched_directive_ids'', JList (map JStr (er_matched r))),
     (''source'', JStr (er_source r)), (''source_id'', JStr (er_source_id r)), (''metadata'', er_metadata r)]"

definition evaluator_summary :: "eval_result list \<Rightarrow> string" where
  "evaluator_summary results =
     take 900 (join_with ''; '' (map (\<lambda>r.
       (if er_source_id r \<noteq> [] then er_source_id r else if er_source r \<noteq> [] then er_source r else ''gate'') @ '': '' @ er_decision r @
       (if er_reason r \<noteq> [] then '' ('' @ er_reason r @ '')'' else [])) results))"

subsection \<open>Merging\<close>

definition decision_of :: "(json \<Rightarrow> string) \<Rightarrow> json \<Rightarrow> string" where
  "decision_of repr_of r = normalize_decision repr_of (jget_or r ''decision'' JNull)"

lemma normalize_decision_cases: "normalize_decision repr_of v \<in> {[], ''allow'', ''deny'', ''ask'', ''abstain''}"
  by (simp add: normalize_decision_def DECISIONS_def Let_def)

lemma merge_loop_max:
  assumes "merge_loop repr_of rs best = Inr b"
  shows "SEVERITY best \<le> SEVERITY b \<and> (\<forall>r \<in> set rs. SEVERITY (decision_of repr_of r) \<le> SEVERITY b) \<and>
    (b = best \<or> (\<exists>r \<in> set rs. decision_of repr_of r = b \<and> b \<noteq> []))"
  using assms
proof (induction rs arbitrary: best)
  case (Cons r rs)
  have "jget_or r k JNull = JNull" if "\<not> jtruthy r" for k
    using that by (cases r) (simp_all add: jtruthy_def jget_or_def jget_def)
  moreover have "r = JDict d \<or> dict_get_res r ''decision'' JNull = Inl (AttributeError ''get'')" if "is_dict r \<longrightarrow> r = JDict d" for d
    using that by (cases r) (simp_all add: dict_get_res_def is_dict_def)
  ultimately have rest: "merge_loop repr_of rs (if decision_of repr_of r \<noteq> [] \<and> SEVERITY (decision_of repr_of r) > SEVERITY best
      then decision_of repr_of r else best) = Inr b"
    using Cons.prems by (cases r; cases "jtruthy r") (auto simp: decision_of_def dict_get_res_def Let_def)
  have zero: "SEVERITY [] = 0" by (simp add: SEVERITY_def)
  show ?case using Cons.IH [OF rest] zero by (auto split: if_splits)
qed simp

lemma severity_zero: "SEVERITY d = 0 \<longleftrightarrow> d \<notin> set FINAL_DECISIONS"
  by (simp add: SEVERITY_def FINAL_DECISIONS_def)

lemma merge_decisions_spec:
  assumes "merge_decisions repr_of results failure = Inr d"
  shows "d \<in> set FINAL_DECISIONS \<and> (\<forall>r \<in> set results. SEVERITY (decision_of repr_of r) \<le> SEVERITY d) \<and>
    ((\<exists>r \<in> set results. decision_of repr_of r = d) \<or>
     (\<forall>r \<in> set results. SEVERITY (decision_of repr_of r) = 0) \<and> d = (if failure = ''deny'' then ''deny'' else ''ask''))"
proof -
  obtain b where b: "merge_loop repr_of results ''abstain'' = Inr b"
    and d: "d = (if b = ''abstain'' then (if failure \<in> set FAILURE_DECISIONS then failure else ''ask'') else b)"
    using assms by (auto simp: merge_decisions_def bind_res_Inr_iff)
  note loop = merge_loop_max [OF b]
  show ?thesis
  proof (cases "b = ''abstain''")
    case True
    then have "\<forall>r \<in> set results. SEVERITY (decision_of repr_of r) = 0" using loop by (simp add: SEVERITY_def)
    moreover have "d = (if failure = ''deny'' then ''deny'' else ''ask'')" using d True by (simp add: FAILURE_DECISIONS_def)
    ultimately show ?thesis by (simp add: FINAL_DECISIONS_def)
  next
    case False
    then obtain r where r: "r \<in> set results" "decision_of repr_of r = b" "b \<noteq> []" using loop by auto
    have "b \<in> set FINAL_DECISIONS" using r False normalize_decision_cases [of repr_of "jget_or r ''decision'' JNull"]
      by (auto simp: decision_of_def FINAL_DECISIONS_def)
    then show ?thesis using loop d False r by auto
  qed
qed

lemma compose_final_spec:
  "compose_final conversation agent \<in> set FINAL_DECISIONS"
  "conversation = Some e \<or> agent = Some e \<Longrightarrow> SEVERITY e \<le> SEVERITY (compose_final conversation agent)"
proof -
  show "compose_final conversation agent \<in> set FINAL_DECISIONS"
    by (simp add: compose_final_def Let_def FINAL_DECISIONS_def split: option.split)
  have zero: "SEVERITY e = 0" if "e \<notin> set FINAL_DECISIONS" using that severity_zero by simp
  show "conversation = Some e \<or> agent = Some e \<Longrightarrow> SEVERITY e \<le> SEVERITY (compose_final conversation agent)"
    using zero by (cases conversation; cases agent; cases "e \<in> set FINAL_DECISIONS")
      (auto simp: compose_final_def Let_def split: if_splits)
qed

text \<open>
  C22: A gate can only tighten.  The merged decision of the evaluators is always final, at least as
  restrictive as every single decision, and one of them unless all abstain, when it is the failure decision;
  the composition of the conversation gate and the agent gate is final and at least as restrictive as
  each of the two.\<close>

theorem gates_only_tighten:
  assumes "merge_decisions repr_of results failure = Inr d"
  shows "d \<in> set FINAL_DECISIONS \<and> (\<forall>r \<in> set results. SEVERITY (decision_of repr_of r) \<le> SEVERITY d) \<and>
    ((\<exists>r \<in> set results. decision_of repr_of r = d) \<or>
     (\<forall>r \<in> set results. SEVERITY (decision_of repr_of r) = 0) \<and> d = (if failure = ''deny'' then ''deny'' else ''ask'')) \<and>
    compose_final conversation agent \<in> set FINAL_DECISIONS \<and>
    (\<forall>e. conversation = Some e \<or> agent = Some e \<longrightarrow> SEVERITY e \<le> SEVERITY (compose_final conversation agent))"
  using merge_decisions_spec [OF assms] compose_final_spec by blast

theorem gates_only_tighten_witness:
  "merge_decisions (\<lambda>v. []) [JDict [(''decision'', JStr ''Allow'')], JNull, JDict [(''decision'', JStr ''deny'')]] ''ask'' = Inr ''deny'' \<and>
   SEVERITY (decision_of (\<lambda>v. []) (JDict [(''decision'', JStr ''Allow'')])) \<le> SEVERITY ''deny''"
proof -
  have "merge_decisions (\<lambda>v. []) [JDict [(''decision'', JStr ''Allow'')], JNull, JDict [(''decision'', JStr ''deny'')]] ''ask'' = Inr ''deny''"
    by code_simp
  then show ?thesis using gates_only_tighten by auto
qed

subsection \<open>Structural guards\<close>

text \<open>
  The structural guards cannot be weakened: a call outside the internal tools is never better than a denial when its
  permission says deny, never better than a confirmation when it says confirm, and in a read-only mode it passes only when
  the call is on the read-only allow list or all its declared effects are read-only; an ordinary call is no tool that
  widens capabilities, carries no catastrophic command and writes no protected path.\<close>

theorem structural_guards:
  assumes "classify_call repr_of tool arguments mode permission override effects = Inr (cls, why)"
    and "name = normalize_tool_name tool" "args = (if is_dict arguments then arguments else JDict [])"
  shows "(cls = ''internal_ungated'' \<longleftrightarrow> name \<in> set INTERNAL_UNGATED_TOOLS) \<and>
    (cls = ''hard_confirm'' \<or> cls = ''ordinary'' \<longrightarrow> permission \<noteq> ''deny'' \<and>
       (override \<longrightarrow> is_read_only_allowed name args = Inr True) \<and>
       (mode \<in> {''read_only'', ''advisor_read_only''} \<longrightarrow>
          (case effects of None \<Rightarrow> is_read_only_allowed name args = Inr True | Some es \<Rightarrow> es \<noteq> [] \<and> set es \<subseteq> set READ_ONLY_EFFECTS))) \<and>
    (cls = ''ordinary'' \<longrightarrow> permission \<noteq> ''confirm'' \<and> name \<notin> set HARD_CONFIRM_TOOLS \<and>
       (is_command_bearing_tool name \<longrightarrow> is_catastrophic_command (JStr (call_command repr_of args)) \<noteq> Inr True) \<and>
       (\<forall>paths. write_paths repr_of name args = Inr paths \<longrightarrow> (\<forall>p \<in> set paths. \<not> is_protected_path p))) \<and>
    cls \<in> {''internal_ungated'', ''hard_deny'', ''hard_confirm'', ''ordinary''}"
proof -
  have guard: "case effects of None \<Rightarrow> is_read_only_allowed name args = Inr True | Some es \<Rightarrow> es \<noteq> [] \<and> set es \<subseteq> set READ_ONLY_EFFECTS"
    if "read_only_guard name args mode effects = Inr None" "mode \<in> {''read_only'', ''advisor_read_only''}"
    using that by (auto simp: read_only_guard_def bind_res_Inr_iff split: option.splits if_splits)
  have confirm: "name \<notin> set HARD_CONFIRM_TOOLS \<and>
      (is_command_bearing_tool name \<longrightarrow> is_catastrophic_command (JStr (call_command repr_of args)) \<noteq> Inr True) \<and>
      (\<forall>paths. write_paths repr_of name args = Inr paths \<longrightarrow> (\<forall>p \<in> set paths. \<not> is_protected_path p))"
    if "confirm_reason repr_of name args = None"
    using that by (auto simp: confirm_reason_def Let_def split: if_splits)
  consider "name \<in> set INTERNAL_UNGATED_TOOLS" "cls = ''internal_ungated''"
    | "name \<notin> set INTERNAL_UNGATED_TOOLS" "cls = ''hard_deny''"
    | "name \<notin> set INTERNAL_UNGATED_TOOLS" "cls = ''hard_confirm'' \<or> cls = ''ordinary'' \<and> permission \<noteq> ''confirm'' \<and> confirm_reason repr_of name args = None"
      "permission \<noteq> ''deny''" "read_only_guard name args mode effects = Inr None" "override \<longrightarrow> is_read_only_allowed name args = Inr True"
    using assms(1) unfolding classify_call_def Let_def assms(2,3) [symmetric]
    by (auto simp: bind_res_Inr_iff split: if_splits option.splits)
  then show ?thesis
  proof cases
    case 3
    then show ?thesis using guard confirm by auto
  qed auto
qed

theorem structural_guards_witness:
  "classify_call (\<lambda>v. []) ''grep'' (JDict [(''pattern'', JStr ''x'')]) ''read_only'' [] False None = Inr (''ordinary'', []) \<and>
   is_read_only_allowed ''grep'' (JDict [(''pattern'', JStr ''x'')]) = Inr True"
proof -
  have call: "classify_call (\<lambda>v. []) ''grep'' (JDict [(''pattern'', JStr ''x'')]) ''read_only'' [] False None = Inr (''ordinary'', [])"
    "normalize_tool_name ''grep'' = ''grep''" by code_simp+
  then show ?thesis using structural_guards [OF call(1) refl refl] by (simp add: is_dict_def)
qed

text \<open>
  The confirmation floor does not look at scripts: a call of \<open>execute_script\<close> with any code is ordinary in the default mode,
  while the approval gate, which reads the same argument, treats a catastrophic one as such.\<close>

theorem script_code_not_classified:
  "classify_call repr_of ''execute_script'' (JDict [(''code'', JStr s)]) ''default'' [] False effects = Inr (''ordinary'', []) \<and>
   command_class (call\<lparr>ac_tool := ''execute_script'', ac_arguments := JDict [(''code'', JStr ''rm -rf /'')]\<rparr>) = Inr (True, True)"
proof -
  have name: "normalize_tool_name ''execute_script'' = ''execute_script''" "is_command_bearing_tool ''execute_script''"
    "is_catastrophic_command (JStr ''rm -rf /'') = Inr True" "is_catastrophic_command (JStr []) = Inr False"
    "''execute_script'' \<notin> set INTERNAL_UNGATED_TOOLS" "''execute_script'' \<notin> set HARD_CONFIRM_TOOLS"
    "\<not> (\<exists>p \<in> set HARD_CONFIRM_ACTION_PREFIXES. py_startswith [] p)" by code_simp+
  have "confirm_reason repr_of ''execute_script'' (JDict [(''code'', JStr s)]) = None"
    using name by (simp add: confirm_reason_def call_command_def str_or_empty_def jget_or_def jget_def jtruthy_def
        write_paths_def dict_get_res_def text_list_def Let_def)
  then show ?thesis using name
    by (simp add: classify_call_def read_only_guard_def is_dict_def command_class_def dict_get_res_def jget_or_def jget_def jtruthy_def Let_def)
qed

subsection \<open>Secrets\<close>

lemma replace_prefix:
  assumes "old \<noteq> []"
  shows "\<exists>z. s = takeWhile (\<lambda>c. c \<noteq> CHR ''<'') (py_replace old ''<secret>'' s) @ z"
  using assms
proof (induction old "''<secret>''" s rule: py_replace.induct)
  case (1 old s)
  show ?case
  proof (cases s)
    case (Cons c cs)
    then show ?thesis using 1 by (subst py_replace.simps) auto
  qed (use 1(3) in \<open>simp add: py_replace.simps\<close>)
qed

text \<open>A secret that cannot be confused with the marker.\<close>

definition plain_secret :: "string \<Rightarrow> bool" where
  "plain_secret a \<longleftrightarrow> a \<noteq> [] \<and> CHR ''<'' \<notin> set a \<and> CHR ''>'' \<notin> set a \<and> \<not> py_str_in a ''secret''"

lemma around_mark:
  assumes "w @ e # r = x @ a @ y" "e \<notin> set a" "a \<noteq> []"
  shows "(\<exists>x'. r = x' @ a @ y) \<or> (\<exists>z. w = x @ a @ z)"
proof -
  consider us where "w = x @ us" "us @ e # r = a @ y" | us where "w @ us = x" "e # r = us @ a @ y"
    using assms(1) by (auto simp: append_eq_append_conv2)
  then show ?thesis
  proof cases
    case (1 us)
    then consider vs where "us = a @ vs" | vs where "us @ vs = a" "e # r = vs @ y" by (auto simp: append_eq_append_conv2)
    then show ?thesis
    proof cases
      case (2 vs)
      then have "vs = []" using assms(2) by (cases vs) auto
      then show ?thesis using 1(1) 2(1) by auto
    qed (use 1(1) in auto)
  next
    case (2 us)
    then show ?thesis using assms(2,3) by (cases us) (auto simp: append_eq_Cons_conv Cons_eq_append_conv)
  qed
qed

lemma marker_free:
  assumes "plain_secret a" "\<not> py_str_in a r"
  shows "\<not> py_str_in a (''<secret>'' @ r)"
proof
  have a: "CHR ''<'' \<notin> set a" "CHR ''>'' \<notin> set a" "a \<noteq> []" "\<not> py_str_in a ''secret''" using assms(1) by (auto simp: plain_secret_def)
  assume "py_str_in a (''<secret>'' @ r)"
  then obtain x y where xy: "CHR ''<'' # ''secret'' @ CHR ''>'' # r = x @ a @ y" by (auto simp: py_str_in_iff)
  then obtain x' where "''secret'' @ CHR ''>'' # r = x' @ a @ y" using a(1,3) by (cases x; cases a) auto
  then show False using around_mark [OF _ a(2,3)] a(4) assms(2) unfolding py_str_in_iff by blast
qed

lemma replace_free:
  assumes "old \<noteq> []" "plain_secret a" "a = old \<or> \<not> py_str_in a s"
  shows "\<not> py_str_in a (py_replace old ''<secret>'' s)"
  using assms
proof (induction old "''<secret>''" s rule: py_replace.induct)
  case (1 old s)
  show ?case
  proof (cases s)
    case Nil
    then show ?thesis using 1(3,4) by (subst py_replace.simps) (simp add: plain_secret_def)
  next
    case (Cons c cs)
    have suffix: "a = old \<or> \<not> py_str_in a t" if "s = u @ t" for t u using that 1(5) by (metis append_assoc py_str_in_iff)
    show ?thesis
    proof (cases "py_startswith s old")
      case True
      have "\<not> py_str_in a (py_replace old ''<secret>'' (drop (length old) s))"
        using 1(1) [OF 1(3) Cons True 1(3,4)] suffix [of "take (length old) s"] by simp
      then have "\<not> py_str_in a (''<secret>'' @ py_replace old ''<secret>'' (drop (length old) s))" by (rule marker_free [OF 1(4)])
      then show ?thesis using True Cons 1(3) by (subst py_replace.simps) simp
    next
      case False
      have rest: "\<not> py_str_in a (py_replace old ''<secret>'' cs)"
        using 1(2) [OF 1(3) Cons False 1(3,4)] suffix [of "[c]"] Cons by simp
      have eq: "py_replace old ''<secret>'' s = c # py_replace old ''<secret>'' cs"
        using False Cons 1(3) by (subst py_replace.simps) simp
      have "\<not> py_startswith (py_replace old ''<secret>'' s) a"
      proof
        assume "py_startswith (py_replace old ''<secret>'' s) a"
        then obtain r where r: "py_replace old ''<secret>'' s = a @ r" by (auto simp: py_startswith_iff)
        have "\<forall>ch \<in> set a. ch \<noteq> CHR ''<''" using 1(4) by (auto simp: plain_secret_def)
        then have "takeWhile (\<lambda>c. c \<noteq> CHR ''<'') (a @ r) = a @ takeWhile (\<lambda>c. c \<noteq> CHR ''<'') r" by simp
        then obtain z where "s = a @ z" using replace_prefix [OF 1(3), of s] r by auto
        then have "py_startswith s a" "py_str_in a s" by (auto simp: py_startswith_iff py_str_in_iff intro: exI [of _ "[]"])
        then show False using False 1(5) by blast
      qed
      then show ?thesis using rest eq by simp
    qed
  qed
qed

lemma hide_secrets_free:
  assumes "\<forall>a \<in> set secrets. plain_secret a" "a \<in> set secrets \<or> plain_secret a \<and> \<not> py_str_in a body"
  shows "\<not> py_str_in a (hide_secrets secrets body)"
  using assms
proof (induction secrets arbitrary: body)
  case (Cons b bs)
  let ?t = "if py_str_in b body then py_replace b ''<secret>'' body else body"
  have b: "b \<noteq> []" "plain_secret b" using Cons.prems(1) by (auto simp: plain_secret_def)
  have "a \<in> set bs \<or> plain_secret a \<and> \<not> py_str_in a ?t"
    using Cons.prems(2) replace_free [OF b(1), of a body] b(2) by auto
  then show ?case using Cons.IH [of ?t] Cons.prems(1) by (simp add: hide_secrets_def)
qed (simp add: hide_secrets_def)

text \<open>What a redacted document holds: its texts, and the entries of its dictionaries.\<close>

primrec json_texts :: "json \<Rightarrow> string list" where
  "json_texts JNull = []"
| "json_texts (JBool b) = []"
| "json_texts (JInt n) = []"
| "json_texts (JFloat x s) = []"
| "json_texts (JStr s) = [s]"
| "json_texts (JList xs) = concat (map json_texts xs)"
| "json_texts (JDict d) = concat (map snd (map (map_prod id json_texts) d))"

primrec json_entries :: "json \<Rightarrow> (string \<times> json) list" where
  "json_entries JNull = []"
| "json_entries (JBool b) = []"
| "json_entries (JInt n) = []"
| "json_entries (JFloat x s) = []"
| "json_entries (JStr s) = []"
| "json_entries (JList xs) = concat (map json_entries xs)"
| "json_entries (JDict d) = d @ concat (map snd (map (map_prod id json_entries) d))"

definition redaction_notice :: "string \<Rightarrow> bool" where
  "redaction_notice t \<longleftrightarrow> t = ''<redacted>'' \<or> t = ''<depth limit>'' \<or>
     (\<exists>n. t = int_str n @ '' more keys'' \<or> t = ''<'' @ int_str n @ '' more items>'')"

definition scrubbed :: "string list \<Rightarrow> nat \<Rightarrow> string \<Rightarrow> bool" where
  "scrubbed secrets ms t \<longleftrightarrow>
     (\<exists>u. (\<forall>s \<in> set secrets. \<not> py_str_in s u) \<and> (t = u \<and> length u \<le> ms \<or> (\<exists>n. t = take ms u @ more_chars n)))"

definition redacted_ok :: "string list \<Rightarrow> nat \<Rightarrow> json \<Rightarrow> bool" where
  "redacted_ok secrets ms v \<longleftrightarrow>
     (\<forall>t \<in> set (json_texts v). redaction_notice t \<or> scrubbed secrets ms t) \<and>
     (\<forall>(k, x) \<in> set (json_entries v). is_secret_key k \<longrightarrow> x = JStr ''<redacted>'')"

lemma redacted_ok_list: "redacted_ok secrets ms (JList xs) \<longleftrightarrow> (\<forall>x \<in> set xs. redacted_ok secrets ms x)"
  by (auto simp: redacted_ok_def)

lemma redacted_ok_dict:
  "redacted_ok secrets ms (JDict d) \<longleftrightarrow>
     (\<forall>(k, x) \<in> set d. redacted_ok secrets ms x \<and> (is_secret_key k \<longrightarrow> x = JStr ''<redacted>''))"
  by (fastforce simp: redacted_ok_def)

lemma redacted_ok_notice: "redaction_notice t \<Longrightarrow> redacted_ok secrets ms (JStr t)"
  by (simp add: redacted_ok_def)

lemma scrub_text_scrubbed:
  assumes "\<forall>s \<in> set secrets. plain_secret s"
  shows "scrubbed secrets ms (scrub_text secrets ms t)"
proof -
  have "\<forall>s \<in> set secrets. \<not> py_str_in s (hide_secrets secrets t)" using hide_secrets_free assms by blast
  then show ?thesis unfolding scrubbed_def scrub_text_def Let_def by (metis linorder_not_less)
qed

lemma redact_walk_ok:
  assumes "\<forall>s \<in> set secrets. plain_secret s"
  shows "redacted_ok secrets ms (redact_walk secrets ms mi md v depth)"
  using assms
proof (induction secrets ms mi md v depth rule: redact_walk.induct)
  case (1 secrets ms mi md v depth)
  note notices = redaction_notice_def
  show ?case
  proof (cases "depth > md")
    case True
    then show ?thesis by (subst redact_walk.simps) (simp add: redacted_ok_notice notices)
  next
    case False
    show ?thesis
    proof (cases v)
      case (JDict d)
      define out where "out = map (\<lambda>(k, x). (k, if is_secret_key k then JStr ''<redacted>''
        else redact_walk secrets ms mi md x (Suc depth))) (take mi d)"
      have "redacted_ok secrets ms x" "is_secret_key k \<longrightarrow> x = JStr ''<redacted>''" if "(k, x) \<in> set out" for k x
        using that 1(2) [OF False JDict] 1(3) redacted_ok_notice unfolding out_def
        by (auto simp: notices split: if_splits)
      moreover have "\<not> is_secret_key ''<truncated>''" by code_simp
      moreover have "redacted_ok secrets ms (JStr (int_str n @ '' more keys''))" for n
        by (rule redacted_ok_notice) (auto simp: notices)
      ultimately have "redacted_ok secrets ms (JDict (AList.update ''<truncated>'' (JStr (int_str n @ '' more keys'')) out))"
        "redacted_ok secrets ms (JDict out)" for n
        using set_update_subset [of "''<truncated>''" "JStr (int_str n @ '' more keys'')" out]
        unfolding redacted_ok_dict by blast+
      then show ?thesis using False JDict by (subst redact_walk.simps) (cases "mi < length d"; simp add: Let_def out_def)
    next
      case (JList xs)
      have "redacted_ok secrets ms (redact_walk secrets ms mi md x (Suc depth))" if "x \<in> set (take mi xs)" for x
        using 1(1) [OF False JList that 1(3)] .
      moreover have "redacted_ok secrets ms (JStr (''<'' @ int_str n @ '' more items>''))" for n
        by (rule redacted_ok_notice) (auto simp: notices)
      ultimately show ?thesis using False JList by (subst redact_walk.simps) (auto simp: redacted_ok_list)
    next
      case (JStr s)
      then show ?thesis using False 1(3) by (subst redact_walk.simps) (simp add: redacted_ok_def scrub_text_scrubbed)
    qed (use False in \<open>subst redact_walk.simps, simp add: redacted_ok_def\<close>)+
  qed
qed

text \<open>
  C26: Arguments shown to evaluators, streams and the audit log carry no secret in a value: when the known
  secrets cannot be confused with the marker, every text of the redacted arguments is a fixed notice or comes
  from a text that contains none of the secrets, cut at the limit, and the value under every key that names a
  secret is replaced by the notice, at every depth.\<close>

theorem redaction_hides_secrets:
  assumes "\<forall>s \<in> set (known_secrets values). plain_secret s"
    and "v = redact_arguments values max_string max_items max_depth arguments"
  shows "(\<forall>t \<in> set (json_texts v). redaction_notice t \<or> scrubbed (known_secrets values) max_string t) \<and>
    (\<forall>(k, x) \<in> set (json_entries v). is_secret_key k \<longrightarrow> x = JStr ''<redacted>'')"
  using redact_walk_ok [OF assms(1)] assms(2) unfolding redact_arguments_def redacted_ok_def by simp

theorem redaction_hides_secrets_witness:
  "redact_arguments [''hunter22''] 24 64 8 (JDict [(''api_key'', JStr ''k''), (''q'', JList [JStr ''pass hunter22 on''])]) =
     JDict [(''api_key'', JStr ''<redacted>''), (''q'', JList [JStr ''pass <secret> on''])] \<and>
   scrubbed (known_secrets [''hunter22'']) 24 ''pass <secret> on''"
proof -
  have secrets: "\<forall>s \<in> set (known_secrets [''hunter22'']). plain_secret s" by code_simp
  have eq: "redact_arguments [''hunter22''] 24 64 8 (JDict [(''api_key'', JStr ''k''), (''q'', JList [JStr ''pass hunter22 on''])]) =
    JDict [(''api_key'', JStr ''<redacted>''), (''q'', JList [JStr ''pass <secret> on''])]"
    by code_simp
  have "\<not> redaction_notice ''pass <secret> on''" by (auto simp: redaction_notice_def)
  then show ?thesis using redaction_hides_secrets [OF secrets eq [symmetric]] eq by simp
qed

text \<open>Only values are scrubbed: a secret that is a dictionary key is passed on.\<close>

lemma secret_key_text_kept:
  "redact_arguments [''hunter22''] 2000 64 8 (JDict [(''hunter22'', JStr ''pass hunter22 on'')]) =
     JDict [(''hunter22'', JStr ''pass <secret> on'')]"
  by code_simp

subsection \<open>Finding the answer in prose\<close>

text \<open>A text the scan passes over inside an object, and one it passes over inside a string.\<close>

definition passes :: "string \<Rightarrow> bool" where
  "passes u \<longleftrightarrow> (\<forall>loads text cs i d start.
     first_json loads text (u @ cs) i (Suc d) start False False = first_json loads text cs (i + length u) (Suc d) start False False)"

definition passes_quoted :: "string \<Rightarrow> bool" where
  "passes_quoted u \<longleftrightarrow> (\<forall>loads text cs i d start.
     first_json loads text (u @ cs) i d start True False = first_json loads text cs (i + length u) d start True False)"

primrec plain_floats :: "json \<Rightarrow> bool" where
  "plain_floats JNull = True"
| "plain_floats (JBool b) = True"
| "plain_floats (JInt n) = True"
| "plain_floats (JFloat x s) = (\<forall>c \<in> set s. c \<notin> {CHR 0x22, CHR ''{'', CHR ''}''})"
| "plain_floats (JStr s) = True"
| "plain_floats (JList xs) = list_all id (map plain_floats xs)"
| "plain_floats (JDict d) = list_all id (map snd (map (map_prod id plain_floats) d))"

lemma passes_Nil [simp]: "passes []" "passes_quoted []"
  by (simp_all add: passes_def passes_quoted_def)

lemma passes_append: "passes u \<Longrightarrow> passes v \<Longrightarrow> passes (u @ v)"
  by (simp add: passes_def add.assoc)

lemma passes_quoted_append: "passes_quoted u \<Longrightarrow> passes_quoted v \<Longrightarrow> passes_quoted (u @ v)"
  by (simp add: passes_quoted_def add.assoc)

lemma passes_plain: "\<forall>c \<in> set u. c \<notin> {CHR 0x22, CHR ''{'', CHR ''}''} \<Longrightarrow> passes u"
  by (induction u) (simp_all add: passes_def)

lemma passes_Cons: "c \<notin> {CHR 0x22, CHR ''{'', CHR ''}''} \<Longrightarrow> passes u \<Longrightarrow> passes (c # u)"
  by (simp add: passes_def)

lemma passes_escape: "passes_quoted (json_escape c)"
proof -
  have "hex_digit m \<noteq> CHR 0x22 \<and> hex_digit m \<noteq> CHR 0x5C" if "m < 16" for m
  proof -
    have "\<forall>m \<in> set [0..<16]. hex_digit m \<noteq> CHR 0x22 \<and> hex_digit m \<noteq> CHR 0x5C" by code_simp
    then show ?thesis using that by auto
  qed
  moreover have "c \<noteq> CHR 0x22" "c \<noteq> CHR 0x5C" if "(of_char c :: nat) \<noteq> 34" "(of_char c :: nat) \<noteq> 92" using that by auto
  ultimately show ?thesis by (auto simp: json_escape_def passes_quoted_def Let_def)
qed

lemma passes_quote: "passes (json_quote s)"
proof -
  have "passes_quoted (concat (map json_escape s))" by (induction s) (simp_all add: passes_quoted_append passes_escape)
  then show ?thesis by (simp add: passes_def passes_quoted_def json_quote_def)
qed

lemma passes_braces: "passes u \<Longrightarrow> passes (''{'' @ u @ ''}'')"
  by (simp add: passes_def)

lemma passes_join: "\<forall>u \<in> set us. passes u \<Longrightarrow> passes (join_with '','' us)"
  by (induction "'',''" us rule: join_with.induct) (simp_all add: passes_append passes_Cons)

lemma passes_entry: "passes u \<Longrightarrow> passes (json_quote k @ '':'' @ u)"
  by (simp add: passes_append passes_Cons passes_quote)

lemma nat_digits_digit: "c \<in> set (nat_digits n) \<Longrightarrow> c \<notin> {CHR 0x22, CHR ''{'', CHR ''}''}"
proof (induction n rule: nat_digits.induct)
  case (1 n)
  have "\<forall>m \<in> set [0..<10]. char_of (48 + m :: nat) \<notin> {CHR 0x22, CHR ''{'', CHR ''}''}" by code_simp
  then have digit: "char_of (48 + m :: nat) \<notin> {CHR 0x22, CHR ''{'', CHR ''}''}" if "m < 10" for m using that by auto
  have "c = char_of (48 + (if n < 10 then n else n mod 10)) \<or> \<not> n < 10 \<and> c \<in> set (nat_digits (n div 10))"
    using 1(2) by (simp add: nat_digits.simps [of n] split: if_splits)
  then show ?case using 1(1) digit [of "if n < 10 then n else n mod 10"] by (auto split: if_splits)
qed

lemma passes_int: "passes (int_str n)"
  by (rule passes_plain) (auto simp: int_str_def split: if_splits dest: nat_digits_digit)

lemma dumps_passes: "plain_floats v \<Longrightarrow> passes (json_dumps v)"
proof (induction v)
  case (JList xs)
  have "passes (''['' @ join_with '','' (map json_dumps xs) @ '']'')"
    using JList by (intro passes_append passes_join) (auto simp: list_all_iff passes_Cons)
  then show ?case by simp
next
  case (JDict d)
  have "passes (json_dumps x)" if "(k, x) \<in> set d" for k x
    using that JDict by (fastforce simp: list_all_iff)
  then have "\<forall>u \<in> set (map (\<lambda>(k, s). json_quote k @ '':'' @ s) (sort_key fst (map (map_prod id json_dumps) d))). passes u"
    by (auto intro!: passes_entry [simplified])
  then show ?case using passes_braces [OF passes_join] by simp
qed (simp_all add: passes_quote passes_int passes_plain)

lemma scan_prose:
  assumes "CHR 0x22 \<notin> set pre" "CHR ''{'' \<notin> set pre"
  shows "first_json loads body (pre @ cs) i 0 None False False = first_json loads body cs (i + length pre) 0 None False False"
  using assms by (induction pre arbitrary: i) auto

lemma first_object_found:
  assumes pre: "CHR 0x22 \<notin> set pre" "CHR ''{'' \<notin> set pre"
    and plain: "plain_floats (JDict raw)"
    and loads: "loads (json_dumps (JDict raw)) = Some (JDict answer)"
  shows "first_json_object loads (pre @ json_dumps (JDict raw) @ post) = Some (JDict answer)"
proof -
  let ?in = "join_with '','' (map (\<lambda>(k, s). json_quote k @ '':'' @ s) (sort_key fst (map (map_prod id json_dumps) raw)))"
  have dumps: "json_dumps (JDict raw) = ''{'' @ ?in @ ''}''" by simp
  have "passes (json_dumps x)" if "(k, x) \<in> set raw" for k x
    using that plain dumps_passes by (fastforce simp: list_all_iff)
  then have inner: "passes ?in" by (intro passes_join) (auto intro!: passes_entry [simplified])
  let ?text = "pre @ json_dumps (JDict raw) @ post"
  have "drop (length pre) (take (Suc (Suc (length pre + length ?in))) ?text) = json_dumps (JDict raw)"
    unfolding dumps by simp
  then show ?thesis using inner loads unfolding first_json_object_def
    by (subst (2) dumps) (simp add: scan_prose [OF pre] passes_def is_dict_def del: json_dumps.simps)
qed

text \<open>
  The gate model's answer is found in prose: an object written by \<open>json.dumps\<close> after any text without a brace
  or a quotation mark, and before any text, is exactly what is read, and it is taken as a decision if and
  only if its keys are the allowed ones, its decision is one of the four and its directive ids are a list; the decision
  taken is then the normalised one of the object, with bounded texts.\<close>

theorem llm_answer_roundtrip:
  assumes "CHR 0x22 \<notin> set pre" "CHR ''{'' \<notin> set pre" "plain_floats (JDict raw)"
    and "loads (json_dumps (JDict raw)) = Some (JDict answer)"
    and "prose = pre @ json_dumps (JDict raw) @ post"
    and "ids = jget_or (JDict answer) ''matched_directive_ids'' JNull"
  shows "first_json_object loads prose = Some (JDict answer) \<and>
    (parse_llm_decision repr_of loads (JStr prose) \<noteq> None \<longleftrightarrow>
       set (map fst answer) \<subseteq> set ALLOWED_LLM_KEYS \<and> decision_of repr_of (JDict answer) \<noteq> [] \<and> (is_list ids \<or> \<not> jtruthy ids)) \<and>
    (\<forall>r. parse_llm_decision repr_of loads (JStr prose) = Some r \<longrightarrow>
       ld_decision r = decision_of repr_of (JDict answer) \<and> ld_decision r \<in> set DECISIONS \<and>
       length (ld_reason r) \<le> 500 \<and> length (ld_matched r) \<le> 32 \<and> length (ld_rule_id r) \<le> 120)"
proof -
  have found: "first_json_object loads prose = Some (JDict answer)"
    unfolding assms(5) by (rule first_object_found [where loads = loads, OF assms(1-4)])
  have "prose \<noteq> []" using assms(5) by simp
  then have read: "str_or_empty repr_of (JStr prose) = prose" by (simp add: str_or_empty_def jtruthy_def py_str_def)
  have decision: "decision_of repr_of (JDict answer) = [] \<or> decision_of repr_of (JDict answer) \<in> set DECISIONS"
    using normalize_decision_cases by (auto simp: decision_of_def DECISIONS_def)
  show ?thesis using found decision assms(6)
    by (auto simp: parse_llm_decision_def read decision_of_def Let_def is_list_def sanitize_reason_def split: json.splits if_splits)
qed

theorem llm_answer_roundtrip_witness:
  "parse_llm_decision (\<lambda>v. []) (\<lambda>t. if t = json_dumps (JDict [(''decision'', JStr ''Deny''), (''rule_id'', JStr ''{r'')])
       then Some (JDict [(''decision'', JStr ''Deny''), (''rule_id'', JStr ''{r'')]) else None)
     (JStr (''Verdict: '' @ json_dumps (JDict [(''decision'', JStr ''Deny''), (''rule_id'', JStr ''{r'')]) @ '' (done})'')) \<noteq> None"
proof -
  let ?raw = "[(''decision'', JStr ''Deny''), (''rule_id'', JStr ''{r'')]"
  let ?loads = "\<lambda>t. if t = json_dumps (JDict ?raw) then Some (JDict ?raw) else None"
  have "set (map fst ?raw) \<subseteq> set ALLOWED_LLM_KEYS" "decision_of (\<lambda>v. []) (JDict ?raw) \<noteq> []"
    "\<not> jtruthy (jget_or (JDict ?raw) ''matched_directive_ids'' JNull)" by code_simp+
  then show ?thesis
    using llm_answer_roundtrip [of "''Verdict: ''" ?raw ?loads ?raw _ "'' (done})''" _ "\<lambda>v. []", OF _ _ _ _ refl refl] by simp
qed

end
