(* ===== verification/Gate_Service.thy ===== *)
theory Gate_Service
  imports Gating
begin

section \<open>The gating service\<close>

text \<open>
  \<open>core/gating_script_runner.py\<close> and \<open>services/gating_service.py\<close>: one gate evaluates a call with policy scripts and a
  model.  What runs outside is a parameter: \<open>get_script\<close> looks a script up, \<open>sandbox\<close> runs its source on the envelope
  within a time limit, and \<open>find_llm\<close> finds the model service, whose \<open>lb_complete\<close> answers the envelope.
  \<open>mint n\<close> is the uuid and the time of the \<open>n\<close>-th evaluator result, \<open>loads\<close> is \<open>json.loads\<close>
  and \<open>repr_of\<close> Python's text of a list or an object.  A configuration is a JSON document.
\<close>

subsection \<open>Scripts\<close>

datatype run_outcome = TimedOut | Raised string | Returned json

type_synonym mint = "nat \<Rightarrow> string \<times> json"

definition mint_result ::
    "(json \<Rightarrow> string) \<Rightarrow> mint \<Rightarrow> nat \<Rightarrow> string \<Rightarrow> json \<Rightarrow> string \<Rightarrow> string \<Rightarrow> json \<Rightarrow> json list \<Rightarrow> json \<Rightarrow> eval_result res" where
  "mint_result repr_of mint n decision reason source source_id rule_id matched metadata =
     evaluator_result repr_of (fst (mint n)) (snd (mint n)) (JStr decision) reason source source_id rule_id matched metadata"

fun resolve_scripts :: "(string \<Rightarrow> json res) \<Rightarrow> string list \<Rightarrow> (string \<times> json option) list" where
  "resolve_scripts get_script [] = []"
| "resolve_scripts get_script (raw # names) =
     (let name = py_strip raw in
      (if name = [] then []
       else [(name, case get_script name of Inr (JDict d) \<Rightarrow> Some (JDict d) | _ \<Rightarrow> None)]) @ resolve_scripts get_script names)"

definition script_applies :: "(json \<Rightarrow> string) \<Rightarrow> json \<Rightarrow> json \<Rightarrow> bool res" where
  "script_applies repr_of script tool =
     (let tools = jget_or script ''tools'' JNull in
      if \<not> jtruthy tools then Inr True
      else bind_res (iter_res tools) (\<lambda>ts.
        Inr (py_lower (str_or_empty repr_of tool) \<in>
          set (map (\<lambda>t. py_lower (py_strip (py_str repr_of t))) (filter (\<lambda>t. py_strip (py_str repr_of t) \<noteq> []) ts)))))"

definition fail_decision_of :: "(json \<Rightarrow> string) \<Rightarrow> json \<Rightarrow> string" where
  "fail_decision_of repr_of script =
     (let v = jget_or script ''fail_decision'' JNull;
          value = py_lower (if jtruthy v then py_str repr_of v else ''ask'')
      in if value \<in> {''ask'', ''deny''} then value else ''ask'')"

fun first_dict :: "(string \<Rightarrow> json option) \<Rightarrow> string list \<Rightarrow> json option" where
  "first_dict loads [] = None"
| "first_dict loads (line # ls) =
     (case loads line of Some (JDict d) \<Rightarrow> Some (JDict d) | _ \<Rightarrow> first_dict loads ls)"

definition last_json_line :: "(json \<Rightarrow> string) \<Rightarrow> (string \<Rightarrow> json option) \<Rightarrow> json \<Rightarrow> json option" where
  "last_json_line repr_of loads out =
     first_dict loads (rev (filter (\<lambda>ln. py_strip ln \<noteq> []) (py_splitlines [] (py_strip (str_or_empty repr_of out)))))"

definition error_meta :: "string \<Rightarrow> json" where
  "error_meta e = JDict [(''error'', JStr e)]"

record gate_env =
  ge_repr :: "json \<Rightarrow> string"
  ge_loads :: "string \<Rightarrow> json option"
  ge_mint :: mint
  ge_script :: "string \<Rightarrow> json res"
  ge_sandbox :: "int \<Rightarrow> string \<Rightarrow> json \<Rightarrow> run_outcome"

text \<open>What becomes of a script: the decision, its reason, its source, the rule it names and the metadata.\<close>

type_synonym verdict = "string \<times> json \<times> string \<times> json \<times> json"

definition output_verdict :: "gate_env \<Rightarrow> (string \<Rightarrow> string) \<Rightarrow> string \<Rightarrow> json \<Rightarrow> verdict" where
  "output_verdict env here fail out =
     (case last_json_line (ge_repr env) (ge_loads env) out of
        None \<Rightarrow> (fail, JStr (here '' returned no JSON decision''), ''failure'', JNull, error_meta ''malformed'')
      | Some parsed \<Rightarrow>
          (let decision = normalize_decision (ge_repr env) (jget_or parsed ''decision'' JNull);
               meta = jget_or parsed ''metadata'' JNull in
           if decision = [] then (fail, JStr (here '' returned an invalid decision''), ''failure'', JNull, error_meta ''invalid_decision'')
           else (decision, jget_or parsed ''reason'' (JStr []), ''script'', jget_or parsed ''rule_id'' (JStr []),
                 if is_dict meta then meta else JDict [])))"

definition script_verdict :: "gate_env \<Rightarrow> string \<Rightarrow> json \<Rightarrow> json \<Rightarrow> int \<Rightarrow> verdict res" where
  "script_verdict env name sc envelope timeout =
     (let here = (\<lambda>suffix. ''policy script '' @ [CHR 0x27] @ name @ [CHR 0x27] @ suffix);
          fail = fail_decision_of (ge_repr env) sc;
          tool = jget_or (or_dict (jget_or envelope ''tool_call'' JNull)) ''canonical_name'' (JStr []);
          source = str_or_empty (ge_repr env) (jget_or sc ''source'' JNull) in
      bind_res (script_applies (ge_repr env) sc tool) (\<lambda>applies.
        Inr (if \<not> applies then (''abstain'', JStr ''tool filter does not match'', ''script'', JNull, JNull)
             else if py_strip source = [] then (fail, JStr (here '' has no source''), ''failure'', JNull, JNull)
             else case ge_sandbox env (max 1 timeout) source envelope of
               TimedOut \<Rightarrow> (fail, JStr (here '' timed out''), ''failure'', JNull, error_meta ''timeout'')
             | Raised e \<Rightarrow> (fail, JStr (here ('' failed: '' @ e)), ''failure'', JNull, error_meta ''exception'')
             | Returned out \<Rightarrow> output_verdict env here fail out)))"

definition run_script :: "gate_env \<Rightarrow> nat \<Rightarrow> string \<Rightarrow> json option \<Rightarrow> json \<Rightarrow> int \<Rightarrow> eval_result res" where
  "run_script env n name script envelope timeout =
     bind_res (case script of
         None \<Rightarrow> Inr (''ask'', JStr (''policy script '' @ [CHR 0x27] @ name @ [CHR 0x27] @ '' is not available''), ''failure'', JNull, error_meta ''missing_script'')
       | Some sc \<Rightarrow> script_verdict env name sc envelope timeout)
       (\<lambda>(decision, reason, source, rule, meta). mint_result (ge_repr env) (ge_mint env) n decision reason source name rule [] meta)"

fun run_scripts :: "gate_env \<Rightarrow> nat \<Rightarrow> (string \<times> json option) list \<Rightarrow> json \<Rightarrow> int \<Rightarrow> (eval_result list) res" where
  "run_scripts env n [] envelope timeout = Inr []"
| "run_scripts env n ((name, script) # rest) envelope timeout =
     bind_res (run_script env n name script envelope timeout) (\<lambda>r.
       if er_decision r \<in> {''deny'', ''ask''} then Inr [r]
       else bind_res (run_scripts env (Suc n) rest envelope timeout) (\<lambda>rs. Inr (r # rs)))"

subsection \<open>Configuration\<close>

definition LLM_SCOPES :: "string list" where
  "LLM_SCOPES = [''mutating'', ''all'', ''none'']"

definition SCRIPT_TIMEOUT_CAP_SECONDS :: int where
  "SCRIPT_TIMEOUT_CAP_SECONDS = 60"

text \<open>\<open>str(config.get(key) or default)\<close>\<close>

definition cfg_str :: "(json \<Rightarrow> string) \<Rightarrow> json \<Rightarrow> string \<Rightarrow> string \<Rightarrow> string" where
  "cfg_str repr_of config key dflt = (let v = jget_or config key JNull in if jtruthy v then py_str repr_of v else dflt)"

definition gate_prompt :: "(json \<Rightarrow> string) \<Rightarrow> json \<Rightarrow> string" where
  "gate_prompt repr_of config = py_strip (cfg_str repr_of config ''prompt'' [])"

definition script_names :: "(json \<Rightarrow> string) \<Rightarrow> json \<Rightarrow> (string list) res" where
  "script_names repr_of config =
     (let v = jget_or config ''scripts'' JNull in
      bind_res (iter_res (if jtruthy v then v else JList [])) (\<lambda>xs.
        Inr (filter (\<lambda>s. s \<noteq> []) (map (\<lambda>x. py_strip (py_str repr_of x)) xs))))"

definition failure_decision :: "(json \<Rightarrow> string) \<Rightarrow> json \<Rightarrow> string" where
  "failure_decision repr_of config =
     (let v = cfg_str repr_of config ''failure_decision'' ''ask'' in if v \<in> set FAILURE_DECISIONS then v else ''ask'')"

definition llm_scope :: "(json \<Rightarrow> string) \<Rightarrow> json \<Rightarrow> string" where
  "llm_scope repr_of config =
     (let v = cfg_str repr_of config ''llm_scope'' ''mutating'' in if v \<in> set LLM_SCOPES then v else ''mutating'')"

definition bounded_int :: "json \<Rightarrow> string \<Rightarrow> int \<Rightarrow> int \<Rightarrow> int" where
  "bounded_int config key dflt cap =
     (let v = jget_or config key JNull;
          n = (case json_int (if jtruthy v then v else JInt dflt) of Inl _ \<Rightarrow> dflt | Inr k \<Rightarrow> k)
      in max 1 (min cap n))"

definition nonnegative_int :: "json \<Rightarrow> string \<Rightarrow> int" where
  "nonnegative_int config key =
     (let v = jget_or config key (JInt 0) in
      case json_int (if jtruthy v then v else JInt 0) of Inl _ \<Rightarrow> 0 | Inr k \<Rightarrow> max 0 k)"

definition validate_config :: "(json \<Rightarrow> string) \<Rightarrow> json \<Rightarrow> unit res" where
  "validate_config repr_of config =
     bind_res (script_names repr_of config) (\<lambda>scripts.
       if gate_prompt repr_of config = [] \<and> scripts = [] then Inl (ServiceError ''a gating service needs a policy prompt, scripts, or both'')
       else if gate_prompt repr_of config \<noteq> [] \<and> py_strip (cfg_str repr_of config ''llm_service'' []) = []
         then Inl (ServiceError ''llm_service is required when a policy prompt is set'')
       else if cfg_str repr_of config ''failure_decision'' ''ask'' \<notin> set FAILURE_DECISIONS
         then Inl (ServiceError ''failure_decision must be ask or deny'')
       else if cfg_str repr_of config ''llm_scope'' ''mutating'' \<notin> set LLM_SCOPES then Inl (ServiceError ''llm_scope'')
       else Inr ())"

definition llm_applies :: "(json \<Rightarrow> string) \<Rightarrow> json \<Rightarrow> json \<Rightarrow> bool res" where
  "llm_applies repr_of config envelope =
     (if gate_prompt repr_of config = [] \<or> llm_scope repr_of config = ''none'' then Inr False
      else if llm_scope repr_of config = ''all'' then Inr True
      else bind_res (dict_get_res (or_dict (jget_or envelope ''tool_call'' JNull)) ''mutating'' (JBool True)) (\<lambda>v. Inr (jtruthy v)))"

subsection \<open>The model\<close>

text \<open>
  The answer of the model: its content and the model's name.  \<open>lb_complete\<close> gets the messages of \<open>_llm_messages\<close>, of which
  the envelope and the results of the scripts are the argument, and the time limit (\<open>None\<close> is no limit).
\<close>

datatype llm_outcome = LlmTimedOut | LlmRaised string | LlmAnswered json string

record llm_backend =
  lb_provider :: string
  lb_complete :: "int option \<Rightarrow> json \<Rightarrow> eval_result list \<Rightarrow> llm_outcome"

record service_env = gate_env +
  se_find_llm :: "string \<Rightarrow> (llm_backend option) res"

definition INTERACTIVE_CLI_PROVIDERS :: "string list" where
  "INTERACTIVE_CLI_PROVIDERS = [''claude-code-interactive'', ''codex-interactive'', ''antigravity-interactive'',
     ''cc_mcp'', ''codex_mcp'', ''agy_mcp'']"

definition NO_REPLAY_PROVIDERS :: "string list" where
  "NO_REPLAY_PROVIDERS = INTERACTIVE_CLI_PROVIDERS @ [''acp'', ''antigravity-acp'', ''cursor-acp'', ''grok-build-acp'', ''opencode'']"

definition resolve_llm_service :: "('a) service_env_scheme \<Rightarrow> json \<Rightarrow> (llm_backend option \<times> string) res" where
  "resolve_llm_service env config =
     (let name = py_strip (cfg_str (ge_repr env) config ''llm_service'' []) in
      if name = [] then Inr (None, name)
      else bind_res (se_find_llm env name) (\<lambda>svc. Inr (svc, name)))"

definition mandate_missing :: "json \<Rightarrow> bool" where
  "mandate_missing envelope \<longleftrightarrow>
     jtruthy (jget_or envelope ''authority_missing'' JNull) \<or>
     jtruthy (jget_or (or_dict (jget_or envelope ''authority'' JNull)) ''truncated'' JNull)"

definition llm_evaluate :: "('a) service_env_scheme \<Rightarrow> nat \<Rightarrow> json \<Rightarrow> json \<Rightarrow> eval_result list \<Rightarrow> eval_result res" where
  "llm_evaluate env n config envelope scripted =
     bind_res (resolve_llm_service env config) (\<lambda>(svc, llm).
       (let fail = failure_decision (ge_repr env) config;
            q = [CHR 0x27];
            failed = (\<lambda>reason e. mint_result (ge_repr env) (ge_mint env) n fail (JStr reason) ''failure'' llm JNull [] (error_meta e)) in
        case svc of
          None \<Rightarrow> failed (''gating LLM '' @ q @ llm @ q @ '' is unavailable'') ''llm_unavailable''
        | Some backend \<Rightarrow>
            if lb_provider backend \<in> set NO_REPLAY_PROVIDERS \<or> lb_provider backend = ''claude-code'' then
              failed (''gating LLM '' @ q @ llm @ q @ '' uses CLI provider '' @ q @ lb_provider backend @ q @
                ''; a policy gate needs an API-backed connection'') ''cli_provider''
            else
              (let seconds = nonnegative_int config ''timeout_seconds'' in
               case lb_complete backend (if seconds > 0 then Some seconds else None) envelope scripted of
                 LlmTimedOut \<Rightarrow> failed ''gating LLM timed out'' ''timeout''
               | LlmRaised e \<Rightarrow> failed (''gating LLM failed: '' @ e) ''exception''
               | LlmAnswered content model \<Rightarrow>
                   (case parse_llm_decision (ge_repr env) (ge_loads env) content of
                      None \<Rightarrow> failed ''gating LLM returned a malformed decision'' ''malformed''
                    | Some parsed \<Rightarrow>
                        if ld_decision parsed = ''allow'' \<and> mandate_missing envelope then
                          mint_result (ge_repr env) (ge_mint env) n ''ask'' (JStr ''mandate missing or truncated; allow refused'') ''llm'' llm JNull []
                            (JDict [(''overridden'', JStr ''allow'')])
                        else
                          mint_result (ge_repr env) (ge_mint env) n (ld_decision parsed) (JStr (ld_reason parsed)) ''llm'' llm
                            (JStr (ld_rule_id parsed)) (map JStr (ld_matched parsed)) (JDict [(''model'', JStr model)])))))"

subsection \<open>Evaluation\<close>

record gate_outcome =
  go_decision :: string
  go_reason :: string
  go_evaluators :: "eval_result list"
  go_service_id :: string

text \<open>The body of the \<open>try\<close>: the results so far, and the decision or the exception.\<close>

definition settle_decision :: "(json \<Rightarrow> string) \<Rightarrow> json \<Rightarrow> string list \<Rightarrow> bool \<Rightarrow> eval_result list \<Rightarrow> string res" where
  "settle_decision repr_of config scripts needs_llm results =
     (let fail = failure_decision repr_of config in
      bind_res (merge_decisions repr_of (map result_json results) fail) (\<lambda>decision.
        Inr (if decision \<noteq> ''allow'' then decision
             else
               (let d = (if needs_llm \<and> \<not> (\<exists>r \<in> set results. er_source r = ''llm'' \<and> er_decision r = ''allow'') then fail else decision);
                    scripted = filter (\<lambda>r. er_source r = ''script'' \<and> er_decision r \<noteq> ''abstain'') results
                in if scripts \<noteq> [] \<and> scripted \<noteq> [] \<and> (\<exists>r \<in> set scripted. er_decision r \<noteq> ''allow'') then fail else d))))"

definition evaluate_body :: "('a) service_env_scheme \<Rightarrow> json \<Rightarrow> json \<Rightarrow> string res \<times> eval_result list" where
  "evaluate_body env config envelope =
     (case bind_res (script_names (ge_repr env) config) (\<lambda>names.
             bind_res (run_scripts (gate_env.truncate env) 0 (resolve_scripts (ge_script env) names) envelope
                  (bounded_int config ''script_timeout_seconds'' 10 SCRIPT_TIMEOUT_CAP_SECONDS)) (\<lambda>rs. Inr (names, rs))) of
        Inl e \<Rightarrow> (Inl e, [])
      | Inr (names, rs) \<Rightarrow>
          (case llm_applies (ge_repr env) config envelope of
             Inl e \<Rightarrow> (Inl e, rs)
           | Inr needs_llm \<Rightarrow>
               if needs_llm \<and> \<not> (\<exists>r \<in> set rs. er_decision r \<in> {''deny'', ''ask''}) then
                 (case llm_evaluate env (length rs) config envelope rs of
                    Inl e \<Rightarrow> (Inl e, rs)
                  | Inr r \<Rightarrow> (settle_decision (ge_repr env) config names needs_llm (rs @ [r]), rs @ [r]))
               else (settle_decision (ge_repr env) config names needs_llm rs, rs)))"

definition evaluate :: "('a) service_env_scheme \<Rightarrow> (py_error \<Rightarrow> string) \<Rightarrow> string \<Rightarrow> json \<Rightarrow> json \<Rightarrow> gate_outcome res" where
  "evaluate env error_text service_id config envelope =
     (case evaluate_body env config envelope of
        (Inr decision, results) \<Rightarrow>
          Inr \<lparr>go_decision = decision, go_reason = evaluator_summary results, go_evaluators = results, go_service_id = service_id\<rparr>
      | (Inl e, results) \<Rightarrow>
          (let fail = failure_decision (ge_repr env) config in
           bind_res (mint_result (ge_repr env) (ge_mint env) (length results) fail (JStr (''gate failure: '' @ error_text e)) ''failure'' service_id JNull [] JNull)
             (\<lambda>r. Inr \<lparr>go_decision = fail, go_reason = evaluator_summary (results @ [r]), go_evaluators = results @ [r], go_service_id = service_id\<rparr>)))"

subsection \<open>A gate settles every call\<close>

lemma normalize_valid: "d \<in> set DECISIONS \<Longrightarrow> normalize_decision repr_of (JStr d) = d"
proof -
  have "\<forall>d \<in> set DECISIONS. py_lower (py_strip d) = d \<and> d \<noteq> []" by code_simp
  then show "d \<in> set DECISIONS \<Longrightarrow> ?thesis" by (simp add: normalize_decision_def str_or_empty_def py_str_def jtruthy_def)
qed

lemma normalize_in_decisions: "normalize_decision repr_of v \<noteq> [] \<Longrightarrow> normalize_decision repr_of v \<in> set DECISIONS"
  using normalize_decision_cases by (auto simp: DECISIONS_def)

lemma mint_result_valid:
  assumes "d \<in> set DECISIONS"
  obtains r where "mint_result repr_of mint n d reason source i rule matched meta = Inr r" "er_decision r = d" "er_source r = source"
proof -
  have "d \<noteq> []" using assms by (auto simp: DECISIONS_def)
  then show ?thesis using that normalize_valid [OF assms] by (simp add: mint_result_def evaluator_result_def Let_def)
qed

lemma mint_result_Inr:
  assumes "mint_result repr_of mint n d reason source i rule matched meta = Inr r" "d \<in> set DECISIONS"
  shows "er_decision r = d" "er_source r = source"
  using mint_result_valid [OF assms(2), of repr_of mint n reason source i rule matched meta] assms(1) by auto

lemma fail_decision_valid: "fail_decision_of repr_of sc \<in> {''ask'', ''deny''}"
  by (auto simp: fail_decision_of_def Let_def)

lemma failure_decision_valid: "failure_decision repr_of config \<in> {''ask'', ''deny''}"
  by (auto simp: failure_decision_def FAILURE_DECISIONS_def Let_def)

lemma failing_decisions: "d \<in> {''ask'', ''deny''} \<Longrightarrow> d \<in> set DECISIONS \<and> d \<in> set FINAL_DECISIONS \<and> SEVERITY d \<ge> 2"
  by (auto simp: DECISIONS_def FINAL_DECISIONS_def SEVERITY_def)

lemma output_verdict_valid:
  "fail \<in> set DECISIONS \<Longrightarrow> output_verdict env here fail out = (d, reason, source, rule, meta) \<Longrightarrow>
     d \<in> set DECISIONS \<and> source \<in> {''script'', ''failure''}"
  using normalize_in_decisions by (auto simp: output_verdict_def Let_def split: option.splits if_splits)

lemma script_verdict_valid:
  assumes "script_verdict env name sc envelope timeout = Inr (d, reason, source, rule, meta)"
  shows "d \<in> set DECISIONS \<and> source \<in> {''script'', ''failure''}"
proof -
  have fail: "fail_decision_of (ge_repr env) sc \<in> set DECISIONS" using failing_decisions [OF fail_decision_valid] by blast
  have "''abstain'' \<in> set DECISIONS" by (simp add: DECISIONS_def)
  then show ?thesis using assms fail
    by (auto simp: script_verdict_def Let_def bind_res_Inr_iff split: if_splits run_outcome.splits dest!: output_verdict_valid [OF fail])
qed

lemma run_script_result:
  assumes "run_script env n name script envelope timeout = Inr r"
  shows "er_decision r \<in> set DECISIONS \<and> er_source r \<in> {''script'', ''failure''}"
proof -
  obtain d reason source rule meta where m: "mint_result (ge_repr env) (ge_mint env) n d reason source name rule [] meta = Inr r"
    and v: "(case script of None \<Rightarrow> d = ''ask'' \<and> source = ''failure''
       | Some sc \<Rightarrow> script_verdict env name sc envelope timeout = Inr (d, reason, source, rule, meta))"
    using assms by (cases script) (auto simp: run_script_def bind_res_Inr_iff)
  have "d \<in> set DECISIONS \<and> source \<in> {''script'', ''failure''}"
    using v script_verdict_valid by (cases script) (auto simp: DECISIONS_def)
  then show ?thesis using mint_result_Inr [OF m] by simp
qed

lemma run_scripts_result:
  "run_scripts env n scripts envelope timeout = Inr rs \<Longrightarrow> r \<in> set rs \<Longrightarrow>
     er_decision r \<in> set DECISIONS \<and> er_source r \<in> {''script'', ''failure''}"
proof (induction env n scripts envelope timeout arbitrary: rs rule: run_scripts.induct)
  case (2 env n name script rest envelope timeout)
  obtain r1 where r1: "run_script env n name script envelope timeout = Inr r1" using "2.prems"(1) by (auto simp: bind_res_Inr_iff)
  then consider "rs = [r1]" | rs' where "rs = r1 # rs'" "er_decision r1 \<notin> {''deny'', ''ask''}" "run_scripts env (Suc n) rest envelope timeout = Inr rs'"
    using "2.prems"(1) by (auto simp: bind_res_Inr_iff split: if_splits)
  then show ?case
  proof cases
    case 2
    then show ?thesis using "2.IH" [OF 2(2,3)] "2.prems"(2) run_script_result [OF r1] by auto
  qed (use "2.prems"(2) run_script_result [OF r1] in auto)
qed simp

lemma llm_evaluate_result:
  assumes "llm_evaluate env n config envelope scripted = Inr r"
  shows "er_decision r \<in> set DECISIONS \<and> (er_decision r = ''allow'' \<longrightarrow> er_source r = ''llm'' \<and> \<not> mandate_missing envelope)"
proof -
  have fail: "failure_decision (ge_repr env) config \<in> set DECISIONS" "failure_decision (ge_repr env) config \<noteq> ''allow''"
    using failing_decisions [OF failure_decision_valid] failure_decision_valid [of "ge_repr env" config] by auto
  have parsed: "ld_decision p \<in> set DECISIONS" if "parse_llm_decision (ge_repr env) (ge_loads env) content = Some p" for content p
    using that normalize_in_decisions
    by (auto simp: parse_llm_decision_def Let_def split: option.splits json.splits if_splits dest!: normalize_in_decisions)
  obtain svc llm where svc: "resolve_llm_service env config = Inr (svc, llm)"
    using assms by (auto simp: llm_evaluate_def bind_res_Inr_iff)
  have "\<exists>d source reason rule matched meta. mint_result (ge_repr env) (ge_mint env) n d reason source llm rule matched meta = Inr r \<and>
      d \<in> set DECISIONS \<and> (d = ''allow'' \<longrightarrow> source = ''llm'' \<and> \<not> mandate_missing envelope)"
  proof (cases svc)
    case None
    then show ?thesis using assms svc fail by (fastforce simp: llm_evaluate_def Let_def)
  next
    case (Some backend)
    have ask: "''ask'' \<in> set DECISIONS" by (simp add: DECISIONS_def)
    let ?seconds = "nonnegative_int config ''timeout_seconds''"
    show ?thesis
    proof (cases "lb_complete backend (if ?seconds > 0 then Some ?seconds else None) envelope scripted")
      case (LlmAnswered content model)
      then show ?thesis using assms svc Some fail ask parsed
        by (cases "parse_llm_decision (ge_repr env) (ge_loads env) content")
          (fastforce simp: llm_evaluate_def Let_def split: if_splits)+
    qed (use assms svc Some fail in \<open>fastforce simp: llm_evaluate_def Let_def split: if_splits\<close>)+
  qed
  then obtain d source reason rule matched meta where
      m: "mint_result (ge_repr env) (ge_mint env) n d reason source llm rule matched meta = Inr r" "d \<in> set DECISIONS"
        "d = ''allow'' \<longrightarrow> source = ''llm'' \<and> \<not> mandate_missing envelope" by blast
  then show ?thesis using mint_result_Inr [OF m(1,2)] by simp
qed

lemma result_json_decision: "er_decision r \<in> set DECISIONS \<Longrightarrow> decision_of repr_of (result_json r) = er_decision r"
  by (simp add: decision_of_def result_json_def jget_or_def jget_def normalize_valid)

lemma merge_loop_total: "\<exists>b. merge_loop repr_of (map result_json rs) best = Inr b"
  by (induction rs arbitrary: best) (simp_all add: result_json_def jtruthy_def dict_get_res_def Let_def)

lemma settle_spec:
  assumes "\<forall>r \<in> set results. er_decision r \<in> set DECISIONS"
  obtains d where "settle_decision repr_of config scripts needs_llm results = Inr d" "d \<in> set FINAL_DECISIONS"
    "\<forall>r \<in> set results. SEVERITY (er_decision r) \<le> SEVERITY d"
    "d = ''allow'' \<Longrightarrow> \<exists>r \<in> set results. er_decision r = ''allow'' \<and> (needs_llm \<longrightarrow> er_source r = ''llm'')"
proof -
  let ?fail = "failure_decision repr_of config"
  obtain m where m: "merge_decisions repr_of (map result_json results) ?fail = Inr m"
    using merge_loop_total [of repr_of results "''abstain''"] by (auto simp: merge_decisions_def)
  have dec: "decision_of repr_of (result_json r) = er_decision r" if "r \<in> set results" for r
    using that assms result_json_decision by blast
  have bound: "SEVERITY (er_decision r) \<le> SEVERITY m" if "r \<in> set results" for r
    using merge_decisions_spec [OF m] that dec by auto
  have final: "m \<in> set FINAL_DECISIONS" using merge_decisions_spec [OF m] by blast
  have allow: "\<exists>r \<in> set results. er_decision r = ''allow''" if "m = ''allow''"
    using merge_decisions_spec [OF m] that dec by (auto split: if_splits)
  have fail: "?fail \<in> set FINAL_DECISIONS" "?fail \<noteq> ''allow''" "m = ''allow'' \<Longrightarrow> SEVERITY m \<le> SEVERITY ?fail"
    using failing_decisions [OF failure_decision_valid, of repr_of config] failure_decision_valid [of repr_of config]
    by (auto simp: SEVERITY_def)
  let ?no_llm = "needs_llm \<and> \<not> (\<exists>r \<in> set results. er_source r = ''llm'' \<and> er_decision r = ''allow'')"
  let ?scripted = "filter (\<lambda>r. er_source r = ''script'' \<and> er_decision r \<noteq> ''abstain'') results"
  let ?stopped = "scripts \<noteq> [] \<and> ?scripted \<noteq> [] \<and> (\<exists>r \<in> set ?scripted. er_decision r \<noteq> ''allow'')"
  define d where "d = (if m \<noteq> ''allow'' then m else if ?stopped then ?fail else if ?no_llm then ?fail else m)"
  have d: "settle_decision repr_of config scripts needs_llm results = Inr d" "d = m \<or> m = ''allow'' \<and> d = ?fail"
    "d = ''allow'' \<Longrightarrow> \<not> ?no_llm"
  proof -
    show "settle_decision repr_of config scripts needs_llm results = Inr d"
      unfolding settle_decision_def m d_def Let_def bind_res_simps by (simp only: if_cancel if_not_P if_P split: if_split)
    show "d = m \<or> m = ''allow'' \<and> d = ?fail" unfolding d_def by (simp split: if_split)
    show "d = ''allow'' \<Longrightarrow> \<not> ?no_llm" using fail(2) unfolding d_def by (simp split: if_splits)
  qed
  show ?thesis
  proof (rule that [OF d(1)])
    show "d \<in> set FINAL_DECISIONS" using d(2) final fail by auto
    show "\<forall>r \<in> set results. SEVERITY (er_decision r) \<le> SEVERITY d" using d(2) bound fail(3) by (auto intro: order_trans)
    show "\<exists>r \<in> set results. er_decision r = ''allow'' \<and> (needs_llm \<longrightarrow> er_source r = ''llm'')" if "d = ''allow''"
      using d(2,3) that allow fail(2) by (cases needs_llm) blast+
  qed
qed

lemma evaluate_body_cases:
  assumes "evaluate_body env config envelope = (result, results)" "llm_applies (ge_repr env) config envelope = Inr needs_llm"
  obtains (failed) e where "result = Inl e" "\<forall>r \<in> set results. SEVERITY (er_decision r) \<le> 1"
  | (settled) names where "result = settle_decision (ge_repr env) config names needs_llm results"
      "\<forall>r \<in> set results. er_decision r \<in> set DECISIONS"
      "\<forall>r \<in> set results. er_source r = ''llm'' \<and> er_decision r = ''allow'' \<longrightarrow> \<not> mandate_missing envelope"
proof -
  let ?scripts = "bind_res (script_names (ge_repr env) config) (\<lambda>names.
     bind_res (run_scripts (gate_env.truncate env) 0 (resolve_scripts (ge_script env) names) envelope
        (bounded_int config ''script_timeout_seconds'' 10 SCRIPT_TIMEOUT_CAP_SECONDS)) (\<lambda>rs. Inr (names, rs)))"
  show thesis
  proof (cases ?scripts)
    case (Inl e)
    then have "result = Inl e" "results = []" using assms(1) by (simp_all add: evaluate_body_def)
    then show ?thesis using failed by simp
  next
    case (Inr x)
    obtain names rs where x: "x = (names, rs)" by fastforce
    have rs: "er_decision r \<in> set DECISIONS \<and> er_source r \<in> {''script'', ''failure''}" if "r \<in> set rs" for r
      using Inr x that run_scripts_result by (fastforce simp: bind_res_Inr_iff)
    let ?ask = "needs_llm \<and> \<not> (\<exists>r \<in> set rs. er_decision r \<in> {''deny'', ''ask''})"
    have eq: "(result, results) = (if ?ask then
         (case llm_evaluate env (length rs) config envelope rs of
            Inl e \<Rightarrow> (Inl e, rs) | Inr r \<Rightarrow> (settle_decision (ge_repr env) config names needs_llm (rs @ [r]), rs @ [r]))
       else (settle_decision (ge_repr env) config names needs_llm rs, rs))"
      using assms(1) unfolding evaluate_body_def Inr x assms(2) sum.case prod.case by (rule sym)
    show ?thesis
    proof (cases "needs_llm \<and> \<not> (\<exists>r \<in> set rs. er_decision r \<in> {''deny'', ''ask''})")
      case False
      then have "result = settle_decision (ge_repr env) config names needs_llm rs" "results = rs"
        using eq unfolding if_not_P [OF False] by auto
      then show ?thesis using settled [of names] rs by fastforce
    next
      case True
      show ?thesis
      proof (cases "llm_evaluate env (length rs) config envelope rs")
        case (Inl e)
        then have "result = Inl e" "results = rs" using eq unfolding if_P [OF True] by auto
        moreover have "\<forall>r \<in> set rs. SEVERITY (er_decision r) \<le> 1" using True by (auto simp: SEVERITY_def)
        ultimately show ?thesis using failed by blast
      next
        case r: (Inr r)
        have "result = settle_decision (ge_repr env) config names needs_llm (rs @ [r])" "results = rs @ [r]"
          using eq r unfolding if_P [OF True] by auto
        then show ?thesis using settled [of names] rs llm_evaluate_result [OF r] by fastforce
      qed
    qed
  qed
qed

lemma llm_applies_total:
  assumes "is_dict (or_dict (jget_or envelope ''tool_call'' JNull))"
  shows "\<exists>b. llm_applies repr_of config envelope = Inr b"
proof -
  obtain d where "or_dict (jget_or envelope ''tool_call'' JNull) = JDict d"
    using assms by (cases "or_dict (jget_or envelope ''tool_call'' JNull)") (simp_all add: is_dict_def)
  then show ?thesis by (simp add: llm_applies_def dict_get_res_def) blast
qed

text \<open>
  C20: A gate settles every call and fails closed: for an envelope with a tool call, \<open>evaluate\<close> returns, whatever scripts and model do,
  a final decision that is at least as restrictive as every evaluator's; it is \<open>allow\<close> only when an evaluator allowed the call
  and none denied or asked, and, when the model has to be asked, only when the model allowed it under a mandate that is present and complete.\<close>

theorem gate_fails_closed:
  assumes "is_dict (or_dict (jget_or envelope ''tool_call'' JNull))"
  shows "\<exists>out. evaluate env error_text service_id config envelope = Inr out \<and> go_decision out \<in> set FINAL_DECISIONS \<and>
    (\<forall>r \<in> set (go_evaluators out). SEVERITY (er_decision r) \<le> SEVERITY (go_decision out)) \<and>
    (go_decision out = ''allow'' \<longrightarrow>
       (\<exists>r \<in> set (go_evaluators out). er_decision r = ''allow'') \<and>
       (llm_applies (ge_repr env) config envelope = Inr True \<longrightarrow>
          (\<exists>r \<in> set (go_evaluators out). er_source r = ''llm'' \<and> er_decision r = ''allow'') \<and> \<not> mandate_missing envelope))"
proof -
  let ?fail = "failure_decision (ge_repr env) config"
  obtain result results where body: "evaluate_body env config envelope = (result, results)" by fastforce
  obtain needs_llm where needs: "llm_applies (ge_repr env) config envelope = Inr needs_llm" using llm_applies_total [OF assms] by blast
  show ?thesis using body needs
  proof (cases rule: evaluate_body_cases)
    case (failed e)
    have f: "?fail \<in> set DECISIONS" "?fail \<in> set FINAL_DECISIONS" "2 \<le> SEVERITY ?fail" "?fail \<noteq> ''allow''"
      using failing_decisions [OF failure_decision_valid, of "ge_repr env" config] failure_decision_valid [of "ge_repr env" config] by auto
    obtain r where "mint_result (ge_repr env) (ge_mint env) (length results) ?fail (JStr (''gate failure: '' @ error_text e)) ''failure'' service_id JNull [] JNull = Inr r"
      "er_decision r = ?fail" using mint_result_valid [OF f(1)] by blast
    then show ?thesis using failed f body by (fastforce simp: evaluate_def Let_def)
  next
    case (settled names)
    obtain d where "settle_decision (ge_repr env) config names needs_llm results = Inr d" "d \<in> set FINAL_DECISIONS"
      "\<forall>r \<in> set results. SEVERITY (er_decision r) \<le> SEVERITY d"
      "d = ''allow'' \<Longrightarrow> \<exists>r \<in> set results. er_decision r = ''allow'' \<and> (needs_llm \<longrightarrow> er_source r = ''llm'')"
      using settle_spec [OF settled(2)] by metis
    then show ?thesis using settled body needs by (auto simp: evaluate_def)
  qed
qed

definition silent_env :: service_env where
  "silent_env = \<lparr>ge_repr = (\<lambda>v. []), ge_loads = (\<lambda>t. None), ge_mint = (\<lambda>n. ([], JNull)), ge_script = (\<lambda>n. Inr JNull),
     ge_sandbox = (\<lambda>t c e. TimedOut), se_find_llm = (\<lambda>n. Inr None)\<rparr>"

theorem gate_fails_closed_witness:
  "\<exists>out. evaluate silent_env (\<lambda>e. []) ''gate'' (JDict [(''prompt'', JStr ''p''), (''llm_service'', JStr ''m'')])
       (JDict [(''tool_call'', JDict [(''mutating'', JBool True)])]) = Inr out \<and> go_decision out \<in> set FINAL_DECISIONS"
  using gate_fails_closed [of "JDict [(''tool_call'', JDict [(''mutating'', JBool True)])]" silent_env "\<lambda>e. []" "''gate''"
      "JDict [(''prompt'', JStr ''p''), (''llm_service'', JStr ''m'')]"]
  by (auto simp: is_dict_def or_dict_def jtruthy_def jget_or_def jget_def)

end
