(* ===== verification/Tool_Authorization.thy ===== *)
theory Tool_Authorization
  imports Gate_Service
begin

section \<open>Gate bindings and the authorization of a tool call\<close>

text \<open>
  \<open>core/gating_bindings.py\<close> and \<open>core/tool_authorization.py\<close>: which gates a conversation and an agent are bound to, and the
  decision on one call: classification, authority, envelope, gates, audit.  The service registry, the relays linked to a
  conversation and the configuration of an agent are parameters (\<open>registry\<close>) that may raise.  The audit files are a list of
  records with the file they are appended to.
\<close>

subsection \<open>Bindings\<close>

definition BINDING_SCOPES :: "string list" where
  "BINDING_SCOPES = [''conv'', ''user'', ''global'']"

type_synonym gate_ref = "string \<times> string"
type_synonym conv_extras = "(string, (string, json) dict) dict"

record service_def =
  sd_service_id :: string
  sd_scope :: string
  sd_scope_id :: string
  sd_service_type :: string
  sd_enabled :: bool
  sd_description :: string
  sd_config :: json

type_synonym evaluator = "json \<Rightarrow> gate_outcome res"

record registry =
  rg_definition :: "string \<Rightarrow> string \<Rightarrow> string \<Rightarrow> (service_def option) res"
  rg_resolve :: "string \<Rightarrow> string \<Rightarrow> string \<Rightarrow> (service_def option) res"
  rg_live :: "service_def \<Rightarrow> (evaluator option) res"
  rg_linked :: "string \<Rightarrow> bool res"
  rg_agent_gate :: "string \<Rightarrow> string \<Rightarrow> json res"
  rg_repr :: "json \<Rightarrow> string"

definition scope_id :: "string \<Rightarrow> string \<Rightarrow> string \<Rightarrow> string" where
  "scope_id scope user conv = (if scope = ''conv'' then conv else if scope = ''user'' then user else [])"

text \<open>\<open>{"scope", "service_id"}\<close>, \<open>None\<close> for the empty dictionary.\<close>

definition normalize_ref :: "(json \<Rightarrow> string) \<Rightarrow> json \<Rightarrow> gate_ref option" where
  "normalize_ref repr_of raw =
     (let (scope, service) =
        (if is_dict raw then (str_or_empty repr_of (jget_or raw ''scope'' JNull), str_or_empty repr_of (jget_or raw ''service_id'' JNull))
         else ([], py_strip (str_or_empty repr_of raw)))
      in if service = [] then None else Some (scope, service))"

definition get_binding :: "(json \<Rightarrow> string) \<Rightarrow> conv_extras \<Rightarrow> string \<Rightarrow> gate_ref option" where
  "get_binding repr_of extras conv =
     (if conv = [] then None
      else case normalize_ref repr_of (get_extra extras conv ''gating_binding'') of
        None \<Rightarrow> None
      | Some (scope, service) \<Rightarrow> if scope \<in> set BINDING_SCOPES then Some (scope, service) else None)"

definition set_binding :: "conv_extras \<Rightarrow> string \<Rightarrow> string \<Rightarrow> string \<Rightarrow> conv_extras res" where
  "set_binding extras conv scope service =
     (if conv = [] then Inl (ValueError ''conversation_id is required'')
      else if scope \<notin> set BINDING_SCOPES then Inl (ValueError ''scope must be one of: conv, user, global'')
      else if service = [] then Inl (ValueError ''service_id is required'')
      else Inr (set_extra extras conv ''gating_binding'' (JDict [(''scope'', JStr scope), (''service_id'', JStr service)])))"

definition clear_binding :: "(json \<Rightarrow> string) \<Rightarrow> conv_extras \<Rightarrow> string \<Rightarrow> bool \<times> conv_extras" where
  "clear_binding repr_of extras conv =
     (if conv = [] then (False, extras)
      else (get_binding repr_of extras conv \<noteq> None, set_extra extras conv ''gating_binding'' (JDict [])))"

definition gate_definition :: "('a) registry_scheme \<Rightarrow> gate_ref \<Rightarrow> string \<Rightarrow> string \<Rightarrow> (service_def option) res" where
  "gate_definition reg ref user conv =
     bind_res (if fst ref \<in> set BINDING_SCOPES then rg_definition reg (fst ref) (scope_id (fst ref) user conv) (snd ref)
               else rg_resolve reg (snd ref) user conv) (\<lambda>found.
       Inr (case found of
              None \<Rightarrow> None
            | Some d \<Rightarrow> if sd_enabled d \<and> sd_service_type d = ''gating'' then Some d else None))"

definition needs_relay :: "('a) registry_scheme \<Rightarrow> service_def \<Rightarrow> string \<Rightarrow> bool res" where
  "needs_relay reg d conv =
     bind_res (script_names (rg_repr reg) (or_dict (sd_config d))) (\<lambda>names.
       if names = [] then Inr False else bind_res (rg_linked reg conv) (\<lambda>linked. Inr (\<not> linked)))"

definition validate_binding :: "('a) registry_scheme \<Rightarrow> string \<Rightarrow> string \<Rightarrow> string \<Rightarrow> string \<Rightarrow> service_def res" where
  "validate_binding reg scope service user conv =
     bind_res (gate_definition reg (scope, service) user conv) (\<lambda>found.
       case found of
         None \<Rightarrow> Inl (ValueError ''Gating service is not available in scope'')
       | Some d \<Rightarrow> bind_res (needs_relay reg d conv) (\<lambda>missing.
           if missing then Inl (ValueError ''link a relay to this conversation first'') else Inr d))"

record resolved_ref =
  rr_origin :: string
  rr_ref :: "gate_ref option"
  rr_service :: "evaluator option"
  rr_definition :: "service_def option"
  rr_broken :: bool
  rr_error :: string

definition unbound :: "string \<Rightarrow> gate_ref option \<Rightarrow> resolved_ref" where
  "unbound origin ref = \<lparr>rr_origin = origin, rr_ref = ref, rr_service = None, rr_definition = None, rr_broken = False, rr_error = []\<rparr>"

definition resolve_ref :: "('a) registry_scheme \<Rightarrow> gate_ref option \<Rightarrow> string \<Rightarrow> string \<Rightarrow> string \<Rightarrow> resolved_ref res" where
  "resolve_ref reg ref user conv origin =
     (case ref of
        None \<Rightarrow> Inr (unbound origin None)
      | Some r \<Rightarrow>
          (let named = ''gating service '' @ [CHR 0x27] @ snd r @ [CHR 0x27];
               broken = (\<lambda>d msg. (unbound origin ref)\<lparr>rr_broken := True, rr_error := named @ msg, rr_definition := d\<rparr>) in
           bind_res (gate_definition reg r user conv) (\<lambda>found.
             case found of
               None \<Rightarrow> Inr (broken None '' is unavailable'')
             | Some d \<Rightarrow>
                 bind_res (rg_live reg d) (\<lambda>svc.
                   case svc of
                     None \<Rightarrow> Inr (broken (Some d) '' could not be started'')
                   | Some ev \<Rightarrow>
                       bind_res (needs_relay reg d conv) (\<lambda>missing.
                         Inr (if missing then broken (Some d) '' needs a linked relay for its policy scripts''
                              else (unbound origin ref)\<lparr>rr_service := Some ev, rr_definition := Some d\<rparr>))))))"

definition agent_ref :: "('a) registry_scheme \<Rightarrow> string \<Rightarrow> string \<Rightarrow> gate_ref option" where
  "agent_ref reg conv agent =
     (if conv = [] \<or> agent = [] then None
      else case rg_agent_gate reg conv agent of Inl _ \<Rightarrow> None | Inr raw \<Rightarrow> normalize_ref (rg_repr reg) raw)"

record resolved_gates =
  rs_conversation :: resolved_ref
  rs_agent :: resolved_ref
  rs_bound :: bool
  rs_broken :: bool
  rs_gates :: "(string \<times> gate_ref option \<times> evaluator) list"

definition same_service :: "gate_ref option \<Rightarrow> gate_ref option \<Rightarrow> bool" where
  "same_service agent conversation =
     (case (agent, conversation) of
        (Some (s, i), Some (s', i')) \<Rightarrow> i = i' \<and> (s = [] \<or> s = s')
      | _ \<Rightarrow> False)"

definition resolve_gates :: "('a) registry_scheme \<Rightarrow> conv_extras \<Rightarrow> string \<Rightarrow> string \<Rightarrow> string \<Rightarrow> resolved_gates res" where
  "resolve_gates reg extras user conv agent =
     bind_res (resolve_ref reg (get_binding (rg_repr reg) extras conv) user conv ''conversation'') (\<lambda>c.
       (let own = agent_ref reg conv agent in
        bind_res (resolve_ref reg (if same_service own (rr_ref c) then None else own) user conv ''agent'') (\<lambda>a.
          Inr \<lparr>rs_conversation = c, rs_agent = a, rs_bound = (rr_ref c \<noteq> None \<or> rr_ref a \<noteq> None),
               rs_broken = (rr_broken c \<or> rr_broken a),
               rs_gates = concat (map (\<lambda>g. case rr_service g of None \<Rightarrow> [] | Some ev \<Rightarrow> [(rr_origin g, rr_ref g, ev)]) [c, a])\<rparr>)))"

subsection \<open>The audit log\<close>

text \<open>\<open>_SAFE.sub("_", conversation_id or "unknown")[:128] + ".jsonl"\<close>: a run of other characters becomes one underscore.\<close>

fun safe_name :: "bool \<Rightarrow> string \<Rightarrow> string" where
  "safe_name in_run [] = []"
| "safe_name in_run (c # cs) =
     (if is_part_char c then c # safe_name False cs else if in_run then safe_name True cs else CHR ''_'' # safe_name True cs)"

definition audit_file :: "string \<Rightarrow> string" where
  "audit_file conv = take 128 (safe_name False (if conv = [] then ''unknown'' else conv)) @ ''.jsonl''"

type_synonym audit_log = "(string \<times> json) list"

definition audit :: "audit_log \<Rightarrow> string \<Rightarrow> json \<Rightarrow> audit_log" where
  "audit trail conv rec = trail @ [(audit_file conv, rec)]"

definition list_decisions :: "audit_log \<Rightarrow> string \<Rightarrow> int \<Rightarrow> json list" where
  "list_decisions trail conv limit =
     (let rows = map snd (filter (\<lambda>e. fst e = audit_file conv) trail) in drop (length rows - nat (max 1 limit)) rows)"

definition record_execution_outcome :: "audit_log \<Rightarrow> string \<Rightarrow> string \<Rightarrow> json \<Rightarrow> string \<Rightarrow> audit_log" where
  "record_execution_outcome trail conv decision_id now outcome =
     (if decision_id = [] then trail
      else audit trail conv (JDict [(''decision_id'', JStr decision_id), (''created_at'', now), (''outcome'', JStr outcome)]))"

subsection \<open>The decision on a call\<close>

record gate_result =
  gr_outcome :: gate_outcome
  gr_origin :: string
  gr_ref :: "gate_ref option"

record authz_result =
  ar_decision :: string
  ar_reason :: string
  ar_classification :: string
  ar_gates :: "gate_result list"
  ar_envelope :: "json option"
  ar_decision_id :: string
  ar_authority_ref :: "authorization_ref option"

definition plain_result :: "string \<Rightarrow> string \<Rightarrow> string \<Rightarrow> authz_result" where
  "plain_result decision reason classification = \<lparr>ar_decision = decision, ar_reason = reason, ar_classification = classification,
     ar_gates = [], ar_envelope = None, ar_decision_id = [], ar_authority_ref = None\<rparr>"

record authz_call =
  az_who :: call_identity
  az_arguments :: json
  az_mode :: string
  az_permission :: string
  az_override :: bool
  az_secrets :: "string list"
  az_effects :: "(string list) option"
  az_ref :: "authorization_ref option"
  az_attribution :: json

text \<open>
  What one call takes from outside: the uuids and times it mints, the hash, the running turn's reference, the stores of authority and
  extras, and the resolution of the gates (\<open>resolve_gates\<close> or what the caller resolved before).
\<close>

record authz_env =
  ae_repr :: "json \<Rightarrow> string"
  ae_digest :: "json \<Rightarrow> string"
  ae_uuid :: string
  ae_now :: json
  ae_current :: "authorization_ref option"
  ae_store :: auth_store
  ae_extras :: conv_extras
  ae_gates :: "resolved_gates res"
  ae_error :: "py_error \<Rightarrow> string"

definition load_authority :: "authz_env \<Rightarrow> string \<Rightarrow> string \<Rightarrow> string \<Rightarrow> authorization_ref option \<Rightarrow> auth_doc option \<times> authorization_ref option" where
  "load_authority env user conv agent explicit =
     (let ref = (case explicit of Some r \<Rightarrow> Some r | None \<Rightarrow>
                  (case ae_current env of Some r \<Rightarrow> Some r | None \<Rightarrow> active_authority_ref (ae_repr env) (ae_extras env) conv agent)) in
      case ref of
        None \<Rightarrow> (None, None)
      | Some r \<Rightarrow>
          (case auth_snapshot user conv (rf_context_id r) (Some (rf_revision r)) (ae_store env) of
             None \<Rightarrow> (None, Some r)
           | Some doc \<Rightarrow> (Some doc, Some (auth_ref doc))))"

definition call_envelope :: "authz_env \<Rightarrow> authz_call \<Rightarrow> auth_doc option \<Rightarrow> string \<Rightarrow> json" where
  "call_envelope env call authority classification =
     (case build_envelope (ae_digest env) (ae_uuid env) (ae_now env) (az_who call) (az_arguments call) authority (az_secrets call)
             classification None (az_effects call) of
        JDict d \<Rightarrow> JDict (if jtruthy (az_attribution call) then AList.update ''attribution'' (az_attribution call) d else d)
      | v \<Rightarrow> v)"

definition opt_json :: "('a \<Rightarrow> json) \<Rightarrow> 'a option \<Rightarrow> json" where
  "opt_json f x = (case x of None \<Rightarrow> JNull | Some v \<Rightarrow> f v)"

definition ref_json :: "gate_ref option \<Rightarrow> json" where
  "ref_json r = (case r of None \<Rightarrow> JDict [] | Some (s, i) \<Rightarrow> JDict [(''scope'', JStr s), (''service_id'', JStr i)])"

definition audit_evaluator :: "eval_result \<Rightarrow> json" where
  "audit_evaluator e = JDict [(''source'', JStr (er_source e)), (''source_id'', JStr (er_source_id e)), (''decision'', JStr (er_decision e)),
     (''reason'', JStr (er_reason e)), (''rule_id'', JStr (er_rule_id e))]"

definition audit_gate :: "gate_result \<Rightarrow> json" where
  "audit_gate g = JDict [(''origin'', JStr (gr_origin g)), (''ref'', ref_json (gr_ref g)), (''decision'', JStr (go_decision (gr_outcome g))),
     (''reason'', JStr (go_reason (gr_outcome g))), (''evaluators'', JList (map audit_evaluator (go_evaluators (gr_outcome g))))]"

definition audit_record :: "authz_env \<Rightarrow> authz_result \<Rightarrow> call_identity \<Rightarrow> json" where
  "audit_record env result who =
     (let envelope = (case ar_envelope result of None \<Rightarrow> JDict [] | Some e \<Rightarrow> e);
          call = or_dict (jget_or envelope ''tool_call'' JNull);
          effects = jget_or call ''capability_effects'' JNull in
      JDict [(''decision_id'', JStr (if ar_decision_id result \<noteq> [] then ar_decision_id result else ae_uuid env)), (''created_at'', ae_now env),
        (''user_id'', JStr (ci_user who)), (''agent_name'', JStr (ci_agent who)), (''turn_id'', JStr (ci_turn who)), (''tool'', JStr (ci_tool who)),
        (''arguments'', jget_or call ''arguments'' JNull), (''arguments_sha256'', jget_or call ''arguments_sha256'' (JStr [])),
        (''classification'', JStr (ar_classification result)), (''capability_effects'', if jtruthy effects then effects else JList []),
        (''authority'', opt_json (\<lambda>r. JDict (ref_dict r)) (ar_authority_ref result)),
        (''attribution'', or_dict (jget_or envelope ''attribution'' JNull)),
        (''decision'', JStr (ar_decision result)), (''reason'', JStr (ar_reason result)), (''gates'', JList (map audit_gate (ar_gates result)))])"

text \<open>The loop over the gates: the decision of each origin, the results, and the stop at a denial.\<close>

fun eval_gates :: "authz_env \<Rightarrow> json \<Rightarrow> (string \<times> gate_ref option \<times> evaluator) list \<Rightarrow> (string, string) dict \<Rightarrow>
    (string, string) dict \<times> gate_result list" where
  "eval_gates env envelope [] per = (per, [])"
| "eval_gates env envelope ((origin, ref, ev) # gates) per =
     (let out = (case ev envelope of
            Inr o' \<Rightarrow> o'
          | Inl e \<Rightarrow> \<lparr>go_decision = ''ask'', go_reason = ''gate failure: '' @ ae_error env e, go_evaluators = [], go_service_id = []\<rparr>);
          result = \<lparr>gr_outcome = out, gr_origin = origin, gr_ref = ref\<rparr>;
          per' = AList.update origin (go_decision out) per in
      if go_decision out = ''deny'' then (per', [result])
      else (let (per'', results) = eval_gates env envelope gates per' in (per'', result # results)))"

definition gate_line :: "gate_result \<Rightarrow> string" where
  "gate_line g = py_strip (gr_origin g @ '' gate '' @ go_decision (gr_outcome g) @ '': '' @ go_reason (gr_outcome g))"

definition mapped_decision :: "string \<Rightarrow> string" where
  "mapped_decision final = (if final = ''allow'' then ''execute'' else final)"

definition gates_decide :: "authz_env \<Rightarrow> authz_call \<Rightarrow> resolved_gates \<Rightarrow> string \<Rightarrow> string \<Rightarrow> authz_result" where
  "gates_decide env call gates classification why =
     (let who = az_who call;
          (doc, ref) = load_authority env (ci_user who) (ci_conversation who) (ci_agent who) (az_ref call);
          envelope = call_envelope env call doc classification;
          base = \<lparr>ar_decision = [], ar_reason = [], ar_classification = classification, ar_gates = [], ar_envelope = Some envelope,
                  ar_decision_id = ae_uuid env, ar_authority_ref = ref\<rparr> in
      if rs_broken gates then
        base\<lparr>ar_decision := ''ask'', ar_reason := ''policy gate unavailable ('' @
          join_with ''; '' (filter (\<lambda>e. e \<noteq> []) [rr_error (rs_conversation gates), rr_error (rs_agent gates)]) @ ''); confirmation required''\<rparr>
      else
        (let (per, results) = eval_gates env envelope (rs_gates gates) [];
             final = compose_final (map_of per ''conversation'') (map_of per ''agent'');
             reason = join_with '' | '' (map gate_line results);
             floor = (classification = ''hard_confirm'' \<and> final = ''allow'')
         in base\<lparr>ar_decision := mapped_decision (if floor then ''ask'' else final),
              ar_reason := take 900 (if floor then why @ '' requires confirmation; '' @ reason else reason), ar_gates := results\<rparr>))"

definition authorize_tool_call :: "authz_env \<Rightarrow> authz_call \<Rightarrow> audit_log \<Rightarrow> (authz_result \<times> audit_log) res" where
  "authorize_tool_call env call trail =
     bind_res (classify_call (ae_repr env) (ci_tool (az_who call)) (az_arguments call) (az_mode call) (az_permission call) (az_override call) (az_effects call))
       (\<lambda>(classification, why).
         (let who = az_who call;
              audited = (\<lambda>result. (result, audit trail (ci_conversation who) (audit_record env result who)));
              legacy = (\<lambda>reason cls. Inr (plain_result ''legacy'' reason cls, trail)) in
          if az_effects call \<noteq> None \<and> classification = ''internal_ungated'' then legacy why classification
          else if az_effects call \<noteq> None \<and> classification = ''hard_deny'' then
            Inr (audited ((plain_result ''deny'' (''structural guard: '' @ why) classification)
              \<lparr>ar_envelope := Some (call_envelope env call None classification), ar_decision_id := ae_uuid env\<rparr>))
          else case ae_gates env of
            Inl e \<Rightarrow> legacy ''gate resolution failed'' ''ordinary''
          | Inr gates \<Rightarrow>
              if \<not> rs_bound gates then legacy [] ''ordinary''
              else if classification = ''internal_ungated'' then legacy why classification
              else if classification = ''hard_deny'' then
                Inr (audited ((plain_result ''deny'' (''structural guard: '' @ why) classification)\<lparr>ar_decision_id := ae_uuid env\<rparr>))
              else Inr (audited (gates_decide env call gates classification why))))"

subsection \<open>The adapter of the other runtimes\<close>

text \<open>
  \<open>gate_for_runtime\<close> up to the approval dialogue: no gate, the call may run, an error text, or the call of
  \<open>ToolApprovalGate.check\<close> whose verdict \<open>runtime_answer\<close> turns into the result.  The dash of the summary is written \<open>-\<close>.
\<close>

datatype runtime_gate = NoGate | MayRun | Refused string | AsksUser approval_call

definition tool_text :: "string \<Rightarrow> string" where
  "tool_text tool = ''Error: Tool '' @ [CHR 0x27] @ tool @ [CHR 0x27]"

definition runtime_call :: "call_identity \<Rightarrow> json \<Rightarrow> string \<Rightarrow> string \<Rightarrow> string list \<Rightarrow> authz_call" where
  "runtime_call who arguments mode permission secrets =
     \<lparr>az_who = who, az_arguments = (if is_dict arguments then arguments else JDict []), az_mode = mode, az_permission = permission,
      az_override = False, az_secrets = secrets, az_effects = None, az_ref = None, az_attribution = JNull\<rparr>"

definition gate_for_runtime ::
    "authz_env \<Rightarrow> authz_call \<Rightarrow> string \<Rightarrow> bool \<Rightarrow> string \<Rightarrow> audit_log \<Rightarrow> (runtime_gate \<times> audit_log) res" where
  "gate_for_runtime env call runtime allow_prompt approval_cid trail =
     bind_res (authorize_tool_call env call trail) (\<lambda>(result, trail').
       (let who = az_who call; tool = ci_tool who; short = take 160 (ar_reason result) in
        Inr (if ar_decision result = ''legacy'' then NoGate
             else if ar_decision result = ''deny'' then Refused (tool_text tool @ '' was denied by the policy gate: '' @ ar_reason result)
             else if ar_decision result = ''execute'' then MayRun
             else if \<not> allow_prompt then
               Refused (tool_text tool @ '' requires interactive confirmation (policy gate, '' @ runtime @ '' runtime): '' @ short)
             else AsksUser \<lparr>ac_tool = tool, ac_summary = ''[policy gate] '' @ short @ '' - '' @ tool,
               ac_conversation = (if approval_cid \<noteq> [] then approval_cid else ci_conversation who), ac_agent = ci_agent who,
               ac_arguments = az_arguments call, ac_allow_prompt = True, ac_attribution = JNull, ac_force_prompt = True\<rparr>, trail')))"

definition runtime_answer :: "string \<Rightarrow> string \<Rightarrow> runtime_gate" where
  "runtime_answer tool verdict =
     (if verdict = ''approved'' then MayRun
      else Refused (tool_text tool @ '' was '' @ verdict @ '' by the user (policy gate asked for confirmation).''))"

definition interim_guard :: "authz_env \<Rightarrow> call_identity \<Rightarrow> json \<Rightarrow> string \<Rightarrow> audit_log \<Rightarrow> (string \<times> audit_log) res" where
  "interim_guard env who arguments runtime trail =
     (if ci_conversation who = [] then Inr ([], trail)
      else case ae_gates env of
        Inl _ \<Rightarrow> Inr ([], trail)
      | Inr gates \<Rightarrow>
          if \<not> rs_bound gates then Inr ([], trail)
          else bind_res (classify_call (ae_repr env) (ci_tool who) (if is_dict arguments then arguments else JDict []) ''default'' [] False None)
            (\<lambda>(classification, why).
              if classification = ''internal_ungated'' then Inr ([], trail)
              else Inr (tool_text (ci_tool who) @ '' was refused: a policy gate is bound to this conversation or agent and the '' @ runtime @
                  '' runtime is not gated yet. Run the call from the main agent or unbind the gate.'',
                audit trail (ci_conversation who) (JDict [(''decision_id'', JStr (ae_uuid env)), (''created_at'', ae_now env),
                  (''user_id'', JStr (ci_user who)), (''agent_name'', JStr (ci_agent who)), (''tool'', JStr (ci_tool who)),
                  (''decision'', JStr ''deny''), (''classification'', JStr classification), (''runtime'', JStr runtime),
                  (''reason'', JStr ''runtime not yet gated; policy gate bound'')]))))"

subsection \<open>Bindings and gates\<close>

definition asked :: "resolved_ref \<Rightarrow> (string \<times> gate_ref option \<times> evaluator) list" where
  "asked g = (case rr_service g of None \<Rightarrow> [] | Some ev \<Rightarrow> [(rr_origin g, rr_ref g, ev)])"

lemma asked_iff: "(origin, ref, ev) \<in> set (asked g) \<longleftrightarrow> rr_service g = Some ev \<and> origin = rr_origin g \<and> ref = rr_ref g"
  by (auto simp: asked_def split: option.split)

lemma resolve_ref_spec:
  assumes "resolve_ref reg ref user conv origin = Inr g"
  shows "rr_origin g = origin" "rr_ref g = ref" "rr_service g \<noteq> None \<longleftrightarrow> ref \<noteq> None \<and> \<not> rr_broken g"
  using assms by (auto simp: resolve_ref_def unbound_def Let_def bind_res_Inr_iff split: option.splits if_splits)

lemma resolve_gates_spec:
  assumes "resolve_gates reg extras user conv agent = Inr gates"
  shows "rs_gates gates = asked (rs_conversation gates) @ asked (rs_agent gates)"
    "rr_origin (rs_conversation gates) = ''conversation''" "rr_origin (rs_agent gates) = ''agent''"
    "rs_bound gates \<longleftrightarrow> rr_ref (rs_conversation gates) \<noteq> None \<or> rr_ref (rs_agent gates) \<noteq> None"
    "rs_broken gates \<longleftrightarrow> rr_broken (rs_conversation gates) \<or> rr_broken (rs_agent gates)"
    "rr_service (rs_conversation gates) \<noteq> None \<longleftrightarrow> rr_ref (rs_conversation gates) \<noteq> None \<and> \<not> rr_broken (rs_conversation gates)"
    "rr_service (rs_agent gates) \<noteq> None \<longleftrightarrow> rr_ref (rs_agent gates) \<noteq> None \<and> \<not> rr_broken (rs_agent gates)"
proof -
  obtain c a ref where c: "resolve_ref reg (get_binding (rg_repr reg) extras conv) user conv ''conversation'' = Inr c"
    and a: "resolve_ref reg ref user conv ''agent'' = Inr a"
    and g: "gates = \<lparr>rs_conversation = c, rs_agent = a, rs_bound = (rr_ref c \<noteq> None \<or> rr_ref a \<noteq> None),
       rs_broken = (rr_broken c \<or> rr_broken a), rs_gates = asked c @ asked a\<rparr>"
    using assms by (auto simp: resolve_gates_def bind_res_Inr_iff Let_def asked_def)
  show "rs_gates gates = asked (rs_conversation gates) @ asked (rs_agent gates)"
    "rs_bound gates \<longleftrightarrow> rr_ref (rs_conversation gates) \<noteq> None \<or> rr_ref (rs_agent gates) \<noteq> None"
    "rs_broken gates \<longleftrightarrow> rr_broken (rs_conversation gates) \<or> rr_broken (rs_agent gates)" using g by simp_all
  show "rr_origin (rs_conversation gates) = ''conversation''" "rr_origin (rs_agent gates) = ''agent''"
    using g resolve_ref_spec(1) [OF c] resolve_ref_spec(1) [OF a] by simp_all
  show "rr_service (rs_conversation gates) \<noteq> None \<longleftrightarrow> rr_ref (rs_conversation gates) \<noteq> None \<and> \<not> rr_broken (rs_conversation gates)"
    "rr_service (rs_agent gates) \<noteq> None \<longleftrightarrow> rr_ref (rs_agent gates) \<noteq> None \<and> \<not> rr_broken (rs_agent gates)"
    using g resolve_ref_spec(2,3) [OF c] resolve_ref_spec(2,3) [OF a] by simp_all
qed

text \<open>
  Bindings round trip and a broken binding never disappears: a binding that was set is the one read back, clearing
  removes it, and in the resolution a binding is either served by its own gate or reported as broken, so that a bound
  conversation has a gate to ask or is broken.\<close>

theorem bindings_fail_closed:
  assumes "map_of extras conv \<noteq> None" "set_binding extras conv scope service = Inr extras'"
    and "resolve_gates reg extras' user conv agent = Inr gates" "rg_repr reg = repr_of"
  shows "get_binding repr_of extras' conv = Some (scope, service) \<and>
    get_binding repr_of (snd (clear_binding repr_of extras' conv)) conv = None \<and> fst (clear_binding repr_of extras' conv) \<and>
    rs_bound gates \<and> rr_ref (rs_conversation gates) = Some (scope, service) \<and>
    (rs_broken gates \<or> (\<exists>ev. (''conversation'', Some (scope, service), ev) \<in> set (rs_gates gates)))"
proof -
  obtain d where d: "map_of extras conv = Some d" using assms(1) by blast
  have set: "conv \<noteq> []" "scope \<in> set BINDING_SCOPES" "service \<noteq> []"
    "extras' = set_extra extras conv ''gating_binding'' (JDict [(''scope'', JStr scope), (''service_id'', JStr service)])"
    using assms(2) by (auto simp: set_binding_def split: if_splits)
  have stored: "get_extra extras' conv ''gating_binding'' = JDict [(''scope'', JStr scope), (''service_id'', JStr service)]"
    "map_of extras' conv \<noteq> None" using d by (simp_all add: set(4) get_extra_def set_extra_def update_conv')
  have "scope \<noteq> []" using set(2) by (auto simp: BINDING_SCOPES_def)
  then have read: "get_binding repr_of extras' conv = Some (scope, service)"
    using set stored by (simp add: get_binding_def normalize_ref_def is_dict_def jget_or_def jget_def str_or_empty_def py_str_def jtruthy_def)
  have "get_extra (set_extra extras' conv ''gating_binding'' (JDict [])) conv ''gating_binding'' = JDict []"
    using stored(2) by (auto simp: get_extra_def set_extra_def update_conv')
  then have clear: "get_binding repr_of (snd (clear_binding repr_of extras' conv)) conv = None" "fst (clear_binding repr_of extras' conv)"
    using set(1) read by (simp_all add: clear_binding_def get_binding_def normalize_ref_def is_dict_def jget_or_def jget_def str_or_empty_def jtruthy_def)
  note spec = resolve_gates_spec [OF assms(3)]
  have "rr_ref (rs_conversation gates) = Some (scope, service)"
    using assms(3,4) read resolve_ref_spec(2) by (auto simp: resolve_gates_def bind_res_Inr_iff Let_def)
  then show ?thesis using read clear spec by (auto simp: asked_def split: option.splits)
qed

definition demo_registry :: registry where
  "demo_registry = \<lparr>rg_definition = (\<lambda>s i n. Inr None), rg_resolve = (\<lambda>n u c. Inr None), rg_live = (\<lambda>d. Inr None), rg_linked = (\<lambda>c. Inr False),
     rg_agent_gate = (\<lambda>c a. Inr JNull), rg_repr = (\<lambda>v. [])\<rparr>"

lemma demo_resolve_ref: "\<exists>g. resolve_ref demo_registry ref user conv origin = Inr g"
  by (cases ref) (simp_all add: resolve_ref_def gate_definition_def demo_registry_def Let_def)

lemma demo_resolves: "\<exists>gates. resolve_gates demo_registry extras user conv agent = Inr gates"
proof -
  obtain c where c: "resolve_ref demo_registry (get_binding (rg_repr demo_registry) extras conv) user conv ''conversation'' = Inr c"
    using demo_resolve_ref by blast
  obtain a where "resolve_ref demo_registry (if same_service (agent_ref demo_registry conv agent) (rr_ref c) then None
      else agent_ref demo_registry conv agent) user conv ''agent'' = Inr a"
    using demo_resolve_ref by blast
  then show ?thesis using c by (simp add: resolve_gates_def Let_def)
qed

theorem bindings_fail_closed_witness:
  "\<exists>extras' gates. set_binding [(''c'', [])] ''c'' ''user'' ''g'' = Inr extras' \<and> resolve_gates demo_registry extras' ''u'' ''c'' ''a'' = Inr gates \<and>
     get_binding (\<lambda>v. []) extras' ''c'' = Some (''user'', ''g'') \<and> rs_bound gates"
proof -
  let ?extras = "set_extra [(''c'', [])] ''c'' ''gating_binding'' (JDict [(''scope'', JStr ''user''), (''service_id'', JStr ''g'')])"
  have set: "set_binding [(''c'', [])] ''c'' ''user'' ''g'' = Inr ?extras" by (simp add: set_binding_def BINDING_SCOPES_def)
  obtain gates where gates: "resolve_gates demo_registry ?extras ''u'' ''c'' ''a'' = Inr gates" using demo_resolves by blast
  have "rg_repr demo_registry = (\<lambda>v. [])" by (simp add: demo_registry_def)
  then show ?thesis using bindings_fail_closed [OF _ set gates] set gates by auto
qed

subsection \<open>What authorization guarantees\<close>

definition gate_decision :: "evaluator \<Rightarrow> json \<Rightarrow> string" where
  "gate_decision ev envelope = (case ev envelope of Inl _ \<Rightarrow> ''ask'' | Inr out \<Rightarrow> go_decision out)"

lemma eval_gates_two:
  assumes "gates = asked c @ asked a" "rr_origin c = ''conversation''" "rr_origin a = ''agent''"
    and "eval_gates env envelope gates [] = (per, results)"
  shows "map_of per ''conversation'' = map_option (\<lambda>ev. gate_decision ev envelope) (rr_service c)"
    "map_of per ''conversation'' \<noteq> Some ''deny'' \<Longrightarrow> map_of per ''agent'' = map_option (\<lambda>ev. gate_decision ev envelope) (rr_service a)"
  using assms by (cases "rr_service c"; cases "rr_service a"; auto simp: asked_def gate_decision_def Let_def split: if_splits sum.splits)+

lemma compose_allow:
  "compose_final conversation agent = ''allow'' \<Longrightarrow>
     (\<forall>e. conversation = Some e \<or> agent = Some e \<longrightarrow> SEVERITY e \<le> 1) \<and> (conversation = Some ''allow'' \<or> agent = Some ''allow'')"
proof -
  assume allow: "compose_final conversation agent = ''allow''"
  have "SEVERITY ''allow'' = 1" by (simp add: SEVERITY_def)
  then have "SEVERITY e \<le> 1" if "conversation = Some e \<or> agent = Some e" for e
    using compose_final_spec(2) [OF that] allow by simp
  moreover have "conversation = Some ''allow'' \<or> agent = Some ''allow''"
    using allow by (auto simp: compose_final_def Let_def split: option.splits if_splits)
  ultimately show ?thesis by blast
qed

lemma gates_decide_execute:
  assumes "resolve_gates reg extras user conv agent = Inr gates"
    and "ar_decision (gates_decide env call gates classification why) = ''execute''"
  obtains envelope where "ar_envelope (gates_decide env call gates classification why) = Some envelope"
    "\<not> rs_broken gates" "classification \<noteq> ''hard_confirm''"
    "\<forall>(origin, ref, ev) \<in> set (rs_gates gates). SEVERITY (gate_decision ev envelope) \<le> 1"
    "\<exists>(origin, ref, ev) \<in> set (rs_gates gates). gate_decision ev envelope = ''allow''"
proof -
  note spec = resolve_gates_spec [OF assms(1)]
  let ?who = "az_who call"
  obtain doc ref where auth: "load_authority env (ci_user ?who) (ci_conversation ?who) (ci_agent ?who) (az_ref call) = (doc, ref)" by fastforce
  let ?envelope = "call_envelope env call doc classification"
  obtain per results where ev: "eval_gates env ?envelope (rs_gates gates) [] = (per, results)" by fastforce
  let ?final = "compose_final (map_of per ''conversation'') (map_of per ''agent'')"
  have unbroken: "\<not> rs_broken gates" using assms(2) by (auto simp: gates_decide_def auth Let_def split: if_splits)
  have decision: "mapped_decision (if classification = ''hard_confirm'' \<and> ?final = ''allow'' then ''ask'' else ?final) = ''execute''"
    using assms(2) unbroken by (simp add: gates_decide_def auth ev Let_def)
  have "?final \<in> set FINAL_DECISIONS" by (rule compose_final_spec(1))
  then have final: "?final = ''allow''" "classification \<noteq> ''hard_confirm''"
    using decision by (auto simp: mapped_decision_def FINAL_DECISIONS_def split: if_splits)
  note two = eval_gates_two [OF spec(1-3) ev]
  note allow = compose_allow [OF final(1)]
  have "map_of per ''conversation'' \<noteq> Some ''deny''" using allow by (auto simp: SEVERITY_def)
  then have agent: "map_of per ''agent'' = map_option (\<lambda>ev. gate_decision ev ?envelope) (rr_service (rs_agent gates))" by (rule two(2))
  show ?thesis
  proof (rule that [of ?envelope])
    show "ar_envelope (gates_decide env call gates classification why) = Some ?envelope"
      using unbroken by (simp add: gates_decide_def auth ev Let_def)
    have mild: "SEVERITY (gate_decision ev ?envelope) \<le> 1" if "(origin, ref, ev) \<in> set (rs_gates gates)" for origin ref ev
    proof -
      have "rr_service (rs_conversation gates) = Some ev \<or> rr_service (rs_agent gates) = Some ev" using that unfolding spec(1) by (auto simp: asked_iff)
      then have "map_of per ''conversation'' = Some (gate_decision ev ?envelope) \<or> map_of per ''agent'' = Some (gate_decision ev ?envelope)"
        using two(1) agent by auto
      then show ?thesis using allow by blast
    qed
    then show "\<forall>(origin, ref, ev) \<in> set (rs_gates gates). SEVERITY (gate_decision ev ?envelope) \<le> 1" by blast
    consider "map_of per ''conversation'' = Some ''allow''" | "map_of per ''agent'' = Some ''allow''" using allow by blast
    then obtain ev g where "rr_service g = Some ev" "gate_decision ev ?envelope = ''allow''" "g = rs_conversation gates \<or> g = rs_agent gates"
      by cases (use two(1) agent in auto)
    then have "(rr_origin g, rr_ref g, ev) \<in> set (rs_gates gates)" "gate_decision ev ?envelope = ''allow''"
      unfolding spec(1) by (auto simp: asked_iff)
    then show "\<exists>(origin, ref, ev) \<in> set (rs_gates gates). gate_decision ev ?envelope = ''allow''" by blast
  qed (use unbroken final in auto)
qed

lemma gates_decide_final: "ar_decision (gates_decide env call gates cls why) \<in> {''deny'', ''ask'', ''execute''}"
proof -
  have "mapped_decision (if b then ''ask'' else compose_final x y) \<in> {''deny'', ''ask'', ''execute''}" for b x y
    using compose_final_spec(1) [of x y] by (auto simp: mapped_decision_def FINAL_DECISIONS_def)
  then show ?thesis by (auto simp: gates_decide_def Let_def split: prod.split if_splits)
qed

lemma authorize_cases:
  assumes "authorize_tool_call env call trail = Inr (result, trail')"
    and "classify_call (ae_repr env) (ci_tool (az_who call)) (az_arguments call) (az_mode call) (az_permission call)
      (az_override call) (az_effects call) = Inr (cls, why)"
  obtains (legacy) reason c where "result = plain_result ''legacy'' reason c" "trail' = trail"
  | (denied) e where "e = None \<or> e = Some (call_envelope env call None cls)" "cls = ''hard_deny''"
      "result = (plain_result ''deny'' (''structural guard: '' @ why) cls)\<lparr>ar_envelope := e, ar_decision_id := ae_uuid env\<rparr>"
      "trail' = audit trail (ci_conversation (az_who call)) (audit_record env result (az_who call))"
  | (decided) gates where "ae_gates env = Inr gates" "rs_bound gates" "cls \<noteq> ''internal_ungated''" "cls \<noteq> ''hard_deny''"
      "result = gates_decide env call gates cls why"
      "trail' = audit trail (ci_conversation (az_who call)) (audit_record env result (az_who call))"
proof -
  consider "az_effects call \<noteq> None" "cls = ''internal_ungated''" | "az_effects call \<noteq> None" "cls = ''hard_deny''"
    | "\<not> (az_effects call \<noteq> None \<and> cls \<in> {''internal_ungated'', ''hard_deny''})" by blast
  then show thesis
  proof cases
    case 1
    then show ?thesis using assms legacy by (auto simp: authorize_tool_call_def)
  next
    case 2
    then show ?thesis using assms denied [of "Some (call_envelope env call None cls)"] by (auto simp: authorize_tool_call_def Let_def)
  next
    case 3
    show ?thesis
    proof (cases "ae_gates env")
      case (Inl e)
      then show ?thesis using 3 assms legacy by (auto simp: authorize_tool_call_def Let_def split: if_splits)
    next
      case (Inr gates)
      consider "\<not> rs_bound gates \<or> cls = ''internal_ungated''" | "rs_bound gates" "cls = ''hard_deny''"
        | "rs_bound gates" "cls \<noteq> ''internal_ungated''" "cls \<noteq> ''hard_deny''" by blast
      then show ?thesis
      proof cases
        case 1
        then show ?thesis using 3 Inr assms legacy by (auto simp: authorize_tool_call_def Let_def split: if_splits)
      next
        case 2
        then show ?thesis using 3 Inr assms denied [of None] by (auto simp: authorize_tool_call_def Let_def plain_result_def)
      next
        case r: 3
        then show ?thesis using Inr assms decided [of gates] by (auto simp: authorize_tool_call_def Let_def)
      qed
    qed
  qed
qed

lemma executed_gates:
  assumes "resolve_gates reg extras user conv agent = Inr gates" "ae_gates env = Inr gates"
    and "authorize_tool_call env call trail = Inr (result, trail')" "ar_decision result = ''execute''"
  shows "rs_bound gates \<and> \<not> rs_broken gates \<and> ar_classification result = ''ordinary'' \<and>
    (\<exists>envelope. ar_envelope result = Some envelope \<and>
       (\<forall>(origin, ref, ev) \<in> set (rs_gates gates). \<exists>out. ev envelope = Inr out \<and> go_decision out \<notin> {''deny'', ''ask''}) \<and>
       (\<exists>(origin, ref, ev) \<in> set (rs_gates gates). \<exists>out. ev envelope = Inr out \<and> go_decision out = ''allow''))"
proof -
  obtain cls why where cls: "classify_call (ae_repr env) (ci_tool (az_who call)) (az_arguments call) (az_mode call) (az_permission call)
      (az_override call) (az_effects call) = Inr (cls, why)"
    using assms(3) by (auto simp: authorize_tool_call_def bind_res_Inr_iff)
  have kinds: "cls \<in> {''internal_ungated'', ''hard_deny'', ''hard_confirm'', ''ordinary''}"
    using cls by (auto simp: classify_call_def Let_def bind_res_Inr_iff split: if_splits option.splits)
  have decided: "rs_bound gates" "result = gates_decide env call gates cls why" "cls \<noteq> ''internal_ungated''" "cls \<noteq> ''hard_deny''"
    using assms(3) cls by (rule authorize_cases; use assms(2,4) in \<open>simp add: plain_result_def\<close>)+
  have is_cls: "ar_classification result = cls"
    unfolding decided(2) gates_decide_def by (simp add: Let_def split: prod.split)
  obtain envelope where e: "ar_envelope result = Some envelope" "\<not> rs_broken gates" "cls \<noteq> ''hard_confirm''"
    "\<forall>(origin, ref, ev) \<in> set (rs_gates gates). SEVERITY (gate_decision ev envelope) \<le> 1"
    "\<exists>(origin, ref, ev) \<in> set (rs_gates gates). gate_decision ev envelope = ''allow''"
    using gates_decide_execute [OF assms(1), of env call cls why] assms(4) unfolding decided(2) by metis
  have out: "\<exists>out. ev envelope = Inr out \<and> go_decision out = gate_decision ev envelope" if "SEVERITY (gate_decision ev envelope) \<le> 1" for ev
    using that by (cases "ev envelope") (auto simp: gate_decision_def SEVERITY_def)
  have mild: "d \<notin> {''deny'', ''ask''}" if "SEVERITY d \<le> 1" for d using that by (auto simp: SEVERITY_def)
  have "\<exists>out. ev envelope = Inr out \<and> go_decision out \<notin> {''deny'', ''ask''}" if "(origin, ref, ev) \<in> set (rs_gates gates)" for origin ref ev
    using e(4) that out mild by fastforce
  moreover obtain origin ref ev where "(origin, ref, ev) \<in> set (rs_gates gates)" "gate_decision ev envelope = ''allow''" using e(5) by blast
  moreover have "SEVERITY ''allow'' \<le> 1" by (simp add: SEVERITY_def)
  ultimately have "(\<forall>(origin, ref, ev) \<in> set (rs_gates gates). \<exists>out. ev envelope = Inr out \<and> go_decision out \<notin> {''deny'', ''ask''}) \<and>
      (\<exists>(origin, ref, ev) \<in> set (rs_gates gates). \<exists>out. ev envelope = Inr out \<and> go_decision out = ''allow'')"
    using out [of ev] by fastforce
  then show ?thesis using decided(1) e(1-3) is_cls kinds decided(3,4) by auto
qed

text \<open>
  C14: Authorization executes a call only through its gates: an execution is decided only for a call classified as ordinary, when a gate is
  bound, no binding is broken, and every resolved gate, asked about the redacted envelope of the call, returned a decision that
  neither denies nor asks, at least one of them \<open>allow\<close>; each binding has its gate among them.\<close>

theorem execute_needs_every_gate:
  assumes "resolve_gates reg extras user conv agent = Inr gates" "ae_gates env = Inr gates"
    and "authorize_tool_call env call trail = Inr (result, trail')" "ar_decision result = ''execute''"
  shows "rs_bound gates \<and> \<not> rs_broken gates \<and> ar_classification result = ''ordinary'' \<and>
    (\<exists>envelope. ar_envelope result = Some envelope \<and>
       (\<forall>(origin, ref, ev) \<in> set (rs_gates gates). \<exists>out. ev envelope = Inr out \<and> go_decision out \<notin> {''deny'', ''ask''}) \<and>
       (\<exists>(origin, ref, ev) \<in> set (rs_gates gates). \<exists>out. ev envelope = Inr out \<and> go_decision out = ''allow'')) \<and>
    (rr_ref (rs_conversation gates) \<noteq> None \<longrightarrow> (\<exists>x \<in> set (rs_gates gates). fst x = ''conversation'')) \<and>
    (rr_ref (rs_agent gates) \<noteq> None \<longrightarrow> (\<exists>x \<in> set (rs_gates gates). fst x = ''agent''))"
  using executed_gates [OF assms] resolve_gates_spec [OF assms(1)] by (auto simp: asked_def split: option.splits)

definition open_def :: service_def where
  "open_def = \<lparr>sd_service_id = ''g'', sd_scope = ''user'', sd_scope_id = ''u'', sd_service_type = ''gating'', sd_enabled = True,
     sd_description = [], sd_config = JDict []\<rparr>"

definition open_gate :: evaluator where
  "open_gate envelope = Inr \<lparr>go_decision = ''allow'', go_reason = ''in scope'', go_evaluators = [], go_service_id = ''g''\<rparr>"

definition open_registry :: registry where
  "open_registry = demo_registry\<lparr>rg_definition := (\<lambda>s i n. Inr (Some open_def)), rg_live := (\<lambda>d. Inr (Some open_gate))\<rparr>"

definition bound_extras :: conv_extras where
  "bound_extras = [(''c'', [(''gating_binding'', JDict [(''scope'', JStr ''user''), (''service_id'', JStr ''g'')])])]"

definition open_gates :: resolved_gates where
  "open_gates = \<lparr>rs_conversation = \<lparr>rr_origin = ''conversation'', rr_ref = Some (''user'', ''g''), rr_service = Some open_gate,
       rr_definition = Some open_def, rr_broken = False, rr_error = []\<rparr>,
     rs_agent = unbound ''agent'' None, rs_bound = True, rs_broken = False, rs_gates = [(''conversation'', Some (''user'', ''g''), open_gate)]\<rparr>"

definition authz_demo_env :: authz_env where
  "authz_demo_env = \<lparr>ae_repr = (\<lambda>v. []), ae_digest = (\<lambda>v. []), ae_uuid = ''id'', ae_now = JNull, ae_current = None,
     ae_store = \<lparr>as_files = [], as_cache = []\<rparr>, ae_extras = bound_extras, ae_gates = Inr open_gates, ae_error = (\<lambda>e. [])\<rparr>"

definition demo_call :: authz_call where
  "demo_call = runtime_call \<lparr>ci_user = ''u'', ci_conversation = ''c'', ci_agent = ''a'', ci_turn = [], ci_tool = ''fetch'', ci_call = []\<rparr>
     (JDict [(''url'', JStr ''x'')]) ''default'' [] []"

lemma open_resolves: "resolve_gates open_registry bound_extras ''u'' ''c'' ''a'' = Inr open_gates"
proof -
  have "get_binding (\<lambda>v. []) bound_extras ''c'' = Some (''user'', ''g'')" by code_simp
  moreover have "agent_ref open_registry ''c'' ''a'' = None"
    by (simp add: agent_ref_def open_registry_def demo_registry_def normalize_ref_def is_dict_def str_or_empty_def jtruthy_def py_strip_def)
  moreover have "script_names (\<lambda>v. []) (or_dict (JDict [])) = Inr []" by code_simp
  ultimately show ?thesis
    by (simp add: resolve_gates_def resolve_ref_def gate_definition_def needs_relay_def open_registry_def demo_registry_def open_gates_def open_def_def
        unbound_def same_service_def BINDING_SCOPES_def Let_def)
qed

lemma demo_executes: "\<exists>result trail. authorize_tool_call authz_demo_env demo_call [] = Inr (result, trail) \<and> ar_decision result = ''execute''"
proof -
  have "classify_call (\<lambda>v. []) ''fetch'' (JDict [(''url'', JStr ''x'')]) ''default'' [] False None = Inr (''ordinary'', [])" by code_simp
  moreover have "compose_final (Some ''allow'') None = ''allow''" by code_simp
  ultimately show ?thesis
    by (simp add: authorize_tool_call_def authz_demo_env_def demo_call_def runtime_call_def is_dict_def open_gates_def gates_decide_def open_gate_def
        mapped_decision_def Let_def split: prod.split)
qed

theorem execute_needs_every_gate_witness:
  "\<exists>result trail. authorize_tool_call authz_demo_env demo_call [] = Inr (result, trail) \<and> ar_decision result = ''execute'' \<and>
     ar_classification result = ''ordinary''"
proof -
  obtain result trail where call: "authorize_tool_call authz_demo_env demo_call [] = Inr (result, trail)" "ar_decision result = ''execute''"
    using demo_executes by blast
  have "ae_gates authz_demo_env = Inr open_gates" by (simp add: authz_demo_env_def)
  then show ?thesis using execute_needs_every_gate [OF open_resolves _ call] call by blast
qed

lemma envelope_arguments:
  "jget_or (or_dict (jget_or (call_envelope env call authority cls) ''tool_call'' JNull)) ''arguments'' JNull =
     redact_arguments (az_secrets call) 2000 64 8 (az_arguments call)"
  by (simp add: call_envelope_def build_envelope_def Let_def jget_or_def jget_def or_dict_def jtruthy_def update_conv')

text \<open>
  Every decision leaves exactly one record: a call that stays with the older rules is not audited, and every other
  decision appends one record to the file of its conversation, which names the decision, is the newest in the
  decision viewer and carries no arguments but the redacted ones.\<close>

theorem every_decision_audited:
  assumes "authorize_tool_call env call trail = Inr (result, trail')" "conv = ci_conversation (az_who call)"
    and "rec = audit_record env result (az_who call)"
  shows "trail' = (if ar_decision result = ''legacy'' then trail else trail @ [(audit_file conv, rec)]) \<and>
    ar_decision result \<in> {''legacy'', ''deny'', ''ask'', ''execute''} \<and>
    (ar_decision result \<noteq> ''legacy'' \<longrightarrow>
       last (list_decisions trail' conv limit) = rec \<and> jget rec ''decision'' = Some (JStr (ar_decision result)) \<and>
       jget_or rec ''arguments'' JNull \<in> {JNull, redact_arguments (az_secrets call) 2000 64 8 (az_arguments call)})"
proof -
  obtain cls why where cls: "classify_call (ae_repr env) (ci_tool (az_who call)) (az_arguments call) (az_mode call) (az_permission call)
      (az_override call) (az_effects call) = Inr (cls, why)"
    using assms(1) by (auto simp: authorize_tool_call_def bind_res_Inr_iff)
  have envelope: "ar_envelope (gates_decide env call gates cls why) \<in> {Some (call_envelope env call a c) |a c. True}" for gates
    by (auto simp: gates_decide_def Let_def split: prod.split)
  consider "ar_decision result = ''legacy''" "trail' = trail"
    | "ar_decision result \<in> {''deny'', ''ask'', ''execute''}" "trail' = trail @ [(audit_file conv, rec)]"
      "ar_envelope result = None \<or> (\<exists>a c. ar_envelope result = Some (call_envelope env call a c))"
    using assms(1) cls
  proof (cases rule: authorize_cases)
    case (decided gates)
    then show ?thesis using that(2) gates_decide_final [of env call gates cls why] envelope [of gates] assms(2,3) by (auto simp: audit_def)
  qed (use that assms(2,3) in \<open>auto simp: plain_result_def audit_def\<close>)
  then show ?thesis
  proof cases
    case 2
    have "jget rec ''decision'' = Some (JStr (ar_decision result))" unfolding assms(3) by (simp add: audit_record_def Let_def jget_def)
    moreover have "jget_or rec ''arguments'' JNull \<in> {JNull, redact_arguments (az_secrets call) 2000 64 8 (az_arguments call)}"
    proof -
      have "jget_or rec ''arguments'' JNull = jget_or (or_dict (jget_or (case ar_envelope result of None \<Rightarrow> JDict [] | Some e \<Rightarrow> e) ''tool_call'' JNull)) ''arguments'' JNull"
        unfolding assms(3) by (simp add: audit_record_def Let_def jget_or_def [of "JDict (_ # _)"] jget_def [of "JDict (_ # _)"])
      then show ?thesis
      proof (cases "ar_envelope result")
        case None
        with \<open>jget_or rec ''arguments'' JNull = _\<close> show ?thesis by (simp add: or_dict_def jget_or_def jget_def jtruthy_def)
      next
        case (Some e)
        with 2(3) obtain a c where "e = call_envelope env call a c" by auto
        with Some \<open>jget_or rec ''arguments'' JNull = _\<close> envelope_arguments show ?thesis by simp
      qed
    qed
    moreover have "last (list_decisions trail' conv limit) = rec"
    proof -
      let ?rows = "map snd (filter (\<lambda>e. fst e = audit_file conv) trail) @ [rec]"
      have "list_decisions trail' conv limit = drop (length ?rows - nat (max 1 limit)) ?rows" using 2(2) by (simp add: list_decisions_def Let_def)
      moreover have "length ?rows - nat (max 1 limit) < length ?rows" by simp
      ultimately show ?thesis by (metis last_drop last_snoc)
    qed
    ultimately show ?thesis using 2(1,2) by auto
  qed simp
qed

theorem every_decision_audited_witness:
  "\<exists>result trail rec. authorize_tool_call authz_demo_env demo_call [] = Inr (result, trail) \<and> trail = [(''c.jsonl'', rec)] \<and>
     jget rec ''decision'' = Some (JStr ''execute'')"
proof -
  obtain result trail where call: "authorize_tool_call authz_demo_env demo_call [] = Inr (result, trail)" "ar_decision result = ''execute''"
    using demo_executes by blast
  have "audit_file (ci_conversation (az_who demo_call)) = ''c.jsonl''" by code_simp
  then show ?thesis using every_decision_audited [OF call(1) refl refl] call by auto
qed

subsection \<open>The secondary runtimes\<close>

text \<open>What the adapter of the secondary runtimes returns, in terms of the decision.\<close>

lemma gate_for_runtime_cases:
  assumes "gate_for_runtime env call runtime allow_prompt cid trail = Inr (gate, trail')"
  obtains result where "authorize_tool_call env call trail = Inr (result, trail')"
    "gate = NoGate \<longleftrightarrow> ar_decision result = ''legacy''" "gate = MayRun \<longleftrightarrow> ar_decision result = ''execute''"
    "\<And>c. gate = AsksUser c \<Longrightarrow> allow_prompt \<and> ac_force_prompt c \<and> ac_allow_prompt c \<and> ac_tool c = ci_tool (az_who call)"
proof -
  obtain result where "authorize_tool_call env call trail = Inr (result, trail')"
    using assms by (auto simp: gate_for_runtime_def bind_res_Inr_iff Let_def)
  then show thesis using assms that [of result] by (auto simp: gate_for_runtime_def Let_def split: if_splits)
qed

lemma authorize_not_legacy:
  assumes "authorize_tool_call env call trail = Inr (result, trail')" "ae_gates env = Inr gates" "rs_bound gates"
    and "classify_call (ae_repr env) (ci_tool (az_who call)) (az_arguments call) (az_mode call) (az_permission call)
      (az_override call) (az_effects call) = Inr (cls, why)" "cls \<noteq> ''internal_ungated''"
  shows "ar_decision result \<noteq> ''legacy''"
proof -
  have "ar_decision (gates_decide env call gates cls why) \<noteq> ''legacy''" using gates_decide_final [of env call gates cls why] by auto
  then show ?thesis using assms by (auto simp: authorize_tool_call_def Let_def plain_result_def split: if_splits)
qed

end
