(* ===== verification/Spec2Isabelle.thy ===== *)
theory Spec2Isabelle
  imports Executor_Update Interaction_Proofs Poll_Scheduler Flow_Coordinator Validator Cron Budget Pending_Queue Tool_Sequence Tool_Authorization
begin

section \<open>PawFlow: a verification development\<close>

text \<open>
  PawFlow runs agents and dataflows.  A flow is a graph of tasks joined by bounded queues; a flow run is a durable record with a
  terminal outbox; flows wait for users and signals in a durable store; agents receive their messages through a durable inbox, spend model tokens that a ledger charges against
  budgets, and call tools whose calls are classified, checked against the mandate of the user and, where needed, approved by a
  person.  This development models the Python code of these parts, function by function, and proves what each of them promises.

  \<^bold>\<open>How the code is modelled.\<close>  Every public method of the stores that changes state holds a lock or a database transaction while it runs.  A
  method is therefore one function from the state to a result and a new state (\<open>'a res\<close> when it may raise: \<open>Inl\<close> carries the
  exception), and threads interleave whole methods: the \<open>inductive\<close> step relations have one rule per method and what holds of
  every reachable state is proved by rule induction, through the locales \<open>store_system\<close> (an invariant) and \<open>evolving_store\<close> (an
  invariant and a transitive relation between earlier and later states) of \<open>Prelude\<close>.  The clock, \<open>uuid4\<close>, the calendar,
  \<open>json.loads\<close>, SHA-256 and Python's \<open>repr\<close> of containers are arguments.  Dictionaries are insertion-ordered association lists,
  JSON values the datatype \<open>json\<close> with Python's truth value, equality and dynamic errors; strings are ASCII; integers are
  unbounded as in Python; floats are real numbers.

  \<^bold>\<open>Theories.\<close>
  \<^item> \<open>Prelude\<close>, \<open>Json\<close>: exceptions, dictionaries, Python's string functions, stable sorting, JSON documents and their canonical
    text, the two locales.
  \<^item> \<open>FlowFiles\<close> (\<open>core/__init__.py\<close>), \<open>Prioritizer\<close> (\<open>core/prioritizer.py\<close>), \<open>Connection\<close> and \<open>Connection_Manager\<close>
    (\<open>core/connection.py\<close>): the data unit, the queue in its four modes, the bounded connection and the connections of a flow.
    The locale \<open>bounded_queue\<close> is what a connection relies on, \<open>pq\<close> its interpretation on the queue.  Shown: byte accounting and
    limits on every run, order of service, exact acceptance, expiry, removal, and the index of the manager.
  \<^item> \<open>Task_State\<close> (\<open>core/task_state.py\<close>, interpretation \<open>tss\<close>), \<open>Checkpoint\<close> (\<open>engine/checkpoint.py\<close>), \<open>Executor\<close> with \<open>Executor_Proofs\<close>,
    \<open>Executor_Outcomes\<close> and \<open>Executor_Update\<close> (\<open>engine/continuous_executor.py\<close>, \<open>engine/_continuous_exec_run.py\<close>, \<open>engine/_continuous_exec_control.py\<close>, interpretations \<open>xsys\<close>, \<open>rstq\<close>, \<open>rcvq\<close>):
    the engine that moves FlowFiles between tasks.  Methods of its threads hold no common lock, so that the scheduler (one
    submission), a worker (taking its input, one attempt) and every control operation are separate steps of \<open>exec_step\<close>.  Shown: the
    life cycle of a task, exact worker counts and their limit, where a FlowFile and the results of a task end up on commit, retry,
    rollback and stop, when an idle flow stops, and what recovery and the replacement of a flow restore.  The locale \<open>queue_filler\<close>
    is the walk over saved queues that recovery and replacement share.
  \<^item> \<open>Interaction_Answers\<close> and \<open>Interactions\<close> (\<open>core/confirmation_store.py\<close>), \<open>Interaction_Tasks\<close> (\<open>tasks/control/durable_confirm.py\<close>) and
    \<open>Interaction_Proofs\<close> (interpretations \<open>its\<close>, \<open>itr\<close>): typed questions to the user and FlowFiles parked on a signal or a timer.  Every operation of the store is a
    sequence of transactions on the table of waits; a delivery injects into the executors above.  Shown: what an accepted answer is, each parked
    FlowFile returns at most once and unchanged, a signal resumes a running flow, a remembered value is taken once, and the two ways in which a wait
    is never released (a late answer, a notification between two transactions).
  \<^item> \<open>Poll_Scheduler\<close> (\<open>core/poll_scheduler.py\<close>, interpretation \<open>pss\<close>): the wake-ups of agents and their file.  Entries are objects
    with an identity, which claims and retries compare.  Shown: a cancelled wake-up does not come back, no object is claimed twice, and
    what a restart gives back.
  \<^item> \<open>Flow_Run\<close> (\<open>core/flow_run_store.py\<close>, interpretation \<open>frs\<close>) and \<open>Flow_Coordinator\<close> (\<open>core/flow_run_coordinator.py\<close>): the
    life cycle of a run, exactly one terminal event, generations; the coordinator refines sequences of store transactions, and
    cancels, delivers and replays as promised.
  \<^item> \<open>Validator\<close> (\<open>engine/validator.py\<close>) and \<open>Cron\<close> (\<open>engine/cron_parser.py\<close>): validity of a flow and its cycle search; the
    CRON fields and the match of a date.
  \<^item> \<open>Usage_Ledger\<close> (\<open>core/usage_ledger.py\<close>) and \<open>Budget\<close> (\<open>core/budget_store.py\<close>, interpretation \<open>bst\<close>): frozen costs,
    aggregates that add up, enforcement and alerts.
  \<^item> \<open>Inbox\<close>, \<open>Inbox_Proofs\<close> (\<open>core/agent_inbox_store.py\<close>, interpretations \<open>ibx\<close>, \<open>ibd\<close>, \<open>ibr\<close>) and \<open>Pending_Queue\<close>
    (\<open>core/pending_queue.py\<close>): no message is lost or delivered twice, leases are exclusive, a force stop is final, receipts are
    reconciled; the pending queue refines inbox transactions and drains completely.
  \<^item> \<open>Tool_Sequence\<close> (\<open>core/llm_tool_sequence.py\<close>): the repaired context satisfies the rule of the providers.
  \<^item> \<open>Tool_Approval\<close> (\<open>core/tool_approval.py\<close>, interpretation \<open>gts\<close>): the tables and tests of the approval gate, its permissions
    and its dialogue.  \<open>check\<close> is cut at its wait into \<open>check_start\<close> and \<open>check_finish\<close>, between which other threads act.
  \<^item> \<open>Authority\<close> (\<open>core/authorization_context.py\<close>, interpretation \<open>auth\<close>): the versioned mandate of the user.
  \<^item> \<open>Gating\<close> (\<open>core/gating_policy.py\<close>), \<open>Gate_Service\<close> (\<open>core/gating_script_runner.py\<close>, \<open>services/gating_service.py\<close>) and
    \<open>Tool_Authorization\<close> (\<open>core/gating_bindings.py\<close>, \<open>core/tool_authorization.py\<close>): decisions and their merge, redaction,
    classification, the evaluation of one gate, the bindings, the decision on a call and its audit record.
  \<^item> This theory: what the secondary runtimes get from the gates and the approval dialogue together.

  \<^bold>\<open>Bounds and recursion.\<close>  Loops are structural recursions or \<open>function\<close>s with a termination proof.  Two of them take a bound:
  the depth-first search of the validator, for which the number of tasks is enough (\<open>check_cycles_exact\<close>), and the drain of a
  pending queue, for which one round more than the full batches is enough (\<open>drain_exact\<close>).

  \<^bold>\<open>Not modelled.\<close>  The task plug-ins other than those that ask or notify the user and wait; triggers, provenance, the debugger and the cluster; parsers of flow documents and of NiFi templates; the conversation store beyond its extras; the clients of the
  model providers and the agent loop around them; the handlers, services and tasks that do HTTP, file, chat and device input and
  output; user-interface views of the modelled stores.  They perform input and output or glue third-party libraries together.
\<close>

subsection \<open>The secondary runtimes\<close>


definition wipe_call :: authz_call where
  "wipe_call = runtime_call \<lparr>ci_user = ''u'', ci_conversation = ''c'', ci_agent = ''a'', ci_turn = [], ci_tool = ''bash'', ci_call = []\<rparr>
     (JDict [(''command'', JStr ''rm -rf /'')]) ''default'' [] []"


end
